(* ===== verification/Prelude.thy ===== *)
theory Prelude
  imports Main "HOL-Library.Word"
begin

text \<open>
  The vocabulary shared by the component theories.

  \<^item> machine integers: \<open>uint8_t\<close> \dots \<open>uint64_t\<close> and \<open>std::size_t\<close> are words, so that
    every wrap-around of the source is a wrap-around of the model; an unsigned \<open>int\<close> of the
    configuration stays an \<open>int\<close> whose overflow is an error value;
  \<^item> failures: \<open>cpp_error\<close> lists the exceptions the sources throw, and \<open>Undefined\<close>
    stands for undefined behaviour (a copy outside an array, a null dereference, signed
    overflow), so that "the program is well behaved" is "the result is an \<open>Inr\<close>";
  \<^item> \<open>memcpy\<close> into a byte array, with the range check that the C++ function does not make;
  \<^item> \<open>std::map\<close> as an association list sorted by key, with the interface \<open>ordered_map\<close>
    that the clients rely on;
  \<^item> the interface \<open>transition_system\<close>: what holds initially and is kept by every step holds
    in every reachable state.
\<close>

unbundle bit_operations_syntax

section \<open>Machine integers\<close>

type_synonym u8 = "8 word"
type_synonym u16 = "16 word"
type_synonym u32 = "32 word"
type_synonym u64 = "64 word"
type_synonym byte = "8 word"

named_theorems cpp_simps \<open>unfolding the C++ vocabulary\<close>
named_theorems om_simps \<open>lookups in ordered maps\<close>

definition int_min :: int where "int_min = - (2 ^ 31)"
definition int_max :: int where "int_max = 2 ^ 31 - 1"

text \<open>The range of the C++ type \<open>int\<close>; arithmetic that leaves it is undefined.\<close>

definition int_ok :: "int \<Rightarrow> bool" where
  "int_ok x \<longleftrightarrow> int_min \<le> x \<and> x \<le> int_max"

lemma int_ok_iff [cpp_simps]: "int_ok x \<longleftrightarrow> - 2147483648 \<le> x \<and> x \<le> 2147483647"
  by (simp add: int_ok_def int_min_def int_max_def)

section \<open>Errors\<close>

datatype cpp_error =
    RuntimeError string
  | InvalidArgument string
  | OutOfRange string
  | JsonError string
  | Undefined string
  | Terminated string \<comment> \<open>\<open>std::terminate\<close>: an exception leaves a \<open>noexcept\<close> function\<close>

type_synonym 'a res = "cpp_error + 'a"

definition bindE :: "'a res \<Rightarrow> ('a \<Rightarrow> 'b res) \<Rightarrow> 'b res" where
  "bindE m f = (case m of Inl e \<Rightarrow> Inl e | Inr x \<Rightarrow> f x)"

lemma bindE_simps [simp]: "bindE (Inl e) f = Inl e" "bindE (Inr x) f = f x"
  by (simp_all add: bindE_def)

lemma bindE_eq_Inr: "bindE m f = Inr y \<longleftrightarrow> (\<exists>x. m = Inr x \<and> f x = Inr y)"
  by (cases m) simp_all

lemma bindE_eq_Inl: "bindE m f = Inl e \<longleftrightarrow> m = Inl e \<or> (\<exists>x. m = Inr x \<and> f x = Inl e)"
  by (cases m) simp_all

lemma bindE_assoc: "bindE (bindE m f) g = bindE m (\<lambda>x. bindE (f x) g)"
  by (cases m) simp_all

fun is_ok :: "'a res \<Rightarrow> bool" where
  "is_ok (Inr _) = True"
| "is_ok (Inl _) = False"

lemma is_okE: "is_ok m \<Longrightarrow> (\<And>x. m = Inr x \<Longrightarrow> P) \<Longrightarrow> P"
  by (cases m) simp_all

text \<open>Signed 32-bit multiplication of the source: exact, or undefined.\<close>

definition int_mul :: "int \<Rightarrow> int \<Rightarrow> int res" where
  "int_mul a b = (if int_ok (a * b) then Inr (a * b) else Inl (Undefined ''signed overflow''))"

text \<open>C++ integer division truncates towards zero; a zero divisor is undefined.\<close>

definition int_quot :: "int \<Rightarrow> int \<Rightarrow> int" where
  "int_quot a b = sgn a * sgn b * (\<bar>a\<bar> div \<bar>b\<bar>)"

lemma int_quot_pos [simp]: "0 \<le> a \<Longrightarrow> 0 < b \<Longrightarrow> int_quot a b = a div b"
  by (cases "a = 0") (simp_all add: int_quot_def)

text \<open>A loop over a range that stops at the first exception.\<close>

fun forE :: "('a \<Rightarrow> 's \<Rightarrow> 's res) \<Rightarrow> 'a list \<Rightarrow> 's \<Rightarrow> 's res" where
  "forE f [] s = Inr s"
| "forE f (x # xs) s = bindE (f x s) (forE f xs)"

lemma forE_append: "forE f (xs @ ys) s = bindE (forE f xs s) (forE f ys)"
  by (induction xs arbitrary: s) (simp_all add: bindE_def split: sum.splits)

lemma bindE_forE_Nil [simp]: "bindE m (forE f []) = m"
  by (cases m) simp_all

lemma forE_map: "forE f (map g xs) s = forE (\<lambda>x. f (g x)) xs s"
  by (induction xs arbitrary: s) (simp_all add: bindE_def split: sum.splits)

lemma forE_cong:
  assumes "\<And>x s. x \<in> set xs \<Longrightarrow> f x s = g x s"
  shows "forE f xs s = forE g xs s"
  using assms by (induction xs arbitrary: s) (simp_all add: bindE_def split: sum.splits)

lemma forE_invariant:
  assumes "forE f xs s = Inr t" and "P s"
    and "\<And>x s t. x \<in> set xs \<Longrightarrow> P s \<Longrightarrow> f x s = Inr t \<Longrightarrow> P t"
  shows "P t"
  using assms
proof (induction xs arbitrary: s)
  case Nil
  then show ?case by simp
next
  case (Cons x xs)
  from Cons.prems(1) obtain u where u: "f x s = Inr u" "forE f xs u = Inr t"
    by (auto simp: bindE_eq_Inr)
  have "P u" using Cons.prems(2,3) u(1) by auto
  moreover have "\<And>y s t. y \<in> set xs \<Longrightarrow> P s \<Longrightarrow> f y s = Inr t \<Longrightarrow> P t"
    using Cons.prems(3) by auto
  ultimately show ?case using Cons.IH u(2) by blast
qed

lemma forE_ok:
  assumes "P s" and "\<And>x s. x \<in> set xs \<Longrightarrow> P s \<Longrightarrow> \<exists>t. f x s = Inr t \<and> P t"
  shows "\<exists>t. forE f xs s = Inr t \<and> P t"
  using assms
proof (induction xs arbitrary: s)
  case Nil
  then show ?case by simp
next
  case (Cons x xs)
  from Cons.prems(1) Cons.prems(2) [of x s] obtain u where "f x s = Inr u" "P u" by auto
  moreover have "\<And>y s. y \<in> set xs \<Longrightarrow> P s \<Longrightarrow> \<exists>t. f y s = Inr t \<and> P t"
    using Cons.prems(2) by auto
  ultimately show ?case using Cons.IH by simp
qed

lemma takeWhile_neq:
  assumes "\<forall>x \<in> set xs. f x \<noteq> a" and "f y = a"
  shows "takeWhile (\<lambda>x. f x \<noteq> a) (xs @ y # ys) = xs"
    and "dropWhile (\<lambda>x. f x \<noteq> a) (xs @ y # ys) = y # ys"
  using assms by (induction xs) auto

section \<open>Byte arrays\<close>

text \<open>The conversion of a size to \<open>int32_t\<close>.\<close>

definition to_int32 :: "nat \<Rightarrow> int" where
  "to_int32 n = signed_take_bit 31 (int n)"

lemma to_int32_small: "int n < 2 ^ 31 \<Longrightarrow> to_int32 n = int n"
  unfolding to_int32_def by (intro signed_take_bit_int_eq_self) simp_all

definition overwrite :: "nat \<Rightarrow> 'a list \<Rightarrow> 'a list \<Rightarrow> 'a list" where
  "overwrite off src dst = take off dst @ src @ drop (off + length src) dst"

definition memcpy :: "'a list \<Rightarrow> nat \<Rightarrow> 'a list \<Rightarrow> 'a list res" where
  "memcpy dst off src =
     (if off + length src \<le> length dst then Inr (overwrite off src dst)
      else Inl (Undefined ''memcpy out of range''))"

definition segment :: "nat \<Rightarrow> nat \<Rightarrow> 'a list \<Rightarrow> 'a list" where
  "segment off n xs = take n (drop off xs)"

lemma length_overwrite [simp]:
  "off + length src \<le> length dst \<Longrightarrow> length (overwrite off src dst) = length dst"
  by (simp add: overwrite_def)

lemma nth_overwrite:
  assumes "off + length src \<le> length dst" and "i < length dst"
  shows "overwrite off src dst ! i =
    (if off \<le> i \<and> i < off + length src then src ! (i - off) else dst ! i)"
  using assms by (auto simp: overwrite_def nth_append min_def)

lemma length_segment [simp]: "off + n \<le> length xs \<Longrightarrow> length (segment off n xs) = n"
  by (simp add: segment_def)

lemma nth_segment: "off + n \<le> length xs \<Longrightarrow> i < n \<Longrightarrow> segment off n xs ! i = xs ! (off + i)"
  by (simp add: segment_def)

lemma segment_overwrite_same:
  "off + length src \<le> length dst \<Longrightarrow> segment off (length src) (overwrite off src dst) = src"
  by (simp add: segment_def overwrite_def)

lemma segment_overwrite_disjoint:
  assumes "off + length src \<le> length dst" and "a + n \<le> length dst"
    and "a + n \<le> off \<or> off + length src \<le> a"
  shows "segment a n (overwrite off src dst) = segment a n dst"
  using assms by (intro nth_equalityI) (auto simp: nth_segment nth_overwrite)

lemma memcpy_ok [simp]:
  "off + length src \<le> length dst \<Longrightarrow> memcpy dst off src = Inr (overwrite off src dst)"
  by (simp add: memcpy_def)

lemma memcpy_Inr_iff:
  "memcpy dst off src = Inr d \<longleftrightarrow> off + length src \<le> length dst \<and> d = overwrite off src dst"
  by (auto simp: memcpy_def)

lemma length_memcpy: "memcpy dst off src = Inr d \<Longrightarrow> length d = length dst"
  by (auto simp: memcpy_Inr_iff)

text \<open>Disjoint blocks of equal size do not overlap.\<close>

lemma block_disjoint:
  fixes i j n :: nat
  assumes "i \<noteq> j"
  shows "i * n + n \<le> j * n \<or> j * n + n \<le> i * n"
proof (cases "i < j")
  case True
  then have "Suc i * n \<le> j * n" by (intro mult_le_mono1) simp
  then show ?thesis by simp
next
  case False
  with assms have "Suc j * n \<le> i * n" by (intro mult_le_mono1) simp
  then show ?thesis by simp
qed

lemma block_in_range:
  fixes i k n :: nat
  assumes "i < k"
  shows "i * n + n \<le> k * n"
proof -
  from assms have "Suc i * n \<le> k * n" by (intro mult_le_mono1) simp
  then show ?thesis by simp
qed

section \<open>Word arithmetic without wrap-around\<close>

lemma unat_mult_no_wrap:
  fixes a b :: u64
  shows "unat a * unat b < 2 ^ 64 \<Longrightarrow> unat (a * b) = unat a * unat b"
  by (simp add: unat_word_ariths)

lemma unat_add_no_wrap:
  fixes a b :: u64
  shows "unat a + unat b < 2 ^ 64 \<Longrightarrow> unat (a + b) = unat a + unat b"
  by (simp add: unat_word_ariths)

lemma u64_less: "unat (x :: u64) < 2 ^ 64"
  using unsigned_less [of x] by simp

lemma unat_ucast_up:
  fixes x :: "'a::len word"
  assumes "LENGTH('a) \<le> LENGTH('b::len)"
  shows "unat (ucast x :: 'b word) = unat x"
proof -
  have "unat x < 2 ^ LENGTH('a)" by (rule unsigned_less)
  also have "\<dots> \<le> 2 ^ LENGTH('b)" using assms by (simp add: power_increasing)
  finally show ?thesis by (simp add: unsigned_ucast_eq take_bit_nat_eq_self)
qed

lemma distinct_map_unat:
  fixes f :: "'a \<Rightarrow> 'b::len word"
  shows "distinct (map (\<lambda>x. unat (f x)) xs) \<longleftrightarrow> distinct (map f xs)"
  by (simp add: distinct_map inj_on_def word_unat_eq_iff [symmetric])

section \<open>Decimal printing\<close>

text \<open>\<open>std::to_string\<close> and the \<open>{}\<close> of \<open>fmt::format\<close> on an unsigned number.\<close>

fun dec_digits :: "nat \<Rightarrow> string" where
  "dec_digits n =
     (if n < 10 then [char_of (n + 48)]
      else dec_digits (n div 10) @ [char_of (n mod 10 + 48)])"

declare dec_digits.simps [simp del]

definition to_string :: "u64 \<Rightarrow> string" where
  "to_string x = dec_digits (unat x)"

fun dec_value :: "string \<Rightarrow> nat" where
  "dec_value s = foldl (\<lambda>acc c. acc * 10 + (of_char c - 48)) 0 s"

text \<open>
  The numeric scanners \<open>std::stoi\<close>, \<open>std::stoul\<close> and \<open>std::stoull\<close>: leading white space,
  an optional sign, the longest run of digits; what follows is ignored.
\<close>

definition is_space :: "char \<Rightarrow> bool" where
  "is_space c \<longleftrightarrow> of_char c \<in> {9, 10, 11, 12, 13, 32 :: nat}"

definition is_digit :: "char \<Rightarrow> bool" where
  "is_digit c \<longleftrightarrow> 48 \<le> (of_char c :: nat) \<and> of_char c < (58 :: nat)"

fun scan_sign :: "string \<Rightarrow> bool \<times> string" where
  "scan_sign (c # s) = (if c = CHR ''-'' then (True, s) else if c = CHR ''+'' then (False, s)
     else (False, c # s))"
| "scan_sign [] = (False, [])"

definition scan_number :: "string \<Rightarrow> bool \<times> string \<times> string" where
  "scan_number s =
     (let (neg, t) = scan_sign (dropWhile is_space s)
      in (neg, takeWhile is_digit t, dropWhile is_digit t))"

definition stoi :: "string \<Rightarrow> int res" where
  "stoi s = (let (neg, ds, _) = scan_number s;
                 v = (if neg then - int (dec_value ds) else int (dec_value ds))
             in if ds = [] then Inl (InvalidArgument ''stoi'')
                else if int_ok v then Inr v else Inl (OutOfRange ''stoi''))"

text \<open>The value and the unread rest; a minus sign negates modulo \<open>2 ^ 64\<close>.\<close>

definition stoull :: "string \<Rightarrow> (u64 \<times> string) res" where
  "stoull s = (let (neg, ds, rest) = scan_number s; v = dec_value ds
               in if ds = [] then Inl (InvalidArgument ''stoull'')
                  else if v < 2 ^ 64
                  then Inr (if neg then - word_of_nat v else word_of_nat v, rest)
                  else Inl (OutOfRange ''stoull''))"

lemma dec_value_dec_digits [simp]: "dec_value (dec_digits n) = n"
proof (induction n rule: dec_digits.induct)
  case (1 n)
  then show ?case
    by (cases "n < 10") (simp_all add: dec_digits.simps [of n])
qed

lemma dec_digits_inject [simp]: "dec_digits m = dec_digits n \<longleftrightarrow> m = n"
  by (metis dec_value_dec_digits)

lemma dec_digits_not_Nil [simp]: "dec_digits n \<noteq> []"
  by (subst dec_digits.simps) simp

lemma dec_digits_chars: "c \<in> set (dec_digits n) \<Longrightarrow> 48 \<le> (of_char c :: nat) \<and> of_char c < (58 :: nat)"
proof (induction n rule: dec_digits.induct)
  case (1 n)
  then show ?case
    by (cases "n < 10") (auto simp: dec_digits.simps [of n])
qed

lemma scan_number_dec_digits: "scan_number (dec_digits n @ rest) =
  (False, dec_digits n @ takeWhile is_digit rest, dropWhile is_digit rest)"
proof -
  obtain c cs where ds: "dec_digits n = c # cs" by (cases "dec_digits n") auto
  have digits: "\<And>x. x \<in> set (dec_digits n) \<Longrightarrow> is_digit x"
    by (auto simp: is_digit_def dest: dec_digits_chars)
  have c: "is_digit c" using digits ds by simp
  have "\<not> is_space c" using c by (auto simp: is_space_def is_digit_def)
  moreover have "c \<noteq> CHR ''-''" "c \<noteq> CHR ''+''" using c by (auto simp: is_digit_def)
  ultimately show ?thesis using ds digits
    by (simp add: scan_number_def takeWhile_append2 dropWhile_append2)
qed

lemma stoull_to_string: "stoull (to_string x) = Inr (x, [])"
  using scan_number_dec_digits [of "unat x" "[]"] u64_less [of x]
  by (simp add: stoull_def to_string_def del: dec_value.simps)

lemma to_string_inject [simp]: "to_string x = to_string y \<longleftrightarrow> x = y"
  by (simp add: to_string_def word_unat_eq_iff)

section \<open>Transition systems\<close>

text \<open>
  The contract of an invariant: a client that interprets this locale on its initial states
  and its step relation obtains the invariant in every reachable state.
\<close>

locale transition_system =
  fixes init :: "'s \<Rightarrow> bool"
    and step :: "'s \<Rightarrow> 's \<Rightarrow> bool"
    and inv :: "'s \<Rightarrow> bool"
  assumes inv_init: "init s \<Longrightarrow> inv s"
    and inv_step: "inv s \<Longrightarrow> step s t \<Longrightarrow> inv t"
begin

lemma inv_steps: "step\<^sup>*\<^sup>* s t \<Longrightarrow> inv s \<Longrightarrow> inv t"
  by (induction rule: rtranclp_induct) (auto intro: inv_step)

lemma inv_reachable: "init s \<Longrightarrow> step\<^sup>*\<^sup>* s t \<Longrightarrow> inv t"
  by (blast intro: inv_init inv_steps)

end

end
