(* ===== verification/Formats.thy ===== *)
theory Formats
  imports Prelude
begin

text \<open>
  The data the processes exchange: the detector frames of \<open>detectors/*.hpp\<close> with their packed
  little-endian layout, and the protobuf messages of \<open>interface/std_buffer/*.proto\<close>.
  The layout functions show the convention every communicator depends on: the first eight
  bytes of any frame are its image id.
\<close>

section \<open>Little-endian byte layout\<close>

fun le_bytes :: "nat \<Rightarrow> nat \<Rightarrow> byte list" where
  "le_bytes 0 k = []"
| "le_bytes (Suc n) k = word_of_nat k # le_bytes n (k div 256)"

fun le_value :: "byte list \<Rightarrow> nat" where
  "le_value [] = 0"
| "le_value (b # bs) = unat b + 256 * le_value bs"

lemma length_le_bytes [simp]: "length (le_bytes n k) = n"
  by (induction n arbitrary: k) simp_all

lemma unat_byte_of_nat: "unat (word_of_nat k :: byte) = k mod 256"
  by (simp add: unat_of_nat)

lemma le_value_le_bytes: "le_value (le_bytes n k) = k mod 256 ^ n"
proof (induction n arbitrary: k)
  case 0
  then show ?case by simp
next
  case (Suc n)
  have "k mod 256 + 256 * (k div 256 mod 256 ^ n) = k mod (256 * 256 ^ n)"
    by (simp add: mod_mult2_eq)
  with Suc show ?case by (simp add: unat_byte_of_nat)
qed

lemma le_value_bound: "le_value bs < 256 ^ length bs"
proof (induction bs)
  case Nil
  then show ?case by simp
next
  case (Cons b bs)
  have "unat b < 256" using unsigned_less [of b] by simp
  with Cons show ?case by simp
qed

lemma le_bytes_le_value: "le_bytes (length bs) (le_value bs) = bs"
proof (induction bs)
  case Nil
  then show ?case by simp
next
  case (Cons b bs)
  have b: "unat b < 256" using unsigned_less [of b] by simp
  have w: "(word_of_nat (unat b + 256 * le_value bs) :: byte) = b"
    using b by (simp only: word_unat_eq_iff unat_byte_of_nat) simp
  have d: "(unat b + 256 * le_value bs) div 256 = le_value bs"
    using b by simp
  show ?case using Cons by (simp only: le_bytes.simps le_value.simps length_Cons w d)
qed

definition u64_bytes :: "u64 \<Rightarrow> byte list" where "u64_bytes x = le_bytes 8 (unat x)"
definition u32_bytes :: "u32 \<Rightarrow> byte list" where "u32_bytes x = le_bytes 4 (unat x)"
definition u16_bytes :: "u16 \<Rightarrow> byte list" where "u16_bytes x = le_bytes 2 (unat x)"
definition u8_bytes :: "u8 \<Rightarrow> byte list" where "u8_bytes x = [x]"

definition bytes_u64 :: "byte list \<Rightarrow> u64" where "bytes_u64 bs = word_of_nat (le_value bs)"

lemma length_word_bytes [simp]:
  "length (u64_bytes x) = 8" "length (u32_bytes y) = 4"
  "length (u16_bytes z) = 2" "length (u8_bytes b) = 1"
  by (simp_all add: u64_bytes_def u32_bytes_def u16_bytes_def u8_bytes_def)

lemma bytes_u64_u64_bytes [simp]: "bytes_u64 (u64_bytes x) = x"
proof -
  have "unat x mod 256 ^ 8 = unat x"
    using u64_less [of x] by simp
  then show ?thesis by (simp add: bytes_u64_def u64_bytes_def le_value_le_bytes)
qed

section \<open>\<open>detectors/common.hpp\<close>\<close>

definition DET_FRAME_STRUCT_BYTES :: nat where "DET_FRAME_STRUCT_BYTES = 64"

definition INVALID_IMAGE_ID :: u64 where "INVALID_IMAGE_ID = - 1"

record CommonFrame =
  image_id :: u64
  n_missing_packets :: u64
  module_id :: u16

definition CommonFrame_bytes :: "CommonFrame \<Rightarrow> byte list" where
  "CommonFrame_bytes c =
     u64_bytes (image_id c) @ u64_bytes (n_missing_packets c) @ u16_bytes (module_id c)"

lemma length_CommonFrame_bytes [simp]: "length (CommonFrame_bytes c) = 18"
  by (simp add: CommonFrame_bytes_def)

lemma take_CommonFrame_bytes: "take 8 (CommonFrame_bytes c @ rest) = u64_bytes (image_id c)"
  by (simp add: CommonFrame_bytes_def)

section \<open>\<open>detectors/jungfrau.hpp\<close>\<close>

definition jf_BYTES_PER_PACKET :: nat where "jf_BYTES_PER_PACKET = 8240"
definition jf_DATA_BYTES_PER_PACKET :: nat where "jf_DATA_BYTES_PER_PACKET = 8192"
definition jf_MODULE_X_SIZE :: nat where "jf_MODULE_X_SIZE = 1024"
definition jf_MODULE_Y_SIZE :: nat where "jf_MODULE_Y_SIZE = 512"
definition jf_MODULE_N_PIXELS :: nat where "jf_MODULE_N_PIXELS = jf_MODULE_Y_SIZE * jf_MODULE_X_SIZE"
definition jf_PIXEL_N_BYTES :: nat where "jf_PIXEL_N_BYTES = 2"
definition jf_MODULE_N_BYTES :: nat where "jf_MODULE_N_BYTES = jf_PIXEL_N_BYTES * jf_MODULE_N_PIXELS"
definition jf_N_PACKETS_PER_FRAME :: nat where "jf_N_PACKETS_PER_FRAME = 128"

lemmas jf_consts = jf_BYTES_PER_PACKET_def jf_DATA_BYTES_PER_PACKET_def jf_MODULE_X_SIZE_def
  jf_MODULE_Y_SIZE_def jf_MODULE_N_PIXELS_def jf_PIXEL_N_BYTES_def jf_MODULE_N_BYTES_def
  jf_N_PACKETS_PER_FRAME_def

record JFFrame =
  jf_common :: CommonFrame
  jf_id :: u64
  jf_frame_index :: u64
  jf_daq_rec :: u64
  jf_module_id :: u64

definition JFFrame_bytes :: "JFFrame \<Rightarrow> byte list" where
  "JFFrame_bytes f =
     CommonFrame_bytes (jf_common f) @ u64_bytes (jf_id f) @ u64_bytes (jf_frame_index f) @
     u64_bytes (jf_daq_rec f) @ u64_bytes (jf_module_id f) @
     replicate (DET_FRAME_STRUCT_BYTES - 18 - 32) 0"

text \<open>The header fields of a packet that the receiver reads; \<open>bunchid\<close> is a \<open>double\<close> of
  which only the conversion to \<open>uint64_t\<close> is used.\<close>

record JFUdpPacket =
  jfp_framenum :: u64
  jfp_packetnum :: u32
  jfp_bunchid_u64 :: u64
  jfp_debug :: u32
  jfp_data :: "byte list"

section \<open>\<open>detectors/eiger.hpp\<close>\<close>

definition eg_BYTES_PER_PACKET :: nat where "eg_BYTES_PER_PACKET = 4144"
definition eg_DATA_BYTES_PER_PACKET :: nat where "eg_DATA_BYTES_PER_PACKET = 4096"
definition eg_MODULE_X_SIZE :: nat where "eg_MODULE_X_SIZE = 512"
definition eg_MODULE_Y_SIZE :: nat where "eg_MODULE_Y_SIZE = 256"
definition eg_MODULE_N_PIXELS :: nat where "eg_MODULE_N_PIXELS = 131072"

lemmas eg_consts = eg_BYTES_PER_PACKET_def eg_DATA_BYTES_PER_PACKET_def eg_MODULE_X_SIZE_def
  eg_MODULE_Y_SIZE_def eg_MODULE_N_PIXELS_def

record EGFrame =
  eg_common :: CommonFrame
  eg_bit_depth :: u16
  eg_pos_y :: u16
  eg_pos_x :: u16

definition EGFrame_bytes :: "EGFrame \<Rightarrow> byte list" where
  "EGFrame_bytes f =
     CommonFrame_bytes (eg_common f) @ u16_bytes (eg_bit_depth f) @ u16_bytes (eg_pos_y f) @
     u16_bytes (eg_pos_x f) @ replicate (DET_FRAME_STRUCT_BYTES - 18 - 6) 0"

record EGUdpPacket =
  egp_frame_num :: u64
  egp_packet_number :: u32
  egp_row :: u16
  egp_column :: u16
  egp_data :: "byte list"

section \<open>\<open>detectors/gigafrost.hpp\<close>: the structures\<close>

definition gf_PACKET_N_DATA_BYTES_MAX :: nat where "gf_PACKET_N_DATA_BYTES_MAX = 7400"
definition gf_BYTES_PER_PACKET :: nat where
  "gf_BYTES_PER_PACKET = gf_PACKET_N_DATA_BYTES_MAX + 32"

record GFUdpPacket =
  gfp_protocol_id :: u8
  gfp_quadrant_row_length_in_blocks :: u8
  gfp_quadrant_rows :: u8
  gfp_status_flags :: u8
  gfp_scan_id :: u32
  gfp_frame_index :: u32
  gfp_image_status_flags :: u16
  gfp_packet_starting_row :: u16
  gfp_image_timing :: u64
  gfp_sync_time :: u32
  gfp_scan_time :: u32
  gfp_data :: "byte list"

record GFFrame =
  gf_common :: CommonFrame
  gf_swapped_rows :: u8
  gf_link_id :: u8
  gf_corr_mode :: u8
  gf_quadrant_id :: u8
  gf_rpf :: u8
  gf_do_not_store :: u8
  gf_scan_id :: u32
  gf_size_x :: u32
  gf_size_y :: u32
  gf_scan_time :: u32
  gf_sync_time :: u32
  gf_frame_timestamp :: u64
  gf_exposure_time :: u64

definition GFFrame_bytes :: "GFFrame \<Rightarrow> byte list" where
  "GFFrame_bytes f =
     CommonFrame_bytes (gf_common f) @
     u8_bytes (gf_swapped_rows f) @ u8_bytes (gf_link_id f) @ u8_bytes (gf_corr_mode f) @
     u8_bytes (gf_quadrant_id f) @ u8_bytes (gf_rpf f) @ u8_bytes (gf_do_not_store f) @
     u32_bytes (gf_scan_id f) @ u32_bytes (gf_size_x f) @ u32_bytes (gf_size_y f) @
     u32_bytes (gf_scan_time f) @ u32_bytes (gf_sync_time f) @
     u64_bytes (gf_frame_timestamp f) @ u64_bytes (gf_exposure_time f) @
     replicate (DET_FRAME_STRUCT_BYTES - 18 - 6 - 12 - 24) 0"

text \<open>The \<open>static_assert\<close>s of the headers: every frame is one cache line.\<close>

lemma length_frame_bytes [simp]:
  "length (JFFrame_bytes j) = DET_FRAME_STRUCT_BYTES"
  "length (EGFrame_bytes e) = DET_FRAME_STRUCT_BYTES"
  "length (GFFrame_bytes g) = DET_FRAME_STRUCT_BYTES"
  by (simp_all add: JFFrame_bytes_def EGFrame_bytes_def GFFrame_bytes_def
      DET_FRAME_STRUCT_BYTES_def)

text \<open>The convention of \<open>Communicator::receive\<close>: the id stands first.\<close>

lemma take_frame_bytes:
  "take 8 (JFFrame_bytes j) = u64_bytes (image_id (jf_common j))"
  "take 8 (EGFrame_bytes e) = u64_bytes (image_id (eg_common e))"
  "take 8 (GFFrame_bytes g) = u64_bytes (image_id (gf_common g))"
  by (simp_all only: JFFrame_bytes_def EGFrame_bytes_def GFFrame_bytes_def take_CommonFrame_bytes)

section \<open>\<open>detectors/jungfraujoch.hpp\<close>\<close>

definition JFJOCH_N_MODULES :: nat where "JFJOCH_N_MODULES = 32"
definition JFJOCH_BYTES_PER_PACKET :: nat where "JFJOCH_BYTES_PER_PACKET = 8240"
definition JFJOCH_DATA_BYTES_PER_PACKET :: nat where "JFJOCH_DATA_BYTES_PER_PACKET = 8192"
definition JFJOCH_N_PACKETS_PER_FRAME :: nat where "JFJOCH_N_PACKETS_PER_FRAME = JFJOCH_N_MODULES * 128"
definition JFJOCH_DATA_BYTES_PER_FRAME :: nat where "JFJOCH_DATA_BYTES_PER_FRAME = JFJOCH_N_MODULES * 1048576"

lemmas jfjoch_consts = JFJOCH_N_MODULES_def JFJOCH_BYTES_PER_PACKET_def JFJOCH_DATA_BYTES_PER_PACKET_def
  JFJOCH_N_PACKETS_PER_FRAME_def JFJOCH_DATA_BYTES_PER_FRAME_def

record jfjoch_packet_t =
  jj_framenum :: u64
  jj_exptime :: u32
  jj_packetnum :: u32
  jj_bunchid :: "64 word"
  jj_timestamp :: u64
  jj_moduleID :: u16
  jj_xCoord :: u16
  jj_yCoord :: u16
  jj_zCoord :: u16
  jj_debug :: u32
  jj_roundRobin :: u16
  jj_detectortype :: u8
  jj_headerVersion :: u8
  jj_data :: "byte list"

text \<open>With \<open>pack(2)\<close> there is no padding, because every field starts at an even offset.\<close>

definition jfjoch_packet_bytes :: "jfjoch_packet_t \<Rightarrow> byte list" where
  "jfjoch_packet_bytes p = u64_bytes (jj_framenum p) @ u32_bytes (jj_exptime p) @ u32_bytes (jj_packetnum p) @
     u64_bytes (jj_bunchid p) @ u64_bytes (jj_timestamp p) @ u16_bytes (jj_moduleID p) @ u16_bytes (jj_xCoord p) @
     u16_bytes (jj_yCoord p) @ u16_bytes (jj_zCoord p) @ u32_bytes (jj_debug p) @ u16_bytes (jj_roundRobin p) @
     u8_bytes (jj_detectortype p) @ u8_bytes (jj_headerVersion p) @ jj_data p"

lemma length_jfjoch_packet:
  "length (jj_data p) = JFJOCH_DATA_BYTES_PER_PACKET \<Longrightarrow> length (jfjoch_packet_bytes p) = JFJOCH_BYTES_PER_PACKET"
  by (simp add: jfjoch_packet_bytes_def jfjoch_consts)

lemma jfjoch_frame_bytes: "JFJOCH_N_PACKETS_PER_FRAME * JFJOCH_DATA_BYTES_PER_PACKET = JFJOCH_DATA_BYTES_PER_FRAME"
  by (simp add: jfjoch_consts)

section \<open>\<open>core_buffer/formats.hpp\<close>\<close>

datatype FormatStatus = fmt_good_image | fmt_missing_packets | fmt_id_missmatch

definition get_meta_data_status :: "u64 \<Rightarrow> FormatStatus" where
  "get_meta_data_status missing = (if missing = 0 then fmt_good_image else fmt_missing_packets)"

section \<open>The protobuf messages\<close>

datatype ImageMetadataDtype =
    dt_unknown | dt_uint8 | dt_uint16 | dt_uint32 | dt_uint64
  | dt_int8 | dt_int16 | dt_int32 | dt_int64 | dt_float16 | dt_float32 | dt_float64

datatype ImageMetadataStatus = st_undefined | st_good_image | st_missing_packets | st_id_missmatch

datatype ImageMetadataCompression = cmp_none | cmp_h5bitshuffle_lz4 | cmp_blosc2

record GFImageMetadata =
  gfm_scan_id :: u32
  gfm_scan_time :: u32
  gfm_sync_time :: u32
  gfm_frame_timestamp :: u64
  gfm_exposure_time :: u64
  gfm_store_image :: bool

record PcoImageMetadata =
  pco_global_timestamp_sec :: u64
  pco_global_timestamp_ns :: u64
  pco_bsread_name :: string

datatype image_metadata_oneof =
    NoMeta
  | GfMeta GFImageMetadata
  | JfMeta u64 \<comment> \<open>\<open>daq_rec\<close>\<close>
  | EgMeta u64 \<comment> \<open>\<open>exptime\<close>\<close>
  | PcoMeta PcoImageMetadata

record ImageMetadata =
  im_image_id :: u64
  im_height :: u64
  im_width :: u64
  im_size :: u64
  im_dtype :: ImageMetadataDtype
  im_status :: ImageMetadataStatus
  im_compression :: ImageMetadataCompression
  im_oneof :: image_metadata_oneof

text \<open>The default instance of proto3: every scalar is zero, no \<open>oneof\<close> member is set.\<close>

definition default_ImageMetadata :: ImageMetadata where
  "default_ImageMetadata =
     \<lparr>im_image_id = 0, im_height = 0, im_width = 0, im_size = 0, im_dtype = dt_unknown,
      im_status = st_undefined, im_compression = cmp_none, im_oneof = NoMeta\<rparr>"

definition default_GFImageMetadata :: GFImageMetadata where
  "default_GFImageMetadata =
     \<lparr>gfm_scan_id = 0, gfm_scan_time = 0, gfm_sync_time = 0, gfm_frame_timestamp = 0,
      gfm_exposure_time = 0, gfm_store_image = False\<rparr>"

definition default_PcoImageMetadata :: PcoImageMetadata where
  "default_PcoImageMetadata =
     \<lparr>pco_global_timestamp_sec = 0, pco_global_timestamp_ns = 0, pco_bsread_name = []\<rparr>"

text \<open>\<open>meta.gf()\<close> and \<open>meta.pco()\<close>: the member, or its default instance.\<close>

definition im_gf :: "ImageMetadata \<Rightarrow> GFImageMetadata" where
  "im_gf m = (case im_oneof m of GfMeta g \<Rightarrow> g | _ \<Rightarrow> default_GFImageMetadata)"

definition im_pco :: "ImageMetadata \<Rightarrow> PcoImageMetadata" where
  "im_pco m = (case im_oneof m of PcoMeta p \<Rightarrow> p | _ \<Rightarrow> default_PcoImageMetadata)"

record BufferedMetadata =
  bm_metadata :: ImageMetadata
  bm_offset :: u64

record CreateFileCommand =
  cfc_path :: string
  cfc_writer_id :: "32 word"

datatype WriterAction =
    CreateFile CreateFileCommand
  | RecordImage ImageMetadata
  | CloseFile
  | ConfirmLastImage

datatype ResponseCode = UNKNOWN | SUCCESS | FAILURE

record WriterResponse =
  wr_code :: ResponseCode
  wr_reason :: string

record RequestNextImage =
  rni_image_id :: u64
  rni_new_request :: bool

datatype NextImageResponse = NoImage | Ack u64

end
