(* ===== verification/RamBuffer.thy ===== *)
theory RamBuffer
  imports Formats
begin

text \<open>
  \<open>core-buffer\<close>: the shared-memory ring of image slots (\<open>ram_buffer\<close>) and the
  \<open>Communicator\<close> that pairs it with a ZeroMQ socket.

  The mapped memory is a list of bytes; a pointer into it is an offset. The operating system is
  a parameter of the constructor: \<open>shm_open\<close> gives a descriptor, \<open>ftruncate\<close> a status, \<open>mmap\<close> the
  mapped bytes or a failure. What ZeroMQ does with a message after \<open>zmq_send\<close> is outside: the
  model records the messages handed over, and takes the result of \<open>zmq_recv\<close> as an argument.
\<close>

section \<open>The buffer\<close>

record RamBuffer =
  rb_n_slots :: u64
  rb_data_bytes :: u64
  rb_buffer_bytes :: u64
  rb_buffer :: "byte list"

record shm_api =
  shm_open :: "string \<Rightarrow> int"
  ftruncate :: "int \<Rightarrow> u64 \<Rightarrow> int"
  mmap :: "int \<Rightarrow> u64 \<Rightarrow> byte list option"
  strerror :: string

definition align_to_2mb :: "u64 \<Rightarrow> u64" where
  "align_to_2mb sz =
     (let alignment = 2 * 1024 * 1024 in ((sz + alignment - 1) div alignment) * alignment)"

definition RamBuffer_ctor :: "shm_api \<Rightarrow> string \<Rightarrow> u64 \<Rightarrow> u64 \<Rightarrow> RamBuffer res" where
  "RamBuffer_ctor os channel_name data_n_bytes n_slots =
     (let bytes = align_to_2mb (data_n_bytes * n_slots); fd = shm_open os channel_name in
      if fd < 0 then Inl (RuntimeError (''shm_open failed: '' @ strerror os))
      else if ftruncate os fd bytes = - 1 then Inl (RuntimeError (strerror os))
      else case mmap os fd bytes of
             None \<Rightarrow> Inl (RuntimeError (strerror os))
           | Some mem \<Rightarrow>
               Inr \<lparr>rb_n_slots = n_slots, rb_data_bytes = data_n_bytes, rb_buffer_bytes = bytes,
                    rb_buffer = mem\<rparr>)"

text \<open>The pointer is given as the offset from \<open>rb_buffer\<close>.\<close>

definition get_data :: "RamBuffer \<Rightarrow> u64 \<Rightarrow> u64 res" where
  "get_data rb img =
     (if rb_n_slots rb = 0 then Inl (Undefined ''division by zero'')
      else let slot_id = img mod rb_n_slots rb in Inr (slot_id * rb_data_bytes rb))"

text \<open>A null \<open>src_data\<close> is \<open>None\<close>; reading behind the end of the source is undefined.\<close>

definition RamBuffer_write :: "RamBuffer \<Rightarrow> u64 \<Rightarrow> byte list option \<Rightarrow> RamBuffer res" where
  "RamBuffer_write rb img src_data =
     (case src_data of
        None \<Rightarrow> Inr rb
      | Some src \<Rightarrow>
          bindE (get_data rb img) (\<lambda>dst.
          if length src < unat (rb_data_bytes rb) then Inl (Undefined ''read out of range'')
          else bindE (memcpy (rb_buffer rb) (unat dst) (take (unat (rb_data_bytes rb)) src)) (\<lambda>mem.
               Inr (rb\<lparr>rb_buffer := mem\<rparr>))))"

text \<open>What a reader finds behind the pointer.\<close>

definition read_slot :: "RamBuffer \<Rightarrow> u64 \<Rightarrow> byte list res" where
  "read_slot rb img =
     bindE (get_data rb img) (\<lambda>off.
     if unat off + unat (rb_data_bytes rb) \<le> length (rb_buffer rb)
     then Inr (segment (unat off) (unat (rb_data_bytes rb)) (rb_buffer rb))
     else Inl (Undefined ''read out of range''))"

section \<open>The communicator\<close>

record Communicator =
  comm_buffer :: RamBuffer
  comm_sent :: "byte list list"

definition Communicator_send ::
    "Communicator \<Rightarrow> u64 \<Rightarrow> byte list \<Rightarrow> byte list option \<Rightarrow> Communicator res" where
  "Communicator_send c img meta data =
     bindE (RamBuffer_write (comm_buffer c) img data) (\<lambda>b.
     Inr (c\<lparr>comm_buffer := b, comm_sent := comm_sent c @ [meta]\<rparr>))"

definition Communicator_get_data :: "Communicator \<Rightarrow> u64 \<Rightarrow> u64 res" where
  "Communicator_get_data c img = get_data (comm_buffer c) img"

text \<open>\<open>zmq_recv\<close> copies at most the size of the buffer and keeps the bytes behind a short message.\<close>

definition recv_into :: "byte list \<Rightarrow> byte list \<Rightarrow> byte list" where
  "recv_into buf msg = take (length buf) msg @ drop (length msg) buf"

definition Communicator_receive_meta ::
    "byte list \<Rightarrow> byte list option \<Rightarrow> byte list \<times> int" where
  "Communicator_receive_meta meta msg =
     (case msg of None \<Rightarrow> (meta, - 1) | Some m \<Rightarrow> (recv_into meta m, int (length m)))"

definition Communicator_receive ::
    "Communicator \<Rightarrow> byte list \<Rightarrow> byte list option \<Rightarrow> (byte list \<times> u64 \<times> u64 option) res" where
  "Communicator_receive c meta msg =
     (let (meta', output) = Communicator_receive_meta meta msg in
      if output = - 1 then Inr (meta', INVALID_IMAGE_ID, None)
      else let img = bytes_u64 (take 8 meta') in
           bindE (get_data (comm_buffer c) img) (\<lambda>p. Inr (meta', img, Some p)))"

section \<open>Well-formed buffers\<close>

definition rb_wf :: "RamBuffer \<Rightarrow> bool" where
  "rb_wf rb \<longleftrightarrow> 0 < unat (rb_n_slots rb) \<and>
     unat (rb_n_slots rb) * unat (rb_data_bytes rb) < 2 ^ 64 \<and>
     unat (rb_n_slots rb) * unat (rb_data_bytes rb) \<le> length (rb_buffer rb)"

abbreviation rb_slots :: "RamBuffer \<Rightarrow> nat" where "rb_slots rb \<equiv> unat (rb_n_slots rb)"
abbreviation rb_size :: "RamBuffer \<Rightarrow> nat" where "rb_size rb \<equiv> unat (rb_data_bytes rb)"
abbreviation rb_slot :: "RamBuffer \<Rightarrow> u64 \<Rightarrow> nat" where "rb_slot rb img \<equiv> unat img mod rb_slots rb"

lemma align_to_2mb_unat:
  assumes "unat sz + 2 ^ 21 \<le> 2 ^ 64"
  shows "unat (align_to_2mb sz) = (unat sz + 2 ^ 21 - 1) div 2 ^ 21 * 2 ^ 21"
proof -
  let ?q = "(unat sz + 2 ^ 21 - 1) div 2 ^ 21"
  have e: "sz + 2 * 1024 * 1024 - 1 = sz + (2097151 :: u64)" by simp
  have h: "unat (sz + (2097151 :: u64)) = unat sz + 2097151"
    using assms by (subst unat_add_no_wrap) simp_all
  have d: "unat (2 * 1024 * 1024 :: u64) = 2097152" by simp
  have q: "unat ((sz + 2 * 1024 * 1024 - 1) div (2 * 1024 * 1024 :: u64)) = ?q"
    unfolding e unat_div d h by simp
  have "?q * 2 ^ 21 \<le> unat sz + 2 ^ 21 - 1" by (rule div_times_less_eq_dividend)
  also have "\<dots> < 2 ^ 64" using assms by simp
  finally have "?q * 2 ^ 21 < 2 ^ 64" .
  then show ?thesis
    unfolding align_to_2mb_def Let_def using q
    by (subst unat_mult_no_wrap) simp_all
qed

lemma align_up_ge: "(n :: nat) \<le> (n + 2 ^ 21 - 1) div 2 ^ 21 * 2 ^ 21"
  by simp

lemma get_data_wf:
  assumes "rb_wf rb"
  shows "\<exists>off. get_data rb img = Inr off \<and> unat off = rb_slot rb img * rb_size rb \<and>
    unat off + rb_size rb \<le> length (rb_buffer rb)"
proof -
  have n0: "rb_n_slots rb \<noteq> 0" using assms by (auto simp: rb_wf_def)
  have slot: "rb_slot rb img < rb_slots rb" using assms by (simp add: rb_wf_def)
  have fits: "rb_slot rb img * rb_size rb + rb_size rb \<le> rb_slots rb * rb_size rb"
    using block_in_range [OF slot] .
  then have "rb_slot rb img * rb_size rb < 2 ^ 64"
    using assms unfolding rb_wf_def by linarith
  then have "unat ((img mod rb_n_slots rb) * rb_data_bytes rb) = rb_slot rb img * rb_size rb"
    by (subst unat_mult_no_wrap) (simp_all add: unat_mod)
  then show ?thesis using n0 fits assms
    by (auto simp: get_data_def Let_def rb_wf_def)
qed

lemma RamBuffer_write_wf:
  assumes "rb_wf rb" and "length d = rb_size rb"
  shows "RamBuffer_write rb img (Some d) =
    Inr (rb\<lparr>rb_buffer := overwrite (rb_slot rb img * rb_size rb) d (rb_buffer rb)\<rparr>)"
  using get_data_wf [OF assms(1), of img] assms(2) by (auto simp: RamBuffer_write_def)

lemma read_slot_wf:
  assumes "rb_wf rb"
  shows "read_slot rb img = Inr (segment (rb_slot rb img * rb_size rb) (rb_size rb) (rb_buffer rb))"
  using get_data_wf [OF assms, of img] by (auto simp: read_slot_def)

section \<open>The interface: a store of slots\<close>

text \<open>
  What the processes rely on: a write is visible to every id of the same slot and to no other.
  The client lemma is the ring discipline of the whole system: as long as fewer than
  \<open>slots\<close> newer images have been written, an image can still be read.
\<close>

locale slot_store =
  fixes put :: "'b \<Rightarrow> u64 \<Rightarrow> 'd \<Rightarrow> 'b"
    and get :: "'b \<Rightarrow> u64 \<Rightarrow> 'd"
    and slots :: "'b \<Rightarrow> nat"
    and invar :: "'b \<Rightarrow> bool"
    and fits :: "'b \<Rightarrow> 'd \<Rightarrow> bool"
  assumes slots_pos: "invar b \<Longrightarrow> 0 < slots b"
    and get_put: "invar b \<Longrightarrow> fits b d \<Longrightarrow>
      get (put b i d) j = (if unat i mod slots b = unat j mod slots b then d else get b j)"
    and invar_put: "invar b \<Longrightarrow> fits b d \<Longrightarrow> invar (put b i d)"
    and slots_put: "invar b \<Longrightarrow> fits b d \<Longrightarrow> slots (put b i d) = slots b"
    and fits_put: "invar b \<Longrightarrow> fits b d \<Longrightarrow> fits (put b i d) e = fits b e"
begin

lemma get_puts:
  assumes "invar b" and "\<forall>w \<in> set ws. fits b (snd w)"
    and "\<forall>w \<in> set ws. unat (fst w) mod slots b \<noteq> unat j mod slots b"
  shows "get (fold (\<lambda>w s. put s (fst w) (snd w)) ws b) j = get b j"
  using assms
  by (induction ws arbitrary: b) (simp_all add: invar_put slots_put fits_put get_put)

lemma invar_puts:
  assumes "invar b" and "\<forall>w \<in> set ws. fits b (snd w)"
  shows "invar (fold (\<lambda>w s. put s (fst w) (snd w)) ws b)"
  using assms by (induction ws arbitrary: b) (simp_all add: invar_put fits_put)

text \<open>An image survives every sequence of writes of less than a full turn of later ids.\<close>

lemma get_put_puts:
  assumes "invar b" and "fits b d" and "\<forall>w \<in> set ws. fits b (snd w)"
    and "\<forall>w \<in> set ws. unat i < unat (fst w) \<and> unat (fst w) < unat i + slots b"
  shows "get (fold (\<lambda>w s. put s (fst w) (snd w)) ws (put b i d)) i = d"
proof -
  have "unat (fst w) mod slots b \<noteq> unat i mod slots b" if "w \<in> set ws" for w
  proof
    assume "unat (fst w) mod slots b = unat i mod slots b"
    then have "slots b dvd unat (fst w) - unat i"
      by (simp add: mod_eq_dvd_iff_nat assms(4) that less_imp_le)
    then have "slots b \<le> unat (fst w) - unat i"
      using assms(4) that by (intro dvd_imp_le) simp_all
    then show False using assms(4) that by fastforce
  qed
  then show ?thesis
    using assms(1-3)
    by (subst get_puts) (simp_all add: invar_put slots_put fits_put get_put)
qed

end

text \<open>\<open>RamBuffer\<close> provides it.\<close>

definition rb_put :: "RamBuffer \<Rightarrow> u64 \<Rightarrow> byte list \<Rightarrow> RamBuffer" where
  "rb_put rb img d = (case RamBuffer_write rb img (Some d) of Inr rb' \<Rightarrow> rb' | Inl _ \<Rightarrow> rb)"

definition rb_get :: "RamBuffer \<Rightarrow> u64 \<Rightarrow> byte list" where
  "rb_get rb img = (case read_slot rb img of Inr d \<Rightarrow> d | Inl _ \<Rightarrow> [])"

lemma rb_put_wf:
  assumes "rb_wf rb" and "length d = rb_size rb"
  shows "RamBuffer_write rb img (Some d) = Inr (rb_put rb img d)"
    and "rb_put rb img d = rb\<lparr>rb_buffer := overwrite (rb_slot rb img * rb_size rb) d (rb_buffer rb)\<rparr>"
  using RamBuffer_write_wf [OF assms] by (simp_all add: rb_put_def)

lemma slot_in_range: "rb_wf rb \<Longrightarrow> rb_slot rb img * rb_size rb + rb_size rb \<le> length (rb_buffer rb)"
  using get_data_wf [of rb img] by auto

lemma rb_wf_put: "rb_wf rb \<Longrightarrow> length d = rb_size rb \<Longrightarrow> rb_wf (rb_put rb img d)"
  using slot_in_range [of rb img] by (auto simp: rb_put_wf(2) rb_wf_def)

lemma rb_get_put:
  assumes wf: "rb_wf rb" and d: "length d = rb_size rb"
  shows "rb_get (rb_put rb i d) j = (if rb_slot rb i = rb_slot rb j then d else rb_get rb j)"
proof -
  have i: "rb_slot rb i * rb_size rb + length d \<le> length (rb_buffer rb)"
    using slot_in_range [OF wf] d by simp
  have get: "rb_get (rb_put rb i d) j = segment (rb_slot rb j * rb_size rb) (rb_size rb)
      (overwrite (rb_slot rb i * rb_size rb) d (rb_buffer rb))"
    unfolding rb_get_def using read_slot_wf [OF rb_wf_put [OF wf d], of i j]
    by (simp add: rb_put_wf(2) [OF wf d])
  show ?thesis
  proof (cases "rb_slot rb i = rb_slot rb j")
    case True
    then show ?thesis using segment_overwrite_same [OF i] d by (simp add: get)
  next
    case False
    then have "segment (rb_slot rb j * rb_size rb) (rb_size rb)
        (overwrite (rb_slot rb i * rb_size rb) d (rb_buffer rb)) =
      segment (rb_slot rb j * rb_size rb) (rb_size rb) (rb_buffer rb)"
      using block_disjoint [OF False, of "rb_size rb"] d i slot_in_range [OF wf, of j]
      by (intro segment_overwrite_disjoint) auto
    then have "rb_get (rb_put rb i d) j = rb_get rb j"
      by (simp only: get) (simp add: rb_get_def read_slot_wf [OF wf])
    with False show ?thesis by simp
  qed
qed

interpretation rb: slot_store rb_put rb_get rb_slots rb_wf "\<lambda>rb d. length d = rb_size rb"
proof unfold_locales
  fix b :: RamBuffer
  assume "rb_wf b"
  then show "0 < rb_slots b" by (simp add: rb_wf_def)
  fix d :: "byte list" and i :: u64
  assume "length d = rb_size b"
  with \<open>rb_wf b\<close> show "rb_wf (rb_put b i d)" "rb_slots (rb_put b i d) = rb_slots b"
      "length e = rb_size (rb_put b i d) \<longleftrightarrow> length e = rb_size b"
      "rb_get (rb_put b i d) j = (if rb_slot b i = rb_slot b j then d else rb_get b j)"
    for e :: "byte list" and j
    by (simp_all only: rb_wf_put rb_get_put) (simp_all add: rb_put_wf(2))
qed

section \<open>Properties\<close>

text \<open>C28. Whenever the aligned size fits in a \<open>size_t\<close> and the operating system calls succeed, the
  constructor yields a buffer all of whose slots lie inside the mapping.\<close>

theorem RamBuffer_ctor_wf:
  assumes "0 < unat n" and "unat d * unat n + 2 ^ 21 \<le> 2 ^ 64"
    and "0 \<le> shm_open os name" and "ftruncate os (shm_open os name) (align_to_2mb (d * n)) = 0"
    and "mmap os (shm_open os name) (align_to_2mb (d * n)) = Some mem"
    and "length mem = unat (align_to_2mb (d * n))"
  shows "\<exists>rb. RamBuffer_ctor os name d n = Inr rb \<and> rb_wf rb \<and>
    (\<forall>img. \<exists>off. get_data rb img = Inr off \<and> unat off + unat d \<le> length (rb_buffer rb))"
proof -
  define rb where "rb = \<lparr>rb_n_slots = n, rb_data_bytes = d,
    rb_buffer_bytes = align_to_2mb (d * n), rb_buffer = mem\<rparr>"
  have "unat d * unat n < 2 ^ 64" using assms(2) by simp
  then have dn: "unat (d * n) = unat d * unat n" by (rule unat_mult_no_wrap)
  then have "unat d * unat n \<le> length mem"
    using assms(2,6) align_up_ge [of "unat d * unat n"] by (simp only: align_to_2mb_unat)
  then have wf: "rb_wf rb"
    using assms(1) \<open>unat d * unat n < 2 ^ 64\<close> by (simp add: rb_wf_def rb_def mult.commute)
  moreover have "RamBuffer_ctor os name d n = Inr rb"
    using assms(3-5) by (simp add: RamBuffer_ctor_def rb_def)
  moreover have "\<exists>off. get_data rb img = Inr off \<and> unat off + unat d \<le> length (rb_buffer rb)" for img
    using get_data_wf [OF wf, of img] by (auto simp: rb_def)
  ultimately show ?thesis by blast
qed

text \<open>What was written for an image is read back for it, and for every id that shares its
  slot; all other slots keep their content.\<close>

theorem RamBuffer_write_read:
  assumes "rb_wf rb" and "length d = unat (rb_data_bytes rb)"
  shows "\<exists>rb'. RamBuffer_write rb i (Some d) = Inr rb' \<and> rb_wf rb' \<and> read_slot rb' i = Inr d \<and>
    (\<forall>j. unat i mod unat (rb_n_slots rb) \<noteq> unat j mod unat (rb_n_slots rb) \<longrightarrow>
       read_slot rb' j = read_slot rb j)"
proof -
  have wf: "rb_wf (rb_put rb i d)" using assms by (rule rb_wf_put)
  have read: "read_slot b j = Inr (rb_get b j)" if "rb_wf b" for b j
    using read_slot_wf [OF that] by (simp add: rb_get_def)
  show ?thesis
    using assms wf rb_put_wf(1) [OF assms] by (auto simp: read rb.get_put)
qed

text \<open>C7. An image stays readable until a full turn of the ring: no sequence of writes of ids
  among the next \<open>n_slots - 1\<close> ids overwrites it.\<close>

theorem RamBuffer_window:
  assumes "rb_wf rb" and "length d = unat (rb_data_bytes rb)"
    and "\<forall>w \<in> set ws. length (snd w) = unat (rb_data_bytes rb) \<and>
      unat i < unat (fst w) \<and> unat (fst w) < unat i + unat (rb_n_slots rb)"
  shows "\<exists>rb'. forE (\<lambda>w b. RamBuffer_write b (fst w) (Some (snd w))) ((i, d) # ws) rb = Inr rb' \<and>
    read_slot rb' i = Inr d"
proof -
  have run: "forE (\<lambda>w b. RamBuffer_write b (fst w) (Some (snd w))) us b =
      Inr (fold (\<lambda>w s. rb_put s (fst w) (snd w)) us b)"
    if "rb_wf b" "\<forall>w \<in> set us. length (snd w) = rb_size b" for us :: "(u64 \<times> byte list) list" and b
    using that
  proof (induction us arbitrary: b)
    case (Cons u us)
    then have "rb_wf (rb_put b (fst u) (snd u))" by (intro rb.invar_put) simp_all
    moreover have "rb_size (rb_put b (fst u) (snd u)) = rb_size b"
      using Cons by (simp add: rb_put_wf(2))
    ultimately show ?case using Cons by (simp add: rb_put_wf(1))
  qed simp
  let ?b = "fold (\<lambda>w s. rb_put s (fst w) (snd w)) ((i, d) # ws) rb"
  have "rb_wf ?b" using assms by (intro rb.invar_puts) auto
  moreover have "rb_get ?b i = d"
    using assms rb.get_put_puts [of rb d ws i] by simp
  ultimately have "read_slot ?b i = Inr d"
    using read_slot_wf [of ?b i] by (simp add: rb_get_def)
  then show ?thesis using run [of rb "(i, d) # ws"] assms by auto
qed

text \<open>C25. A frame sent by a receiver process is found by the next process: the id that
  \<open>Communicator::receive\<close> reads from the first eight bytes of the message is the id of the frame,
  and the slot behind the returned pointer holds the frame data.\<close>

theorem Communicator_round_trip:
  assumes "rb_wf (comm_buffer c)" and "length d = unat (rb_data_bytes (comm_buffer c))"
    and "length buf = DET_FRAME_STRUCT_BYTES"
    and msg: "(\<exists>f. msg = EGFrame_bytes f \<and> i = image_id (eg_common f)) \<or>
      (\<exists>f. msg = JFFrame_bytes f \<and> i = image_id (jf_common f)) \<or>
      (\<exists>f. msg = GFFrame_bytes f \<and> i = image_id (gf_common f))"
  shows "\<exists>c' p. Communicator_send c i msg (Some d) = Inr c' \<and> comm_sent c' = comm_sent c @ [msg] \<and>
    Communicator_receive c' buf (Some msg) = Inr (msg, i, Some p) \<and>
    segment (unat p) (length d) (rb_buffer (comm_buffer c')) = d"
proof -
  let ?b = "rb_put (comm_buffer c) i d"
  define c' where "c' = c\<lparr>comm_buffer := ?b, comm_sent := comm_sent c @ [msg]\<rparr>"
  have send: "Communicator_send c i msg (Some d) = Inr c'"
    using rb_put_wf(1) [OF assms(1,2)] by (simp add: Communicator_send_def c'_def)
  have wf: "rb_wf ?b" using assms(1,2) by (rule rb_wf_put)
  have size: "rb_size ?b = length d" using assms(1,2) by (simp add: rb_put_wf(2))
  obtain p where p: "get_data ?b i = Inr p" "unat p = rb_slot ?b i * rb_size ?b"
    using get_data_wf [OF wf] by blast
  have "length msg = DET_FRAME_STRUCT_BYTES" and head: "take 8 msg = u64_bytes i"
    using msg by (auto simp: take_frame_bytes)
  then have "recv_into buf msg = msg" using assms(3) by (simp add: recv_into_def)
  then have recv: "Communicator_receive c' buf (Some msg) = Inr (msg, i, Some p)"
    using p(1) by (simp add: Communicator_receive_def Communicator_receive_meta_def head c'_def)
  have "rb_get ?b i = d" using rb.get_put [OF assms(1,2), of i i] by simp
  then have "segment (unat p) (length d) (rb_buffer ?b) = d"
    using read_slot_wf [OF wf, of i] p(2) by (simp add: rb_get_def size)
  then show ?thesis using send recv by (auto simp: c'_def)
qed

section \<open>Witnesses\<close>

definition tiny_os :: shm_api where
  "tiny_os = \<lparr>shm_open = \<lambda>_. 3, ftruncate = \<lambda>_ _. 0,
     mmap = \<lambda>_ n. Some (replicate (unat n) 0), strerror = ''error''\<rparr>"

theorem RamBuffer_ctor_wf_witness:
  "\<exists>rb. RamBuffer_ctor tiny_os ''det-0'' 1048576 1000 = Inr rb \<and> rb_wf rb \<and>
    (\<forall>img. \<exists>off. get_data rb img = Inr off \<and>
       unat off + unat (1048576 :: u64) \<le> length (rb_buffer rb))"
  by (rule RamBuffer_ctor_wf [where mem = "replicate (unat (align_to_2mb (1048576 * 1000))) 0"])
    (simp_all add: tiny_os_def)

definition tiny_buffer :: RamBuffer where
  "tiny_buffer =
     \<lparr>rb_n_slots = 3, rb_data_bytes = 2, rb_buffer_bytes = 8, rb_buffer = [0, 0, 0, 0, 0, 0, 0, 0]\<rparr>"

lemma tiny_buffer_wf: "rb_wf tiny_buffer"
  by (simp add: rb_wf_def tiny_buffer_def)

theorem RamBuffer_write_read_witness:
  "\<exists>rb'. RamBuffer_write tiny_buffer 7 (Some [1, 2]) = Inr rb' \<and> rb_wf rb' \<and>
    read_slot rb' 7 = Inr [1, 2] \<and>
    (\<forall>j. unat (7 :: u64) mod unat (rb_n_slots tiny_buffer) \<noteq>
         unat j mod unat (rb_n_slots tiny_buffer) \<longrightarrow>
       read_slot rb' j = read_slot tiny_buffer j)"
  by (rule RamBuffer_write_read [OF tiny_buffer_wf]) (simp add: tiny_buffer_def)

theorem RamBuffer_window_witness:
  "\<exists>rb'. forE (\<lambda>w b. RamBuffer_write b (fst w) (Some (snd w)))
       ((10, [1, 2]) # [(11, [3, 4]), (12, [5, 6])]) tiny_buffer = Inr rb' \<and>
    read_slot rb' 10 = Inr [1, 2]"
  by (rule RamBuffer_window [OF tiny_buffer_wf]) (simp_all add: tiny_buffer_def)

definition tiny_EGFrame :: EGFrame where
  "tiny_EGFrame =
     \<lparr>eg_common = \<lparr>image_id = 77, n_missing_packets = 0, module_id = 1\<rparr>, eg_bit_depth = 16,
      eg_pos_y = 0, eg_pos_x = 0\<rparr>"

theorem Communicator_round_trip_witness:
  "\<exists>c' p. Communicator_send \<lparr>comm_buffer = tiny_buffer, comm_sent = []\<rparr> 77
        (EGFrame_bytes tiny_EGFrame) (Some [1, 2]) = Inr c' \<and>
    comm_sent c' = [] @ [EGFrame_bytes tiny_EGFrame] \<and>
    Communicator_receive c' (replicate 64 0) (Some (EGFrame_bytes tiny_EGFrame)) =
      Inr (EGFrame_bytes tiny_EGFrame, 77, Some p) \<and>
    segment (unat p) (length [1, 2 :: byte]) (rb_buffer (comm_buffer c')) = [1, 2]"
proof -
  let ?c = "\<lparr>comm_buffer = tiny_buffer, comm_sent = []\<rparr>"
  have "rb_wf (comm_buffer ?c)" by (simp add: tiny_buffer_wf)
  moreover have "length [1, 2 :: byte] = unat (rb_data_bytes (comm_buffer ?c))"
    by (simp add: tiny_buffer_def)
  moreover have "length (replicate 64 (0 :: byte)) = DET_FRAME_STRUCT_BYTES"
    by (simp add: DET_FRAME_STRUCT_BYTES_def)
  moreover have "77 = image_id (eg_common tiny_EGFrame)" by (simp add: tiny_EGFrame_def)
  ultimately show ?thesis
    using Communicator_round_trip [of ?c "[1, 2]" "replicate 64 0" "EGFrame_bytes tiny_EGFrame" 77]
    by (metis select_convs(2))
qed

end
