(* ===== verification/Sockets.thy ===== *)
theory Sockets
  imports RamBuffer
begin

text \<open>
  \<open>core-buffer/buffer_utils\<close> and the constructor of \<open>Communicator\<close>: how the processes open their
  ZeroMQ sockets, and the socket set-ups that some processes write themselves.

  ZeroMQ is third-party: whether a call succeeds is decided by a \<open>zmq_api\<close> given as an argument,
  and a socket of the model records what was asked for (type, options in order, end point).
\<close>

section \<open>Sockets\<close>

datatype zmq_type = ZMQ_PUB | ZMQ_SUB | ZMQ_PUSH | ZMQ_PULL | ZMQ_REQ | ZMQ_REP

datatype zmq_option = SUBSCRIBE | UNSUBSCRIBE | RCVHWM | RCVTIMEO | SNDHWM | SNDTIMEO | LINGER

datatype zmq_endpoint = Unconnected | Bound string | Connected string

record zmq_socket =
  zk_type :: zmq_type
  zk_options :: "(zmq_option \<times> int) list"
  zk_endpoint :: zmq_endpoint

record zmq_api =
  z_socket :: "zmq_type \<Rightarrow> bool" \<comment> \<open>a socket, not a null pointer\<close>
  z_setsockopt :: "zmq_option \<Rightarrow> int \<Rightarrow> int"
  z_connect :: "string \<Rightarrow> int"
  z_bind :: "string \<Rightarrow> int"
  z_strerror :: string

definition zmq_error :: "zmq_api \<Rightarrow> cpp_error" where
  "zmq_error z = RuntimeError (z_strerror z)"

definition set_option :: "zmq_api \<Rightarrow> zmq_option \<Rightarrow> int \<Rightarrow> zmq_socket \<Rightarrow> zmq_socket res" where
  "set_option z opt v s =
     (if z_setsockopt z opt v \<noteq> 0 then Inl (zmq_error z)
      else Inr (s\<lparr>zk_options := zk_options s @ [(opt, v)]\<rparr>))"

definition connect_to :: "zmq_api \<Rightarrow> string \<Rightarrow> zmq_socket \<Rightarrow> zmq_socket res" where
  "connect_to z address s =
     (if z_connect z address \<noteq> 0 then Inl (zmq_error z) else Inr (s\<lparr>zk_endpoint := Connected address\<rparr>))"

definition bind_to :: "zmq_api \<Rightarrow> string \<Rightarrow> zmq_socket \<Rightarrow> zmq_socket res" where
  "bind_to z address s =
     (if z_bind z address \<noteq> 0 then Inl (zmq_error z) else Inr (s\<lparr>zk_endpoint := Bound address\<rparr>))"

definition new_socket :: "zmq_type \<Rightarrow> zmq_socket" where
  "new_socket ty = \<lparr>zk_type = ty, zk_options = [], zk_endpoint = Unconnected\<rparr>"

section \<open>\<open>buffer_config\<close> and \<open>buffer_utils\<close>\<close>

definition BUFFER_ZMQ_SNDHWM :: int where "BUFFER_ZMQ_SNDHWM = 50000"
definition BUFFER_ZMQ_RCVHWM :: int where "BUFFER_ZMQ_RCVHWM = 50000"
definition IPC_URL_BASE :: string where "IPC_URL_BASE = ''ipc:///tmp/''"
definition RECEIVER_RAM_BUFFER_N_SLOTS :: u64 where "RECEIVER_RAM_BUFFER_N_SLOTS = 10 * 100"

definition create_socket :: "zmq_api \<Rightarrow> zmq_type \<Rightarrow> zmq_socket res" where
  "create_socket z ty =
     (if \<not> z_socket z ty then Inl (zmq_error z)
      else bindE (if ty = ZMQ_SUB then set_option z SUBSCRIBE 0 (new_socket ty) else Inr (new_socket ty)) (\<lambda>s.
           bindE (if ty = ZMQ_SUB \<or> ty = ZMQ_PULL
                  then bindE (set_option z RCVHWM BUFFER_ZMQ_RCVHWM s) (set_option z RCVTIMEO 1000)
                  else set_option z SNDHWM BUFFER_ZMQ_SNDHWM s)
             (set_option z LINGER 0)))"

definition connect_socket :: "zmq_api \<Rightarrow> string \<Rightarrow> zmq_type \<Rightarrow> zmq_socket res" where
  "connect_socket z buffer_name ty = bindE (create_socket z ty) (connect_to z buffer_name)"

definition connect_socket_ipc :: "zmq_api \<Rightarrow> string \<Rightarrow> zmq_type \<Rightarrow> zmq_socket res" where
  "connect_socket_ipc z buffer_name ty = connect_socket z (IPC_URL_BASE @ buffer_name) ty"

definition bind_socket :: "zmq_api \<Rightarrow> string \<Rightarrow> zmq_type \<Rightarrow> zmq_socket res" where
  "bind_socket z buffer_name ty = bindE (create_socket z ty) (bind_to z (IPC_URL_BASE @ buffer_name))"

section \<open>The communicator\<close>

record RamBufferConfig =
  rbc_buffer_name :: string
  rbc_n_bytes_data :: u64
  rbc_n_buffer_slots :: u64

datatype connection_type = CONN_TYPE_BIND | CONN_TYPE_CONNECT

record CommunicatorConfig =
  cc_stream_name :: string
  cc_connection_type :: connection_type
  cc_zmq_socket_type :: zmq_type

definition Communicator_ctor ::
  "shm_api \<Rightarrow> zmq_api \<Rightarrow> RamBufferConfig \<Rightarrow> CommunicatorConfig \<Rightarrow> (Communicator \<times> zmq_socket) res" where
  "Communicator_ctor os z ram_config comm_cfg =
     bindE (RamBuffer_ctor os (rbc_buffer_name ram_config) (rbc_n_bytes_data ram_config)
              (rbc_n_buffer_slots ram_config)) (\<lambda>b.
     bindE (if cc_connection_type comm_cfg = CONN_TYPE_BIND
            then bind_socket z (cc_stream_name comm_cfg) (cc_zmq_socket_type comm_cfg)
            else connect_socket_ipc z (cc_stream_name comm_cfg) (cc_zmq_socket_type comm_cfg)) (\<lambda>s.
     Inr (\<lparr>comm_buffer = b, comm_sent = []\<rparr>, s)))"

section \<open>Senders to the outside\<close>

text \<open>\<open>bind_sender_socket\<close> of the stream sender, the live stream and the metadata stream; they
  differ in the high water mark. The result of \<open>zmq_socket\<close> is not checked there, and a null
  socket makes \<open>zmq_setsockopt\<close> fail.\<close>

definition bind_sender_socket :: "int \<Rightarrow> zmq_api \<Rightarrow> string \<Rightarrow> zmq_socket res" where
  "bind_sender_socket zmq_sndhwm z stream_address =
     (if \<not> z_socket z ZMQ_PUB then Inl (zmq_error z)
      else bindE (set_option z SNDHWM zmq_sndhwm (new_socket ZMQ_PUB)) (\<lambda>s.
           bindE (set_option z LINGER 0 s) (bind_to z stream_address)))"

definition zmq_socket_connect :: "zmq_api \<Rightarrow> string \<Rightarrow> zmq_socket res" where
  "zmq_socket_connect z stream_address = bindE (create_socket z ZMQ_SUB) (connect_to z stream_address)"

section \<open>What a constructed socket is\<close>

lemma set_option_Inr:
  "set_option z opt v s = Inr t \<longleftrightarrow> z_setsockopt z opt v = 0 \<and> t = s\<lparr>zk_options := zk_options s @ [(opt, v)]\<rparr>"
  by (auto simp: set_option_def)

lemma create_socket_Inr:
  assumes "create_socket z ty = Inr s"
  shows "zk_type s = ty \<and> zk_endpoint s = Unconnected \<and>
    zk_options s = (if ty = ZMQ_SUB then [(SUBSCRIBE, 0)] else []) @
      (if ty = ZMQ_SUB \<or> ty = ZMQ_PULL then [(RCVHWM, 50000), (RCVTIMEO, 1000)] else [(SNDHWM, 50000)]) @
      [(LINGER, 0)]"
  using assms unfolding create_socket_def
  by (auto simp: bindE_eq_Inr set_option_Inr new_socket_def BUFFER_ZMQ_RCVHWM_def BUFFER_ZMQ_SNDHWM_def
    split: if_splits)

text \<open>A communicator opens the buffer it was configured with, and a socket at the IPC address of its
  stream; a receiving socket waits at most a second, so that no turn of a process blocks forever.\<close>

theorem Communicator_ctor_opens:
  assumes "Communicator_ctor os z ram comm = Inr (c, s)"
  shows "rb_data_bytes (comm_buffer c) = rbc_n_bytes_data ram \<and> rb_n_slots (comm_buffer c) = rbc_n_buffer_slots ram \<and>
    comm_sent c = [] \<and> zk_type s = cc_zmq_socket_type comm \<and>
    zk_endpoint s = (if cc_connection_type comm = CONN_TYPE_BIND then Bound else Connected)
      (''ipc:///tmp/'' @ cc_stream_name comm) \<and>
    (cc_zmq_socket_type comm \<in> {ZMQ_SUB, ZMQ_PULL} \<longrightarrow> (RCVTIMEO, 1000) \<in> set (zk_options s)) \<and>
    (cc_zmq_socket_type comm = ZMQ_SUB \<longrightarrow> (SUBSCRIBE, 0) \<in> set (zk_options s))"
proof -
  obtain s0 b where s0: "create_socket z (cc_zmq_socket_type comm) = Inr s0"
    and s: "s = s0\<lparr>zk_endpoint := (if cc_connection_type comm = CONN_TYPE_BIND then Bound else Connected)
      (''ipc:///tmp/'' @ cc_stream_name comm)\<rparr>"
    and b: "RamBuffer_ctor os (rbc_buffer_name ram) (rbc_n_bytes_data ram) (rbc_n_buffer_slots ram) = Inr b"
      "c = \<lparr>comm_buffer = b, comm_sent = []\<rparr>"
    using assms by (auto simp: Communicator_ctor_def bindE_eq_Inr bind_socket_def connect_socket_ipc_def
      connect_socket_def bind_to_def connect_to_def IPC_URL_BASE_def split: if_splits)
  moreover have "rb_data_bytes b = rbc_n_bytes_data ram" "rb_n_slots b = rbc_n_buffer_slots ram"
    using b(1) by (auto simp: RamBuffer_ctor_def Let_def split: if_splits option.splits)
  ultimately show ?thesis using create_socket_Inr [OF s0] by auto
qed

definition good_zmq :: zmq_api where
  "good_zmq = \<lparr>z_socket = (\<lambda>_. True), z_setsockopt = (\<lambda>_ _. 0), z_connect = (\<lambda>_. 0), z_bind = (\<lambda>_. 0),
     z_strerror = []\<rparr>"

theorem Communicator_ctor_opens_witness:
  "\<exists>c s. Communicator_ctor \<lparr>shm_open = (\<lambda>_. 3), ftruncate = (\<lambda>_ _. 0), mmap = (\<lambda>_ _. Some (replicate 64 0)),
        strerror = []\<rparr> good_zmq \<lparr>rbc_buffer_name = ''stage.GF-image'', rbc_n_bytes_data = 8, rbc_n_buffer_slots = 4\<rparr>
      \<lparr>cc_stream_name = ''stage.GF-sync'', cc_connection_type = CONN_TYPE_CONNECT, cc_zmq_socket_type = ZMQ_PULL\<rparr> =
      Inr (c, s) \<and> (RCVTIMEO, 1000) \<in> set (zk_options s) \<and> zk_endpoint s = Connected ''ipc:///tmp/stage.GF-sync''"
proof -
  let ?ctor = "Communicator_ctor \<lparr>shm_open = (\<lambda>_. 3), ftruncate = (\<lambda>_ _. 0), mmap = (\<lambda>_ _. Some (replicate 64 0)),
        strerror = []\<rparr> good_zmq \<lparr>rbc_buffer_name = ''stage.GF-image'', rbc_n_bytes_data = 8, rbc_n_buffer_slots = 4\<rparr>
      \<lparr>cc_stream_name = ''stage.GF-sync'', cc_connection_type = CONN_TYPE_CONNECT, cc_zmq_socket_type = ZMQ_PULL\<rparr>"
  have "is_ok ?ctor"
    by (simp add: Communicator_ctor_def RamBuffer_ctor_def Let_def connect_socket_ipc_def connect_socket_def
      create_socket_def good_zmq_def set_option_def connect_to_def)
  then obtain c s where "?ctor = Inr (c, s)" by (auto elim: is_okE)
  from Communicator_ctor_opens [OF this] this show ?thesis by auto
qed

end
