(* ===== verification/DetectorConfig.thy ===== *)
theory DetectorConfig
  imports Formats
begin

text \<open>
  \<open>utils/detector_config\<close> and \<open>utils/get_metadata_dtype\<close>: the configuration record, its
  construction from a JSON document, the module geometry and the module mask.

  The JSON library is third-party: a document is a value of an abstract type, and the accessors
  the code calls on it are the fields of a \<open>json_api\<close> given as an argument.
\<close>

section \<open>The JSON accessors the code uses\<close>

record 'j json_api =
  jc_contains :: "'j \<Rightarrow> string \<Rightarrow> bool"
  jc_at :: "'j \<Rightarrow> string \<Rightarrow> 'j res"
  jc_items :: "'j \<Rightarrow> (string \<times> 'j) list"
  jc_size :: "'j \<Rightarrow> nat"
  jc_elem :: "'j \<Rightarrow> nat \<Rightarrow> 'j res"
  jc_get_int :: "'j \<Rightarrow> int res"
  jc_get_u16 :: "'j \<Rightarrow> u16 res"
  jc_get_size_t :: "'j \<Rightarrow> u64 res"
  jc_get_string :: "'j \<Rightarrow> string res"
  jc_value_int :: "'j \<Rightarrow> string \<Rightarrow> int \<Rightarrow> int res"
  jc_value_u32 :: "'j \<Rightarrow> string \<Rightarrow> u32 \<Rightarrow> u32 res"
  jc_value_u64 :: "'j \<Rightarrow> string \<Rightarrow> u64 \<Rightarrow> u64 res"
  jc_value_bool :: "'j \<Rightarrow> string \<Rightarrow> bool \<Rightarrow> bool res"
  jc_value_string :: "'j \<Rightarrow> string \<Rightarrow> string \<Rightarrow> string res"

section \<open>The configuration\<close>

record Point =
  pt_x :: int
  pt_y :: int

datatype live_stream_type = ls_forward | ls_periodic | ls_batch

record live_stream_config =
  lsc_type :: live_stream_type
  lsc_value :: "u64 \<times> u64"

type_synonym modules_mask = "128 word"

record DetectorConfig =
  detector_name :: string
  detector_type :: string
  n_modules :: int
  bit_depth :: int
  image_pixel_height :: int
  image_pixel_width :: int
  start_udp_port :: u16
  log_level :: string
  stats_collection_period :: int
  max_number_of_forwarders_spawned :: int
  use_all_forwarders :: bool
  gpfs_block_size :: int
  sender_sends_full_images :: bool
  module_sync_queue_size :: int
  number_of_writers :: int
  ram_buffer_gb :: u64
  delay_filter_timeout :: int
  switch_user_active :: bool
  ls_configs :: "(string \<times> live_stream_config) list"
  modules :: "(u64 \<times> (Point \<times> Point)) list"

text \<open>\<open>unordered_map::operator[] =\<close>: at most one entry per key.\<close>

fun um_assign :: "'k \<Rightarrow> 'v \<Rightarrow> ('k \<times> 'v) list \<Rightarrow> ('k \<times> 'v) list" where
  "um_assign k v [] = [(k, v)]"
| "um_assign k v (p # ps) = (if fst p = k then (k, v) # ps else p # um_assign k v ps)"

definition to_type :: "string \<Rightarrow> live_stream_type res" where
  "to_type s =
     (if s = ''forward'' then Inr ls_forward
      else if s = ''periodic'' then Inr ls_periodic
      else if s = ''batch'' then Inr ls_batch
      else Inl (InvalidArgument ''Invalid type string''))"

definition required_parameters :: "string list" where
  "required_parameters =
     [''detector_name'', ''detector_type'', ''n_modules'', ''bit_depth'',
      ''image_pixel_height'', ''image_pixel_width'', ''start_udp_port'', ''module_positions'']"

definition missing_parameter_error :: "string \<Rightarrow> cpp_error" where
  "missing_parameter_error s =
     RuntimeError (''Detector json file is missing parameter: \"'' @ s @ ''\"'')"

definition check_required :: "'j json_api \<Rightarrow> 'j \<Rightarrow> unit res" where
  "check_required api doc =
     forE (\<lambda>s _. if jc_contains api doc s then Inr () else Inl (missing_parameter_error s))
       required_parameters ()"

text \<open>One entry of \<open>module_positions\<close>; the right-hand side of the assignment is evaluated first.\<close>

definition read_module ::
    "'j json_api \<Rightarrow> string \<times> 'j \<Rightarrow> (u64 \<times> (Point \<times> Point)) list
     \<Rightarrow> (u64 \<times> (Point \<times> Point)) list res" where
  "read_module api kv ms =
     (let (key, value) = kv; get = (\<lambda>i. bindE (jc_elem api value i) (jc_get_int api)) in
      if jc_size api value \<noteq> 4
      then Inl (RuntimeError (''Module position for key '' @ key @ '' should have 4 values''))
      else bindE (get 0) (\<lambda>x0. bindE (get 1) (\<lambda>y0. bindE (get 2) (\<lambda>x1. bindE (get 3) (\<lambda>y1.
        bindE (stoi key) (\<lambda>k.
        Inr (um_assign (word_of_int k)
          (\<lparr>pt_x = x0, pt_y = y0\<rparr>, \<lparr>pt_x = x1, pt_y = y1\<rparr>) ms)))))))"

definition read_live_stream ::
    "'j json_api \<Rightarrow> string \<times> 'j \<Rightarrow> (string \<times> live_stream_config) list
     \<Rightarrow> (string \<times> live_stream_config) list res" where
  "read_live_stream api kv cs =
     (let (key, value) = kv in
      if \<not> jc_contains api value ''type''
      then Inl (InvalidArgument ''Invalid JSON format for live_stream_config'')
      else bindE (jc_at api value ''type'') (\<lambda>t. bindE (jc_get_string api t) (\<lambda>type_str.
        if type_str = ''forward''
        then bindE (to_type type_str) (\<lambda>ty.
          Inr (um_assign key \<lparr>lsc_type = ty, lsc_value = (0, 0)\<rparr> cs))
        else bindE (to_type type_str) (\<lambda>ty.
          bindE (jc_at api value ''config'') (\<lambda>c.
          bindE (bindE (jc_elem api c 0) (jc_get_size_t api)) (\<lambda>a.
          bindE (bindE (jc_elem api c 1) (jc_get_size_t api)) (\<lambda>b.
          Inr (um_assign key \<lparr>lsc_type = ty, lsc_value = (a, b)\<rparr> cs))))))))"

definition read_config :: "'j json_api \<Rightarrow> 'j \<Rightarrow> DetectorConfig res" where
  "read_config api doc =
     bindE (check_required api doc) (\<lambda>_.
     bindE (jc_at api doc ''module_positions'') (\<lambda>mp.
     bindE (forE (read_module api) (jc_items api mp) []) (\<lambda>ms.
     bindE (if jc_contains api doc ''live_stream_configs''
            then bindE (jc_at api doc ''live_stream_configs'') (\<lambda>lc.
              forE (read_live_stream api) (jc_items api lc) [])
            else Inr []) (\<lambda>lss.
     bindE (bindE (jc_at api doc ''detector_name'') (jc_get_string api)) (\<lambda>v_name.
     bindE (bindE (jc_at api doc ''detector_type'') (jc_get_string api)) (\<lambda>v_type.
     bindE (bindE (jc_at api doc ''n_modules'') (jc_get_int api)) (\<lambda>v_modules.
     bindE (bindE (jc_at api doc ''bit_depth'') (jc_get_int api)) (\<lambda>v_depth.
     bindE (bindE (jc_at api doc ''image_pixel_height'') (jc_get_int api)) (\<lambda>v_height.
     bindE (bindE (jc_at api doc ''image_pixel_width'') (jc_get_int api)) (\<lambda>v_width.
     bindE (bindE (jc_at api doc ''start_udp_port'') (jc_get_u16 api)) (\<lambda>v_port.
     bindE (jc_value_string api doc ''log_level'' ''info'') (\<lambda>v_log.
     bindE (jc_value_int api doc ''stats_collection_period'' 10) (\<lambda>v_period.
     bindE (jc_value_int api doc ''max_number_of_forwarders_spawned'' 8) (\<lambda>v_fwd.
     bindE (jc_value_bool api doc ''use_all_forwarders'' False) (\<lambda>v_all.
     bindE (jc_value_int api doc ''gpfs_block_size'' 16777216) (\<lambda>v_gpfs.
     bindE (jc_value_bool api doc ''sender_sends_full_images'' False) (\<lambda>v_full.
     bindE (jc_value_int api doc ''module_sync_queue_size'' 50) (\<lambda>v_queue.
     bindE (jc_value_int api doc ''number_of_writers'' 0) (\<lambda>v_writers.
     bindE (jc_value_u32 api doc ''ram_buffer_gb'' 0) (\<lambda>v_ram.
     bindE (jc_value_int api doc ''delay_filter_timeout'' 10) (\<lambda>v_delay.
     bindE (jc_value_bool api doc ''switch_user_active'' False) (\<lambda>v_switch.
     Inr \<lparr>detector_name = v_name, detector_type = v_type, n_modules = v_modules,
          bit_depth = v_depth, image_pixel_height = v_height, image_pixel_width = v_width,
          start_udp_port = v_port, log_level = v_log, stats_collection_period = v_period,
          max_number_of_forwarders_spawned = v_fwd, use_all_forwarders = v_all,
          gpfs_block_size = v_gpfs, sender_sends_full_images = v_full,
          module_sync_queue_size = v_queue, number_of_writers = v_writers,
          ram_buffer_gb = ucast v_ram, delay_filter_timeout = v_delay,
          switch_user_active = v_switch, ls_configs = lss, modules = ms\<rparr>))))))))))))))))))))))"

text \<open>The parser is the third-party \<open>json::parse\<close>.\<close>

definition read_config_from_json_string ::
    "'j json_api \<Rightarrow> (string \<Rightarrow> 'j res) \<Rightarrow> string \<Rightarrow> DetectorConfig res" where
  "read_config_from_json_string api parse data = bindE (parse data) (read_config api)"

section \<open>Module geometry\<close>

definition um_at :: "('k \<times> 'v) list \<Rightarrow> 'k \<Rightarrow> 'v res" where
  "um_at m k = (case map_of m k of Some v \<Rightarrow> Inr v | None \<Rightarrow> Inl (OutOfRange ''_Map_base::at''))"

definition get_module_start_position :: "DetectorConfig \<Rightarrow> u64 \<Rightarrow> Point res" where
  "get_module_start_position config mid = bindE (um_at (modules config) mid) (\<lambda>p. Inr (fst p))"

definition get_module_end_position :: "DetectorConfig \<Rightarrow> u64 \<Rightarrow> Point res" where
  "get_module_end_position config mid = bindE (um_at (modules config) mid) (\<lambda>p. Inr (snd p))"

text \<open>\<open>bitset<128>::set\<close> and \<open>test\<close> check the position.\<close>

definition mask_set :: "nat \<Rightarrow> modules_mask \<Rightarrow> modules_mask res" where
  "mask_set i m = (if i < 128 then Inr (set_bit i m) else Inl (OutOfRange ''bitset::set''))"

definition mask_reset :: "nat \<Rightarrow> modules_mask \<Rightarrow> modules_mask res" where
  "mask_reset i m = (if i < 128 then Inr (unset_bit i m) else Inl (OutOfRange ''bitset::reset''))"

definition mask_test :: "nat \<Rightarrow> modules_mask \<Rightarrow> bool res" where
  "mask_test i m = (if i < 128 then Inr (bit m i) else Inl (OutOfRange ''bitset::test''))"

text \<open>\<open>key % n_modules\<close>: the \<open>int\<close> is converted to \<open>size_t\<close>; a zero divisor is undefined.\<close>

definition module_slot :: "u64 \<Rightarrow> int \<Rightarrow> nat res" where
  "module_slot key n =
     (if word_of_int n = (0 :: u64) then Inl (Undefined ''division by zero'')
      else Inr (unat (key mod word_of_int n)))"

definition get_modules_mask :: "DetectorConfig \<Rightarrow> modules_mask res" where
  "get_modules_mask config =
     forE (\<lambda>kv m. bindE (module_slot (fst kv) (n_modules config)) (\<lambda>i. mask_set i m))
       (modules config) 0"

definition test_if_module_is_inside_image :: "DetectorConfig \<Rightarrow> int \<Rightarrow> unit res" where
  "test_if_module_is_inside_image config mid =
     bindE (get_module_end_position config (word_of_int mid)) (\<lambda>module_end.
     bindE (get_module_start_position config (word_of_int mid)) (\<lambda>module_start.
     if pt_x module_start > image_pixel_width config \<or> pt_y module_start > image_pixel_height config
     then Inl (RuntimeError ''Start of module is out-of-bound!'')
     else if pt_x module_end > image_pixel_width config \<or> pt_y module_end > image_pixel_height config
     then Inl (RuntimeError ''End of module is out-of-bound!'')
     else Inr ()))"

section \<open>\<open>get_metadata_dtype.hpp\<close>\<close>

definition get_metadata_dtype :: "DetectorConfig \<Rightarrow> ImageMetadataDtype res" where
  "get_metadata_dtype config =
     (if detector_type config = ''jungfrau-converted'' then Inr dt_float32
      else if bit_depth config = 8 then Inr dt_uint8
      else if bit_depth config = 16 then Inr dt_uint16
      else if bit_depth config = 32 then Inr dt_uint32
      else Inl (RuntimeError ''Unsupported bit_depth of the image''))"

definition get_bytes_from_metadata_dtype :: "ImageMetadataDtype \<Rightarrow> u64 res" where
  "get_bytes_from_metadata_dtype t =
     (if t = dt_float32 then Inr 4
      else if t = dt_uint8 then Inr 1
      else if t = dt_uint16 then Inr 2
      else if t = dt_uint32 then Inr 4
      else Inl (RuntimeError ''Unsupported bit_depth of the image''))"

section \<open>Properties\<close>

lemma map_of_um_assign: "map_of (um_assign k v m) = (map_of m)(k \<mapsto> v)"
  by (induction k v m rule: um_assign.induct) auto

lemma module_slot_ok:
  assumes "0 < n" and "n < 2 ^ 31"
  shows "module_slot key n = Inr (unat key mod nat n)"
proof -
  have u: "uint (word_of_int n :: u64) = n"
    using assms by (simp add: uint_word_of_int)
  have "(word_of_int n :: u64) \<noteq> 0"
    using u assms by (metis order_less_irrefl uint_0_eq)
  moreover have "unat (word_of_int n :: u64) = nat n"
    using u by (simp add: unat_eq_nat_uint)
  ultimately show ?thesis by (simp add: module_slot_def unat_mod)
qed

lemma modules_mask_loop:
  assumes "0 < n" and "n \<le> 128"
  shows "\<exists>m'. forE (\<lambda>kv m. bindE (module_slot (fst kv) n) (\<lambda>i. mask_set i m)) ms m = Inr m' \<and>
    (\<forall>i. bit m' i \<longleftrightarrow> bit m i \<or> (\<exists>kv \<in> set ms. unat (fst kv) mod nat n = i))"
proof (induction ms arbitrary: m)
  case Nil
  then show ?case by simp
next
  case (Cons kv ms)
  define i where "i = unat (fst kv) mod nat n"
  have "i < nat n" using assms by (simp add: i_def)
  then have i: "i < 128" using assms by linarith
  have step: "bindE (module_slot (fst kv) n) (\<lambda>i. mask_set i m) = Inr (set_bit i m)"
    using i assms by (simp add: module_slot_ok mask_set_def i_def)
  show ?case using Cons.IH [of "set_bit i m"] i
    by (auto simp: step bit_set_bit_iff i_def)
qed

text \<open>The module mask is defined for up to 128 modules and has exactly the bits of the
  configured module ids, reduced modulo \<open>n_modules\<close>.\<close>

theorem get_modules_mask_bits:
  assumes "0 < n_modules config" and "n_modules config \<le> 128"
  shows "\<exists>m. get_modules_mask config = Inr m \<and>
    (\<forall>i. bit m i \<longleftrightarrow> (\<exists>key \<in> fst ` set (modules config).
       unat key mod nat (n_modules config) = i))"
  using modules_mask_loop [OF assms, of "modules config" 0] by (simp add: get_modules_mask_def)

text \<open>The configuration of the README, with the module positions of the unit test.\<close>

definition example_config :: DetectorConfig where
  "example_config =
     \<lparr>detector_name = ''stage.GF'', detector_type = ''gigafrost'', n_modules = 8, bit_depth = 16,
      image_pixel_height = 2016, image_pixel_width = 2016, start_udp_port = 2000,
      log_level = ''info'', stats_collection_period = 10, max_number_of_forwarders_spawned = 8,
      use_all_forwarders = False, gpfs_block_size = 16777216, sender_sends_full_images = False,
      module_sync_queue_size = 50, number_of_writers = 0, ram_buffer_gb = 0,
      delay_filter_timeout = 10, switch_user_active = False, ls_configs = [],
      modules =
        [(0, (\<lparr>pt_x = 0, pt_y = 1\<rparr>, \<lparr>pt_x = 100, pt_y = 101\<rparr>)),
         (2, (\<lparr>pt_x = 1, pt_y = 2\<rparr>, \<lparr>pt_x = 3, pt_y = 4\<rparr>)),
         (15, (\<lparr>pt_x = 5, pt_y = 6\<rparr>, \<lparr>pt_x = 7, pt_y = 8\<rparr>))]\<rparr>"

theorem get_modules_mask_bits_witness:
  "\<exists>m. get_modules_mask example_config = Inr m \<and>
    (\<forall>i. bit m i \<longleftrightarrow> (\<exists>key \<in> {0, 2, 15 :: u64}. unat key mod 8 = i))"
  using get_modules_mask_bits [of example_config] by (simp add: example_config_def)

text \<open>The expectation of the unit test.\<close>

lemma get_modules_mask_example: "get_modules_mask example_config = Inr 133"
  by code_simp

end
