(* ===== verification/Stats.thy ===== *)
theory Stats
  imports Prelude
begin

text \<open>
  The statistics collectors (\<open>utils/stats\<close> and the collectors of the services).
  Inheritance is record extension: a collector is its base's record with more fields, and
  the \<open>additional_message\<close> of a derived class calls the one of its base, as in the code.
  Every function that reads \<open>steady_clock\<close> takes the reading as an argument, in nanoseconds.
  How \<open>fmt\<close> prints a \<open>double\<close> is a parameter (\<open>rate_format\<close>).
  The contract shared by all counters is the locale \<open>flushed_counter\<close>: a report shows what was
  counted since the previous report, so that the reports and the remainder add up to the total.
\<close>

section \<open>\<open>StatsCollector\<close>\<close>

text \<open>Printing of integers and of the three \<open>double\<close>s of the reports.\<close>

definition fmt_nat :: "nat \<Rightarrow> string" where "fmt_nat n = dec_digits n"

definition fmt_int :: "int \<Rightarrow> string" where
  "fmt_int i = (if i < 0 then CHR ''-'' # dec_digits (nat (- i)) else dec_digits (nat i))"

text \<open>\<open>fr_rate times ms\<close> prints \<open>times * 1000.0 / ms\<close>, \<open>fr_ratio size images image_size\<close> the
  compression ratio, \<open>fr_throughput bytes ns\<close> the throughput.\<close>

record rate_format =
  fr_rate :: "u32 \<Rightarrow> int \<Rightarrow> string"
  fr_ratio :: "u64 \<Rightarrow> u64 \<Rightarrow> u64 \<Rightarrow> string"
  fr_throughput :: "u64 \<Rightarrow> int \<Rightarrow> string"

text \<open>The readings of the clock in one call of \<open>print_stats\<close>: the one that is compared with the
  period, the one of the repetition rate, the one of the time stamp.\<close>

record clock_reads =
  ck_now :: int
  ck_rate :: int
  ck_stamp :: int

record StatsCollector =
  sc_detector_name :: string
  sc_period :: int \<comment> \<open>seconds\<close>
  sc_last_update_time :: int \<comment> \<open>nanoseconds\<close>

definition additional_info :: "string \<Rightarrow> string" where
  "additional_info info = (if info \<noteq> [] then CHR '','' # info else [])"

text \<open>\<open>additional_message\<close> is the method of the derived class (the CRTP of the source).\<close>

definition print_stats ::
  "(int \<Rightarrow> 'a StatsCollector_scheme \<Rightarrow> string \<times> 'a StatsCollector_scheme) \<Rightarrow>
   clock_reads \<Rightarrow> 'a StatsCollector_scheme \<Rightarrow> string option \<times> 'a StatsCollector_scheme" where
  "print_stats additional_message ck s =
     (if sc_period s * 1000000000 < ck_now ck - sc_last_update_time s
      then let (info, s') = additional_message (ck_rate ck) s
           in (Some (''detector='' @ sc_detector_name s @ additional_info info @ '' '' @
                     fmt_int (ck_stamp ck)),
               s'\<lparr>sc_last_update_time := ck_now ck\<rparr>)
      else (None, s))"

section \<open>\<open>TimedStatsCollector\<close>\<close>

record TimedStatsCollector = StatsCollector +
  processed_times :: u32
  source_suffix :: string
  previous_time :: int

definition timed_process :: "'a TimedStatsCollector_scheme \<Rightarrow> 'a TimedStatsCollector_scheme" where
  "timed_process s = s\<lparr>processed_times := processed_times s + 1\<rparr>"

definition calculate_repetition_rate ::
  "rate_format \<Rightarrow> int \<Rightarrow> 'a TimedStatsCollector_scheme \<Rightarrow> string \<times> 'a TimedStatsCollector_scheme" where
  "calculate_repetition_rate fr now s =
     (let period = int_quot (now - previous_time s) 1000000
      in (fr_rate fr (processed_times s) period, s\<lparr>previous_time := now\<rparr>))"

definition timed_additional_message ::
  "rate_format \<Rightarrow> int \<Rightarrow> 'a TimedStatsCollector_scheme \<Rightarrow> string \<times> 'a TimedStatsCollector_scheme" where
  "timed_additional_message fr now s =
     (let (repetition_rate, s1) = calculate_repetition_rate fr now s;
          prefix = (if source_suffix s1 \<noteq> [] then ''source='' @ source_suffix s1 @ '','' else []);
          outcome = prefix @ ''processed_times='' @ fmt_nat (unat (processed_times s1)) @
            '',repetition_rate_hz='' @ repetition_rate
      in (outcome, s1\<lparr>processed_times := 0\<rparr>))"

section \<open>The collectors of \<open>utils/stats\<close>\<close>

record SyncStatsCollector = TimedStatsCollector +
  n_corrupted_images :: u64

text \<open>The parameter is an \<open>unsigned int\<close>: a \<open>size_t\<close> argument is cut to 32 bits.\<close>

definition sync_process :: "u32 \<Rightarrow> 'a SyncStatsCollector_scheme \<Rightarrow> 'a SyncStatsCollector_scheme" where
  "sync_process n_corrupted s =
     timed_process (s\<lparr>n_corrupted_images := n_corrupted_images s + ucast n_corrupted\<rparr>)"

definition sync_additional_message ::
  "rate_format \<Rightarrow> int \<Rightarrow> 'a SyncStatsCollector_scheme \<Rightarrow> string \<times> 'a SyncStatsCollector_scheme" where
  "sync_additional_message fr now s =
     (let (base, s1) = timed_additional_message fr now s;
          outcome = base @ '',n_corrupted_images='' @ fmt_nat (unat (n_corrupted_images s1))
      in (outcome, s1\<lparr>n_corrupted_images := 0\<rparr>))"

record QueueStatsCollector = SyncStatsCollector +
  queue_max :: u64

definition update_queue_length :: "u64 \<Rightarrow> 'a QueueStatsCollector_scheme \<Rightarrow> 'a QueueStatsCollector_scheme" where
  "update_queue_length queue_len s = s\<lparr>queue_max := max (queue_max s) queue_len\<rparr>"

definition queue_additional_message ::
  "rate_format \<Rightarrow> int \<Rightarrow> 'a QueueStatsCollector_scheme \<Rightarrow> string \<times> 'a QueueStatsCollector_scheme" where
  "queue_additional_message fr now s =
     (let (base, s1) = sync_additional_message fr now s;
          outcome = base @ '',queue='' @ fmt_nat (unat (queue_max s1))
      in (outcome, s1\<lparr>queue_max := 0\<rparr>))"

record ActiveSessionStatsCollector = TimedStatsCollector +
  n_active_connections :: u64

definition update_stats ::
  "u64 \<Rightarrow> 'a ActiveSessionStatsCollector_scheme \<Rightarrow> 'a ActiveSessionStatsCollector_scheme" where
  "update_stats active_connections s = s\<lparr>n_active_connections := active_connections\<rparr>"

definition active_additional_message ::
  "rate_format \<Rightarrow> int \<Rightarrow> 'a ActiveSessionStatsCollector_scheme \<Rightarrow>
   string \<times> 'a ActiveSessionStatsCollector_scheme" where
  "active_additional_message fr now s =
     (let (base, s1) = timed_additional_message fr now s
      in (base @ '',n_active_connections='' @ fmt_nat (unat (n_active_connections s1)), s1))"

record CompressionStatsCollector = TimedStatsCollector +
  cs_image_size :: u64
  compressed_images :: u64
  compressed_size :: u64

definition calculate_ratio :: "rate_format \<Rightarrow> 'a CompressionStatsCollector_scheme \<Rightarrow> string" where
  "calculate_ratio fr s =
     (if compressed_images s > 0
      then fr_ratio fr (compressed_size s) (compressed_images s) (cs_image_size s)
      else ''0'')"

definition compression_additional_message ::
  "rate_format \<Rightarrow> int \<Rightarrow> 'a CompressionStatsCollector_scheme \<Rightarrow>
   string \<times> 'a CompressionStatsCollector_scheme" where
  "compression_additional_message fr now s =
     (let ratio = calculate_ratio fr s;
          (base, s1) = timed_additional_message fr now s;
          outcome = base @ '',compressed_images='' @ fmt_nat (unat (compressed_images s1)) @
            '',ratio='' @ ratio
      in (outcome, s1\<lparr>compressed_images := 0, compressed_size := 0\<rparr>))"

definition compression_process ::
  "int \<Rightarrow> 'a CompressionStatsCollector_scheme \<Rightarrow> 'a CompressionStatsCollector_scheme" where
  "compression_process compressed s =
     timed_process
       (if compressed > 0
        then s\<lparr>compressed_images := compressed_images s + 1,
               compressed_size := compressed_size s + word_of_int compressed\<rparr>
        else s)"

record ModuleStatsCollector = TimedStatsCollector +
  ms_module_id :: int

definition module_additional_message ::
  "rate_format \<Rightarrow> int \<Rightarrow> 'a ModuleStatsCollector_scheme \<Rightarrow> string \<times> 'a ModuleStatsCollector_scheme" where
  "module_additional_message fr now s =
     (let (base, s1) = timed_additional_message fr now s
      in (''module_id='' @ fmt_int (ms_module_id s) @ '','' @ base, s1))"

section \<open>The collectors of the services\<close>

record FrameStatsCollector = ModuleStatsCollector +
  frames_counter :: u64
  n_missed_packets :: u64
  n_corrupted_frames :: u64

definition frame_process :: "u64 \<Rightarrow> 'a FrameStatsCollector_scheme \<Rightarrow> 'a FrameStatsCollector_scheme" where
  "frame_process n_missing s =
     (let s1 = (if n_missing > 0
                then s\<lparr>n_missed_packets := n_missed_packets s + n_missing,
                       n_corrupted_frames := n_corrupted_frames s + 1\<rparr>
                else s)
      in timed_process (s1\<lparr>frames_counter := frames_counter s1 + 1\<rparr>))"

definition frame_additional_message ::
  "rate_format \<Rightarrow> int \<Rightarrow> 'a FrameStatsCollector_scheme \<Rightarrow> string \<times> 'a FrameStatsCollector_scheme" where
  "frame_additional_message fr now s =
     (let (base, s1) = module_additional_message fr now s;
          outcome = base @ '',frames_counter='' @ fmt_nat (unat (frames_counter s1)) @
            '',n_corrupted_frames='' @ fmt_nat (unat (n_corrupted_frames s1)) @
            '',n_missed_packets='' @ fmt_nat (unat (n_missed_packets s1))
      in (outcome, s1\<lparr>frames_counter := 0, n_missed_packets := 0, n_corrupted_frames := 0\<rparr>))"

record SenderStatsCollector = TimedStatsCollector +
  snd_image_part :: int
  snd_zmq_fails :: u64

definition sender_process :: "u64 \<Rightarrow> 'a SenderStatsCollector_scheme \<Rightarrow> 'a SenderStatsCollector_scheme" where
  "sender_process send_fails s = timed_process (s\<lparr>snd_zmq_fails := snd_zmq_fails s + send_fails\<rparr>)"

definition sender_additional_message ::
  "rate_format \<Rightarrow> int \<Rightarrow> 'a SenderStatsCollector_scheme \<Rightarrow> string \<times> 'a SenderStatsCollector_scheme" where
  "sender_additional_message fr now s =
     (let (base, s1) = timed_additional_message fr now s;
          outcome = ''image_part='' @ fmt_int (snd_image_part s1) @ '','' @ base @
            '',zmq_fails='' @ fmt_nat (unat (snd_zmq_fails s1))
      in (outcome, s1\<lparr>snd_zmq_fails := 0\<rparr>))"

record ReceiverStatsCollector = TimedStatsCollector +
  rcv_image_part :: int
  rcv_zmq_fails :: u64
  prev_image_id :: u64
  images_missed :: u64

definition receiver_process ::
  "u32 \<Rightarrow> u64 \<Rightarrow> 'a ReceiverStatsCollector_scheme \<Rightarrow> 'a ReceiverStatsCollector_scheme" where
  "receiver_process receive_fails iid s =
     (let s1 = s\<lparr>rcv_zmq_fails := rcv_zmq_fails s + ucast receive_fails\<rparr>;
          s2 = (if prev_image_id s1 + 1 \<noteq> iid then s1\<lparr>images_missed := images_missed s1 + 1\<rparr> else s1);
          s3 = s2\<lparr>prev_image_id := (if iid > 0 then iid else prev_image_id s2)\<rparr>
      in timed_process s3)"

definition receiver_additional_message ::
  "rate_format \<Rightarrow> int \<Rightarrow> 'a ReceiverStatsCollector_scheme \<Rightarrow> string \<times> 'a ReceiverStatsCollector_scheme" where
  "receiver_additional_message fr now s =
     (let (base, s1) = timed_additional_message fr now s;
          outcome = ''image_part='' @ fmt_int (rcv_image_part s1) @ '','' @ base @
            '',zmq_receive_fails='' @ fmt_nat (unat (rcv_zmq_fails s1)) @
            '',images_missed='' @ fmt_nat (unat (images_missed s1))
      in (outcome, s1\<lparr>images_missed := 0, rcv_zmq_fails := 0\<rparr>))"

record FilterStatsCollector = TimedStatsCollector +
  forwarded_images :: u32

definition forward :: "'a FilterStatsCollector_scheme \<Rightarrow> 'a FilterStatsCollector_scheme" where
  "forward s = s\<lparr>forwarded_images := forwarded_images s + 1\<rparr>"

definition filter_additional_message ::
  "rate_format \<Rightarrow> int \<Rightarrow> 'a FilterStatsCollector_scheme \<Rightarrow> string \<times> 'a FilterStatsCollector_scheme" where
  "filter_additional_message fr now s =
     (let (base, s1) = timed_additional_message fr now s;
          outcome = base @ '',forwarded_images='' @ fmt_nat (unat (forwarded_images s1))
      in (outcome, s1\<lparr>forwarded_images := 0\<rparr>))"

record LiveStreamStatsCollector = TimedStatsCollector +
  ls_stype :: string
  ls_port :: string

definition live_stream_additional_message ::
  "rate_format \<Rightarrow> int \<Rightarrow> 'a LiveStreamStatsCollector_scheme \<Rightarrow>
   string \<times> 'a LiveStreamStatsCollector_scheme" where
  "live_stream_additional_message fr now s =
     (let (base, s1) = timed_additional_message fr now s
      in (''port='' @ ls_port s @ '',type='' @ ls_stype s @ '','' @ base, s1))"

section \<open>\<open>WriterStatsCollector\<close>\<close>

record WriterStatsCollector = StatsCollector +
  ws_image_n_bytes :: u64
  ws_image_counter :: int
  ws_total_bytes :: u64
  ws_total_buffer_write :: int
  ws_max_buffer_write :: int
  ws_writing_start :: int
  ws_source :: string
  ws_writer_id :: u64

definition start_image_write :: "int \<Rightarrow> 'a WriterStatsCollector_scheme \<Rightarrow> 'a WriterStatsCollector_scheme" where
  "start_image_write now s = s\<lparr>ws_writing_start := now\<rparr>"

definition end_image_write :: "int \<Rightarrow> 'a WriterStatsCollector_scheme \<Rightarrow> 'a WriterStatsCollector_scheme res" where
  "end_image_write now s =
     (if \<not> int_ok (ws_image_counter s + 1) then Inl (Undefined ''signed overflow'')
      else let write_duration = now - ws_writing_start s
           in Inr (s\<lparr>ws_image_counter := ws_image_counter s + 1,
                     ws_total_bytes := ws_total_bytes s + ws_image_n_bytes s,
                     ws_total_buffer_write := ws_total_buffer_write s + write_duration,
                     ws_max_buffer_write := max (ws_max_buffer_write s) write_duration\<rparr>))"

definition calculate_averages :: "rate_format \<Rightarrow> 'a WriterStatsCollector_scheme \<Rightarrow> u64 \<times> string" where
  "calculate_averages fr s =
     (if ws_image_counter s > 0
      then (word_of_int (int_quot (ws_total_buffer_write s) (ws_image_counter s)),
            fr_throughput fr (ws_total_bytes s) (ws_total_buffer_write s))
      else (0, ''0.00''))"

definition writer_additional_message ::
  "rate_format \<Rightarrow> int \<Rightarrow> 'a WriterStatsCollector_scheme \<Rightarrow> string \<times> 'a WriterStatsCollector_scheme" where
  "writer_additional_message fr now s =
     (let (avg_buffer_write, avg_throughput) = calculate_averages fr s;
          outcome = ''source='' @ ws_source s @ '',id='' @ fmt_nat (unat (ws_writer_id s)) @
            '',n_written_images='' @ fmt_int (ws_image_counter s) @
            '',avg_buffer_write_us='' @ fmt_nat (unat avg_buffer_write) @
            '',max_buffer_write_us='' @ fmt_int (ws_max_buffer_write s) @
            '',avg_throughput='' @ avg_throughput
      in (outcome, s\<lparr>ws_image_counter := 0, ws_total_bytes := 0, ws_total_buffer_write := 0,
                     ws_max_buffer_write := 0\<rparr>))"

section \<open>The contract of a counter\<close>

text \<open>
  A run of a collector: \<open>Count x\<close> is a call of \<open>process\<close>, \<open>Report c\<close> a call of \<open>print_stats\<close> with the
  clock readings \<open>c\<close>. \<open>stats_run\<close> gives the messages that are printed, in order, and the final state;
  \<open>counted\<close> is the sum of the amounts handed to \<open>process\<close>.
\<close>

datatype ('x, 'c) stats_op = Count 'x | Report 'c

fun stats_run ::
  "('x \<Rightarrow> 's \<Rightarrow> 's) \<Rightarrow> ('c \<Rightarrow> 's \<Rightarrow> string option \<times> 's) \<Rightarrow> ('x, 'c) stats_op list \<Rightarrow> 's \<Rightarrow> string list \<times> 's" where
  "stats_run add report [] s = ([], s)"
| "stats_run add report (Count x # ops) s = stats_run add report ops (add x s)"
| "stats_run add report (Report c # ops) s =
     (case report c s of (msg, s') \<Rightarrow>
      case stats_run add report ops s' of (msgs, t) \<Rightarrow> (case msg of None \<Rightarrow> msgs | Some m \<Rightarrow> m # msgs, t))"

fun counted :: "('x \<Rightarrow> 'n::comm_monoid_add) \<Rightarrow> ('x, 'c) stats_op list \<Rightarrow> 'n" where
  "counted amount [] = 0"
| "counted amount (Count x # ops) = amount x + counted amount ops"
| "counted amount (Report _ # ops) = counted amount ops"

text \<open>\<open>shown m v\<close>: the message \<open>m\<close> prints the value \<open>v\<close> of the counter.\<close>

locale flushed_counter =
  fixes counter :: "'s \<Rightarrow> 'n::comm_monoid_add"
    and add :: "'x \<Rightarrow> 's \<Rightarrow> 's"
    and amount :: "'x \<Rightarrow> 'n"
    and report :: "'c \<Rightarrow> 's \<Rightarrow> string option \<times> 's"
    and shown :: "string \<Rightarrow> 'n \<Rightarrow> bool"
  assumes counter_add: "counter (add x s) = counter s + amount x"
    and report_shows: "report c s = (Some m, s') \<Longrightarrow> shown m (counter s)"
    and report_flushes: "report c s = (Some m, s') \<Longrightarrow> counter s' = 0"
    and report_idle: "report c s = (None, s') \<Longrightarrow> counter s' = counter s"
begin

lemma reports_add_up:
  "stats_run add report ops s = (msgs, t) \<Longrightarrow>
    \<exists>vs. list_all2 shown msgs vs \<and> sum_list vs + counter t = counter s + counted amount ops"
proof (induction ops arbitrary: s msgs)
  case Nil
  then show ?case by simp
next
  case (Cons op ops)
  show ?case
  proof (cases op)
    case (Count x)
    then show ?thesis using Cons.IH [of "add x s"] Cons.prems by (simp add: counter_add add.assoc)
  next
    case (Report c)
    obtain msg s' where rep: "report c s = (msg, s')" by (rule prod.exhaust)
    obtain ms where ms: "stats_run add report ops s' = (ms, t)" "msgs = (case msg of None \<Rightarrow> ms | Some m \<Rightarrow> m # ms)"
      using Cons.prems Report rep by (auto split: prod.splits)
    obtain vs where vs: "list_all2 shown ms vs" "sum_list vs + counter t = counter s' + counted amount ops"
      using Cons.IH [OF ms(1)] by blast
    show ?thesis
    proof (cases msg)
      case None
      then show ?thesis using vs ms(2) Report report_idle rep by auto
    next
      case (Some m)
      then have "list_all2 shown msgs (counter s # vs)" "sum_list (counter s # vs) + counter t = counter s + counted amount ops"
        using vs ms(2) report_shows [of c s m s'] report_flushes [of c s m s'] rep by (simp_all add: add.assoc)
      then show ?thesis using Report by auto
    qed
  qed
qed

end

text \<open>A counter is printed behind its name; behind its digits comes the next field, the time stamp or the end.\<close>

definition shows_field :: "string \<Rightarrow> string \<Rightarrow> nat \<Rightarrow> bool" where
  "shows_field name m v \<longleftrightarrow> (\<exists>pre post. m = pre @ name @ ''='' @ fmt_nat v @ post \<and> (post = [] \<or> hd post \<in> {CHR '','', CHR '' ''}))"

lemma shows_fieldI:
  "m = pre @ name @ ''='' @ fmt_nat v @ post \<Longrightarrow> post = [] \<or> hd post \<in> {CHR '','', CHR '' ''} \<Longrightarrow> shows_field name m v"
  by (auto simp: shows_field_def)

lemmas stats_defs = print_stats_def timed_additional_message_def calculate_repetition_rate_def
  timed_process_def Let_def

text \<open>The message of the derived class is printed between the name of the detector and the time stamp.\<close>

lemma print_stats_shows:
  assumes "print_stats additional_message ck s = (Some m, s')"
    and "shows_field name (fst (additional_message (ck_rate ck) s)) v"
  shows "shows_field name m v"
proof -
  obtain info s1 where am: "additional_message (ck_rate ck) s = (info, s1)" by (rule prod.exhaust)
  obtain pre post where info: "info = pre @ name @ ''='' @ fmt_nat v @ post" "post = [] \<or> hd post \<in> {CHR '','', CHR '' ''}"
    using assms(2) am by (auto simp: shows_field_def)
  have "info \<noteq> []" using info(1) by simp
  then have "m = ''detector='' @ sc_detector_name s @ '','' @ info @ '' '' @ fmt_int (ck_stamp ck)"
    using assms(1) am by (auto simp: print_stats_def additional_info_def split: if_splits)
  then have "m = (''detector='' @ sc_detector_name s @ '','' @ pre) @ name @ ''='' @ fmt_nat v @ (post @ '' '' @ fmt_int (ck_stamp ck))"
    by (simp add: info(1))
  then show ?thesis by (rule shows_fieldI) (use info(2) in \<open>auto simp: hd_append\<close>)
qed

lemma timed_shows: "shows_field ''processed_times'' (fst (timed_additional_message fr now s)) (unat (processed_times s))"
  by (rule shows_fieldI [where pre = "if source_suffix s \<noteq> [] then ''source='' @ source_suffix s @ '','' else []" and
      post = "'',repetition_rate_hz='' @ fst (calculate_repetition_rate fr now s)"]) (simp_all add: stats_defs)

lemma sync_shows: "shows_field ''n_corrupted_images'' (fst (sync_additional_message fr now s)) (unat (n_corrupted_images s))"
  by (rule shows_fieldI [where pre = "fst (timed_additional_message fr now s) @ '',''" and post = "[]"])
    (simp_all add: sync_additional_message_def stats_defs)

lemma sender_shows: "shows_field ''zmq_fails'' (fst (sender_additional_message fr now s)) (unat (snd_zmq_fails s))"
  by (rule shows_fieldI [where pre = "''image_part='' @ fmt_int (snd_image_part s) @ '','' @
      fst (timed_additional_message fr now s) @ '',''" and post = "[]"]) (simp_all add: sender_additional_message_def stats_defs)

lemma receiver_shows: "shows_field ''zmq_receive_fails'' (fst (receiver_additional_message fr now s)) (unat (rcv_zmq_fails s))"
  by (rule shows_fieldI [where pre = "''image_part='' @ fmt_int (rcv_image_part s) @ '','' @
      fst (timed_additional_message fr now s) @ '',''" and post = "'',images_missed='' @ fmt_nat (unat (images_missed s))"])
    (simp_all add: receiver_additional_message_def stats_defs)

lemma compression_shows:
  "shows_field ''compressed_images'' (fst (compression_additional_message fr now s)) (unat (compressed_images s))"
  by (rule shows_fieldI [where pre = "fst (timed_additional_message fr now s) @ '',''" and post = "'',ratio='' @ calculate_ratio fr s"])
    (simp_all add: compression_additional_message_def stats_defs)

lemma filter_shows: "shows_field ''forwarded_images'' (fst (filter_additional_message fr now s)) (unat (forwarded_images s))"
  by (rule shows_fieldI [where pre = "fst (timed_additional_message fr now s) @ '',''" and post = "[]"])
    (simp_all add: filter_additional_message_def stats_defs)

interpretation times: flushed_counter processed_times "\<lambda>_. timed_process" "\<lambda>_. 1"
  "print_stats (timed_additional_message fr)" "\<lambda>m v. shows_field ''processed_times'' m (unat v)" for fr
  by unfold_locales (auto simp: stats_defs split: if_splits intro: print_stats_shows [OF _ timed_shows])

interpretation corrupted: flushed_counter n_corrupted_images sync_process ucast
  "print_stats (sync_additional_message fr)" "\<lambda>m v. shows_field ''n_corrupted_images'' m (unat v)" for fr
  by unfold_locales (auto simp: stats_defs sync_process_def sync_additional_message_def split: if_splits
      intro: print_stats_shows [OF _ sync_shows])

interpretation send_fails: flushed_counter snd_zmq_fails sender_process "\<lambda>n. n"
  "print_stats (sender_additional_message fr)" "\<lambda>m v. shows_field ''zmq_fails'' m (unat v)" for fr
  by unfold_locales (auto simp: stats_defs sender_process_def sender_additional_message_def
      split: if_splits intro: print_stats_shows [OF _ sender_shows])

interpretation receive_fails: flushed_counter rcv_zmq_fails "\<lambda>p. receiver_process (fst p) (snd p)"
  "\<lambda>p. ucast (fst p)" "print_stats (receiver_additional_message fr)" "\<lambda>m v. shows_field ''zmq_receive_fails'' m (unat v)" for fr
  by unfold_locales (auto simp: stats_defs receiver_process_def receiver_additional_message_def
      split: if_splits intro: print_stats_shows [OF _ receiver_shows])

interpretation compressed: flushed_counter compressed_images compression_process
  "\<lambda>n. of_bool (n > 0)" "print_stats (compression_additional_message fr)"
  "\<lambda>m v. shows_field ''compressed_images'' m (unat v)" for fr
  by unfold_locales (auto simp: stats_defs compression_process_def compression_additional_message_def
      split: if_splits intro: print_stats_shows [OF _ compression_shows])

interpretation forwarded: flushed_counter forwarded_images "\<lambda>_. forward" "\<lambda>_. 1"
  "print_stats (filter_additional_message fr)" "\<lambda>m v. shows_field ''forwarded_images'' m (unat v)" for fr
  by unfold_locales (auto simp: stats_defs forward_def filter_additional_message_def split: if_splits
      intro: print_stats_shows [OF _ filter_shows])

section \<open>The reports of a frame receiver\<close>

text \<open>The end of a printed report: the three counters and the time stamp.\<close>

definition frame_counters :: "string \<Rightarrow> u64 \<Rightarrow> u64 \<Rightarrow> u64 \<Rightarrow> bool" where
  "frame_counters m frames corrupted missed \<longleftrightarrow>
     (\<exists>pre stamp. m = pre @ '',frames_counter='' @ fmt_nat (unat frames) @ '',n_corrupted_frames='' @ fmt_nat (unat corrupted) @
        '',n_missed_packets='' @ fmt_nat (unat missed) @ '' '' @ fmt_int stamp)"

lemma frame_report_counters:
  assumes "print_stats (frame_additional_message fr) ck s = (Some m, s')"
  shows "frame_counters m (frames_counter s) (n_corrupted_frames s) (n_missed_packets s)"
proof -
  obtain base s1 where base: "module_additional_message fr (ck_rate ck) s = (base, s1)" by (rule prod.exhaust)
  then have s1: "frames_counter s1 = frames_counter s" "n_corrupted_frames s1 = n_corrupted_frames s"
    "n_missed_packets s1 = n_missed_packets s"
    by (auto simp: module_additional_message_def stats_defs)
  have "m = (''detector='' @ sc_detector_name s @ '','' @ base) @ '',frames_counter='' @ fmt_nat (unat (frames_counter s)) @
      '',n_corrupted_frames='' @ fmt_nat (unat (n_corrupted_frames s)) @
      '',n_missed_packets='' @ fmt_nat (unat (n_missed_packets s)) @ '' '' @ fmt_int (ck_stamp ck)"
    using assms base s1 by (simp add: print_stats_def frame_additional_message_def additional_info_def Let_def split: if_splits)
  then show ?thesis unfolding frame_counters_def by blast
qed

text \<open>A report determines the counters it shows.\<close>

lemma split_at_last:
  "xs @ c # ds = ys @ c # es \<Longrightarrow> c \<notin> set ds \<Longrightarrow> c \<notin> set es \<Longrightarrow> xs = ys \<and> ds = es"
proof -
  assume eq: "xs @ c # ds = ys @ c # es" and no: "c \<notin> set ds" "c \<notin> set es"
  have last: "takeWhile (\<lambda>x. x \<noteq> c) (rev (us @ c # vs)) = rev vs" if "c \<notin> set vs" for us vs
    using that by (simp add: takeWhile_tail takeWhile_append)
  have "rev ds = rev es" using last [OF no(1), of xs] last [OF no(2), of ys] unfolding eq by simp
  then show ?thesis using eq by simp
qed

lemma no_such_digit: "of_char c < (48 :: nat) \<or> 58 \<le> (of_char c :: nat) \<Longrightarrow> c \<notin> set (fmt_nat n)"
  unfolding fmt_nat_def using dec_digits_chars [of c n] by auto

lemma fmt_int_no_space: "CHR '' '' \<notin> set (fmt_int i)"
  using no_such_digit [of "CHR '' ''"] by (auto simp: fmt_int_def fmt_nat_def)

lemma last_field:
  assumes "xs @ name @ ''='' @ fmt_nat (unat v) = ys @ name @ ''='' @ fmt_nat (unat (w :: u64))"
  shows "v = w \<and> xs = ys"
proof -
  have "(xs @ name) @ CHR ''='' # fmt_nat (unat v) = (ys @ name) @ CHR ''='' # fmt_nat (unat w)" using assms by simp
  from split_at_last [OF this] have "xs @ name = ys @ name" "fmt_nat (unat v) = fmt_nat (unat w)"
    by (simp_all add: no_such_digit)
  then show ?thesis by (simp add: fmt_nat_def word_unat_eq_iff)
qed

lemma frame_counters_unique:
  assumes "frame_counters m a b c" and "frame_counters m a' b' c'"
  shows "a = a' \<and> b = b' \<and> c = c'"
proof -
  let ?head = "\<lambda>pre a b c. ((pre @ '',frames_counter'' @ ''='' @ fmt_nat (unat a)) @ '',n_corrupted_frames'' @ ''='' @ fmt_nat (unat b)) @
    '',n_missed_packets'' @ ''='' @ fmt_nat (unat c)"
  have form: "\<exists>pre st. m = ?head pre a b c @ CHR '' '' # fmt_int st" if "frame_counters m a b c" for a b c
    using that unfolding frame_counters_def by simp
  obtain pre st where 1: "m = ?head pre a b c @ CHR '' '' # fmt_int st" using form [OF assms(1)] by blast
  obtain pre' st' where 2: "m = ?head pre' a' b' c' @ CHR '' '' # fmt_int st'" using form [OF assms(2)] by blast
  have "?head pre a b c @ CHR '' '' # fmt_int st = ?head pre' a' b' c' @ CHR '' '' # fmt_int st'" by (rule trans [OF 1 [symmetric] 2])
  then have "?head pre a b c = ?head pre' a' b' c'" using split_at_last fmt_int_no_space by metis
  from last_field [OF this] have c: "c = c'" and
    "(pre @ '',frames_counter'' @ ''='' @ fmt_nat (unat a)) @ '',n_corrupted_frames'' @ ''='' @ fmt_nat (unat b) =
     (pre' @ '',frames_counter'' @ ''='' @ fmt_nat (unat a')) @ '',n_corrupted_frames'' @ ''='' @ fmt_nat (unat b')" by blast+
  from last_field [OF this(2)] have b: "b = b'" and
    "pre @ '',frames_counter'' @ ''='' @ fmt_nat (unat a) = pre' @ '',frames_counter'' @ ''='' @ fmt_nat (unat a')" by blast+
  from last_field [OF this(2)] b c show ?thesis by blast
qed

lemma frame_process_counts:
  "frames_counter (frame_process n s) = frames_counter s + 1"
  "n_corrupted_frames (frame_process n s) = n_corrupted_frames s + of_bool (n > 0)"
  "n_missed_packets (frame_process n s) = n_missed_packets s + n"
  by (simp_all add: frame_process_def timed_process_def Let_def word_gt_0)

lemma frame_report_flushes:
  assumes "print_stats (frame_additional_message fr) ck s = (Some m, s')"
  shows "frames_counter s' = 0 \<and> n_corrupted_frames s' = 0 \<and> n_missed_packets s' = 0"
  using assms by (auto simp: print_stats_def frame_additional_message_def Let_def split: if_splits prod.splits)

lemma no_report: "print_stats additional_message ck s = (None, s') \<Longrightarrow> s' = s"
  by (simp add: print_stats_def Let_def split: if_splits prod.splits)

lemmas frame_reports = frame_report_counters frame_report_flushes no_report

interpretation frames: flushed_counter frames_counter frame_process "\<lambda>_. 1"
  "print_stats (frame_additional_message fr)" "\<lambda>m v. \<exists>b c. frame_counters m v b c" for fr
  by unfold_locales (auto simp: frame_process_counts dest: frame_reports)

interpretation corrupted_frames: flushed_counter n_corrupted_frames frame_process "\<lambda>n. of_bool (n > 0)"
  "print_stats (frame_additional_message fr)" "\<lambda>m v. \<exists>a c. frame_counters m a v c" for fr
  by unfold_locales (auto simp: frame_process_counts dest: frame_reports)

interpretation packets: flushed_counter n_missed_packets frame_process "\<lambda>n. n"
  "print_stats (frame_additional_message fr)" "\<lambda>m v. \<exists>a b. frame_counters m a b v" for fr
  by unfold_locales (auto simp: frame_process_counts dest: frame_reports)

text \<open>The counters that a sequence of reports shows, report by report.\<close>

definition shown_counters :: "string list \<Rightarrow> (u64 \<times> u64 \<times> u64) list \<Rightarrow> bool" where
  "shown_counters msgs vs \<longleftrightarrow> list_all2 (\<lambda>m (a, b, c). frame_counters m a b c) msgs vs"

lemma shown_counters_zip:
  assumes "list_all2 (\<lambda>m v. \<exists>b c. frame_counters m v b c) msgs as"
    and "list_all2 (\<lambda>m v. \<exists>a c. frame_counters m a v c) msgs bs"
    and "list_all2 (\<lambda>m v. \<exists>a b. frame_counters m a b v) msgs cs"
  shows "shown_counters msgs (zip as (zip bs cs))"
proof -
  have len: "length as = length msgs" "length bs = length msgs" "length cs = length msgs"
    using assms by (auto dest: list_all2_lengthD)
  have "frame_counters (msgs ! i) (as ! i) (bs ! i) (cs ! i)" if i: "i < length msgs" for i
  proof -
    obtain b c where 1: "frame_counters (msgs ! i) (as ! i) b c" using list_all2_nthD [OF assms(1) i] by blast
    obtain a c' where 2: "frame_counters (msgs ! i) a (bs ! i) c'" using list_all2_nthD [OF assms(2) i] by blast
    obtain a' b' where 3: "frame_counters (msgs ! i) a' b' (cs ! i)" using list_all2_nthD [OF assms(3) i] by blast
    show ?thesis using 1 frame_counters_unique [OF 1 2] frame_counters_unique [OF 1 3] by simp
  qed
  then show ?thesis using len by (simp add: shown_counters_def list_all2_conv_all_nth)
qed

lemma shown_counters_unique:
  assumes "shown_counters msgs us" and "shown_counters msgs vs"
  shows "us = vs"
proof (rule nth_equalityI)
  show len: "length us = length vs" using assms unfolding shown_counters_def by (metis list_all2_lengthD)
  fix i assume i: "i < length us"
  obtain a b c a' b' c' where e: "us ! i = (a, b, c)" "vs ! i = (a', b', c')" by (metis prod_cases3)
  have "frame_counters (msgs ! i) a b c" "frame_counters (msgs ! i) a' b' c'"
    using assms i len e unfolding shown_counters_def list_all2_conv_all_nth by auto
  then show "us ! i = vs ! i" using frame_counters_unique e by metis
qed

section \<open>Properties\<close>

text \<open>C29. The reports of a frame receiver neither lose nor repeat a count: over any run of
  \<open>process\<close> and \<open>print_stats\<close>, the printed messages determine, report by report, the numbers of frames, of
  corrupted frames and of missed packets they show, and each of these sums, together with the counter that
  is left, is what the counter held at first plus what \<open>process\<close> was called with: one frame for each call, one corrupted frame
  for each call with missing packets, and the missing packets themselves (modulo \<open>2 ^ 64\<close>).\<close>

theorem frame_reports_add_up:
  fixes s :: "'a FrameStatsCollector_scheme"
  shows "case stats_run frame_process (print_stats (frame_additional_message fr)) ops s of (msgs, t) \<Rightarrow>
    (\<exists>vs. (\<forall>us. shown_counters msgs us \<longleftrightarrow> us = vs) \<and>
       (\<Sum>(a, b, c) \<leftarrow> vs. a) + frames_counter t = frames_counter s + counted (\<lambda>_. 1) ops \<and>
       (\<Sum>(a, b, c) \<leftarrow> vs. b) + n_corrupted_frames t = n_corrupted_frames s + counted (\<lambda>n. of_bool (n > 0)) ops \<and>
       (\<Sum>(a, b, c) \<leftarrow> vs. c) + n_missed_packets t = n_missed_packets s + counted (\<lambda>n. n) ops)"
proof -
  obtain msgs t where run: "stats_run frame_process (print_stats (frame_additional_message fr)) ops s = (msgs, t)"
    by (rule prod.exhaust)
  obtain as where as: "list_all2 (\<lambda>m v. \<exists>b c. frame_counters m v b c) msgs as"
      "sum_list as + frames_counter t = frames_counter s + counted (\<lambda>_. 1) ops"
    using frames.reports_add_up [OF run] by blast
  obtain bs where bs: "list_all2 (\<lambda>m v. \<exists>a c. frame_counters m a v c) msgs bs"
      "sum_list bs + n_corrupted_frames t = n_corrupted_frames s + counted (\<lambda>n. of_bool (n > 0)) ops"
    using corrupted_frames.reports_add_up [OF run] by blast
  obtain cs where cs: "list_all2 (\<lambda>m v. \<exists>a b. frame_counters m a b v) msgs cs"
      "sum_list cs + n_missed_packets t = n_missed_packets s + counted (\<lambda>n. n) ops"
    using packets.reports_add_up [OF run] by blast
  have len: "length as = length msgs" "length bs = length msgs" "length cs = length msgs"
    using as(1) bs(1) cs(1) by (auto dest: list_all2_lengthD)
  define vs where "vs = zip as (zip bs cs)"
  have "shown_counters msgs us \<longleftrightarrow> us = vs" for us
    using shown_counters_zip [OF as(1) bs(1) cs(1)] shown_counters_unique unfolding vs_def by blast
  moreover have "map (\<lambda>(a, b, c). a) vs = as" "map (\<lambda>(a, b, c). b) vs = bs" "map (\<lambda>(a, b, c). c) vs = cs"
    using len by (auto simp: vs_def intro!: nth_equalityI)
  ultimately show ?thesis using run as(2) bs(2) cs(2) by auto
qed

text \<open>The gap detector of the stream receiver: consecutive ids from 1 on are never counted as
  missed, whatever their number.\<close>

lemma receiver_process_consecutive:
  assumes "iid = prev_image_id s + 1" and "iid \<noteq> 0"
  shows "images_missed (receiver_process 0 iid s) = images_missed s"
    and "prev_image_id (receiver_process 0 iid s) = iid"
    and "rcv_zmq_fails (receiver_process 0 iid s) = rcv_zmq_fails s"
  using assms by (simp_all add: receiver_process_def timed_process_def Let_def word_gt_0)

lemma receiver_process_gap:
  "iid \<noteq> prev_image_id s + 1 \<Longrightarrow>
   images_missed (receiver_process n iid s) = images_missed s + 1"
  by (auto simp: receiver_process_def timed_process_def Let_def)

end
