(* ===== verification/DetDriver.thy ===== *)
theory DetDriver
  imports Sockets DetectorConfig Stats
begin

text \<open>
  \<open>std-det-driver\<close>: the process that takes start and stop commands over web sockets and drives the
  file writers. It has a thread per recording (\<open>writer_driver::start\<close>), a thread per session that
  reports state changes, and the handler of requests; they share the state manager.

  Every operation is a function on the state it changes. A recording is modelled as the sequence of
  operations that the code of \<open>start\<close> is, and as a machine that makes one access to the shared state or
  to a socket per step, from which the interleaving with the other threads is built; run alone, the
  machine computes the sequence of operations. Requests and monitors are machines of the same kind.
  The JSON library is an argument; replies of the writers are queues, filled by the environment. A
  call of \<open>zmq_send\<close> is a step, however long it blocks.
\<close>

section \<open>The state\<close>

datatype driver_state =
    ds_idle | ds_started | ds_creating_file | ds_file_created | ds_waiting_for_first_image
  | ds_recording | ds_saving_file | ds_file_saved | ds_stop | ds_error | ds_num_states

definition state_names :: "string list" where
  "state_names = [''idle'', ''started'', ''creating_file'', ''file_created'', ''waiting_for_first_image'',
     ''recording'', ''saving_file'', ''file_saved'', ''stop'', ''error'']"

fun state_index :: "driver_state \<Rightarrow> nat" where
  "state_index ds_idle = 0"
| "state_index ds_started = 1"
| "state_index ds_creating_file = 2"
| "state_index ds_file_created = 3"
| "state_index ds_waiting_for_first_image = 4"
| "state_index ds_recording = 5"
| "state_index ds_saving_file = 6"
| "state_index ds_file_saved = 7"
| "state_index ds_stop = 8"
| "state_index ds_error = 9"
| "state_index ds_num_states = 10"

definition state_to_string :: "driver_state \<Rightarrow> string" where
  "state_to_string s =
     (if state_index s < length state_names then state_names ! state_index s else ''unknown'')"

record state_manager =
  sm_state :: driver_state
  sm_images_processed :: u32
  sm_active_sessions :: u32

definition state_manager_ctor :: state_manager where
  "state_manager_ctor = \<lparr>sm_state = ds_idle, sm_images_processed = 0, sm_active_sessions = 0\<rparr>"

definition change_state :: "driver_state \<Rightarrow> state_manager \<Rightarrow> state_manager" where
  "change_state newState sm =
     sm\<lparr>sm_state := newState,
        sm_images_processed := (if newState = ds_idle then 0 else sm_images_processed sm)\<rparr>"

definition update_image_count :: "u32 \<Rightarrow> state_manager \<Rightarrow> state_manager" where
  "update_image_count sent_images sm = sm\<lparr>sm_images_processed := sent_images\<rparr>"

definition add_active_session :: "state_manager \<Rightarrow> state_manager" where
  "add_active_session sm = sm\<lparr>sm_active_sessions := sm_active_sessions sm + 1\<rparr>"

definition remove_active_session :: "state_manager \<Rightarrow> state_manager" where
  "remove_active_session sm = sm\<lparr>sm_active_sessions := sm_active_sessions sm - 1\<rparr>"

definition is_recording :: "state_manager \<Rightarrow> bool" where
  "is_recording sm \<longleftrightarrow> sm_state sm = ds_recording \<or> sm_state sm = ds_waiting_for_first_image \<or>
     sm_state sm = ds_creating_file"

text \<open>The condition \<open>wait_for_one_of_states\<close> waits for.\<close>

definition in_one_of_states :: "driver_state list \<Rightarrow> state_manager \<Rightarrow> bool" where
  "in_one_of_states states sm \<longleftrightarrow> list_ex (\<lambda>s. sm_state sm = s) states"

section \<open>Commands\<close>

record run_settings =
  rs_path :: string
  rs_n_images :: u64
  rs_writer :: int
  rs_start_image_id :: u64

definition parse_command :: "(string \<Rightarrow> 'j res) \<Rightarrow> string \<Rightarrow> 'j option" where
  "parse_command parse msg = (case parse msg of Inr j \<Rightarrow> Some j | Inl _ \<Rightarrow> None)"

definition no_except :: "'a res \<Rightarrow> 'a res" where
  "no_except m = (case m of Inl _ \<Rightarrow> Inl (Terminated ''exception in noexcept'') | Inr x \<Rightarrow> Inr x)"

definition process_start_request :: "'j json_api \<Rightarrow> 'j \<Rightarrow> run_settings option res" where
  "process_start_request api command =
     no_except (bindE (jc_value_string api command ''command'' []) (\<lambda>c.
       if c = ''start'' \<and> jc_contains api command ''path''
       then bindE (bindE (jc_at api command ''path'') (jc_get_string api)) (\<lambda>path.
            bindE (jc_value_string api command ''file_prefix'' ''file'') (\<lambda>file_prefix.
            bindE (jc_value_u64 api command ''n_image'' 16777215) (\<lambda>n.
            bindE (jc_value_int api command ''writer_id'' 0) (\<lambda>w.
            bindE (jc_value_u64 api command ''start_id'' 0) (\<lambda>start.
            Inr (Some \<lparr>rs_path = path @ ''/'' @ file_prefix, rs_n_images = n, rs_writer = w,
                       rs_start_image_id = start\<rparr>))))))
       else Inr None))"

section \<open>The writer driver\<close>

text \<open>\<open>wd_sent\<close>: what was sent to each writer; \<open>wd_replies\<close>: the replies that wait to be read. The
  metadata writer, if there is one, comes first.\<close>

record writer_driver =
  wd_with_metadata_writer :: bool
  wd_sent :: "WriterAction list list"
  wd_replies :: "WriterResponse list list"

record driver_sockets =
  dk_send :: "zmq_socket list"
  dk_receive :: "zmq_socket list"
  dk_sync :: zmq_socket

definition prepare_sync_receiver_socket :: "zmq_api \<Rightarrow> string \<Rightarrow> zmq_socket res" where
  "prepare_sync_receiver_socket z source_name =
     (if \<not> z_socket z ZMQ_SUB then Inl (zmq_error z)
      else bindE (set_option z RCVHWM 1000 (new_socket ZMQ_SUB)) (\<lambda>s.
           bindE (set_option z RCVTIMEO 1000 s) (\<lambda>s.
           bindE (set_option z LINGER 0 s) (connect_to z (IPC_URL_BASE @ source_name)))))"

definition bind_writer_socket :: "zmq_api \<Rightarrow> string \<Rightarrow> zmq_socket res" where
  "bind_writer_socket z stream_address =
     (if \<not> z_socket z ZMQ_PUSH then Inl (zmq_error z)
      else bindE (set_option z SNDHWM 100 (new_socket ZMQ_PUSH)) (\<lambda>s.
           bindE (set_option z LINGER 0 s) (bind_to z (IPC_URL_BASE @ stream_address))))"

definition connect_to_socket :: "zmq_api \<Rightarrow> string \<Rightarrow> zmq_socket res" where
  "connect_to_socket z stream_address =
     (if \<not> z_socket z ZMQ_PULL then Inl (zmq_error z)
      else bindE (set_option z RCVHWM 1000 (new_socket ZMQ_PULL)) (\<lambda>s.
           bindE (set_option z RCVTIMEO 5000 s) (connect_to z (IPC_URL_BASE @ stream_address))))"

text \<open>The names of the writers, in the order of the sockets.\<close>

definition writer_names :: "bool \<Rightarrow> DetectorConfig \<Rightarrow> string list" where
  "writer_names with_meta config =
     (if with_meta then [''meta''] else []) @ map dec_digits [0..<nat (number_of_writers config)]"

definition open_writer_sockets ::
  "zmq_api \<Rightarrow> DetectorConfig \<Rightarrow> string \<Rightarrow> zmq_socket list \<times> zmq_socket list \<Rightarrow> (zmq_socket list \<times> zmq_socket list) res" where
  "open_writer_sockets z config name socks =
     bindE (bind_writer_socket z (detector_name config @ ''-driver-'' @ name)) (\<lambda>s.
     bindE (connect_to_socket z (detector_name config @ ''-writer-'' @ name)) (\<lambda>r.
     Inr (fst socks @ [s], snd socks @ [r])))"

definition writer_driver_ctor ::
  "zmq_api \<Rightarrow> string \<Rightarrow> DetectorConfig \<Rightarrow> bool \<Rightarrow> (writer_driver \<times> driver_sockets) res" where
  "writer_driver_ctor z suffix config with_meta_writer =
     (let names = writer_names with_meta_writer config in
      bindE (forE (open_writer_sockets z config) names ([], [])) (\<lambda>(sends, receives).
      bindE (prepare_sync_receiver_socket z (detector_name config @ ''-'' @ suffix)) (\<lambda>sync.
      Inr (\<lparr>wd_with_metadata_writer = with_meta_writer, wd_sent = map (\<lambda>_. []) sends,
            wd_replies = map (\<lambda>_. []) receives\<rparr>,
           \<lparr>dk_send = sends, dk_receive = receives, dk_sync = sync\<rparr>))))"

definition generate_file_path_for_writer :: "writer_driver \<Rightarrow> string \<Rightarrow> nat \<Rightarrow> string" where
  "generate_file_path_for_writer wd base_path index =
     (if wd_with_metadata_writer wd
      then if index = 0 then base_path @ ''Meta.h5'' else base_path @ dec_digits (index - 1) @ ''.h5''
      else base_path @ dec_digits index @ ''.h5'')"

definition send_to_writer :: "nat \<Rightarrow> WriterAction \<Rightarrow> writer_driver \<Rightarrow> writer_driver" where
  "send_to_writer i action wd = wd\<lparr>wd_sent := (wd_sent wd)[i := wd_sent wd ! i @ [action]]\<rparr>"

definition send_create_file_requests ::
  "string \<Rightarrow> int \<Rightarrow> state_manager \<times> writer_driver \<Rightarrow> state_manager \<times> writer_driver" where
  "send_create_file_requests base_path wid st =
     (case st of (sm, wd) \<Rightarrow>
        (change_state ds_creating_file sm,
         fold (\<lambda>i wd. send_to_writer i
                 (CreateFile \<lparr>cfc_path = generate_file_path_for_writer wd base_path i,
                              cfc_writer_id = word_of_int wid\<rparr>) wd)
           [0..<length (wd_sent wd)] wd))"

text \<open>The size of a serialized response: a field with its default value takes no space, so that the
  default response is an empty message.\<close>

definition is_empty_response :: "WriterResponse \<Rightarrow> bool" where
  "is_empty_response r \<longleftrightarrow> wr_code r = UNKNOWN \<and> wr_reason r = []"

text \<open>The loop over the receive sockets: the number of replies, or \<open>None\<close> for the early return at a
  failure. A socket without a reply times out.\<close>

fun collect_replies :: "WriterResponse list list \<Rightarrow> nat \<Rightarrow> nat option \<times> WriterResponse list list" where
  "collect_replies [] n = (Some n, [])"
| "collect_replies ([] # qs) n = (case collect_replies qs n of (r, qs') \<Rightarrow> (r, [] # qs'))"
| "collect_replies ((a # as) # qs) n =
     (if is_empty_response a then (case collect_replies qs n of (r, qs') \<Rightarrow> (r, as # qs'))
      else if wr_code a = FAILURE then (None, as # qs)
      else (case collect_replies qs (Suc n) of (r, qs') \<Rightarrow> (r, as # qs')))"

definition did_all_writers_acknowledge :: "writer_driver \<Rightarrow> bool \<times> writer_driver" where
  "did_all_writers_acknowledge wd =
     (case collect_replies (wd_replies wd) 0 of
        (r, qs) \<Rightarrow> (r = Some (length (wd_replies wd)), wd\<lparr>wd_replies := qs\<rparr>))"

definition get_current_writer_index :: "writer_driver \<Rightarrow> u32 \<Rightarrow> nat res" where
  "get_current_writer_index wd index =
     (let n = (if wd_with_metadata_writer wd then length (wd_sent wd) - 1 else length (wd_sent wd))
      in if n = 0 then Inl (Undefined ''division by zero'')
         else Inr ((if wd_with_metadata_writer wd then 1 else 0) + unat index mod n))"

text \<open>One turn of the loop of \<open>record_images\<close>; a turn without an image changes nothing.\<close>

definition record_turn ::
  "ImageMetadata option \<Rightarrow> u32 \<times> state_manager \<times> writer_driver \<Rightarrow> (u32 \<times> state_manager \<times> writer_driver) res" where
  "record_turn received st =
     (case st of (i, sm, wd) \<Rightarrow> case received of
        None \<Rightarrow> Inr st
      | Some meta \<Rightarrow>
          let sm1 = (if i = 0 then change_state ds_recording sm else sm);
              wd1 = (if wd_with_metadata_writer wd then send_to_writer 0 (RecordImage meta) wd else wd)
          in bindE (get_current_writer_index wd1 i) (\<lambda>w.
             Inr (i + 1, update_image_count (i + 1) sm1, send_to_writer w (RecordImage meta) wd1)))"

definition goes_on :: "u64 \<Rightarrow> u32 \<Rightarrow> state_manager \<Rightarrow> bool" where
  "goes_on n_images i sm \<longleftrightarrow> ucast i < n_images \<and> is_recording sm"

text \<open>\<open>zmq_setsockopt\<close> succeeds or fails with a reason; a failure is thrown and leaves the function of
  the thread, which ends the process.\<close>

definition subscribe :: "string option \<Rightarrow> unit res" where
  "subscribe failure = (case failure of None \<Rightarrow> Inr () | Some reason \<Rightarrow> Inl (RuntimeError reason))"

definition unsubscribe :: "string option \<Rightarrow> unit res" where
  "unsubscribe failure = (case failure of None \<Rightarrow> Inr () | Some reason \<Rightarrow> Inl (RuntimeError reason))"

text \<open>The loop over what \<open>zmq_recv\<close> gives in turn; the flag says whether the loop has ended or still waits.\<close>

fun record_loop ::
  "u64 \<Rightarrow> ImageMetadata option list \<Rightarrow> u32 \<times> state_manager \<times> writer_driver \<Rightarrow>
   (bool \<times> u32 \<times> state_manager \<times> writer_driver) res" where
  "record_loop n_images [] (i, sm, wd) = Inr (\<not> goes_on n_images i sm, i, sm, wd)"
| "record_loop n_images (r # rs) (i, sm, wd) =
     (if goes_on n_images i sm then bindE (record_turn r (i, sm, wd)) (record_loop n_images rs)
      else Inr (True, i, sm, wd))"

text \<open>\<open>None\<close>: the loop still waits for images.\<close>

definition record_images ::
  "u64 \<Rightarrow> string option \<Rightarrow> string option \<Rightarrow> ImageMetadata option list \<Rightarrow> state_manager \<times> writer_driver \<Rightarrow>
   (state_manager \<times> writer_driver) option res" where
  "record_images n_images sub unsub received st =
     bindE (subscribe sub) (\<lambda>_.
     bindE (record_loop n_images received (0, st)) (\<lambda>(ended, _, st').
     if \<not> ended then Inr None else bindE (unsubscribe unsub) (\<lambda>_. Inr (Some st'))))"

definition send_command_to_all_writers :: "WriterAction \<Rightarrow> writer_driver \<Rightarrow> writer_driver" where
  "send_command_to_all_writers action wd = wd\<lparr>wd_sent := map (\<lambda>sent. sent @ [action]) (wd_sent wd)\<rparr>"

definition did_all_writers_record_data :: "writer_driver \<Rightarrow> bool \<times> writer_driver" where
  "did_all_writers_record_data wd = did_all_writers_acknowledge (send_command_to_all_writers ConfirmLastImage wd)"

definition send_save_file_requests :: "state_manager \<times> writer_driver \<Rightarrow> state_manager \<times> writer_driver" where
  "send_save_file_requests st =
     (case st of (sm, wd) \<Rightarrow>
        case did_all_writers_acknowledge (send_command_to_all_writers CloseFile wd) of
          (ok, wd') \<Rightarrow> (change_state (if ok then ds_file_saved else ds_error) (change_state ds_saving_file sm), wd'))"

text \<open>The body of the thread; \<open>None\<close>: it still waits for images. \<open>sub\<close> and \<open>unsub\<close> are the outcomes of
  subscribing and unsubscribing.\<close>

definition writer_driver_start ::
  "run_settings \<Rightarrow> string option \<Rightarrow> string option \<Rightarrow> ImageMetadata option list \<Rightarrow> state_manager \<times> writer_driver \<Rightarrow>
   (state_manager \<times> writer_driver) option res" where
  "writer_driver_start settings sub unsub received st =
     (case send_create_file_requests (rs_path settings) (rs_writer settings) st of (sm1, wd1) \<Rightarrow>
      case did_all_writers_acknowledge wd1 of (ok, wd2) \<Rightarrow>
      if \<not> ok then Inr (Some (change_state ds_error sm1, wd2))
      else bindE (record_images (rs_n_images settings) sub unsub received
                    (change_state ds_waiting_for_first_image sm1, wd2)) (\<lambda>r.
           case r of None \<Rightarrow> Inr None
           | Some (sm3, wd3) \<Rightarrow>
               case did_all_writers_record_data wd3 of (ok, wd4) \<Rightarrow>
               Inr (Some (if ok then send_save_file_requests (sm3, wd4) else (sm3, wd4)))))"

section \<open>The thread as a machine\<close>

text \<open>What the writers are told and asked to acknowledge.\<close>

datatype writer_command = CreateFiles run_settings | ConfirmImages | CloseFiles

fun command_for :: "writer_driver \<Rightarrow> writer_command \<Rightarrow> nat \<Rightarrow> WriterAction" where
  "command_for wd (CreateFiles s) i =
     CreateFile \<lparr>cfc_path = generate_file_path_for_writer wd (rs_path s) i, cfc_writer_id = word_of_int (rs_writer s)\<rparr>"
| "command_for wd ConfirmImages i = ConfirmLastImage"
| "command_for wd CloseFiles i = CloseFile"

text \<open>Where the thread is: before which access to the state manager or to a socket.
  \<open>SendCommand c i\<close> and \<open>AwaitReply c i n\<close> are the loops over the sockets at socket \<open>i\<close>, the latter with
  \<open>n\<close> replies so far; the states from \<open>Testing\<close> to \<open>Counting\<close> are a turn of the loop of \<open>record_images\<close>.\<close>

datatype driver_pc =
    Starting run_settings
  | SendCommand writer_command nat
  | AwaitReply writer_command nat nat
  | Created run_settings
  | CreateFailed
  | Subscribing u64
  | Testing u64 u32
  | Receiving u64 u32
  | FirstImage u64 u32 ImageMetadata
  | SendMeta u64 u32 ImageMetadata
  | SendImage u64 u32 ImageMetadata
  | Counting u64 u32
  | Unsubscribing
  | Saving
  | Closed bool
  | Finished

fun acknowledged :: "writer_command \<Rightarrow> bool \<Rightarrow> driver_pc" where
  "acknowledged (CreateFiles s) ok = (if ok then Created s else CreateFailed)"
| "acknowledged ConfirmImages ok = (if ok then Saving else Finished)"
| "acknowledged CloseFiles ok = Closed ok"

text \<open>What the calls of the step return: \<open>zmq_recv\<close> on the socket of the images, \<open>zmq_setsockopt\<close>.\<close>

record thread_event =
  te_received :: "ImageMetadata option"
  te_setsockopt :: "string option"

text \<open>One \<open>zmq_recv\<close> of \<open>did_all_writers_acknowledge\<close>: a socket without a reply times out.\<close>

definition await_reply ::
  "writer_command \<Rightarrow> nat \<Rightarrow> nat \<Rightarrow> writer_driver \<Rightarrow> driver_pc \<times> writer_driver" where
  "await_reply c i n wd =
     (case wd_replies wd ! i of
        [] \<Rightarrow> (AwaitReply c (Suc i) n, wd)
      | a # as \<Rightarrow>
          (if is_empty_response a then AwaitReply c (Suc i) n
           else if wr_code a = FAILURE then acknowledged c False
           else AwaitReply c (Suc i) (Suc n),
           wd\<lparr>wd_replies := (wd_replies wd)[i := as]\<rparr>))"

fun driver_thread_step ::
  "thread_event \<Rightarrow> driver_pc \<Rightarrow> state_manager \<times> writer_driver \<Rightarrow>
   (driver_pc \<times> state_manager \<times> writer_driver) res" where
  "driver_thread_step ev (Starting s) (sm, wd) =
     Inr (SendCommand (CreateFiles s) 0, change_state ds_creating_file sm, wd)"
| "driver_thread_step ev (SendCommand c i) (sm, wd) =
     (if i < length (wd_sent wd) then Inr (SendCommand c (Suc i), sm, send_to_writer i (command_for wd c i) wd)
      else Inr (AwaitReply c 0 0, sm, wd))"
| "driver_thread_step ev (AwaitReply c i n) (sm, wd) =
     (if i < length (wd_replies wd) then case await_reply c i n wd of (pc, wd') \<Rightarrow> Inr (pc, sm, wd')
      else Inr (acknowledged c (n = length (wd_replies wd)), sm, wd))"
| "driver_thread_step ev (Created s) (sm, wd) =
     Inr (Subscribing (rs_n_images s), change_state ds_waiting_for_first_image sm, wd)"
| "driver_thread_step ev CreateFailed (sm, wd) = Inr (Finished, change_state ds_error sm, wd)"
| "driver_thread_step ev (Subscribing n) (sm, wd) =
     bindE (subscribe (te_setsockopt ev)) (\<lambda>_. Inr (Testing n 0, sm, wd))"
| "driver_thread_step ev (Testing n i) (sm, wd) =
     Inr (if goes_on n i sm then Receiving n i else Unsubscribing, sm, wd)"
| "driver_thread_step ev (Receiving n i) (sm, wd) =
     Inr (case te_received ev of None \<Rightarrow> Testing n i | Some meta \<Rightarrow> FirstImage n i meta, sm, wd)"
| "driver_thread_step ev (FirstImage n i meta) (sm, wd) =
     Inr (SendMeta n i meta, if i = 0 then change_state ds_recording sm else sm, wd)"
| "driver_thread_step ev (SendMeta n i meta) (sm, wd) =
     Inr (SendImage n i meta, sm,
          if wd_with_metadata_writer wd then send_to_writer 0 (RecordImage meta) wd else wd)"
| "driver_thread_step ev (SendImage n i meta) (sm, wd) =
     bindE (get_current_writer_index wd i) (\<lambda>w. Inr (Counting n i, sm, send_to_writer w (RecordImage meta) wd))"
| "driver_thread_step ev (Counting n i) (sm, wd) = Inr (Testing n (i + 1), update_image_count (i + 1) sm, wd)"
| "driver_thread_step ev Unsubscribing (sm, wd) =
     bindE (unsubscribe (te_setsockopt ev)) (\<lambda>_. Inr (SendCommand ConfirmImages 0, sm, wd))"
| "driver_thread_step ev Saving (sm, wd) = Inr (SendCommand CloseFiles 0, change_state ds_saving_file sm, wd)"
| "driver_thread_step ev (Closed ok) (sm, wd) =
     Inr (Finished, change_state (if ok then ds_file_saved else ds_error) sm, wd)"
| "driver_thread_step ev Finished (sm, wd) = Inr (Finished, sm, wd)"

section \<open>Sessions\<close>

datatype ws_response = Status string "string option" | StatusCount string u32

text \<open>The event loop has one thread. Its handler of a request reads the state to decide, and then changes it
  or starts a recording: it is idle, before the test of \<open>stop_recording\<close>, before its change, or before
  \<open>start_recording\<close>. A monitor waits for the state, reports what it has read, or is about to reset the state.\<close>

datatype handler_pc = HandlerIdle | StopTest | StopStore | StartRequested string

datatype monitor_pc = MonitorWait | MonitorReport driver_state | MonitorReset

text \<open>\<open>sys_sessions\<close>: for each session its monitor thread, or \<open>None\<close> when it is not joinable: before the
  handshake, and after it was joined.\<close>

record driver_sys =
  sys_sm :: state_manager
  sys_wd :: writer_driver
  sys_threads :: "driver_pc list"
  sys_handler :: handler_pc
  sys_sessions :: "monitor_pc option list"

fun stop_recording :: "handler_pc \<Rightarrow> state_manager \<Rightarrow> handler_pc \<times> state_manager" where
  "stop_recording StopTest sm = (if is_recording sm then StopStore else HandlerIdle, sm)"
| "stop_recording StopStore sm = (HandlerIdle, change_state ds_stop sm)"
| "stop_recording pc sm = (pc, sm)"

definition start_recording ::
  "'j json_api \<Rightarrow> (string \<Rightarrow> 'j res) \<Rightarrow> string \<Rightarrow> driver_sys \<Rightarrow> (ws_response option \<times> driver_sys) res" where
  "start_recording api parse msg s =
     bindE (case parse_command parse msg of None \<Rightarrow> Inr None | Some c \<Rightarrow> process_start_request api c) (\<lambda>settings.
     case settings of
       Some r \<Rightarrow> Inr (None, s\<lparr>sys_threads := sys_threads s @ [Starting r], sys_handler := HandlerIdle\<rparr>)
     | None \<Rightarrow> Inr (Some (Status ''error''
         (Some (''Invalid command! expected: start with path parameter, received: '' @ msg))),
         s\<lparr>sys_handler := HandlerIdle\<rparr>))"

text \<open>The handler of a request up to its decision. An exception of the JSON library leaves the event loop
  and ends the process.\<close>

definition process_request ::
  "'j json_api \<Rightarrow> (string \<Rightarrow> 'j res) \<Rightarrow> string \<Rightarrow> state_manager \<Rightarrow> (ws_response option \<times> handler_pc) res" where
  "process_request api parse msg sm =
     (case parse_command parse msg of
        None \<Rightarrow> Inr (Some (Status ''error'' (Some (''Invalid command! '' @ msg))), HandlerIdle)
      | Some command \<Rightarrow>
          bindE (jc_value_string api command ''command'' []) (\<lambda>command_string.
          if command_string = ''stop'' then Inr (None, StopTest)
          else if sm_state sm = ds_idle then Inr (None, StartRequested msg)
          else Inr (Some (Status ''rejected'' (Some ''driver is busy!'')), HandlerIdle)))"

text \<open>The thread that reports the state to the client: it reads the state, sends the response, and resets
  the state after the end of a recording.\<close>

fun monitor_writer_state ::
  "monitor_pc \<Rightarrow> state_manager \<Rightarrow> ws_response option \<times> monitor_pc \<times> state_manager" where
  "monitor_writer_state MonitorWait sm = (None, MonitorReport (sm_state sm), sm)"
| "monitor_writer_state (MonitorReport state) sm =
     (if state = ds_file_saved \<or> state = ds_error
      then (Some (Status (state_to_string state) None), MonitorReset, sm)
      else if state = ds_recording \<or> state = ds_saving_file
      then (Some (StatusCount (state_to_string state) (sm_images_processed sm)), MonitorWait, sm)
      else (Some (Status (state_to_string state) None), MonitorWait, sm))"
| "monitor_writer_state MonitorReset sm = (None, MonitorWait, change_state ds_idle sm)"

text \<open>The monitor is stopped and joined; \<open>join\<close> throws for a thread that is not joinable.\<close>

definition join_monitor :: "monitor_pc option \<Rightarrow> monitor_pc option res" where
  "join_monitor m = (case m of None \<Rightarrow> Inl (RuntimeError ''Invalid argument'') | Some _ \<Rightarrow> Inr None)"

text \<open>The handlers of the handshake, of the end of a connection and of a response after which the session is
  closed.\<close>

definition accept_and_process :: "bool \<Rightarrow> monitor_pc option \<Rightarrow> monitor_pc option res" where
  "accept_and_process ec m = (if ec then join_monitor m else Inr (Some MonitorWait))"

definition close_socket_handler :: "monitor_pc option \<Rightarrow> monitor_pc option res" where
  "close_socket_handler m = join_monitor m"

text \<open>The threads of the process interleave: the event loop handles a request or takes its next step, a
  monitor or a recording thread takes a step, a writer replies, a client connects, completes its
  handshake or goes away. A monitor is joined when it waits.\<close>

inductive driver_step :: "'j json_api \<Rightarrow> (string \<Rightarrow> 'j res) \<Rightarrow> driver_sys \<Rightarrow> driver_sys \<Rightarrow> bool"
  for api parse where
  request: "sys_handler s = HandlerIdle \<Longrightarrow> process_request api parse msg (sys_sm s) = Inr (resp, pc) \<Longrightarrow>
    driver_step api parse s (s\<lparr>sys_handler := pc\<rparr>)"
| stop: "stop_recording (sys_handler s) (sys_sm s) = (pc, sm) \<Longrightarrow>
    driver_step api parse s (s\<lparr>sys_sm := sm, sys_handler := pc\<rparr>)"
| start: "sys_handler s = StartRequested msg \<Longrightarrow> start_recording api parse msg s = Inr (resp, s') \<Longrightarrow>
    driver_step api parse s s'"
| monitor: "k < length (sys_sessions s) \<Longrightarrow> sys_sessions s ! k = Some m \<Longrightarrow>
    monitor_writer_state m (sys_sm s) = (resp, m', sm) \<Longrightarrow>
    driver_step api parse s (s\<lparr>sys_sm := sm, sys_sessions := (sys_sessions s)[k := Some m']\<rparr>)"
| thread: "k < length (sys_threads s) \<Longrightarrow>
    driver_thread_step ev (sys_threads s ! k) (sys_sm s, sys_wd s) = Inr (pc, sm, wd) \<Longrightarrow>
    driver_step api parse s (s\<lparr>sys_sm := sm, sys_wd := wd, sys_threads := (sys_threads s)[k := pc]\<rparr>)"
| reply: "w < length (wd_replies (sys_wd s)) \<Longrightarrow>
    driver_step api parse s (s\<lparr>sys_wd := (sys_wd s)\<lparr>wd_replies := (wd_replies (sys_wd s))
      [w := wd_replies (sys_wd s) ! w @ [r]]\<rparr>\<rparr>)"
| connect: "driver_step api parse s
    (s\<lparr>sys_sm := add_active_session (sys_sm s), sys_sessions := sys_sessions s @ [None]\<rparr>)"
| accept: "sys_handler s = HandlerIdle \<Longrightarrow> k < length (sys_sessions s) \<Longrightarrow> sys_sessions s ! k = None \<Longrightarrow>
    accept_and_process ec None = Inr m \<Longrightarrow>
    driver_step api parse s (s\<lparr>sys_sessions := (sys_sessions s)[k := m]\<rparr>)"
| close: "sys_handler s = HandlerIdle \<Longrightarrow> k < length (sys_sessions s) \<Longrightarrow> sys_sessions s ! k \<in> {None, Some MonitorWait} \<Longrightarrow>
    close_socket_handler (sys_sessions s ! k) = Inr m \<Longrightarrow>
    driver_step api parse s (s\<lparr>sys_sessions := (sys_sessions s)[k := m]\<rparr>)"
| disconnect: "sys_handler s = HandlerIdle \<Longrightarrow> k < length (sys_sessions s) \<Longrightarrow> sys_sessions s ! k \<in> {None, Some MonitorWait} \<Longrightarrow>
    join_monitor (sys_sessions s ! k) = Inr m \<Longrightarrow>
    driver_step api parse s (s\<lparr>sys_sm := remove_active_session (sys_sm s),
      sys_sessions := take k (sys_sessions s) @ drop (Suc k) (sys_sessions s)\<rparr>)"

inductive_simps driver_step_iff: "driver_step api parse s s'"

section \<open>Replies\<close>

text \<open>The good case: every writer has a reply that is not a failure; one is taken from each.\<close>

lemma collect_replies_success:
  assumes "\<forall>q \<in> set qs. q \<noteq> [] \<and> wr_code (hd q) = SUCCESS"
  shows "collect_replies qs n = (Some (n + length qs), map tl qs)"
  using assms
proof (induction qs arbitrary: n)
  case Nil
  then show ?case by simp
next
  case (Cons q qs)
  then obtain a as where "q = a # as" "wr_code a = SUCCESS" by (cases q) auto
  then show ?case using Cons by (simp add: is_empty_response_def)
qed

lemma acknowledge_success:
  "\<forall>q \<in> set (wd_replies wd). q \<noteq> [] \<and> wr_code (hd q) = SUCCESS \<Longrightarrow>
    did_all_writers_acknowledge wd = (True, wd\<lparr>wd_replies := map tl (wd_replies wd)\<rparr>)"
  by (simp add: did_all_writers_acknowledge_def collect_replies_success)

section \<open>The images of a recording\<close>

text \<open>What goes to writer \<open>w\<close> when \<open>k\<close> writers share the images in turn.\<close>

definition share :: "nat \<Rightarrow> nat \<Rightarrow> 'a list \<Rightarrow> 'a list" where
  "share k w xs = map ((!) xs) (filter (\<lambda>i. i mod k = w) [0..<length xs])"

lemma share_snoc: "share k w (xs @ [x]) = share k w xs @ (if length xs mod k = w then [x] else [])"
  by (auto simp: share_def nth_append)

lemma send_to_writer_simps [simp]:
  "length (wd_sent (send_to_writer i a wd)) = length (wd_sent wd)"
  "wd_replies (send_to_writer i a wd) = wd_replies wd"
  "wd_with_metadata_writer (send_to_writer i a wd) = wd_with_metadata_writer wd"
  "j < length (wd_sent wd) \<Longrightarrow> wd_sent (send_to_writer i a wd) ! j = wd_sent wd ! j @ (if j = i then [a] else [])"
  by (auto simp: send_to_writer_def nth_list_update)

text \<open>What was sent to writer \<open>j\<close> after the images \<open>ms\<close>: the metadata writer has them all, the others
  share them.\<close>

definition recorded :: "bool \<Rightarrow> nat \<Rightarrow> ImageMetadata list \<Rightarrow> nat \<Rightarrow> WriterAction list" where
  "recorded meta k ms j =
     map RecordImage (if meta then if j = 0 then ms else share k (j - 1) ms else share k j ms)"

lemma recorded_Nil [simp]: "recorded meta k [] j = []"
  by (simp add: recorded_def share_def)

lemma record_turn_sends:
  assumes "length (wd_sent wd) = (if wd_with_metadata_writer wd then Suc k else k)" and "0 < k"
    and "unat i = length ms" and "\<forall>j < length (wd_sent wd). wd_sent wd ! j = base j @ recorded (wd_with_metadata_writer wd) k ms j"
  shows "\<exists>wd'. record_turn (Some m) (i, sm, wd) =
      Inr (i + 1, update_image_count (i + 1) (if i = 0 then change_state ds_recording sm else sm), wd') \<and>
    wd_with_metadata_writer wd' = wd_with_metadata_writer wd \<and> wd_replies wd' = wd_replies wd \<and>
    length (wd_sent wd') = length (wd_sent wd) \<and>
    (\<forall>j < length (wd_sent wd). wd_sent wd' ! j = base j @ recorded (wd_with_metadata_writer wd) k (ms @ [m]) j)"
proof (cases "wd_with_metadata_writer wd")
  case True
  have "get_current_writer_index (send_to_writer 0 (RecordImage m) wd) i = Inr (Suc (length ms mod k))"
    using assms True by (simp add: get_current_writer_index_def)
  then show ?thesis
    using assms True by (auto simp: record_turn_def Let_def recorded_def share_snoc)
next
  case False
  have "get_current_writer_index wd i = Inr (length ms mod k)"
    using assms False by (simp add: get_current_writer_index_def)
  then show ?thesis
    using assms False by (auto simp: record_turn_def Let_def recorded_def share_snoc)
qed

lemma record_loop_all:
  assumes "length (wd_sent wd) = (if wd_with_metadata_writer wd then Suc k else k)" and "0 < k"
    and "unat i = length ms" and "\<forall>j < length (wd_sent wd). wd_sent wd ! j = base j @ recorded (wd_with_metadata_writer wd) k ms j"
    and "unat n = length ms + length rest" and "unat n < 2 ^ 32" and "is_recording sm"
    and "ms \<noteq> [] \<longrightarrow> sm_state sm = ds_recording \<and> sm_images_processed sm = i"
  shows "\<exists>i' sm' wd'. record_loop n (map Some rest) (i, sm, wd) = Inr (True, i', sm', wd') \<and>
    (ms @ rest \<noteq> [] \<longrightarrow> sm_state sm' = ds_recording \<and> unat (sm_images_processed sm') = unat n) \<and>
    wd_with_metadata_writer wd' = wd_with_metadata_writer wd \<and> wd_replies wd' = wd_replies wd \<and>
    length (wd_sent wd') = length (wd_sent wd) \<and>
    (\<forall>j < length (wd_sent wd). wd_sent wd' ! j = base j @ recorded (wd_with_metadata_writer wd) k (ms @ rest) j)"
  using assms
proof (induction rest arbitrary: ms i sm wd)
  case Nil
  then have "\<not> goes_on n i sm" by (simp add: goes_on_def word_less_nat_alt unat_ucast_up)
  then show ?case using Nil by auto
next
  case (Cons r rest)
  have go: "goes_on n i sm" using Cons.prems by (simp add: goes_on_def word_less_nat_alt unat_ucast_up)
  define sm1 where "sm1 = update_image_count (i + 1) (if i = 0 then change_state ds_recording sm else sm)"
  obtain wd1 where wd1: "record_turn (Some r) (i, sm, wd) = Inr (i + 1, sm1, wd1)"
    "wd_with_metadata_writer wd1 = wd_with_metadata_writer wd" "wd_replies wd1 = wd_replies wd"
    "length (wd_sent wd1) = length (wd_sent wd)"
    "\<forall>j < length (wd_sent wd). wd_sent wd1 ! j = base j @ recorded (wd_with_metadata_writer wd) k (ms @ [r]) j"
    using record_turn_sends [OF Cons.prems(1-4), of r sm] unfolding sm1_def by blast
  have "unat (i + 1) = length (ms @ [r])"
    using Cons.prems(3,5,6) by (simp add: unat_word_ariths)
  moreover have "sm_state sm1 = ds_recording" "sm_images_processed sm1 = i + 1"
    using Cons.prems(3,8) by (auto simp: sm1_def update_image_count_def change_state_def unat_eq_zero)
  ultimately show ?case
    using Cons.IH [of wd1 "i + 1" "ms @ [r]" sm1] Cons.prems wd1 go by (simp add: is_recording_def)
qed

lemma file_path_cong:
  "wd_with_metadata_writer wd' = wd_with_metadata_writer wd \<Longrightarrow>
    generate_file_path_for_writer wd' p i = generate_file_path_for_writer wd p i"
  by (simp add: generate_file_path_for_writer_def)

lemma send_create_file_requests_sends:
  assumes "send_create_file_requests p w (sm, wd) = (sm', wd')"
  shows "sm' = change_state ds_creating_file sm \<and>
    wd_with_metadata_writer wd' = wd_with_metadata_writer wd \<and> wd_replies wd' = wd_replies wd \<and>
    length (wd_sent wd') = length (wd_sent wd) \<and>
    (\<forall>j < length (wd_sent wd). wd_sent wd' ! j = wd_sent wd ! j @
       [CreateFile \<lparr>cfc_path = generate_file_path_for_writer wd p j, cfc_writer_id = word_of_int w\<rparr>])"
proof -
  define f where "f = (\<lambda>i wd. send_to_writer i
      (CreateFile \<lparr>cfc_path = generate_file_path_for_writer wd p i, cfc_writer_id = word_of_int w\<rparr>) wd)"
  have "wd_with_metadata_writer (fold f [0..<n] wd) = wd_with_metadata_writer wd \<and>
      wd_replies (fold f [0..<n] wd) = wd_replies wd \<and> length (wd_sent (fold f [0..<n] wd)) = length (wd_sent wd) \<and>
      (\<forall>j < length (wd_sent wd). wd_sent (fold f [0..<n] wd) ! j = wd_sent wd ! j @ (if j < n
         then [CreateFile \<lparr>cfc_path = generate_file_path_for_writer wd p j, cfc_writer_id = word_of_int w\<rparr>] else []))"
    for n
  proof (induction n)
    case 0
    then show ?case by simp
  next
    case (Suc n)
    define x where "x = fold f [0..<n] wd"
    have "f n x = send_to_writer n
        (CreateFile \<lparr>cfc_path = generate_file_path_for_writer wd p n, cfc_writer_id = word_of_int w\<rparr>) x"
      using Suc [folded x_def] file_path_cong [of x wd p n] by (simp add: f_def)
    moreover have "fold f [0..<Suc n] wd = f n x" by (simp add: x_def)
    ultimately show ?case using Suc [folded x_def] by (auto simp: less_Suc_eq)
  qed
  from this [of "length (wd_sent wd)"] assms show ?thesis
    by (auto simp: send_create_file_requests_def f_def [symmetric])
qed

definition good_reply :: WriterResponse where
  "good_reply = \<lparr>wr_code = SUCCESS, wr_reason = []\<rparr>"

lemma send_command_simps [simp]:
  "wd_replies (send_command_to_all_writers a wd) = wd_replies wd"
  "length (wd_sent (send_command_to_all_writers a wd)) = length (wd_sent wd)"
  "j < length (wd_sent wd) \<Longrightarrow> wd_sent (send_command_to_all_writers a wd) ! j = wd_sent wd ! j @ [a]"
  by (simp_all add: send_command_to_all_writers_def)

text \<open>A recording without failures: the images go to the writers in turn, all of them to the metadata
  writer; every writer is told to create its file first and to confirm and close it at the end, and
  the driver ends in the state \<open>file_saved\<close> with the number of images.\<close>

lemma driver_records_round_robin:
  assumes "length (wd_sent wd) = (if wd_with_metadata_writer wd then Suc k else k)" and "0 < k"
    and "wd_replies wd = replicate (length (wd_sent wd)) [good_reply, good_reply, good_reply]"
    and "ms \<noteq> []" and "length ms = unat (rs_n_images s)" and "unat (rs_n_images s) < 2 ^ 32"
  shows "\<exists>sm' wd'. writer_driver_start s None None (map Some ms) (sm, wd) = Inr (Some (sm', wd')) \<and>
    sm_state sm' = ds_file_saved \<and> unat (sm_images_processed sm') = length ms \<and>
    (\<forall>j < length (wd_sent wd). wd_sent wd' ! j = wd_sent wd ! j @
       CreateFile \<lparr>cfc_path = generate_file_path_for_writer wd (rs_path s) j, cfc_writer_id = word_of_int (rs_writer s)\<rparr> #
       recorded (wd_with_metadata_writer wd) k ms j @ [ConfirmLastImage, CloseFile])"
proof -
  let ?N = "length (wd_sent wd)"
  define create where "create j = CreateFile \<lparr>cfc_path = generate_file_path_for_writer wd (rs_path s) j,
    cfc_writer_id = word_of_int (rs_writer s)\<rparr>" for j
  obtain sm1 wd1 where e: "send_create_file_requests (rs_path s) (rs_writer s) (sm, wd) = (sm1, wd1)"
    by (rule prod.exhaust)
  note 1 = send_create_file_requests_sends [OF e, folded create_def]
  define wd2 where "wd2 = wd1\<lparr>wd_replies := replicate ?N [good_reply, good_reply]\<rparr>"
  have ack1: "did_all_writers_acknowledge wd1 = (True, wd2)"
    using acknowledge_success [of wd1] 1 assms(3) by (auto simp: wd2_def good_reply_def)
  obtain i sm3 wd3 where 3: "record_loop (rs_n_images s) (map Some ms)
      (0, change_state ds_waiting_for_first_image sm1, wd2) = Inr (True, i, sm3, wd3)"
    "sm_state sm3 = ds_recording" "unat (sm_images_processed sm3) = length ms"
    "wd_replies wd3 = replicate ?N [good_reply, good_reply]" "length (wd_sent wd3) = ?N"
    "\<forall>j < ?N. wd_sent wd3 ! j = (wd_sent wd ! j @ [create j]) @ recorded (wd_with_metadata_writer wd) k ms j"
  proof -
    have wd2: "length (wd_sent wd2) = (if wd_with_metadata_writer wd2 then Suc k else k)"
      "\<forall>j < length (wd_sent wd2). wd_sent wd2 ! j = (wd_sent wd ! j @ [create j]) @ recorded (wd_with_metadata_writer wd2) k [] j"
      "wd_with_metadata_writer wd2 = wd_with_metadata_writer wd" "length (wd_sent wd2) = ?N"
      "wd_replies wd2 = replicate ?N [good_reply, good_reply]"
      using 1 assms(1) by (simp_all add: wd2_def)
    have "is_recording (change_state ds_waiting_for_first_image sm1)"
      by (simp add: is_recording_def change_state_def)
    then show thesis
      using record_loop_all [OF wd2(1) assms(2) _ wd2(2), of 0 "rs_n_images s" ms "change_state ds_waiting_for_first_image sm1"]
        that assms(4-6)
      unfolding wd2(3-5) by auto
  qed
  define wd4 where "wd4 = (send_command_to_all_writers ConfirmLastImage wd3)\<lparr>wd_replies := replicate ?N [good_reply]\<rparr>"
  have ack2: "did_all_writers_record_data wd3 = (True, wd4)"
    using acknowledge_success [of "send_command_to_all_writers ConfirmLastImage wd3"] 3(4)
    by (auto simp: did_all_writers_record_data_def wd4_def good_reply_def)
  have ack3: "did_all_writers_acknowledge (send_command_to_all_writers CloseFile wd4) =
      (True, (send_command_to_all_writers CloseFile wd4)\<lparr>wd_replies := replicate ?N []\<rparr>)"
    using acknowledge_success [of "send_command_to_all_writers CloseFile wd4"]
    by (auto simp: wd4_def good_reply_def)
  show ?thesis
    using e ack1 3 ack2 ack3
    by (auto simp: writer_driver_start_def record_images_def subscribe_def unsubscribe_def
      send_save_file_requests_def change_state_def wd4_def create_def)
qed

definition image_meta :: "u64 \<Rightarrow> ImageMetadata" where
  "image_meta i = default_ImageMetadata\<lparr>im_image_id := i\<rparr>"

section \<open>The thread ends\<close>

text \<open>The distance of the thread from its end, with \<open>N\<close> writers: every step decreases it, except that a
  turn of the loop of \<open>record_images\<close> starts.\<close>

fun command_rank :: "nat \<Rightarrow> writer_command \<Rightarrow> nat" where
  "command_rank N CloseFiles = 2"
| "command_rank N ConfirmImages = 5 + 2 * N"
| "command_rank N (CreateFiles s) = 11 + 4 * N"

fun pc_rank :: "nat \<Rightarrow> driver_pc \<Rightarrow> nat" where
  "pc_rank N (Starting s) = 13 + 6 * N"
| "pc_rank N (SendCommand c i) = command_rank N c + 1 + N + (N - i)"
| "pc_rank N (AwaitReply c i n) = command_rank N c + (N - i)"
| "pc_rank N (Created s) = 10 + 4 * N"
| "pc_rank N CreateFailed = 1"
| "pc_rank N (Subscribing n) = 9 + 4 * N"
| "pc_rank N (Testing n i) = 8 + 4 * N"
| "pc_rank N (Receiving n i) = 13 + 4 * N"
| "pc_rank N (FirstImage n i m) = 12 + 4 * N"
| "pc_rank N (SendMeta n i m) = 11 + 4 * N"
| "pc_rank N (SendImage n i m) = 10 + 4 * N"
| "pc_rank N (Counting n i) = 9 + 4 * N"
| "pc_rank N Unsubscribing = 7 + 4 * N"
| "pc_rank N Saving = 4 + 2 * N"
| "pc_rank N (Closed ok) = 1"
| "pc_rank N Finished = 0"

text \<open>A turn of the loop starts: images are missing and the driver is recording.\<close>

fun starts_turn :: "driver_pc \<Rightarrow> state_manager \<Rightarrow> bool" where
  "starts_turn (Testing n i) sm = goes_on n i sm"
| "starts_turn _ sm = False"

lemma acknowledged_rank: "pc_rank N (acknowledged c ok) < command_rank N c"
  by (cases c) auto

lemma pc_rank_step:
  assumes "driver_thread_step ev pc (sm, wd) = Inr (pc', st')"
    and "length (wd_sent wd) = N" "length (wd_replies wd) = N"
  shows "pc = Finished \<and> pc' = Finished \<or> pc_rank N pc' < pc_rank N pc + (if starts_turn pc sm then 6 else 0)"
proof (cases pc)
  case (AwaitReply c i n)
  have "pc_rank N (acknowledged c False) < command_rank N c" "pc_rank N (acknowledged c (n = N)) < command_rank N c"
    by (rule acknowledged_rank)+
  then show ?thesis
    using assms AwaitReply by (auto simp: await_reply_def split: if_splits list.splits prod.splits)
next
  case (SendCommand c i)
  then show ?thesis using assms by (auto split: if_splits)
qed (use assms in \<open>auto simp: bindE_eq_Inr split: if_splits option.splits\<close>)

text \<open>The steps of one thread, with what its calls return and the shared state before each step: the
  other threads, the writers and the clients may change it in between in any way.\<close>

type_synonym thread_steps = "(thread_event \<times> state_manager \<times> writer_driver) list"

fun thread_run :: "driver_pc \<Rightarrow> thread_steps \<Rightarrow> driver_pc res" where
  "thread_run pc [] = Inr pc"
| "thread_run pc ((ev, sm, wd) # xs) = bindE (driver_thread_step ev pc (sm, wd)) (\<lambda>(pc', _). thread_run pc' xs)"

text \<open>The number of turns of the loop that these steps start.\<close>

fun turns :: "driver_pc \<Rightarrow> thread_steps \<Rightarrow> nat" where
  "turns pc [] = 0"
| "turns pc ((ev, sm, wd) # xs) =
     (case driver_thread_step ev pc (sm, wd) of
        Inl _ \<Rightarrow> 0
      | Inr (pc', _) \<Rightarrow> (if starts_turn pc sm then 1 else 0) + turns pc' xs)"

definition same_sockets :: "nat \<Rightarrow> bool \<Rightarrow> thread_steps \<Rightarrow> bool" where
  "same_sockets N meta xs \<longleftrightarrow>
     list_all (\<lambda>(_, _, wd). length (wd_sent wd) = N \<and> length (wd_replies wd) = N \<and> wd_with_metadata_writer wd = meta) xs"

lemma thread_run_Finished: "thread_run Finished xs = Inr Finished"
  by (induction xs) auto

lemma thread_run_rank:
  assumes "same_sockets N meta xs" and "thread_run pc xs = Inr pc'"
  shows "pc' = Finished \<or> pc_rank N pc' + length xs \<le> pc_rank N pc + 6 * turns pc xs"
  using assms
proof (induction pc xs rule: thread_run.induct)
  case (1 pc)
  then show ?case by simp
next
  case (2 pc ev sm wd xs)
  then obtain pc1 st1 where 1: "driver_thread_step ev pc (sm, wd) = Inr (pc1, st1)" "thread_run pc1 xs = Inr pc'"
    by (auto simp: bindE_eq_Inr)
  have "same_sockets N meta xs" and N: "length (wd_sent wd) = N" "length (wd_replies wd) = N"
    using 2(2) by (simp_all add: same_sockets_def)
  then have IH: "pc' = Finished \<or> pc_rank N pc' + length xs \<le> pc_rank N pc1 + 6 * turns pc1 xs"
    using 2(1) 1 by blast
  show ?case using pc_rank_step [OF 1(1) N] IH 1 thread_run_Finished [of xs] by auto
qed

lemma driver_thread_step_error:
  assumes "driver_thread_step ev pc (sm, wd) = Inl e"
  shows "e = Undefined ''division by zero'' \<and> length (wd_sent wd) \<le> (if wd_with_metadata_writer wd then 1 else 0) \<or>
    (\<exists>reason. te_setsockopt ev = Some reason \<and> e = RuntimeError reason)"
  using assms
  by (cases pc) (auto simp: bindE_eq_Inl get_current_writer_index_def subscribe_def unsubscribe_def Let_def
    split: prod.splits if_splits option.splits)

lemma thread_run_error:
  assumes "same_sockets N meta xs" and "thread_run pc xs = Inl e"
  shows "e = Undefined ''division by zero'' \<and> N \<le> (if meta then 1 else 0) \<or>
    (\<exists>(ev, _) \<in> set xs. \<exists>reason. te_setsockopt ev = Some reason \<and> e = RuntimeError reason)"
  using assms
proof (induction pc xs rule: thread_run.induct)
  case (2 pc ev sm wd xs)
  show ?case
  proof (cases "driver_thread_step ev pc (sm, wd)")
    case (Inl e')
    then show ?thesis using driver_thread_step_error [OF Inl] 2(2,3) by (auto simp: same_sockets_def)
  next
    case (Inr x)
    then show ?thesis using 2 by (cases x) (auto simp: same_sockets_def)
  qed
qed simp

text \<open>C31. Any number of steps of a recording thread with \<open>N\<close> writers, whatever the writers reply, the
  calls return and the other threads do to the shared state in between: unless the thread is at
  its end, there are at most \<open>6 N + 13\<close> steps and six more for every turn of the receiving loop, and a turn is
  started only while images are missing and the driver is recording. The thread fails only when there is
  no image writer to send an image to, or when subscribing or unsubscribing fails.\<close>

theorem driver_thread_terminates:
  assumes "same_sockets N meta xs"
  shows "case thread_run (Starting s) xs of
      Inr pc \<Rightarrow> pc = Finished \<or> length xs \<le> 6 * N + 13 + 6 * turns (Starting s) xs
    | Inl e \<Rightarrow> e = Undefined ''division by zero'' \<and> N \<le> (if meta then 1 else 0) \<or>
        (\<exists>(ev, _) \<in> set xs. \<exists>reason. te_setsockopt ev = Some reason \<and> e = RuntimeError reason)"
  using thread_run_rank [OF assms, of "Starting s"] thread_run_error [OF assms, of "Starting s"]
  by (fastforce split: sum.split)

text \<open>After a stop a thread with one writer that does not reply is at its end within 20 steps.\<close>

definition silent_stop :: thread_steps where
  "silent_stop = replicate 20 (\<lparr>te_received = None, te_setsockopt = None\<rparr>,
     \<lparr>sm_state = ds_stop, sm_images_processed = 0, sm_active_sessions = 1\<rparr>,
     \<lparr>wd_with_metadata_writer = False, wd_sent = [[]], wd_replies = [[]]\<rparr>)"

definition some_run :: run_settings where
  "some_run = \<lparr>rs_path = ''/data/run'', rs_n_images = 2, rs_writer = 0, rs_start_image_id = 0\<rparr>"

lemma no_turns: "list_all (\<lambda>(_, sm, _). \<not> is_recording sm) xs \<Longrightarrow> turns pc xs = 0"
proof (induction pc xs rule: turns.induct)
  case (2 pc ev sm wd xs)
  then have "\<not> starts_turn pc sm" by (cases pc) (auto simp: goes_on_def)
  with 2 show ?case by (auto split: sum.splits)
qed simp

theorem driver_thread_terminates_witness: "thread_run (Starting some_run) silent_stop = Inr Finished"
proof -
  have "same_sockets 1 False silent_stop" "length silent_stop = 20"
    by (simp_all add: silent_stop_def same_sockets_def list_all_iff)
  moreover have "turns (Starting some_run) silent_stop = 0"
    by (rule no_turns) (simp add: silent_stop_def list_all_iff is_recording_def)
  moreover have "\<forall>(ev, _) \<in> set silent_stop. te_setsockopt ev = None" by (simp add: silent_stop_def)
  ultimately show ?thesis using driver_thread_terminates [of 1 False silent_stop some_run]
    by (cases "thread_run (Starting some_run) silent_stop") auto
qed

section \<open>The thread run alone\<close>

text \<open>The machine run alone from one configuration to another, with the results of the calls of
  \<open>zmq_recv\<close> that it makes on the way.\<close>

inductive thread_alone ::
  "string option \<Rightarrow> string option \<Rightarrow> ImageMetadata option list \<Rightarrow> driver_pc \<times> state_manager \<times> writer_driver \<Rightarrow>
   driver_pc \<times> state_manager \<times> writer_driver \<Rightarrow> bool"
  for sub unsub where
  here: "thread_alone sub unsub [] c c"
| quiet: "(\<And>n i. pc \<noteq> Receiving n i) \<Longrightarrow>
    driver_thread_step \<lparr>te_received = None, te_setsockopt = (if pc = Unsubscribing then unsub else sub)\<rparr> pc st = Inr c \<Longrightarrow>
    thread_alone sub unsub evs c c' \<Longrightarrow> thread_alone sub unsub evs (pc, st) c'"
| receive: "driver_thread_step \<lparr>te_received = ev, te_setsockopt = None\<rparr> (Receiving n i) st = Inr c \<Longrightarrow>
    thread_alone sub unsub evs c c' \<Longrightarrow> thread_alone sub unsub (ev # evs) (Receiving n i, st) c'"

lemma thread_alone_append:
  "thread_alone sub unsub evs c c' \<Longrightarrow> thread_alone sub unsub evs' c' c'' \<Longrightarrow> thread_alone sub unsub (evs @ evs') c c''"
  by (induction rule: thread_alone.induct) (auto intro: thread_alone.intros)

lemmas thread_alone_then = thread_alone_append [where evs = "[]", unfolded append_Nil]

text \<open>The loops over the sockets.\<close>

lemma thread_alone_sends:
  assumes "N = length (wd_sent wd)" and "i \<le> N"
  shows "thread_alone sub unsub [] (SendCommand c i, sm, wd)
    (AwaitReply c 0 0, sm, fold (\<lambda>i wd. send_to_writer i (command_for wd c i) wd) [i..<N] wd)"
  using assms
proof (induction "N - i" arbitrary: i wd)
  case 0
  then show ?case by (intro quiet) (auto intro: here)
next
  case (Suc d)
  then have "i < N" by simp
  define wd' where "wd' = send_to_writer i (command_for wd c i) wd"
  have "[i..<N] = i # [Suc i..<N]" using \<open>i < N\<close> by (rule upt_conv_Cons)
  moreover have "thread_alone sub unsub [] (SendCommand c (Suc i), sm, wd')
      (AwaitReply c 0 0, sm, fold (\<lambda>i wd. send_to_writer i (command_for wd c i) wd) [Suc i..<N] wd')"
    using Suc \<open>i < N\<close> by (intro Suc.hyps(1)) (auto simp: wd'_def)
  ultimately show ?case using Suc \<open>i < N\<close> by (intro quiet) (auto simp: wd'_def)
qed

lemma thread_alone_replies:
  assumes "collect_replies (drop i (wd_replies wd)) n = (r, qs)" and "i \<le> length (wd_replies wd)"
  shows "thread_alone sub unsub [] (AwaitReply c i n, sm, wd)
    (acknowledged c (r = Some (length (wd_replies wd))), sm, wd\<lparr>wd_replies := take i (wd_replies wd) @ qs\<rparr>)"
  using assms
proof (induction "length (wd_replies wd) - i" arbitrary: i n wd r qs)
  case 0
  then show ?case by (intro quiet) (auto intro: here)
next
  case (Suc d)
  then have i: "i < length (wd_replies wd)" by simp
  then have drop: "drop i (wd_replies wd) = wd_replies wd ! i # drop (Suc i) (wd_replies wd)" by (simp add: Cons_nth_drop_Suc)
  show ?case
  proof (cases "wd_replies wd ! i")
    case Nil
    then obtain qs' where qs': "collect_replies (drop (Suc i) (wd_replies wd)) n = (r, qs')" "qs = [] # qs'"
      using Suc.prems(1) drop by (auto split: prod.splits)
    have "take (Suc i) (wd_replies wd) = take i (wd_replies wd) @ [[]]" using i Nil by (simp add: take_Suc_conv_app_nth)
    moreover have "d = length (wd_replies wd) - Suc i" using Suc.hyps(2) by simp
    ultimately show ?thesis
      using Suc.hyps(1) [OF _ qs'(1)] i Nil qs'(2) by (intro quiet) (auto simp: await_reply_def)
  next
    case (Cons a as)
    define wd' where "wd' = wd\<lparr>wd_replies := (wd_replies wd)[i := as]\<rparr>"
    define n' where "n' = (if is_empty_response a then n else Suc n)"
    have step: "driver_thread_step ev (AwaitReply c i n) (sm, wd) =
        Inr (if \<not> is_empty_response a \<and> wr_code a = FAILURE then acknowledged c False else AwaitReply c (Suc i) n', sm, wd')" for ev
      using i Cons by (simp add: await_reply_def wd'_def n'_def)
    have rep: "take i (wd_replies wd) @ as # xs = take (Suc i) (wd_replies wd') @ xs" for xs
      using i by (simp add: wd'_def take_Suc_conv_app_nth)
    show ?thesis
    proof (cases "\<not> is_empty_response a \<and> wr_code a = FAILURE")
      case True
      then have "r = None" "qs = as # drop (Suc i) (wd_replies wd)" using Suc.prems(1) drop Cons by auto
      moreover have "wd' = wd\<lparr>wd_replies := take i (wd_replies wd) @ as # drop (Suc i) (wd_replies wd)\<rparr>"
        using i by (simp add: wd'_def upd_conv_take_nth_drop)
      ultimately show ?thesis using True step by (intro quiet) (auto intro: here)
    next
      case False
      then obtain qs' where qs': "collect_replies (drop (Suc i) (wd_replies wd')) n' = (r, qs')" "qs = as # qs'"
        using Suc.prems(1) drop Cons by (auto simp: wd'_def n'_def split: prod.splits if_splits)
      have "d = length (wd_replies wd') - Suc i" "Suc i \<le> length (wd_replies wd')"
        "length (wd_replies wd') = length (wd_replies wd)" using Suc.hyps(2) i by (simp_all add: wd'_def)
      from Suc.hyps(1) [OF this(1) qs'(1) this(2), folded rep] this(3)
      show ?thesis using False step qs'(2) by (intro quiet) (auto simp: wd'_def)
    qed
  qed
qed

lemma thread_alone_acknowledge:
  assumes "did_all_writers_acknowledge wd = (ok, wd')"
  shows "thread_alone sub unsub [] (AwaitReply c 0 0, sm, wd) (acknowledged c ok, sm, wd')"
proof -
  obtain r qs where "collect_replies (wd_replies wd) 0 = (r, qs)" by (rule prod.exhaust)
  then show ?thesis
    using assms thread_alone_replies [of 0 wd 0 r qs] by (simp add: did_all_writers_acknowledge_def)
qed

lemma fold_send_same:
  assumes "n \<le> length (wd_sent wd)"
  shows "fold (\<lambda>i. send_to_writer i a) [0..<n] wd =
    wd\<lparr>wd_sent := map (\<lambda>q. q @ [a]) (take n (wd_sent wd)) @ drop n (wd_sent wd)\<rparr>"
  using assms
proof (induction n)
  case (Suc n)
  then show ?case
    by (auto simp: send_to_writer_def nth_append list_update_append take_Suc_conv_app_nth Cons_nth_drop_Suc [symmetric])
qed simp

lemma thread_alone_command:
  assumes "c \<in> {ConfirmImages, CloseFiles}"
    and "did_all_writers_acknowledge (send_command_to_all_writers (command_for wd c 0) wd) = (ok, wd')"
  shows "thread_alone sub unsub [] (SendCommand c 0, sm, wd) (acknowledged c ok, sm, wd')"
proof -
  let ?a = "command_for wd c 0"
  have "(\<lambda>i wd. send_to_writer i (command_for wd c i) wd) = (\<lambda>i. send_to_writer i ?a)" using assms(1) by auto
  then have "fold (\<lambda>i wd. send_to_writer i (command_for wd c i) wd) [0..<length (wd_sent wd)] wd =
      send_command_to_all_writers ?a wd"
    using fold_send_same [of "length (wd_sent wd)" wd ?a] by (simp add: send_command_to_all_writers_def)
  then have "thread_alone sub unsub [] (SendCommand c 0, sm, wd) (AwaitReply c 0 0, sm, send_command_to_all_writers ?a wd)"
    using thread_alone_sends [OF refl, of 0 wd sub unsub c sm] by simp
  then show ?thesis using thread_alone_then thread_alone_acknowledge [OF assms(2)] by blast
qed

text \<open>The loop of \<open>record_images\<close>.\<close>

lemma thread_alone_turn:
  assumes "goes_on n i sm" and "record_turn r (i, sm, wd) = Inr (i', st')"
  shows "thread_alone sub unsub [r] (Testing n i, sm, wd) (Testing n i', st')"
proof (cases r)
  case None
  then show ?thesis using assms by (auto simp: record_turn_def intro!: quiet receive here)
next
  case (Some meta)
  then show ?thesis using assms
    by (auto simp: record_turn_def bindE_eq_Inr Let_def intro!: quiet receive here)
qed

lemma thread_alone_loop:
  "record_loop n rs (i, sm, wd) = Inr (True, i', st') \<Longrightarrow>
    \<exists>used rest. rs = used @ rest \<and> thread_alone sub unsub used (Testing n i, sm, wd) (Unsubscribing, st')"
proof (induction rs arbitrary: i sm wd)
  case Nil
  then show ?case by (auto intro!: exI [of _ "[]"] quiet here)
next
  case (Cons r rs)
  show ?case
  proof (cases "goes_on n i sm")
    case True
    then obtain i1 sm1 wd1 where 1: "record_turn r (i, sm, wd) = Inr (i1, sm1, wd1)"
      "record_loop n rs (i1, sm1, wd1) = Inr (True, i', st')"
      using Cons.prems by (auto simp: bindE_eq_Inr)
    then obtain used rest where "rs = used @ rest"
      "thread_alone sub unsub used (Testing n i1, sm1, wd1) (Unsubscribing, st')" using Cons.IH by blast
    with thread_alone_append [OF thread_alone_turn [OF True 1(1)]]
    show ?thesis by (intro exI [of _ "r # used"] exI [of _ rest]) auto
  next
    case False
    then show ?thesis using Cons.prems by (intro exI [of _ "[]"] exI [of _ "r # rs"]) (auto intro!: quiet here)
  qed
qed

text \<open>From the confirmation of the images on.\<close>

lemma thread_alone_confirm:
  assumes "did_all_writers_record_data wd = (ok, wd')" and "st' = (if ok then send_save_file_requests (sm, wd') else (sm, wd'))"
  shows "thread_alone sub unsub [] (SendCommand ConfirmImages 0, sm, wd) (Finished, st')"
proof -
  have 1: "thread_alone sub unsub [] (SendCommand ConfirmImages 0, sm, wd) (acknowledged ConfirmImages ok, sm, wd')"
    using assms(1) by (intro thread_alone_command) (auto simp: did_all_writers_record_data_def)
  show ?thesis
  proof (cases ok)
    case True
    obtain ok2 wd2 where 2: "did_all_writers_acknowledge (send_command_to_all_writers CloseFile wd') = (ok2, wd2)"
      by (rule prod.exhaust)
    have "thread_alone sub unsub [] (SendCommand CloseFiles 0, change_state ds_saving_file sm, wd')
        (acknowledged CloseFiles ok2, change_state ds_saving_file sm, wd2)"
      using 2 by (intro thread_alone_command) auto
    moreover have "thread_alone sub unsub [] (acknowledged CloseFiles ok2, change_state ds_saving_file sm, wd2) (Finished, st')"
      using True 2 assms(2) by (auto simp: send_save_file_requests_def intro!: quiet here)
    ultimately have "thread_alone sub unsub [] (SendCommand CloseFiles 0, change_state ds_saving_file sm, wd') (Finished, st')"
      by (rule thread_alone_then)
    then have "thread_alone sub unsub [] (Saving, sm, wd') (Finished, st')" by (auto intro: quiet)
    with 1 True show ?thesis using thread_alone_then by simp
  next
    case False
    with 1 assms(2) show ?thesis by simp
  qed
qed

text \<open>The sequence of operations in \<open>writer_driver::start\<close> is what the machine does when it runs alone.\<close>

lemma writer_driver_start_alone:
  assumes "writer_driver_start s sub unsub rs (sm, wd) = Inr (Some st')"
  shows "\<exists>used rest. rs = used @ rest \<and> thread_alone sub unsub used (Starting s, sm, wd) (Finished, st')"
proof -
  obtain sm1 wd1 where 1: "send_create_file_requests (rs_path s) (rs_writer s) (sm, wd) = (sm1, wd1)"
    by (rule prod.exhaust)
  obtain ok wd2 where 2: "did_all_writers_acknowledge wd1 = (ok, wd2)" by (rule prod.exhaust)
  have "thread_alone sub unsub [] (SendCommand (CreateFiles s) 0, sm1, wd) (AwaitReply (CreateFiles s) 0 0, sm1, wd1)"
    using 1 thread_alone_sends [OF refl, of 0 wd sub unsub "CreateFiles s" sm1] by (simp add: send_create_file_requests_def)
  then have "thread_alone sub unsub [] (SendCommand (CreateFiles s) 0, sm1, wd) (acknowledged (CreateFiles s) ok, sm1, wd2)"
    using thread_alone_then thread_alone_acknowledge [OF 2] by blast
  then have created: "thread_alone sub unsub [] (Starting s, sm, wd) (acknowledged (CreateFiles s) ok, sm1, wd2)"
    using 1 by (intro quiet) (auto simp: send_create_file_requests_def)
  show ?thesis
  proof (cases ok)
    case True
    define sm2 where "sm2 = change_state ds_waiting_for_first_image sm1"
    obtain i sm3 wd3 ok4 wd4 where 3: "subscribe sub = Inr ()" "record_loop (rs_n_images s) rs (0, sm2, wd2) = Inr (True, i, sm3, wd3)"
      "unsubscribe unsub = Inr ()" "did_all_writers_record_data wd3 = (ok4, wd4)"
      "st' = (if ok4 then send_save_file_requests (sm3, wd4) else (sm3, wd4))"
      using assms 1 2 True
      by (auto simp: writer_driver_start_def record_images_def bindE_eq_Inr sm2_def split: prod.splits if_splits option.splits)
    obtain used rest where 4: "rs = used @ rest"
      "thread_alone sub unsub used (Testing (rs_n_images s) 0, sm2, wd2) (Unsubscribing, sm3, wd3)"
      using thread_alone_loop [OF 3(2)] by blast
    have "thread_alone sub unsub [] (Unsubscribing, sm3, wd3) (Finished, st')"
      using 3(3) thread_alone_confirm [OF 3(4,5)] by (auto intro: quiet)
    then have "thread_alone sub unsub used (Testing (rs_n_images s) 0, sm2, wd2) (Finished, st')"
      using thread_alone_append [OF 4(2)] by fastforce
    then have "thread_alone sub unsub used (Created s, sm1, wd2) (Finished, st')"
      using 3(1) by (auto simp: sm2_def intro!: quiet)
    then have "thread_alone sub unsub used (Starting s, sm, wd) (Finished, st')"
      using thread_alone_then [OF created] True by simp
    with 4(1) show ?thesis by blast
  next
    case False
    then have "st' = (change_state ds_error sm1, wd2)" using assms 1 2 by (simp add: writer_driver_start_def)
    then have "thread_alone sub unsub [] (CreateFailed, sm1, wd2) (Finished, st')" by (auto intro: quiet here)
    then show ?thesis using thread_alone_then [OF created] False by (intro exI [of _ "[]"] exI [of _ rs]) simp
  qed
qed

section \<open>A recording that is not confirmed\<close>

text \<open>No recording thread is running and no request is about to start one, but the driver is still in a
  state of a recording, and no monitor is about to reset it.\<close>

definition pending_reset :: "monitor_pc option \<Rightarrow> bool" where
  "pending_reset m \<longleftrightarrow> m \<in> {Some (MonitorReport ds_file_saved), Some (MonitorReport ds_error), Some MonitorReset}"

definition stuck :: "nat \<Rightarrow> driver_sys \<Rightarrow> bool" where
  "stuck n s \<longleftrightarrow> length (sys_threads s) = n \<and> (\<forall>pc \<in> set (sys_threads s). pc = Finished) \<and> (\<forall>msg. sys_handler s \<noteq> StartRequested msg) \<and>
     (\<forall>m \<in> set (sys_sessions s). \<not> pending_reset m) \<and>
     sm_state (sys_sm s) \<in> {ds_waiting_for_first_image, ds_recording, ds_stop}"

lemma stuck_session_update:
  "stuck n s \<Longrightarrow> \<not> pending_reset m \<Longrightarrow> stuck n (s\<lparr>sys_sessions := (sys_sessions s)[k := m]\<rparr>)"
  by (auto simp: stuck_def dest: subsetD [OF set_update_subset_insert])

lemma stuck_step:
  assumes "stuck n s" and "driver_step api parse s t"
  shows "stuck n t"
  using assms(2)
proof cases
  case (request msg resp pc)
  then show ?thesis
    using assms(1) by (auto simp: stuck_def process_request_def bindE_eq_Inr split: option.splits if_splits)
next
  case (stop pc sm)
  then show ?thesis
    using assms(1) by (cases "sys_handler s") (auto simp: stuck_def change_state_def split: if_splits)
next
  case (start msg resp)
  then show ?thesis using assms(1) by (simp add: stuck_def)
next
  case (monitor k m resp m' sm)
  then have "\<not> pending_reset (Some m)" using assms(1) by (metis nth_mem stuck_def)
  then have "sm = sys_sm s" "\<not> pending_reset (Some m')"
    using monitor(4) assms(1) by (cases m; auto simp: stuck_def pending_reset_def split: if_splits)+
  then show ?thesis using monitor(1) stuck_session_update [OF assms(1)] by simp
next
  case (thread k ev pc sm wd)
  then have "sys_threads s ! k = Finished" using assms(1) by (simp add: stuck_def)
  with thread assms(1) show ?thesis by (auto simp: stuck_def dest!: subsetD [OF set_update_subset_insert])
next
  case (accept k ec m)
  then have "\<not> pending_reset m"
    by (auto simp: accept_and_process_def join_monitor_def pending_reset_def split: if_splits)
  then show ?thesis using accept stuck_session_update [OF assms(1)] by simp
next
  case (close k m)
  then have "\<not> pending_reset m"
    by (auto simp: close_socket_handler_def join_monitor_def pending_reset_def split: option.splits)
  then show ?thesis using close stuck_session_update [OF assms(1)] by simp
next
  case (disconnect k m)
  then show ?thesis
    using assms(1) by (auto simp: stuck_def remove_active_session_def dest: in_set_takeD in_set_dropD)
qed (use assms(1) in \<open>auto simp: stuck_def pending_reset_def add_active_session_def\<close>)

interpretation stuck: transition_system "stuck n" "driver_step api parse" "stuck n" for n api parse
  by unfold_locales (auto intro: stuck_step)

text \<open>C32. The last receive of a recording thread that waits for the writers to confirm the last image makes it
  finish, because a writer has failed or not replied. All other recording threads are at their end, no
  request is about to start one, the state is that of a recording or stopped, and no monitor has read
  an earlier end of a recording without having reset the state yet. Then the driver is stuck: whatever requests, sessions
  and writers do afterwards, it never becomes idle and no recording is started.\<close>

theorem driver_stuck_without_confirmation:
  assumes thread: "k < length (sys_threads s)" "sys_threads s ! k = AwaitReply ConfirmImages i n"
      "driver_thread_step ev (AwaitReply ConfirmImages i n) (sys_sm s, sys_wd s) = Inr (Finished, sm, wd)"
    and others: "\<forall>j < length (sys_threads s). j \<noteq> k \<longrightarrow> sys_threads s ! j = Finished"
    and handler: "\<forall>msg. sys_handler s \<noteq> StartRequested msg"
    and monitors: "\<forall>m \<in> set (sys_sessions s). \<not> pending_reset m"
    and state: "sm_state (sys_sm s) \<in> {ds_waiting_for_first_image, ds_recording, ds_stop}"
    and s': "s' = s\<lparr>sys_sm := sm, sys_wd := wd, sys_threads := (sys_threads s)[k := Finished]\<rparr>"
    and t: "(driver_step api parse)\<^sup>*\<^sup>* s' t"
  shows "driver_step api parse s s' \<and> sm_state (sys_sm t) \<noteq> ds_idle \<and>
    length (sys_threads t) = length (sys_threads s) \<and> (\<forall>pc \<in> set (sys_threads t). pc = Finished)"
proof -
  have step: "driver_step api parse s s'" unfolding s' using thread by (intro driver_step.thread) auto
  have "sm = sys_sm s" using thread(3) by (auto split: if_splits prod.splits)
  moreover have "pc = Finished" if "pc \<in> set ((sys_threads s)[k := Finished])" for pc
    using that others thread(1) by (auto simp: in_set_conv_nth nth_list_update split: if_splits)
  ultimately have "stuck (length (sys_threads s)) s'" using handler monitors state by (simp add: stuck_def s')
  then have "stuck (length (sys_threads s)) t" by (rule stuck.inv_reachable [OF _ t])
  with step show ?thesis by (auto simp: stuck_def)
qed

definition lost_confirmation :: driver_sys where
  "lost_confirmation = \<lparr>sys_sm = \<lparr>sm_state = ds_recording, sm_images_processed = 3, sm_active_sessions = 1\<rparr>,
     sys_wd = \<lparr>wd_with_metadata_writer = False, wd_sent = [[ConfirmLastImage]], wd_replies = [[]]\<rparr>,
     sys_threads = [Finished, AwaitReply ConfirmImages 1 0], sys_handler = HandlerIdle,
     sys_sessions = [Some (MonitorReport ds_recording), Some MonitorWait]\<rparr>"

definition no_event :: thread_event where
  "no_event = \<lparr>te_received = None, te_setsockopt = None\<rparr>"

text \<open>A JSON library whose only document is \<open>{"command":"start","path":"/data"}\<close>.\<close>

definition start_json :: "unit json_api" where
  "start_json = \<lparr>jc_contains = (\<lambda>_ k. k \<in> {''command'', ''path''}), jc_at = (\<lambda>_ _. Inr ()), jc_items = (\<lambda>_. []),
     jc_size = (\<lambda>_. 0), jc_elem = (\<lambda>_ _. Inl (JsonError [])), jc_get_int = (\<lambda>_. Inl (JsonError [])),
     jc_get_u16 = (\<lambda>_. Inl (JsonError [])), jc_get_size_t = (\<lambda>_. Inl (JsonError [])),
     jc_get_string = (\<lambda>_. Inr ''/data''), jc_value_int = (\<lambda>_ _ d. Inr d), jc_value_u32 = (\<lambda>_ _ d. Inr d),
     jc_value_u64 = (\<lambda>_ _ d. Inr d), jc_value_bool = (\<lambda>_ _ d. Inr d),
     jc_value_string = (\<lambda>_ k d. Inr (if k = ''command'' then ''start'' else d))\<rparr>"

theorem driver_stuck_without_confirmation_witness:
  "driver_step start_json (\<lambda>_. Inr ()) lost_confirmation (lost_confirmation\<lparr>sys_threads := [Finished, Finished]\<rparr>) \<and>
   sm_state (sys_sm (lost_confirmation\<lparr>sys_threads := [Finished, Finished]\<rparr>)) \<noteq> ds_idle"
proof -
  have thread: "1 < length (sys_threads lost_confirmation)" "sys_threads lost_confirmation ! 1 = AwaitReply ConfirmImages 1 0"
    "driver_thread_step no_event (AwaitReply ConfirmImages 1 0) (sys_sm lost_confirmation, sys_wd lost_confirmation) =
      Inr (Finished, sys_sm lost_confirmation, sys_wd lost_confirmation)"
    by (simp_all add: lost_confirmation_def)
  have others: "\<forall>j < length (sys_threads lost_confirmation). j \<noteq> 1 \<longrightarrow> sys_threads lost_confirmation ! j = Finished"
    "\<forall>msg. sys_handler lost_confirmation \<noteq> StartRequested msg"
    "\<forall>m \<in> set (sys_sessions lost_confirmation). \<not> pending_reset m"
    "sm_state (sys_sm lost_confirmation) \<in> {ds_waiting_for_first_image, ds_recording, ds_stop}"
    "lost_confirmation\<lparr>sys_threads := [Finished, Finished]\<rparr> = lost_confirmation\<lparr>sys_sm := sys_sm lost_confirmation,
      sys_wd := sys_wd lost_confirmation, sys_threads := (sys_threads lost_confirmation)[1 := Finished]\<rparr>"
    by (auto simp: lost_confirmation_def pending_reset_def less_Suc_eq)
  from driver_stuck_without_confirmation [OF thread others rtranclp.rtrancl_refl] show ?thesis by blast
qed

text \<open>A monitor that has read the end of an earlier recording resets the state later, also in the middle of the next
  recording, which then ends its loop.\<close>

lemma late_reset:
  "monitor_writer_state MonitorReset sm = (None, MonitorWait, change_state ds_idle sm)"
  "\<not> goes_on n i (change_state ds_idle sm)"
  by (simp_all add: goes_on_def is_recording_def change_state_def)

text \<open>A stop request that has found the driver recording changes the state later, also after the end of the
  recording: the driver stays in the state \<open>stop\<close>, in which no request is accepted.\<close>

lemma late_stop:
  assumes "sys_handler s = StopStore" and "\<forall>pc \<in> set (sys_threads s). pc = Finished"
    and "\<forall>m \<in> set (sys_sessions s). \<not> pending_reset m"
  shows "\<exists>t. driver_step api parse s t \<and> stuck (length (sys_threads s)) t"
  using assms by (intro exI [of _ "s\<lparr>sys_sm := change_state ds_stop (sys_sm s), sys_handler := HandlerIdle\<rparr>"] conjI
    driver_step.stop) (auto simp: stuck_def change_state_def)

text \<open>A handshake that fails, and a connection that ends after its session was closed by the driver, join a thread
  that is not joinable; the exception ends the process.\<close>

lemma join_not_joinable:
  "accept_and_process True None = Inl (RuntimeError ''Invalid argument'')"
  "bindE (close_socket_handler (Some m)) join_monitor = Inl (RuntimeError ''Invalid argument'')"
  by (simp_all add: accept_and_process_def close_socket_handler_def join_monitor_def)

text \<open>A start request only creates the thread; the state changes when the thread runs. A second start
  request that is handled before that is accepted as well, and two recordings drive the same writers.\<close>

lemma driver_double_start:
  assumes "parse msg = Inr c" and "jc_value_string api c ''command'' [] = Inr ''start''"
    and "process_start_request api c = Inr (Some r)" and "sm_state (sys_sm s) = ds_idle" and "sys_handler s = HandlerIdle"
  shows "\<exists>t. (driver_step api parse)\<^sup>*\<^sup>* s t \<and> sys_threads t = sys_threads s @ [Starting r, Starting r]"
proof -
  have start: "(driver_step api parse)\<^sup>*\<^sup>* u (u\<lparr>sys_threads := sys_threads u @ [Starting r], sys_handler := HandlerIdle\<rparr>)"
    if "sys_handler u = HandlerIdle" "sm_state (sys_sm u) = ds_idle" for u
  proof -
    have "driver_step api parse u (u\<lparr>sys_handler := StartRequested msg\<rparr>)"
      using that assms(1,2) by (intro driver_step.request [of u api parse msg None]) (auto simp: process_request_def parse_command_def)
    moreover have "driver_step api parse (u\<lparr>sys_handler := StartRequested msg\<rparr>)
        (u\<lparr>sys_threads := sys_threads u @ [Starting r], sys_handler := HandlerIdle\<rparr>)"
      using assms(1,3) by (intro driver_step.start [of _ msg _ _ None]) (auto simp: start_recording_def parse_command_def)
    ultimately show ?thesis by (metis converse_rtranclp_into_rtranclp r_into_rtranclp)
  qed
  define s1 where "s1 = s\<lparr>sys_threads := sys_threads s @ [Starting r], sys_handler := HandlerIdle\<rparr>"
  have "(driver_step api parse)\<^sup>*\<^sup>* s s1" using start [of s] assms(4,5) by (simp add: s1_def)
  moreover have "(driver_step api parse)\<^sup>*\<^sup>* s1 (s1\<lparr>sys_threads := sys_threads s1 @ [Starting r], sys_handler := HandlerIdle\<rparr>)"
    using start [of s1] assms(4) by (simp add: s1_def)
  ultimately show ?thesis by (intro exI conjI) (erule (1) rtranclp_trans, simp add: s1_def)
qed

text \<open>After a failure the replies of the remaining writers stay in their queues, and are taken for the
  acknowledgement of the next command.\<close>

lemma stale_replies:
  "collect_replies [[\<lparr>wr_code = FAILURE, wr_reason = []\<rparr>, good_reply], [good_reply]] 0 = (None, [[good_reply], [good_reply]])"
  by (simp add: is_empty_response_def)

end
