(* ===== verification/ImageSize.thy ===== *)
theory ImageSize
  imports DetectorConfig
begin

text \<open>
  \<open>utils/image_size_calc\<close>: the size of a converted image, the number of slots of the RAM
  buffers, and the partition of an image among the stream senders.
  Products of \<open>int\<close> values are computed in \<open>int\<close> (overflow is undefined) and then converted to
  \<open>size_t\<close>; products with a \<open>size_t\<close> wrap modulo \<open>2 ^ 64\<close>.
\<close>

definition u64_div :: "u64 \<Rightarrow> u64 \<Rightarrow> u64 res" where
  "u64_div a b = (if b = 0 then Inl (Undefined ''division by zero'') else Inr (a div b))"

definition unsupported_detector :: cpp_error where
  "unsupported_detector = RuntimeError ''Unsupported detector_type!''"

definition converted_image_n_bytes :: "DetectorConfig \<Rightarrow> u64 res" where
  "converted_image_n_bytes config =
     (if detector_type config = ''gigafrost''
      then bindE (int_mul (image_pixel_height config) (image_pixel_width config)) (\<lambda>p.
           bindE (int_mul p 2) (\<lambda>b. Inr (word_of_int b)))
      else if detector_type config \<in> {''eiger'', ''pco'', ''jungfrau-raw''}
      then bindE (int_mul (image_pixel_width config) (image_pixel_height config)) (\<lambda>p.
           bindE (int_mul p (bit_depth config)) (\<lambda>b. Inr (word_of_int (int_quot b 8))))
      else if detector_type config = ''jungfrau-converted''
      then bindE (int_mul (image_pixel_width config) (image_pixel_height config)) (\<lambda>p.
           Inr (word_of_int p * 4))
      else Inl unsupported_detector)"

definition max_converted_image_byte_size :: "DetectorConfig \<Rightarrow> u64 res" where
  "max_converted_image_byte_size config =
     (if detector_type config = ''gigafrost'' then Inr (2016 * 2016 * 2)
      else if detector_type config = ''eiger'' then Inr (3106 * 3264 * 4)
      else if detector_type config = ''jungfrau-raw'' then Inr (1024 * 512 * 32 * 2)
      else if detector_type config = ''jungfrau-converted'' then Inr (1024 * 512 * 32 * 4)
      else Inl unsupported_detector)"

definition MIN_RAM_BUFFER_N_SLOTS :: u64 where "MIN_RAM_BUFFER_N_SLOTS = 1000"

definition slots_number :: "DetectorConfig \<Rightarrow> u64 res" where
  "slots_number config =
     bindE (converted_image_n_bytes config) (\<lambda>n.
     bindE (u64_div (ram_buffer_gb config * 1024 * 1024 * 1024) n) (\<lambda>slots.
     Inr (max slots MIN_RAM_BUFFER_N_SLOTS)))"

definition forwarders :: "DetectorConfig \<Rightarrow> u64" where
  "forwarders config = word_of_int (max_number_of_forwarders_spawned config)"

definition calculate_image_offset :: "DetectorConfig \<Rightarrow> u64 \<Rightarrow> u64 res" where
  "calculate_image_offset config image_part =
     (if sender_sends_full_images config then Inr 0
      else if use_all_forwarders config
      then bindE (converted_image_n_bytes config) (\<lambda>n.
           u64_div (image_part * n) (forwarders config))
      else bindE (max_converted_image_byte_size config) (\<lambda>n.
           u64_div (image_part * n) (forwarders config)))"

definition max_single_sender_size :: "DetectorConfig \<Rightarrow> u64 res" where
  "max_single_sender_size config =
     (if sender_sends_full_images config then converted_image_n_bytes config
      else if use_all_forwarders config
      then bindE (converted_image_n_bytes config) (\<lambda>n. u64_div n (forwarders config))
      else bindE (max_converted_image_byte_size config) (\<lambda>n. u64_div n (forwarders config)))"

definition calculate_image_bytes_sent :: "DetectorConfig \<Rightarrow> u64 \<Rightarrow> u64 res" where
  "calculate_image_bytes_sent config image_part =
     bindE (converted_image_n_bytes config) (\<lambda>converted_bytes.
     bindE (calculate_image_offset config image_part) (\<lambda>start_index.
     bindE (max_single_sender_size config) (\<lambda>limit.
     Inr (min (converted_bytes - start_index) limit))))"

definition number_of_senders :: "DetectorConfig \<Rightarrow> u64 res" where
  "number_of_senders config =
     (if sender_sends_full_images config then Inr 1
      else if use_all_forwarders config then Inr (forwarders config)
      else bindE (converted_image_n_bytes config) (\<lambda>n.
           bindE (max_single_sender_size config) (\<lambda>s.
           u64_div (n + s - 1) s)))"

text \<open>
  What a stream sender or receiver started for part \<open>image_part\<close> handles: nothing when the
  offset lies behind the image (the process exits), otherwise an offset and a byte count.
\<close>

definition stream_part :: "DetectorConfig \<Rightarrow> int \<Rightarrow> (u64 \<times> u64) option res" where
  "stream_part config image_part =
     bindE (converted_image_n_bytes config) (\<lambda>converted_bytes.
     bindE (calculate_image_offset config (word_of_int image_part)) (\<lambda>start_index.
     if converted_bytes \<le> start_index then Inr None
     else bindE (calculate_image_bytes_sent config (word_of_int image_part)) (\<lambda>data_bytes_sent.
          Inr (Some (start_index, data_bytes_sent)))))"

section \<open>The parts of an image\<close>

text \<open>The size that is divided among the forwarders.\<close>

definition divided_size :: "DetectorConfig \<Rightarrow> u64 res" where
  "divided_size config =
     (if use_all_forwarders config then converted_image_n_bytes config
      else max_converted_image_byte_size config)"

lemma forwarders_unat:
  assumes "0 < max_number_of_forwarders_spawned config"
    and "max_number_of_forwarders_spawned config \<le> int_max"
  shows "unat (forwarders config) = nat (max_number_of_forwarders_spawned config)"
    and "forwarders config \<noteq> 0"
proof -
  have u: "uint (forwarders config) = max_number_of_forwarders_spawned config"
    using assms by (simp add: forwarders_def uint_word_of_int int_max_def)
  then show "unat (forwarders config) = nat (max_number_of_forwarders_spawned config)"
    by (simp add: unat_eq_nat_uint)
  then show "forwarders config \<noteq> 0" using assms(1) by auto
qed

lemma image_part_unat: "p < 2 ^ 31 \<Longrightarrow> unat (word_of_int (int p) :: u64) = p"
  by (simp add: unat_of_nat)

text \<open>In a divided mode, part \<open>p\<close> starts at the rounded \<open>p\<close>-th fraction of the divided size.\<close>

lemma divided_part:
  assumes nf: "\<not> sender_sends_full_images config"
    and c: "converted_image_n_bytes config = Inr c"
    and t: "divided_size config = Inr t"
    and N: "N = nat (max_number_of_forwarders_spawned config)" "0 < N"
      "max_number_of_forwarders_spawned config \<le> int_max"
    and fits: "N * unat t < 2 ^ 64"
    and p: "p < N"
  shows "\<exists>off lim. calculate_image_offset config (word_of_int (int p)) = Inr off \<and>
    unat off = p * unat t div N \<and>
    max_single_sender_size config = Inr lim \<and> unat lim = unat t div N"
proof -
  have pos: "0 < max_number_of_forwarders_spawned config" using N by simp
  note f = forwarders_unat [OF pos N(3)]
  have "int p < max_number_of_forwarders_spawned config" using p N by linarith
  then have "p < 2 ^ 31" using N(3) by (simp add: int_max_def)
  then have pu: "unat (word_of_int (int p) :: u64) = p" by (rule image_part_unat)
  have "p * unat t \<le> N * unat t" using p by (intro mult_le_mono1) simp
  then have "p * unat t < 2 ^ 64" using fits by (rule le_less_trans)
  then have mul: "unat (word_of_int (int p) * t) = p * unat t"
    using unat_mult_no_wrap [of "word_of_int (int p)" t] unfolding pu by blast
  have off: "unat (word_of_int (int p) * t div forwarders config) = p * unat t div N"
    by (simp only: unat_div mul f(1) N(1)[symmetric])
  have lim: "unat (t div forwarders config) = unat t div N"
    by (simp only: unat_div f(1) N(1)[symmetric])
  show ?thesis using nf c t f(2) off lim
    by (auto simp: calculate_image_offset_def max_single_sender_size_def divided_size_def u64_div_def
        split: if_splits)
qed

lemma stream_part_divided:
  assumes nf: "\<not> sender_sends_full_images config"
    and c: "converted_image_n_bytes config = Inr c"
    and t: "divided_size config = Inr t"
    and N: "N = nat (max_number_of_forwarders_spawned config)" "0 < N"
      "max_number_of_forwarders_spawned config \<le> int_max"
    and fits: "N * unat t < 2 ^ 64"
    and p: "p < N"
  shows "\<exists>off len. stream_part config (int p) =
      Inr (if p * unat t div N < unat c then Some (off, len) else None) \<and>
      unat off = p * unat t div N \<and>
      (p * unat t div N < unat c \<longrightarrow>
        unat len = min (unat c - p * unat t div N) (unat t div N))"
proof -
  obtain off lim where o: "calculate_image_offset config (word_of_int (int p)) = Inr off"
      "unat off = p * unat t div N"
    and l: "max_single_sender_size config = Inr lim" "unat lim = unat t div N"
    using divided_part [OF assms] by blast
  define len where "len = min (c - off) lim"
  have "unat len = min (unat c - unat off) (unat lim)" if "unat off < unat c"
  proof -
    have "off \<le> c" using that by (simp add: word_le_nat_alt)
    then have "unat (c - off) = unat c - unat off" by (rule unat_sub)
    then show ?thesis by (auto simp: len_def min_def word_le_nat_alt)
  qed
  moreover have "stream_part config (int p) = Inr (if unat off < unat c then Some (off, len) else None)"
    using c o l by (auto simp: stream_part_def calculate_image_bytes_sent_def len_def word_le_nat_alt)
  ultimately show ?thesis using o(2) l(2) by (intro exI [of _ off] exI [of _ len]) auto
qed

text \<open>Part \<open>p\<close> sends byte \<open>i\<close> of the image.\<close>

definition sends_byte :: "DetectorConfig \<Rightarrow> nat \<Rightarrow> nat \<Rightarrow> bool" where
  "sends_byte config p i =
     (case stream_part config (int p) of
        Inr (Some (off, len)) \<Rightarrow> unat off \<le> i \<and> i < unat off + unat len
      | _ \<Rightarrow> False)"

lemma sends_byte_divided:
  assumes nf: "\<not> sender_sends_full_images config"
    and c: "converted_image_n_bytes config = Inr c"
    and t: "divided_size config = Inr t"
    and N: "N = nat (max_number_of_forwarders_spawned config)" "0 < N"
      "max_number_of_forwarders_spawned config \<le> int_max"
    and fits: "N * unat t < 2 ^ 64"
    and p: "p < N" and i: "i < unat c"
  shows "sends_byte config p i \<longleftrightarrow> p * unat t div N \<le> i \<and> i < p * unat t div N + unat t div N"
  using stream_part_divided [OF nf c t N fits p] i by (auto simp: sends_byte_def split: if_splits)

text \<open>
  The bytes between two parts: the parts start at \<open>p * t div N\<close> and all have \<open>t div N\<close> bytes, so a
  part may end before the next one starts.
\<close>

definition between_parts :: "nat \<Rightarrow> nat \<Rightarrow> nat \<Rightarrow> bool" where
  "between_parts N t i = (\<exists>p < N. p * t div N + t div N \<le> i \<and> i < Suc p * t div N)"

lemma part_end_le: "p < q \<Longrightarrow> p * t div N + t div N \<le> q * t div (N :: nat)"
proof -
  assume "p < q"
  then have "p * t + t \<le> q * t" by (metis Suc_leI add.commute mult_Suc mult_le_mono1)
  then have "(p * t + t) div N \<le> q * t div N" by (rule div_le_mono)
  moreover have "p * t div N + t div N \<le> (p * t + t) div N" by (simp add: div_add1_eq [of "p * t" t])
  ultimately show ?thesis by (rule order.trans [rotated])
qed

lemma parts_disjoint:
  fixes N :: nat
  assumes "p * t div N \<le> i" "i < p * t div N + t div N" and "q * t div N \<le> i" "i < q * t div N + t div N"
  shows "p = q"
  using part_end_le [of p q t N] part_end_le [of q p t N] assms by (cases p q rule: linorder_cases) auto

lemma step_contains: "f 0 \<le> i \<Longrightarrow> i < f N \<Longrightarrow> \<exists>p < N. f p \<le> i \<and> i < f (Suc p)" for f :: "nat \<Rightarrow> nat"
  by (induction N) (force simp: less_Suc_eq not_less)+

text \<open>A byte of the divided size lies in a part or between two parts.\<close>

lemma in_part_iff:
  assumes "0 < N"
  shows "(\<exists>p < N. p * t div N \<le> i \<and> i < p * t div N + t div N) \<longleftrightarrow> i < t \<and> \<not> between_parts N t i"
proof
  assume "\<exists>p < N. p * t div N \<le> i \<and> i < p * t div N + t div N"
  then obtain p where p: "p < N" "p * t div N \<le> i" "i < p * t div N + t div N" by blast
  have "i < t" using part_end_le [OF p(1), of t N] p(3) assms by simp
  moreover have "\<not> (q * t div N + t div N \<le> i \<and> i < Suc q * t div N)" for q
  proof (cases "q < p")
    case True
    then have "Suc q * t div N \<le> p * t div N" by (intro div_le_mono mult_le_mono1) simp
    then show ?thesis using p(2) by linarith
  next
    case False
    then have "p * t div N \<le> q * t div N" by (intro div_le_mono mult_le_mono1) simp
    then show ?thesis using p(3) by linarith
  qed
  ultimately show "i < t \<and> \<not> between_parts N t i" by (auto simp: between_parts_def)
next
  assume i: "i < t \<and> \<not> between_parts N t i"
  then have "\<exists>p < N. p * t div N \<le> i \<and> i < Suc p * t div N"
    using step_contains [of "\<lambda>p. p * t div N" i N] assms by simp
  then show "\<exists>p < N. p * t div N \<le> i \<and> i < p * t div N + t div N"
    using i by (auto simp: between_parts_def not_le)
qed

text \<open>The number of bytes between the parts is the remainder of the division.\<close>

lemma between_parts_card:
  assumes "0 < N"
  shows "card {i. i < t \<and> between_parts N t i} = t mod N"
proof -
  let ?part = "\<lambda>p. {p * t div N ..< p * t div N + t div N}" and ?gap = "{i. i < t \<and> between_parts N t i}"
  have "i \<in> (\<Union>p < N. ?part p) \<longleftrightarrow> i \<in> {..<t} - ?gap" for i using in_part_iff [OF assms, of t i] by auto
  then have eq: "(\<Union>p < N. ?part p) = {..<t} - ?gap" by blast
  have disj: "?part p \<inter> ?part q = {}" if "p \<noteq> q" for p q
    using part_end_le [of p q t N] part_end_le [of q p t N] that by (cases p q rule: linorder_cases) auto
  have "card (\<Union>p < N. ?part p) = (\<Sum>p < N. card (?part p))"
    by (intro card_UN_disjoint ballI impI disj) simp_all
  then have "card ({..<t} - ?gap) = N * (t div N)" unfolding eq by simp
  moreover have "?gap \<subseteq> {..<t}" by auto
  then have "card ({..<t} - ?gap) + card ?gap = t"
    using card_Int_Diff [of "{..<t}" ?gap] by (simp add: Int_absorb1)
  ultimately have "N * (t div N) + card ?gap = t" by simp
  then show ?thesis by (metis add_left_cancel mult_div_mod_eq)
qed

lemma no_byte_between_parts: "0 < N \<Longrightarrow> N dvd t \<Longrightarrow> i < t \<Longrightarrow> \<not> between_parts N t i"
  using between_parts_card [of N t] by (auto simp: card_eq_0_iff)


lemma less_ceil_div:
  fixes s c :: nat
  assumes "0 < s" and "0 < c"
  shows "p * s < c \<longleftrightarrow> p < (c + s - 1) div s"
proof -
  have "p < (c + s - 1) div s \<longleftrightarrow> Suc p * s \<le> c + s - 1"
    using assms(1) by (simp add: Suc_le_eq [symmetric] less_eq_div_iff_mult_less_eq)
  then show ?thesis using assms by auto
qed

lemma unat_ceil_div:
  assumes "unat c + unat lim < 2 ^ 64" and "0 < unat (c :: u64)"
  shows "unat ((c + lim - 1) div lim) = (unat c + unat lim - 1) div unat lim"
proof -
  have a: "unat (c + lim) = unat c + unat lim" using assms(1) by (rule unat_add_no_wrap)
  then have "c + lim \<noteq> 0" using assms(2) by (metis add_is_0 less_irrefl unat_0)
  then show ?thesis by (simp add: unat_div unat_minus_one a)
qed

text \<open>C26. A non-empty image is divided among \<open>N\<close> forwarders (not sent as a whole; no size exceeds 64 bits), and either all of them are used or the
  maximum size of the detector is divisible by \<open>N\<close> and not less than the image. Then the number of senders
  the stream synchronizer waits for is the number of forwarder processes that do not exit, i.e. that have
  a part of the image.\<close>

theorem number_of_senders_active:
  assumes nf: "\<not> sender_sends_full_images config"
    and c: "converted_image_n_bytes config = Inr c"
    and t: "divided_size config = Inr t"
    and N: "N = nat (max_number_of_forwarders_spawned config)" "0 < N"
      "max_number_of_forwarders_spawned config \<le> int_max"
    and fits: "N * unat t < 2 ^ 64"
    and use: "use_all_forwarders config \<or> N dvd unat t \<and> c \<le> t"
    and c0: "0 < c" and nowrap: "unat c + unat t < 2 ^ 64"
  shows "\<exists>k. number_of_senders config = Inr k \<and>
    {p. p < N \<and> (\<exists>part. stream_part config (int p) = Inr (Some part))} = {..<unat k}"
proof -
  let ?s = "unat t div N"
  have pos: "0 < max_number_of_forwarders_spawned config" using N by simp
  have cpos: "0 < unat c" using c0 by (simp add: word_less_nat_alt)
  have active: "{p. p < N \<and> (\<exists>part. stream_part config (int p) = Inr (Some part))} =
      {p. p < N \<and> p * unat t div N < unat c}"
  proof -
    have "(\<exists>part. stream_part config (int p) = Inr (Some part)) \<longleftrightarrow> p * unat t div N < unat c" if "p < N" for p
      using stream_part_divided [OF nf c t N fits that] by (auto split: if_splits)
    then show ?thesis by blast
  qed
  show ?thesis
  proof (cases "use_all_forwarders config")
    case True
    with t c have "t = c" by (simp add: divided_size_def)
    then have "p * unat t div N < unat c" if "p < N" for p
      using that cpos by (simp add: div_less_iff_less_mult mult.commute)
    then show ?thesis using True nf active forwarders_unat(1) [OF pos N(3)] N(1)
      by (auto simp: number_of_senders_def)
  next
    case False
    with use have dvd: "N dvd unat t" and ct: "unat c \<le> unat t" by (auto simp: word_le_nat_alt)
    have ts: "unat t = N * ?s" using dvd by simp
    have s: "0 < ?s" using ts ct cpos by (cases "?s = 0") auto
    obtain lim where lim: "max_single_sender_size config = Inr lim" "unat lim = ?s"
      using divided_part [OF nf c t N fits N(2)] by blast
    have "lim \<noteq> 0" using lim(2) s by auto
    then have num: "number_of_senders config = Inr ((c + lim - 1) div lim)"
      using nf False c lim(1) by (simp add: number_of_senders_def u64_div_def)
    have "?s \<le> unat t" by (rule div_le_dividend)
    then have "unat c + unat lim < 2 ^ 64" using nowrap lim(2) by linarith
    then have quot: "unat ((c + lim - 1) div lim) = (unat c + ?s - 1) div ?s"
      using unat_ceil_div [of c lim] cpos lim(2) by simp
    have "p * ?s < unat c \<Longrightarrow> p < N" for p using ct ts s
      by (metis mult_less_cancel2 order.strict_trans2)
    moreover have "p * unat t div N = p * ?s" for p using dvd by (simp add: div_mult_swap)
    ultimately have "p < N \<and> p * unat t div N < unat c \<longleftrightarrow> p < unat ((c + lim - 1) div lim)" for p
      using quot less_ceil_div [OF s cpos] by metis
    then have "{p. p < N \<and> p * unat t div N < unat c} = {..<unat ((c + lim - 1) div lim)}" by blast
    then show ?thesis using active num by simp
  qed
qed

lemma example_sizes:
  "converted_image_n_bytes example_config = Inr 8128512"
  "divided_size example_config = Inr 8128512"
  by (simp_all add: converted_image_n_bytes_def divided_size_def max_converted_image_byte_size_def
      example_config_def int_mul_def cpp_simps)

lemma example_modes:
  "\<not> sender_sends_full_images example_config"
  "max_number_of_forwarders_spawned example_config = 8"
  by (simp_all add: example_config_def)


theorem number_of_senders_active_witness:
  "\<exists>k. number_of_senders example_config = Inr k \<and>
    {p. p < 8 \<and> (\<exists>part. stream_part example_config (int p) = Inr (Some part))} = {..<unat k}"
  by (rule number_of_senders_active [where c = 8128512 and t = 8128512])
    (simp_all add: example_sizes example_modes int_max_def)

text \<open>
  Without the divisibility the tiling fails: an Eiger image of 514 x 514 pixels of one byte,
  divided among eight forwarders, loses byte 66048.
\<close>

definition eiger_514 :: DetectorConfig where
  "eiger_514 = example_config\<lparr>detector_type := ''eiger'', bit_depth := 8,
     image_pixel_height := 514, image_pixel_width := 514, use_all_forwarders := True\<rparr>"

lemma eiger_514_size: "converted_image_n_bytes eiger_514 = Inr 264196"
  by (simp add: converted_image_n_bytes_def eiger_514_def example_config_def int_mul_def
      int_quot_def cpp_simps)

lemma eiger_514_modes:
  "\<not> sender_sends_full_images eiger_514" "use_all_forwarders eiger_514"
  "forwarders eiger_514 = 8"
  by (simp_all add: eiger_514_def example_config_def forwarders_def)

lemma eiger_514_part:
  assumes "p < 8"
  shows "stream_part eiger_514 (int p) = Inr (Some (word_of_nat p * 264196 div 8, 33024))"
proof -
  consider "p = 0" | "p = 1" | "p = 2" | "p = 3" | "p = 4" | "p = 5" | "p = 6" | "p = 7"
    using assms by linarith
  then show ?thesis
    by cases (simp_all add: stream_part_def calculate_image_offset_def
        calculate_image_bytes_sent_def max_single_sender_size_def eiger_514_size eiger_514_modes
        u64_div_def)
qed

lemma image_parts_gap: "\<not> (\<exists>p < 8. sends_byte eiger_514 p 66048)"
proof
  assume "\<exists>p < 8. sends_byte eiger_514 p 66048"
  then obtain p where p: "p < 8" and s: "sends_byte eiger_514 p 66048" by blast
  consider "p = 0" | "p = 1" | "p = 2" | "p = 3" | "p = 4" | "p = 5" | "p = 6" | "p = 7"
    using p by linarith
  then show False
    using s unfolding sends_byte_def eiger_514_part [OF p] by cases simp_all
qed

end
