(* ===== verification/Ordered_Map.thy ===== *)
theory Ordered_Map
  imports Prelude
begin

text \<open>
  \<open>std::map\<close> (and \<open>std::set\<close>, with unit values) as an association list whose keys are
  strictly increasing: iteration is the list, \<open>begin()\<close> its head.
  The interface the synchronizers rely on is the locale \<open>ordered_map\<close>; it is interpreted
  here on the list implementation.
\<close>

section \<open>The implementation\<close>

type_synonym ('k, 'v) omap = "('k \<times> 'v) list"

abbreviation om_sorted :: "('k::linorder, 'v) omap \<Rightarrow> bool" where
  "om_sorted m \<equiv> sorted_wrt (<) (map fst m)"

definition om_find :: "('k, 'v) omap \<Rightarrow> 'k \<Rightarrow> 'v option" where
  "om_find m k = map_of m k"

text \<open>\<open>m[k] = v\<close>\<close>

definition om_assign :: "'k::linorder \<Rightarrow> 'v \<Rightarrow> ('k, 'v) omap \<Rightarrow> ('k, 'v) omap" where
  "om_assign k v m = filter (\<lambda>p. fst p < k) m @ (k, v) # filter (\<lambda>p. k < fst p) m"

text \<open>\<open>m.emplace(k, v)\<close> does nothing when the key is present.\<close>

definition om_emplace :: "'k::linorder \<Rightarrow> 'v \<Rightarrow> ('k, 'v) omap \<Rightarrow> ('k, 'v) omap" where
  "om_emplace k v m = (if om_find m k = None then om_assign k v m else m)"

text \<open>\<open>m.erase(k)\<close>\<close>

definition om_erase :: "'k \<Rightarrow> ('k, 'v) omap \<Rightarrow> ('k, 'v) omap" where
  "om_erase k m = filter (\<lambda>p. fst p \<noteq> k) m"

text \<open>\<open>m.erase(m.begin())\<close> on a map that is not empty.\<close>

definition om_erase_begin :: "('k, 'v) omap \<Rightarrow> ('k, 'v) omap" where
  "om_erase_begin m = tl m"

section \<open>The interface\<close>

locale ordered_map =
  fixes find :: "'m \<Rightarrow> 'k::linorder \<Rightarrow> 'v option"
    and assign :: "'k \<Rightarrow> 'v \<Rightarrow> 'm \<Rightarrow> 'm"
    and erase :: "'k \<Rightarrow> 'm \<Rightarrow> 'm"
    and erase_begin :: "'m \<Rightarrow> 'm"
    and entries :: "'m \<Rightarrow> ('k \<times> 'v) list"
    and invar :: "'m \<Rightarrow> bool"
  assumes entries_sorted: "invar m \<Longrightarrow> sorted_wrt (<) (map fst (entries m))"
    and find_entries: "invar m \<Longrightarrow> find m k = map_of (entries m) k"
    and find_assign: "invar m \<Longrightarrow> find (assign k v m) = (find m)(k \<mapsto> v)"
    and find_erase: "invar m \<Longrightarrow> find (erase k m) = (find m)(k := None)"
    and entries_erase_begin: "invar m \<Longrightarrow> entries (erase_begin m) = tl (entries m)"
    and invar_assign: "invar m \<Longrightarrow> invar (assign k v m)"
    and invar_erase: "invar m \<Longrightarrow> invar (erase k m)"
    and invar_erase_begin: "invar m \<Longrightarrow> invar (erase_begin m)"
begin

lemma distinct_keys: "invar m \<Longrightarrow> distinct (map fst (entries m))"
  using entries_sorted strict_sorted_iff by blast

lemma dom_find: "invar m \<Longrightarrow> dom (find m) = fst ` set (entries m)"
proof -
  assume "invar m"
  then have "find m = map_of (entries m)" by (intro ext) (rule find_entries)
  then show ?thesis by (simp add: dom_map_of_conv_image_fst)
qed

lemma size_eq_card: "invar m \<Longrightarrow> length (entries m) = card (dom (find m))"
  using distinct_card [OF distinct_keys, of m] by (simp add: dom_find)

lemma size_assign:
  assumes "invar m"
  shows "length (entries (assign k v m)) =
    (if find m k = None then Suc (length (entries m)) else length (entries m))"
proof -
  have "finite (dom (find m))" using assms by (simp add: dom_find)
  then show ?thesis
    using assms by (auto simp: size_eq_card invar_assign find_assign domIff insert_absorb)
qed

lemma begin_least:
  assumes "invar m" and "entries m = (k, v) # es" and "find m k' = Some v'"
  shows "k \<le> k'"
proof -
  from assms have "k' \<in> fst ` set (entries m)" by (metis dom_find domI)
  with entries_sorted [OF assms(1)] assms(2) show ?thesis by auto
qed

lemma find_begin: "invar m \<Longrightarrow> entries m = (k, v) # es \<Longrightarrow> find m k = Some v"
  by (simp add: find_entries)

lemma find_erase_begin:
  assumes "invar m" and "entries m = (k, v) # es"
  shows "find (erase_begin m) = (find m)(k := None)"
proof
  fix k'
  have "k \<notin> fst ` set es"
    using distinct_keys [OF assms(1)] assms(2) by simp
  then show "find (erase_begin m) k' = ((find m)(k := None)) k'"
    using assms by (auto simp: find_entries invar_erase_begin entries_erase_begin map_of_eq_None_iff)
qed

end

section \<open>The list implementation meets the interface\<close>

lemma map_of_filter_fst:
  "map_of (filter (\<lambda>p. P (fst p)) m) k = (if P k then map_of m k else None)"
  by (induction m) auto

lemma om_sorted_filter: "om_sorted m \<Longrightarrow> om_sorted (filter P m)"
  by (induction m) auto

lemma om_sorted_assign: "om_sorted m \<Longrightarrow> om_sorted (om_assign k v m)"
  by (auto simp: om_assign_def sorted_wrt_append om_sorted_filter)

interpretation omap: ordered_map om_find om_assign om_erase om_erase_begin "\<lambda>m. m" om_sorted
proof unfold_locales
  fix m :: "('a::linorder, 'b) omap" and k :: 'a and v :: 'b
  assume s: "om_sorted m"
  show "om_sorted m" by (fact s)
  show "om_find m k = map_of m k" by (simp add: om_find_def)
  show "om_find (om_assign k v m) = (om_find m)(k \<mapsto> v)"
    by (rule ext) (auto simp: om_find_def om_assign_def map_add_def split: option.splits
        simp: map_of_filter_fst [where P = "\<lambda>x. x < k"] map_of_filter_fst [where P = "\<lambda>x. k < x"])
  show "om_find (om_erase k m) = (om_find m)(k := None)"
    by (auto simp: om_find_def om_erase_def map_of_filter_fst [where P = "\<lambda>x. x \<noteq> k"])
  show "om_erase_begin m = tl m" by (simp add: om_erase_begin_def)
  show "om_sorted (om_assign k v m)" using s by (rule om_sorted_assign)
  show "om_sorted (om_erase k m)" using s by (simp add: om_erase_def om_sorted_filter)
  show "om_sorted (om_erase_begin m)" using s
    by (cases m) (simp_all add: om_erase_begin_def)
qed

lemma om_sorted_emplace: "om_sorted m \<Longrightarrow> om_sorted (om_emplace k v m)"
  by (simp add: om_emplace_def omap.invar_assign)

lemma om_find_emplace:
  "om_sorted m \<Longrightarrow> om_find m k = None \<Longrightarrow> om_find (om_emplace k v m) = (om_find m)(k \<mapsto> v)"
  by (simp add: om_emplace_def omap.find_assign)

lemma length_emplace:
  "om_sorted m \<Longrightarrow> om_find m k = None \<Longrightarrow> length (om_emplace k v m) = Suc (length m)"
  by (simp add: om_emplace_def omap.size_assign)

lemma length_erase_le: "length (om_erase k m) \<le> length m"
  by (simp add: om_erase_def)

lemma om_find_Nil [simp]: "om_find [] k = None"
  by (simp add: om_find_def)

lemma om_find_Cons: "om_find ((a, b) # m) k = (if k = a then Some b else om_find m k)"
  by (simp add: om_find_def)

lemma in_om_assign:
  "(k', v') \<in> set (om_assign k v m) \<longleftrightarrow> (if k' = k then v' = v else (k', v') \<in> set m)"
  by (auto simp: om_assign_def)

lemma in_om_erase: "(k', v') \<in> set (om_erase k m) \<longleftrightarrow> k' \<noteq> k \<and> (k', v') \<in> set m"
  by (auto simp: om_erase_def)

lemma om_find_None_notin: "om_find m k = None \<longleftrightarrow> k \<notin> fst ` set m"
  by (simp add: om_find_def map_of_eq_None_iff)

lemma om_find_in: "om_sorted m \<Longrightarrow> om_find m k = Some v \<longleftrightarrow> (k, v) \<in> set m"
  using omap.distinct_keys [of m] by (simp add: om_find_def)

lemma om_assign_least:
  "\<forall>k' \<in> fst ` set m. k < k' \<Longrightarrow> om_assign k v m = (k, v) # m"
  by (auto simp: om_assign_def filter_empty_conv intro!: filter_True)

lemma om_assign_head:
  "\<forall>k' \<in> fst ` set m. k < k' \<Longrightarrow> om_assign k v ((k, w) # m) = (k, v) # m"
  by (auto simp: om_assign_def filter_empty_conv intro!: filter_True)

lemmas [om_simps] = omap.find_assign omap.find_erase om_find_emplace om_find_Cons

end
