(* ===== verification/Streams.thy ===== *)
theory Streams
  imports Sockets ImageSize Stats Ordered_Map
begin

text \<open>
  The processes that move images between machines and out of the system: \<open>std-stream-send\<close>,
  \<open>std-stream-receive\<close>, \<open>std-live-stream\<close>, \<open>std-gf-filter\<close>, \<open>std-metadata-stream\<close>,
  \<open>std-array10-recv\<close> and \<open>std-bsread-recv\<close>.

  A process is one function per turn of its endless loop. Messages are byte lists; what
  \<open>zmq_recv\<close> gives in a turn is an argument (\<open>None\<close> when it times out), what is published is
  returned. Protobuf parsing and serialization, the JSON parser, the MD5 digest and the bsread
  receiver are third-party and arguments as well. Every process receives metadata into a buffer of
  512 bytes; \<open>zmq_recv\<close> returns the size of the message even when it cuts it off, so that a longer
  message makes the process read behind its buffer.
\<close>

type_synonym multipart = "byte list list"

definition META_BUFFER :: nat where "META_BUFFER = 512"

text \<open>A metadata message of a turn: nothing, or a message that fits into the buffer.\<close>

definition received_meta :: "byte list option \<Rightarrow> byte list option res" where
  "received_meta msg =
     (case msg of None \<Rightarrow> Inr None
      | Some m \<Rightarrow> if m = [] then Inr None
                 else if META_BUFFER < length m then Inl (Undefined ''read out of range'')
                 else Inr (Some m))"

text \<open>\<open>n\<close> bytes from the address \<open>p\<close> on.\<close>

definition read_bytes :: "RamBuffer \<Rightarrow> nat \<Rightarrow> nat \<Rightarrow> byte list res" where
  "read_bytes rb p n =
     (if p + n \<le> length (rb_buffer rb) then Inr (segment p n (rb_buffer rb))
      else Inl (Undefined ''read out of range''))"

definition write_bytes :: "RamBuffer \<Rightarrow> nat \<Rightarrow> byte list \<Rightarrow> RamBuffer res" where
  "write_bytes rb p d = bindE (memcpy (rb_buffer rb) p d) (\<lambda>mem. Inr (rb\<lparr>rb_buffer := mem\<rparr>))"

section \<open>\<open>std-stream-send\<close>\<close>

definition sender_sends_image :: "DetectorConfig \<Rightarrow> int \<Rightarrow> u64 \<Rightarrow> bool res" where
  "sender_sends_image config image_part img =
     (if \<not> sender_sends_full_images config then Inr True
      else let n = word_of_int (max_number_of_forwarders_spawned config) :: u64
           in if n = 0 then Inl (Undefined ''division by zero'') else Inr (img mod n = word_of_int image_part))"

text \<open>\<open>r1\<close> and \<open>r2\<close> are what the two calls of \<open>zmq_send\<close> return: a number of bytes, or \<open>- 1\<close>.\<close>

definition count_failed_sends :: "int \<Rightarrow> int \<Rightarrow> u64" where
  "count_failed_sends r1 r2 = (if 0 = r1 then 1 else 0) + (if 0 = r2 then 1 else 0)"

definition stream_send_turn ::
  "(byte list \<Rightarrow> ImageMetadata) \<Rightarrow> DetectorConfig \<Rightarrow> int \<Rightarrow> u64 \<times> u64 \<Rightarrow> int \<times> int \<Rightarrow> Communicator \<Rightarrow>
   byte list option \<Rightarrow> multipart list \<times> SenderStatsCollector \<Rightarrow> (multipart list \<times> SenderStatsCollector) res" where
  "stream_send_turn parse config image_part part sends receiver msg st =
     (case st of (published, stats) \<Rightarrow>
      bindE (received_meta msg) (\<lambda>m. case m of None \<Rightarrow> Inr (published, stats)
      | Some buffer \<Rightarrow>
          let img = im_image_id (parse buffer) in
          bindE (sender_sends_image config image_part img) (\<lambda>yes.
          if \<not> yes then Inr (published, stats)
          else bindE (Communicator_get_data receiver img) (\<lambda>p.
               bindE (read_bytes (comm_buffer receiver) (unat p + unat (fst part)) (unat (snd part))) (\<lambda>d.
               Inr (published @ [[buffer, d]],
                    sender_process (count_failed_sends (fst sends) (snd sends)) stats))))))"

section \<open>\<open>std-stream-receive\<close>\<close>

text \<open>\<open>received_successfully_data\<close>: the second part goes directly into the slot; \<open>zmq_recv\<close> cuts it
  to the expected size.\<close>

definition received_successfully_data ::
  "byte list option \<Rightarrow> nat \<Rightarrow> nat \<Rightarrow> RamBuffer \<Rightarrow> (bool \<times> RamBuffer) res" where
  "received_successfully_data data p n rb =
     (case data of None \<Rightarrow> Inr (False, rb)
      | Some d \<Rightarrow> bindE (write_bytes rb p (take n d)) (\<lambda>rb'. Inr (d \<noteq> [], rb')))"

definition stream_receive_turn ::
  "(byte list \<Rightarrow> ImageMetadata) \<Rightarrow> u64 \<times> u64 \<Rightarrow> byte list option \<Rightarrow> byte list option \<Rightarrow>
   Communicator \<times> ReceiverStatsCollector \<Rightarrow> (Communicator \<times> ReceiverStatsCollector) res" where
  "stream_receive_turn parse part msg data st =
     (case st of (sender, stats) \<Rightarrow>
      bindE (received_meta msg) (\<lambda>m. case m of None \<Rightarrow> Inr (sender, stats)
      | Some buffer \<Rightarrow>
          let img = im_image_id (parse buffer) in
          bindE (Communicator_get_data sender img) (\<lambda>p.
          bindE (received_successfully_data data (unat p + unat (fst part)) (unat (snd part))
                   (comm_buffer sender)) (\<lambda>(ok, b).
          let sender1 = sender\<lparr>comm_buffer := b\<rparr> in
          if ok then bindE (Communicator_send sender1 img buffer None) (\<lambda>sender2.
                     Inr (sender2, receiver_process 0 img stats))
          else Inr (sender1, receiver_process 1 img stats)))))"

section \<open>\<open>std-live-stream\<close>\<close>

datatype stream_type = bsread | array10

record ls_arguments =
  lsa_config :: DetectorConfig
  lsa_stream_address :: string
  lsa_source_suffix_meta :: string
  lsa_source_suffix_image :: string
  lsa_type :: stream_type

text \<open>The action of the option \<open>--type\<close>.\<close>

definition stream_type_of :: "string \<Rightarrow> stream_type res" where
  "stream_type_of arg =
     (if arg = ''bsread'' then Inr bsread else if arg = ''array-1.0'' then Inr array10
      else Inl (RuntimeError (''Invalid choice for --type: '' @ arg)))"

text \<open>The closure that decides about an image, with the variables it captures; time is in nanoseconds.\<close>

datatype sending_condition =
    Periodic u64 int int u32 \<comment> \<open>images of a burst, period, next time, count\<close>
  | Batch u64 u64
  | Always

definition select_sending_condition :: "live_stream_config \<Rightarrow> int \<Rightarrow> sending_condition res" where
  "select_sending_condition conf now =
     (case lsc_type conf of
        ls_periodic \<Rightarrow>
          let hz = sint (ucast (snd (lsc_value conf)) :: u32) in
          if hz = 0 then Inl (Undefined ''division by zero'')
          else let data_period = int_quot 1000 hz * 1000000
               in Inr (Periodic (fst (lsc_value conf)) data_period (now + data_period) 0)
      | ls_batch \<Rightarrow> Inr (Batch (fst (lsc_value conf)) (snd (lsc_value conf)))
      | ls_forward \<Rightarrow> Inr Always)"

fun should_send_image :: "sending_condition \<Rightarrow> int \<Rightarrow> u64 \<Rightarrow> (bool \<times> sending_condition) res" where
  "should_send_image (Periodic n data_period next_time count) now img =
     (if count > 0 \<and> ucast count < n then Inr (True, Periodic n data_period next_time (count + 1))
      else if now > next_time then Inr (True, Periodic n data_period (now + data_period) 1)
      else Inr (False, Periodic n data_period next_time 0))"
| "should_send_image (Batch n period) now img =
     (if period = 0 then Inl (Undefined ''division by zero'') else Inr (img mod period < n, Batch n period))"
| "should_send_image Always now img = Inr (True, Always)"

definition map_dtype_to_stream_type :: "ImageMetadataDtype \<Rightarrow> string res" where
  "map_dtype_to_stream_type ty =
     (if ty = dt_float32 then Inr ''float32'' else if ty = dt_uint8 then Inr ''uint8''
      else if ty = dt_uint16 then Inr ''uint16'' else if ty = dt_uint32 then Inr ''uint32''
      else if ty = dt_uint64 then Inr ''uint64''
      else Inl (RuntimeError ''Unsupported bit_depth of the image''))"

definition prepare_array10_header :: "ImageMetadata \<Rightarrow> string res" where
  "prepare_array10_header meta =
     bindE (map_dtype_to_stream_type (im_dtype meta)) (\<lambda>ty.
     Inr (''{\"htype\":\"array-1.0\", \"shape\":['' @ to_string (im_height meta) @ '','' @ to_string (im_width meta) @
          ''], \"type\":\"'' @ ty @ ''\", \"frame\":'' @ to_string (im_image_id meta) @ ''}''))"

definition prepare_bsread_headers :: "(string \<Rightarrow> string) \<Rightarrow> ImageMetadata \<Rightarrow> (string \<times> string) res" where
  "prepare_bsread_headers md5 meta =
     bindE (map_dtype_to_stream_type (im_dtype meta)) (\<lambda>ty.
     let data_header =
           ''{\"htype\":\"bsr_d-1.1\",\"channels\":[{\"name\":\"'' @ pco_bsread_name (im_pco meta) @ ''\",\"shape\":['' @
           to_string (im_width meta) @ '','' @ to_string (im_height meta) @ ''],\"type\":\"'' @ ty @
           ''\",\"compression\":\"bitshuffle_lz4\"}]}'';
         main_header =
           ''{\"htype\":\"bsr_m-1.1\",\"pulse_id\":'' @ to_string (im_image_id meta) @ '',\"global_timestamp\":{\"sec\":'' @
           to_string (pco_global_timestamp_sec (im_pco meta)) @ '',\"ns\":'' @
           to_string (pco_global_timestamp_ns (im_pco meta)) @ ''},\"hash\":\"'' @ md5 data_header @ ''\"}''
     in Inr (main_header, data_header))"

definition text_bytes :: "string \<Rightarrow> byte list" where
  "text_bytes s = map (\<lambda>c. word_of_nat (of_char c)) s"

definition send_array_1_0_stream :: "ImageMetadata \<Rightarrow> byte list \<Rightarrow> multipart res" where
  "send_array_1_0_stream meta img_data =
     bindE (prepare_array10_header meta) (\<lambda>header. Inr [text_bytes header, img_data])"

definition send_bsread_stream :: "(string \<Rightarrow> string) \<Rightarrow> ImageMetadata \<Rightarrow> byte list \<Rightarrow> multipart res" where
  "send_bsread_stream md5 meta img_data =
     bindE (prepare_bsread_headers md5 meta) (\<lambda>(main_header, data_header).
     Inr [text_bytes main_header, text_bytes data_header, img_data, []])"

definition live_stream_turn ::
  "(byte list \<Rightarrow> ImageMetadata) \<Rightarrow> (string \<Rightarrow> string) \<Rightarrow> stream_type \<Rightarrow> Communicator \<Rightarrow> int \<Rightarrow> byte list option \<Rightarrow>
   sending_condition \<times> multipart list \<times> LiveStreamStatsCollector \<Rightarrow>
   (sending_condition \<times> multipart list \<times> LiveStreamStatsCollector) res" where
  "live_stream_turn parse md5 ty receiver now msg st =
     (case st of (cond, published, stats) \<Rightarrow>
      bindE (received_meta msg) (\<lambda>m. case m of None \<Rightarrow> Inr st
      | Some buffer \<Rightarrow>
          let meta = parse buffer in
          bindE (Communicator_get_data receiver (im_image_id meta)) (\<lambda>p.
          bindE (should_send_image cond now (im_image_id meta)) (\<lambda>(yes, cond').
          if \<not> yes then Inr (cond', published, timed_process stats)
          else bindE (read_bytes (comm_buffer receiver) (unat p) (unat (im_size meta))) (\<lambda>img_data.
               bindE (if ty = array10 then send_array_1_0_stream meta img_data
                      else send_bsread_stream md5 meta img_data) (\<lambda>parts.
               Inr (cond', published @ [parts], timed_process stats)))))))"

section \<open>\<open>std-gf-filter\<close> and \<open>std-metadata-stream\<close>\<close>

definition gf_filter_turn ::
  "(byte list \<Rightarrow> ImageMetadata) \<Rightarrow> bool \<Rightarrow> byte list option \<Rightarrow> byte list list \<times> FilterStatsCollector \<Rightarrow>
   (byte list list \<times> FilterStatsCollector) res" where
  "gf_filter_turn parse always_forward msg st =
     (case st of (published, stats) \<Rightarrow>
      bindE (received_meta msg) (\<lambda>m. case m of None \<Rightarrow> Inr st
      | Some buffer \<Rightarrow>
          if always_forward \<or> gfm_store_image (im_gf (parse buffer))
          then Inr (published @ [buffer], timed_process (forward stats))
          else Inr (published, timed_process stats)))"

definition metadata_stream_turn ::
  "byte list option \<Rightarrow> byte list list \<times> TimedStatsCollector \<Rightarrow> (byte list list \<times> TimedStatsCollector) res" where
  "metadata_stream_turn msg st =
     (case st of (published, stats) \<Rightarrow>
      bindE (received_meta msg) (\<lambda>m. case m of None \<Rightarrow> Inr st
      | Some buffer \<Rightarrow> Inr (published @ [buffer], timed_process stats)))"

section \<open>\<open>std-array10-recv\<close>\<close>

text \<open>The size of the slots of the two receivers, computed in \<open>int\<close>.\<close>

definition max_byte_size :: "DetectorConfig \<Rightarrow> u64 res" where
  "max_byte_size config =
     bindE (int_mul (image_pixel_width config) (image_pixel_height config)) (\<lambda>n.
     bindE (int_mul n (bit_depth config)) (\<lambda>b. Inr (word_of_int (int_quot b 8))))"

definition array10_initial_meta :: "DetectorConfig \<Rightarrow> ImageMetadata res" where
  "array10_initial_meta config =
     bindE (max_byte_size config) (\<lambda>n.
     bindE (get_metadata_dtype config) (\<lambda>ty.
     Inr (default_ImageMetadata\<lparr>im_dtype := ty, im_status := st_good_image,
            im_height := word_of_int (image_pixel_height config),
            im_width := word_of_int (image_pixel_width config), im_size := n\<rparr>)))"

record array10_state =
  a10_meta :: ImageMetadata
  a10_image_order :: "(u64, ImageMetadata) omap"
  a10_sender :: Communicator
  a10_stats :: TimedStatsCollector

text \<open>\<open>frame_of\<close> parses the header: the number in \<open>frame\<close>, or \<open>None\<close> for a JSON exception. The buffer
  has room for \<open>n + 8\<close> bytes.\<close>

definition array10_receive ::
  "(byte list \<Rightarrow> u64 option) \<Rightarrow> nat \<Rightarrow> byte list option \<times> byte list option \<Rightarrow> array10_state \<Rightarrow> array10_state res" where
  "array10_receive frame_of n recv s =
     (case fst recv of None \<Rightarrow> Inr s
      | Some header \<Rightarrow>
          if header = [] then Inr s
          else if n + 8 < length header then Inl (Undefined ''read out of range'')
          else let meta = (case frame_of header of Some f \<Rightarrow> (a10_meta s)\<lparr>im_image_id := f\<rparr> | None \<Rightarrow> a10_meta s);
                   s1 = s\<lparr>a10_meta := meta\<rparr>
               in case snd recv of
                    None \<Rightarrow> Inr (s1\<lparr>a10_stats := timed_process (a10_stats s1)\<rparr>)
                  | Some d \<Rightarrow>
                      if d = [] then Inr (s1\<lparr>a10_stats := timed_process (a10_stats s1)\<rparr>)
                      else if n + 8 < length d then Inl (Undefined ''read out of range'')
                      else bindE (Communicator_get_data (a10_sender s) (im_image_id meta)) (\<lambda>p.
                           bindE (write_bytes (comm_buffer (a10_sender s)) (unat p) d) (\<lambda>b.
                           Inr (s1\<lparr>a10_sender := (a10_sender s)\<lparr>comm_buffer := b\<rparr>,
                                   a10_image_order := om_emplace (im_image_id meta) meta (a10_image_order s),
                                   a10_stats := timed_process (a10_stats s)\<rparr>))))"

text \<open>After all sockets were read once, the images are announced in the order of their ids.\<close>

definition array10_publish :: "(ImageMetadata \<Rightarrow> byte list) \<Rightarrow> array10_state \<Rightarrow> array10_state res" where
  "array10_publish ser s =
     bindE (forE (\<lambda>(pulse, m) c. Communicator_send c pulse (ser m) None) (a10_image_order s) (a10_sender s)) (\<lambda>c.
     Inr (s\<lparr>a10_sender := c, a10_image_order := []\<rparr>))"

definition array10_turn ::
  "(byte list \<Rightarrow> u64 option) \<Rightarrow> (ImageMetadata \<Rightarrow> byte list) \<Rightarrow> nat \<Rightarrow> (byte list option \<times> byte list option) list \<Rightarrow>
   array10_state \<Rightarrow> array10_state res" where
  "array10_turn frame_of ser n recvs s = bindE (forE (array10_receive frame_of n) recvs s) (array10_publish ser)"

section \<open>\<open>std-bsread-recv\<close>\<close>

record bsrec_channel =
  ch_shape :: "u32 list"
  ch_name :: string
  ch_data :: "byte list"

record bsrec_message =
  bsm_pulse_id :: int
  bsm_time :: "u64 \<times> u64"
  bsm_channels :: "bsrec_channel list option"

record metadata_holder =
  mh_width :: u32
  mh_height :: u32
  mh_name :: string
  mh_timestamp :: "u64 \<times> u64"

record bsread_state =
  bsr_pulse_order :: "(int, metadata_holder) omap"
  bsr_meta :: ImageMetadata
  bsr_sender :: Communicator
  bsr_stats :: TimedStatsCollector

definition bsread_receive :: "bsrec_message \<Rightarrow> bsread_state \<Rightarrow> bsread_state res" where
  "bsread_receive msg s =
     (case bsm_channels msg of None \<Rightarrow> Inr s
      | Some [] \<Rightarrow> Inr (s\<lparr>bsr_stats := timed_process (bsr_stats s)\<rparr>)
      | Some (ch # _) \<Rightarrow>
          if length (ch_shape ch) < 2 then Inl (Undefined ''read out of range'')
          else bindE (Communicator_get_data (bsr_sender s) (word_of_int (bsm_pulse_id msg))) (\<lambda>p.
               bindE (write_bytes (comm_buffer (bsr_sender s)) (unat p) (ch_data ch)) (\<lambda>b.
               Inr (s\<lparr>bsr_sender := (bsr_sender s)\<lparr>comm_buffer := b\<rparr>,
                      bsr_pulse_order := om_emplace (bsm_pulse_id msg)
                        \<lparr>mh_width = ch_shape ch ! 0, mh_height = ch_shape ch ! 1, mh_name = ch_name ch,
                         mh_timestamp = bsm_time msg\<rparr> (bsr_pulse_order s),
                      bsr_stats := timed_process (bsr_stats s)\<rparr>))))"

definition bsread_image_meta :: "DetectorConfig \<Rightarrow> int \<Rightarrow> metadata_holder \<Rightarrow> ImageMetadata \<Rightarrow> ImageMetadata" where
  "bsread_image_meta config pulse m meta =
     meta\<lparr>im_image_id := word_of_int pulse, im_width := ucast (mh_width m), im_height := ucast (mh_height m),
          im_size := ucast (mh_width m * mh_height m * word_of_int (bit_depth config) div 8),
          im_oneof := PcoMeta ((im_pco meta)\<lparr>pco_bsread_name := mh_name m,
            pco_global_timestamp_sec := fst (mh_timestamp m), pco_global_timestamp_ns := snd (mh_timestamp m)\<rparr>)\<rparr>"

definition bsread_publish ::
  "(ImageMetadata \<Rightarrow> byte list) \<Rightarrow> DetectorConfig \<Rightarrow> bsread_state \<Rightarrow> bsread_state res" where
  "bsread_publish ser config s =
     bindE (forE (\<lambda>(pulse, m) (meta, c).
              let meta' = bsread_image_meta config pulse m meta
              in bindE (Communicator_send c (word_of_int pulse) (ser meta') None) (\<lambda>c'. Inr (meta', c')))
            (bsr_pulse_order s) (bsr_meta s, bsr_sender s)) (\<lambda>(meta, c).
     Inr (s\<lparr>bsr_meta := meta, bsr_sender := c, bsr_pulse_order := []\<rparr>))"

definition bsread_turn ::
  "(ImageMetadata \<Rightarrow> byte list) \<Rightarrow> DetectorConfig \<Rightarrow> bsrec_message list \<Rightarrow> bsread_state \<Rightarrow> bsread_state res" where
  "bsread_turn ser config msgs s = bindE (forE bsread_receive msgs s) (bsread_publish ser config)"

section \<open>An image sent in parts arrives as a whole\<close>

lemma received_meta_Some:
  "m \<noteq> [] \<Longrightarrow> length m \<le> 512 \<Longrightarrow> received_meta (Some m) = Inr (Some m)"
  by (simp add: received_meta_def META_BUFFER_def)

lemma segment_segment: "off + len \<le> n \<Longrightarrow> segment off len (segment p n xs) = segment (p + off) len xs"
  by (simp add: segment_def take_drop min_absorb1 add.commute)

lemma segment_overwrite_inside:
  assumes "off + length d \<le> n" and "p + n \<le> length xs"
  shows "segment p n (overwrite (p + off) d xs) = overwrite off d (segment p n xs)"
  using assms by (intro nth_equalityI) (auto simp: nth_segment nth_overwrite)

text \<open>One part on its way: the turn of its sender and the turn of its receiver. A process whose part
  lies behind the image has exited.\<close>

definition transfer_part ::
  "(byte list \<Rightarrow> ImageMetadata) \<Rightarrow> DetectorConfig \<Rightarrow> Communicator \<Rightarrow> byte list \<Rightarrow> SenderStatsCollector \<Rightarrow> nat \<Rightarrow>
   Communicator \<times> ReceiverStatsCollector \<Rightarrow> (Communicator \<times> ReceiverStatsCollector) res" where
  "transfer_part parse config source m sstats p st =
     bindE (stream_part config (int p)) (\<lambda>part. case part of None \<Rightarrow> Inr st
     | Some part \<Rightarrow>
         bindE (stream_send_turn parse config (int p) part (1, 1) source (Some m) ([], sstats)) (\<lambda>(published, _).
         forE (\<lambda>msg. stream_receive_turn parse part (Some (msg ! 0)) (Some (msg ! 1))) published st))"

lemma stream_send_turn_part:
  assumes "rb_wf (comm_buffer source)" and "read_slot (comm_buffer source) (im_image_id (parse m)) = Inr img"
    and "m \<noteq> []" "length m \<le> 512" and "\<not> sender_sends_full_images config"
    and "unat off + unat len \<le> length img"
  shows "\<exists>st. stream_send_turn parse config part (off, len) (1, 1) source (Some m) ([], sstats) =
    Inr ([[m, segment (unat off) (unat len) img]], st)"
proof -
  let ?rb = "comm_buffer source" and ?i = "im_image_id (parse m)"
  obtain p where p: "get_data ?rb ?i = Inr p" "unat p = rb_slot ?rb ?i * rb_size ?rb"
    "unat p + rb_size ?rb \<le> length (rb_buffer ?rb)"
    using get_data_wf [OF assms(1)] by blast
  have img: "img = segment (unat p) (rb_size ?rb) (rb_buffer ?rb)"
    using read_slot_wf [OF assms(1)] assms(2) p(2) by simp
  then have "length img = rb_size ?rb" using p(3) by simp
  then have "read_bytes ?rb (unat p + unat off) (unat len) = Inr (segment (unat off) (unat len) img)"
    using p(3) assms(6) by (simp add: read_bytes_def img segment_segment)
  then show ?thesis
    using p(1) assms(3,4,5)
    by (simp add: stream_send_turn_def received_meta_Some sender_sends_image_def Communicator_get_data_def Let_def)
qed

lemma stream_receive_turn_part:
  assumes "rb_wf (comm_buffer c)" and "read_slot (comm_buffer c) (im_image_id (parse m)) = Inr slot"
    and "m \<noteq> []" "length m \<le> 512" and "d \<noteq> []" "length d = unat len" and "unat off + unat len \<le> length slot"
  shows "\<exists>c' st'. stream_receive_turn parse (off, len) (Some m) (Some d) (c, st) = Inr (c', st') \<and>
    rb_wf (comm_buffer c') \<and> read_slot (comm_buffer c') (im_image_id (parse m)) = Inr (overwrite (unat off) d slot) \<and>
    comm_sent c' = comm_sent c @ [m]"
proof -
  let ?rb = "comm_buffer c" and ?i = "im_image_id (parse m)"
  obtain p where p: "get_data ?rb ?i = Inr p" "unat p = rb_slot ?rb ?i * rb_size ?rb"
    "unat p + rb_size ?rb \<le> length (rb_buffer ?rb)"
    using get_data_wf [OF assms(1)] by blast
  have slot: "slot = segment (unat p) (rb_size ?rb) (rb_buffer ?rb)"
    using read_slot_wf [OF assms(1)] assms(2) p(2) by simp
  then have len: "length slot = rb_size ?rb" using p(3) by simp
  define rb' where "rb' = ?rb\<lparr>rb_buffer := overwrite (unat p + unat off) d (rb_buffer ?rb)\<rparr>"
  have "write_bytes ?rb (unat p + unat off) d = Inr rb'"
    using p(3) assms(6,7) len by (simp add: write_bytes_def rb'_def)
  then have "stream_receive_turn parse (off, len) (Some m) (Some d) (c, st) =
      Inr (c\<lparr>comm_buffer := rb', comm_sent := comm_sent c @ [m]\<rparr>, receiver_process 0 ?i st)"
    using p(1) assms(3-6)
    by (simp add: stream_receive_turn_def received_meta_Some Communicator_get_data_def Let_def
      received_successfully_data_def Communicator_send_def RamBuffer_write_def)
  moreover have wf: "rb_wf rb'" using assms(1,6,7) p(3) len by (simp add: rb_wf_def rb'_def)
  moreover have "read_slot rb' ?i = Inr (overwrite (unat off) d slot)"
    using read_slot_wf [OF wf] p(2,3) assms(6,7) len by (simp add: rb'_def slot segment_overwrite_inside)
  ultimately show ?thesis by simp
qed

text \<open>Every part repairs its bytes of the slot.\<close>

lemma transfer_part_slot:
  assumes src: "rb_wf (comm_buffer source)" "read_slot (comm_buffer source) (im_image_id (parse m)) = Inr img"
    and m: "m \<noteq> []" "length m \<le> 512" and nf: "\<not> sender_sends_full_images config"
    and part: "stream_part config (int p) = Inr (Some (off, len))" "0 < unat len" "unat off + unat len \<le> length img"
    and dst: "rb_wf (comm_buffer c)" "read_slot (comm_buffer c) (im_image_id (parse m)) = Inr slot"
      "length slot = length img"
  shows "\<exists>c' st'. transfer_part parse config source m sstats p (c, st) = Inr (c', st') \<and> rb_wf (comm_buffer c') \<and>
    read_slot (comm_buffer c') (im_image_id (parse m)) =
      Inr (overwrite (unat off) (segment (unat off) (unat len) img) slot)"
proof -
  let ?d = "segment (unat off) (unat len) img"
  obtain ss where "stream_send_turn parse config (int p) (off, len) (1, 1) source (Some m) ([], sstats) =
      Inr ([[m, ?d]], ss)"
    using stream_send_turn_part [where parse = parse, OF src m nf part(3)] by blast
  moreover have d: "length ?d = unat len" using part(3) by simp
  then have "?d \<noteq> []" using part(2) by auto
  then obtain c' st' where "stream_receive_turn parse (off, len) (Some m) (Some ?d) (c, st) = Inr (c', st')"
    "rb_wf (comm_buffer c')"
    "read_slot (comm_buffer c') (im_image_id (parse m)) = Inr (overwrite (unat off) ?d slot)"
    using stream_receive_turn_part [where parse = parse and off = off and st = st, OF dst(1,2) m _ d] part(3) dst(3) by auto
  ultimately show ?thesis using part(1) by (simp add: transfer_part_def)
qed

lemma overwrite_own_segment:
  assumes "off + len \<le> length img" and "length slot = length img" and "i < length img"
  shows "overwrite off (segment off len img) slot ! i = (if off \<le> i \<and> i < off + len then img ! i else slot ! i)"
  using assms nth_segment [of off len img "i - off"] by (auto simp: nth_overwrite)

text \<open>The transfer of part \<open>p\<close>: the bytes of the part become those of the image.\<close>

lemma transfer_part_divided:
  assumes nf: "\<not> sender_sends_full_images config"
    and n: "converted_image_n_bytes config = Inr n" and t: "divided_size config = Inr t"
    and N: "N = nat (max_number_of_forwarders_spawned config)" "0 < N" "max_number_of_forwarders_spawned config \<le> int_max"
    and fits: "N * unat t < 2 ^ 64" and s: "N \<le> unat t"
    and m: "m \<noteq> []" "length m \<le> 512"
    and src: "rb_wf (comm_buffer source)" "read_slot (comm_buffer source) (im_image_id (parse m)) = Inr img" "length img = unat n"
    and p: "p < N"
    and c: "rb_wf (comm_buffer c)" "read_slot (comm_buffer c) (im_image_id (parse m)) = Inr slot" "length slot = unat n"
  shows "\<exists>c' st' slot'. transfer_part parse config source m sstats p (c, st) = Inr (c', st') \<and>
    rb_wf (comm_buffer c') \<and> read_slot (comm_buffer c') (im_image_id (parse m)) = Inr slot' \<and> length slot' = unat n \<and>
    (\<forall>i < unat n. slot' ! i = (if sends_byte config p i then img ! i else slot ! i))"
proof -
  let ?o = "p * unat t div N"
  obtain off len where part: "stream_part config (int p) = Inr (if ?o < unat n then Some (off, len) else None)"
    and off: "unat off = ?o" and len: "?o < unat n \<Longrightarrow> unat len = min (unat n - ?o) (unat t div N)"
    using stream_part_divided [OF nf n t N fits p] by blast
  show ?thesis
  proof (cases "?o < unat n")
    case True
    have "0 < unat t div N" using s N(2) by (simp add: div_greater_zero_iff)
    then have in_img: "unat off + unat len \<le> length img" and len0: "0 < unat len" using True off len src(3) by auto
    have some: "stream_part config (int p) = Inr (Some (off, len))" using part True by simp
    from transfer_part_slot [where parse = parse and sstats = sstats and st = st, OF src(1,2) m nf this len0 in_img c(1,2)] c(3) src(3)
    obtain c' st' where "transfer_part parse config source m sstats p (c, st) = Inr (c', st')" "rb_wf (comm_buffer c')"
      "read_slot (comm_buffer c') (im_image_id (parse m)) = Inr (overwrite (unat off) (segment (unat off) (unat len) img) slot)" by auto
    moreover have "overwrite (unat off) (segment (unat off) (unat len) img) slot ! i =
        (if sends_byte config p i then img ! i else slot ! i)" if "i < unat n" for i
      using overwrite_own_segment [OF in_img, of slot i] c(3) src(3) that some by (simp add: sends_byte_def)
    ultimately show ?thesis using c(3) src(3) in_img by auto
  next
    case False
    then show ?thesis using part c by (auto simp: transfer_part_def sends_byte_def)
  qed
qed

text \<open>C4. An image is not sent as a whole but divided among \<open>N\<close> forwarders, each with at least one byte of the
  divided size \<open>t\<close>, and \<open>N\<close> times \<open>t\<close> fits into 64 bits. When some of the forwarders have sent their parts and the receivers have taken them, in
  whatever order and possibly more than once, the slot of the receiving machine holds the bytes of the image
  that these forwarders send, and otherwise what it held before. If all forwarders have sent, \<open>N\<close>
  divides \<open>t\<close> and the image is not larger than \<open>t\<close>, it holds the image of the sending machine.\<close>

theorem stream_transfer_complete:
  assumes nf: "\<not> sender_sends_full_images config"
    and n: "converted_image_n_bytes config = Inr n" and t: "divided_size config = Inr t"
    and N: "N = nat (max_number_of_forwarders_spawned config)" "0 < N"
      "max_number_of_forwarders_spawned config \<le> int_max"
    and fits: "N * unat t < 2 ^ 64" and s: "N \<le> unat t"
    and m: "m \<noteq> []" "length m \<le> 512"
    and src: "rb_wf (comm_buffer source)" "read_slot (comm_buffer source) (im_image_id (parse m)) = Inr img"
      "length img = unat n"
    and dst: "rb_wf (comm_buffer c)" "read_slot (comm_buffer c) (im_image_id (parse m)) = Inr slot"
      "length slot = unat n"
    and ps: "set ps \<subseteq> {..<N}"
  shows "\<exists>c' st' slot'. forE (transfer_part parse config source m sstats) ps (c, st) = Inr (c', st') \<and>
    read_slot (comm_buffer c') (im_image_id (parse m)) = Inr slot' \<and> length slot' = unat n \<and>
    (\<forall>i < unat n. slot' ! i = (if \<exists>p \<in> set ps. sends_byte config p i then img ! i else slot ! i)) \<and>
    (set ps = {..<N} \<and> N dvd unat t \<and> n \<le> t \<longrightarrow> slot' = img)"
proof -
  let ?read = "\<lambda>c. read_slot (comm_buffer c) (im_image_id (parse m))"
  note good = transfer_part_divided [where parse = parse and sstats = sstats, OF nf n t N fits s m src]
  have "\<exists>c' st' slot'. forE (transfer_part parse config source m sstats) qs (c, st) = Inr (c', st') \<and>
      rb_wf (comm_buffer c') \<and> ?read c' = Inr slot' \<and> length slot' = unat n \<and>
      (\<forall>i < unat n. slot' ! i = (if \<exists>p \<in> set qs. sends_byte config p i then img ! i else slot ! i))"
    if "set qs \<subseteq> {..<N}" and "rb_wf (comm_buffer c)" "?read c = Inr slot" "length slot = unat n" for qs c st slot
    using that
  proof (induction qs arbitrary: c st slot)
    case Nil
    then show ?case by auto
  next
    case (Cons q qs)
    then obtain c1 st1 slot1 where 1: "transfer_part parse config source m sstats q (c, st) = Inr (c1, st1)"
      "rb_wf (comm_buffer c1)" "?read c1 = Inr slot1" "length slot1 = unat n"
      "\<forall>i < unat n. slot1 ! i = (if sends_byte config q i then img ! i else slot ! i)"
      using good [of q c slot st] by auto
    with Cons.IH [of c1 slot1 st1] Cons.prems(1) show ?case by fastforce
  qed
  from this [of ps c slot st] dst ps obtain c' st' slot' where run:
    "forE (transfer_part parse config source m sstats) ps (c, st) = Inr (c', st')" "?read c' = Inr slot'"
    "length slot' = unat n"
    "\<forall>i < unat n. slot' ! i = (if \<exists>p \<in> set ps. sends_byte config p i then img ! i else slot ! i)"
    by auto
  have "\<exists>p < N. sends_byte config p i" if "N dvd unat t" "n \<le> t" "i < unat n" for i
    using that in_part_iff [OF N(2), of "unat t" i] no_byte_between_parts [OF N(2), of "unat t" i]
      sends_byte_divided [OF nf n t N fits _ that(3)] by (auto simp: word_le_nat_alt)
  then have "slot' = img" if "set ps = {..<N}" "N dvd unat t" "n \<le> t"
    using that run(3,4) src(3) by (intro nth_equalityI) auto
  with run show ?thesis by blast
qed

text \<open>A transfer of a small image through the eight forwarders of the example configuration.\<close>

definition small_config :: DetectorConfig where
  "small_config = example_config\<lparr>image_pixel_height := 4, image_pixel_width := 4, use_all_forwarders := True\<rparr>"

lemma small_config_size: "converted_image_n_bytes small_config = Inr 32" "divided_size small_config = Inr 32"
  by code_simp+

definition slots_of :: "byte list \<Rightarrow> Communicator" where
  "slots_of d = \<lparr>comm_buffer = \<lparr>rb_n_slots = 2, rb_data_bytes = 32, rb_buffer_bytes = 64, rb_buffer = d @ d\<rparr>,
     comm_sent = []\<rparr>"

lemma slots_of:
  assumes "length d = 32"
  shows "rb_wf (comm_buffer (slots_of d))" "read_slot (comm_buffer (slots_of d)) 0 = Inr d"
  using assms by (simp_all add: slots_of_def rb_wf_def read_slot_def get_data_def segment_def)

definition fresh_sender_stats :: SenderStatsCollector where
  "fresh_sender_stats = \<lparr>sc_detector_name = ''stage.GF'', sc_period = 10, sc_last_update_time = 0, processed_times = 0,
     source_suffix = [], previous_time = 0, snd_image_part = 0, snd_zmq_fails = 0\<rparr>"

definition fresh_receiver_stats :: ReceiverStatsCollector where
  "fresh_receiver_stats = \<lparr>sc_detector_name = ''stage.GF'', sc_period = 10, sc_last_update_time = 0, processed_times = 0,
     source_suffix = [], previous_time = 0, rcv_image_part = 0, rcv_zmq_fails = 0, prev_image_id = 0,
     images_missed = 0\<rparr>"

theorem stream_transfer_complete_witness:
  "\<exists>c' st'. forE (transfer_part (\<lambda>_. default_ImageMetadata) small_config (slots_of (map word_of_nat [0..<32])) [8]
      fresh_sender_stats) [7, 0, 3, 2, 1, 4, 5, 6] (slots_of (replicate 32 0), fresh_receiver_stats) = Inr (c', st') \<and>
    read_slot (comm_buffer c') 0 = Inr (map word_of_nat [0..<32])"
proof -
  let ?img = "map word_of_nat [0..<32] :: byte list" and ?ps = "[7, 0, 3, 2, 1, 4, 5, 6] :: nat list"
  have ps: "set ?ps = {..<8}" by auto
  have modes: "\<not> sender_sends_full_images small_config" "8 = nat (max_number_of_forwarders_spawned small_config)"
    "max_number_of_forwarders_spawned small_config \<le> int_max"
    by (simp_all add: small_config_def example_config_def int_max_def)
  have id: "im_image_id default_ImageMetadata = 0" by (simp add: default_ImageMetadata_def)
  have img: "rb_wf (comm_buffer (slots_of ?img))" "read_slot (comm_buffer (slots_of ?img)) 0 = Inr ?img"
    and old: "rb_wf (comm_buffer (slots_of (replicate 32 0)))"
      "read_slot (comm_buffer (slots_of (replicate 32 0))) 0 = Inr (replicate 32 0)"
    by (rule slots_of, simp)+
  have "set ?ps \<subseteq> {..<8}" using ps by simp
  from stream_transfer_complete [where parse = "\<lambda>_. default_ImageMetadata" and m = "[8]" and n = 32 and t = 32 and N = 8
      and sstats = fresh_sender_stats and st = fresh_receiver_stats, unfolded id,
      OF modes(1) small_config_size modes(2) _ modes(3) _ _ _ _ img _ old _ this] ps
  show ?thesis by auto
qed

section \<open>The live stream\<close>

text \<open>The decisions about a sequence of images, each with the time it is looked at.\<close>

fun decisions :: "sending_condition \<Rightarrow> (int \<times> u64) list \<Rightarrow> (bool list \<times> sending_condition) res" where
  "decisions c [] = Inr ([], c)"
| "decisions c ((now, img) # es) =
     bindE (should_send_image c now img) (\<lambda>(b, c'). bindE (decisions c' es) (\<lambda>(bs, c''). Inr (b # bs, c'')))"

lemma decisions_in_burst:
  assumes "0 < k" and "k + length es \<le> unat n" and "unat n < 2 ^ 32"
  shows "decisions (Periodic n per nxt (word_of_nat k)) es =
    Inr (replicate (length es) True, Periodic n per nxt (word_of_nat (k + length es)))"
  using assms
proof (induction es arbitrary: k)
  case Nil
  then show ?case by simp
next
  case (Cons e es)
  obtain now img where e: "e = (now, img)" by (cases e)
  have k: "unat (word_of_nat k :: u32) = k"
    using Cons.prems by (simp only: unat_of_nat) (simp add: take_bit_nat_eq_self)
  have "(0 :: u32) < word_of_nat k" using Cons.prems(1) k by (simp add: word_less_nat_alt)
  moreover have "ucast (word_of_nat k :: u32) < n"
    using Cons.prems k by (simp add: word_less_nat_alt unat_ucast_up)
  ultimately have "should_send_image (Periodic n per nxt (word_of_nat k)) now img =
      Inr (True, Periodic n per nxt (word_of_nat (Suc k)))" by (simp add: add.commute)
  then show ?case using Cons.IH [of "Suc k"] Cons.prems e by (simp del: should_send_image.simps)
qed

text \<open>A periodic live stream sends bursts: once the period is over, the image that is looked at and the
  following images are sent until the burst has its configured number of images, whatever the
  clock says; the next image is sent only when the period is over again.\<close>

theorem live_stream_burst:
  assumes "nxt < now" and "unat n = Suc k" and "unat n < 2 ^ 32" and "length es = k"
  shows "decisions (Periodic n per nxt 0) ((now, img) # es) =
      Inr (replicate (unat n) True, Periodic n per (now + per) (word_of_nat (unat n))) \<and>
    should_send_image (Periodic n per (now + per) (word_of_nat (unat n))) now' img' =
      Inr (if now + per < now' then (True, Periodic n per (now' + per) 1)
           else (False, Periodic n per (now + per) 0))"
proof -
  have "unat (word_of_nat (unat n) :: u32) = unat n"
    using assms(3) by (simp only: unat_of_nat) (simp add: take_bit_nat_eq_self)
  then have "\<not> ucast (word_of_nat (unat n) :: u32) < n" by (simp add: word_less_nat_alt unat_ucast_up)
  then show ?thesis
    using assms decisions_in_burst [of 1 es n per "now + per"] by simp
qed

theorem live_stream_burst_witness:
  "decisions (Periodic 3 100 0 0) [(1, 10), (2, 11), (3, 12)] = Inr ([True, True, True], Periodic 3 100 101 3) \<and>
   should_send_image (Periodic 3 100 101 3) 4 13 = Inr (False, Periodic 3 100 101 0)"
proof -
  have "replicate 3 True = [True, True, True]" by (simp add: numeral_3_eq_3)
  then show ?thesis
    using live_stream_burst [of 0 1 3 2 "[(2, 11), (3, 12)]" 100 10 4 13]
    by (simp del: decisions.simps should_send_image.simps)
qed

section \<open>The array receiver\<close>

lemma array10_publish_sent:
  "array10_publish ser s = Inr (s\<lparr>a10_image_order := [],
     a10_sender := (a10_sender s)\<lparr>comm_sent := comm_sent (a10_sender s) @ map (\<lambda>(_, m). ser m) (a10_image_order s)\<rparr>\<rparr>)"
proof -
  have "forE (\<lambda>(pulse, m) c. Communicator_send c pulse (ser m) None) xs c =
      Inr (c\<lparr>comm_sent := comm_sent c @ map (\<lambda>(_, m). ser m) xs\<rparr>)" for xs c
    by (induction xs arbitrary: c) (auto simp: Communicator_send_def RamBuffer_write_def)
  then show ?thesis by (simp add: array10_publish_def)
qed

definition a10_ids :: "array10_state \<Rightarrow> u64 set" where
  "a10_ids s = fst ` set (a10_image_order s)"

definition a10_order_ok :: "array10_state \<Rightarrow> bool" where
  "a10_order_ok s \<longleftrightarrow> om_sorted (a10_image_order s) \<and> (\<forall>k v. (k, v) \<in> set (a10_image_order s) \<longrightarrow> im_image_id v = k)"

text \<open>What a pair of message parts announces.\<close>

definition announces :: "(byte list \<Rightarrow> u64 option) \<Rightarrow> byte list option \<times> byte list option \<Rightarrow> u64 \<Rightarrow> bool" where
  "announces frame_of recv f \<longleftrightarrow> (\<exists>h d. recv = (Some h, Some d) \<and> h \<noteq> [] \<and> d \<noteq> [] \<and> frame_of h = Some f)"

lemma in_om_emplace: "(a, b) \<in> set (om_emplace k v m) \<Longrightarrow> (a, b) \<in> set m \<or> (a, b) = (k, v)"
  by (auto simp: om_emplace_def in_om_assign split: if_splits)

lemma keys_om_emplace: "fst ` set (om_emplace k v m) = insert k (fst ` set m)"
  by (force simp: om_emplace_def om_assign_def om_find_None_notin)

lemma array10_receive_order:
  assumes "array10_receive frame_of n recv s = Inr s'" and "a10_order_ok s"
  shows "a10_order_ok s' \<and> comm_sent (a10_sender s') = comm_sent (a10_sender s) \<and>
    a10_ids s \<subseteq> a10_ids s' \<and>
    (\<forall>f. announces frame_of recv f \<longrightarrow> f \<in> a10_ids s')"
proof -
  have keep: "a10_order_ok s' \<and> comm_sent (a10_sender s') = comm_sent (a10_sender s) \<and>
      a10_ids s \<subseteq> a10_ids s'"
    if "a10_image_order s' = a10_image_order s \<or> (\<exists>meta. a10_image_order s' = om_emplace (im_image_id meta) meta (a10_image_order s))"
      "comm_sent (a10_sender s') = comm_sent (a10_sender s)"
    using that assms(2) om_sorted_emplace [of "a10_image_order s"]
    by (auto simp: a10_order_ok_def a10_ids_def keys_om_emplace dest!: in_om_emplace; force)
  obtain h d where recv: "recv = (h, d)" by (cases recv)
  show ?thesis
  proof (cases "h = None \<or> h = Some [] \<or> d = None \<or> d = Some []")
    case True
    then have "\<not> announces frame_of recv f" for f by (auto simp: recv announces_def)
    moreover have "a10_image_order s' = a10_image_order s" "comm_sent (a10_sender s') = comm_sent (a10_sender s)"
      using assms(1) True by (auto simp: recv array10_receive_def Let_def split: option.splits if_splits)
    ultimately show ?thesis using keep by blast
  next
    case False
    then obtain hd dt where hd: "h = Some hd" "hd \<noteq> []" "d = Some dt" "dt \<noteq> []" by auto
    define meta where "meta = (case frame_of hd of Some f \<Rightarrow> (a10_meta s)\<lparr>im_image_id := f\<rparr> | None \<Rightarrow> a10_meta s)"
    have s': "a10_image_order s' = om_emplace (im_image_id meta) meta (a10_image_order s)"
        "comm_sent (a10_sender s') = comm_sent (a10_sender s)"
      using assms(1) hd by (auto simp: recv array10_receive_def Let_def meta_def bindE_eq_Inr split: if_splits)
    moreover have "im_image_id meta = f" if "announces frame_of recv f" for f
      using that by (auto simp: announces_def recv hd meta_def)
    ultimately show ?thesis using keep by (auto simp: a10_ids_def keys_om_emplace)
  qed
qed

lemma array10_receives_order:
  assumes "forE (array10_receive frame_of n) recvs s = Inr s'" and "a10_order_ok s"
  shows "a10_order_ok s' \<and> comm_sent (a10_sender s') = comm_sent (a10_sender s) \<and>
    a10_ids s \<subseteq> a10_ids s' \<and>
    (\<forall>recv \<in> set recvs. \<forall>f. announces frame_of recv f \<longrightarrow> f \<in> a10_ids s')"
  using assms
proof (induction recvs arbitrary: s)
  case Nil
  then show ?case by simp
next
  case (Cons r recvs)
  then obtain u where u: "array10_receive frame_of n r s = Inr u" "forE (array10_receive frame_of n) recvs u = Inr s'"
    by (auto simp: bindE_eq_Inr)
  note first = array10_receive_order [OF u(1) Cons.prems(2)]
  note rest = Cons.IH [OF u(2) conjunct1 [OF first]]
  have "f \<in> a10_ids s'" if "recv \<in> set (r # recvs)" "announces frame_of recv f" for recv f
    using that first rest by auto
  moreover have "a10_ids s \<subseteq> a10_ids s'"
    using first rest by (blast intro: order_trans)
  ultimately show ?case using first rest by simp
qed

text \<open>In one turn of the array receiver the images that came in over the parallel connections are announced
  in strictly increasing order of their ids, none of them is forgotten and none is announced twice.\<close>

theorem array10_turn_in_order:
  assumes "array10_turn frame_of ser n recvs s = Inr s'" and "a10_image_order s = []"
  shows "\<exists>ms. comm_sent (a10_sender s') = comm_sent (a10_sender s) @ map ser ms \<and>
    sorted_wrt (<) (map im_image_id ms) \<and> a10_image_order s' = [] \<and>
    (\<forall>recv \<in> set recvs. \<forall>f. announces frame_of recv f \<longrightarrow> f \<in> im_image_id ` set ms)"
proof -
  obtain u where u: "forE (array10_receive frame_of n) recvs s = Inr u" "array10_publish ser u = Inr s'"
    using assms(1) by (auto simp: array10_turn_def bindE_eq_Inr)
  have "a10_order_ok s" using assms(2) by (simp add: a10_order_ok_def)
  note ok = array10_receives_order [OF u(1) this]
  let ?ms = "map snd (a10_image_order u)"
  have ids: "map im_image_id ?ms = map fst (a10_image_order u)"
    using ok by (auto simp: a10_order_ok_def)
  then have "im_image_id ` set ?ms = a10_ids u"
    unfolding a10_ids_def by (metis list.set_map)
  moreover have "comm_sent (a10_sender s') = comm_sent (a10_sender s) @ map ser ?ms" "a10_image_order s' = []"
    using u(2) ok by (auto simp: array10_publish_sent case_prod_beta)
  moreover have "sorted_wrt (<) (map im_image_id ?ms)" using ok unfolding ids by (simp add: a10_order_ok_def)
  ultimately show ?thesis using ok by (intro exI [of _ ?ms] conjI) (blast | simp)+
qed

definition a10_example :: array10_state where
  "a10_example = \<lparr>a10_meta = default_ImageMetadata, a10_image_order = [], a10_sender = slots_of (replicate 32 0),
     a10_stats = \<lparr>sc_detector_name = ''stage.GF'', sc_period = 10, sc_last_update_time = 0, processed_times = 0,
       source_suffix = [], previous_time = 0\<rparr>\<rparr>"

theorem array10_turn_in_order_witness:
  "\<exists>s' (ms :: ImageMetadata list). array10_turn (\<lambda>h. Some (ucast (h ! 0))) (\<lambda>m. u64_bytes (im_image_id m)) 32
      [(Some [9], Some [1, 2]), (Some [4], Some [3]), (None, None)] a10_example = Inr s' \<and>
    comm_sent (a10_sender s') = map (\<lambda>m. u64_bytes (im_image_id m)) ms \<and> sorted_wrt (<) (map im_image_id ms) \<and>
    9 \<in> im_image_id ` set ms \<and> 4 \<in> im_image_id ` set ms"
proof -
  let ?f = "\<lambda>h :: byte list. Some (ucast (h ! 0) :: u64)" and ?ser = "\<lambda>m. u64_bytes (im_image_id m)"
  let ?r = "[(Some [9], Some [1, 2]), (Some [4], Some [3]), (None, None)]"
  have "is_ok (array10_turn ?f ?ser 32 ?r a10_example)" by code_simp
  then obtain s' where s': "array10_turn ?f ?ser 32 ?r a10_example = Inr s'" by (auto elim: is_okE)
  have a: "announces ?f (Some [9], Some [1, 2]) 9" "announces ?f (Some [4], Some [3]) 4" by (simp_all add: announces_def)
  have "a10_image_order a10_example = []" by (simp add: a10_example_def)
  from array10_turn_in_order [OF s' this] obtain ms :: "ImageMetadata list" where
    "comm_sent (a10_sender s') = comm_sent (a10_sender a10_example) @ map ?ser ms"
    "sorted_wrt (<) (map im_image_id ms)"
    and ids: "\<forall>recv \<in> set ?r. \<forall>f. announces ?f recv f \<longrightarrow> f \<in> im_image_id ` set ms"
    by blast
  moreover have "9 \<in> im_image_id ` set ms" "4 \<in> im_image_id ` set ms" using ids a by simp_all
  moreover have "comm_sent (a10_sender a10_example) = []" by (simp add: a10_example_def slots_of_def)
  ultimately show ?thesis using s' by (intro exI [of _ s'] exI [of _ ms]) simp
qed

text \<open>A header that the JSON parser rejects leaves the id of the previous image in place: the data
  overwrite the slot of that image, and its id is announced again.\<close>

lemma array10_bad_header:
  assumes "frame_of h = None" and "h \<noteq> []" and "length h \<le> n + 8"
    and "array10_receive frame_of n (Some h, Some d) s = Inr s'" and "d \<noteq> []"
  shows "im_image_id (a10_meta s) \<in> a10_ids s'"
  using assms by (auto simp: array10_receive_def Let_def bindE_eq_Inr keys_om_emplace a10_ids_def
    split: if_splits)

text \<open>The statistics of a stream sender compare the result of \<open>zmq_send\<close> with zero, but a failure is
  \<open>- 1\<close>: no failed send is ever counted.\<close>

lemma failed_sends_not_counted: "count_failed_sends (- 1) (- 1) = 0"
  by (simp add: count_failed_sends_def)

end
