(* ===== verification/DetWriter.thy ===== *)
theory DetWriter
  imports DetDriver Streams
begin

text \<open>
  \<open>std-det-writer\<close>: a writer process takes the commands of the driver and writes the images of its
  share into an HDF5 file, one row per image in the datasets \<open>data\<close> and \<open>metadata\<close>.

  HDF5 is third-party: the calls are the fields of an \<open>h5_api\<close> given as an argument. \<open>h5_ok\<close> says
  which of the calls that only prepare something succeed, by the name of the call; the datasets
  are values of abstract types with an extent, and the documented behaviour that the code relies on
  is the hypothesis \<open>h5_laws\<close>.
\<close>

section \<open>HDF5\<close>

record ('d, 'r) h5_dataset_api =
  d_new :: 'd \<comment> \<open>a dataset of extent 0, without a limit\<close>
  d_extent :: "'d \<Rightarrow> u64"
  d_set_extent :: "'d \<Rightarrow> u64 \<Rightarrow> 'd option"
  d_write :: "'d \<Rightarrow> u64 \<Rightarrow> 'r \<Rightarrow> 'd option"
  d_row :: "'d \<Rightarrow> u64 \<Rightarrow> 'r option"

record ('d, 'e) h5_api =
  h5_ok :: "string \<Rightarrow> bool"
  h5_set_chunk :: "u64 \<Rightarrow> bool"
  h5_image :: "('d, byte list) h5_dataset_api"
  h5_meta :: "('e, u64 \<times> u64) h5_dataset_api"

definition h5_check :: "('d, 'e) h5_api \<Rightarrow> string \<Rightarrow> string \<Rightarrow> unit res" where
  "h5_check api call msg = (if h5_ok api call then Inr () else Inl (RuntimeError msg))"

definition from_h5 :: "'a option \<Rightarrow> string \<Rightarrow> 'a res" where
  "from_h5 x msg = (case x of None \<Rightarrow> Inl (RuntimeError msg) | Some y \<Rightarrow> Inr y)"

section \<open>\<open>HDF5File\<close>\<close>

record ('d, 'e) HDF5File =
  hf_bitshuffle :: bool
  hf_height :: u64
  hf_width :: u64
  hf_bit_depth :: u64
  hf_image_size :: u64
  hf_gpfs_block_size :: u64
  hf_index :: int
  hf_image_ds :: 'd
  hf_metadata_ds :: 'e

definition h5_metadata_size :: u64 where "h5_metadata_size = 16"

definition h5_get_datatype :: "u64 \<Rightarrow> nat res" where
  "h5_get_datatype depth =
     (if depth = 8 then Inr 1 else if depth = 16 then Inr 2 else if depth = 32 then Inr 4
      else Inl (RuntimeError (''Unsupported bits per pixel: '' @ to_string depth)))"

definition images_per_chunk :: "('d, 'e) HDF5File \<Rightarrow> u64 res" where
  "images_per_chunk f = u64_div (hf_gpfs_block_size f) (hf_image_size f)"

definition records_per_chunk :: "('d, 'e) HDF5File \<Rightarrow> u64" where
  "records_per_chunk f = hf_gpfs_block_size f div h5_metadata_size"

definition h5_create_file :: "('d, 'e) h5_api \<Rightarrow> string \<Rightarrow> unit res" where
  "h5_create_file api filename =
     bindE (h5_check api ''H5Pcreate(H5P_FILE_ACCESS)'' ''Error in file access property list.'') (\<lambda>_.
     bindE (h5_check api ''H5Pset_alignment'' ''Cannot set alignment to property list.'') (\<lambda>_.
     bindE (h5_check api ''H5Pcreate(H5P_FILE_CREATE)'' ''Error in file access property list.'') (\<lambda>_.
     bindE (h5_check api ''H5Pset_istore_k'' ''Cannot set btree size.'') (\<lambda>_.
     h5_check api (''H5Fcreate '' @ filename) ''Cannot create output file.''))))"

text \<open>The result of \<open>H5Pset_chunk\<close> is not checked here; a chunk size that HDF5 rejects makes the creation fail.\<close>

definition h5_create_metadata_dataset :: "('d, 'e) h5_api \<Rightarrow> ('d, 'e) HDF5File \<Rightarrow> 'e res" where
  "h5_create_metadata_dataset api f =
     bindE (h5_check api ''H5Screate_simple(metadata)'' ''Cannot create meta dataset space.'') (\<lambda>_.
     if h5_set_chunk api (records_per_chunk f) \<and> h5_ok api ''H5Dcreate(metadata)'' then Inr (d_new (h5_meta api))
     else Inl (RuntimeError ''Cannot create metadata dataset.''))"

definition h5_create_image_dataset :: "('d, 'e) h5_api \<Rightarrow> ('d, 'e) HDF5File \<Rightarrow> 'd res" where
  "h5_create_image_dataset api f =
     bindE (h5_check api ''H5Pcreate(H5P_DATASET_CREATE)'' ''Error in creating dataset create property list.'') (\<lambda>_.
     bindE (images_per_chunk f) (\<lambda>n.
     if \<not> h5_set_chunk api n then Inl (RuntimeError ''Cannot set image dataset chunking.'')
     else bindE (h5_check api ''H5Screate_simple(data)'' ''Cannot create image dataset space.'') (\<lambda>_.
          bindE (if hf_bitshuffle f then h5_check api ''H5Pset_filter'' ''Cannot set compression filter on dataset.''
                 else Inr ()) (\<lambda>_.
          bindE (h5_check api ''H5Pset_chunk_cache'' ''Failed to set chunk cache for dataset access.'') (\<lambda>_.
          bindE (h5_get_datatype (hf_bit_depth f)) (\<lambda>_.
          bindE (h5_check api ''H5Dcreate(data)'' ''Cannot create image dataset.'') (\<lambda>_.
          Inr (d_new (h5_image api)))))))))"

definition HDF5File_ctor ::
  "('d, 'e) h5_api \<Rightarrow> DetectorConfig \<Rightarrow> string \<Rightarrow> string \<Rightarrow> ('d, 'e) HDF5File res" where
  "HDF5File_ctor api config filename suffix =
     bindE (converted_image_n_bytes config) (\<lambda>image_size.
     let f = \<lparr>hf_bitshuffle = (suffix = ''h5bitshuffle-lz4''),
              hf_height = word_of_int (image_pixel_height config), hf_width = word_of_int (image_pixel_width config),
              hf_bit_depth = word_of_int (bit_depth config), hf_image_size = image_size,
              hf_gpfs_block_size = word_of_int (gpfs_block_size config), hf_index = - 1,
              hf_image_ds = d_new (h5_image api), hf_metadata_ds = d_new (h5_meta api)\<rparr>
     in bindE (h5_create_file api filename) (\<lambda>_.
        bindE (h5_check api ''H5Gcreate'' ''Cannot create data group.'') (\<lambda>_.
        bindE (h5_create_metadata_dataset api f) (\<lambda>e.
        bindE (h5_create_image_dataset api f) (\<lambda>d.
        Inr (f\<lparr>hf_metadata_ds := e, hf_image_ds := d\<rparr>))))))"

text \<open>\<open>status\<close> of the metadata is the number of the enumerator.\<close>

definition status_number :: "ImageMetadataStatus \<Rightarrow> u64" where
  "status_number s = (case s of st_undefined \<Rightarrow> 0 | st_good_image \<Rightarrow> 1 | st_missing_packets \<Rightarrow> 2 | st_id_missmatch \<Rightarrow> 3)"

definition h5_write_meta :: "('d, 'e) h5_api \<Rightarrow> ImageMetadata \<Rightarrow> ('d, 'e) HDF5File \<Rightarrow> ('d, 'e) HDF5File res" where
  "h5_write_meta api meta f =
     (let required_index = word_of_int (hf_index f + 1) :: u64; ds = hf_metadata_ds f in
      bindE (h5_check api ''H5Dget_space(metadata)'' ''Cannot get metadata dataset file dataspace.'') (\<lambda>_.
      bindE (h5_check api ''H5Sget_simple_extent_dims'' ''Failed to get dataset dimensions.'') (\<lambda>_.
      if \<not> int_ok (hf_index f + 1) then Inl (Undefined ''signed overflow'') else
      bindE (if required_index > d_extent (h5_meta api) ds
             then if records_per_chunk f = 0 then Inl (Undefined ''division by zero'')
                  else from_h5 (d_set_extent (h5_meta api) ds
                         ((required_index div records_per_chunk f + 1) * records_per_chunk f)) ''Failed to extend dataset.''
             else Inr ds) (\<lambda>ds1.
      bindE (h5_check api ''H5Screate_simple(ram)'' ''Cannot create metadata ram dataspace.'') (\<lambda>_.
      bindE (h5_check api ''H5Sselect_hyperslab'' ''Cannot select metadata dataset file hyperslab.'') (\<lambda>_.
      bindE (from_h5 (d_write (h5_meta api) ds1 (word_of_int (hf_index f))
               (im_image_id meta, status_number (im_status meta))) ''Failed to write metadata.'') (\<lambda>ds2.
      Inr (f\<lparr>hf_metadata_ds := ds2\<rparr>))))))))"

definition h5_write_image :: "('d, 'e) h5_api \<Rightarrow> byte list \<Rightarrow> ('d, 'e) HDF5File \<Rightarrow> ('d, 'e) HDF5File res" where
  "h5_write_image api row f =
     (let index = word_of_int (hf_index f) :: u64; ds = hf_image_ds f in
      bindE (h5_check api ''H5Dget_space(data)'' ''Cannot get image dataset dataspace.'') (\<lambda>_.
      bindE (h5_check api ''H5Sget_simple_extent_dims'' ''Failed to get dataset dimensions.'') (\<lambda>_.
      bindE (if index \<ge> d_extent (h5_image api) ds
             then bindE (images_per_chunk f) (\<lambda>n.
                  from_h5 (d_set_extent (h5_image api) ds (index + n)) ''Failed to extend dataset.'')
             else Inr ds) (\<lambda>ds1.
      bindE (h5_check api ''H5Screate_simple(ram)'' ''Cannot create metadata ram dataspace.'') (\<lambda>_.
      bindE (h5_check api ''H5Sselect_hyperslab'' ''Cannot select metadata dataset file hyperslab.'') (\<lambda>_.
      bindE (h5_get_datatype (hf_bit_depth f)) (\<lambda>_.
      bindE (from_h5 (d_write (h5_image api) ds1 index row) ''Cannot write data to image dataset.'') (\<lambda>ds2.
      Inr (f\<lparr>hf_image_ds := ds2\<rparr>)))))))))"

definition HDF5File_write ::
  "('d, 'e) h5_api \<Rightarrow> ImageMetadata \<Rightarrow> byte list \<Rightarrow> ('d, 'e) HDF5File \<Rightarrow> ('d, 'e) HDF5File res" where
  "HDF5File_write api meta row f =
     (if \<not> int_ok (hf_index f + 1) then Inl (Undefined ''signed overflow'')
      else let f1 = f\<lparr>hf_index := hf_index f + 1\<rparr> in bindE (h5_write_meta api meta f1) (h5_write_image api row))"

text \<open>The destructor: the datasets are cut to the images written, unless there is only one. A call that
  fails is ignored.\<close>

definition HDF5File_close :: "('d, 'e) h5_api \<Rightarrow> ('d, 'e) HDF5File \<Rightarrow> 'd \<times> 'e" where
  "HDF5File_close api f =
     (let n = word_of_int (hf_index f) + 1 :: u64;
          cut = (\<lambda>d x. case d_set_extent d x n of Some y \<Rightarrow> y | None \<Rightarrow> x);
          cut' = (\<lambda>d x. case d_set_extent d x n of Some y \<Rightarrow> y | None \<Rightarrow> x)
      in if hf_index f > 0 then (cut (h5_image api) (hf_image_ds f), cut' (h5_meta api) (hf_metadata_ds f))
         else (hf_image_ds f, hf_metadata_ds f))"

section \<open>The loop of the process\<close>

text \<open>\<open>seteuid\<close> of the operating system is an argument.\<close>

definition switch_user :: "bool \<Rightarrow> (u32 \<Rightarrow> int) \<Rightarrow> u32 \<Rightarrow> bool" where
  "switch_user user_switch_active seteuid uid = (user_switch_active \<longrightarrow> seteuid uid \<noteq> - 1)"

definition switch_writer_user :: "bool \<Rightarrow> (u32 \<Rightarrow> int) \<Rightarrow> u32 \<Rightarrow> bool" where
  "switch_writer_user user_switch_active seteuid uid \<longleftrightarrow> uid = 0 \<or> switch_user user_switch_active seteuid uid"

text \<open>The effective user of the process after \<open>seteuid\<close>, which leaves it alone when it fails, and after
  the two operations of the class.\<close>

definition seteuid_effect :: "bool \<Rightarrow> (u32 \<Rightarrow> int) \<Rightarrow> u32 \<Rightarrow> u32 \<Rightarrow> u32" where
  "seteuid_effect user_switch_active seteuid uid euid =
     (if user_switch_active \<and> seteuid uid \<noteq> - 1 then uid else euid)"

definition switch_writer_user_effect :: "bool \<Rightarrow> (u32 \<Rightarrow> int) \<Rightarrow> u32 \<Rightarrow> u32 \<Rightarrow> u32" where
  "switch_writer_user_effect user_switch_active seteuid uid euid =
     (if uid = 0 then euid else seteuid_effect user_switch_active seteuid uid euid)"

definition switch_to_root_effect :: "bool \<Rightarrow> (u32 \<Rightarrow> int) \<Rightarrow> u32 \<Rightarrow> u32" where
  "switch_to_root_effect user_switch_active seteuid euid = seteuid_effect user_switch_active seteuid 0 euid"

text \<open>The replies are those passed to \<open>zmq_send\<close>. The statistics are those of theory \<open>Stats\<close>; nothing depends
  on them.\<close>

record ('d, 'e) writer_process =
  wp_file :: "('d, 'e) HDF5File option"
  wp_closed :: "('d \<times> 'e) list" \<comment> \<open>the files written so far\<close>
  wp_replies :: "WriterResponse list"
  wp_euid :: u32

definition close_file :: "('d, 'e) h5_api \<Rightarrow> ('d, 'e) writer_process \<Rightarrow> ('d, 'e) writer_process" where
  "close_file api w = (case wp_file w of None \<Rightarrow> w
     | Some f \<Rightarrow> w\<lparr>wp_file := None, wp_closed := wp_closed w @ [HDF5File_close api f]\<rparr>)"

definition writer_action ::
  "('d, 'e) h5_api \<Rightarrow> (u32 \<Rightarrow> int) \<Rightarrow> DetectorConfig \<Rightarrow> string \<Rightarrow> RamBuffer \<Rightarrow> WriterAction \<Rightarrow>
   ('d, 'e) writer_process \<Rightarrow> ('d, 'e) writer_process res" where
  "writer_action api seteuid config suffix rb action w =
     (case action of
        CreateFile c \<Rightarrow>
          if \<not> switch_writer_user (switch_user_active config) seteuid (cfc_writer_id c) then Inr w
          else let w1 = w\<lparr>wp_euid := switch_writer_user_effect (switch_user_active config) seteuid (cfc_writer_id c) (wp_euid w)\<rparr>
               in (case HDF5File_ctor api config (cfc_path c) suffix of
                  Inr f \<Rightarrow> Inr ((close_file api w1)\<lparr>wp_file := Some f, wp_replies := wp_replies w @ [good_reply]\<rparr>)
                | Inl (RuntimeError e) \<Rightarrow>
                    Inr (w1\<lparr>wp_replies := wp_replies w @ [\<lparr>wr_code = FAILURE, wr_reason = e\<rparr>]\<rparr>)
                | Inl e \<Rightarrow> Inl e)
      | RecordImage meta \<Rightarrow>
          (case wp_file w of
             None \<Rightarrow> Inl (Undefined ''null pointer'')
           | Some f \<Rightarrow>
               bindE (get_data rb (im_image_id meta)) (\<lambda>p.
               bindE (h5_get_datatype (hf_bit_depth f)) (\<lambda>b.
               bindE (read_bytes rb (unat p) (unat (hf_height f) * unat (hf_width f) * b)) (\<lambda>row.
               bindE (HDF5File_write api meta row f) (\<lambda>f'. Inr (w\<lparr>wp_file := Some f'\<rparr>))))))
      | CloseFile \<Rightarrow>
          Inr ((close_file api w)\<lparr>wp_euid := switch_to_root_effect (switch_user_active config) seteuid (wp_euid w),
                                 wp_replies := wp_replies w @ [good_reply]\<rparr>)
      | ConfirmLastImage \<Rightarrow> Inr (w\<lparr>wp_replies := wp_replies w @ [good_reply]\<rparr>))"

section \<open>What the code relies on\<close>

text \<open>The documented behaviour of a dataset: setting the extent keeps the rows that remain, writing a row
  below the extent changes that row only. A chunk size that is not zero is accepted.\<close>

definition dataset_laws :: "('d, 'r) h5_dataset_api \<Rightarrow> bool" where
  "dataset_laws a \<longleftrightarrow> d_extent a (d_new a) = 0 \<and>
     (\<forall>d n. \<exists>d'. d_set_extent a d n = Some d' \<and> d_extent a d' = n \<and>
        (\<forall>i. i < n \<and> i < d_extent a d \<longrightarrow> d_row a d' i = d_row a d i)) \<and>
     (\<forall>d i r. i < d_extent a d \<longrightarrow> (\<exists>d'. d_write a d i r = Some d' \<and> d_extent a d' = d_extent a d \<and>
        d_row a d' i = Some r \<and> (\<forall>j. j \<noteq> i \<longrightarrow> d_row a d' j = d_row a d j)))"

definition h5_laws :: "('d, 'e) h5_api \<Rightarrow> bool" where
  "h5_laws api \<longleftrightarrow> (\<forall>call. h5_ok api call) \<and> (\<forall>n > 0. h5_set_chunk api n) \<and>
     dataset_laws (h5_image api) \<and> dataset_laws (h5_meta api)"

section \<open>The rows of a file\<close>

definition holds_rows :: "('d, 'r) h5_dataset_api \<Rightarrow> 'd \<Rightarrow> 'r list \<Rightarrow> bool" where
  "holds_rows a d rs \<longleftrightarrow> length rs \<le> unat (d_extent a d) \<and>
     (\<forall>i < length rs. d_row a d (word_of_nat i) = Some (rs ! i))"

lemma unat_of_nat_u64: "n < 2 ^ 64 \<Longrightarrow> unat (word_of_nat n :: u64) = n"
  by (simp only: unat_of_nat) (simp add: take_bit_nat_eq_self)

text \<open>Appending a row: the extent is raised when it is reached, and the row is written behind the others.\<close>

lemma append_row:
  assumes laws: "dataset_laws a" and rs: "holds_rows a d rs" "length rs < 2 ^ 32"
    and ext: "(\<exists>n. d_set_extent a d n = Some d1 \<and> length rs < unat n) \<or> d1 = d \<and> length rs < unat (d_extent a d)"
  shows "\<exists>d2. d_write a d1 (word_of_nat (length rs)) r = Some d2 \<and> holds_rows a d2 (rs @ [r])"
proof -
  have len: "unat (word_of_nat i :: u64) = i" if "i \<le> length rs" for i
    using rs(2) that by (intro unat_of_nat_u64) simp
  have d1: "holds_rows a d1 rs \<and> length rs < unat (d_extent a d1)"
    using ext
  proof (elim disjE exE conjE)
    fix n assume n: "d_set_extent a d n = Some d1" "length rs < unat n"
    then have "d_extent a d1 = n" "\<And>i. i < n \<Longrightarrow> i < d_extent a d \<Longrightarrow> d_row a d1 i = d_row a d i"
      using laws unfolding dataset_laws_def by (metis option.inject)+
    then show ?thesis using n(2) rs(1) len by (auto simp: holds_rows_def word_less_nat_alt)
  qed (use rs in simp)
  then have "word_of_nat (length rs) < d_extent a d1" using len by (simp add: word_less_nat_alt)
  then obtain d2 where d2: "d_write a d1 (word_of_nat (length rs)) r = Some d2" "d_extent a d2 = d_extent a d1"
    "d_row a d2 (word_of_nat (length rs)) = Some r"
    "\<And>j. j \<noteq> word_of_nat (length rs) \<Longrightarrow> d_row a d2 j = d_row a d1 j"
    using laws unfolding dataset_laws_def by metis
  have "word_of_nat i \<noteq> (word_of_nat (length rs) :: u64)" if "i < length rs" for i
    using len [of i] len [of "length rs"] that by auto
  then have "holds_rows a d2 (rs @ [r])"
    using d1 d2 by (auto simp: holds_rows_def nth_append less_Suc_eq)
  then show ?thesis using d2(1) by blast
qed

definition file_holds :: "('d, 'e) h5_api \<Rightarrow> ('d, 'e) HDF5File \<Rightarrow> byte list list \<Rightarrow> (u64 \<times> u64) list \<Rightarrow> bool" where
  "file_holds api f rows metas \<longleftrightarrow> hf_index f = int (length rows) - 1 \<and> length metas = length rows \<and>
     holds_rows (h5_image api) (hf_image_ds f) rows \<and> holds_rows (h5_meta api) (hf_metadata_ds f) metas"

text \<open>The parameters of a file that can be written: a block of the file system has room for an image and
  for a metadata record.\<close>

definition file_ok :: "('d, 'e) HDF5File \<Rightarrow> bool" where
  "file_ok f \<longleftrightarrow> 0 < hf_image_size f \<and> hf_image_size f \<le> hf_gpfs_block_size f \<and> 16 \<le> hf_gpfs_block_size f \<and>
     unat (hf_gpfs_block_size f) < 2 ^ 31 \<and> hf_bit_depth f \<in> {8, 16, 32}"

lemma meta_extent:
  fixes r :: u64
  assumes "0 < unat r" and "unat r < 2 ^ 31" and "n < 2 ^ 31"
  shows "n < unat ((word_of_nat (Suc n) div r + 1) * r)"
proof -
  let ?q = "Suc n div unat r"
  have q: "?q * unat r \<le> Suc n" by (rule div_times_less_eq_dividend)
  have lt: "Suc n < ?q * unat r + unat r" using assms(1) by (metis add.commute dividend_less_div_times)
  have "?q \<le> 2147483648" by (rule le_trans [OF div_le_dividend]) (use assms(3) in simp)
  then have "?q + 1 < 2 ^ 64" by simp
  moreover have "unat (word_of_nat (Suc n) div r) = ?q"
    using assms(3) unat_of_nat_u64 [of "Suc n"] by (simp add: unat_div del: of_nat_Suc)
  ultimately have "unat (word_of_nat (Suc n) div r + 1) = ?q + 1"
    using unat_add_no_wrap [of "word_of_nat (Suc n) div r" 1] by simp
  moreover have "(?q + 1) * unat r < 2 ^ 64"
  proof -
    have "(?q + 1) * unat r = ?q * unat r + unat r" by simp
    also have "\<dots> \<le> Suc n + unat r" using q by (rule add_le_mono1)
    also have "\<dots> < 2 ^ 64" using assms(2,3) by simp
    finally show ?thesis .
  qed
  ultimately have "unat ((word_of_nat (Suc n) div r + 1) * r) = (?q + 1) * unat r"
    by (metis unat_mult_no_wrap)
  then show ?thesis using lt by (simp add: algebra_simps)
qed

lemma image_extent:
  fixes c :: u64
  assumes "0 < unat c" and "unat c < 2 ^ 31" and "n < 2 ^ 31"
  shows "n < unat (word_of_nat n + c)"
  using assms unat_of_nat_u64 [of n] by (subst unat_add_no_wrap) simp_all

text \<open>Appending a record to a dataset that grows by whole chunks of \<open>r\<close> records, and cutting a dataset to its
  rows.\<close>

lemma append_record:
  fixes r :: u64
  assumes "dataset_laws a" and "holds_rows a ds rs" and "length rs < 2 ^ 31" and "0 < unat r" and "unat r < 2 ^ 31"
  shows "\<exists>ds1 e. (if word_of_nat (Suc (length rs)) > d_extent a ds
      then d_set_extent a ds ((word_of_nat (Suc (length rs)) div r + 1) * r) = Some ds1 else ds1 = ds) \<and>
    d_write a ds1 (word_of_nat (length rs)) x = Some e \<and> holds_rows a e (rs @ [x])"
proof -
  let ?n = "Suc (length rs)" and ?E = "(word_of_nat (Suc (length rs)) div r + 1) * r"
  obtain d1 where d1: "d_set_extent a ds ?E = Some d1" using assms(1) by (auto simp: dataset_laws_def) (metis option.exhaust option.distinct(1))
  define ds1 where "ds1 = (if word_of_nat ?n > d_extent a ds then d1 else ds)"
  have "(\<exists>y. d_set_extent a ds y = Some ds1 \<and> length rs < unat y) \<or> ds1 = ds \<and> length rs < unat (d_extent a ds)"
    using d1 meta_extent [OF assms(4,5,3)] assms(3) unat_of_nat_u64 [of ?n]
    by (auto simp: ds1_def word_less_nat_alt not_less simp del: of_nat_Suc)
  from append_row [OF assms(1,2) _ this, of x] assms(3)
  obtain e where "d_write a ds1 (word_of_nat (length rs)) x = Some e" "holds_rows a e (rs @ [x])" by auto
  then show ?thesis using d1 by (intro exI [of _ ds1] exI [of _ e]) (simp add: ds1_def del: of_nat_Suc)
qed

lemma cut_rows:
  assumes "dataset_laws a" and "holds_rows a x rs" and "length rs < 2 ^ 31"
    and "d_set_extent a x (word_of_nat (length rs)) = Some x'"
  shows "holds_rows a x' rs \<and> unat (d_extent a x') = length rs"
proof -
  let ?n = "word_of_nat (length rs) :: u64"
  have ext: "d_extent a x' = ?n" and keep: "\<And>i. i < ?n \<Longrightarrow> i < d_extent a x \<Longrightarrow> d_row a x' i = d_row a x i"
    using assms(1,4) unfolding dataset_laws_def by (metis option.inject)+
  have "unat (word_of_nat i :: u64) = i" if "i \<le> length rs" for i
    using that assms(3) by (intro unat_of_nat_u64) simp
  then show ?thesis using assms(2) ext keep by (auto simp: holds_rows_def word_less_nat_alt)
qed

lemma file_ok_chunks:
  assumes "file_ok f"
  shows "\<exists>c. images_per_chunk f = Inr c \<and> 0 < unat c \<and> unat c < 2 ^ 31"
    and "0 < unat (records_per_chunk f)" "unat (records_per_chunk f) < 2 ^ 31"
proof -
  have le: "unat (hf_image_size f) \<le> unat (hf_gpfs_block_size f)" "0 < unat (hf_image_size f)"
    "16 \<le> unat (hf_gpfs_block_size f)" "unat (hf_gpfs_block_size f) < 2 ^ 31" "hf_image_size f \<noteq> 0"
    using assms by (auto simp: file_ok_def word_le_nat_alt word_less_nat_alt)
  have "unat (hf_gpfs_block_size f) div unat (hf_image_size f) < 2 ^ 31"
    "unat (hf_gpfs_block_size f) div 16 < 2 ^ 31"
    using le(4) by (meson div_le_dividend le_less_trans)+
  with le show "\<exists>c. images_per_chunk f = Inr c \<and> 0 < unat c \<and> unat c < 2 ^ 31"
    and "0 < unat (records_per_chunk f)" "unat (records_per_chunk f) < 2 ^ 31"
    by (auto simp: images_per_chunk_def u64_div_def records_per_chunk_def h5_metadata_size_def unat_div div_greater_zero_iff)
qed

lemma write_meta_appends:
  assumes laws: "h5_laws api" and ok: "file_ok f" and hf: "hf_index f = int (length metas)"
    and rows: "holds_rows (h5_meta api) (hf_metadata_ds f) metas" and n: "length metas < 2 ^ 31 - 1"
  shows "\<exists>e. h5_write_meta api m f = Inr (f\<lparr>hf_metadata_ds := e\<rparr>) \<and>
    holds_rows (h5_meta api) e (metas @ [(im_image_id m, status_number (im_status m))])"
proof -
  let ?a = "h5_meta api" and ?ds = "hf_metadata_ds f" and ?x = "(im_image_id m, status_number (im_status m))"
  have la: "dataset_laws ?a" and calls: "\<And>c. h5_ok api c" using laws by (simp_all add: h5_laws_def)
  have idx: "word_of_int (hf_index f + 1) = (word_of_nat (Suc (length metas)) :: u64)"
    "word_of_int (hf_index f) = (word_of_nat (length metas) :: u64)" by (simp_all add: hf)
  have r0: "records_per_chunk f \<noteq> 0" using file_ok_chunks(2) [OF ok] by auto
  obtain ds1 e where e: "if word_of_nat (Suc (length metas)) > d_extent ?a ?ds
      then d_set_extent ?a ?ds ((word_of_nat (Suc (length metas)) div records_per_chunk f + 1) * records_per_chunk f) = Some ds1
      else ds1 = ?ds" "d_write ?a ds1 (word_of_nat (length metas)) ?x = Some e" "holds_rows ?a e (metas @ [?x])"
    using append_record [OF la rows less_trans [OF n] file_ok_chunks(2,3) [OF ok]] by fastforce
  have "int_ok (hf_index f + 1)" using n by (simp add: hf int_ok_iff)
  then have "h5_write_meta api m f = Inr (f\<lparr>hf_metadata_ds := e\<rparr>)"
    using e(1,2) r0 calls unfolding h5_write_meta_def idx Let_def
    by (simp add: h5_check_def from_h5_def del: of_nat_Suc split: if_splits)
  then show ?thesis using e(3) by blast
qed

lemma write_image_appends:
  assumes laws: "h5_laws api" and ok: "file_ok f" and hf: "hf_index f = int (length rows)"
    and rows: "holds_rows (h5_image api) (hf_image_ds f) rows" and n: "length rows < 2 ^ 31"
  shows "\<exists>d. h5_write_image api row f = Inr (f\<lparr>hf_image_ds := d\<rparr>) \<and> holds_rows (h5_image api) d (rows @ [row])"
proof -
  let ?a = "h5_image api" and ?ds = "hf_image_ds f" and ?i = "word_of_nat (length rows) :: u64"
  have la: "dataset_laws ?a" and calls: "\<And>c. h5_ok api c" using laws by (simp_all add: h5_laws_def)
  have idx: "word_of_int (hf_index f) = ?i" by (simp add: hf)
  obtain c where c: "images_per_chunk f = Inr c" "0 < unat c" "unat c < 2 ^ 31"
    using file_ok_chunks(1) [OF ok] by blast
  obtain d1 where d1: "d_set_extent ?a ?ds (?i + c) = Some d1"
    using la by (auto simp: dataset_laws_def) (metis option.exhaust option.distinct(1))
  obtain b where b: "h5_get_datatype (hf_bit_depth f) = Inr b"
    using ok by (auto simp: file_ok_def h5_get_datatype_def)
  define ds1 where "ds1 = (if ?i \<ge> d_extent ?a ?ds then d1 else ?ds)"
  have "(\<exists>x. d_set_extent ?a ?ds x = Some ds1 \<and> length rows < unat x) \<or> ds1 = ?ds \<and> length rows < unat (d_extent ?a ?ds)"
    using d1 image_extent [OF c(2,3) n] n unat_of_nat_u64 [of "length rows"]
    by (auto simp: ds1_def word_le_nat_alt not_le)
  from append_row [OF la rows _ this, of row] n
  obtain d where d: "d_write ?a ds1 ?i row = Some d" "holds_rows ?a d (rows @ [row])" by auto
  have "h5_write_image api row f = Inr (f\<lparr>hf_image_ds := d\<rparr>)"
    using d(1) d1 c(1) b calls unfolding h5_write_image_def idx Let_def
    by (simp add: h5_check_def ds1_def from_h5_def split: if_splits)
  then show ?thesis using d(2) by blast
qed

lemma HDF5File_write_appends:
  assumes "h5_laws api" and "file_ok f" and "file_holds api f rows metas" and "length rows < 2 ^ 31 - 1"
  shows "\<exists>f'. HDF5File_write api m row f = Inr f' \<and> file_ok f' \<and>
    file_holds api f' (rows @ [row]) (metas @ [(im_image_id m, status_number (im_status m))]) \<and>
    hf_height f' = hf_height f \<and> hf_width f' = hf_width f \<and> hf_bit_depth f' = hf_bit_depth f"
proof -
  define f1 where "f1 = f\<lparr>hf_index := int (length rows)\<rparr>"
  have f1: "file_ok f1" "hf_index f1 = int (length metas)" "length metas = length rows" "length metas < 2 ^ 31 - 1"
    "holds_rows (h5_meta api) (hf_metadata_ds f1) metas" "holds_rows (h5_image api) (hf_image_ds f1) rows"
    using assms(2-4) by (simp_all add: f1_def file_ok_def file_holds_def)
  obtain e where e: "h5_write_meta api m f1 = Inr (f1\<lparr>hf_metadata_ds := e\<rparr>)"
    "holds_rows (h5_meta api) e (metas @ [(im_image_id m, status_number (im_status m))])"
    using write_meta_appends [OF assms(1) f1(1,2,5,4)] by blast
  let ?f2 = "f1\<lparr>hf_metadata_ds := e\<rparr>"
  have f2: "file_ok ?f2" "hf_index ?f2 = int (length rows)" "holds_rows (h5_image api) (hf_image_ds ?f2) rows"
    "length rows < 2 ^ 31"
    using f1 by (simp_all add: file_ok_def)
  obtain d where d: "h5_write_image api row ?f2 = Inr (?f2\<lparr>hf_image_ds := d\<rparr>)" "holds_rows (h5_image api) d (rows @ [row])"
    using write_image_appends [OF assms(1) f2] by blast
  have "int_ok (hf_index f + 1)" "f\<lparr>hf_index := hf_index f + 1\<rparr> = f1"
    using assms(3,4) by (simp_all add: file_holds_def int_ok_iff f1_def)
  then have "HDF5File_write api m row f = Inr (?f2\<lparr>hf_image_ds := d\<rparr>)"
    using e(1) d(1) by (simp add: HDF5File_write_def Let_def)
  moreover have "file_holds api (?f2\<lparr>hf_image_ds := d\<rparr>) (rows @ [row]) (metas @ [(im_image_id m, status_number (im_status m))])"
    using f1(2,3) e(2) d(2) by (simp add: file_holds_def)
  moreover have "file_ok (?f2\<lparr>hf_image_ds := d\<rparr>)" using f2(1) by (simp add: file_ok_def)
  ultimately show ?thesis by (simp add: f1_def)
qed

text \<open>Closing keeps the rows; it cuts the datasets to their number when there are at least two.\<close>

lemma HDF5File_close_rows:
  assumes "h5_laws api" and "file_holds api f rows metas" and "length rows < 2 ^ 31"
    and "HDF5File_close api f = (d, e)"
  shows "holds_rows (h5_image api) d rows \<and> holds_rows (h5_meta api) e metas \<and>
    (2 \<le> length rows \<longrightarrow> unat (d_extent (h5_image api) d) = length rows \<and> unat (d_extent (h5_meta api) e) = length rows)"
proof (cases "2 \<le> length rows")
  case True
  let ?n = "word_of_nat (length rows) :: u64"
  have n: "word_of_int (hf_index f) + 1 = ?n" "0 < hf_index f"
    using assms(2) True by (simp_all add: file_holds_def)
  obtain d' e' where cut: "d_set_extent (h5_image api) (hf_image_ds f) ?n = Some d'"
    "d_set_extent (h5_meta api) (hf_metadata_ds f) ?n = Some e'"
    using assms(1) by (auto simp: h5_laws_def dataset_laws_def) metis
  then have "d = d'" "e = e'" using assms(4) n by (simp_all add: HDF5File_close_def Let_def)
  then show ?thesis
    using cut cut_rows assms(1,2,3) unfolding h5_laws_def file_holds_def by metis
next
  case False
  then have "\<not> 0 < hf_index f" using assms(2) by (auto simp: file_holds_def)
  then have "d = hf_image_ds f" "e = hf_metadata_ds f" using assms(4) by (simp_all add: HDF5File_close_def)
  then show ?thesis using False assms(2) by (simp add: file_holds_def)
qed

text \<open>The closed datasets of a file: one row for each image, in their order, and no others if there are two
  images or more.\<close>

definition closed_file ::
  "('d, 'e) h5_api \<Rightarrow> 'd \<Rightarrow> 'e \<Rightarrow> byte list list \<Rightarrow> (u64 \<times> u64) list \<Rightarrow> bool" where
  "closed_file api d e rows metas \<longleftrightarrow>
     holds_rows (h5_image api) d rows \<and> holds_rows (h5_meta api) e metas \<and>
     (2 \<le> length rows \<longrightarrow> unat (d_extent (h5_image api) d) = length rows \<and> unat (d_extent (h5_meta api) e) = length rows)"

section \<open>A recording\<close>

definition row_bytes :: "('d, 'e) HDF5File \<Rightarrow> nat" where
  "row_bytes f = unat (hf_height f) * unat (hf_width f) * (unat (hf_bit_depth f) div 8)"

definition slot_row :: "RamBuffer \<Rightarrow> nat \<Rightarrow> ImageMetadata \<Rightarrow> byte list" where
  "slot_row rb n m = segment (rb_slot rb (im_image_id m) * rb_size rb) n (rb_buffer rb)"

definition meta_row :: "ImageMetadata \<Rightarrow> u64 \<times> u64" where
  "meta_row m = (im_image_id m, status_number (im_status m))"

lemma record_image_appends:
  assumes "h5_laws api" and "rb_wf rb" and "wp_file w = Some f" and "file_ok f" and "file_holds api f rows metas"
    and "length rows < 2 ^ 31 - 1" and "row_bytes f \<le> rb_size rb"
  shows "\<exists>f'. writer_action api seteuid config suffix rb (RecordImage m) w = Inr (w\<lparr>wp_file := Some f'\<rparr>) \<and>
    file_ok f' \<and> row_bytes f' = row_bytes f \<and>
    file_holds api f' (rows @ [slot_row rb (row_bytes f) m]) (metas @ [meta_row m])"
proof -
  obtain p where p: "get_data rb (im_image_id m) = Inr p" "unat p = rb_slot rb (im_image_id m) * rb_size rb"
    "unat p + rb_size rb \<le> length (rb_buffer rb)" using get_data_wf [OF assms(2)] by blast
  have b: "h5_get_datatype (hf_bit_depth f) = Inr (unat (hf_bit_depth f) div 8)"
    using assms(4) by (auto simp: file_ok_def h5_get_datatype_def)
  have row: "read_bytes rb (unat p) (row_bytes f) = Inr (slot_row rb (row_bytes f) m)"
    using p assms(7) by (simp add: read_bytes_def slot_row_def)
  obtain f' where "HDF5File_write api m (slot_row rb (row_bytes f) m) f = Inr f'" "file_ok f'"
    "file_holds api f' (rows @ [slot_row rb (row_bytes f) m]) (metas @ [meta_row m])"
    "hf_height f' = hf_height f" "hf_width f' = hf_width f" "hf_bit_depth f' = hf_bit_depth f"
    using HDF5File_write_appends [OF assms(1,4-6)] unfolding meta_row_def by metis
  then show ?thesis
    using assms(3) p(1) b row by (auto simp: writer_action_def row_bytes_def)
qed

lemma record_images_append:
  assumes "h5_laws api" and "rb_wf rb" and "wp_file w = Some f" and "file_ok f" and "file_holds api f rows metas"
    and "length rows + length ms < 2 ^ 31" and "row_bytes f \<le> rb_size rb"
  shows "\<exists>f'. forE (writer_action api seteuid config suffix rb) (map RecordImage ms) w = Inr (w\<lparr>wp_file := Some f'\<rparr>) \<and>
    file_holds api f' (rows @ map (slot_row rb (row_bytes f)) ms) (metas @ map meta_row ms)"
  using assms
proof (induction ms arbitrary: w f rows metas)
  case Nil
  then show ?case by (intro exI [of _ f]) (cases w, simp)
next
  case (Cons m ms)
  have "length rows < 2 ^ 31 - 1" using Cons.prems(6) by simp
  from record_image_appends [OF Cons.prems(1-5) this Cons.prems(7)]
  obtain f1 where f1: "writer_action api seteuid config suffix rb (RecordImage m) w = Inr (w\<lparr>wp_file := Some f1\<rparr>)"
    "file_ok f1" "row_bytes f1 = row_bytes f"
    "file_holds api f1 (rows @ [slot_row rb (row_bytes f) m]) (metas @ [meta_row m])" by blast
  from Cons.IH [of "w\<lparr>wp_file := Some f1\<rparr>" f1, OF Cons.prems(1,2) _ f1(2,4)] Cons.prems f1
  show ?case by auto
qed

text \<open>A configuration whose images can be written.\<close>

definition writable :: "DetectorConfig \<Rightarrow> RamBuffer \<Rightarrow> bool" where
  "writable config rb \<longleftrightarrow> 0 \<le> image_pixel_height config \<and> image_pixel_height config < 2 ^ 31 \<and>
     0 \<le> image_pixel_width config \<and> image_pixel_width config < 2 ^ 31 \<and> bit_depth config \<in> {8, 16, 32} \<and>
     16 \<le> gpfs_block_size config \<and> gpfs_block_size config < 2 ^ 31 \<and>
     (case converted_image_n_bytes config of Inr n \<Rightarrow> 0 < n \<and> n \<le> word_of_int (gpfs_block_size config) | Inl _ \<Rightarrow> False) \<and>
     nat (image_pixel_height config) * nat (image_pixel_width config) * (nat (bit_depth config) div 8) \<le> rb_size rb"

definition image_row_bytes :: "DetectorConfig \<Rightarrow> nat" where
  "image_row_bytes config = nat (image_pixel_height config) * nat (image_pixel_width config) * (nat (bit_depth config) div 8)"

lemma HDF5File_ctor_ok:
  assumes "h5_laws api" and "writable config rb"
  shows "\<exists>f. HDF5File_ctor api config path suffix = Inr f \<and> file_ok f \<and> file_holds api f [] [] \<and>
    row_bytes f = image_row_bytes config"
proof -
  have nat_word: "unat (word_of_int x :: u64) = nat x" if "0 \<le> x" "x < 2 ^ 31" for x
    using that by (subst unat_eq_nat_uint) (simp add: uint_word_of_int_eq take_bit_int_eq_self)
  obtain n where n: "converted_image_n_bytes config = Inr n" "0 < n" "n \<le> word_of_int (gpfs_block_size config)"
    using assms(2) by (auto simp: writable_def split: sum.splits)
  define f where "f = \<lparr>hf_bitshuffle = (suffix = ''h5bitshuffle-lz4''),
              hf_height = word_of_int (image_pixel_height config), hf_width = word_of_int (image_pixel_width config),
              hf_bit_depth = word_of_int (bit_depth config), hf_image_size = n,
              hf_gpfs_block_size = word_of_int (gpfs_block_size config), hf_index = - 1,
              hf_image_ds = d_new (h5_image api), hf_metadata_ds = d_new (h5_meta api)\<rparr>"
  have cfg: "bit_depth config \<in> {8, 16, 32}" "16 \<le> gpfs_block_size config" "gpfs_block_size config < 2 ^ 31"
    "0 \<le> image_pixel_height config" "image_pixel_height config < 2 ^ 31" "0 \<le> image_pixel_width config"
    "image_pixel_width config < 2 ^ 31" using assms(2) by (simp_all add: writable_def)
  have ok: "file_ok f"
    using n cfg nat_word [of "gpfs_block_size config"] by (auto simp: file_ok_def f_def word_le_nat_alt)
  obtain c where c: "images_per_chunk f = Inr c" "0 < unat c" using file_ok_chunks(1) [OF ok] by blast
  have laws: "\<And>call. h5_ok api call" "\<And>n. 0 < n \<Longrightarrow> h5_set_chunk api n" using assms(1) by (simp_all add: h5_laws_def)
  have chunk: "h5_set_chunk api c" "h5_set_chunk api (records_per_chunk f)"
    using laws(2) c(2) file_ok_chunks(2) [OF ok] by (simp_all add: word_less_nat_alt)
  obtain b where b: "h5_get_datatype (hf_bit_depth f) = Inr b"
    using ok by (auto simp: file_ok_def h5_get_datatype_def)
  have "f\<lparr>hf_metadata_ds := d_new (h5_meta api), hf_image_ds := d_new (h5_image api)\<rparr> = f" by (simp add: f_def)
  then have "HDF5File_ctor api config path suffix = Inr f"
    using n(1) laws chunk c(1) b
    by (simp add: HDF5File_ctor_def f_def [symmetric] Let_def h5_create_file_def h5_check_def
      h5_create_metadata_dataset_def h5_create_image_dataset_def)
  moreover have "file_holds api f [] []" by (simp add: file_holds_def holds_rows_def f_def)
  moreover have "row_bytes f = image_row_bytes config"
    using cfg nat_word by (auto simp: row_bytes_def image_row_bytes_def f_def)
  ultimately show ?thesis using ok by simp
qed

lemma writer_file_complete:
  assumes "h5_laws api" and "rb_wf rb" and "writable config rb" and "wp_file w = None"
    and "switch_writer_user (switch_user_active config) seteuid (cfc_writer_id c)"
    and "length ms < 2 ^ 31"
  shows "\<exists>w' d e. forE (writer_action api seteuid config suffix rb)
      (CreateFile c # map RecordImage ms @ [ConfirmLastImage, CloseFile]) w = Inr w' \<and>
    wp_closed w' = wp_closed w @ [(d, e)] \<and> wp_replies w' = wp_replies w @ [good_reply, good_reply, good_reply] \<and>
    (wp_euid w = 0 \<and> seteuid 0 \<noteq> - 1 \<longrightarrow> wp_euid w' = 0) \<and>
    closed_file api d e (map (slot_row rb (image_row_bytes config)) ms) (map meta_row ms)"
proof -
  obtain f where f: "HDF5File_ctor api config (cfc_path c) suffix = Inr f" "file_ok f" "file_holds api f [] []"
    "row_bytes f = image_row_bytes config" using HDF5File_ctor_ok [OF assms(1,3)] by blast
  define w1 where "w1 = w\<lparr>wp_file := Some f, wp_replies := wp_replies w @ [good_reply],
    wp_euid := switch_writer_user_effect (switch_user_active config) seteuid (cfc_writer_id c) (wp_euid w)\<rparr>"
  have create: "writer_action api seteuid config suffix rb (CreateFile c) w = Inr w1"
    using f(1) assms(4,5) by (simp add: writer_action_def close_file_def w1_def)
  obtain f' where f': "forE (writer_action api seteuid config suffix rb) (map RecordImage ms) w1 =
      Inr (w1\<lparr>wp_file := Some f'\<rparr>)"
    "file_holds api f' (map (slot_row rb (image_row_bytes config)) ms) (map meta_row ms)"
  proof -
    have "wp_file w1 = Some f" "row_bytes f \<le> rb_size rb"
      using assms(3) f(4) by (simp_all add: w1_def writable_def image_row_bytes_def)
    then show thesis
      using record_images_append [where seteuid = seteuid and config = config and suffix = suffix,
          OF assms(1,2) _ f(2,3), of w1 ms] assms(6) f(4) that by auto
  qed
  obtain d e where de: "HDF5File_close api f' = (d, e)" by (rule prod.exhaust)
  have "forE (writer_action api seteuid config suffix rb)
      (CreateFile c # map RecordImage ms @ [ConfirmLastImage, CloseFile]) w =
    Inr (w\<lparr>wp_file := None, wp_closed := wp_closed w @ [(d, e)],
          wp_replies := wp_replies w @ [good_reply, good_reply, good_reply],
          wp_euid := switch_to_root_effect (switch_user_active config) seteuid (wp_euid w1)\<rparr>)"
    using create f'(1) de by (simp add: forE_append writer_action_def close_file_def w1_def)
  moreover have "wp_euid w = 0 \<and> seteuid 0 \<noteq> - 1 \<longrightarrow>
      switch_to_root_effect (switch_user_active config) seteuid (wp_euid w1) = 0"
    by (simp add: w1_def switch_to_root_effect_def switch_writer_user_effect_def seteuid_effect_def)
  ultimately show ?thesis
    using HDF5File_close_rows [OF assms(1) f'(2) _ de] assms(6) unfolding closed_file_def by auto
qed

lemma share_length_le: "length (share k j xs) \<le> length xs"
  using length_filter_le [of "\<lambda>i. i mod k = j" "[0..<length xs]"] by (simp add: share_def)

definition new_writer :: "('d, 'e) writer_process" where
  "new_writer = \<lparr>wp_file = None, wp_closed = [], wp_replies = [], wp_euid = 0\<rparr>"


text \<open>A dataset as an extent and a function.\<close>

definition map_dataset :: "(u64 \<times> (u64 \<Rightarrow> 'r option), 'r) h5_dataset_api" where
  "map_dataset = \<lparr>d_new = (0, \<lambda>_. None), d_extent = fst, d_set_extent = (\<lambda>d n. Some (n, snd d)),
     d_write = (\<lambda>d i r. if i < fst d then Some (fst d, (snd d)(i := Some r)) else None), d_row = snd\<rparr>"

definition map_h5 :: "(u64 \<times> (u64 \<Rightarrow> byte list option), u64 \<times> (u64 \<Rightarrow> (u64 \<times> u64) option)) h5_api" where
  "map_h5 = \<lparr>h5_ok = (\<lambda>_. True), h5_set_chunk = (\<lambda>n. 0 < n), h5_image = map_dataset, h5_meta = map_dataset\<rparr>"

lemma map_h5_laws: "h5_laws map_h5"
  by (simp add: h5_laws_def dataset_laws_def map_h5_def map_dataset_def)

definition one_writer :: writer_driver where
  "one_writer = \<lparr>wd_with_metadata_writer = False, wd_sent = [[]], wd_replies = [[good_reply, good_reply, good_reply]]\<rparr>"

definition two_images :: run_settings where
  "two_images = \<lparr>rs_path = ''/data/run'', rs_n_images = 2, rs_writer = 0, rs_start_image_id = 0\<rparr>"


text \<open>A file with a single image is not cut: it keeps the extents of a whole chunk.\<close>

lemma single_image_not_cut: "hf_index f = 0 \<Longrightarrow> HDF5File_close api f = (hf_image_ds f, hf_metadata_ds f)"
  by (simp add: HDF5File_close_def)

text \<open>A writer that cannot switch to the user of the request does not answer; the driver runs into its
  time-out.\<close>

lemma no_reply_without_user:
  "\<not> switch_writer_user (switch_user_active config) seteuid (cfc_writer_id c) \<Longrightarrow>
    writer_action api seteuid config suffix rb (CreateFile c) w = Inr w"
  by (simp add: writer_action_def)

end
