(* ===== verification/MetaWriter.thy ===== *)
theory MetaWriter
  imports DetWriter
begin

text \<open>
  \<open>std-det-meta-writer-gf\<close>: the process that records the metadata of all GigaFRoST images of a
  recording in one HDF5 file. It takes the same commands as the image writers; the driver sends it
  every image. As in theory \<open>DetWriter\<close>, HDF5 is an argument with the laws of its datasets.
\<close>

section \<open>\<open>HDF5File\<close>\<close>

record gf_h5_metadata =
  hm_image_id :: u64
  hm_scan_id :: u64
  hm_scan_time :: u32
  hm_sync_time :: u32
  hm_frame_timestamp :: u64
  hm_exposure_time :: u64

definition gf_h5_metadata_size :: u64 where "gf_h5_metadata_size = 40"

record 'e meta_h5_api =
  mh_ok :: "string \<Rightarrow> bool"
  mh_set_chunk :: "u64 \<Rightarrow> bool"
  mh_dataset :: "('e, gf_h5_metadata) h5_dataset_api"

record 'e MetaHDF5File =
  mf_gpfs_block_size :: u64
  mf_index :: int
  mf_metadata_ds :: 'e

definition mh_check :: "'e meta_h5_api \<Rightarrow> string \<Rightarrow> string \<Rightarrow> unit res" where
  "mh_check api call msg = (if mh_ok api call then Inr () else Inl (RuntimeError msg))"

definition meta_create_file :: "'e meta_h5_api \<Rightarrow> string \<Rightarrow> unit res" where
  "meta_create_file api filename =
     bindE (mh_check api ''H5Pcreate(H5P_FILE_ACCESS)'' ''Error in file access property list.'') (\<lambda>_.
     bindE (mh_check api ''H5Pset_alignment'' ''Cannot set alignment to property list.'') (\<lambda>_.
     bindE (mh_check api ''H5Pcreate(H5P_FILE_CREATE)'' ''Error in file access property list.'') (\<lambda>_.
     bindE (mh_check api ''H5Pset_istore_k'' ''Cannot set btree size.'') (\<lambda>_.
     mh_check api (''H5Fcreate '' @ filename) ''Cannot create output file.''))))"

definition meta_records_per_chunk :: "'e MetaHDF5File \<Rightarrow> u64" where
  "meta_records_per_chunk f = mf_gpfs_block_size f div gf_h5_metadata_size"

text \<open>The result of \<open>H5Pset_chunk\<close> is not checked; a chunk size that HDF5 rejects makes the creation fail.\<close>

definition create_metadata_dataset :: "'e meta_h5_api \<Rightarrow> 'e MetaHDF5File \<Rightarrow> 'e res" where
  "create_metadata_dataset api f =
     bindE (mh_check api ''H5Screate_simple'' ''Cannot create meta dataset space.'') (\<lambda>_.
     if mh_set_chunk api (meta_records_per_chunk f) \<and> mh_ok api ''H5Dcreate'' then Inr (d_new (mh_dataset api))
     else Inl (RuntimeError ''Cannot create metadata dataset.''))"

definition create_datasets :: "'e meta_h5_api \<Rightarrow> 'e MetaHDF5File \<Rightarrow> 'e res" where
  "create_datasets api f =
     bindE (mh_check api ''H5Gcreate'' ''Cannot create data group.'') (\<lambda>_. create_metadata_dataset api f)"

definition MetaHDF5File_ctor :: "'e meta_h5_api \<Rightarrow> DetectorConfig \<Rightarrow> string \<Rightarrow> 'e MetaHDF5File res" where
  "MetaHDF5File_ctor api config filename =
     (let f = \<lparr>mf_gpfs_block_size = word_of_int (gpfs_block_size config), mf_index = - 1,
               mf_metadata_ds = d_new (mh_dataset api)\<rparr>
      in bindE (meta_create_file api filename) (\<lambda>_.
         bindE (create_datasets api f) (\<lambda>e. Inr (f\<lparr>mf_metadata_ds := e\<rparr>))))"

definition h5_record :: "ImageMetadata \<Rightarrow> gf_h5_metadata" where
  "h5_record meta =
     \<lparr>hm_image_id = im_image_id meta, hm_scan_id = ucast (gfm_scan_id (im_gf meta)),
      hm_scan_time = gfm_scan_time (im_gf meta), hm_sync_time = gfm_sync_time (im_gf meta),
      hm_frame_timestamp = gfm_frame_timestamp (im_gf meta), hm_exposure_time = gfm_exposure_time (im_gf meta)\<rparr>"

definition meta_extend :: "'e meta_h5_api \<Rightarrow> 'e MetaHDF5File \<Rightarrow> 'e res" where
  "meta_extend api f =
     (if \<not> int_ok (mf_index f + 1) then Inl (Undefined ''signed overflow'')
      else let required_index = word_of_int (mf_index f + 1) :: u64; n = meta_records_per_chunk f; ds = mf_metadata_ds f
        in if required_index > d_extent (mh_dataset api) ds
           then if n = 0 then Inl (Undefined ''division by zero'')
                else from_h5 (d_set_extent (mh_dataset api) ds ((required_index div n + 1) * n)) ''Failed to extend dataset.''
           else Inr ds)"

definition MetaHDF5File_write :: "'e meta_h5_api \<Rightarrow> ImageMetadata \<Rightarrow> 'e MetaHDF5File \<Rightarrow> 'e MetaHDF5File res" where
  "MetaHDF5File_write api meta f =
     (if \<not> int_ok (mf_index f + 1) then Inl (Undefined ''signed overflow'')
      else let f1 = f\<lparr>mf_index := mf_index f + 1\<rparr> in
        bindE (mh_check api ''H5Dget_space'' ''Cannot get metadata dataset file dataspace.'') (\<lambda>_.
        bindE (mh_check api ''H5Sget_simple_extent_dims'' ''Failed to get dataset dimensions.'') (\<lambda>_.
        bindE (meta_extend api f1) (\<lambda>ds1.
        bindE (mh_check api ''H5Screate_simple(ram)'' ''Cannot create metadata ram dataspace.'') (\<lambda>_.
        bindE (mh_check api ''H5Sselect_hyperslab'' ''Cannot select metadata dataset file hyperslab.'') (\<lambda>_.
        bindE (from_h5 (d_write (mh_dataset api) ds1 (word_of_int (mf_index f1)) (h5_record meta)) ''Failed to write metadata.'') (\<lambda>ds2.
        Inr (f1\<lparr>mf_metadata_ds := ds2\<rparr>))))))))"

text \<open>The destructor; a call that fails is ignored.\<close>

definition MetaHDF5File_close :: "'e meta_h5_api \<Rightarrow> 'e MetaHDF5File \<Rightarrow> 'e" where
  "MetaHDF5File_close api f =
     (if mf_index f > 0
      then (case d_set_extent (mh_dataset api) (mf_metadata_ds f) (word_of_int (mf_index f) + 1) of
              Some e \<Rightarrow> e | None \<Rightarrow> mf_metadata_ds f)
      else mf_metadata_ds f)"

section \<open>The loop of the process\<close>

text \<open>Unlike the image writer the process always switches the user; nothing catches an exception of the
  constructor, which ends the process before it answers.\<close>

definition meta_switch_user :: "(u32 \<Rightarrow> int) \<Rightarrow> u32 \<Rightarrow> bool" where
  "meta_switch_user seteuid new_user_id = (seteuid new_user_id \<noteq> - 1)"

definition meta_switch_writer_user :: "(u32 \<Rightarrow> int) \<Rightarrow> u32 \<Rightarrow> bool" where
  "meta_switch_writer_user seteuid writer_user \<longleftrightarrow> writer_user = 0 \<or> meta_switch_user seteuid writer_user"

record 'e meta_writer =
  mw_file :: "'e MetaHDF5File option"
  mw_closed :: "'e list" \<comment> \<open>the files written so far\<close>
  mw_replies :: nat \<comment> \<open>the answers, all of them \<open>SUCCESS\<close>\<close>
  mw_euid :: u32
  mw_stats :: TimedStatsCollector

definition meta_close_file :: "'e meta_h5_api \<Rightarrow> 'e meta_writer \<Rightarrow> 'e meta_writer" where
  "meta_close_file api w = (case mw_file w of None \<Rightarrow> w
     | Some f \<Rightarrow> w\<lparr>mw_file := None, mw_closed := mw_closed w @ [MetaHDF5File_close api f]\<rparr>)"

definition meta_action ::
  "'e meta_h5_api \<Rightarrow> (u32 \<Rightarrow> int) \<Rightarrow> DetectorConfig \<Rightarrow> WriterAction \<Rightarrow> 'e meta_writer \<Rightarrow> 'e meta_writer res" where
  "meta_action api seteuid config action w =
     (case action of
        CreateFile c \<Rightarrow>
          if \<not> meta_switch_writer_user seteuid (cfc_writer_id c) then Inr w
          else let w1 = w\<lparr>mw_euid := if cfc_writer_id c = 0 then mw_euid w else cfc_writer_id c\<rparr>
               in bindE (MetaHDF5File_ctor api config (cfc_path c)) (\<lambda>f.
                  Inr ((meta_close_file api w1)\<lparr>mw_file := Some f, mw_replies := mw_replies w + 1\<rparr>))
      | RecordImage meta \<Rightarrow>
          (case mw_file w of
             None \<Rightarrow> Inl (Undefined ''null pointer'')
           | Some f \<Rightarrow> bindE (MetaHDF5File_write api meta f) (\<lambda>f'.
               Inr (w\<lparr>mw_file := Some f', mw_stats := timed_process (mw_stats w)\<rparr>)))
      | CloseFile \<Rightarrow>
          Inr ((meta_close_file api w)\<lparr>mw_euid := if meta_switch_user seteuid 0 then 0 else mw_euid w,
                                       mw_replies := mw_replies w + 1\<rparr>)
      | ConfirmLastImage \<Rightarrow> Inr (w\<lparr>mw_replies := mw_replies w + 1\<rparr>))"

text \<open>One turn of \<open>while (true)\<close>: the message, if one was received in time, and the statistics.\<close>

definition meta_writer_turn ::
  "'e meta_h5_api \<Rightarrow> (u32 \<Rightarrow> int) \<Rightarrow> DetectorConfig \<Rightarrow> rate_format \<Rightarrow> clock_reads \<Rightarrow> WriterAction option \<Rightarrow>
   'e meta_writer \<Rightarrow> ('e meta_writer \<times> string option) res" where
  "meta_writer_turn api seteuid config fr ck msg w =
     bindE (case msg of None \<Rightarrow> Inr w | Some action \<Rightarrow> meta_action api seteuid config action w) (\<lambda>w1.
     case print_stats (timed_additional_message fr) ck (mw_stats w1) of
       (log, stats) \<Rightarrow> Inr (w1\<lparr>mw_stats := stats\<rparr>, log))"

section \<open>The records of a file\<close>

definition meta_h5_laws :: "'e meta_h5_api \<Rightarrow> bool" where
  "meta_h5_laws api \<longleftrightarrow> (\<forall>call. mh_ok api call) \<and> (\<forall>n > 0. mh_set_chunk api n) \<and> dataset_laws (mh_dataset api)"

definition meta_file_holds :: "'e meta_h5_api \<Rightarrow> 'e MetaHDF5File \<Rightarrow> gf_h5_metadata list \<Rightarrow> bool" where
  "meta_file_holds api f rs \<longleftrightarrow> mf_index f = int (length rs) - 1 \<and> holds_rows (mh_dataset api) (mf_metadata_ds f) rs \<and>
     40 \<le> unat (mf_gpfs_block_size f) \<and> unat (mf_gpfs_block_size f) < 2 ^ 31"

lemma meta_records_bounds:
  assumes "meta_file_holds api f rs"
  shows "0 < unat (meta_records_per_chunk f)" "unat (meta_records_per_chunk f) < 2 ^ 31"
proof -
  have "unat (mf_gpfs_block_size f) div 40 < 2 ^ 31"
    using assms by (meson meta_file_holds_def div_le_dividend le_less_trans)
  then show "0 < unat (meta_records_per_chunk f)" "unat (meta_records_per_chunk f) < 2 ^ 31"
    using assms by (simp_all add: meta_file_holds_def meta_records_per_chunk_def gf_h5_metadata_size_def unat_div div_greater_zero_iff)
qed

lemma MetaHDF5File_write_appends:
  assumes "meta_h5_laws api" and "meta_file_holds api f rs" and "length rs < 2 ^ 31 - 1"
  shows "\<exists>f'. MetaHDF5File_write api m f = Inr f' \<and> meta_file_holds api f' (rs @ [h5_record m])"
proof -
  let ?a = "mh_dataset api" and ?ds = "mf_metadata_ds f" and ?r = "meta_records_per_chunk f"
  have la: "dataset_laws ?a" and calls: "\<And>c. mh_ok api c" using assms(1) by (simp_all add: meta_h5_laws_def)
  have h: "holds_rows ?a ?ds rs" "length rs < 2 ^ 31" using assms(2,3) by (simp_all add: meta_file_holds_def)
  obtain ds1 e where e: "if word_of_nat (Suc (length rs)) > d_extent ?a ?ds
      then d_set_extent ?a ?ds ((word_of_nat (Suc (length rs)) div ?r + 1) * ?r) = Some ds1 else ds1 = ?ds"
    "d_write ?a ds1 (word_of_nat (length rs)) (h5_record m) = Some e" "holds_rows ?a e (rs @ [h5_record m])"
    using append_record [OF la h meta_records_bounds [OF assms(2)]] by blast
  define f1 where "f1 = f\<lparr>mf_index := int (length rs)\<rparr>"
  have f1: "f\<lparr>mf_index := mf_index f + 1\<rparr> = f1" "int_ok (mf_index f + 1)" "int_ok (mf_index f1 + 1)" "?r \<noteq> 0"
    "word_of_int (mf_index f1 + 1) = (word_of_nat (Suc (length rs)) :: u64)"
    using assms(2,3) meta_records_bounds [OF assms(2)] by (auto simp: f1_def meta_file_holds_def int_ok_iff)
  have "mf_metadata_ds f1 = ?ds" "meta_records_per_chunk f1 = ?r" by (simp_all add: f1_def meta_records_per_chunk_def)
  then have "meta_extend api f1 = Inr ds1"
    using e(1) f1 unfolding meta_extend_def f1(5) Let_def by (simp add: from_h5_def del: of_nat_Suc split: if_splits)
  then have "MetaHDF5File_write api m f = Inr (f1\<lparr>mf_metadata_ds := e\<rparr>)"
    using e(2) calls f1(2) unfolding MetaHDF5File_write_def Let_def f1(1) by (simp add: mh_check_def from_h5_def f1_def)
  then show ?thesis using e(3) assms(2) by (simp add: meta_file_holds_def f1_def)
qed

lemma meta_records_append:
  assumes "meta_h5_laws api" and "mw_file w = Some f" and "meta_file_holds api f rs" and "length rs + length ms < 2 ^ 31"
  shows "\<exists>w' f'. forE (meta_action api seteuid config) (map RecordImage ms) w = Inr w' \<and> mw_file w' = Some f' \<and>
    meta_file_holds api f' (rs @ map h5_record ms) \<and> mw_closed w' = mw_closed w \<and> mw_replies w' = mw_replies w \<and> mw_euid w' = mw_euid w"
  using assms
proof (induction ms arbitrary: w f rs)
  case (Cons m ms)
  have "length rs < 2 ^ 31 - 1" using Cons.prems(4) by simp
  then obtain f1 where f1: "MetaHDF5File_write api m f = Inr f1" "meta_file_holds api f1 (rs @ [h5_record m])"
    using MetaHDF5File_write_appends [OF Cons.prems(1,3)] by blast
  define w1 where "w1 = w\<lparr>mw_file := Some f1, mw_stats := timed_process (mw_stats w)\<rparr>"
  have "meta_action api seteuid config (RecordImage m) w = Inr w1"
    using f1(1) Cons.prems(2) by (simp add: meta_action_def w1_def)
  then show ?case
    using Cons.IH [of w1 f1 "rs @ [h5_record m]"] Cons.prems(1,4) f1(2) by (auto simp: w1_def)
qed simp

lemma MetaHDF5File_ctor_ok:
  assumes "meta_h5_laws api" and "40 \<le> gpfs_block_size config" and "gpfs_block_size config < 2 ^ 31"
  shows "\<exists>f. MetaHDF5File_ctor api config path = Inr f \<and> meta_file_holds api f []"
proof -
  define f where "f = \<lparr>mf_gpfs_block_size = word_of_int (gpfs_block_size config), mf_index = - 1,
    mf_metadata_ds = d_new (mh_dataset api)\<rparr>"
  have "unat (mf_gpfs_block_size f) = nat (gpfs_block_size config)"
    using assms(2,3) by (subst unat_eq_nat_uint) (simp add: f_def uint_word_of_int_eq take_bit_int_eq_self)
  then have holds: "meta_file_holds api f []"
    using assms(2,3) by (simp add: meta_file_holds_def holds_rows_def) (simp add: f_def le_nat_iff nat_less_iff)
  have "0 < meta_records_per_chunk f" using meta_records_bounds(1) [OF holds] by (simp add: word_less_nat_alt)
  then have "mh_set_chunk api (meta_records_per_chunk f)" "\<And>c. mh_ok api c" using assms(1) by (simp_all add: meta_h5_laws_def)
  then have "MetaHDF5File_ctor api config path = Inr f"
    unfolding MetaHDF5File_ctor_def f_def [symmetric] Let_def
    by (simp add: meta_create_file_def create_datasets_def create_metadata_dataset_def mh_check_def) (simp add: f_def)
  then show ?thesis using holds by blast
qed

lemma MetaHDF5File_close_rows:
  assumes "meta_h5_laws api" and "meta_file_holds api f rs" and "length rs < 2 ^ 31"
  shows "holds_rows (mh_dataset api) (MetaHDF5File_close api f) rs \<and>
    (2 \<le> length rs \<longrightarrow> unat (d_extent (mh_dataset api) (MetaHDF5File_close api f)) = length rs)"
proof (cases "2 \<le> length rs")
  case True
  then have "word_of_int (mf_index f) + 1 = (word_of_nat (length rs) :: u64)" "0 < mf_index f"
    using assms(2) by (simp_all add: meta_file_holds_def)
  moreover obtain e where "d_set_extent (mh_dataset api) (mf_metadata_ds f) (word_of_nat (length rs)) = Some e"
    using assms(1) by (auto simp: meta_h5_laws_def dataset_laws_def) metis
  ultimately show ?thesis
    using cut_rows [of "mh_dataset api" "mf_metadata_ds f" rs e] assms by (simp add: MetaHDF5File_close_def meta_h5_laws_def meta_file_holds_def)
next
  case False
  then have "\<not> 0 < mf_index f" using assms(2) by (auto simp: meta_file_holds_def)
  then show ?thesis using False assms(2) by (simp add: MetaHDF5File_close_def meta_file_holds_def)
qed

lemma meta_file_complete:
  assumes "meta_h5_laws api" and "40 \<le> gpfs_block_size config" and "gpfs_block_size config < 2 ^ 31" and "mw_file w = None"
    and "meta_switch_writer_user seteuid (cfc_writer_id c)" and "length ms < 2 ^ 31"
  shows "\<exists>w' e. forE (meta_action api seteuid config) (CreateFile c # map RecordImage ms @ [ConfirmLastImage, CloseFile]) w = Inr w' \<and>
    mw_closed w' = mw_closed w @ [e] \<and> mw_replies w' = mw_replies w + 3 \<and> (seteuid 0 \<noteq> - 1 \<longrightarrow> mw_euid w' = 0) \<and>
    holds_rows (mh_dataset api) e (map h5_record ms) \<and>
    (2 \<le> length ms \<longrightarrow> unat (d_extent (mh_dataset api) e) = length ms)"
proof -
  obtain f where f: "MetaHDF5File_ctor api config (cfc_path c) = Inr f" "meta_file_holds api f []"
    using MetaHDF5File_ctor_ok [OF assms(1-3)] by blast
  define w1 where "w1 = w\<lparr>mw_file := Some f, mw_replies := mw_replies w + 1,
    mw_euid := if cfc_writer_id c = 0 then mw_euid w else cfc_writer_id c\<rparr>"
  have create: "meta_action api seteuid config (CreateFile c) w = Inr w1"
    using f(1) assms(4,5) by (simp add: meta_action_def meta_close_file_def w1_def)
  obtain w2 f2 where w2: "forE (meta_action api seteuid config) (map RecordImage ms) w1 = Inr w2" "mw_file w2 = Some f2"
    "meta_file_holds api f2 (map h5_record ms)" "mw_closed w2 = mw_closed w" "mw_replies w2 = mw_replies w + 1"
    using meta_records_append [OF assms(1) _ f(2), of w1 ms seteuid config] assms(6) by (auto simp: w1_def)
  define w3 where "w3 = w2\<lparr>mw_file := None, mw_closed := mw_closed w2 @ [MetaHDF5File_close api f2], mw_replies := mw_replies w2 + 2,
    mw_euid := if meta_switch_user seteuid 0 then 0 else mw_euid w2\<rparr>"
  have "forE (meta_action api seteuid config) (CreateFile c # map RecordImage ms @ [ConfirmLastImage, CloseFile]) w = Inr w3"
    using create w2(1,2) by (simp add: forE_append meta_action_def meta_close_file_def w3_def)
  then show ?thesis
    using MetaHDF5File_close_rows [OF assms(1) w2(3)] assms(6) w2(4,5)
    by (intro exI [of _ w3] exI [of _ "MetaHDF5File_close api f2"]) (auto simp: w3_def meta_switch_user_def)
qed

section \<open>A recording\<close>

definition new_meta_writer :: "'e meta_writer" where
  "new_meta_writer = \<lparr>mw_file = None, mw_closed = [], mw_replies = 0, mw_euid = 0,
     mw_stats = \<lparr>sc_detector_name = [], sc_period = 10, sc_last_update_time = 0, processed_times = 0, source_suffix = [],
                 previous_time = 0\<rparr>\<rparr>"


definition map_meta_h5 :: "(u64 \<times> (u64 \<Rightarrow> gf_h5_metadata option)) meta_h5_api" where
  "map_meta_h5 = \<lparr>mh_ok = (\<lambda>_. True), mh_set_chunk = (\<lambda>n. 0 < n), mh_dataset = map_dataset\<rparr>"

definition writer_and_meta :: writer_driver where
  "writer_and_meta = \<lparr>wd_with_metadata_writer = True, wd_sent = [[], []],
     wd_replies = [[good_reply, good_reply, good_reply], [good_reply, good_reply, good_reply]]\<rparr>"


section \<open>Deviations\<close>

text \<open>A block of the file system that is smaller than a record: the file cannot be created, and the
  exception ends the process without an answer.\<close>

lemma small_block_ends_process:
  assumes "0 \<le> gpfs_block_size config" and "gpfs_block_size config < 40" and "\<not> mh_set_chunk api 0"
    and "\<forall>call. mh_ok api call" and "meta_switch_writer_user seteuid (cfc_writer_id c)"
  shows "meta_action api seteuid config (CreateFile c) w = Inl (RuntimeError ''Cannot create metadata dataset.'')"
proof -
  have "uint (word_of_int (gpfs_block_size config) :: u64) = gpfs_block_size config"
    using assms(1,2) by (simp add: uint_word_of_int_eq take_bit_int_eq_self)
  then have "word_of_int (gpfs_block_size config) div (40 :: u64) = 0"
    using assms(1,2) by (simp add: word_div_def)
  then show ?thesis
    using assms by (simp add: meta_action_def MetaHDF5File_ctor_def meta_create_file_def create_datasets_def
      create_metadata_dataset_def mh_check_def meta_records_per_chunk_def gf_h5_metadata_size_def Let_def)
qed

text \<open>An image that is recorded before a file was created dereferences a null pointer, and a file with a single
  record keeps the extent of a whole chunk.\<close>

lemma record_without_file: "mw_file w = None \<Longrightarrow> meta_action api seteuid config (RecordImage m) w = Inl (Undefined ''null pointer'')"
  by (simp add: meta_action_def)

lemma single_record_not_cut: "mf_index f = 0 \<Longrightarrow> MetaHDF5File_close api f = mf_metadata_ds f"
  by (simp add: MetaHDF5File_close_def)

end
