(* ===== verification/StdBuffer.thy ===== *)
theory StdBuffer
  imports Streams
begin

text \<open>
  The long-term buffer: \<open>std-buffer-common\<close> (\<open>FileHandler\<close>, \<open>RedisHandler\<close>) and the process
  \<open>std-buffer-writer\<close>, which appends every image to a file of its block of a thousand ids and stores
  its metadata with the place of the data in a Redis database.

  The file system is modelled as far as the code uses it: directories, files, a stream whose
  bytes reach the file when it is flushed or closed. Redis and Blosc2 are third-party and
  arguments (\<open>redis_api\<close>, \<open>blosc_api\<close>); what the properties rely on is stated as \<open>redis_laws\<close>
  and \<open>blosc_laws\<close>. Serialization and parsing of protobuf messages are arguments too.
\<close>

section \<open>Files\<close>

record file_system =
  fs_dirs :: "string list"
  fs_files :: "(string \<times> byte list) list"

text \<open>What the operating system permits: creating a directory, opening a file for writing.\<close>

record os_api =
  os_may_create :: "string \<Rightarrow> bool"
  os_may_open :: "string \<Rightarrow> bool"

definition file_content :: "file_system \<Rightarrow> string \<Rightarrow> byte list option" where
  "file_content fs path = map_of (fs_files fs) path"

definition file_append :: "string \<Rightarrow> byte list \<Rightarrow> file_system \<Rightarrow> file_system" where
  "file_append path bytes fs =
     fs\<lparr>fs_files := um_assign path ((case file_content fs path of Some c \<Rightarrow> c | None \<Rightarrow> []) @ bytes) (fs_files fs)\<rparr>"

definition parent_dirs :: "string \<Rightarrow> string list" where
  "parent_dirs path = map (\<lambda>i. take i path) (filter (\<lambda>i. 0 < i \<and> path ! i = CHR ''/'') [0..<length path])"

definition create_directories :: "os_api \<Rightarrow> string \<Rightarrow> file_system \<Rightarrow> file_system res" where
  "create_directories os path fs =
     (if os_may_create os path
      then Inr (fs\<lparr>fs_dirs := remdups (fs_dirs fs @ parent_dirs path @ [path])\<rparr>)
      else Inl (RuntimeError ''create_directories''))"

text \<open>The names of the entries that \<open>directory_iterator\<close> visits; the order is irrelevant to the
  code, which sorts.\<close>

definition directory_entries :: "string \<Rightarrow> file_system \<Rightarrow> string list res" where
  "directory_entries path fs =
     (let n = Suc (length path) in
      if path \<in> set (fs_dirs fs)
      then Inr (filter (\<lambda>e. e \<noteq> [] \<and> CHR ''/'' \<notin> set e)
             (map (drop n) (filter (\<lambda>e. take n e = path @ ''/'') (fs_dirs fs @ map fst (fs_files fs)))))
      else Inl (RuntimeError ''directory_iterator''))"

definition stem :: "string \<Rightarrow> string" where
  "stem name =
     (if CHR ''.'' \<in> set (tl name)
      then take (length name - Suc (length (takeWhile (\<lambda>c. c \<noteq> CHR ''.'') (rev name)))) name
      else name)"

definition stoul :: "string \<Rightarrow> u64 res" where
  "stoul s = bindE (stoull s) (\<lambda>(v, _). Inr v)"

subsection \<open>\<open>std::fstream\<close>\<close>

text \<open>\<open>fst_good\<close>: no error flag is set. \<open>fst_pending\<close>: the bytes that have been written and not
  flushed.\<close>

record fstream =
  fst_open :: "string option"
  fst_good :: bool
  fst_pending :: "byte list"

definition closed_stream :: fstream where
  "closed_stream = \<lparr>fst_open = None, fst_good = True, fst_pending = []\<rparr>"

definition stream_flush :: "fstream \<Rightarrow> file_system \<Rightarrow> fstream \<times> file_system" where
  "stream_flush st fs =
     (case fst_open st of None \<Rightarrow> (st, fs)
      | Some path \<Rightarrow> if fst_pending st = [] then (st, fs)
                    else (st\<lparr>fst_pending := []\<rparr>, file_append path (fst_pending st) fs))"

text \<open>Closing a stream that is not open sets the fail bit; a successful \<open>open\<close> clears it.\<close>

definition stream_close :: "fstream \<Rightarrow> file_system \<Rightarrow> fstream \<times> file_system" where
  "stream_close st fs =
     (case stream_flush st fs of (st', fs') \<Rightarrow>
        (st'\<lparr>fst_open := None, fst_good := (fst_good st' \<and> fst_open st' \<noteq> None)\<rparr>, fs'))"

definition stream_open_app :: "os_api \<Rightarrow> string \<Rightarrow> file_system \<Rightarrow> fstream \<times> file_system" where
  "stream_open_app os path fs =
     (if os_may_open os path
      then (\<lparr>fst_open = Some path, fst_good = True, fst_pending = []\<rparr>, file_append path [] fs)
      else (\<lparr>fst_open = None, fst_good = False, fst_pending = []\<rparr>, fs))"

definition stream_open_in :: "string \<Rightarrow> file_system \<Rightarrow> fstream" where
  "stream_open_in path fs =
     (if file_content fs path \<noteq> None then \<lparr>fst_open = Some path, fst_good = True, fst_pending = []\<rparr>
      else \<lparr>fst_open = None, fst_good = False, fst_pending = []\<rparr>)"

definition stream_write :: "byte list \<Rightarrow> fstream \<Rightarrow> fstream" where
  "stream_write d st = (if fst_good st then st\<lparr>fst_pending := fst_pending st @ d\<rparr> else st)"

section \<open>\<open>FileHandler\<close>\<close>

text \<open>The sizes given to Blosc2 are \<open>int32_t\<close>. \<open>None\<close>: the call returned no positive size.\<close>

record blosc_api =
  bl_max_overhead :: nat
  bl_compress :: "byte list \<Rightarrow> int \<Rightarrow> int \<Rightarrow> byte list option"
  bl_decompress :: "byte list \<Rightarrow> int \<Rightarrow> int \<Rightarrow> byte list option"

record FileHandler =
  fh_root_directory :: string
  fh_current_filename :: string
  fh_current_file :: fstream
  fh_current_offset :: u64
  fh_type_size :: u64

definition FileHandler_ctor :: "string \<Rightarrow> u64 \<Rightarrow> FileHandler" where
  "FileHandler_ctor root_directory type_size =
     \<lparr>fh_root_directory = root_directory, fh_current_filename = [], fh_current_file = closed_stream,
      fh_current_offset = 0, fh_type_size = type_size\<rparr>"

definition get_folder_path :: "FileHandler \<Rightarrow> u64 \<Rightarrow> string" where
  "get_folder_path fh img = fh_root_directory fh @ ''/'' @ to_string (img div 1000000) @ ''000000''"

definition get_filename :: "FileHandler \<Rightarrow> u64 \<Rightarrow> string" where
  "get_filename fh img = get_folder_path fh img @ ''/'' @ to_string (img div 1000) @ ''000.dat''"

text \<open>\<open>views::transform\<close> with a function that may throw.\<close>

fun mapE :: "('a \<Rightarrow> 'b res) \<Rightarrow> 'a list \<Rightarrow> 'b list res" where
  "mapE f [] = Inr []"
| "mapE f (x # xs) = bindE (f x) (\<lambda>y. bindE (mapE f xs) (\<lambda>ys. Inr (y # ys)))"

definition get_folder_ids_in_root_directory :: "FileHandler \<Rightarrow> file_system \<Rightarrow> u64 list res" where
  "get_folder_ids_in_root_directory fh fs =
     bindE (directory_entries (fh_root_directory fh) fs) (\<lambda>names.
     bindE (mapE stoul names) (\<lambda>ids. Inr (sort ids)))"

definition get_file_ids_in_folder :: "FileHandler \<Rightarrow> u64 \<Rightarrow> file_system \<Rightarrow> u64 list res" where
  "get_file_ids_in_folder fh folder_id fs =
     bindE (directory_entries (get_folder_path fh folder_id) fs) (\<lambda>names.
     bindE (mapE (\<lambda>e. stoul (stem e)) names) (\<lambda>ids. Inr (sort ids)))"

text \<open>What \<open>lower_bound\<close> leaves of a sorted vector.\<close>

definition lower_bound :: "u64 list \<Rightarrow> u64 \<Rightarrow> u64 list" where
  "lower_bound xs v = dropWhile (\<lambda>x. x < v) xs"

definition first_file_in_folder :: "FileHandler \<Rightarrow> u64 list \<Rightarrow> file_system \<Rightarrow> u64 option res" where
  "first_file_in_folder fh folders fs =
     (case folders of [] \<Rightarrow> Inr None
      | f # _ \<Rightarrow> bindE (get_file_ids_in_folder fh f fs) (\<lambda>ids.
          if ids = [] then Inl (Undefined ''front of an empty vector'') else Inr (Some (hd ids))))"

definition get_first_matching_root_id :: "FileHandler \<Rightarrow> u64 \<Rightarrow> file_system \<Rightarrow> u64 option res" where
  "get_first_matching_root_id fh img fs =
     bindE (get_folder_ids_in_root_directory fh fs) (\<lambda>folder_ids.
     if folder_ids = [] then Inr None
     else let target_folder = img div 1000000 * 1000000; block_id = img div 1000 * 1000;
              folder_it = lower_bound folder_ids target_folder
          in if folder_it \<noteq> [] \<and> hd folder_it = target_folder
             then bindE (get_file_ids_in_folder fh (hd folder_it) fs) (\<lambda>file_ids.
                  case lower_bound file_ids block_id of
                    f # _ \<Rightarrow> Inr (Some f)
                  | [] \<Rightarrow> first_file_in_folder fh (tl folder_it) fs)
             else first_file_in_folder fh folder_it fs)"

definition fh_compress :: "blosc_api \<Rightarrow> byte list \<Rightarrow> byte list" where
  "fh_compress b d =
     (case bl_compress b d (to_int32 (length d)) (to_int32 (length d + bl_max_overhead b)) of
        Some c \<Rightarrow> c | None \<Rightarrow> d)"

definition open_new_file ::
  "os_api \<Rightarrow> u64 \<Rightarrow> string \<Rightarrow> FileHandler \<times> file_system \<Rightarrow> (FileHandler \<times> file_system) res" where
  "open_new_file os img filename st =
     (case st of (fh, fs) \<Rightarrow>
      bindE (create_directories os (get_folder_path fh img) fs) (\<lambda>fs1.
      case stream_flush (fh_current_file fh) fs1 of (s2, fs2) \<Rightarrow>
      case stream_close s2 fs2 of (s3, fs3) \<Rightarrow>
      case stream_open_app os filename fs3 of (s4, fs4) \<Rightarrow>
      Inr (fh\<lparr>fh_current_filename := filename, fh_current_offset := 0, fh_current_file := s4\<rparr>, fs4)))"

definition write_data_and_update_offset :: "byte list \<Rightarrow> FileHandler \<Rightarrow> (u64 \<times> u64) \<times> FileHandler" where
  "write_data_and_update_offset d fh =
     ((fh_current_offset fh, word_of_nat (length d)),
      fh\<lparr>fh_current_file := stream_write d (fh_current_file fh),
         fh_current_offset := fh_current_offset fh + word_of_nat (length d)\<rparr>)"

definition FileHandler_write ::
  "os_api \<Rightarrow> blosc_api \<Rightarrow> u64 \<Rightarrow> byte list \<Rightarrow> FileHandler \<times> file_system \<Rightarrow>
   ((u64 \<times> u64) \<times> FileHandler \<times> file_system) res" where
  "FileHandler_write os b img d st =
     (let filename = get_filename (fst st) img in
      bindE (if filename \<noteq> fh_current_filename (fst st) then open_new_file os img filename st else Inr st)
        (\<lambda>(fh, fs). case write_data_and_update_offset (fh_compress b d) fh of (r, fh') \<Rightarrow> Inr (r, fh', fs)))"

definition open_read_file :: "u64 \<Rightarrow> FileHandler \<times> file_system \<Rightarrow> bool \<times> FileHandler \<times> file_system" where
  "open_read_file img st =
     (case st of (fh, fs) \<Rightarrow>
      let filename = get_filename fh img;
          st' = (if filename \<noteq> fh_current_filename fh
                 then case stream_close (fh_current_file fh) fs of (_, fs') \<Rightarrow>
                      (fh\<lparr>fh_current_filename := filename, fh_current_file := stream_open_in filename fs'\<rparr>, fs')
                 else st)
      in (fst_open (fh_current_file (fst st')) \<noteq> None, st'))"

text \<open>\<open>seekg\<close> takes a \<open>long\<close> and fails on a negative position; \<open>read\<close> sets the error flags when
  the file ends before \<open>csize\<close> bytes. The result is what is decompressed into the
  \<open>n\<close> bytes of the target, or \<open>None\<close> for \<open>false\<close>.\<close>

definition FileHandler_read ::
  "blosc_api \<Rightarrow> u64 \<Rightarrow> nat \<Rightarrow> u64 \<Rightarrow> u64 \<Rightarrow> FileHandler \<times> file_system \<Rightarrow>
   (byte list option \<times> FileHandler \<times> file_system) res" where
  "FileHandler_read b img n offset csize st =
     (case open_read_file img st of (is_open, fh, fs) \<Rightarrow>
      let file = fh_current_file fh; failed = fh\<lparr>fh_current_file := file\<lparr>fst_good := False\<rparr>\<rparr>;
          content = (case fst_open file of Some p \<Rightarrow> (case file_content fs p of Some c \<Rightarrow> c | None \<Rightarrow> []) | None \<Rightarrow> []);
          got = segment (unat offset) (unat csize) content
      in if \<not> is_open \<or> \<not> fst_good file then Inr (None, fh, fs)
         else if 2 ^ 63 \<le> unat offset then Inr (None, failed, fs)
         else if n + bl_max_overhead b < length got then Inl (Undefined ''write out of range'')
         else if length got < unat csize then Inr (None, failed, fs)
         else Inr (bl_decompress b got (to_int32 (unat csize)) (to_int32 n), fh, fs))"

section \<open>\<open>RedisHandler\<close>\<close>

text \<open>\<open>rd_zset\<close> is the sorted set behind a key: pairs of score and member. Scores are \<open>double\<close>s,
  given here as the natural numbers they stand for.\<close>

record 'r redis_api =
  rd_ping :: string
  rd_set :: "string \<Rightarrow> byte list \<Rightarrow> 'r \<Rightarrow> 'r"
  rd_expire :: "string \<Rightarrow> nat \<Rightarrow> 'r \<Rightarrow> 'r"
  rd_zadd :: "string \<Rightarrow> string \<Rightarrow> nat \<Rightarrow> 'r \<Rightarrow> 'r"
  rd_get :: "string \<Rightarrow> 'r \<Rightarrow> byte list option"
  rd_zrangebyscore :: "string \<Rightarrow> nat \<Rightarrow> nat \<Rightarrow> 'r \<Rightarrow> string list"

text \<open>The conversion from \<open>uint64_t\<close> to \<open>double\<close>: 53 bits of precision, ties to even.\<close>

fun bit_width :: "nat \<Rightarrow> nat" where
  "bit_width n = (if n = 0 then 0 else Suc (bit_width (n div 2)))"

declare bit_width.simps [simp del]

definition to_double :: "u64 \<Rightarrow> nat" where
  "to_double x =
     (let n = unat x in
      if n < 2 ^ 53 then n
      else let u = 2 ^ (bit_width n - 53); q = n div u; r = 2 * (n mod u)
           in (if u < r \<or> (r = u \<and> odd q) then q + 1 else q) * u)"

record RedisHandler =
  rh_key_prefix :: string
  rh_ttl :: nat \<comment> \<open>hours\<close>

definition parse_uint64 :: "string \<Rightarrow> u64 option" where
  "parse_uint64 s = (case stoull s of Inr (v, rest) \<Rightarrow> if rest = [] then Some v else None | Inl _ \<Rightarrow> None)"

definition strip_replay_prefix :: "string \<Rightarrow> string" where
  "strip_replay_prefix cfg = (if take 7 cfg = ''REPLAY-'' then drop 7 cfg else cfg)"

definition RedisHandler_ctor :: "'r redis_api \<Rightarrow> string \<Rightarrow> string \<Rightarrow> u64 \<Rightarrow> RedisHandler res" where
  "RedisHandler_ctor R name address timeout =
     (if rd_ping R \<noteq> ''PONG''
      then Inl (RuntimeError (''Connection to Redis API on address='' @ address @ '' failed.''))
      else Inr \<lparr>rh_key_prefix = ''camera:'' @ strip_replay_prefix name @ '':'', rh_ttl = unat timeout\<rparr>)"

definition make_meta_key :: "RedisHandler \<Rightarrow> u64 \<Rightarrow> string" where
  "make_meta_key rh img = rh_key_prefix rh @ to_string img"

definition ids_key :: "RedisHandler \<Rightarrow> string" where
  "ids_key rh = rh_key_prefix rh @ ''ids''"

definition RedisHandler_send ::
  "'r redis_api \<Rightarrow> (BufferedMetadata \<Rightarrow> byte list) \<Rightarrow> RedisHandler \<Rightarrow> BufferedMetadata \<Rightarrow> 'r \<Rightarrow> 'r" where
  "RedisHandler_send R ser rh meta r =
     (let img = im_image_id (bm_metadata meta); meta_key = make_meta_key rh img
      in rd_zadd R (ids_key rh) (to_string img) (to_double img)
           (rd_expire R meta_key (rh_ttl rh) (rd_set R meta_key (ser meta) r)))"

definition get_metadata ::
  "'r redis_api \<Rightarrow> (byte list \<Rightarrow> BufferedMetadata option) \<Rightarrow> RedisHandler \<Rightarrow> u64 \<Rightarrow> 'r \<Rightarrow> BufferedMetadata option" where
  "get_metadata R parse rh img r =
     (case rd_get R (make_meta_key rh img) r of None \<Rightarrow> None | Some val \<Rightarrow> parse val)"

definition get_image_ids_in_file_range :: "'r redis_api \<Rightarrow> RedisHandler \<Rightarrow> u64 \<Rightarrow> 'r \<Rightarrow> u64 list" where
  "get_image_ids_in_file_range R rh file_base_id r =
     (let end_id = file_base_id + 999
      in List.map_filter parse_uint64
           (rd_zrangebyscore R (ids_key rh) (to_double file_base_id) (to_double end_id) r))"

definition get_metadatas_in_file_range ::
  "'r redis_api \<Rightarrow> (byte list \<Rightarrow> BufferedMetadata option) \<Rightarrow> RedisHandler \<Rightarrow> u64 \<Rightarrow> 'r \<Rightarrow> BufferedMetadata list" where
  "get_metadatas_in_file_range R parse rh file_base_id r =
     List.map_filter (\<lambda>i. get_metadata R parse rh i r) (get_image_ids_in_file_range R rh file_base_id r)"

section \<open>\<open>std-buffer-writer\<close>\<close>

definition bw_calculate_size :: "ImageMetadata \<Rightarrow> u64 res" where
  "bw_calculate_size meta =
     bindE (get_bytes_from_metadata_dtype (im_dtype meta)) (\<lambda>n. Inr (im_height meta * im_width meta * n))"

text \<open>What \<open>main\<close> opens: the database, the files and the image buffer. The product of the \<open>int\<close>s
  may overflow; the division by \<open>8u\<close> is unsigned.\<close>

definition buffer_writer_start ::
  "'r redis_api \<Rightarrow> DetectorConfig \<Rightarrow> string \<Rightarrow> string \<Rightarrow> u64 \<Rightarrow>
   (RedisHandler \<times> FileHandler \<times> RamBufferConfig \<times> CommunicatorConfig) res" where
  "buffer_writer_start R config db_address root_dir timeout =
     bindE (RedisHandler_ctor R (detector_name config) db_address timeout) (\<lambda>sender.
     let writer = FileHandler_ctor (root_dir @ detector_name config) (word_of_int (int_quot (bit_depth config) 8));
         sync_name = detector_name config @ ''-image''
     in bindE (int_mul (image_pixel_width config) (image_pixel_height config)) (\<lambda>p.
        bindE (int_mul p (bit_depth config)) (\<lambda>bits.
        bindE (slots_number config) (\<lambda>slots.
        Inr (sender, writer,
             \<lparr>rbc_buffer_name = sync_name, rbc_n_bytes_data = ucast (word_of_int bits div 8 :: u32), rbc_n_buffer_slots = slots\<rparr>,
             \<lparr>cc_stream_name = sync_name, cc_connection_type = CONN_TYPE_CONNECT, cc_zmq_socket_type = ZMQ_SUB\<rparr>)))))"

record 'r buffer_writer =
  bw_writer :: FileHandler
  bw_fs :: file_system
  bw_redis :: 'r
  bw_stats :: TimedStatsCollector

definition buffer_writer_turn ::
  "os_api \<Rightarrow> blosc_api \<Rightarrow> 'r redis_api \<Rightarrow> (byte list \<Rightarrow> ImageMetadata) \<Rightarrow> (BufferedMetadata \<Rightarrow> byte list) \<Rightarrow>
   RedisHandler \<Rightarrow> Communicator \<Rightarrow> byte list option \<Rightarrow> 'r buffer_writer \<Rightarrow> 'r buffer_writer res" where
  "buffer_writer_turn os b R parse ser sender receiver msg w =
     bindE (received_meta msg) (\<lambda>m. case m of None \<Rightarrow> Inr w
     | Some buffer \<Rightarrow>
         let meta = parse buffer in
         bindE (Communicator_get_data receiver (im_image_id meta)) (\<lambda>p.
         bindE (bw_calculate_size meta) (\<lambda>n.
         bindE (read_bytes (comm_buffer receiver) (unat p) (unat n)) (\<lambda>image_data.
         bindE (FileHandler_write os b (im_image_id meta) image_data (bw_writer w, bw_fs w))
           (\<lambda>((offset, csize), fh, fs).
         let buffered_meta = \<lparr>bm_metadata = meta\<lparr>im_compression := cmp_blosc2, im_size := csize\<rparr>,
                              bm_offset = offset\<rparr>
         in Inr (w\<lparr>bw_writer := fh, bw_fs := fs, bw_redis := RedisHandler_send R ser sender buffered_meta (bw_redis w),
                   bw_stats := timed_process (bw_stats w)\<rparr>))))))"

section \<open>The names of the files\<close>

lemma slash_not_digit: "CHR ''/'' \<notin> set (to_string x)"
  by (auto simp: to_string_def dest: dec_digits_chars)

lemma u64_div_div: "(x :: u64) div 1000 div 1000 = x div 1000000"
  by (simp add: word_unat_eq_iff unat_div div_mult2_eq [symmetric])

lemma get_filename_eq:
  assumes "fh_root_directory fh = fh_root_directory fh'"
  shows "get_filename fh a = get_filename fh' b \<longleftrightarrow> a div 1000 = b div 1000"
proof
  assume "get_filename fh a = get_filename fh' b"
  then have eq: "(to_string (a div 1000000) @ ''000000'') @ CHR ''/'' # (to_string (a div 1000) @ ''000.dat'') =
      (to_string (b div 1000000) @ ''000000'') @ CHR ''/'' # (to_string (b div 1000) @ ''000.dat'')"
    using assms by (simp add: get_filename_def get_folder_path_def)
  have "dropWhile (\<lambda>c. c \<noteq> CHR ''/'') ((to_string x @ ''000000'') @ CHR ''/'' # r) = CHR ''/'' # r" for x r
    using slash_not_digit [of x] unfolding append_assoc by (subst dropWhile_append2) auto
  from arg_cong [OF eq, of "dropWhile (\<lambda>c. c \<noteq> CHR ''/'')", unfolded this]
  show "a div 1000 = b div 1000" by simp
next
  assume "a div 1000 = b div 1000"
  then show "get_filename fh a = get_filename fh' b" using assms u64_div_div [of a] u64_div_div [of b]
    by (simp add: get_filename_def get_folder_path_def)
qed

lemma get_filename_not_Nil [simp]: "get_filename fh img \<noteq> []"
  by (simp add: get_filename_def)

section \<open>What is stored\<close>

text \<open>The bytes of a file, with those that the handler has written and not flushed.\<close>

definition on_disk :: "file_system \<Rightarrow> string \<Rightarrow> byte list" where
  "on_disk fs p = (case file_content fs p of Some c \<Rightarrow> c | None \<Rightarrow> [])"

definition stored :: "FileHandler \<Rightarrow> file_system \<Rightarrow> string \<Rightarrow> byte list" where
  "stored fh fs p = on_disk fs p @ (if fst_open (fh_current_file fh) = Some p then fst_pending (fh_current_file fh) else [])"

lemma on_disk_append [simp]: "on_disk (file_append p d fs) q = on_disk fs q @ (if q = p then d else [])"
  by (simp add: on_disk_def file_append_def file_content_def map_of_um_assign)

lemma on_disk_dirs [simp]: "on_disk (fs\<lparr>fs_dirs := ds\<rparr>) q = on_disk fs q"
  by (simp add: on_disk_def file_content_def)

lemma on_disk_close: "on_disk (snd (stream_close (fh_current_file fh) fs)) q = stored fh fs q"
  by (simp add: stream_close_def stream_flush_def stored_def split: option.splits)

lemma unat_word_of_nat: "n < 2 ^ 64 \<Longrightarrow> unat (word_of_nat n :: u64) = n"
  by (simp add: unsigned_of_nat take_bit_nat_eq_self)

text \<open>The handler is at the end of its file.\<close>

definition fh_ok :: "FileHandler \<Rightarrow> file_system \<Rightarrow> bool" where
  "fh_ok fh fs \<longleftrightarrow> fst_open (fh_current_file fh) = Some (fh_current_filename fh) \<and> fst_good (fh_current_file fh) \<and>
     unat (fh_current_offset fh) = length (stored fh fs (fh_current_filename fh))"

definition permissive :: "os_api \<Rightarrow> bool" where
  "permissive os \<longleftrightarrow> (\<forall>path. os_may_create os path \<and> os_may_open os path)"

lemma open_new_file_ok:
  assumes "permissive os"
  shows "\<exists>fs'. open_new_file os img f (fh, fs) = Inr (fh\<lparr>fh_current_filename := f, fh_current_offset := 0,
      fh_current_file := \<lparr>fst_open = Some f, fst_good = True, fst_pending = []\<rparr>\<rparr>, fs') \<and>
    (\<forall>p. on_disk fs' p = stored fh fs p)"
  using assms
  by (auto simp: open_new_file_def create_directories_def permissive_def stream_flush_def stream_close_def
    stream_open_app_def stored_def split: option.splits)

lemma FileHandler_write_at_end:
  assumes "fh_ok fh fs" and "fh_current_filename fh = get_filename fh img"
    and "length (stored fh fs (get_filename fh img)) + length (fh_compress b d) < 2 ^ 64"
  shows "\<exists>fh'. FileHandler_write os b img d (fh, fs) =
      Inr ((word_of_nat (length (stored fh fs (get_filename fh img))), word_of_nat (length (fh_compress b d))), fh', fs) \<and>
    fh_ok fh' fs \<and> fh_current_filename fh' = get_filename fh img \<and> fh_root_directory fh' = fh_root_directory fh \<and>
    (\<forall>p. stored fh' fs p = stored fh fs p @ (if p = get_filename fh img then fh_compress b d else []))"
proof -
  have "unat (fh_current_offset fh) = length (stored fh fs (get_filename fh img))"
    using assms(1,2) by (simp add: fh_ok_def)
  then have "word_of_nat (unat (fh_current_offset fh)) = (word_of_nat (length (stored fh fs (get_filename fh img))) :: u64)"
    by (rule arg_cong)
  then have off: "fh_current_offset fh = word_of_nat (length (stored fh fs (get_filename fh img)))" by simp
  have "unat (fh_current_offset fh + word_of_nat (length (fh_compress b d))) =
      length (stored fh fs (get_filename fh img)) + length (fh_compress b d)"
    using assms(3) unfolding off of_nat_add [symmetric] by (rule unat_word_of_nat)
  moreover define fh' where "fh' = fh\<lparr>fh_current_file := (fh_current_file fh)
        \<lparr>fst_pending := fst_pending (fh_current_file fh) @ fh_compress b d\<rparr>,
      fh_current_offset := fh_current_offset fh + word_of_nat (length (fh_compress b d))\<rparr>"
  moreover have "stored fh' fs p = stored fh fs p @ (if p = get_filename fh img then fh_compress b d else [])" for p
    using assms(1,2) by (simp add: fh'_def stored_def fh_ok_def)
  moreover have "FileHandler_write os b img d (fh, fs) = Inr ((fh_current_offset fh, word_of_nat (length (fh_compress b d))), fh', fs)"
    using assms(1,2)
    by (simp add: FileHandler_write_def Let_def write_data_and_update_offset_def stream_write_def fh'_def fh_ok_def)
  ultimately show ?thesis using assms(1,2) off by (intro exI [of _ fh']) (simp add: fh_ok_def)
qed


text \<open>A change of the file sets the offset to zero, whatever the new file holds.\<close>

lemma FileHandler_write_reopened:
  assumes "permissive os" and "fh_current_filename fh \<noteq> get_filename fh img"
  shows "\<exists>fh' fs'. FileHandler_write os b img d (fh, fs) =
      Inr ((0, word_of_nat (length (fh_compress b d))), fh', fs') \<and>
    fst_open (fh_current_file fh') = Some (get_filename fh img) \<and> fst_good (fh_current_file fh') \<and>
    fh_current_offset fh' = word_of_nat (length (fh_compress b d)) \<and>
    fh_current_filename fh' = get_filename fh img \<and> fh_root_directory fh' = fh_root_directory fh \<and>
    (\<forall>p. stored fh' fs' p = stored fh fs p @ (if p = get_filename fh img then fh_compress b d else []))"
proof -
  obtain fs1 where fs1: "open_new_file os img (get_filename fh img) (fh, fs) =
      Inr (fh\<lparr>fh_current_filename := get_filename fh img, fh_current_offset := 0,
        fh_current_file := \<lparr>fst_open = Some (get_filename fh img), fst_good = True, fst_pending = []\<rparr>\<rparr>, fs1)"
    "\<And>p. on_disk fs1 p = stored fh fs p"
    using open_new_file_ok [OF assms(1)] by blast
  define fh' where "fh' = fh\<lparr>fh_current_filename := get_filename fh img,
      fh_current_file := \<lparr>fst_open = Some (get_filename fh img), fst_good = True, fst_pending = fh_compress b d\<rparr>,
      fh_current_offset := word_of_nat (length (fh_compress b d))\<rparr>"
  have "stored fh' fs1 p = stored fh fs p @ (if p = get_filename fh img then fh_compress b d else [])" for p
    unfolding fh'_def stored_def [of "_\<lparr>fh_current_offset := _\<rparr>"] fs1(2) by simp
  moreover have "FileHandler_write os b img d (fh, fs) = Inr ((0, word_of_nat (length (fh_compress b d))), fh', fs1)"
    using assms(2) fs1(1)
    by (simp add: FileHandler_write_def Let_def write_data_and_update_offset_def stream_write_def fh'_def)
  ultimately show ?thesis by (intro exI [of _ fh'] exI [of _ fs1]) (simp add: fh'_def)
qed

lemma FileHandler_write_fresh:
  assumes "permissive os" and "fh_current_filename fh \<noteq> get_filename fh img"
    and "stored fh fs (get_filename fh img) = []" and "length (fh_compress b d) < 2 ^ 64"
  shows "\<exists>fh' fs'. FileHandler_write os b img d (fh, fs) =
      Inr ((0, word_of_nat (length (fh_compress b d))), fh', fs') \<and>
    fh_ok fh' fs' \<and> fh_current_filename fh' = get_filename fh img \<and> fh_root_directory fh' = fh_root_directory fh \<and>
    (\<forall>p. stored fh' fs' p = stored fh fs p @ (if p = get_filename fh img then fh_compress b d else []))"
  using FileHandler_write_reopened [OF assms(1,2), of b d fs] unat_word_of_nat [OF assms(4)] assms(3)
  by (auto simp: fh_ok_def)

text \<open>A sequence of writes.\<close>

fun fh_writes ::
  "os_api \<Rightarrow> blosc_api \<Rightarrow> (u64 \<times> byte list) list \<Rightarrow> FileHandler \<times> file_system \<Rightarrow>
   ((u64 \<times> u64) list \<times> FileHandler \<times> file_system) res" where
  "fh_writes os b [] st = Inr ([], st)"
| "fh_writes os b ((img, d) # ws) st =
     bindE (FileHandler_write os b img d st) (\<lambda>(place, st1).
     bindE (fh_writes os b ws st1) (\<lambda>(places, st2). Inr (place # places, st2)))"

text \<open>The next image goes to the end of the open file or to a new one.\<close>

definition ready_for :: "u64 list \<Rightarrow> FileHandler \<Rightarrow> file_system \<Rightarrow> bool" where
  "ready_for ids fh fs \<longleftrightarrow>
     (fh_current_filename fh = [] \<or> (fh_ok fh fs \<and> (\<exists>k. fh_current_filename fh = get_filename fh k \<and> (\<forall>i \<in> set ids. k \<le> i)))) \<and>
     (\<forall>i \<in> set ids. get_filename fh i = fh_current_filename fh \<or> stored fh fs (get_filename fh i) = [])"

lemma u64_div_between: "(k :: u64) \<le> i \<Longrightarrow> i \<le> j \<Longrightarrow> k div 1000 = j div 1000 \<Longrightarrow> i div 1000 = j div 1000"
  using div_le_mono [of "unat k" "unat i" 1000] div_le_mono [of "unat i" "unat j" 1000]
  by (simp add: word_unat_eq_iff unat_div word_le_nat_alt)

lemma ready_for_step:
  assumes ready: "ready_for (img # ids) fh fs" and sorted: "sorted (img # ids)"
    and fh': "fh_ok fh' fs'" "fh_current_filename fh' = get_filename fh img"
      "fh_root_directory fh' = fh_root_directory fh"
    and stored': "\<And>p. stored fh' fs' p = stored fh fs p @ (if p = get_filename fh img then c else [])"
  shows "ready_for ids fh' fs'"
proof -
  have name: "get_filename fh' j = get_filename fh j" for j
    using fh'(3) by (simp add: get_filename_def get_folder_path_def)
  have "get_filename fh j = get_filename fh img \<or> stored fh fs (get_filename fh j) = []" if j: "j \<in> set ids" for j
  proof (cases "get_filename fh j = fh_current_filename fh")
    case True
    then obtain k where "fh_current_filename fh = get_filename fh k" "k \<le> img"
      using ready by (auto simp: ready_for_def)
    with True j sorted show ?thesis
      using u64_div_between [of k img j] by (simp add: get_filename_eq)
  next
    case False
    then show ?thesis using ready j by (auto simp: ready_for_def)
  qed
  then show ?thesis using fh' sorted unfolding ready_for_def stored' name by auto
qed

lemma FileHandler_write_ready:
  assumes "permissive os" and "ready_for (img # ids) fh fs"
    and "length (stored fh fs (get_filename fh img)) + length (fh_compress b d) < 2 ^ 64"
  shows "\<exists>fh' fs'. FileHandler_write os b img d (fh, fs) =
      Inr ((word_of_nat (length (stored fh fs (get_filename fh img))), word_of_nat (length (fh_compress b d))), fh', fs') \<and>
    fh_ok fh' fs' \<and> fh_current_filename fh' = get_filename fh img \<and> fh_root_directory fh' = fh_root_directory fh \<and>
    (\<forall>p. stored fh' fs' p = stored fh fs p @ (if p = get_filename fh img then fh_compress b d else []))"
proof (cases "fh_current_filename fh = get_filename fh img")
  case True
  then have "fh_ok fh fs" using assms(2) by (auto simp: ready_for_def)
  from FileHandler_write_at_end [OF this True assms(3)] show ?thesis by blast
next
  case False
  then have "stored fh fs (get_filename fh img) = []" using assms(2) by (auto simp: ready_for_def)
  with FileHandler_write_fresh [OF assms(1) False this] assms(3) show ?thesis by auto
qed

text \<open>Where the bytes of each image end up.\<close>

definition place_holds :: "blosc_api \<Rightarrow> FileHandler \<Rightarrow> (string \<Rightarrow> byte list) \<Rightarrow> u64 \<times> byte list \<Rightarrow> u64 \<times> u64 \<Rightarrow> bool" where
  "place_holds b fh content w place \<longleftrightarrow>
     unat (fst place) + unat (snd place) \<le> length (content (get_filename fh (fst w))) \<and>
     segment (unat (fst place)) (unat (snd place)) (content (get_filename fh (fst w))) = fh_compress b (snd w)"

lemma place_holds_mono:
  assumes "place_holds b fh content w place" and "\<forall>p. \<exists>t. content' p = content p @ t"
  shows "place_holds b fh content' w place"
proof -
  obtain t where "content' (get_filename fh (fst w)) = content (get_filename fh (fst w)) @ t" using assms(2) by blast
  then show ?thesis using assms(1) by (auto simp: place_holds_def segment_def)
qed

lemma fh_writes_stored:
  assumes "permissive os" and "sorted (map fst ws)" and "ready_for (map fst ws) fh fs"
    and "\<forall>p. length (stored fh fs p) + sum_list (map (\<lambda>w. length (fh_compress b (snd w))) ws) < 2 ^ 64"
  shows "\<exists>places fh' fs'. fh_writes os b ws (fh, fs) = Inr (places, fh', fs') \<and>
    list_all2 (place_holds b fh (stored fh' fs')) ws places \<and>
    (\<forall>p. \<exists>t. stored fh' fs' p = stored fh fs p @ t \<and> length t \<le> sum_list (map (\<lambda>w. length (fh_compress b (snd w))) ws))"
  using assms(2-4)
proof (induction ws arbitrary: fh fs)
  case Nil
  then show ?case by simp
next
  case (Cons w ws)
  obtain img d where w: "w = (img, d)" by (cases w)
  let ?c = "fh_compress b d" and ?f = "get_filename fh img"
  have len: "length (stored fh fs ?f) + length ?c < 2 ^ 64"
    using Cons.prems(3) [rule_format, of ?f] by (simp add: w)
  obtain fh1 fs1 where wr: "FileHandler_write os b img d (fh, fs) =
      Inr ((word_of_nat (length (stored fh fs ?f)), word_of_nat (length ?c)), fh1, fs1)"
    and ok: "fh_ok fh1 fs1" "fh_current_filename fh1 = ?f" "fh_root_directory fh1 = fh_root_directory fh"
    and st: "\<And>p. stored fh1 fs1 p = stored fh fs p @ (if p = ?f then ?c else [])"
    using FileHandler_write_ready [OF assms(1) _ len, of "map fst ws"] Cons.prems(2) by (simp add: w) blast
  have name: "get_filename fh1 = get_filename fh"
    using ok(3) by (auto simp: get_filename_def get_folder_path_def)
  have "ready_for (map fst ws) fh1 fs1"
    using ready_for_step [OF _ _ ok st] Cons.prems(1,2) by (simp add: w)
  moreover have "\<forall>p. length (stored fh1 fs1 p) + sum_list (map (\<lambda>w. length (fh_compress b (snd w))) ws) < 2 ^ 64"
  proof
    fix p
    show "length (stored fh1 fs1 p) + sum_list (map (\<lambda>w. length (fh_compress b (snd w))) ws) < 2 ^ 64"
      using Cons.prems(3) [rule_format, of p] by (auto simp: st w)
  qed
  ultimately obtain places fh' fs' where rest: "fh_writes os b ws (fh1, fs1) = Inr (places, fh', fs')"
    "list_all2 (place_holds b fh1 (stored fh' fs')) ws places"
    and grow: "\<And>p. \<exists>t. stored fh' fs' p = stored fh1 fs1 p @ t \<and> length t \<le> sum_list (map (\<lambda>w. length (fh_compress b (snd w))) ws)"
    using Cons.IH [of fh1 fs1] Cons.prems(1) by (simp add: w) blast
  have "place_holds b fh (stored fh1 fs1) w (word_of_nat (length (stored fh fs ?f)), word_of_nat (length ?c))"
    using len by (simp add: place_holds_def w st unat_word_of_nat segment_def)
  then have "place_holds b fh (stored fh' fs') w (word_of_nat (length (stored fh fs ?f)), word_of_nat (length ?c))"
    using grow by (elim place_holds_mono) blast
  moreover have "place_holds b fh1 = place_holds b fh" by (intro ext) (simp add: place_holds_def name)
  moreover have "\<exists>t. stored fh' fs' p = stored fh fs p @ t \<and>
      length t \<le> length ?c + sum_list (map (\<lambda>w. length (fh_compress b (snd w))) ws)" for p
    using grow [of p] by (auto simp: st)
  ultimately show ?case using wr rest by (simp add: w)
qed

section \<open>Reading\<close>

text \<open>The documented behaviour of Blosc2: what was compressed within the given space is decompressed
  to the original.\<close>

definition blosc_laws :: "blosc_api \<Rightarrow> bool" where
  "blosc_laws b \<longleftrightarrow> (\<forall>d c. int (length d + bl_max_overhead b) < 2 ^ 31 \<longrightarrow>
     bl_compress b d (int (length d)) (int (length d + bl_max_overhead b)) = Some c \<longrightarrow>
     c \<noteq> [] \<and> length c \<le> length d + bl_max_overhead b \<and> bl_decompress b c (int (length c)) (int (length d)) = Some d)"

text \<open>Blosc2 compresses the image.\<close>

definition compressible :: "blosc_api \<Rightarrow> byte list \<Rightarrow> bool" where
  "compressible b d \<longleftrightarrow> int (length d + bl_max_overhead b) < 2 ^ 31 \<and>
     bl_compress b d (int (length d)) (int (length d + bl_max_overhead b)) \<noteq> None"

lemma decompress_compress:
  assumes "blosc_laws b" and "compressible b d"
  shows "fh_compress b d \<noteq> [] \<and> length (fh_compress b d) \<le> length d + bl_max_overhead b \<and>
    bl_decompress b (fh_compress b d) (to_int32 (length (fh_compress b d))) (to_int32 (length d)) = Some d"
proof -
  obtain c where c: "bl_compress b d (int (length d)) (int (length d + bl_max_overhead b)) = Some c"
    and small: "int (length d + bl_max_overhead b) < 2 ^ 31"
    using assms(2) by (auto simp: compressible_def)
  from assms(1) c small have "c \<noteq> []" "length c \<le> length d + bl_max_overhead b"
    "bl_decompress b c (int (length c)) (int (length d)) = Some d"
    unfolding blosc_laws_def by blast+
  moreover have "fh_compress b d = c" using c small by (simp add: fh_compress_def to_int32_small)
  ultimately show ?thesis using small by (simp add: to_int32_small)
qed

text \<open>A handler that has only read, without a failure.\<close>

definition reader_ok :: "FileHandler \<Rightarrow> bool" where
  "reader_ok fh \<longleftrightarrow> fst_pending (fh_current_file fh) = [] \<and>
     (fh_current_filename fh = [] \<longrightarrow> fst_open (fh_current_file fh) = None) \<and>
     (fh_current_filename fh \<noteq> [] \<longrightarrow> fst_open (fh_current_file fh) = Some (fh_current_filename fh) \<and> fst_good (fh_current_file fh))"

lemma close_reader: "fst_pending st = [] \<Longrightarrow> snd (stream_close st fs) = fs"
  by (simp add: stream_close_def stream_flush_def split: option.splits)

text \<open>Reading changes no file, whether it succeeds or not.\<close>

lemma open_read_file_pending:
  assumes "fst_pending (fh_current_file fh) = []" and "open_read_file img (fh, fs) = (r, fh', fs')"
  shows "fst_pending (fh_current_file fh') = [] \<and> fs' = fs \<and> fh_root_directory fh' = fh_root_directory fh"
  using assms close_reader [OF assms(1), of fs]
  by (auto simp: open_read_file_def Let_def stream_open_in_def split: if_splits prod.splits)

lemma FileHandler_read_pending:
  assumes "fst_pending (fh_current_file fh) = []" and "FileHandler_read b img n offset csize (fh, fs) = Inr (r, fh', fs')"
  shows "fst_pending (fh_current_file fh') = [] \<and> fs' = fs \<and> fh_root_directory fh' = fh_root_directory fh"
  using assms(2) open_read_file_pending [OF assms(1), of img fs]
  by (auto simp: FileHandler_read_def Let_def split: if_splits prod.splits)

lemma FileHandler_read_ok:
  assumes "unat csize \<le> n + bl_max_overhead b"
  shows "is_ok (FileHandler_read b img n offset csize st)"
proof -
  have "\<not> n + bl_max_overhead b < length (segment (unat offset) (unat csize) content)" for content :: "byte list"
    using assms by (simp add: segment_def)
  then show ?thesis by (auto simp: FileHandler_read_def Let_def split: prod.splits)
qed

lemma open_read_file_ok:
  assumes "reader_ok fh" and "file_content fs (get_filename fh img) \<noteq> None"
  shows "\<exists>fh'. open_read_file img (fh, fs) = (True, fh', fs) \<and> reader_ok fh' \<and>
    fst_open (fh_current_file fh') = Some (get_filename fh img) \<and> fst_good (fh_current_file fh') \<and>
    fh_root_directory fh' = fh_root_directory fh"
proof (cases "get_filename fh img = fh_current_filename fh")
  case True
  then have "fh_current_filename fh \<noteq> []" by (metis get_filename_not_Nil)
  then show ?thesis using True assms(1) by (auto simp: open_read_file_def reader_ok_def Let_def)
next
  case False
  obtain s where "stream_close (fh_current_file fh) fs = (s, fs)"
    using close_reader [of "fh_current_file fh" fs] assms(1) by (auto simp: reader_ok_def prod_eq_iff)
  with False assms(2) show ?thesis
    by (auto simp: open_read_file_def reader_ok_def stream_open_in_def Let_def)
qed

lemma FileHandler_read_place:
  assumes "blosc_laws b" and "compressible b d" and "reader_ok fh"
    and "place_holds b fh (on_disk fs) (img, d) place" and "length (on_disk fs (get_filename fh img)) < 2 ^ 63"
  shows "\<exists>fh'. FileHandler_read b img (length d) (fst place) (snd place) (fh, fs) = Inr (Some d, fh', fs) \<and>
    reader_ok fh' \<and> fh_root_directory fh' = fh_root_directory fh"
proof -
  have got: "segment (unat (fst place)) (unat (snd place)) (on_disk fs (get_filename fh img)) = fh_compress b d"
    and fits: "unat (fst place) + unat (snd place) \<le> length (on_disk fs (get_filename fh img))"
    using assms(4) by (simp_all add: place_holds_def)
  have "on_disk fs (get_filename fh img) \<noteq> []"
    using decompress_compress [OF assms(1,2)] got by (auto simp: segment_def)
  then have there: "file_content fs (get_filename fh img) \<noteq> None" by (auto simp: on_disk_def split: option.splits)
  obtain fh' where o: "open_read_file img (fh, fs) = (True, fh', fs)" and fh': "reader_ok fh'"
    "fst_open (fh_current_file fh') = Some (get_filename fh img)" "fst_good (fh_current_file fh')"
    "fh_root_directory fh' = fh_root_directory fh"
    using open_read_file_ok [OF assms(3) there] by blast
  have content: "(case file_content fs (get_filename fh img) of Some c \<Rightarrow> c | None \<Rightarrow> []) = on_disk fs (get_filename fh img)"
    by (simp add: on_disk_def)
  have "length (fh_compress b d) = unat (snd place)" using fits unfolding got [symmetric] by simp
  moreover have "\<not> 2 ^ 63 \<le> unat (fst place)" using fits assms(5) by linarith
  ultimately show ?thesis using decompress_compress [OF assms(1,2)] fh' o
    by (simp add: FileHandler_read_def Let_def content got)
qed

text \<open>A sequence of reads.\<close>

fun fh_reads ::
  "blosc_api \<Rightarrow> (u64 \<times> nat \<times> u64 \<times> u64) list \<Rightarrow> FileHandler \<times> file_system \<Rightarrow> byte list option list res" where
  "fh_reads b [] st = Inr []"
| "fh_reads b ((img, n, place) # rs) st =
     bindE (FileHandler_read b img n (fst place) (snd place) st) (\<lambda>(d, st1).
     bindE (fh_reads b rs st1) (\<lambda>ds. Inr (d # ds)))"

lemma place_holds_cong:
  "fh_root_directory fh = fh_root_directory fh' \<Longrightarrow> place_holds b fh content w place = place_holds b fh' content w place"
  by (simp add: place_holds_def get_filename_def get_folder_path_def)

lemma fh_reads_places:
  assumes "blosc_laws b" and "reader_ok fh" and "\<forall>p. length (on_disk fs p) < 2 ^ 63"
    and "\<forall>r \<in> set rs. compressible b (snd (fst r)) \<and> place_holds b fh (on_disk fs) (fst r) (snd r)"
  shows "fh_reads b (map (\<lambda>((img, d), place). (img, length d, place)) rs) (fh, fs) = Inr (map (\<lambda>r. Some (snd (fst r))) rs)"
  using assms(2-4)
proof (induction rs arbitrary: fh fs)
  case Nil
  then show ?case by simp
next
  case (Cons r rs)
  obtain img d place where r: "r = ((img, d), place)" by (metis surj_pair)
  have now: "compressible b d" "place_holds b fh (on_disk fs) (img, d) place" using Cons.prems(3) by (simp_all add: r)
  obtain fh' where read: "FileHandler_read b img (length d) (fst place) (snd place) (fh, fs) = Inr (Some d, fh', fs)"
    and nx: "reader_ok fh'" "fh_root_directory fh' = fh_root_directory fh"
    using FileHandler_read_place [OF assms(1) now(1) Cons.prems(1) now(2)] Cons.prems(2) by blast
  have "fh_reads b (map (\<lambda>((img, d), place). (img, length d, place)) rs) (fh', fs) = Inr (map (\<lambda>r. Some (snd (fst r))) rs)"
    using Cons.IH [OF nx(1), of fs] Cons.prems(2,3) by (simp add: place_holds_cong [OF nx(2)])
  then show ?case using read by (simp add: r)
qed

text \<open>C9. What the buffer writer has written is read back. Images with increasing ids go to the files of
  their blocks, which did not exist before; once the last file is closed, a reader that looks up
  any selection of them, in any order and repeatedly, at the places the writer has recorded, gets exactly
  the bytes that were written.\<close>

theorem buffer_files_round_trip:
  assumes "permissive os" and "blosc_laws b" and "sorted (map fst ws)" and "\<forall>w \<in> set ws. compressible b (snd w)"
    and "fs_files fs = []" and "sum_list (map (\<lambda>w. length (fh_compress b (snd w))) ws) < 2 ^ 63"
  shows "\<exists>places fh fs'. fh_writes os b ws (FileHandler_ctor root n, fs) = Inr (places, fh, fs') \<and>
    length places = length ws \<and>
    (\<forall>ks. set ks \<subseteq> {..<length ws} \<longrightarrow>
      fh_reads b (map (\<lambda>k. (fst (ws ! k), length (snd (ws ! k)), places ! k)) ks)
        (FileHandler_ctor root n, snd (stream_close (fh_current_file fh) fs')) = Inr (map (\<lambda>k. Some (snd (ws ! k))) ks))"
proof -
  let ?fh = "FileHandler_ctor root n" and ?total = "sum_list (map (\<lambda>w. length (fh_compress b (snd w))) ws)"
  have none: "stored ?fh fs p = []" for p
    using assms(5) by (simp add: stored_def on_disk_def file_content_def FileHandler_ctor_def closed_stream_def)
  then have "ready_for (map fst ws) ?fh fs" "\<forall>p. length (stored ?fh fs p) + ?total < 2 ^ 64"
    using assms(6) by (simp_all add: ready_for_def FileHandler_ctor_def)
  from fh_writes_stored [OF assms(1,3) this] obtain places fh fs' where
    wr: "fh_writes os b ws (?fh, fs) = Inr (places, fh, fs')"
    and places: "list_all2 (place_holds b ?fh (stored fh fs')) ws places"
    and stored: "\<And>p. length (stored fh fs' p) \<le> ?total"
    unfolding none by auto
  let ?disk = "snd (stream_close (fh_current_file fh) fs')"
  have disk: "on_disk ?disk = stored fh fs'" by (rule ext) (rule on_disk_close)
  have "fh_reads b (map (\<lambda>k. (fst (ws ! k), length (snd (ws ! k)), places ! k)) ks) (?fh, ?disk) =
      Inr (map (\<lambda>k. Some (snd (ws ! k))) ks)" if ks: "set ks \<subseteq> {..<length ws}" for ks
  proof -
    have "\<forall>r \<in> set (map (\<lambda>k. (ws ! k, places ! k)) ks). compressible b (snd (fst r)) \<and> place_holds b ?fh (on_disk ?disk) (fst r) (snd r)"
      using ks assms(4) places by (auto simp: disk list_all2_conv_all_nth)
    moreover have "reader_ok ?fh" by (simp add: reader_ok_def FileHandler_ctor_def closed_stream_def)
    moreover have "\<forall>p. length (on_disk ?disk p) < 2 ^ 63" using stored assms(6) by (auto simp: disk intro: le_less_trans)
    ultimately show ?thesis
      using fh_reads_places [OF assms(2), of ?fh ?disk "map (\<lambda>k. (ws ! k, places ! k)) ks"] by (simp add: comp_def case_prod_unfold)
  qed
  then show ?thesis using wr places by (auto simp: list_all2_lengthD)
qed

text \<open>A Blosc2 that adds a header byte, for the examples.\<close>

definition header_blosc :: blosc_api where
  "header_blosc = \<lparr>bl_max_overhead = 32, bl_compress = (\<lambda>d _ n. if int (length d) < n then Some (1 # d) else None),
     bl_decompress = (\<lambda>c _ _. Some (tl c))\<rparr>"

definition open_os :: os_api where
  "open_os = \<lparr>os_may_create = (\<lambda>_. True), os_may_open = (\<lambda>_. True)\<rparr>"

lemma header_blosc_laws: "blosc_laws header_blosc" "permissive open_os"
  by (auto simp: blosc_laws_def header_blosc_def permissive_def open_os_def split: if_splits)

theorem buffer_files_round_trip_witness:
  "\<exists>places fh fs'. fh_writes open_os header_blosc [(998, [7, 8]), (999, [9]), (1000, [5, 5, 5])]
      (FileHandler_ctor ''/buffer'' 2, \<lparr>fs_dirs = [], fs_files = []\<rparr>) = Inr (places, fh, fs') \<and>
    fh_reads header_blosc [(999, 1, places ! 1), (1000, 3, places ! 2), (998, 2, places ! 0)]
      (FileHandler_ctor ''/buffer'' 2, snd (stream_close (fh_current_file fh) fs')) =
      Inr [Some [9], Some [5, 5, 5], Some [7, 8]]"
proof -
  let ?ws = "[(998, [7, 8]), (999, [9]), (1000, [5, 5, 5])] :: (u64 \<times> byte list) list"
  have c: "\<forall>w \<in> set ?ws. compressible header_blosc (snd w)" by (simp add: compressible_def header_blosc_def)
  have n: "sum_list (map (\<lambda>w. length (fh_compress header_blosc (snd w))) ?ws) < 2 ^ 63"
    by (simp add: fh_compress_def header_blosc_def to_int32_small)
  obtain places fh fs' where "fh_writes open_os header_blosc ?ws (FileHandler_ctor ''/buffer'' 2, \<lparr>fs_dirs = [], fs_files = []\<rparr>) =
      Inr (places, fh, fs')"
    and "\<And>ks. set ks \<subseteq> {..<length ?ws} \<Longrightarrow>
      fh_reads header_blosc (map (\<lambda>k. (fst (?ws ! k), length (snd (?ws ! k)), places ! k)) ks)
        (FileHandler_ctor ''/buffer'' 2, snd (stream_close (fh_current_file fh) fs')) = Inr (map (\<lambda>k. Some (snd (?ws ! k))) ks)"
    using buffer_files_round_trip [OF header_blosc_laws(2) header_blosc_laws(1) _ c, of "\<lparr>fs_dirs = [], fs_files = []\<rparr>" "''/buffer''" 2] n
    by auto
  with this(2) [of "[1, 2, 0]"] show ?thesis
    by (intro exI [of _ places] exI [of _ fh] exI [of _ fs'] conjI) (simp_all del: fh_writes.simps fh_reads.simps add: eval_nat_numeral)
qed

text \<open>A file that is opened again is appended to, but the handler starts to count at zero: the place it
  records for the image is the beginning of the file, where other bytes are.\<close>

theorem reopened_file_misplaced:
  assumes "permissive os" and "fh_current_filename fh \<noteq> get_filename fh img"
    and "length (fh_compress b d) < 2 ^ 64" and "length (fh_compress b d) \<le> length (stored fh fs (get_filename fh img))"
  shows "\<exists>place fh' fs'. FileHandler_write os b img d (fh, fs) = Inr (place, fh', fs') \<and>
    segment (unat (fst place)) (unat (snd place)) (stored fh' fs' (get_filename fh img)) =
      take (length (fh_compress b d)) (stored fh fs (get_filename fh img)) \<and>
    drop (length (stored fh fs (get_filename fh img))) (stored fh' fs' (get_filename fh img)) = fh_compress b d"
  using FileHandler_write_reopened [OF assms(1,2), of b d fs] assms(4) unat_word_of_nat [OF assms(3)]
  by (auto simp: segment_def)

definition used_disk :: file_system where
  "used_disk = \<lparr>fs_dirs = [], fs_files = [(''/buffer/0000000/0000.dat'', [1, 7, 8])]\<rparr>"

theorem reopened_file_misplaced_witness:
  "\<exists>place fh' fs'. FileHandler_write open_os header_blosc 5 [9] (FileHandler_ctor ''/buffer'' 2, used_disk) = Inr (place, fh', fs') \<and>
    segment (unat (fst place)) (unat (snd place)) (stored fh' fs' ''/buffer/0000000/0000.dat'') = [1, 7]"
proof -
  have name: "get_filename (FileHandler_ctor ''/buffer'' 2) 5 = ''/buffer/0000000/0000.dat''"
    by code_simp
  have c: "fh_compress header_blosc [9] = [1, 9]" by (simp add: fh_compress_def header_blosc_def to_int32_small)
  have st: "stored (FileHandler_ctor ''/buffer'' 2) used_disk ''/buffer/0000000/0000.dat'' = [1, 7, 8]"
    by (simp add: stored_def on_disk_def file_content_def used_disk_def FileHandler_ctor_def closed_stream_def)
  show ?thesis
    using reopened_file_misplaced [OF header_blosc_laws(2), of "FileHandler_ctor ''/buffer'' 2" 5 header_blosc "[9]" used_disk]
    unfolding name c st by (auto simp: FileHandler_ctor_def)
qed

section \<open>The metadata in the database\<close>

text \<open>The documented behaviour of the Redis commands, for keys that do not expire meanwhile. \<open>zs k r\<close> is
  the sorted set behind the key \<open>k\<close>: a member has one score, and the set is in the order of the scores.\<close>

definition redis_laws :: "'r redis_api \<Rightarrow> (string \<Rightarrow> 'r \<Rightarrow> (nat \<times> string) list) \<Rightarrow> bool" where
  "redis_laws R zs \<longleftrightarrow>
     (\<forall>k k' v r. rd_get R k (rd_set R k' v r) = (if k = k' then Some v else rd_get R k r)) \<and>
     (\<forall>k k' t r. rd_get R k (rd_expire R k' t r) = rd_get R k r) \<and>
     (\<forall>k k' m s r. k \<noteq> k' \<longrightarrow> rd_get R k (rd_zadd R k' m s r) = rd_get R k r) \<and>
     (\<forall>k k' v r. k \<noteq> k' \<longrightarrow> zs k (rd_set R k' v r) = zs k r) \<and>
     (\<forall>k k' t r. zs k (rd_expire R k' t r) = zs k r) \<and>
     (\<forall>k m s r. set (zs k (rd_zadd R k m s r)) = insert (s, m) {p \<in> set (zs k r). snd p \<noteq> m} \<and>
        sorted (map fst (zs k (rd_zadd R k m s r))) \<and> distinct (zs k (rd_zadd R k m s r))) \<and>
     (\<forall>k lo hi r. rd_zrangebyscore R k lo hi r = map snd (filter (\<lambda>p. lo \<le> fst p \<and> fst p \<le> hi) (zs k r)))"

lemma redis_lawsD:
  assumes "redis_laws R zs"
  shows "rd_get R k (rd_set R k' v r) = (if k = k' then Some v else rd_get R k r)"
    and "rd_get R k (rd_expire R k' t r) = rd_get R k r"
    and "k \<noteq> k' \<Longrightarrow> rd_get R k (rd_zadd R k' m sc r) = rd_get R k r"
    and "k \<noteq> k' \<Longrightarrow> zs k (rd_set R k' v r) = zs k r"
    and "zs k (rd_expire R k' t r) = zs k r"
    and "set (zs k (rd_zadd R k m sc r)) = insert (sc, m) {p \<in> set (zs k r). snd p \<noteq> m}"
    and "sorted (map fst (zs k (rd_zadd R k m sc r)))" and "distinct (zs k (rd_zadd R k m sc r))"
    and "rd_zrangebyscore R k lo hi r = map snd (filter (\<lambda>p. lo \<le> fst p \<and> fst p \<le> hi) (zs k r))"
  using assms by (simp_all add: redis_laws_def)

abbreviation meta_id :: "BufferedMetadata \<Rightarrow> u64" where
  "meta_id m \<equiv> im_image_id (bm_metadata m)"

lemma ids_key_neq: "make_meta_key rh img \<noteq> ids_key rh"
proof
  assume "make_meta_key rh img = ids_key rh"
  then have "CHR ''i'' \<in> set (to_string img)" by (simp add: make_meta_key_def ids_key_def)
  then show False by (auto simp: to_string_def dest: dec_digits_chars)
qed

lemma make_meta_key_inject [simp]: "make_meta_key rh a = make_meta_key rh c \<longleftrightarrow> a = c"
  by (simp add: make_meta_key_def)

lemma to_double_small: "unat x < 2 ^ 53 \<Longrightarrow> to_double x = unat x"
  by (simp add: to_double_def)

lemma parse_uint64_to_string [simp]: "parse_uint64 (to_string x) = Some x"
  by (simp add: parse_uint64_def stoull_to_string)

text \<open>The database holds exactly the given metadata.\<close>

definition holds_metas ::
  "'r redis_api \<Rightarrow> (string \<Rightarrow> 'r \<Rightarrow> (nat \<times> string) list) \<Rightarrow> (BufferedMetadata \<Rightarrow> byte list) \<Rightarrow> RedisHandler \<Rightarrow>
   BufferedMetadata set \<Rightarrow> 'r \<Rightarrow> bool" where
  "holds_metas R zs ser rh M r \<longleftrightarrow>
     (\<forall>m \<in> M. rd_get R (make_meta_key rh (meta_id m)) r = Some (ser m)) \<and>
     set (zs (ids_key rh) r) = (\<lambda>m. (to_double (meta_id m), to_string (meta_id m))) ` M \<and>
     sorted (map fst (zs (ids_key rh) r)) \<and> distinct (zs (ids_key rh) r)"

lemma holds_metas_send:
  assumes laws: "redis_laws R zs" and holds: "holds_metas R zs ser rh M r" and new: "\<forall>m' \<in> M. meta_id m' \<noteq> meta_id m"
  shows "holds_metas R zs ser rh (insert m M) (RedisHandler_send R ser rh m r)"
proof -
  let ?r = "RedisHandler_send R ser rh m r"
  have get: "rd_get R (make_meta_key rh i) ?r = (if i = meta_id m then Some (ser m) else rd_get R (make_meta_key rh i) r)" for i
    by (simp add: RedisHandler_send_def Let_def redis_lawsD [OF laws] ids_key_neq)
  have "{p \<in> set (zs (ids_key rh) r). snd p \<noteq> to_string (meta_id m)} = set (zs (ids_key rh) r)"
    using holds new by (auto simp: holds_metas_def)
  then have "set (zs (ids_key rh) ?r) = insert (to_double (meta_id m), to_string (meta_id m)) (set (zs (ids_key rh) r))"
    by (simp add: RedisHandler_send_def Let_def redis_lawsD [OF laws] ids_key_neq [symmetric])
  moreover have "sorted (map fst (zs (ids_key rh) ?r))" "distinct (zs (ids_key rh) ?r)"
    by (simp_all add: RedisHandler_send_def Let_def redis_lawsD [OF laws])
  ultimately show ?thesis using holds new get by (auto simp: holds_metas_def)
qed

lemma holds_metas_sends:
  assumes "redis_laws R zs" and "holds_metas R zs ser rh M r" and "distinct (map meta_id ms)"
    and "\<forall>m \<in> set ms. \<forall>m' \<in> M. meta_id m' \<noteq> meta_id m"
  shows "holds_metas R zs ser rh (set ms \<union> M) (fold (RedisHandler_send R ser rh) ms r)"
  using assms(2-4)
proof (induction ms arbitrary: M r)
  case (Cons m ms)
  have "holds_metas R zs ser rh (insert m M) (RedisHandler_send R ser rh m r)"
    using Cons.prems by (intro holds_metas_send [OF assms(1)]) auto
  from Cons.IH [OF this] Cons.prems show ?case by auto
qed simp

lemma map_filter_inverse: "\<forall>m \<in> set ms. f (g m) = Some m \<Longrightarrow> List.map_filter f (map g ms) = ms"
  by (induction ms) simp_all

text \<open>A range query gives the metadata of the ids in the range, in the order of the ids.\<close>

lemma holds_metas_range:
  assumes laws: "redis_laws R zs" and holds: "holds_metas R zs ser rh (set ms) r"
    and ids: "distinct (map meta_id ms)" "\<forall>m \<in> set ms. unat (meta_id m) < 2 ^ 53" "unat base + 999 < 2 ^ 53"
    and parse: "\<forall>m \<in> set ms. parse (ser m) = Some m"
  shows "get_metadatas_in_file_range R parse rh base r =
    sort_key meta_id (filter (\<lambda>m. base \<le> meta_id m \<and> meta_id m \<le> base + 999) ms)"
proof -
  let ?zs = "filter (\<lambda>p. unat base \<le> fst p \<and> fst p \<le> unat base + 999) (zs (ids_key rh) r)"
  let ?ms = "sort_key meta_id (filter (\<lambda>m. base \<le> meta_id m \<and> meta_id m \<le> base + 999) ms)"
  let ?entry = "\<lambda>m. (unat (meta_id m), to_string (meta_id m))"
  have end_id: "unat (base + 999) = unat base + 999" using ids(3) by (subst unat_add_no_wrap) simp_all
  have entries: "set (zs (ids_key rh) r) = ?entry ` set ms"
    using holds ids(2) by (auto simp: holds_metas_def to_double_small)
  have inj: "inj_on meta_id (set ms)" using ids(1) by (simp add: distinct_map)
  have "inj_on fst (set (zs (ids_key rh) r))" unfolding entries by (auto simp: inj_on_def word_unat_eq_iff)
  then have "sorted (map fst ?zs)" "distinct (map fst ?zs)"
    using holds by (auto simp: holds_metas_def distinct_map sorted_filter intro: inj_on_subset)
  moreover have "set ?zs = ?entry ` set ?ms" by (auto simp: entries word_le_nat_alt end_id)
  then have "set (map fst ?zs) = set (map (unat \<circ> meta_id) ?ms)" unfolding set_map by (simp add: image_image comp_def)
  moreover have "sorted (map (unat \<circ> meta_id) ?ms)"
    using sorted_sort_key [of meta_id] by (simp add: sorted_map sorted_wrt_map word_le_nat_alt)
  moreover have "distinct (map (unat \<circ> meta_id) ?ms)"
    using ids(1) by (simp add: comp_def distinct_map_unat distinct_map inj_on_subset [OF inj])
  ultimately have "map fst ?zs = map (unat \<circ> meta_id) ?ms" by (intro sorted_distinct_set_unique)
  moreover have "map snd ?zs = map (to_string \<circ> word_of_nat) (map fst ?zs)"
    using entries by auto
  ultimately have "map snd ?zs = map (\<lambda>m. to_string (meta_id m)) ?ms" by (simp add: comp_def)
  then have "get_image_ids_in_file_range R rh base r = map meta_id ?ms"
    using ids(3) by (simp add: get_image_ids_in_file_range_def Let_def redis_lawsD(9) [OF laws] to_double_small end_id
      List.map_filter_def comp_def)
  moreover have "get_metadata R parse rh (meta_id m) r = Some m" if "m \<in> set ms" for m
    using that holds parse by (simp add: holds_metas_def get_metadata_def)
  then have "List.map_filter (\<lambda>i. get_metadata R parse rh i r) (map meta_id ?ms) = ?ms"
    by (intro map_filter_inverse) auto
  ultimately show ?thesis by (simp add: get_metadatas_in_file_range_def)
qed

section \<open>Finding the next file\<close>

definition folder_of :: "u64 \<Rightarrow> u64" where "folder_of x = x div 1000000 * 1000000"
definition block_of :: "u64 \<Rightarrow> u64" where "block_of x = x div 1000 * 1000"

lemma unat_div_mult: "unat (x div n * n :: u64) = unat x div unat n * unat n"
proof -
  have "unat x div unat n * unat n \<le> unat x" by (rule div_times_less_eq_dividend)
  from le_less_trans [OF this u64_less] show ?thesis by (subst unat_mult_no_wrap) (simp_all add: unat_div)
qed

lemma folder_of_mono: "x \<le> y \<Longrightarrow> folder_of x \<le> folder_of y"
  by (simp add: folder_of_def word_le_nat_alt unat_div_mult div_le_mono)

lemma folder_of_block_of: "folder_of (block_of x) = folder_of x"
  by (simp add: folder_of_def block_of_def word_unat_eq_iff unat_div_mult div_mult2_eq [of "unat x div 1000 * 1000" 1000 1000, simplified]
    div_mult2_eq [of "unat x" 1000 1000, simplified])

lemma folder_of_less: "folder_of x < folder_of y \<Longrightarrow> x < y"
  using folder_of_mono [of y x] by (simp add: linorder_not_le [symmetric]) blast

lemma lower_bound_filter: "sorted xs \<Longrightarrow> lower_bound xs v = filter (\<lambda>x. v \<le> x) xs"
  unfolding lower_bound_def
proof (induction xs)
  case (Cons x xs)
  then show ?case
  proof (cases "x < v")
    case False
    then have "\<forall>y \<in> set (x # xs). v \<le> y" using Cons.prems by auto
    then show ?thesis using False by (simp add: filter_id_conv)
  qed simp
qed simp

text \<open>A tree of files as the writer makes it: every folder holds files, and they are of its ids.\<close>

definition folder_files :: "FileHandler \<Rightarrow> file_system \<Rightarrow> u64 list \<Rightarrow> (u64 \<Rightarrow> u64 list) \<Rightarrow> bool" where
  "folder_files fh fs folders files \<longleftrightarrow> get_folder_ids_in_root_directory fh fs = Inr folders \<and> distinct folders \<and>
     (\<forall>f \<in> set folders. get_file_ids_in_folder fh f fs = Inr (files f) \<and> files f \<noteq> [] \<and> (\<forall>i \<in> set (files f). folder_of i = f))"

definition least_file :: "(u64 \<Rightarrow> bool) \<Rightarrow> u64 option \<Rightarrow> bool" where
  "least_file P r = (case r of None \<Rightarrow> \<forall>i. \<not> P i | Some i \<Rightarrow> P i \<and> (\<forall>j. P j \<longrightarrow> i \<le> j))"

lemma sorted_files: "get_file_ids_in_folder fh f fs = Inr ids \<Longrightarrow> sorted ids"
  by (auto simp: get_file_ids_in_folder_def bindE_eq_Inr)

lemma sorted_folders: "get_folder_ids_in_root_directory fh fs = Inr ids \<Longrightarrow> sorted ids"
  by (auto simp: get_folder_ids_in_root_directory_def bindE_eq_Inr)

lemma sorted_hd: "sorted xs \<Longrightarrow> x \<in> set xs \<Longrightarrow> hd xs \<le> (x :: u64)"
  by (cases xs) auto

lemma first_file_least:
  assumes files: "folder_files fh fs folders files" and G: "set G \<subseteq> set folders" "sorted G"
  shows "\<exists>r. first_file_in_folder fh G fs = Inr r \<and> least_file (\<lambda>i. folder_of i \<in> set G \<and> i \<in> set (files (folder_of i))) r"
proof (cases G)
  case Nil
  then show ?thesis by (simp add: first_file_in_folder_def least_file_def)
next
  case (Cons g gs)
  then have g: "get_file_ids_in_folder fh g fs = Inr (files g)" "files g \<noteq> []" "\<forall>i \<in> set (files g). folder_of i = g"
    using files G by (auto simp: folder_files_def)
  have "hd (files g) \<le> j" if j: "folder_of j \<in> set G" "j \<in> set (files (folder_of j))" for j
  proof (cases "folder_of j = g")
    case True
    then show ?thesis using j sorted_hd [OF sorted_files [OF g(1)]] by simp
  next
    case False
    then have "g < folder_of j" using j G(2) Cons by (auto simp: order_le_less)
    then show ?thesis using g(2,3) folder_of_less [of "hd (files g)" j] by simp
  qed
  then show ?thesis using g Cons by (simp add: first_file_in_folder_def least_file_def)
qed

lemma folder_later: "folder_of img < folder_of i \<Longrightarrow> block_of img \<le> i"
  using folder_of_less [of "block_of img" i] by (simp add: folder_of_block_of)

lemma folder_early: "block_of img \<le> i \<Longrightarrow> folder_of img \<le> folder_of i"
  using folder_of_mono [of "block_of img" i] by (simp add: folder_of_block_of)

abbreviation file_from :: "u64 list \<Rightarrow> (u64 \<Rightarrow> u64 list) \<Rightarrow> u64 \<Rightarrow> u64 \<Rightarrow> bool" where
  "file_from folders files start i \<equiv> folder_of i \<in> set folders \<and> i \<in> set (files (folder_of i)) \<and> start \<le> i"

lemma folder_filesD:
  fixes img :: u64
  assumes "folder_files fh fs folders files"
  defines "it \<equiv> lower_bound folders (folder_of img)"
  shows "sorted it" and "distinct it" and "set it = {f \<in> set folders. folder_of img \<le> f}"
    and "it \<noteq> [] \<Longrightarrow> hd it = folder_of img \<longleftrightarrow> folder_of img \<in> set folders"
proof -
  have folders: "get_folder_ids_in_root_directory fh fs = Inr folders" using assms by (simp add: folder_files_def)
  have "it = filter (\<lambda>f. folder_of img \<le> f) folders"
    unfolding it_def by (rule lower_bound_filter [OF sorted_folders [OF folders]])
  then show it: "sorted it" "distinct it" "set it = {f \<in> set folders. folder_of img \<le> f}"
    using assms(1) sorted_folders [OF folders] by (auto simp: folder_files_def sorted_wrt_filter)
  assume "it \<noteq> []"
  then have "hd it \<in> set it" by simp
  then show "hd it = folder_of img \<longleftrightarrow> folder_of img \<in> set folders"
    using it(3) sorted_hd [OF it(1), of "folder_of img"] by force
qed

text \<open>There is no folder for the image.\<close>

lemma matching_elsewhere:
  assumes files: "folder_files fh fs folders files" and none: "folder_of img \<notin> set folders"
  shows "\<exists>r. get_first_matching_root_id fh img fs = Inr r \<and> least_file (file_from folders files (block_of img)) r"
proof -
  let ?it = "lower_bound folders (folder_of img)"
  note it = folder_filesD [OF files, of img]
  have "folder_of i \<in> set ?it \<longleftrightarrow> folder_of i \<in> set folders \<and> block_of img \<le> i" for i
    using none folder_later [of img i] folder_early [of img i] unfolding it(3) mem_Collect_eq by (metis order_le_less)
  then have eq: "(\<lambda>i. folder_of i \<in> set ?it \<and> i \<in> set (files (folder_of i))) = file_from folders files (block_of img)"
    by (auto simp: fun_eq_iff)
  have "get_first_matching_root_id fh img fs = first_file_in_folder fh ?it fs"
    using files it(4) none unfolding get_first_matching_root_id_def Let_def folder_of_def [symmetric]
    by (auto simp: folder_files_def first_file_in_folder_def lower_bound_def)
  moreover have "set ?it \<subseteq> set folders" using it(3) by blast
  ultimately show ?thesis using first_file_least [OF files _ it(1)] unfolding eq by simp
qed

text \<open>The folder of the image has a file for it, or later ones.\<close>

lemma matching_here:
  assumes files: "folder_files fh fs folders files" and t: "folder_of img \<in> set folders"
    and ids: "lower_bound (files (folder_of img)) (block_of img) = f # rest"
  shows "least_file (file_from folders files (block_of img)) (Some f)"
proof -
  have sorted: "sorted (files (folder_of img))" and here: "\<forall>i \<in> set (files (folder_of img)). folder_of i = folder_of img"
    using files t by (auto simp: folder_files_def intro: sorted_files)
  have f: "f # rest = filter (\<lambda>i. block_of img \<le> i) (files (folder_of img))"
    using ids lower_bound_filter [OF sorted] by simp
  then have "f \<in> set (files (folder_of img))" "block_of img \<le> f" by (auto simp: Cons_eq_filter_iff)
  moreover have "f \<le> j" if j: "j \<in> set (files (folder_of j))" "block_of img \<le> j" for j
  proof (cases "folder_of img = folder_of j")
    case True
    then have "j \<in> set (f # rest)" unfolding f using j by simp
    moreover have "sorted (f # rest)" unfolding f using sorted by (simp add: sorted_wrt_filter)
    ultimately show ?thesis using sorted_hd by fastforce
  next
    case False
    then have "folder_of f < folder_of j" using folder_early [OF j(2)] here calculation(1) by (simp add: less_le)
    then show ?thesis using folder_of_less [of f j] by simp
  qed
  ultimately show ?thesis using t here by (simp add: least_file_def)
qed

lemma matching_after:
  assumes files: "folder_files fh fs folders files" and t: "folder_of img \<in> set folders"
    and ids: "lower_bound (files (folder_of img)) (block_of img) = []"
  shows "\<exists>r. first_file_in_folder fh (tl (lower_bound folders (folder_of img))) fs = Inr r \<and>
    least_file (file_from folders files (block_of img)) r"
proof -
  note it = folder_filesD [OF files, of img]
  have "lower_bound folders (folder_of img) \<noteq> []" using it(3) t by auto
  with it(4) t obtain its where its: "lower_bound folders (folder_of img) = folder_of img # its"
    by (cases "lower_bound folders (folder_of img)") auto
  have "folder_of i \<in> set its \<longleftrightarrow> folder_of i \<in> set folders \<and> folder_of img < folder_of i" for i
    using eqset_imp_iff [OF it(3), of "folder_of i"] it(2) unfolding its list.set insert_iff mem_Collect_eq distinct.simps
    by (metis order_le_less order_less_irrefl)
  moreover have "\<not> block_of img \<le> i" if "i \<in> set (files (folder_of img))" for i
  proof -
    have "sorted (files (folder_of img))" using files t by (auto simp: folder_files_def intro: sorted_files)
    from lower_bound_filter [OF this] that ids show ?thesis by (metis empty_filter_conv)
  qed
  ultimately have "(\<lambda>i. folder_of i \<in> set its \<and> i \<in> set (files (folder_of i))) = file_from folders files (block_of img)"
    using folder_later [of img] folder_early [of img] unfolding fun_eq_iff by (metis order_le_less)
  moreover have "set its \<subseteq> set folders" "sorted its" using it(1,3) unfolding its by auto
  ultimately show ?thesis using first_file_least [OF files, of its] unfolding its by simp
qed

text \<open>C33. The lookup of the file for an image finds the least file, in any folder, that starts at the block of
  the image or later, and nothing exactly if there is none.\<close>

theorem get_first_matching_root_id_least:
  assumes "folder_files fh fs folders files"
  shows "\<exists>r. get_first_matching_root_id fh img fs = Inr r \<and> least_file (file_from folders files (block_of img)) r"
proof (cases "folder_of img \<in> set folders")
  case False
  then show ?thesis by (rule matching_elsewhere [OF assms])
next
  case True
  note it = folder_filesD [OF assms, of img]
  have "lower_bound folders (folder_of img) \<noteq> []" using it(3) True by auto
  then have "get_first_matching_root_id fh img fs =
      (case lower_bound (files (folder_of img)) (block_of img) of f # _ \<Rightarrow> Inr (Some f)
       | [] \<Rightarrow> first_file_in_folder fh (tl (lower_bound folders (folder_of img))) fs)"
    using it(4) True assms unfolding get_first_matching_root_id_def Let_def folder_of_def [symmetric] block_of_def [symmetric]
    by (auto simp: folder_files_def)
  then show ?thesis
    using matching_here [OF assms True] matching_after [OF assms True] by (auto split: list.splits)
qed

definition example_tree :: file_system where
  "example_tree = \<lparr>fs_dirs = [''/buffer'', ''/buffer/0000000'', ''/buffer/2000000''],
     fs_files = [(''/buffer/2000000/2000000.dat'', []), (''/buffer/0000000/3000.dat'', []), (''/buffer/0000000/0000.dat'', [])]\<rparr>"

definition example_files :: "u64 \<Rightarrow> u64 list" where
  "example_files f = (if f = 0 then [0, 3000] else [2000000])"

theorem get_first_matching_root_id_least_witness:
  "folder_files (FileHandler_ctor ''/buffer'' 2) example_tree [0, 2000000] example_files \<and>
   (\<exists>r. get_first_matching_root_id (FileHandler_ctor ''/buffer'' 2) 1234 example_tree = Inr r \<and>
     least_file (file_from [0, 2000000] example_files (block_of 1234)) r) \<and>
   get_first_matching_root_id (FileHandler_ctor ''/buffer'' 2) 1234 example_tree = Inr (Some 3000) \<and>
   get_first_matching_root_id (FileHandler_ctor ''/buffer'' 2) 4000 example_tree = Inr (Some 2000000)"
proof -
  let ?fh = "FileHandler_ctor ''/buffer'' 2"
  have digits: "char_of (48 :: nat) = CHR ''0''" "char_of (50 :: nat) = CHR ''2''" by code_simp+
  note defs = get_folder_ids_in_root_directory_def get_file_ids_in_folder_def directory_entries_def example_tree_def
    FileHandler_ctor_def get_folder_path_def stem_def stoul_def stoull_def scan_number_def is_space_def is_digit_def
    to_string_def dec_digits.simps digits
  have ids: "get_folder_ids_in_root_directory ?fh example_tree = Inr [0, 2000000]"
    "get_file_ids_in_folder ?fh 0 example_tree = Inr [0, 3000]" "get_file_ids_in_folder ?fh 2000000 example_tree = Inr [2000000]"
    by (simp_all add: defs)
  then have files: "folder_files ?fh example_tree [0, 2000000] example_files"
    by (simp add: folder_files_def example_files_def folder_of_def)
  moreover have "get_first_matching_root_id ?fh 1234 example_tree = Inr (Some 3000)"
    "get_first_matching_root_id ?fh 4000 example_tree = Inr (Some 2000000)"
    using ids by (simp_all add: get_first_matching_root_id_def Let_def lower_bound_def first_file_in_folder_def)
  ultimately show ?thesis using get_first_matching_root_id_least [OF files, of 1234] by blast
qed

end
