(* ===== verification/BufferReader.thy ===== *)
theory BufferReader
  imports StdBuffer
begin

text \<open>
  \<open>std-buffer-reader\<close>: the process that serves recorded images. Its main thread answers the requests
  of the buffer driver; the \<open>BufferHandler\<close> has a loader thread that finds the next file, reads the
  metadata of its images from the database, decompresses the images into the RAM buffer and
  queues their metadata.

  The two threads are functions on the shared state, one step per critical section: the main thread
  enters \<open>get_image\<close> and, when it has to wait, wakes up; the loader steps through its loop. A
  thread whose condition variable is not satisfied takes empty steps. The loader reads each
  image and queues it in one step, because nobody else uses its file handler. The database and
  the files do not change while images are served.
\<close>

section \<open>\<open>BufferHandler\<close>\<close>

text \<open>Where the loader is: at the head of its loop, waiting, about to fetch metadata, reading images,
  ended.\<close>

datatype loader_pc = LTop | LWait | LFetch | LRead "BufferedMetadata list" | LStopped

record BufferHandler =
  bh_metadatas :: "ImageMetadata list"
  bh_file_handler :: FileHandler
  bh_fs :: file_system
  bh_running :: bool
  bh_loader_active :: bool
  bh_no_more_data :: bool
  bh_loader_image_id :: u64
  bh_stop_requested :: bool
  bh_loader :: "loader_pc option" \<comment> \<open>the thread, when it has been started\<close>

definition BufferHandler_ctor :: "string \<Rightarrow> u64 \<Rightarrow> file_system \<Rightarrow> BufferHandler" where
  "BufferHandler_ctor root_directory n fs =
     \<lparr>bh_metadatas = [], bh_file_handler = FileHandler_ctor root_directory n, bh_fs = fs, bh_running = False,
      bh_loader_active = False, bh_no_more_data = False, bh_loader_image_id = 0, bh_stop_requested = False,
      bh_loader = None\<rparr>"

definition start_loader :: "BufferHandler \<Rightarrow> BufferHandler" where
  "start_loader bh = bh\<lparr>bh_running := True, bh_loader := Some LTop\<rparr>"

definition stop_loader :: "BufferHandler \<Rightarrow> BufferHandler" where
  "stop_loader bh = bh\<lparr>bh_running := False, bh_stop_requested := (bh_stop_requested bh \<or> bh_loader bh \<noteq> None)\<rparr>"

definition try_pop_image :: "u64 \<Rightarrow> BufferHandler \<Rightarrow> ImageMetadata option \<times> BufferHandler" where
  "try_pop_image img bh =
     (case bh_metadatas bh of
        m # ms \<Rightarrow> if img \<le> im_image_id m then (Some m, bh\<lparr>bh_metadatas := ms\<rparr>) else (None, bh)
      | [] \<Rightarrow> (None, bh))"

definition request_loader_if_needed :: "u64 \<Rightarrow> BufferHandler \<Rightarrow> BufferHandler" where
  "request_loader_if_needed img bh =
     (if \<not> bh_loader_active bh \<or> bh_loader_image_id bh \<noteq> img
      then bh\<lparr>bh_loader_active := True, bh_loader_image_id := img\<rparr> else bh)"

text \<open>\<open>get_image\<close> up to its wait, which follows when there is no image yet, and the condition that
  ends the wait; the rest of \<open>get_image\<close> is \<open>try_pop_image\<close> again.\<close>

definition get_image_enter :: "u64 \<Rightarrow> BufferHandler \<Rightarrow> ImageMetadata option \<times> BufferHandler" where
  "get_image_enter img bh =
     (case try_pop_image img bh of
        (Some m, bh') \<Rightarrow> (Some m, bh')
      | (None, bh') \<Rightarrow> (None, request_loader_if_needed img bh'))"

definition may_wake :: "BufferHandler \<Rightarrow> bool" where
  "may_wake bh \<longleftrightarrow> bh_metadatas bh \<noteq> [] \<or> bh_no_more_data bh"

record 'r reader_env =
  re_blosc :: blosc_api
  re_redis :: "'r redis_api"
  re_parse :: "byte list \<Rightarrow> BufferedMetadata option"
  re_redis_handler :: RedisHandler
  re_db :: 'r

definition fetch_next_metadatas ::
  "'r reader_env \<Rightarrow> FileHandler \<Rightarrow> file_system \<Rightarrow> u64 \<Rightarrow> BufferedMetadata list option res" where
  "fetch_next_metadatas env fh fs img =
     bindE (get_first_matching_root_id fh img fs) (\<lambda>root.
     Inr (case root of None \<Rightarrow> None
          | Some i \<Rightarrow> let metadatas = get_metadatas_in_file_range (re_redis env) (re_parse env) (re_redis_handler env) i (re_db env)
                     in if metadatas \<noteq> [] then Some metadatas else None))"

definition get_uncompressed_size :: "ImageMetadata \<Rightarrow> u64 res" where
  "get_uncompressed_size d =
     bindE (get_bytes_from_metadata_dtype (im_dtype d)) (\<lambda>n. Inr (im_width d * im_height d * n))"

text \<open>The metadata that are queued for an image.\<close>

definition served_meta :: "u64 \<Rightarrow> BufferedMetadata \<Rightarrow> ImageMetadata" where
  "served_meta n bm = (bm_metadata bm)\<lparr>im_size := n, im_compression := cmp_none\<rparr>"

text \<open>Whether the file could be read is ignored.\<close>

definition read_single_image ::
  "blosc_api \<Rightarrow> BufferedMetadata \<Rightarrow> BufferHandler \<times> Communicator \<Rightarrow> (BufferHandler \<times> Communicator) res" where
  "read_single_image b bm st =
     (case st of (bh, comm) \<Rightarrow>
      bindE (get_uncompressed_size (bm_metadata bm)) (\<lambda>n.
      let img = im_image_id (bm_metadata bm) in
      bindE (Communicator_get_data comm img) (\<lambda>p.
      bindE (FileHandler_read b img (unat n) (bm_offset bm) (im_size (bm_metadata bm)) (bh_file_handler bh, bh_fs bh))
        (\<lambda>(d, fh, fs).
      bindE (case d of None \<Rightarrow> Inr (comm_buffer comm) | Some bytes \<Rightarrow> write_bytes (comm_buffer comm) (unat p) bytes) (\<lambda>rb.
      let was_empty = (bh_metadatas bh = []) in
      Inr (bh\<lparr>bh_file_handler := fh, bh_fs := fs, bh_metadatas := bh_metadatas bh @ [served_meta n bm],
              bh_loader_active := (bh_loader_active bh \<and> \<not> was_empty)\<rparr>,
           comm\<lparr>comm_buffer := rb\<rparr>))))))"

text \<open>One step of \<open>loader_loop\<close>.\<close>

definition loader_step ::
  "'r reader_env \<Rightarrow> BufferHandler \<times> Communicator \<Rightarrow> (BufferHandler \<times> Communicator) res" where
  "loader_step env st =
     (case st of (bh, comm) \<Rightarrow> case bh_loader bh of None \<Rightarrow> Inr st | Some pc \<Rightarrow>
      (case pc of
         LTop \<Rightarrow> Inr (bh\<lparr>bh_loader := Some (if bh_stop_requested bh then LStopped else LWait)\<rparr>, comm)
       | LWait \<Rightarrow>
           if bh_running bh \<and> \<not> bh_loader_active bh then Inr st
           else if \<not> bh_running bh then Inr (bh\<lparr>bh_loader := Some LStopped\<rparr>, comm)
           else Inr (bh\<lparr>bh_loader_active := False, bh_metadatas := [], bh_no_more_data := False, bh_loader := Some LFetch\<rparr>, comm)
       | LFetch \<Rightarrow>
           bindE (fetch_next_metadatas env (bh_file_handler bh) (bh_fs bh) (bh_loader_image_id bh)) (\<lambda>metadatas_opt.
           case metadatas_opt of
             None \<Rightarrow> Inr (bh\<lparr>bh_no_more_data := True, bh_loader := Some LTop\<rparr>, comm)
           | Some metadatas \<Rightarrow> Inr (bh\<lparr>bh_loader := Some (LRead metadatas)\<rparr>, comm))
       | LRead metadatas \<Rightarrow>
           (case metadatas of
              [] \<Rightarrow> Inr (bh\<lparr>bh_loader := Some LTop\<rparr>, comm)
            | bm # rest \<Rightarrow>
                if bh_stop_requested bh then Inr (bh\<lparr>bh_loader := Some LTop\<rparr>, comm)
                else bindE (read_single_image (re_blosc env) bm st) (\<lambda>(bh', comm').
                     Inr (bh'\<lparr>bh_loader := Some (LRead rest)\<rparr>, comm')))
       | LStopped \<Rightarrow> Inr st))"

section \<open>The process\<close>

definition bind_driver_socket :: "zmq_api \<Rightarrow> string \<Rightarrow> zmq_socket res" where
  "bind_driver_socket z stream_address =
     (if \<not> z_socket z ZMQ_REP then Inl (zmq_error z)
      else bindE (set_option z SNDHWM 100 (new_socket ZMQ_REP)) (\<lambda>s.
           bindE (set_option z LINGER 0 s) (\<lambda>s.
           bindE (bind_to z stream_address s) (\<lambda>s.
           Inr (if z_setsockopt z RCVTIMEO 1000 = 0 then s\<lparr>zk_options := zk_options s @ [(RCVTIMEO, 1000)]\<rparr> else s)))))"

text \<open>What \<open>main\<close> opens before its loop.\<close>

definition buffer_reader_start ::
  "'r redis_api \<Rightarrow> zmq_api \<Rightarrow> DetectorConfig \<Rightarrow> string \<Rightarrow>
   (RamBufferConfig \<times> CommunicatorConfig \<times> zmq_socket \<times> RedisHandler) res" where
  "buffer_reader_start R z config db_address =
     (let sync_name = detector_name config @ ''-image'' in
      bindE (converted_image_n_bytes config) (\<lambda>max_data_bytes.
      bindE (slots_number config) (\<lambda>slots.
      bindE (bind_driver_socket z (IPC_URL_BASE @ detector_name config @ ''-driver'')) (\<lambda>driver_socket.
      bindE (RedisHandler_ctor R (detector_name config) db_address 1) (\<lambda>redis_handler.
      Inr (\<lparr>rbc_buffer_name = sync_name, rbc_n_bytes_data = max_data_bytes, rbc_n_buffer_slots = slots\<rparr>,
           \<lparr>cc_stream_name = sync_name, cc_connection_type = CONN_TYPE_BIND, cc_zmq_socket_type = ZMQ_PUB\<rparr>,
           driver_socket, redis_handler))))))"

text \<open>\<open>br_waiting\<close>: the id for which the main thread waits inside \<open>get_image\<close>.\<close>

record buffer_reader =
  br_handler :: "BufferHandler option"
  br_sender :: Communicator
  br_waiting :: "u64 option"
  br_responses :: "NextImageResponse list"
  br_stats :: TimedStatsCollector

text \<open>The end of a turn of the main loop, when \<open>get_image\<close> has returned.\<close>

definition reader_respond ::
  "(ImageMetadata \<Rightarrow> byte list) \<Rightarrow> ImageMetadata option \<Rightarrow> buffer_reader \<Rightarrow> buffer_reader res" where
  "reader_respond ser image_opt s =
     bindE (case image_opt of
              Some m \<Rightarrow> bindE (Communicator_send (br_sender s) (im_image_id m) (ser m) None) (\<lambda>c. Inr (c, Ack (im_image_id m)))
            | None \<Rightarrow> Inr (br_sender s, NoImage)) (\<lambda>(c, response).
     Inr (s\<lparr>br_sender := c, br_waiting := None, br_responses := br_responses s @ [response],
            br_stats := timed_process (br_stats s)\<rparr>))"

text \<open>A request for the first image of a replay replaces the handler; the destructor of the old one
  stops its loader and waits for it.\<close>

definition reader_request ::
  "(ImageMetadata \<Rightarrow> byte list) \<Rightarrow> string \<Rightarrow> u64 \<Rightarrow> file_system \<Rightarrow> RequestNextImage \<Rightarrow> buffer_reader \<Rightarrow> buffer_reader res" where
  "reader_request ser root_dir n fs request s =
     (let s1 = (if rni_new_request request then s\<lparr>br_handler := Some (start_loader (BufferHandler_ctor root_dir n fs))\<rparr> else s)
      in case br_handler s1 of
           None \<Rightarrow> Inl (Undefined ''null dereference'')
         | Some bh \<Rightarrow>
             (case get_image_enter (rni_image_id request) bh of
                (Some m, bh') \<Rightarrow> reader_respond ser (Some m) (s1\<lparr>br_handler := Some bh'\<rparr>)
              | (None, bh') \<Rightarrow> Inr (s1\<lparr>br_handler := Some bh', br_waiting := Some (rni_image_id request)\<rparr>)))"

text \<open>The main thread wakes up in \<open>get_image\<close>.\<close>

definition reader_wake :: "(ImageMetadata \<Rightarrow> byte list) \<Rightarrow> buffer_reader \<Rightarrow> buffer_reader res" where
  "reader_wake ser s =
     (case (br_waiting s, br_handler s) of
        (Some img, Some bh) \<Rightarrow>
          if may_wake bh
          then case try_pop_image img bh of (r, bh') \<Rightarrow> reader_respond ser r (s\<lparr>br_handler := Some bh'\<rparr>)
          else Inr s
      | _ \<Rightarrow> Inr s)"

definition reader_loader :: "'r reader_env \<Rightarrow> buffer_reader \<Rightarrow> buffer_reader res" where
  "reader_loader env s =
     (case br_handler s of None \<Rightarrow> Inr s
      | Some bh \<Rightarrow> bindE (loader_step env (bh, br_sender s)) (\<lambda>(bh', c). Inr (s\<lparr>br_handler := Some bh', br_sender := c\<rparr>)))"

section \<open>A recording and the order in which it is served\<close>

text \<open>What was recorded and how it is reached: the surroundings of the process, and the bytes of each image.\<close>

record 'r recording =
  rc_env :: "'r reader_env"
  rc_root :: string
  rc_type_size :: u64
  rc_fs :: file_system
  rc_image :: "BufferedMetadata \<Rightarrow> byte list"

definition rc_handler :: "'r recording \<Rightarrow> FileHandler" where
  "rc_handler rc = FileHandler_ctor (rc_root rc) (rc_type_size rc)"

definition rc_fetch :: "'r recording \<Rightarrow> u64 \<Rightarrow> BufferedMetadata list option" where
  "rc_fetch rc img =
     (case fetch_next_metadatas (rc_env rc) (rc_handler rc) (rc_fs rc) img of Inr r \<Rightarrow> r | Inl _ \<Rightarrow> None)"

text \<open>The image is in its file, as the writer has put it there, and fits into a slot.\<close>

definition image_ok :: "'r recording \<Rightarrow> nat \<Rightarrow> BufferedMetadata \<Rightarrow> bool" where
  "image_ok rc bytes m \<longleftrightarrow>
     get_uncompressed_size (bm_metadata m) = Inr (word_of_nat (length (rc_image rc m))) \<and> length (rc_image rc m) \<le> bytes \<and>
     length (rc_image rc m) < 2 ^ 64 \<and>
     compressible (re_blosc (rc_env rc)) (rc_image rc m) \<and>
     place_holds (re_blosc (rc_env rc)) (rc_handler rc) (on_disk (rc_fs rc)) (meta_id m, rc_image rc m)
       (bm_offset m, im_size (bm_metadata m))"

text \<open>The metadata of a file: in the order of their ids, and less than the slots of the RAM buffer apart.\<close>

definition block_ok :: "'r recording \<Rightarrow> nat \<Rightarrow> nat \<Rightarrow> BufferedMetadata list \<Rightarrow> bool" where
  "block_ok rc slots bytes ms \<longleftrightarrow> ms \<noteq> [] \<and> sorted_wrt (\<lambda>m m'. meta_id m < meta_id m') ms \<and>
     (\<forall>m \<in> set ms. image_ok rc bytes m \<and> unat (meta_id m) + 1 < 2 ^ 64) \<and>
     unat (meta_id (last ms)) < unat (meta_id (hd ms)) + slots"

definition recording_ok :: "'r recording \<Rightarrow> nat \<Rightarrow> nat \<Rightarrow> bool" where
  "recording_ok rc slots bytes \<longleftrightarrow> blosc_laws (re_blosc (rc_env rc)) \<and> (\<forall>p. length (on_disk (rc_fs rc) p) < 2 ^ 63) \<and>
     (\<forall>img. is_ok (fetch_next_metadatas (rc_env rc) (rc_handler rc) (rc_fs rc) img)) \<and>
     (\<forall>img ms. rc_fetch rc img = Some ms \<longrightarrow> block_ok rc slots bytes ms)"

text \<open>The specification: from the first id on, file after file, each one whole. The next file is the
  one found for the id after the last image; it must not start before that id.\<close>

inductive served_chain :: "(u64 \<Rightarrow> BufferedMetadata list option) \<Rightarrow> u64 \<Rightarrow> BufferedMetadata list \<Rightarrow> u64 \<Rightarrow> bool"
  for F start where
  chain_start: "served_chain F start [] start"
| chain_file: "served_chain F start L n \<Longrightarrow> F n = Some ms \<Longrightarrow> n \<le> meta_id (hd ms) \<Longrightarrow>
    served_chain F start (L @ ms) (meta_id (last ms) + 1)"

definition out_meta :: "'r recording \<Rightarrow> BufferedMetadata \<Rightarrow> ImageMetadata" where
  "out_meta rc m = served_meta (word_of_nat (length (rc_image rc m))) m"

definition holds_image :: "'r recording \<Rightarrow> RamBuffer \<Rightarrow> BufferedMetadata \<Rightarrow> bool" where
  "holds_image rc rb m \<longleftrightarrow>
     segment (rb_slot rb (meta_id m) * rb_size rb) (length (rc_image rc m)) (rb_buffer rb) = rc_image rc m"

section \<open>The phases of a replay\<close>

definition next_id :: "u64 \<Rightarrow> BufferedMetadata list \<Rightarrow> u64" where
  "next_id start H = (if H = [] then start else meta_id (last H) + 1)"

definition handler_ok :: "'r recording \<Rightarrow> BufferHandler \<Rightarrow> bool" where
  "handler_ok rc bh \<longleftrightarrow> bh_running bh \<and> \<not> bh_stop_requested bh \<and> reader_ok (bh_file_handler bh) \<and>
     fh_root_directory (bh_file_handler bh) = rc_root rc \<and> bh_fs bh = rc_fs rc"

text \<open>\<open>serving rc start H w bh rb\<close>: \<open>H\<close> has been handed out, \<open>w\<close> is the id waited for.\<close>

inductive serving ::
  "'r recording \<Rightarrow> u64 \<Rightarrow> BufferedMetadata list \<Rightarrow> u64 option \<Rightarrow> BufferHandler \<Rightarrow> RamBuffer \<Rightarrow> bool"
  for rc start where
  requested: "served_chain (rc_fetch rc) start H n \<Longrightarrow> bh_loader bh \<in> {Some LTop, Some LWait} \<Longrightarrow>
    bh_metadatas bh = [] \<Longrightarrow> bh_loader_active bh \<Longrightarrow> \<not> bh_no_more_data bh \<Longrightarrow> bh_loader_image_id bh = n \<Longrightarrow>
    serving rc start H (Some n) bh rb"
| fetching: "served_chain (rc_fetch rc) start H n \<Longrightarrow> bh_loader bh = Some LFetch \<Longrightarrow>
    bh_metadatas bh = [] \<Longrightarrow> \<not> bh_loader_active bh \<Longrightarrow> \<not> bh_no_more_data bh \<Longrightarrow> bh_loader_image_id bh = n \<Longrightarrow>
    serving rc start H (Some n) bh rb"
| exhausted: "served_chain (rc_fetch rc) start H n \<Longrightarrow> rc_fetch rc n = None \<Longrightarrow> bh_loader bh \<in> {Some LTop, Some LWait} \<Longrightarrow>
    bh_metadatas bh = [] \<Longrightarrow> \<not> bh_loader_active bh \<Longrightarrow> bh_no_more_data bh \<Longrightarrow>
    serving rc start H (Some n) bh rb"
| too_early: "served_chain (rc_fetch rc) start H n \<Longrightarrow> rc_fetch rc n = Some (Q @ rest) \<Longrightarrow> meta_id (hd (Q @ rest)) < n \<Longrightarrow>
    bh_loader bh = Some (LRead rest) \<or> rest = [] \<and> bh_loader bh \<in> {Some LTop, Some LWait} \<Longrightarrow>
    bh_metadatas bh = map (out_meta rc) Q \<Longrightarrow> \<not> bh_loader_active bh \<Longrightarrow> \<not> bh_no_more_data bh \<Longrightarrow>
    serving rc start H (Some n) bh rb"
| in_file: "served_chain (rc_fetch rc) start L n0 \<Longrightarrow> rc_fetch rc n0 = Some (P @ Q @ rest) \<Longrightarrow> n0 \<le> meta_id (hd (P @ Q @ rest)) \<Longrightarrow>
    bh_loader bh = Some (LRead rest) \<or> rest = [] \<and> bh_loader bh \<in> {Some LTop, Some LWait} \<Longrightarrow>
    bh_metadatas bh = map (out_meta rc) Q \<Longrightarrow> \<not> bh_no_more_data bh \<Longrightarrow>
    (w = None \<and> P \<noteq> []) \<or> w = Some (next_id start (L @ P)) \<Longrightarrow>
    (bh_loader_active bh \<Longrightarrow> w \<noteq> None \<and> Q = [] \<and> bh_loader_image_id bh = next_id start (L @ P)) \<Longrightarrow>
    (w \<noteq> None \<Longrightarrow> Q = [] \<Longrightarrow> rest = [] \<Longrightarrow> bh_loader_active bh) \<Longrightarrow>
    \<forall>m \<in> set (if w = None then last P # Q else Q). holds_image rc rb m \<Longrightarrow>
    serving rc start (L @ P) w bh rb"

lemma get_first_matching_root_id_cong:
  assumes "fh_root_directory fh = fh_root_directory fh'"
  shows "get_first_matching_root_id fh img fs = get_first_matching_root_id fh' img fs"
proof -
  have eqs: "get_folder_ids_in_root_directory fh = get_folder_ids_in_root_directory fh'"
    "get_file_ids_in_folder fh = get_file_ids_in_folder fh'"
    using assms by (simp_all add: get_folder_ids_in_root_directory_def get_file_ids_in_folder_def get_folder_path_def fun_eq_iff)
  have first: "first_file_in_folder fh = first_file_in_folder fh'" unfolding first_file_in_folder_def eqs ..
  show ?thesis unfolding get_first_matching_root_id_def eqs first ..
qed

lemma fetch_handler:
  assumes "recording_ok rc slots bytes" and "handler_ok rc bh"
  shows "fetch_next_metadatas (rc_env rc) (bh_file_handler bh) (bh_fs bh) img = Inr (rc_fetch rc img)"
proof -
  have "fetch_next_metadatas (rc_env rc) (bh_file_handler bh) (bh_fs bh) img =
      fetch_next_metadatas (rc_env rc) (rc_handler rc) (rc_fs rc) img"
    using assms(2) get_first_matching_root_id_cong [of "bh_file_handler bh" "rc_handler rc"]
    by (simp add: fetch_next_metadatas_def handler_ok_def rc_handler_def FileHandler_ctor_def)
  moreover obtain r where "fetch_next_metadatas (rc_env rc) (rc_handler rc) (rc_fs rc) img = Inr r"
    using assms(1) by (meson is_okE recording_ok_def)
  ultimately show ?thesis by (simp add: rc_fetch_def)
qed

lemma write_slot:
  assumes "rb_wf rb" and "length d \<le> rb_size rb"
  shows "\<exists>p rb'. get_data rb img = Inr p \<and> write_bytes rb (unat p) d = Inr rb' \<and> rb_wf rb' \<and>
    rb_n_slots rb' = rb_n_slots rb \<and> rb_data_bytes rb' = rb_data_bytes rb \<and>
    segment (rb_slot rb img * rb_size rb) (length d) (rb_buffer rb') = d \<and>
    (\<forall>j n. rb_slot rb j \<noteq> rb_slot rb img \<longrightarrow> n \<le> rb_size rb \<longrightarrow>
      segment (rb_slot rb j * rb_size rb) n (rb_buffer rb') = segment (rb_slot rb j * rb_size rb) n (rb_buffer rb))"
proof -
  obtain p where p: "get_data rb img = Inr p" "unat p = rb_slot rb img * rb_size rb"
    "unat p + rb_size rb \<le> length (rb_buffer rb)"
    using get_data_wf [OF assms(1), of img] by blast
  then have fits: "unat p + length d \<le> length (rb_buffer rb)" using assms(2) by simp
  let ?rb = "rb\<lparr>rb_buffer := overwrite (unat p) d (rb_buffer rb)\<rparr>"
  have "segment (rb_slot rb j * rb_size rb) n (rb_buffer ?rb) = segment (rb_slot rb j * rb_size rb) n (rb_buffer rb)"
    if "rb_slot rb j \<noteq> rb_slot rb img" "n \<le> rb_size rb" for j n
    using block_disjoint [OF that(1), of "rb_size rb"] that(2) assms(2) fits slot_in_range [OF assms(1), of j]
    by (auto simp: p(2) intro!: segment_overwrite_disjoint)
  moreover have "rb_wf ?rb" using assms(1) fits by (simp add: rb_wf_def)
  moreover have "segment (rb_slot rb img * rb_size rb) (length d) (rb_buffer ?rb) = d"
    using segment_overwrite_same [OF fits] p(2) by simp
  ultimately show ?thesis using p(1) fits by (intro exI [of _ p] exI [of _ ?rb]) (simp add: write_bytes_def)
qed

text \<open>An image is read into its slot; images in other slots stay.\<close>

lemma read_single_image_ok:
  assumes "recording_ok rc slots bytes" and "handler_ok rc bh" and "rb_wf (comm_buffer c)"
    and "image_ok rc (rb_size (comm_buffer c)) m"
  shows "\<exists>fh rb. read_single_image (re_blosc (rc_env rc)) m (bh, c) =
      Inr (bh\<lparr>bh_file_handler := fh, bh_metadatas := bh_metadatas bh @ [out_meta rc m],
             bh_loader_active := (bh_loader_active bh \<and> bh_metadatas bh \<noteq> [])\<rparr>, c\<lparr>comm_buffer := rb\<rparr>) \<and>
    handler_ok rc (bh\<lparr>bh_file_handler := fh\<rparr>) \<and> rb_wf rb \<and> rb_n_slots rb = rb_n_slots (comm_buffer c) \<and>
    rb_data_bytes rb = rb_data_bytes (comm_buffer c) \<and> holds_image rc rb m \<and>
    (\<forall>m'. rb_slot rb (meta_id m') \<noteq> rb_slot rb (meta_id m) \<longrightarrow> length (rc_image rc m') \<le> rb_size rb \<longrightarrow>
      holds_image rc (comm_buffer c) m' \<longrightarrow> holds_image rc rb m')"
proof -
  let ?b = "re_blosc (rc_env rc)" and ?d = "rc_image rc m" and ?fs = "rc_fs rc"
  have m: "get_uncompressed_size (bm_metadata m) = Inr (word_of_nat (length ?d))" "length ?d \<le> rb_size (comm_buffer c)"
    "unat (word_of_nat (length ?d) :: u64) = length ?d" "compressible ?b ?d"
    "place_holds ?b (rc_handler rc) (on_disk ?fs) (meta_id m, ?d) (bm_offset m, im_size (bm_metadata m))"
    using assms(4) by (auto simp: image_ok_def intro: unat_word_of_nat)
  have laws: "blosc_laws ?b" "length (on_disk ?fs (get_filename (bh_file_handler bh) (meta_id m))) < 2 ^ 63"
    using assms(1) by (auto simp: recording_ok_def)
  have bh: "reader_ok (bh_file_handler bh)" "bh_fs bh = ?fs"
    and root: "fh_root_directory (bh_file_handler bh) = fh_root_directory (rc_handler rc)"
    using assms(2) by (simp_all add: handler_ok_def rc_handler_def FileHandler_ctor_def)
  from m(5) have "place_holds ?b (bh_file_handler bh) (on_disk ?fs) (meta_id m, ?d) (bm_offset m, im_size (bm_metadata m))"
    using place_holds_cong [OF root] by simp
  from FileHandler_read_place [OF laws(1) m(4) bh(1) this laws(2)]
  obtain fh where read: "FileHandler_read ?b (meta_id m) (length ?d) (bm_offset m) (im_size (bm_metadata m))
      (bh_file_handler bh, ?fs) = Inr (Some ?d, fh, ?fs)"
    and fh: "reader_ok fh" "fh_root_directory fh = fh_root_directory (bh_file_handler bh)" by auto
  obtain p rb where p: "get_data (comm_buffer c) (meta_id m) = Inr p" "write_bytes (comm_buffer c) (unat p) ?d = Inr rb"
    and rb: "rb_wf rb" "rb_n_slots rb = rb_n_slots (comm_buffer c)" "rb_data_bytes rb = rb_data_bytes (comm_buffer c)"
    and slot: "segment (rb_slot (comm_buffer c) (meta_id m) * rb_size (comm_buffer c)) (length ?d) (rb_buffer rb) = ?d"
    and other: "\<And>j n. rb_slot (comm_buffer c) j \<noteq> rb_slot (comm_buffer c) (meta_id m) \<Longrightarrow> n \<le> rb_size (comm_buffer c) \<Longrightarrow>
      segment (rb_slot (comm_buffer c) j * rb_size (comm_buffer c)) n (rb_buffer rb) =
      segment (rb_slot (comm_buffer c) j * rb_size (comm_buffer c)) n (rb_buffer (comm_buffer c))"
    using write_slot [OF assms(3) m(2), of "meta_id m"] by blast
  have "read_single_image ?b m (bh, c) =
      Inr (bh\<lparr>bh_file_handler := fh, bh_metadatas := bh_metadatas bh @ [out_meta rc m],
             bh_loader_active := (bh_loader_active bh \<and> bh_metadatas bh \<noteq> [])\<rparr>, c\<lparr>comm_buffer := rb\<rparr>)"
    using m(1,3) read p bh(2) by (simp add: read_single_image_def Communicator_get_data_def Let_def out_meta_def)
  moreover have "handler_ok rc (bh\<lparr>bh_file_handler := fh\<rparr>)" using assms(2) fh by (simp add: handler_ok_def)
  moreover have "holds_image rc rb m" using slot rb by (simp add: holds_image_def)
  moreover have "holds_image rc rb m'" if "rb_slot rb (meta_id m') \<noteq> rb_slot rb (meta_id m)" "length (rc_image rc m') \<le> rb_size rb"
      "holds_image rc (comm_buffer c) m'" for m'
    using that other [of "meta_id m'" "length (rc_image rc m')"] rb by (simp add: holds_image_def)
  ultimately show ?thesis using rb by (intro exI [of _ fh] exI [of _ rb]) simp
qed

lemma mod_neq_near:
  fixes a d s :: nat
  assumes "a < d" and "d < a + s"
  shows "a mod s \<noteq> d mod s"
proof
  assume "a mod s = d mod s"
  then have "d mod s = a mod s" by simp
  then have "s dvd d - a" using assms(1) by (simp add: mod_eq_dvd_iff_nat)
  then have "s \<le> d - a" using assms(1) by (intro dvd_imp_le) simp_all
  then show False using assms by simp
qed

text \<open>Images of one file have different slots.\<close>

lemma block_slots:
  assumes "block_ok rc slots bytes (xs @ m # ys)" and "m' \<in> set xs"
  shows "unat (meta_id m') mod slots \<noteq> unat (meta_id m) mod slots"
proof -
  let ?ms = "xs @ m # ys"
  have sorted: "sorted_wrt (\<lambda>m m'. meta_id m < meta_id m') ?ms"
    and near: "unat (meta_id (last ?ms)) < unat (meta_id (hd ?ms)) + slots" using assms(1) by (auto simp: block_ok_def)
  have "meta_id m' < meta_id m" using sorted assms(2) by (auto simp: sorted_wrt_append)
  moreover have "meta_id m \<le> meta_id (last ?ms)"
    using sorted by (cases ys rule: rev_cases) (auto simp: sorted_wrt_append)
  moreover have "meta_id (hd ?ms) \<le> meta_id m'"
    using sorted assms(2) by (cases xs) (auto intro: less_imp_le)
  ultimately show ?thesis using near by (intro mod_neq_near) (auto simp: word_less_nat_alt word_le_nat_alt)
qed

fun loader_rank :: "loader_pc option \<Rightarrow> nat" where
  "loader_rank (Some (LRead (_ # _))) = 1"
| "loader_rank (Some LFetch) = 2"
| "loader_rank (Some LWait) = 3"
| "loader_rank (Some LTop) = 4"
| "loader_rank _ = 5"

text \<open>What a step of the loader achieves in a replay: it does not fail, the phases are kept, and it
  comes nearer to waking a main thread that waits.\<close>

definition good_step ::
  "'r recording \<Rightarrow> u64 \<Rightarrow> BufferedMetadata list \<Rightarrow> u64 option \<Rightarrow> BufferHandler \<Rightarrow> Communicator \<Rightarrow> bool" where
  "good_step rc start H w bh c \<longleftrightarrow>
     (\<exists>bh' rb. loader_step (rc_env rc) (bh, c) = Inr (bh', c\<lparr>comm_buffer := rb\<rparr>) \<and> handler_ok rc bh' \<and> rb_wf rb \<and>
        rb_n_slots rb = rb_n_slots (comm_buffer c) \<and> rb_data_bytes rb = rb_data_bytes (comm_buffer c) \<and>
        serving rc start H w bh' rb \<and>
        (w \<noteq> None \<longrightarrow> \<not> may_wake bh \<longrightarrow> may_wake bh' \<or> loader_rank (bh_loader bh') < loader_rank (bh_loader bh)))"

lemma good_step_same_buffer:
  assumes "loader_step (rc_env rc) (bh, c) = Inr (bh', c)" and "rb_wf (comm_buffer c)" and "handler_ok rc bh'"
    and "serving rc start H w bh' (comm_buffer c)"
    and "w \<noteq> None \<Longrightarrow> \<not> may_wake bh \<Longrightarrow> may_wake bh' \<or> loader_rank (bh_loader bh') < loader_rank (bh_loader bh)"
  shows "good_step rc start H w bh c"
  unfolding good_step_def by (rule exI [of _ bh'], rule exI [of _ "comm_buffer c"]) (use assms in simp)

lemma good_step_requested:
  assumes "handler_ok rc bh" and "rb_wf (comm_buffer c)"
    and "served_chain (rc_fetch rc) start H n" "bh_loader bh \<in> {Some LTop, Some LWait}"
      "bh_metadatas bh = []" "bh_loader_active bh" "\<not> bh_no_more_data bh" "bh_loader_image_id bh = n"
  shows "good_step rc start H (Some n) bh c"
proof (cases "bh_loader bh = Some LTop")
  case True
  have "serving rc start H (Some n) (bh\<lparr>bh_loader := Some LWait\<rparr>) (comm_buffer c)"
    using assms by (intro serving.requested) auto
  then show ?thesis using True assms(1,2)
    by (intro good_step_same_buffer [where bh' = "bh\<lparr>bh_loader := Some LWait\<rparr>"]) (auto simp: loader_step_def handler_ok_def)
next
  case False
  let ?bh = "bh\<lparr>bh_loader_active := False, bh_metadatas := [], bh_no_more_data := False, bh_loader := Some LFetch\<rparr>"
  have "serving rc start H (Some n) ?bh (comm_buffer c)" using assms by (intro serving.fetching) auto
  then show ?thesis using False assms
    by (intro good_step_same_buffer [where bh' = ?bh]) (auto simp: loader_step_def handler_ok_def)
qed

lemma chain_next:
  assumes "recording_ok rc slots bytes" and "served_chain (rc_fetch rc) start H n"
  shows "n = next_id start H"
  using assms(2)
proof cases
  case (chain_file L n0 ms)
  then have "ms \<noteq> []" using assms(1) by (auto simp: recording_ok_def block_ok_def)
  then show ?thesis using chain_file by (simp add: next_id_def)
qed (simp add: next_id_def)

lemma good_step_fetching:
  assumes rec: "recording_ok rc slots bytes" and bh: "handler_ok rc bh" and "rb_wf (comm_buffer c)"
    and chain: "served_chain (rc_fetch rc) start H n" and pc: "bh_loader bh = Some LFetch"
    and st: "bh_metadatas bh = []" "\<not> bh_loader_active bh" "\<not> bh_no_more_data bh" "bh_loader_image_id bh = n"
  shows "good_step rc start H (Some n) bh c"
proof (cases "rc_fetch rc n")
  case None
  let ?bh = "bh\<lparr>bh_no_more_data := True, bh_loader := Some LTop\<rparr>"
  have "serving rc start H (Some n) ?bh (comm_buffer c)" using chain None st by (intro serving.exhausted) auto
  then show ?thesis using None pc st assms(3) bh fetch_handler [OF rec bh]
    by (intro good_step_same_buffer [where bh' = ?bh]) (auto simp: loader_step_def handler_ok_def may_wake_def)
next
  case (Some ms)
  let ?bh = "bh\<lparr>bh_loader := Some (LRead ms)\<rparr>"
  have ms: "ms \<noteq> []" using rec Some by (auto simp: recording_ok_def block_ok_def)
  have "serving rc start H (Some n) ?bh (comm_buffer c)"
  proof (cases "n \<le> meta_id (hd ms)")
    case True
    with chain_next [OF rec chain] chain Some st ms have "serving rc start (H @ []) (Some n) ?bh (comm_buffer c)"
      by (intro serving.in_file [where Q = "[]" and rest = ms]) auto
    then show ?thesis by simp
  next
    case False
    then show ?thesis using chain Some st ms by (intro serving.too_early [where Q = "[]" and rest = ms]) auto
  qed
  then show ?thesis using Some ms pc st assms(3) bh fetch_handler [OF rec bh]
    by (intro good_step_same_buffer [where bh' = ?bh]) (auto simp: loader_step_def handler_ok_def neq_Nil_conv)
qed


text \<open>The image that is read next belongs to the file whose images are queued.\<close>

lemma good_step_read:
  assumes rec: "recording_ok rc (rb_slots (comm_buffer c)) (rb_size (comm_buffer c))" and bh: "handler_ok rc bh"
    and rb: "rb_wf (comm_buffer c)" and pc: "bh_loader bh = Some (LRead (m # rest))"
    and block: "rc_fetch rc n = Some (xs @ m # rest)"
    and serving: "\<And>bh' rb'. bh_loader bh' = Some (LRead rest) \<Longrightarrow> bh_metadatas bh' = bh_metadatas bh @ [out_meta rc m] \<Longrightarrow>
      bh_loader_active bh' = (bh_loader_active bh \<and> bh_metadatas bh \<noteq> []) \<Longrightarrow> bh_no_more_data bh' = bh_no_more_data bh \<Longrightarrow>
      bh_loader_image_id bh' = bh_loader_image_id bh \<Longrightarrow> holds_image rc rb' m \<Longrightarrow>
      (\<And>m'. m' \<in> set xs \<Longrightarrow> holds_image rc (comm_buffer c) m' \<Longrightarrow> holds_image rc rb' m') \<Longrightarrow> serving rc start H w bh' rb'"
  shows "good_step rc start H w bh c"
proof -
  have ok: "block_ok rc (rb_slots (comm_buffer c)) (rb_size (comm_buffer c)) (xs @ m # rest)"
    using rec block by (simp add: recording_ok_def)
  then have images: "\<forall>m' \<in> set (xs @ m # rest). image_ok rc (rb_size (comm_buffer c)) m'" by (simp add: block_ok_def)
  then obtain fh rb' where read: "read_single_image (re_blosc (rc_env rc)) m (bh, c) =
      Inr (bh\<lparr>bh_file_handler := fh, bh_metadatas := bh_metadatas bh @ [out_meta rc m],
             bh_loader_active := (bh_loader_active bh \<and> bh_metadatas bh \<noteq> [])\<rparr>, c\<lparr>comm_buffer := rb'\<rparr>)"
    and fh: "handler_ok rc (bh\<lparr>bh_file_handler := fh\<rparr>)"
    and rb': "rb_wf rb'" "rb_n_slots rb' = rb_n_slots (comm_buffer c)" "rb_data_bytes rb' = rb_data_bytes (comm_buffer c)"
    and here: "holds_image rc rb' m"
    and other: "\<And>m'. rb_slot rb' (meta_id m') \<noteq> rb_slot rb' (meta_id m) \<Longrightarrow> length (rc_image rc m') \<le> rb_size rb' \<Longrightarrow>
      holds_image rc (comm_buffer c) m' \<Longrightarrow> holds_image rc rb' m'"
    using read_single_image_ok [OF rec bh rb, of m] by auto
  let ?bh = "bh\<lparr>bh_file_handler := fh, bh_metadatas := bh_metadatas bh @ [out_meta rc m],
    bh_loader_active := (bh_loader_active bh \<and> bh_metadatas bh \<noteq> []), bh_loader := Some (LRead rest)\<rparr>"
  have "holds_image rc rb' m'" if "m' \<in> set xs" "holds_image rc (comm_buffer c) m'" for m'
    using other [OF _ _ that(2)] block_slots [OF ok that(1)] images that(1) rb' by (simp add: image_ok_def)
  then have "serving rc start H w ?bh rb'" using here by (intro serving) auto
  moreover have "loader_step (rc_env rc) (bh, c) = Inr (?bh, c\<lparr>comm_buffer := rb'\<rparr>)"
    using pc read bh by (simp add: loader_step_def handler_ok_def)
  ultimately show ?thesis unfolding good_step_def using fh rb'
    by (intro exI [of _ ?bh] exI [of _ rb']) (simp add: handler_ok_def may_wake_def)
qed

lemma good_step_idle:
  assumes bh: "handler_ok rc bh" and rb: "rb_wf (comm_buffer c)"
    and pc: "bh_loader bh \<in> {Some (LRead []), Some LTop, Some LWait}" and idle: "\<not> bh_loader_active bh"
    and serving: "\<And>bh'. bh_loader bh' \<in> {Some LTop, Some LWait} \<Longrightarrow> bh_metadatas bh' = bh_metadatas bh \<Longrightarrow>
      \<not> bh_loader_active bh' \<Longrightarrow> bh_no_more_data bh' = bh_no_more_data bh \<Longrightarrow> serving rc start H w bh' (comm_buffer c)"
    and wake: "w \<noteq> None \<Longrightarrow> may_wake bh"
  shows "good_step rc start H w bh c"
proof -
  let ?bh = "bh\<lparr>bh_loader := Some (if bh_loader bh = Some (LRead []) then LTop else LWait)\<rparr>"
  have "serving rc start H w ?bh (comm_buffer c)" using idle by (intro serving) auto
  moreover have "loader_step (rc_env rc) (bh, c) = Inr (?bh, c)"
    using pc idle bh by (auto simp: loader_step_def handler_ok_def)
  ultimately show ?thesis using bh rb wake
    by (intro good_step_same_buffer [where bh' = ?bh]) (auto simp: handler_ok_def)
qed

text \<open>In the phase of a file that has been handed out completely.\<close>

lemma good_step_file_done:
  assumes rec: "recording_ok rc slots bytes" and bh: "handler_ok rc bh" and rb: "rb_wf (comm_buffer c)"
    and chain: "served_chain (rc_fetch rc) start L n0" "rc_fetch rc n0 = Some P" "n0 \<le> meta_id (hd P)"
    and pc: "bh_loader bh \<in> {Some (LRead []), Some LTop, Some LWait}"
    and st: "bh_metadatas bh = []" "bh_loader_active bh" "\<not> bh_no_more_data bh" "bh_loader_image_id bh = next_id start (L @ P)"
  shows "good_step rc start (L @ P) (Some (next_id start (L @ P))) bh c"
proof -
  have all: "served_chain (rc_fetch rc) start (L @ P) (next_id start (L @ P))"
    using served_chain.chain_file [OF chain] chain_next [OF rec] by metis
  show ?thesis
  proof (cases "bh_loader bh = Some (LRead [])")
    case True
    let ?bh = "bh\<lparr>bh_loader := Some LTop\<rparr>"
    have "serving rc start (L @ P) (Some (next_id start (L @ P))) ?bh (comm_buffer c)"
      using all st by (intro serving.requested) auto
    then show ?thesis using True bh rb
      by (intro good_step_same_buffer [where bh' = ?bh]) (auto simp: loader_step_def handler_ok_def)
  next
    case False
    then show ?thesis using good_step_requested [OF bh rb all _ st] pc by auto
  qed
qed

lemma good_step_file_read:
  assumes rec: "recording_ok rc (rb_slots (comm_buffer c)) (rb_size (comm_buffer c))" and bh: "handler_ok rc bh"
    and rb: "rb_wf (comm_buffer c)" and pc: "bh_loader bh = Some (LRead (m # rest))"
    and chain: "served_chain (rc_fetch rc) start L n0" "rc_fetch rc n0 = Some (P @ Q @ m # rest)" "n0 \<le> meta_id (hd (P @ Q @ m # rest))"
    and q: "bh_metadatas bh = map (out_meta rc) Q" "\<not> bh_no_more_data bh"
    and w: "(w = None \<and> P \<noteq> []) \<or> w = Some (next_id start (L @ P))" and active: "bh_loader_active bh \<Longrightarrow> Q = []"
    and data: "\<forall>m \<in> set (if w = None then last P # Q else Q). holds_image rc (comm_buffer c) m"
  shows "good_step rc start (L @ P) w bh c"
proof (rule good_step_read [OF rec bh rb pc])
  show "rc_fetch rc n0 = Some ((P @ Q) @ m # rest)" using chain(2) by simp
next
  fix bh' :: BufferHandler and rb' :: RamBuffer
  assume new: "bh_loader bh' = Some (LRead rest)" "bh_metadatas bh' = bh_metadatas bh @ [out_meta rc m]"
    "bh_loader_active bh' = (bh_loader_active bh \<and> bh_metadatas bh \<noteq> [])" "bh_no_more_data bh' = bh_no_more_data bh"
    "bh_loader_image_id bh' = bh_loader_image_id bh" "holds_image rc rb' m"
    and keeps: "\<And>m'. m' \<in> set (P @ Q) \<Longrightarrow> holds_image rc (comm_buffer c) m' \<Longrightarrow> holds_image rc rb' m'"
  have "last P \<in> set (P @ Q)" if "w = None" using w that by auto
  then have "\<forall>m \<in> set (if w = None then last P # (Q @ [m]) else Q @ [m]). holds_image rc rb' m"
    using data keeps new(6) by (auto split: if_splits)
  then show "serving rc start (L @ P) w bh' rb'"
  proof (rule serving.in_file [where Q = "Q @ [m]" and rest = rest, OF chain(1), rotated -1])
    show "rc_fetch rc n0 = Some (P @ (Q @ [m]) @ rest)" "n0 \<le> meta_id (hd (P @ (Q @ [m]) @ rest))"
      using chain(2,3) by simp_all
    show "bh_metadatas bh' = map (out_meta rc) (Q @ [m])" "\<not> bh_no_more_data bh'" using new q by simp_all
    show "bh_loader_active bh' \<Longrightarrow> w \<noteq> None \<and> Q @ [m] = [] \<and> bh_loader_image_id bh' = next_id start (L @ P)"
      using new(3) q(1) active by auto
  qed (use new(1) w in auto)
qed

lemma loader_good_step:
  assumes rec: "recording_ok rc (rb_slots (comm_buffer c)) (rb_size (comm_buffer c))" and bh: "handler_ok rc bh"
    and rb: "rb_wf (comm_buffer c)" and serving: "serving rc start H w bh (comm_buffer c)"
  shows "good_step rc start H w bh c"
  using serving
proof cases
  case (requested n)
  then show ?thesis using good_step_requested [OF bh rb] by blast
next
  case (fetching n)
  then show ?thesis using good_step_fetching [OF rec bh rb] by blast
next
  case (exhausted n)
  then show ?thesis
    by (intro good_step_idle [OF bh rb]) (auto simp: may_wake_def intro: serving.exhausted)
next
  case (too_early n Q rest)
  show ?thesis
  proof (cases rest)
    case Nil
    have "Q \<noteq> []" using rec too_early(3) Nil by (auto simp: recording_ok_def block_ok_def)
    then show ?thesis using too_early Nil
      by (intro good_step_idle [OF bh rb]) (auto simp: may_wake_def intro: serving.too_early [where rest = "[]"])
  next
    case (Cons m rest')
    show ?thesis unfolding too_early(1)
    proof (rule good_step_read [OF rec bh rb])
      show "bh_loader bh = Some (LRead (m # rest'))" using too_early(5) Cons by auto
      show "rc_fetch rc n = Some (Q @ m # rest')" using too_early(3) Cons by simp
    qed (use too_early Cons in \<open>auto intro!: serving.too_early [where Q = "Q @ [m]" and rest = rest']\<close>)
  qed
next
  case (in_file L n0 P Q rest)
  show ?thesis
  proof (cases rest)
    case (Cons m rest')
    have "bh_loader bh = Some (LRead (m # rest'))" using in_file(5) Cons by auto
    from good_step_file_read [OF rec bh rb this in_file(2) _ _ in_file(6,7,8) _ in_file(11)] show ?thesis
      using in_file(1,3,4,9) Cons by simp
  next
    case Nil
    show ?thesis
    proof (cases "bh_loader_active bh")
      case True
      then have "w = Some (next_id start (L @ P))" "Q = []" using in_file by auto
      then show ?thesis using good_step_file_done [OF rec bh rb in_file(2)] in_file Nil True by auto
    next
      case False
      then show ?thesis unfolding in_file(1) using in_file Nil
        by (intro good_step_idle [OF bh rb]) (auto simp: may_wake_def intro!: serving.in_file [where rest = "[]"])
    qed
  qed
qed

section \<open>Handing out\<close>

lemma hd_at_least_next:
  assumes rec: "recording_ok rc slots bytes" and chain: "served_chain (rc_fetch rc) start L n0"
    and block: "rc_fetch rc n0 = Some (P @ m # Q)" "n0 \<le> meta_id (hd (P @ m # Q))"
  shows "next_id start (L @ P) \<le> meta_id m"
proof (cases P rule: rev_cases)
  case Nil
  then show ?thesis using block(2) chain_next [OF rec chain] by simp
next
  case (snoc P' x)
  have ok: "block_ok rc slots bytes (P @ m # Q)" using rec block(1) by (simp add: recording_ok_def)
  then have "meta_id x < meta_id m" using snoc by (simp add: block_ok_def sorted_wrt_append)
  moreover have "unat (meta_id x) + 1 < 2 ^ 64" using ok snoc by (simp add: block_ok_def)
  then have "unat (meta_id x + 1) = unat (meta_id x) + 1" by (subst unat_add_no_wrap) simp_all
  ultimately show ?thesis using snoc by (simp add: next_id_def word_le_nat_alt word_less_nat_alt)
qed

text \<open>The first image of the queue is handed out.\<close>

lemma pop_in_file:
  assumes rec: "recording_ok rc slots bytes" and chain: "served_chain (rc_fetch rc) start L n0"
    and block: "rc_fetch rc n0 = Some (P @ (m # Q) @ rest)" "n0 \<le> meta_id (hd (P @ (m # Q) @ rest))"
    and pc: "bh_loader bh = Some (LRead rest) \<or> rest = [] \<and> bh_loader bh \<in> {Some LTop, Some LWait}"
    and q: "bh_metadatas bh = map (out_meta rc) (m # Q)" "\<not> bh_no_more_data bh" "\<not> bh_loader_active bh"
    and data: "\<forall>m' \<in> set (m # Q). holds_image rc rb m'"
  shows "try_pop_image (next_id start (L @ P)) bh = (Some (out_meta rc m), bh\<lparr>bh_metadatas := map (out_meta rc) Q\<rparr>) \<and>
    serving rc start ((L @ P) @ [m]) None (bh\<lparr>bh_metadatas := map (out_meta rc) Q\<rparr>) rb"
proof
  have "next_id start (L @ P) \<le> im_image_id (out_meta rc m)"
    using hd_at_least_next [OF rec chain, of P m "Q @ rest"] block by (simp add: out_meta_def served_meta_def)
  then show "try_pop_image (next_id start (L @ P)) bh = (Some (out_meta rc m), bh\<lparr>bh_metadatas := map (out_meta rc) Q\<rparr>)"
    using q(1) by (simp add: try_pop_image_def)
  have "serving rc start (L @ P @ [m]) None (bh\<lparr>bh_metadatas := map (out_meta rc) Q\<rparr>) rb"
    using assms by (intro serving.in_file [where Q = Q and rest = rest, OF chain]) auto
  then show "serving rc start ((L @ P) @ [m]) None (bh\<lparr>bh_metadatas := map (out_meta rc) Q\<rparr>) rb" by simp
qed

definition replaying ::
  "'r recording \<Rightarrow> (ImageMetadata \<Rightarrow> byte list) \<Rightarrow> u64 \<Rightarrow> buffer_reader \<Rightarrow> BufferedMetadata list \<Rightarrow> buffer_reader \<Rightarrow> bool" where
  "replaying rc ser start s0 H s \<longleftrightarrow>
     (\<exists>bh. br_handler s = Some bh \<and> handler_ok rc bh \<and> rb_wf (comm_buffer (br_sender s)) \<and>
        recording_ok rc (rb_slots (comm_buffer (br_sender s))) (rb_size (comm_buffer (br_sender s))) \<and>
        serving rc start H (br_waiting s) bh (comm_buffer (br_sender s))) \<and>
     comm_sent (br_sender s) = comm_sent (br_sender s0) @ map (\<lambda>m. ser (out_meta rc m)) H \<and>
     br_responses s = br_responses s0 @ map (\<lambda>m. Ack (meta_id m)) H"

definition replay_over ::
  "'r recording \<Rightarrow> (ImageMetadata \<Rightarrow> byte list) \<Rightarrow> u64 \<Rightarrow> buffer_reader \<Rightarrow> BufferedMetadata list \<Rightarrow> buffer_reader \<Rightarrow> bool" where
  "replay_over rc ser start s0 H s \<longleftrightarrow> br_waiting s = None \<and>
     comm_sent (br_sender s) = comm_sent (br_sender s0) @ map (\<lambda>m. ser (out_meta rc m)) H \<and>
     br_responses s = br_responses s0 @ map (\<lambda>m. Ack (meta_id m)) H @ [NoImage] \<and>
     (\<exists>n. served_chain (rc_fetch rc) start H n \<and>
        (case rc_fetch rc n of None \<Rightarrow> True | Some ms \<Rightarrow> meta_id (hd ms) < n))"

lemma respond_image:
  assumes "replaying rc ser start s0 H s" and "br_handler s = Some bh0"
    and "handler_ok rc bh" and "serving rc start (H @ [m]) None bh (comm_buffer (br_sender s))"
  shows "\<exists>s'. reader_respond ser (Some (out_meta rc m)) (s\<lparr>br_handler := Some bh\<rparr>) = Inr s' \<and>
    replaying rc ser start s0 (H @ [m]) s' \<and> br_waiting s' = None"
  using assms
  by (auto simp: reader_respond_def Communicator_send_def RamBuffer_write_def replaying_def out_meta_def served_meta_def)

lemma respond_none:
  assumes "replaying rc ser start s0 H s" and "served_chain (rc_fetch rc) start H n"
    and "case rc_fetch rc n of None \<Rightarrow> True | Some ms \<Rightarrow> meta_id (hd ms) < n"
  shows "\<exists>s'. reader_respond ser None (s\<lparr>br_handler := Some bh\<rparr>) = Inr s' \<and> replay_over rc ser start s0 H s'"
  using assms by (auto simp: reader_respond_def replaying_def replay_over_def)

text \<open>The main thread that wakes up has an answer.\<close>

lemma wake_answers:
  assumes rep: "replaying rc ser start s0 H s" and w: "br_waiting s \<noteq> None" and bh: "br_handler s = Some bh" "may_wake bh"
  shows "\<exists>s'. reader_wake ser s = Inr s' \<and>
    ((\<exists>m. replaying rc ser start s0 (H @ [m]) s' \<and> br_waiting s' = None) \<or> replay_over rc ser start s0 H s')"
proof -
  obtain n where n: "br_waiting s = Some n" using w by blast
  have ok: "handler_ok rc bh" and rec: "recording_ok rc (rb_slots (comm_buffer (br_sender s))) (rb_size (comm_buffer (br_sender s)))"
    and serving: "serving rc start H (Some n) bh (comm_buffer (br_sender s))"
    using rep bh(1) n by (auto simp: replaying_def)
  have wake: "reader_wake ser s = (case try_pop_image n bh of (r, bh') \<Rightarrow> reader_respond ser r (s\<lparr>br_handler := Some bh'\<rparr>))"
    using n bh by (simp add: reader_wake_def)
  from serving show ?thesis
  proof cases
    case exhausted
    then show ?thesis using respond_none [OF rep, of n bh] wake by (auto simp: try_pop_image_def)
  next
    case (too_early Q rest)
    obtain m Q' where "Q = m # Q'" using bh(2) too_early by (cases Q) (auto simp: may_wake_def)
    then have "try_pop_image n bh = (None, bh)"
      using too_early by (simp add: try_pop_image_def out_meta_def served_meta_def)
    then show ?thesis using respond_none [OF rep, of n bh] wake too_early by auto
  next
    case (in_file L n0 P Q rest)
    obtain m Q' where Q: "Q = m # Q'" using bh(2) in_file by (cases Q) (auto simp: may_wake_def)
    then have idle: "\<not> bh_loader_active bh" using in_file(9) by blast
    have pop: "try_pop_image n bh = (Some (out_meta rc m), bh\<lparr>bh_metadatas := map (out_meta rc) Q'\<rparr>)"
      "serving rc start (H @ [m]) None (bh\<lparr>bh_metadatas := map (out_meta rc) Q'\<rparr>) (comm_buffer (br_sender s))"
      using pop_in_file [OF rec in_file(2), of P m Q' rest bh "comm_buffer (br_sender s)"] in_file Q idle by auto
    show ?thesis using respond_image [OF rep bh(1) _ pop(2)] pop(1) ok wake by (auto simp: handler_ok_def)
  qed (use bh in \<open>auto simp: may_wake_def\<close>)
qed

text \<open>The request for the next image is answered at once, or the main thread waits.\<close>

lemma next_request:
  assumes rep: "replaying rc ser start s0 H s" and w: "br_waiting s = None"
  shows "H \<noteq> [] \<and> holds_image rc (comm_buffer (br_sender s)) (last H) \<and>
    (\<exists>s' H'. reader_request ser root k fs \<lparr>rni_image_id = meta_id (last H) + 1, rni_new_request = False\<rparr> s = Inr s' \<and>
      replaying rc ser start s0 H' s')"
proof -
  obtain bh where bh: "br_handler s = Some bh" "handler_ok rc bh"
    and rec: "recording_ok rc (rb_slots (comm_buffer (br_sender s))) (rb_size (comm_buffer (br_sender s)))"
    and serving: "serving rc start H None bh (comm_buffer (br_sender s))"
    using rep w by (auto simp: replaying_def)
  from serving show ?thesis
  proof cases
    case (in_file L n0 P Q rest)
    have P: "P \<noteq> []" and idle: "\<not> bh_loader_active bh" using in_file by auto
    have n: "next_id start (L @ P) = meta_id (last H) + 1" using P in_file(1) by (simp add: next_id_def)
    have "\<exists>s' H'. reader_request ser root k fs \<lparr>rni_image_id = meta_id (last H) + 1, rni_new_request = False\<rparr> s = Inr s' \<and>
      replaying rc ser start s0 H' s'"
    proof (cases Q)
      case Nil
      let ?bh = "bh\<lparr>bh_loader_active := True, bh_loader_image_id := meta_id (last H) + 1\<rparr>"
      have "serving rc start (L @ P) (Some (meta_id (last H) + 1)) ?bh (comm_buffer (br_sender s))"
        using in_file Nil n by (intro serving.in_file [where Q = "[]" and rest = rest, OF in_file(2)]) auto
      then show ?thesis using in_file Nil bh rep idle
        by (auto simp: reader_request_def get_image_enter_def try_pop_image_def request_loader_if_needed_def
          replaying_def handler_ok_def)
    next
      case (Cons m Q')
      have pop: "try_pop_image (meta_id (last H) + 1) bh = (Some (out_meta rc m), bh\<lparr>bh_metadatas := map (out_meta rc) Q'\<rparr>)"
        "serving rc start (H @ [m]) None (bh\<lparr>bh_metadatas := map (out_meta rc) Q'\<rparr>) (comm_buffer (br_sender s))"
        using pop_in_file [OF rec in_file(2), of P m Q' rest bh "comm_buffer (br_sender s)"] in_file Cons idle n by auto
      show ?thesis using respond_image [OF rep bh(1) _ pop(2)] pop(1) bh
        by (auto simp: reader_request_def get_image_enter_def handler_ok_def)
    qed
    then show ?thesis using P in_file(1,11) by simp
  qed
qed

section \<open>The process in a replay\<close>

text \<open>The threads interleave; the client asks for the image after the one it was given.\<close>

inductive replay_step :: "'r recording \<Rightarrow> (ImageMetadata \<Rightarrow> byte list) \<Rightarrow> buffer_reader \<Rightarrow> buffer_reader \<Rightarrow> bool"
  for rc ser where
  loader: "reader_loader (rc_env rc) s = Inr s' \<Longrightarrow> replay_step rc ser s s'"
| wake: "reader_wake ser s = Inr s' \<Longrightarrow> replay_step rc ser s s'"
| next_image: "br_waiting s = None \<Longrightarrow> br_responses s = rs @ [Ack i] \<Longrightarrow>
    reader_request ser (rc_root rc) (rc_type_size rc) (rc_fs rc) \<lparr>rni_image_id = i + 1, rni_new_request = False\<rparr> s = Inr s' \<Longrightarrow>
    replay_step rc ser s s'"

inductive_simps replay_step_iff: "replay_step rc ser s s'"

definition first_request :: "u64 \<Rightarrow> RequestNextImage" where
  "first_request start = \<lparr>rni_image_id = start, rni_new_request = True\<rparr>"

definition replay_inv ::
  "'r recording \<Rightarrow> (ImageMetadata \<Rightarrow> byte list) \<Rightarrow> u64 \<Rightarrow> buffer_reader \<Rightarrow> buffer_reader \<Rightarrow> bool" where
  "replay_inv rc ser start s0 s \<longleftrightarrow> (\<exists>H. replaying rc ser start s0 H s \<or> replay_over rc ser start s0 H s)"

lemma replaying_first:
  assumes "recording_ok rc (rb_slots (comm_buffer (br_sender s0))) (rb_size (comm_buffer (br_sender s0)))"
    and "rb_wf (comm_buffer (br_sender s0))"
    and "reader_request ser (rc_root rc) (rc_type_size rc) (rc_fs rc) (first_request start) s0 = Inr s"
  shows "replaying rc ser start s0 [] s"
proof -
  let ?bh = "(start_loader (BufferHandler_ctor (rc_root rc) (rc_type_size rc) (rc_fs rc)))
    \<lparr>bh_loader_active := True, bh_loader_image_id := start\<rparr>"
  have s: "s = s0\<lparr>br_handler := Some ?bh, br_waiting := Some start\<rparr>"
    using assms(3) by (simp add: reader_request_def first_request_def get_image_enter_def try_pop_image_def
      request_loader_if_needed_def start_loader_def BufferHandler_ctor_def)
  have "serving rc start [] (Some start) ?bh (comm_buffer (br_sender s0))"
    by (intro serving.requested served_chain.chain_start) (simp_all add: start_loader_def BufferHandler_ctor_def)
  moreover have "handler_ok rc ?bh"
    by (simp add: handler_ok_def start_loader_def BufferHandler_ctor_def reader_ok_def FileHandler_ctor_def closed_stream_def)
  ultimately show ?thesis using assms(1,2) by (auto simp: replaying_def s)
qed

lemma loader_replaying:
  assumes "replaying rc ser start s0 H s"
  shows "\<exists>s' bh bh'. reader_loader (rc_env rc) s = Inr s' \<and> replaying rc ser start s0 H s' \<and> br_waiting s' = br_waiting s \<and>
    br_handler s = Some bh \<and> br_handler s' = Some bh' \<and>
    (br_waiting s \<noteq> None \<longrightarrow> \<not> may_wake bh \<longrightarrow> may_wake bh' \<or> loader_rank (bh_loader bh') < loader_rank (bh_loader bh))"
proof -
  obtain bh where bh: "br_handler s = Some bh" and st: "handler_ok rc bh" "rb_wf (comm_buffer (br_sender s))"
    "recording_ok rc (rb_slots (comm_buffer (br_sender s))) (rb_size (comm_buffer (br_sender s)))"
    "serving rc start H (br_waiting s) bh (comm_buffer (br_sender s))"
    using assms by (auto simp: replaying_def)
  from loader_good_step [OF st(3,1,2,4)] obtain bh' rb where
    step: "loader_step (rc_env rc) (bh, br_sender s) = Inr (bh', (br_sender s)\<lparr>comm_buffer := rb\<rparr>)"
    and new: "handler_ok rc bh'" "rb_wf rb" "rb_n_slots rb = rb_n_slots (comm_buffer (br_sender s))"
      "rb_data_bytes rb = rb_data_bytes (comm_buffer (br_sender s))" "serving rc start H (br_waiting s) bh' rb"
      "br_waiting s \<noteq> None \<longrightarrow> \<not> may_wake bh \<longrightarrow> may_wake bh' \<or> loader_rank (bh_loader bh') < loader_rank (bh_loader bh)"
    by (auto simp: good_step_def)
  let ?s = "s\<lparr>br_handler := Some bh', br_sender := (br_sender s)\<lparr>comm_buffer := rb\<rparr>\<rparr>"
  have "reader_loader (rc_env rc) s = Inr ?s" using bh step by (simp add: reader_loader_def)
  moreover have "replaying rc ser start s0 H ?s" using assms new st(3) by (auto simp: replaying_def)
  ultimately show ?thesis using bh new(6) by auto
qed

lemma loader_keeps_sent:
  "loader_step env (bh, c) = Inr (bh', c') \<Longrightarrow> comm_sent c' = comm_sent c"
  by (auto simp: loader_step_def read_single_image_def Let_def bindE_eq_Inr
    split: option.splits loader_pc.splits list.splits if_splits)

lemma replay_inv_step:
  assumes "replay_inv rc ser start s0 s" and "replay_step rc ser s s'"
  shows "replay_inv rc ser start s0 s'"
proof -
  obtain H where "replaying rc ser start s0 H s \<or> replay_over rc ser start s0 H s" using assms(1) by (auto simp: replay_inv_def)
  then show ?thesis
  proof
    assume rep: "replaying rc ser start s0 H s"
    from assms(2) show ?thesis
    proof cases
      case loader
      then show ?thesis using loader_replaying [OF rep] by (auto simp: replay_inv_def)
    next
      case wake
      obtain bh where bh: "br_handler s = Some bh" using rep by (auto simp: replaying_def)
      show ?thesis
      proof (cases "br_waiting s \<noteq> None \<and> may_wake bh")
        case True
        then show ?thesis using wake_answers [OF rep _ bh] wake by (auto simp: replay_inv_def)
      next
        case False
        then have "s' = s" using wake bh by (auto simp: reader_wake_def split: option.splits)
        then show ?thesis using assms(1) by simp
      qed
    next
      case (next_image rs i)
      have "H \<noteq> []" using next_request [OF rep next_image(1)] by blast
      then have "i = meta_id (last H)"
        using next_image(2) rep by (cases H rule: rev_cases) (auto simp: replaying_def)
      then show ?thesis
        using next_request [OF rep next_image(1), of "rc_root rc" "rc_type_size rc" "rc_fs rc"] next_image(3)
        by (auto simp: replay_inv_def)
    qed
  next
    assume over: "replay_over rc ser start s0 H s"
    from assms(2) show ?thesis
    proof cases
      case loader
      then have "replay_over rc ser start s0 H s'" using over
        by (auto simp: reader_loader_def replay_over_def bindE_eq_Inr dest: loader_keeps_sent split: option.splits)
      then show ?thesis by (auto simp: replay_inv_def)
    next
      case wake
      then show ?thesis using over assms(1) by (simp add: reader_wake_def replay_over_def)
    next
      case (next_image rs i)
      then show ?thesis using over by (simp add: replay_over_def)
    qed
  qed
qed

interpretation replay: transition_system "replaying rc ser start s0 []" "replay_step rc ser" "replay_inv rc ser start s0"
  for rc ser start s0
  by unfold_locales (auto simp: replay_inv_def intro: replay_inv_step [unfolded replay_inv_def])

lemma serving_prefix:
  assumes "serving rc start H w bh rb"
  shows "\<exists>L n t. served_chain (rc_fetch rc) start L n \<and> L = H @ t"
  using assms
proof cases
  case (in_file L n0 P Q rest)
  have "served_chain (rc_fetch rc) start (L @ P @ Q @ rest) (meta_id (last (P @ Q @ rest)) + 1)"
    using in_file by (intro served_chain.chain_file) auto
  then show ?thesis using in_file(1) by auto
qed auto

text \<open>C3. The buffer reader serves a recording in order and completely, however its threads interleave. What it has
  handed out is always a beginning of the specified sequence: file after file from the first id,
  each one whole. An image that was handed out is in its slot until the next one is asked for.
  The reader says that there is no image only when everything up to there was handed out, and no file follows
  or the file that is found starts before the id asked for.\<close>

theorem reader_serves_in_order:
  assumes "recording_ok rc (rb_slots (comm_buffer (br_sender s0))) (rb_size (comm_buffer (br_sender s0)))"
    and "rb_wf (comm_buffer (br_sender s0))"
    and "reader_request ser (rc_root rc) (rc_type_size rc) (rc_fs rc) (first_request start) s0 = Inr s1"
    and "(replay_step rc ser)\<^sup>*\<^sup>* s1 s"
  shows "\<exists>H L n t. served_chain (rc_fetch rc) start L n \<and> L = H @ t \<and>
    comm_sent (br_sender s) = comm_sent (br_sender s0) @ map (\<lambda>m. ser (out_meta rc m)) H \<and>
    ((br_responses s = br_responses s0 @ map (\<lambda>m. Ack (meta_id m)) H \<and>
        (br_waiting s = None \<longrightarrow> H \<noteq> [] \<and> holds_image rc (comm_buffer (br_sender s)) (last H))) \<or>
     (br_responses s = br_responses s0 @ map (\<lambda>m. Ack (meta_id m)) H @ [NoImage] \<and> t = [] \<and>
        (case rc_fetch rc n of None \<Rightarrow> True | Some ms \<Rightarrow> meta_id (hd ms) < n)))"
proof -
  have "replay_inv rc ser start s0 s"
    using replay.inv_reachable [OF replaying_first [OF assms(1-3)] assms(4)] .
  then obtain H where "replaying rc ser start s0 H s \<or> replay_over rc ser start s0 H s" by (auto simp: replay_inv_def)
  then show ?thesis
  proof
    assume rep: "replaying rc ser start s0 H s"
    then obtain L n t where chain: "served_chain (rc_fetch rc) start L n" "L = H @ t"
      by (auto simp: replaying_def dest: serving_prefix)
    have last: "br_waiting s = None \<longrightarrow> H \<noteq> [] \<and> holds_image rc (comm_buffer (br_sender s)) (last H)"
      using next_request [OF rep] by blast
    have sent: "comm_sent (br_sender s) = comm_sent (br_sender s0) @ map (\<lambda>m. ser (out_meta rc m)) H"
      "br_responses s = br_responses s0 @ map (\<lambda>m. Ack (meta_id m)) H" using rep by (simp_all add: replaying_def)
    show ?thesis by (intro exI [of _ H] exI [of _ L] exI [of _ n] exI [of _ t]) (use chain last sent in simp)
  next
    assume "replay_over rc ser start s0 H s"
    then show ?thesis unfolding replay_over_def by (metis append_Nil2)
  qed
qed

fun run_loader :: "'r reader_env \<Rightarrow> nat \<Rightarrow> buffer_reader \<Rightarrow> buffer_reader res" where
  "run_loader env 0 s = Inr s"
| "run_loader env (Suc k) s = bindE (reader_loader env s) (run_loader env k)"

lemma loader_rank_pos: "0 < loader_rank pc" by (cases pc rule: loader_rank.cases) simp_all

lemma loader_rank_le: "loader_rank pc \<le> 5" by (cases pc rule: loader_rank.cases) simp_all

lemma loader_wakes:
  assumes "replaying rc ser start s0 H s" and "br_waiting s \<noteq> None" and "br_handler s = Some bh"
    and "loader_rank (bh_loader bh) \<le> r"
  shows "\<exists>k s' bh'. k \<le> r \<and> run_loader (rc_env rc) k s = Inr s' \<and> replaying rc ser start s0 H s' \<and>
    br_waiting s' \<noteq> None \<and> br_handler s' = Some bh' \<and> may_wake bh'"
  using assms
proof (induction r arbitrary: s bh)
  case 0
  then show ?case using loader_rank_pos [of "bh_loader bh"] by simp
next
  case (Suc r)
  show ?case
  proof (cases "may_wake bh")
    case True
    then show ?thesis using Suc.prems by (intro exI [of _ 0] exI [of _ s] exI [of _ bh]) simp
  next
    case False
    obtain s1 bh1 where one: "reader_loader (rc_env rc) s = Inr s1" "replaying rc ser start s0 H s1" "br_waiting s1 = br_waiting s"
      "br_handler s1 = Some bh1" "may_wake bh1 \<or> loader_rank (bh_loader bh1) < loader_rank (bh_loader bh)"
      using loader_replaying [OF Suc.prems(1)] Suc.prems(2,3) False by auto
    show ?thesis
    proof (cases "may_wake bh1")
      case True
      then show ?thesis using one Suc.prems(2) by (intro exI [of _ 1] exI [of _ s1] exI [of _ bh1]) simp
    next
      case notyet: False
      then have "loader_rank (bh_loader bh1) \<le> r" using one(5) Suc.prems(4) by simp
      then obtain k s' bh' where "k \<le> r" "run_loader (rc_env rc) k s1 = Inr s'" "replaying rc ser start s0 H s'"
        "br_waiting s' \<noteq> None" "br_handler s' = Some bh'" "may_wake bh'"
        using Suc.IH [OF one(2) _ one(4)] one(3) Suc.prems(2) by auto
      then show ?thesis using one(1) by (intro exI [of _ "Suc k"] exI [of _ s'] exI [of _ bh']) simp
    qed
  qed
qed

lemma run_loader_steps: "run_loader (rc_env rc) k s = Inr s' \<Longrightarrow> (replay_step rc ser)\<^sup>*\<^sup>* s s'"
proof (induction k arbitrary: s)
  case (Suc k)
  then obtain s1 where s1: "reader_loader (rc_env rc) s = Inr s1" "run_loader (rc_env rc) k s1 = Inr s'"
    by (auto simp: bindE_eq_Inr)
  from Suc.IH [OF s1(2)] show ?case using replay_step.loader [OF s1(1)] by (rule converse_rtranclp_into_rtranclp [rotated])
qed simp

text \<open>C17. A request is answered: in every state in which the main thread waits, at most five steps of the loader
  satisfy its condition, and it answers.\<close>

theorem reader_answers:
  assumes "recording_ok rc (rb_slots (comm_buffer (br_sender s0))) (rb_size (comm_buffer (br_sender s0)))"
    and "rb_wf (comm_buffer (br_sender s0))"
    and "reader_request ser (rc_root rc) (rc_type_size rc) (rc_fs rc) (first_request start) s0 = Inr s1"
    and "(replay_step rc ser)\<^sup>*\<^sup>* s1 s" and "br_waiting s \<noteq> None"
  shows "\<exists>k s' s'' r. k \<le> 5 \<and> run_loader (rc_env rc) k s = Inr s' \<and> reader_wake ser s' = Inr s'' \<and>
    br_waiting s'' = None \<and> br_responses s'' = br_responses s @ [r]"
proof -
  have "replay_inv rc ser start s0 s"
    using replay.inv_reachable [OF replaying_first [OF assms(1-3)] assms(4)] .
  then obtain H where rep: "replaying rc ser start s0 H s" using assms(5) by (auto simp: replay_inv_def replay_over_def)
  then obtain bh where bh: "br_handler s = Some bh" by (auto simp: replaying_def)
  obtain k s' bh' where k: "k \<le> 5" "run_loader (rc_env rc) k s = Inr s'" "replaying rc ser start s0 H s'"
    "br_waiting s' \<noteq> None" "br_handler s' = Some bh'" "may_wake bh'"
    using loader_wakes [OF rep assms(5) bh loader_rank_le] by blast
  obtain s'' where "reader_wake ser s' = Inr s''"
    "(\<exists>m. replaying rc ser start s0 (H @ [m]) s'' \<and> br_waiting s'' = None) \<or> replay_over rc ser start s0 H s''"
    using wake_answers [OF k(3-6)] by blast
  then show ?thesis using k(1,2) rep by (intro exI [of _ k] exI [of _ s'] exI [of _ s'']) (auto simp: replaying_def replay_over_def)
qed

lemma chain_too_early:
  assumes "served_chain F start L n" and "F start = Some ms" and "meta_id (hd ms) < start"
  shows "L = [] \<and> n = start"
  using assms by (induction rule: served_chain.induct) auto

text \<open>A replay that starts inside a file gets no image: the loader queues the images of the file from its
  beginning, the first of them is before the requested id, and the reader answers that there
  is no image.\<close>

theorem reader_start_inside_file:
  assumes "recording_ok rc (rb_slots (comm_buffer (br_sender s0))) (rb_size (comm_buffer (br_sender s0)))"
    and "rb_wf (comm_buffer (br_sender s0))"
    and "reader_request ser (rc_root rc) (rc_type_size rc) (rc_fs rc) (first_request start) s0 = Inr s1"
    and "(replay_step rc ser)\<^sup>*\<^sup>* s1 s" and "rc_fetch rc start = Some ms" and "meta_id (hd ms) < start"
  shows "comm_sent (br_sender s) = comm_sent (br_sender s0) \<and>
    br_responses s \<in> {br_responses s0, br_responses s0 @ [NoImage]}"
proof -
  have "replay_inv rc ser start s0 s"
    using replay.inv_reachable [OF replaying_first [OF assms(1-3)] assms(4)] .
  then obtain H where H: "replaying rc ser start s0 H s \<or> replay_over rc ser start s0 H s" by (auto simp: replay_inv_def)
  then obtain L n t where "served_chain (rc_fetch rc) start L n" "L = H @ t"
    unfolding replaying_def replay_over_def by (metis append_Nil2 serving_prefix)
  then have "H = []" using chain_too_early [where F = "rc_fetch rc", OF _ assms(5,6)] by auto
  then show ?thesis using H by (auto simp: replaying_def replay_over_def)
qed

section \<open>An example\<close>

text \<open>One image with the id 5, in the file of the first thousand.\<close>

definition tiny_meta :: BufferedMetadata where
  "tiny_meta = \<lparr>bm_metadata = default_ImageMetadata\<lparr>im_image_id := 5, im_height := 1, im_width := 1, im_size := 2,
     im_dtype := dt_uint8, im_compression := cmp_blosc2\<rparr>, bm_offset = 0\<rparr>"

definition tiny_redis :: "unit redis_api" where
  "tiny_redis = \<lparr>rd_ping = ''PONG'', rd_set = (\<lambda>_ _ r. r), rd_expire = (\<lambda>_ _ r. r), rd_zadd = (\<lambda>_ _ _ r. r),
     rd_get = (\<lambda>k _. if k = ''camera:D:5'' then Some [0] else None),
     rd_zrangebyscore = (\<lambda>k lo hi _. if k = ''camera:D:ids'' \<and> lo \<le> 5 \<and> 5 \<le> hi then [''5''] else [])\<rparr>"

definition tiny_recording :: "unit recording" where
  "tiny_recording = \<lparr>rc_env = \<lparr>re_blosc = header_blosc, re_redis = tiny_redis, re_parse = (\<lambda>_. Some tiny_meta),
       re_redis_handler = \<lparr>rh_key_prefix = ''camera:D:'', rh_ttl = 1\<rparr>, re_db = ()\<rparr>,
     rc_root = ''/buffer'', rc_type_size = 1,
     rc_fs = \<lparr>fs_dirs = [''/buffer'', ''/buffer/0000000''], fs_files = [(''/buffer/0000000/0000.dat'', [1, 7])]\<rparr>,
     rc_image = (\<lambda>_. [7])\<rparr>"

definition tiny_reader :: buffer_reader where
  "tiny_reader = \<lparr>br_handler = None,
     br_sender = \<lparr>comm_buffer = \<lparr>rb_n_slots = 4, rb_data_bytes = 2, rb_buffer_bytes = 8, rb_buffer = replicate 8 0\<rparr>, comm_sent = []\<rparr>,
     br_waiting = None, br_responses = [],
     br_stats = \<lparr>sc_detector_name = ''D'', sc_period = 1, sc_last_update_time = 0, processed_times = 0, source_suffix = [], previous_time = 0\<rparr>\<rparr>"

lemma tiny_files:
  "get_folder_ids_in_root_directory (rc_handler tiny_recording) (rc_fs tiny_recording) = Inr [0]"
  "get_file_ids_in_folder (rc_handler tiny_recording) 0 (rc_fs tiny_recording) = Inr [0]"
proof -
  have digits: "char_of (48 :: nat) = CHR ''0''" by code_simp
  note defs = get_folder_ids_in_root_directory_def get_file_ids_in_folder_def directory_entries_def tiny_recording_def
    rc_handler_def FileHandler_ctor_def get_folder_path_def stem_def stoul_def stoull_def scan_number_def is_space_def is_digit_def
    to_string_def dec_digits.simps digits
  show "get_folder_ids_in_root_directory (rc_handler tiny_recording) (rc_fs tiny_recording) = Inr [0]"
    "get_file_ids_in_folder (rc_handler tiny_recording) 0 (rc_fs tiny_recording) = Inr [0]" by (simp_all add: defs)
qed

lemma tiny_matching:
  "get_first_matching_root_id (rc_handler tiny_recording) img (rc_fs tiny_recording) =
    Inr (if block_of img = 0 then Some 0 else None)"
proof -
  have "folder_of img = 0" if "block_of img = 0" using that folder_of_block_of [of img] by (simp add: folder_of_def)
  then show ?thesis using tiny_files
    by (auto simp: get_first_matching_root_id_def Let_def lower_bound_def first_file_in_folder_def folder_of_def block_of_def word_gt_0)
qed

lemma tiny_fetch:
  "fetch_next_metadatas (rc_env tiny_recording) (rc_handler tiny_recording) (rc_fs tiny_recording) img =
    Inr (if block_of img = 0 then Some [tiny_meta] else None)"
proof -
  have "to_string 5 = ''5''" by code_simp
  moreover have "stoull ''5'' = Inr (5, [])"
    using stoull_to_string [of 5] calculation by simp
  ultimately have "get_metadatas_in_file_range tiny_redis (\<lambda>_. Some tiny_meta) \<lparr>rh_key_prefix = ''camera:D:'', rh_ttl = 1\<rparr> 0 () = [tiny_meta]"
    by (simp add: get_metadatas_in_file_range_def get_image_ids_in_file_range_def get_metadata_def make_meta_key_def ids_key_def
      tiny_redis_def parse_uint64_def to_double_small)
  then show ?thesis using tiny_matching [of img] by (simp add: fetch_next_metadatas_def tiny_recording_def)
qed

lemma tiny_recording_ok: "recording_ok tiny_recording 4 2"
proof -
  have name: "get_filename (rc_handler tiny_recording) 5 = ''/buffer/0000000/0000.dat''" by code_simp
  have c: "fh_compress header_blosc [7] = [1, 7]" by (simp add: fh_compress_def header_blosc_def to_int32_small)
  have "image_ok tiny_recording 2 tiny_meta"
    using name c by (simp add: image_ok_def tiny_recording_def tiny_meta_def get_uncompressed_size_def
      get_bytes_from_metadata_dtype_def place_holds_def segment_def compressible_def on_disk_def file_content_def)
      (simp add: header_blosc_def)
  moreover have "length (on_disk (rc_fs tiny_recording) p) < 2 ^ 63" for p
    by (simp add: on_disk_def file_content_def tiny_recording_def)
  ultimately show ?thesis using header_blosc_laws(1) tiny_fetch
    by (auto simp: recording_ok_def rc_fetch_def block_ok_def tiny_meta_def tiny_recording_def split: if_splits)
qed

lemma chain_first:
  assumes "served_chain F start L n"
  shows "L = [] \<and> n = start \<or> (\<exists>ms t. F start = Some ms \<and> L = ms @ t)"
  using assms by (induction rule: served_chain.induct) auto

lemma tiny_started:
  "\<exists>s. reader_request ser (rc_root tiny_recording) (rc_type_size tiny_recording) (rc_fs tiny_recording) (first_request start) tiny_reader = Inr s \<and>
    br_waiting s = Some start \<and> br_responses s = []"
  by (simp add: reader_request_def first_request_def get_image_enter_def try_pop_image_def start_loader_def BufferHandler_ctor_def
    tiny_reader_def)

lemma tiny_reader_ok:
  "recording_ok tiny_recording (rb_slots (comm_buffer (br_sender tiny_reader))) (rb_size (comm_buffer (br_sender tiny_reader)))"
  "rb_wf (comm_buffer (br_sender tiny_reader))"
  using tiny_recording_ok by (simp_all add: tiny_reader_def rb_wf_def)

lemma tiny_rc_fetch: "rc_fetch tiny_recording img = (if block_of img = 0 then Some [tiny_meta] else None)"
  by (simp add: rc_fetch_def tiny_fetch)

text \<open>A request is answered in the example, too.\<close>

lemma tiny_answer:
  assumes "reader_request ser (rc_root tiny_recording) (rc_type_size tiny_recording) (rc_fs tiny_recording) (first_request start) tiny_reader = Inr s1"
  shows "\<exists>s r. (replay_step tiny_recording ser)\<^sup>*\<^sup>* s1 s \<and> br_waiting s = None \<and> br_responses s = [r]"
proof -
  have first: "replaying tiny_recording ser start tiny_reader [] s1" using replaying_first [OF tiny_reader_ok assms] .
  moreover have w: "br_waiting s1 \<noteq> None" using tiny_started [of ser start] assms by auto
  moreover obtain bh where "br_handler s1 = Some bh" using first by (auto simp: replaying_def)
  ultimately obtain k s' bh' where k: "run_loader (rc_env tiny_recording) k s1 = Inr s'" "replaying tiny_recording ser start tiny_reader [] s'"
    "br_waiting s' \<noteq> None" "br_handler s' = Some bh'" "may_wake bh'"
    using loader_wakes [OF _ _ _ loader_rank_le] by blast
  then obtain s where s: "reader_wake ser s' = Inr s" "(\<exists>m. replaying tiny_recording ser start tiny_reader [m] s \<and> br_waiting s = None) \<or>
      replay_over tiny_recording ser start tiny_reader [] s"
    using wake_answers [OF k(2-5)] by auto
  then have "br_waiting s = None" "\<exists>r. br_responses s = [r]" by (auto simp: replaying_def replay_over_def tiny_reader_def)
  moreover have "(replay_step tiny_recording ser)\<^sup>*\<^sup>* s1 s"
    using run_loader_steps [OF k(1)] replay_step.wake [OF s(1)] by (rule rtranclp.rtrancl_into_rtrancl)
  ultimately show ?thesis by blast
qed

lemma tiny_chain: "served_chain (rc_fetch tiny_recording) 5 L n \<Longrightarrow> L = [] \<and> n = 5 \<or> (\<exists>t. L = tiny_meta # t)"
  by (auto simp: tiny_rc_fetch split: if_splits dest!: chain_first)

theorem reader_serves_in_order_witness:
  "\<exists>s1 s. reader_request (\<lambda>_. []) (rc_root tiny_recording) (rc_type_size tiny_recording) (rc_fs tiny_recording)
      (first_request 5) tiny_reader = Inr s1 \<and> (replay_step tiny_recording (\<lambda>_. []))\<^sup>*\<^sup>* s1 s \<and>
    br_responses s = [Ack 5] \<and> comm_sent (br_sender s) = [[]] \<and> holds_image tiny_recording (comm_buffer (br_sender s)) tiny_meta"
proof -
  obtain s1 where s1: "reader_request (\<lambda>_. []) (rc_root tiny_recording) (rc_type_size tiny_recording) (rc_fs tiny_recording)
      (first_request 5) tiny_reader = Inr s1" using tiny_started by blast
  obtain s r where s: "(replay_step tiny_recording (\<lambda>_. []))\<^sup>*\<^sup>* s1 s" "br_waiting s = None" "br_responses s = [r]"
    using tiny_answer [OF s1] by blast
  have no_end: "\<not> (served_chain (rc_fetch tiny_recording) 5 [] n \<and>
      (case rc_fetch tiny_recording n of None \<Rightarrow> True | Some ms \<Rightarrow> meta_id (hd ms) < n))" for n
    by (auto simp: tiny_rc_fetch block_of_def tiny_meta_def dest!: tiny_chain)
  obtain x n t where x: "served_chain (rc_fetch tiny_recording) 5 (x # t) n" "comm_sent (br_sender s) = [[]]"
    "r = Ack (meta_id x)" "holds_image tiny_recording (comm_buffer (br_sender s)) x"
    using reader_serves_in_order [OF tiny_reader_ok s1 s(1)] s(2,3) no_end
    by (auto simp: tiny_reader_def append_eq_Cons_conv)
  have "x = tiny_meta" using tiny_chain [OF x(1)] by simp
  then show ?thesis using s1 s x by (auto simp: tiny_meta_def)
qed

theorem reader_answers_witness:
  "\<exists>s1 k s' s'' r. reader_request (\<lambda>_. []) (rc_root tiny_recording) (rc_type_size tiny_recording) (rc_fs tiny_recording)
      (first_request 7) tiny_reader = Inr s1 \<and> k \<le> 5 \<and> run_loader (rc_env tiny_recording) k s1 = Inr s' \<and>
    reader_wake (\<lambda>_. []) s' = Inr s'' \<and> br_responses s'' = [r]"
proof -
  obtain s1 where s1: "reader_request (\<lambda>_. []) (rc_root tiny_recording) (rc_type_size tiny_recording) (rc_fs tiny_recording)
      (first_request 7) tiny_reader = Inr s1" "br_waiting s1 \<noteq> None" "br_responses s1 = []" using tiny_started by fastforce
  then show ?thesis using reader_answers [OF tiny_reader_ok s1(1) rtranclp.rtrancl_refl s1(2)] by auto
qed

theorem reader_start_inside_file_witness:
  "\<exists>s1 s. reader_request (\<lambda>_. []) (rc_root tiny_recording) (rc_type_size tiny_recording) (rc_fs tiny_recording)
      (first_request 7) tiny_reader = Inr s1 \<and> (replay_step tiny_recording (\<lambda>_. []))\<^sup>*\<^sup>* s1 s \<and>
    br_responses s = [NoImage] \<and> comm_sent (br_sender s) = []"
proof -
  obtain s1 where s1: "reader_request (\<lambda>_. []) (rc_root tiny_recording) (rc_type_size tiny_recording) (rc_fs tiny_recording)
      (first_request 7) tiny_reader = Inr s1" using tiny_started by blast
  obtain s r where s: "(replay_step tiny_recording (\<lambda>_. []))\<^sup>*\<^sup>* s1 s" "br_responses s = [r]"
    using tiny_answer [OF s1] by blast
  have "rc_fetch tiny_recording 7 = Some [tiny_meta]" "meta_id (hd [tiny_meta]) < 7"
    by (simp_all add: tiny_rc_fetch block_of_def tiny_meta_def)
  from reader_start_inside_file [OF tiny_reader_ok s1 s(1) this] s1 s show ?thesis by (auto simp: tiny_reader_def)
qed

end
