(* ===== verification/BufferDriver.thy ===== *)
theory BufferDriver
  imports Streams
begin

text \<open>
  \<open>std-buffer-driver\<close>: the process that replays recorded images. Over web sockets it takes the
  range of ids; one thread asks the buffer reader for image after image (\<open>control_reader\<close>),
  another one forwards the images that the reader has put into the RAM buffer
  (\<open>forward_images\<close>). The first thread waits until the second one has sent an image before it
  asks for the next.

  A thread is a program counter with one step per access to the shared state or to a socket; what
  \<open>zmq_recv\<close> gives is an argument of the step. Requests and monitors are machines of the same kind.
  The JSON library is an argument.
\<close>

section \<open>The state\<close>

datatype reader_state = rs_idle | rs_replaying | rs_finishing | rs_finished | rs_stop | rs_error | rs_num_states

definition reader_state_names :: "string list" where
  "reader_state_names = [''idle'', ''replaying'', ''finishing'', ''finished'', ''stop'', ''error'']"

fun reader_state_index :: "reader_state \<Rightarrow> nat" where
  "reader_state_index rs_idle = 0"
| "reader_state_index rs_replaying = 1"
| "reader_state_index rs_finishing = 2"
| "reader_state_index rs_finished = 3"
| "reader_state_index rs_stop = 4"
| "reader_state_index rs_error = 5"
| "reader_state_index rs_num_states = 6"

definition reader_state_to_string :: "reader_state \<Rightarrow> string" where
  "reader_state_to_string s =
     (if reader_state_index s < length reader_state_names then reader_state_names ! reader_state_index s else ''unknown'')"

record replay_manager =
  rm_state :: reader_state
  rm_images_processed :: u32
  rm_active_sessions :: u32

definition replay_manager_ctor :: replay_manager where
  "replay_manager_ctor = \<lparr>rm_state = rs_idle, rm_images_processed = 0, rm_active_sessions = 0\<rparr>"

definition rm_change_state :: "reader_state \<Rightarrow> replay_manager \<Rightarrow> replay_manager" where
  "rm_change_state newState rm =
     rm\<lparr>rm_state := newState, rm_images_processed := (if newState = rs_idle then 0 else rm_images_processed rm)\<rparr>"

definition rm_update_image_count :: "u32 \<Rightarrow> replay_manager \<Rightarrow> replay_manager" where
  "rm_update_image_count sent_images rm = rm\<lparr>rm_images_processed := sent_images\<rparr>"

definition rm_add_active_session :: "replay_manager \<Rightarrow> replay_manager" where
  "rm_add_active_session rm = rm\<lparr>rm_active_sessions := rm_active_sessions rm + 1\<rparr>"

definition rm_remove_active_session :: "replay_manager \<Rightarrow> replay_manager" where
  "rm_remove_active_session rm = rm\<lparr>rm_active_sessions := rm_active_sessions rm - 1\<rparr>"

definition is_replaying :: "replay_manager \<Rightarrow> bool" where
  "is_replaying rm \<longleftrightarrow> rm_state rm = rs_replaying"

section \<open>Commands\<close>

record replay_settings =
  rps_start_image_id :: u64
  rps_end_image_id :: "u64 option"
  rps_delay :: "u64 option" \<comment> \<open>milliseconds\<close>

definition rb_parse_command :: "(string \<Rightarrow> 'j res) \<Rightarrow> string \<Rightarrow> 'j option" where
  "rb_parse_command parse msg = (case parse msg of Inr j \<Rightarrow> Some j | Inl _ \<Rightarrow> None)"

definition optional_size_t :: "'j json_api \<Rightarrow> 'j \<Rightarrow> string \<Rightarrow> u64 option res" where
  "optional_size_t api cmd key =
     (if jc_contains api cmd key then bindE (bindE (jc_at api cmd key) (jc_get_size_t api)) (\<lambda>v. Inr (Some v)) else Inr None)"

text \<open>The function is \<open>noexcept\<close>.\<close>

definition rb_process_start_request :: "'j json_api \<Rightarrow> 'j \<Rightarrow> replay_settings option res" where
  "rb_process_start_request api cmd =
     (case bindE (jc_value_string api cmd ''command'' []) (\<lambda>c.
             if c = ''start'' \<and> jc_contains api cmd ''start_image_id''
             then bindE (bindE (jc_at api cmd ''start_image_id'') (jc_get_size_t api)) (\<lambda>start.
                  bindE (optional_size_t api cmd ''end_image_id'') (\<lambda>end_id.
                  bindE (optional_size_t api cmd ''delay'') (\<lambda>delay.
                  Inr (Some \<lparr>rps_start_image_id = start, rps_end_image_id = end_id, rps_delay = delay\<rparr>))))
             else Inr None) of
        Inl _ \<Rightarrow> Inl (Terminated ''exception in noexcept'')
      | Inr r \<Rightarrow> Inr r)"

section \<open>Sockets\<close>

definition bind_push_socket :: "zmq_api \<Rightarrow> string \<Rightarrow> zmq_socket res" where
  "bind_push_socket z stream_address =
     (if \<not> z_socket z ZMQ_PUSH then Inl (zmq_error z)
      else bindE (set_option z SNDHWM 100 (new_socket ZMQ_PUSH)) (\<lambda>s.
           bindE (set_option z LINGER 0 s) (bind_to z stream_address)))"

definition connect_driver_socket :: "zmq_api \<Rightarrow> string \<Rightarrow> zmq_socket res" where
  "connect_driver_socket z stream_address =
     (if \<not> z_socket z ZMQ_REQ then Inl (zmq_error z)
      else bindE (set_option z SNDHWM 100 (new_socket ZMQ_REQ)) (\<lambda>s.
           bindE (set_option z LINGER 0 s) (connect_to z stream_address)))"

text \<open>The constructor: the image buffer, the socket for the images, the socket to the reader.\<close>

definition replayer_ctor ::
  "shm_api \<Rightarrow> zmq_api \<Rightarrow> DetectorConfig \<Rightarrow> string \<Rightarrow> (Communicator \<times> zmq_socket \<times> zmq_socket \<times> zmq_socket) res" where
  "replayer_ctor os z config stream_address =
     (let sync_name = detector_name config @ ''-image'' in
      bindE (converted_image_n_bytes config) (\<lambda>n.
      bindE (slots_number config) (\<lambda>slots.
      bindE (Communicator_ctor os z
               \<lparr>rbc_buffer_name = sync_name, rbc_n_bytes_data = n, rbc_n_buffer_slots = slots\<rparr>
               \<lparr>cc_stream_name = sync_name, cc_connection_type = CONN_TYPE_CONNECT, cc_zmq_socket_type = ZMQ_SUB\<rparr>)
        (\<lambda>(receiver, s).
      bindE (bind_push_socket z stream_address) (\<lambda>push_socket.
      bindE (connect_driver_socket z (IPC_URL_BASE @ detector_name config @ ''-driver'')) (\<lambda>driver_socket.
      Inr (receiver, s, push_socket, driver_socket)))))))"

section \<open>The threads of a replay\<close>

text \<open>\<open>image_id <= settings.end_image_id\<close> compares with an \<open>optional\<close>: nothing is less or equal to
  an empty one.\<close>

definition up_to :: "u64 \<Rightarrow> u64 option \<Rightarrow> bool" where
  "up_to img end_id = (case end_id of None \<Rightarrow> False | Some e \<Rightarrow> img \<le> e)"

text \<open>\<open>control_reader\<close>: before the test of its loop, before the request, before the response; before the
  condition of \<open>cv.wait\<close> is tested, after it was found false, and blocked; before the last change of the
  state. \<open>forward_images\<close>: before the test of its loop, before the receive, before the two sends, before the
  count, before the store of the id, before the notification, before the last change of the state.\<close>

datatype replay_pc =
    ControlLoop replay_settings u64 bool
  | ControlSend replay_settings u64 bool
  | ControlReceive replay_settings u64
  | ControlWait replay_settings u64 u64
  | ControlTested replay_settings u64 u64
  | ControlBlocked replay_settings u64 u64
  | ControlEnd
  | Forward replay_settings u64
  | ForwardReceive replay_settings u64
  | ForwardSend replay_settings u64 ImageMetadata
  | ForwardCount replay_settings u64 u64
  | ForwardStore replay_settings u64 u64
  | ForwardNotify replay_settings u64
  | ForwardEnd
  | Done

text \<open>The handler of the requests, and the monitors of the sessions.\<close>

datatype replay_handler =
    ReplayHandlerIdle | ReplayStopTest | ReplayStopStore | ReplayStart string | ReplaySpawn replay_settings

datatype replay_monitor = ReplayMonitorWait | ReplayMonitorReport reader_state | ReplayMonitorReset

record replay_sys =
  rp_manager :: replay_manager
  rp_last_sent_id :: u64
  rp_requests :: "RequestNextImage list"
  rp_pushed :: "multipart list"
  rp_threads :: "replay_pc list"
  rp_handler :: replay_handler
  rp_monitors :: "replay_monitor list"

fun control_step :: "NextImageResponse option \<Rightarrow> replay_pc \<Rightarrow> replay_sys \<Rightarrow> replay_pc \<times> replay_sys" where
  "control_step ev (ControlLoop settings img new) s =
     (if up_to img (rps_end_image_id settings) \<and> is_replaying (rp_manager s)
      then (ControlSend settings img new, s) else (ControlEnd, s))"
| "control_step ev (ControlSend settings img new) s =
     (ControlReceive settings img, s\<lparr>rp_requests := rp_requests s @ [\<lparr>rni_image_id = img, rni_new_request = new\<rparr>]\<rparr>)"
| "control_step ev (ControlReceive settings img) s =
     (case ev of None \<Rightarrow> ControlLoop settings img False
      | Some (Ack i) \<Rightarrow> ControlWait settings (i + 1) i
      | Some NoImage \<Rightarrow> ControlEnd, s)"
| "control_step ev (ControlWait settings img wait_for_id) s =
     (if wait_for_id \<le> rp_last_sent_id s then ControlLoop settings img False
      else ControlTested settings img wait_for_id, s)"
| "control_step ev (ControlTested settings img wait_for_id) s = (ControlBlocked settings img wait_for_id, s)"
| "control_step ev ControlEnd s = (Done, s\<lparr>rp_manager := rm_change_state rs_finishing (rp_manager s)\<rparr>)"
| "control_step ev pc s = (pc, s)"

text \<open>\<open>notify_one\<close> wakes a blocked thread; the notifying thread does not hold the mutex.\<close>

fun wake_one :: "replay_pc list \<Rightarrow> replay_pc list" where
  "wake_one [] = []"
| "wake_one (ControlBlocked settings img w # ts) = ControlWait settings img w # ts"
| "wake_one (pc # ts) = pc # wake_one ts"

text \<open>The thread of \<open>forward_images\<close>. An exception of \<open>prepare_array10_header\<close> would end the process.\<close>

definition forward_receive ::
  "(byte list \<Rightarrow> ImageMetadata) \<Rightarrow> byte list option \<Rightarrow> replay_settings \<Rightarrow> u64 \<Rightarrow> replay_pc res" where
  "forward_receive parse msg settings n_images =
     bindE (received_meta msg) (\<lambda>m. Inr (case m of None \<Rightarrow> Forward settings n_images
       | Some buffer \<Rightarrow>
           let meta = parse buffer in
           if up_to (im_image_id meta) (rps_end_image_id settings) then ForwardSend settings n_images meta
           else ForwardNotify settings n_images))"

definition forward_send ::
  "Communicator \<Rightarrow> replay_settings \<Rightarrow> u64 \<Rightarrow> ImageMetadata \<Rightarrow> replay_sys \<Rightarrow> (replay_pc \<times> replay_sys) res" where
  "forward_send receiver settings n_images meta s =
     bindE (prepare_array10_header meta) (\<lambda>header.
     bindE (Communicator_get_data receiver (im_image_id meta)) (\<lambda>p.
     bindE (read_bytes (comm_buffer receiver) (unat p) (unat (im_size meta))) (\<lambda>d.
     Inr (ForwardCount settings (n_images + 1) (im_image_id meta),
          s\<lparr>rp_pushed := rp_pushed s @ [[text_bytes header, d]]\<rparr>))))"

fun forward_step ::
  "(byte list \<Rightarrow> ImageMetadata) \<Rightarrow> Communicator \<Rightarrow> byte list option \<Rightarrow> replay_pc \<Rightarrow> replay_sys \<Rightarrow> (replay_pc \<times> replay_sys) res" where
  "forward_step parse receiver msg (Forward settings n) s =
     Inr (if is_replaying (rp_manager s) then ForwardReceive settings n else ForwardEnd, s)"
| "forward_step parse receiver msg (ForwardReceive settings n) s =
     bindE (forward_receive parse msg settings n) (\<lambda>pc. Inr (pc, s))"
| "forward_step parse receiver msg (ForwardSend settings n meta) s = forward_send receiver settings n meta s"
| "forward_step parse receiver msg (ForwardCount settings n img) s =
     Inr (ForwardStore settings n img, s\<lparr>rp_manager := rm_update_image_count (ucast n) (rp_manager s)\<rparr>)"
| "forward_step parse receiver msg (ForwardStore settings n img) s =
     Inr (ForwardNotify settings n, s\<lparr>rp_last_sent_id := img\<rparr>)"
| "forward_step parse receiver msg (ForwardNotify settings n) s =
     Inr (Forward settings n, s\<lparr>rp_threads := wake_one (rp_threads s)\<rparr>)"
| "forward_step parse receiver msg ForwardEnd s =
     Inr (Done, s\<lparr>rp_manager := rm_change_state rs_finished (rp_manager s)\<rparr>)"
| "forward_step parse receiver msg pc s = Inr (pc, s)"

section \<open>Sessions\<close>

datatype replay_response = ReplayStatus string "string option" | ReplayStatusCount string u32

fun rb_stop_recording :: "replay_handler \<Rightarrow> replay_manager \<Rightarrow> replay_handler \<times> replay_manager" where
  "rb_stop_recording ReplayStopTest rm = (if is_replaying rm then ReplayStopStore else ReplayHandlerIdle, rm)"
| "rb_stop_recording ReplayStopStore rm = (ReplayHandlerIdle, rm_change_state rs_stop rm)"
| "rb_stop_recording pc rm = (pc, rm)"

text \<open>\<open>replayer::start\<close> changes the state and then creates the two threads.\<close>

definition replayer_start :: "replay_settings \<Rightarrow> replay_sys \<Rightarrow> replay_sys" where
  "replayer_start settings s =
     s\<lparr>rp_manager := rm_change_state rs_replaying (rp_manager s), rp_handler := ReplaySpawn settings\<rparr>"

definition replayer_spawn :: "replay_settings \<Rightarrow> replay_sys \<Rightarrow> replay_sys" where
  "replayer_spawn settings s =
     s\<lparr>rp_threads := rp_threads s @ [ControlLoop settings (rps_start_image_id settings) True, Forward settings 0],
       rp_handler := ReplayHandlerIdle\<rparr>"

definition rb_start_recording ::
  "'j json_api \<Rightarrow> (string \<Rightarrow> 'j res) \<Rightarrow> string \<Rightarrow> replay_sys \<Rightarrow> (replay_response option \<times> replay_sys) res" where
  "rb_start_recording api parse msg s =
     bindE (case rb_parse_command parse msg of None \<Rightarrow> Inr None | Some c \<Rightarrow> rb_process_start_request api c) (\<lambda>settings.
     case settings of
       Some r \<Rightarrow> Inr (None, replayer_start r s)
     | None \<Rightarrow> Inr (Some (ReplayStatus ''error''
         (Some (''Invalid command! expected: start with path parameter, received: '' @ msg))),
         s\<lparr>rp_handler := ReplayHandlerIdle\<rparr>))"

definition rb_process_request ::
  "'j json_api \<Rightarrow> (string \<Rightarrow> 'j res) \<Rightarrow> string \<Rightarrow> replay_manager \<Rightarrow> (replay_response option \<times> replay_handler) res" where
  "rb_process_request api parse msg rm =
     (case rb_parse_command parse msg of
        None \<Rightarrow> Inr (Some (ReplayStatus ''error'' (Some (''Invalid command! '' @ msg))), ReplayHandlerIdle)
      | Some command \<Rightarrow>
          bindE (jc_value_string api command ''command'' []) (\<lambda>command_string.
          if command_string = ''stop'' then Inr (None, ReplayStopTest)
          else if rm_state rm = rs_idle then Inr (None, ReplayStart msg)
          else Inr (Some (ReplayStatus ''rejected'' (Some ''driver is busy!'')), ReplayHandlerIdle)))"

text \<open>The thread that reports the state to the client.\<close>

fun rb_monitor_state ::
  "replay_monitor \<Rightarrow> replay_manager \<Rightarrow> replay_response option \<times> replay_monitor \<times> replay_manager" where
  "rb_monitor_state ReplayMonitorWait rm = (None, ReplayMonitorReport (rm_state rm), rm)"
| "rb_monitor_state (ReplayMonitorReport state) rm =
     (if state = rs_error \<or> state = rs_finished
      then (Some (ReplayStatus (reader_state_to_string state) None), ReplayMonitorReset, rm)
      else if state = rs_replaying \<or> state = rs_finishing
      then (Some (ReplayStatusCount (reader_state_to_string state) (rm_images_processed rm)), ReplayMonitorWait, rm)
      else (Some (ReplayStatus (reader_state_to_string state) None), ReplayMonitorWait, rm))"
| "rb_monitor_state ReplayMonitorReset rm = (None, ReplayMonitorWait, rm_change_state rs_idle rm)"

text \<open>The steps of the process: a recording or forwarding thread, a request and what follows it, a monitor.\<close>

inductive replay_sys_step ::
  "'j json_api \<Rightarrow> (string \<Rightarrow> 'j res) \<Rightarrow> (byte list \<Rightarrow> ImageMetadata) \<Rightarrow> replay_sys \<Rightarrow> replay_sys \<Rightarrow> bool"
  for api jparse parse where
  control: "k < length (rp_threads s) \<Longrightarrow> control_step ev (rp_threads s ! k) s = (pc, s') \<Longrightarrow>
    replay_sys_step api jparse parse s (s'\<lparr>rp_threads := (rp_threads s')[k := pc]\<rparr>)"
| forward: "k < length (rp_threads s) \<Longrightarrow> forward_step parse receiver msg (rp_threads s ! k) s = Inr (pc, s') \<Longrightarrow>
    replay_sys_step api jparse parse s (s'\<lparr>rp_threads := (rp_threads s')[k := pc]\<rparr>)"
| request: "rp_handler s = ReplayHandlerIdle \<Longrightarrow> rb_process_request api jparse msg (rp_manager s) = Inr (resp, pc) \<Longrightarrow>
    replay_sys_step api jparse parse s (s\<lparr>rp_handler := pc\<rparr>)"
| stop: "rb_stop_recording (rp_handler s) (rp_manager s) = (pc, rm) \<Longrightarrow>
    replay_sys_step api jparse parse s (s\<lparr>rp_manager := rm, rp_handler := pc\<rparr>)"
| start: "rp_handler s = ReplayStart msg \<Longrightarrow> rb_start_recording api jparse msg s = Inr (resp, s') \<Longrightarrow>
    replay_sys_step api jparse parse s s'"
| spawn: "rp_handler s = ReplaySpawn settings \<Longrightarrow> replay_sys_step api jparse parse s (replayer_spawn settings s)"
| monitor: "k < length (rp_monitors s) \<Longrightarrow> rb_monitor_state (rp_monitors s ! k) (rp_manager s) = (resp, m, rm) \<Longrightarrow>
    replay_sys_step api jparse parse s (s\<lparr>rp_manager := rm, rp_monitors := (rp_monitors s)[k := m]\<rparr>)"
| connect: "replay_sys_step api jparse parse s
    (s\<lparr>rp_manager := rm_add_active_session (rp_manager s), rp_monitors := rp_monitors s @ [ReplayMonitorWait]\<rparr>)"
| disconnect: "k < length (rp_monitors s) \<Longrightarrow> rp_monitors s ! k = ReplayMonitorWait \<Longrightarrow>
    replay_sys_step api jparse parse s (s\<lparr>rp_manager := rm_remove_active_session (rp_manager s),
      rp_monitors := take k (rp_monitors s) @ drop (Suc k) (rp_monitors s)\<rparr>)"

inductive_simps replay_sys_step_iff: "replay_sys_step api jparse parse s s'"

text \<open>The steps that do not start another replay.\<close>

definition keeps_replay ::
  "'j json_api \<Rightarrow> (string \<Rightarrow> 'j res) \<Rightarrow> (byte list \<Rightarrow> ImageMetadata) \<Rightarrow> replay_sys \<Rightarrow> replay_sys \<Rightarrow> bool" where
  "keeps_replay api jparse parse s t \<longleftrightarrow>
     replay_sys_step api jparse parse s t \<and> (\<forall>settings. rp_handler s \<noteq> ReplaySpawn settings)"

lemma wake_one_id: "\<forall>pc \<in> set ts. \<forall>settings img w. pc \<noteq> ControlBlocked settings img w \<Longrightarrow> wake_one ts = ts"
  by (induction ts rule: wake_one.induct) auto

lemma control_step_rest:
  "control_step ev pc s = (pc', s') \<Longrightarrow> rp_threads s' = rp_threads s \<and> rp_last_sent_id s' = rp_last_sent_id s \<and>
     rp_pushed s' = rp_pushed s \<and> rp_handler s' = rp_handler s"
  by (cases pc) (auto split: if_splits)

section \<open>A replay without an end\<close>

fun without_end :: "replay_pc \<Rightarrow> bool" where
  "without_end (ControlLoop settings _ _) \<longleftrightarrow> rps_end_image_id settings = None"
| "without_end (Forward settings _) \<longleftrightarrow> rps_end_image_id settings = None"
| "without_end (ForwardReceive settings _) \<longleftrightarrow> rps_end_image_id settings = None"
| "without_end (ForwardNotify settings _) \<longleftrightarrow> rps_end_image_id settings = None"
| "without_end ControlEnd \<longleftrightarrow> True"
| "without_end ForwardEnd \<longleftrightarrow> True"
| "without_end Done \<longleftrightarrow> True"
| "without_end _ \<longleftrightarrow> False"

definition silent :: "RequestNextImage list \<Rightarrow> multipart list \<Rightarrow> replay_sys \<Rightarrow> bool" where
  "silent requests pushed s \<longleftrightarrow> (\<forall>pc \<in> set (rp_threads s). without_end pc) \<and> rp_requests s = requests \<and> rp_pushed s = pushed"

lemma silent_wake: "\<forall>pc \<in> set ts. without_end pc \<Longrightarrow> wake_one ts = ts"
  by (intro wake_one_id) (metis without_end.simps)

lemma silent_control:
  assumes "without_end pc" and "control_step ev pc s = (pc', s')"
  shows "without_end pc' \<and> rp_requests s' = rp_requests s \<and> rp_pushed s' = rp_pushed s \<and> rp_threads s' = rp_threads s"
  using assms by (cases pc) (auto simp: up_to_def)

lemma silent_forward:
  assumes "\<forall>pc \<in> set (rp_threads s). without_end pc" and "without_end pc"
    and "forward_step parse receiver msg pc s = Inr (pc', s')"
  shows "without_end pc' \<and> rp_requests s' = rp_requests s \<and> rp_pushed s' = rp_pushed s \<and> rp_threads s' = rp_threads s"
  using assms silent_wake [OF assms(1)]
  by (cases pc) (auto simp: forward_receive_def up_to_def bindE_eq_Inr Let_def split: option.splits)

lemma silent_step:
  assumes "silent requests pushed s" and "keeps_replay api jparse parse s t"
  shows "silent requests pushed t"
proof -
  have all: "\<forall>pc \<in> set (rp_threads s). without_end pc" using assms(1) by (simp add: silent_def)
  have "replay_sys_step api jparse parse s t" using assms(2) by (simp add: keeps_replay_def)
  then show ?thesis
  proof cases
    case (control k ev pc s')
    then have "without_end (rp_threads s ! k)" using all by simp
    from silent_control [OF this control(3)] show ?thesis
      using assms(1) control(1) by (auto simp: silent_def dest!: subsetD [OF set_update_subset_insert])
  next
    case (forward k receiver msg pc s')
    then have "without_end (rp_threads s ! k)" using all by simp
    from silent_forward [OF all this forward(3)] show ?thesis
      using assms(1) forward(1) by (auto simp: silent_def dest!: subsetD [OF set_update_subset_insert])
  next
    case (start msg resp)
    then show ?thesis
      using assms(1) by (auto simp: silent_def rb_start_recording_def replayer_start_def bindE_eq_Inr split: option.splits)
  next
    case (spawn settings)
    then show ?thesis using assms(2) by (simp add: keeps_replay_def)
  qed (use assms(1) in \<open>auto simp: silent_def\<close>)
qed

interpretation silent: transition_system "silent requests pushed" "keeps_replay api jparse parse" "silent requests pushed"
  for requests pushed api jparse parse
  by unfold_locales (auto intro: silent_step)

text \<open>The end of a replay is optional in the command, but a replay without an end asks for no image and
  forwards none until another replay is started: an id is never less than or equal to an empty \<open>optional\<close>.\<close>

theorem replay_without_end_is_empty:
  assumes "rps_end_image_id settings = None" and "rp_threads s = []"
    and "(keeps_replay api jparse parse)\<^sup>*\<^sup>* (replayer_spawn settings (replayer_start settings s)) t"
  shows "rp_requests t = rp_requests s \<and> rp_pushed t = rp_pushed s"
proof -
  have "silent (rp_requests s) (rp_pushed s) (replayer_spawn settings (replayer_start settings s))"
    using assms(1,2) by (simp add: silent_def replayer_start_def replayer_spawn_def)
  from silent.inv_reachable [OF this assms(3)] show ?thesis by (simp add: silent_def)
qed

section \<open>A gap at the end of a replay\<close>

text \<open>The control thread waits for image \<open>w\<close>; what the forwarding thread is about to store is less.\<close>

fun forwards_below :: "replay_settings \<Rightarrow> u64 \<Rightarrow> replay_pc \<Rightarrow> bool" where
  "forwards_below settings w (Forward st n) \<longleftrightarrow> st = settings"
| "forwards_below settings w (ForwardReceive st n) \<longleftrightarrow> st = settings"
| "forwards_below settings w (ForwardSend st n meta) \<longleftrightarrow> st = settings \<and> im_image_id meta < w"
| "forwards_below settings w (ForwardCount st n img) \<longleftrightarrow> st = settings \<and> img < w"
| "forwards_below settings w (ForwardStore st n img) \<longleftrightarrow> st = settings \<and> img < w"
| "forwards_below settings w (ForwardNotify st n) \<longleftrightarrow> st = settings"
| "forwards_below settings w ForwardEnd \<longleftrightarrow> True"
| "forwards_below settings w Done \<longleftrightarrow> True"
| "forwards_below settings w _ \<longleftrightarrow> False"

definition control_waits :: "replay_settings \<Rightarrow> u64 \<Rightarrow> u64 \<Rightarrow> replay_pc \<Rightarrow> bool" where
  "control_waits settings img w c \<longleftrightarrow>
     c \<in> {ControlWait settings img w, ControlTested settings img w, ControlBlocked settings img w}"

definition waits_for :: "replay_settings \<Rightarrow> u64 \<Rightarrow> u64 \<Rightarrow> replay_sys \<Rightarrow> bool" where
  "waits_for settings img w s \<longleftrightarrow> rp_last_sent_id s < w \<and> rm_state (rp_manager s) \<noteq> rs_finishing \<and>
     (\<exists>c f. rp_threads s = [c, f] \<and> control_waits settings img w c \<and> forwards_below settings w f)"

lemma wake_control:
  assumes "control_waits settings img w c" and "forwards_below settings w f"
  shows "\<exists>c'. wake_one [c, f] = [c', f] \<and> control_waits settings img w c'"
  using assms by (cases f) (auto simp: control_waits_def)

lemma waits_for_forward:
  assumes past: "\<not> up_to w (rps_end_image_id settings)" and waits: "waits_for settings img w s"
    and f: "forwards_below settings w f" and step: "forward_step parse receiver msg f s = Inr (pc, s')"
  shows "rp_last_sent_id s' < w \<and> rm_state (rp_manager s') \<noteq> rs_finishing \<and> forwards_below settings w pc \<and>
    (rp_threads s' = rp_threads s \<or> rp_threads s' = wake_one (rp_threads s))"
proof -
  have "i < w" if "up_to i (rps_end_image_id settings)" for i
    using that past by (auto simp: up_to_def split: option.splits)
  then show ?thesis using waits f step
    by (cases f) (auto simp: waits_for_def forward_receive_def forward_send_def bindE_eq_Inr Let_def
      rm_change_state_def rm_update_image_count_def split: option.splits)
qed

lemma waits_for_step:
  assumes past: "\<not> up_to w (rps_end_image_id settings)" and waits: "waits_for settings img w s"
    and step: "keeps_replay api jparse parse s t"
  shows "waits_for settings img w t"
proof -
  obtain c f where th: "rp_threads s = [c, f]" "control_waits settings img w c" "forwards_below settings w f"
    and st: "rp_last_sent_id s < w" "rm_state (rp_manager s) \<noteq> rs_finishing"
    using waits by (auto simp: waits_for_def)
  have "replay_sys_step api jparse parse s t" using step by (simp add: keeps_replay_def)
  then show ?thesis
  proof cases
    case (control k ev pc s')
    show ?thesis
    proof (cases "k = 0")
      case True
      then have "s' = s" "control_waits settings img w pc"
        using control(3) th(1,2) st(1) by (auto simp: control_waits_def split: if_splits)
      then show ?thesis using control(1) True th st by (auto simp: waits_for_def)
    next
      case False
      then have "k = 1" using control(2) th(1) by simp
      moreover have "s' = s \<and> pc = f" using control(3) th \<open>k = 1\<close> by (cases f) auto
      ultimately show ?thesis using control(1) th st by (auto simp: waits_for_def)
    qed
  next
    case (forward k receiver msg pc s')
    show ?thesis
    proof (cases "k = 0")
      case True
      then have "s' = s \<and> pc = c" using forward(3) th by (auto simp: control_waits_def)
      then show ?thesis using forward(1) True th st by (auto simp: waits_for_def)
    next
      case False
      then have "k = 1" using forward(2) th(1) by simp
      then have "forward_step parse receiver msg f s = Inr (pc, s')" using forward(3) th(1) by simp
      from waits_for_forward [OF past waits th(3) this] wake_control [OF th(2,3)] show ?thesis
        using forward(1) \<open>k = 1\<close> th by (auto simp: waits_for_def)
    qed
  next
    case (stop pc rm)
    then have "rm_state rm \<noteq> rs_finishing"
      using st(2) by (cases "rp_handler s") (auto simp: rm_change_state_def split: if_splits)
    then show ?thesis using stop(1) th st by (auto simp: waits_for_def)
  next
    case (start msg resp)
    then show ?thesis
      using th st by (auto simp: waits_for_def rb_start_recording_def replayer_start_def rm_change_state_def bindE_eq_Inr
        split: option.splits)
  next
    case (spawn st)
    then show ?thesis using step by (simp add: keeps_replay_def)
  next
    case (monitor k resp m rm)
    then have "rm_state rm \<noteq> rs_finishing"
      using st(2) by (cases "rp_monitors s ! k") (auto simp: rm_change_state_def split: if_splits)
    then show ?thesis using monitor(1) th st by (auto simp: waits_for_def)
  qed (use th st in \<open>auto simp: waits_for_def rm_add_active_session_def rm_remove_active_session_def\<close>)
qed

text \<open>When the reader acknowledges an image behind the end of the replay, because the images up to the end are
  missing, the control thread waits for an image that the other thread does not forward.
  It waits in every state that is reachable until another replay is started, also after a stop, and the replay does
  not end by itself.\<close>

theorem replay_gap_blocks:
  assumes "rp_threads s = [ControlReceive settings img, f]" and "rps_end_image_id settings = Some e" and "e < w"
    and "forwards_below settings w f" and "rp_last_sent_id s < w" and "rm_state (rp_manager s) = rs_replaying"
    and "control_step (Some (Ack w)) (ControlReceive settings img) s = (pc, s')"
    and "(keeps_replay api jparse parse)\<^sup>*\<^sup>* (s'\<lparr>rp_threads := (rp_threads s')[0 := pc]\<rparr>) t"
  shows "control_waits settings (w + 1) w (hd (rp_threads t)) \<and> rp_last_sent_id t < w \<and>
    rm_state (rp_manager t) \<noteq> rs_finishing"
proof -
  have past: "\<not> up_to w (rps_end_image_id settings)" using assms(2,3) by (simp add: up_to_def)
  have "waits_for settings (w + 1) w (s'\<lparr>rp_threads := (rp_threads s')[0 := pc]\<rparr>)"
    using assms(1,4-7) by (auto simp: waits_for_def control_waits_def)
  with assms(8) have "waits_for settings (w + 1) w t"
    by (induction rule: rtranclp_induct) (auto intro: waits_for_step [OF past])
  then show ?thesis by (auto simp: waits_for_def)
qed

lemma control_to:
  "k < length (rp_threads s) \<Longrightarrow> control_step None (rp_threads s ! k) s = (pc, s') \<Longrightarrow>
    t = s'\<lparr>rp_threads := (rp_threads s')[k := pc]\<rparr> \<Longrightarrow> replay_sys_step api jparse parse s t"
  using replay_sys_step.control by blast

lemma forward_to:
  "k < length (rp_threads s) \<Longrightarrow> forward_step parse undefined None (rp_threads s ! k) s = Inr (pc, s') \<Longrightarrow>
    t = s'\<lparr>rp_threads := (rp_threads s')[k := pc]\<rparr> \<Longrightarrow> replay_sys_step api jparse parse s t"
  using replay_sys_step.forward by blast

text \<open>A notification that comes between the test of the condition and the blocking is lost, because it is made
  without the mutex: the control thread is blocked although its image was sent.\<close>

lemma replay_lost_notification:
  assumes "rp_threads s = [ControlWait settings img w, ForwardStore settings n w]" and "rp_last_sent_id s < w"
  shows "\<exists>t. (replay_sys_step api jparse parse)\<^sup>*\<^sup>* s t \<and> rp_last_sent_id t = w \<and>
    rp_threads t = [ControlBlocked settings img w, Forward settings n]"
proof -
  let ?step = "replay_sys_step api jparse parse"
  define s1 where "s1 = s\<lparr>rp_threads := [ControlTested settings img w, ForwardStore settings n w]\<rparr>"
  define s2 where "s2 = s1\<lparr>rp_last_sent_id := w, rp_threads := [ControlTested settings img w, ForwardNotify settings n]\<rparr>"
  define s3 where "s3 = s2\<lparr>rp_threads := [ControlTested settings img w, Forward settings n]\<rparr>"
  define s4 where "s4 = s3\<lparr>rp_threads := [ControlBlocked settings img w, Forward settings n]\<rparr>"
  have "?step s s1"
    using assms by (intro control_to [of 0]) (simp add: s1_def not_le)+
  moreover have "?step s1 s2"
    by (intro forward_to [of 1]) (simp add: s2_def s1_def)+
  moreover have "?step s2 s3"
    by (intro forward_to [of 1]) (simp add: s3_def s2_def)+
  moreover have "?step s3 s4"
    by (intro control_to [of 0]) (simp add: s4_def s3_def)+
  ultimately have "?step\<^sup>*\<^sup>* s s4" by (meson converse_rtranclp_into_rtranclp r_into_rtranclp)
  then show ?thesis by (intro exI [of _ s4]) (simp add: s4_def s3_def s2_def)
qed

text \<open>A stop can leave the driver in the state \<open>finishing\<close> for good: the forwarding thread ends first, and
  the control thread then overwrites the state.\<close>

lemma replay_stop_race:
  assumes "rp_threads s = [ControlEnd, ForwardEnd]"
  shows "\<exists>t. (replay_sys_step api jparse parse)\<^sup>*\<^sup>* s t \<and> rp_threads t = [Done, Done] \<and> rm_state (rp_manager t) = rs_finishing"
proof -
  let ?step = "replay_sys_step api jparse parse"
  define s1 where "s1 = s\<lparr>rp_manager := rm_change_state rs_finished (rp_manager s), rp_threads := [ControlEnd, Done]\<rparr>"
  define s2 where "s2 = s1\<lparr>rp_manager := rm_change_state rs_finishing (rp_manager s1), rp_threads := [Done, Done]\<rparr>"
  have "?step s s1" using assms by (intro forward_to [of 1]) (simp add: s1_def)+
  moreover have "?step s1 s2" by (intro control_to [of 0]) (simp add: s2_def s1_def)+
  ultimately have "?step\<^sup>*\<^sup>* s s2" by (meson converse_rtranclp_into_rtranclp r_into_rtranclp)
  then show ?thesis by (intro exI [of _ s2]) (simp add: s2_def rm_change_state_def)
qed

end
