(* ===== verification/GfGeometry.thy ===== *)
theory GfGeometry
  imports Formats
begin

text \<open>
  The geometry of a GigaFRoST module (\<open>detectors/gigafrost.hpp\<close>): how many pixels, bytes, rows
  per packet and packets per frame a module has. The arithmetic is the 32-bit unsigned
  arithmetic of the header. The \<open>double\<close> computations (\<open>* 1.5\<close>, \<open>std::ceil\<close> of a quotient) are
  exact on operands below \<open>2 ^ 32\<close> and are written as integer divisions.
\<close>

datatype quadrant_id = SW | SE | NW | NE

definition module_n_x_pixels :: "int \<Rightarrow> u32" where
  "module_n_x_pixels image_width = word_of_int (int_quot image_width 2)"

definition module_n_y_pixels :: "int \<Rightarrow> u32" where
  "module_n_y_pixels image_height = word_of_int (int_quot (int_quot image_height 2) 2)"

definition module_n_data_bytes :: "int \<Rightarrow> int \<Rightarrow> u64" where
  "module_n_data_bytes height width =
     ucast (module_n_x_pixels width * module_n_y_pixels height * 3 div 2)"

definition n_rows_per_packet :: "int \<Rightarrow> int \<Rightarrow> u32 res" where
  "n_rows_per_packet height width =
     (let module_width = module_n_x_pixels width; module_height = module_n_y_pixels height;
          n_12pixel_blocks = module_width div 12
      in if 36 * n_12pixel_blocks = 0 \<or> module_width = 0 then Inl (Undefined ''division by zero'')
         else let n_cache_line_blocks =
                    word_of_nat gf_PACKET_N_DATA_BYTES_MAX div (36 * n_12pixel_blocks) *
                    n_12pixel_blocks div 2
              in Inr (min (n_cache_line_blocks * 48 div module_width) module_height))"

definition n_data_bytes_per_packet :: "int \<Rightarrow> int \<Rightarrow> u64 res" where
  "n_data_bytes_per_packet height width =
     bindE (n_rows_per_packet height width) (\<lambda>rows.
     let w = module_n_x_pixels width; bytes = (ucast (w * rows) :: u64) * 3 div 2
     in Inr (if rows mod 2 = 1 \<and> w mod 48 \<noteq> 0 then bytes + 36 else bytes))"

definition n_packets_per_frame :: "int \<Rightarrow> int \<Rightarrow> u64 res" where
  "n_packets_per_frame height width =
     bindE (n_rows_per_packet height width) (\<lambda>rows.
     if rows = 0 then Inl (Undefined ''conversion of infinity'')
     else Inr (word_of_nat ((unat (module_n_y_pixels height) + unat rows - 1) div unat rows)))"

definition last_packet_n_bytes :: "int \<Rightarrow> int \<Rightarrow> u64 res" where
  "last_packet_n_bytes height width =
     bindE (n_rows_per_packet height width) (\<lambda>rows.
     if rows = 0 then Inl (Undefined ''division by zero'')
     else let r = module_n_y_pixels height mod rows; last_rows = (if r = 0 then rows else r)
          in Inr (ucast (last_rows * module_n_x_pixels width * 3 div 2)))"

section \<open>Properties\<close>

lemma n_rows_per_packet_le:
  "n_rows_per_packet h w = Inr r \<Longrightarrow> r \<le> module_n_y_pixels h"
  by (auto simp: n_rows_per_packet_def Let_def split: if_splits)

text \<open>The full GigaFRoST frame and the geometry of the converter's unit tests.\<close>

lemma gf_full_frame:
  "module_n_x_pixels 2016 = 1008" "module_n_y_pixels 2016 = 504"
  "n_rows_per_packet 2016 2016 = Inr 4" "n_data_bytes_per_packet 2016 2016 = Inr 6048"
  "n_packets_per_frame 2016 2016 = Inr 126" "last_packet_n_bytes 2016 2016 = Inr 6048"
  "module_n_data_bytes 2016 2016 = 762048"
  by (simp_all add: module_n_x_pixels_def module_n_y_pixels_def n_rows_per_packet_def
      n_data_bytes_per_packet_def n_packets_per_frame_def last_packet_n_bytes_def
      module_n_data_bytes_def gf_PACKET_N_DATA_BYTES_MAX_def)

end
