(* ===== verification/Converters.thy ===== *)
theory Converters
  imports GfGeometry RamBuffer ImageSize
begin

text \<open>
  \<open>std-data-convert\<close>: every converter process takes the frames of one module from the RAM buffer
  of its receiver and writes the pixels to their places in the image slot of the shared image
  buffer. GigaFRoST pixels are unpacked from 12 to 16 bits, Eiger rows are copied chip by chip
  with a gap, Jungfrau rows are copied as they are or corrected with gains and pedestals.
  Writing outside the output span or reading outside the input span is undefined.
\<close>

section \<open>Blocks written into a buffer\<close>

text \<open>A converter is a sequence of blocks written into the output; this is what such a sequence
  does when the blocks are inside the buffer and do not overlap.\<close>

definition blocks_apart :: "nat \<times> 'a list \<Rightarrow> nat \<times> 'a list \<Rightarrow> bool" where
  "blocks_apart a b \<longleftrightarrow> fst a + length (snd a) \<le> fst b \<or> fst b + length (snd b) \<le> fst a"

definition write_blocks :: "(nat \<times> 'a list) list \<Rightarrow> 'a list \<Rightarrow> 'a list res" where
  "write_blocks bs out = forE (\<lambda>b out. memcpy out (fst b) (snd b)) bs out"

lemma write_blocks_ok:
  assumes "\<forall>b \<in> set bs. fst b + length (snd b) \<le> length out" and "sorted_wrt blocks_apart bs"
  shows "\<exists>out'. write_blocks bs out = Inr out' \<and> length out' = length out \<and>
    (\<forall>b \<in> set bs. segment (fst b) (length (snd b)) out' = snd b) \<and>
    (\<forall>j < length out. (\<forall>b \<in> set bs. j < fst b \<or> fst b + length (snd b) \<le> j) \<longrightarrow> out' ! j = out ! j)"
  using assms
proof (induction bs arbitrary: out)
  case Nil
  then show ?case by (simp add: write_blocks_def)
next
  case (Cons b bs)
  define out1 where "out1 = overwrite (fst b) (snd b) out"
  have b: "fst b + length (snd b) \<le> length out" and out1: "length out1 = length out"
    using Cons.prems(1) by (simp_all add: out1_def)
  obtain out' where out': "write_blocks bs out1 = Inr out'" "length out' = length out1"
    "\<forall>c \<in> set bs. segment (fst c) (length (snd c)) out' = snd c"
    "\<forall>j < length out1. (\<forall>c \<in> set bs. j < fst c \<or> fst c + length (snd c) \<le> j) \<longrightarrow> out' ! j = out1 ! j"
    using Cons.IH [of out1] Cons.prems out1 by auto
  have keep: "out' ! j = out1 ! j" if "fst b \<le> j" "j < fst b + length (snd b)" for j
  proof -
    have "j < fst c \<or> fst c + length (snd c) \<le> j" if "c \<in> set bs" for c
    proof -
      have "blocks_apart b c" using Cons.prems(2) that by simp
      then show ?thesis
        using \<open>fst b \<le> j\<close> \<open>j < fst b + length (snd b)\<close> unfolding blocks_apart_def by linarith
    qed
    then show ?thesis using out'(4) that b out1 by simp
  qed
  have "segment (fst b) (length (snd b)) out' = segment (fst b) (length (snd b)) out1"
    using b out1 out'(2) by (intro nth_equalityI) (simp_all add: nth_segment keep)
  then have "segment (fst b) (length (snd b)) out' = snd b"
    using b by (simp add: out1_def segment_overwrite_same)
  moreover have "write_blocks (b # bs) out = Inr out'"
    using b out'(1) by (simp add: write_blocks_def out1_def)
  ultimately show ?case
    using out' out1 b by (auto simp: out1_def nth_overwrite)
qed

section \<open>GigaFRoST\<close>

record gf_Converter =
  gfc_height :: u64
  gfc_width :: u64
  gfc_start_index :: u64
  gfc_row_jump :: int

definition gf_calculate_start_index :: "int \<Rightarrow> quadrant_id \<Rightarrow> u64 \<Rightarrow> u64 \<Rightarrow> u64" where
  "gf_calculate_start_index mid quadrant h w =
     (let odd_row = (if mid mod 2 \<noteq> 0 then w else 0)
      in if quadrant = SW then h div 2 * w + odd_row
         else if quadrant = SE then h div 2 * w + w div 2 + odd_row
         else if quadrant = NW then (h - 1) div 2 * w - odd_row
         else (h - 1) div 2 * w + w div 2 - odd_row)"

definition gf_calculate_row_jump :: "quadrant_id \<Rightarrow> u64 \<Rightarrow> int res" where
  "gf_calculate_row_jump quadrant w =
     bindE (int_mul 2 (sint (ucast w :: u32))) (\<lambda>j.
     int_mul j (if quadrant = NW \<or> quadrant = NE then - 1 else 1))"

definition gf_Converter_ctor :: "u64 \<Rightarrow> u64 \<Rightarrow> quadrant_id \<Rightarrow> int \<Rightarrow> gf_Converter res" where
  "gf_Converter_ctor h w q mid =
     bindE (gf_calculate_row_jump q w) (\<lambda>jump.
     Inr \<lparr>gfc_height = h, gfc_width = w, gfc_start_index = gf_calculate_start_index mid q h w,
          gfc_row_jump = jump\<rparr>)"

text \<open>\<open>conversion_handle\<close>: three bytes, two pixels of twelve bits.\<close>

record conversion_handle =
  p11 :: u8
  p21 :: u8
  p12 :: u8
  p22 :: u8

definition handle_of :: "byte list \<Rightarrow> nat \<Rightarrow> conversion_handle res" where
  "handle_of input i =
     (if 3 * i + 3 \<le> length input
      then Inr \<lparr>p11 = input ! (3 * i), p21 = input ! (3 * i + 1) AND 15,
                p12 = drop_bit 4 (input ! (3 * i + 1)), p22 = input ! (3 * i + 2)\<rparr>
      else Inl (Undefined ''read out of range''))"

definition low_pixel :: "conversion_handle \<Rightarrow> u16" where
  "low_pixel c = ucast (p11 c) OR push_bit 8 (ucast (p21 c))"

definition high_pixel :: "conversion_handle \<Rightarrow> u16" where
  "high_pixel c = ucast (p12 c) OR push_bit 4 (ucast (p22 c))"

definition put_pixel :: "int \<Rightarrow> u16 \<Rightarrow> u16 list \<Rightarrow> u16 list res" where
  "put_pixel j v output =
     (if 0 \<le> j \<and> j < int (length output) then Inr (output[nat j := v])
      else Inl (Undefined ''write out of range''))"

text \<open>The inner loop: \<open>n\<close> handles from \<open>i\<close> on, written from \<open>j\<close> on.\<close>

fun gf_convert_row :: "byte list \<Rightarrow> nat \<Rightarrow> int \<Rightarrow> nat \<Rightarrow> u16 list \<Rightarrow> u16 list res" where
  "gf_convert_row input i j 0 output = Inr output"
| "gf_convert_row input i j (Suc n) output =
     bindE (handle_of input i) (\<lambda>c.
     bindE (put_pixel j (low_pixel c) output) (\<lambda>output1.
     bindE (put_pixel (j + 1) (high_pixel c) output1) (\<lambda>output2.
     gf_convert_row input (i + 1) (j + 2) n output2)))"

text \<open>\<open>start_row\<close> and \<open>end_row\<close> are computed in 64-bit unsigned arithmetic and converted to
  \<open>long\<close>; the loop runs from the one to the other in steps of two.\<close>

definition gf_start_row :: "gf_Converter \<Rightarrow> nat \<Rightarrow> int res" where
  "gf_start_row cv row =
     bindE (int_mul (gfc_row_jump cv) (int row)) (\<lambda>d.
     Inr (sint (word_of_int d + gfc_start_index cv :: u64)))"

definition gf_handles_per_row :: "gf_Converter \<Rightarrow> int \<Rightarrow> nat" where
  "gf_handles_per_row cv start_row =
     (let end_row = sint (word_of_int start_row + gfc_width cv div 2 :: u64)
      in nat ((end_row - start_row + 1) div 2))"

definition gf_convert :: "gf_Converter \<Rightarrow> byte list \<Rightarrow> u16 list \<Rightarrow> u16 list res" where
  "gf_convert cv input output =
     bindE (forE (\<lambda>row (i, out).
              bindE (gf_start_row cv row) (\<lambda>start_row.
              let n = gf_handles_per_row cv start_row
              in bindE (gf_convert_row input i start_row n out) (\<lambda>out'. Inr (i + n, out'))))
            [0..<unat (gfc_height cv div 4)] (0, output)) (\<lambda>(i, out). Inr out)"

definition calculate_data_sizes :: "DetectorConfig \<Rightarrow> (u64 \<times> u64) res" where
  "calculate_data_sizes config =
     (let h = image_pixel_height config; w = image_pixel_width config
      in bindE (n_data_bytes_per_packet h w) (\<lambda>b.
         bindE (n_packets_per_frame h w) (\<lambda>n.
         bindE (last_packet_n_bytes h w) (\<lambda>l.
         bindE (converted_image_n_bytes config) (\<lambda>c.
         Inr (b * (n - 1) + l, c))))))"

definition gf_quadrant_of :: "u16 \<Rightarrow> quadrant_id" where
  "gf_quadrant_of mid =
     (let q = (mid mod 8) div 2 in if q = 0 then SW else if q = 1 then SE else if q = 2 then NW else NE)"

text \<open>What the process of one module does with a frame.\<close>

definition gf_convert_frame :: "u64 \<Rightarrow> u64 \<Rightarrow> u16 \<Rightarrow> byte list \<Rightarrow> u16 list \<Rightarrow> u16 list res" where
  "gf_convert_frame h w mid input output =
     bindE (gf_Converter_ctor h w (gf_quadrant_of mid) (int (unat mid))) (\<lambda>cv. gf_convert cv input output)"

section \<open>Eiger\<close>

record eg_Converter =
  egc_input_row_size_per_chip :: u64
  egc_gap_size :: u64
  egc_row_jump :: int
  egc_start_index :: int

definition eg_calculate_row_jump :: "u64 \<Rightarrow> u64 \<Rightarrow> u64" where
  "eg_calculate_row_jump w depth = w * depth div 8"

definition eg_calculate_row_jump_direction :: "DetectorConfig \<Rightarrow> int \<Rightarrow> int res" where
  "eg_calculate_row_jump_direction config mid =
     bindE (get_module_start_position config (word_of_int mid)) (\<lambda>start_position.
     bindE (get_module_end_position config (word_of_int mid)) (\<lambda>end_position.
     Inr (if pt_y end_position < pt_y start_position then - 1 else 1)))"

definition eg_calculate_start_index :: "DetectorConfig \<Rightarrow> int \<Rightarrow> int res" where
  "eg_calculate_start_index config mid =
     bindE (get_module_start_position config (word_of_int mid)) (\<lambda>start_position.
     bindE (int_mul (pt_x start_position) (bit_depth config)) (\<lambda>x.
     let row_jump = eg_calculate_row_jump (word_of_int (image_pixel_width config))
                      (word_of_int (bit_depth config))
     in Inr (sint (ucast (word_of_int (pt_y start_position) * row_jump +
                          word_of_int (int_quot x 8) :: u64) :: u32))))"

definition test_if_module_size_fits_eiger :: "DetectorConfig \<Rightarrow> int \<Rightarrow> unit res" where
  "test_if_module_size_fits_eiger config mid =
     bindE (get_module_end_position config (word_of_int mid)) (\<lambda>module_end.
     bindE (get_module_start_position config (word_of_int mid)) (\<lambda>module_start.
     if \<bar>pt_x module_start - pt_x module_end\<bar> \<noteq> int eg_MODULE_X_SIZE + 1
     then Inl (RuntimeError ''Eiger module width cannot be different'')
     else if \<bar>pt_y module_start - pt_y module_end\<bar> \<noteq> int eg_MODULE_Y_SIZE - 1
     then Inl (RuntimeError ''Eiger module height cannot be different'')
     else Inr ()))"

definition eg_Converter_ctor :: "DetectorConfig \<Rightarrow> int \<Rightarrow> eg_Converter res" where
  "eg_Converter_ctor config mid =
     bindE (int_mul 2 (bit_depth config)) (\<lambda>gap.
     bindE (eg_calculate_row_jump_direction config mid) (\<lambda>direction.
     bindE (int_mul (sint (ucast (eg_calculate_row_jump (word_of_int (image_pixel_width config))
              (word_of_int (bit_depth config))) :: u32)) direction) (\<lambda>row_jump.
     bindE (eg_calculate_start_index config mid) (\<lambda>start_index.
     bindE (test_if_module_is_inside_image config mid) (\<lambda>_.
     bindE (test_if_module_size_fits_eiger config mid) (\<lambda>_.
     Inr \<lparr>egc_input_row_size_per_chip =
            ucast ((word_of_nat eg_MODULE_X_SIZE :: u32) * word_of_int (bit_depth config) div 16),
          egc_gap_size = word_of_int (int_quot gap 8),
          egc_row_jump = row_jump, egc_start_index = start_index\<rparr>))))))"

text \<open>\<open>start_index + row * row_jump\<close> is computed in 32-bit unsigned arithmetic.\<close>

definition eg_output_start :: "eg_Converter \<Rightarrow> nat \<Rightarrow> nat" where
  "eg_output_start cv row =
     unat (word_of_int (egc_start_index cv) + word_of_nat row * word_of_int (egc_row_jump cv) :: u32)"

definition copy_block :: "byte list \<Rightarrow> nat \<Rightarrow> nat \<Rightarrow> nat \<Rightarrow> byte list \<Rightarrow> byte list res" where
  "copy_block input src n dst output =
     (if src + n \<le> length input then memcpy output dst (segment src n input)
      else Inl (Undefined ''read out of range''))"

definition eg_convert :: "eg_Converter \<Rightarrow> byte list \<Rightarrow> byte list \<Rightarrow> byte list res" where
  "eg_convert cv input output =
     (let n = unat (egc_input_row_size_per_chip cv); second = n + unat (egc_gap_size cv)
      in forE (\<lambda>row out.
           let input_start = row * n * 2; output_start = eg_output_start cv row
           in bindE (copy_block input input_start n output_start out)
                (copy_block input (input_start + n) n (output_start + second)))
         [0..<eg_MODULE_Y_SIZE] output)"

section \<open>Jungfrau\<close>

text \<open>\<open>'r\<close> is the type \<open>float\<close>; its arithmetic is a parameter: \<open>corr x p g\<close> is \<open>(x - p) * g\<close>.\<close>

record 'r jf_Converter =
  jfc_gains_and_pedestals :: "('r \<times> 'r) list list"
  jfc_row_jump :: u64
  jfc_start_index :: u64
  jfc_with_gains :: bool

definition jf_calculate_start_index :: "DetectorConfig \<Rightarrow> int \<Rightarrow> u64 res" where
  "jf_calculate_start_index config mid =
     bindE (get_module_start_position config (word_of_int mid)) (\<lambda>start_position.
     bindE (int_mul (image_pixel_width config) (pt_y start_position)) (\<lambda>y.
     if int_ok (y + pt_x start_position) then Inr (word_of_int (y + pt_x start_position))
     else Inl (Undefined ''signed overflow'')))"

definition test_if_module_size_fits_jungfrau :: "DetectorConfig \<Rightarrow> int \<Rightarrow> unit res" where
  "test_if_module_size_fits_jungfrau config mid =
     bindE (get_module_end_position config (word_of_int mid)) (\<lambda>module_end.
     bindE (get_module_start_position config (word_of_int mid)) (\<lambda>module_start.
     if \<bar>pt_x module_start - pt_x module_end\<bar> \<noteq> int jf_MODULE_X_SIZE - 1
     then Inl (RuntimeError ''Jungfrau module width cannot be different'')
     else if \<bar>pt_y module_start - pt_y module_end\<bar> \<noteq> int jf_MODULE_Y_SIZE - 1
     then Inl (RuntimeError ''Jungfrau module height cannot be different'')
     else Inr ()))"

definition jf_Converter_ctor :: "DetectorConfig \<Rightarrow> int \<Rightarrow> 'r jf_Converter res" where
  "jf_Converter_ctor config mid =
     bindE (jf_calculate_start_index config mid) (\<lambda>start.
     bindE (test_if_module_is_inside_image config mid) (\<lambda>_.
     bindE (test_if_module_size_fits_jungfrau config mid) (\<lambda>_.
     Inr \<lparr>jfc_gains_and_pedestals = replicate 3 [],
          jfc_row_jump = word_of_int (image_pixel_width config),
          jfc_start_index = start, jfc_with_gains = False\<rparr>)))"

text \<open>\<open>std::ranges::transform\<close> of two ranges stops at the end of the shorter one.\<close>

definition jf_Converter_gains_ctor ::
  "'r list list \<Rightarrow> 'r list list \<Rightarrow> DetectorConfig \<Rightarrow> int \<Rightarrow> 'r jf_Converter res" where
  "jf_Converter_gains_ctor g p config mid =
     bindE (jf_Converter_ctor config mid) (\<lambda>cv.
     if length (g ! 0) \<noteq> length (p ! 0)
     then Inl (RuntimeError ''Gains and pedestals have different size'')
     else Inr (cv\<lparr>jfc_with_gains := True,
                  jfc_gains_and_pedestals := map (\<lambda>i. zip (g ! i) (p ! i)) [0..<3]\<rparr>))"

definition jf_copy_row :: "'r jf_Converter \<Rightarrow> u16 list \<Rightarrow> nat \<Rightarrow> u16 list \<Rightarrow> u16 list res" where
  "jf_copy_row cv input row out =
      (let input_start = row * jf_MODULE_X_SIZE;
           output_start = unat (jfc_start_index cv + word_of_nat row * jfc_row_jump cv)
       in if input_start + jf_MODULE_X_SIZE \<le> length input
          then memcpy out output_start (segment input_start jf_MODULE_X_SIZE input)
          else Inl (Undefined ''read out of range''))"

definition jf_copy_raw_data :: "'r jf_Converter \<Rightarrow> u16 list \<Rightarrow> u16 list \<Rightarrow> u16 list res" where
  "jf_copy_raw_data cv input output = forE (jf_copy_row cv input) [0..<jf_MODULE_Y_SIZE] output"

definition jf_convert_pixel ::
  "(u16 \<Rightarrow> 'r \<Rightarrow> 'r \<Rightarrow> 'r) \<Rightarrow> 'r jf_Converter \<Rightarrow> u16 list \<Rightarrow> nat \<times> nat \<Rightarrow> 'r list \<Rightarrow> 'r list res" where
  "jf_convert_pixel corr cv input ij output =
     (case ij of (i, j) \<Rightarrow>
        let index = i * jf_MODULE_X_SIZE + j
        in if index \<ge> length input then Inl (Undefined ''read out of range'')
           else let gain_group = unat (drop_bit 14 (input ! index)) mod 3;
                    gp = jfc_gains_and_pedestals cv ! gain_group;
                    dst = unat (jfc_start_index cv + word_of_nat i * jfc_row_jump cv + word_of_nat j)
                in if index \<ge> length gp then Inl (Undefined ''read out of range'')
                   else if dst \<ge> length output then Inl (Undefined ''write out of range'')
                   else Inr (output[dst := corr (input ! index AND 0x3FFF) (snd (gp ! index)) (fst (gp ! index))]))"

definition jf_convert_data ::
  "(u16 \<Rightarrow> 'r \<Rightarrow> 'r \<Rightarrow> 'r) \<Rightarrow> 'r jf_Converter \<Rightarrow> u16 list \<Rightarrow> 'r list \<Rightarrow> 'r list res" where
  "jf_convert_data corr cv input output =
     (if length input > length (jfc_gains_and_pedestals cv ! 0)
      then Inl (InvalidArgument ''data size is greater than gains/pedestal arrays size'')
      else forE (jf_convert_pixel corr cv input)
             (List.product [0..<jf_MODULE_Y_SIZE] [0..<jf_MODULE_X_SIZE]) output)"

text \<open>\<open>to_f\<close> and \<open>of_f\<close> are the view of the output memory as \<open>float\<close> values.\<close>

definition jf_convert ::
  "(u16 \<Rightarrow> 'r \<Rightarrow> 'r \<Rightarrow> 'r) \<Rightarrow> (u16 list \<Rightarrow> 'r list) \<Rightarrow> ('r list \<Rightarrow> u16 list) \<Rightarrow> 'r jf_Converter \<Rightarrow>
   u16 list \<Rightarrow> u16 list \<Rightarrow> u16 list res" where
  "jf_convert corr to_f of_f cv input out =
     (if jfc_with_gains cv then bindE (jf_convert_data corr cv input (to_f out)) (\<lambda>f. Inr (of_f f))
      else jf_copy_raw_data cv input out)"

definition create_converter ::
  "(string \<Rightarrow> u64 \<Rightarrow> 'r list list \<times> 'r list list) \<Rightarrow> string \<Rightarrow> DetectorConfig \<Rightarrow> int \<Rightarrow> 'r jf_Converter res" where
  "create_converter read_gains filename config mid =
     (if filename = [] \<and> detector_type config = ''jungfrau-converted''
      then Inl (RuntimeError ''jungfrau-converted detector type requires valid gains and pedestals filename!'')
      else if filename = [] then jf_Converter_ctor config mid
      else bindE (int_mul (image_pixel_height config) (image_pixel_width config)) (\<lambda>n.
           case read_gains filename (word_of_int n) of (gains, pedestals) \<Rightarrow>
             jf_Converter_gains_ctor gains pedestals config mid))"

section \<open>The loop of a converter process\<close>

text \<open>A frame is received, converted into the slot of the image, and announced without data. The
  conversion works on the bytes of the two slots.\<close>

definition convert_turn ::
  "(byte list \<Rightarrow> byte list \<Rightarrow> byte list res) \<Rightarrow> Communicator \<Rightarrow> byte list option \<Rightarrow>
   byte list \<times> Communicator \<Rightarrow> (byte list \<times> Communicator) res" where
  "convert_turn convert receiver msg st =
     (case st of (meta, sender) \<Rightarrow>
        bindE (Communicator_receive receiver meta msg) (\<lambda>(meta', img, _).
        if img = INVALID_IMAGE_ID then Inr (meta', sender)
        else bindE (read_slot (comm_buffer receiver) img) (\<lambda>image.
             bindE (read_slot (comm_buffer sender) img) (\<lambda>slot.
             bindE (convert image slot) (\<lambda>slot'.
             bindE (RamBuffer_write (comm_buffer sender) img (Some slot')) (\<lambda>b.
             bindE (Communicator_send (sender\<lparr>comm_buffer := b\<rparr>) img meta' None) (\<lambda>sender'.
             Inr (meta', sender'))))))))"

section \<open>Properties of the GigaFRoST converter\<close>

text \<open>Two 12-bit pixels are packed into three bytes the way the detector sends them.\<close>

definition pack12 :: "u16 \<Rightarrow> u16 \<Rightarrow> byte list" where
  "pack12 a b = [ucast a, ucast (drop_bit 8 a) OR push_bit 4 (ucast b), ucast (drop_bit 4 b)]"

lemma and_15: "x AND 15 = take_bit 4 (x :: u8)"
  by (simp add: take_bit_eq_mask mask_numeral)

lemma handle_pack12:
  assumes "a < 4096" and "b < 4096" and "segment (3 * i) 3 input = pack12 a b"
  obtains c where "handle_of input i = Inr c" "low_pixel c = a" "high_pixel c = b"
proof -
  have len: "3 * i + 3 \<le> length input"
    using arg_cong [OF assms(3), of length] by (simp add: segment_def pack12_def)
  have bytes: "input ! (3 * i) = ucast a" "input ! (3 * i + 1) = ucast (drop_bit 8 a) OR push_bit 4 (ucast b)"
    "input ! (3 * i + 2) = ucast (drop_bit 4 b)"
    using nth_segment [OF len, of 0] nth_segment [OF len, of 1] nth_segment [OF len, of 2] assms(3)
    by (simp_all add: pack12_def)
  have hi: "\<not> bit x n" if "x < 4096" "12 \<le> n" for x :: u16 and n
  proof -
    have "unat x < 2 ^ 12" using that(1) by (simp add: word_less_nat_alt)
    then have "take_bit 12 x = x"
      by (simp add: word_unat_eq_iff unsigned_take_bit_eq take_bit_nat_eq_self)
    then show ?thesis using that(2) by (metis bit_take_bit_iff not_less)
  qed
  have low: "bit a n \<Longrightarrow> n < 12" "bit b n \<Longrightarrow> n < 12" for n
    using hi [OF assms(1), of n] hi [OF assms(2), of n] by (auto simp: not_less [symmetric])
  from low(2) have "bit b n \<Longrightarrow> n - 4 < 8" for n by fastforce
  note low = low this
  from low(1) have "bit a n \<Longrightarrow> n - 8 < 4" for n by fastforce
  note low = low this
  from low(1) have "\<not> bit a (12 + n)" for n by fastforce
  note low = low this
  show ?thesis
  proof (rule that)
    show "handle_of input i = Inr \<lparr>p11 = ucast a, p21 = (ucast (drop_bit 8 a) OR push_bit 4 (ucast b)) AND 15,
        p12 = drop_bit 4 (ucast (drop_bit 8 a) OR push_bit 4 (ucast b)), p22 = ucast (drop_bit 4 b)\<rparr>"
      using len unfolding handle_of_def bytes by simp
  next
    show "low_pixel \<lparr>p11 = ucast a, p21 = (ucast (drop_bit 8 a) OR push_bit 4 (ucast b)) AND 15,
        p12 = drop_bit 4 (ucast (drop_bit 8 a) OR push_bit 4 (ucast b)), p22 = ucast (drop_bit 4 b)\<rparr> = a"
      by (rule bit_eqI) (use low in \<open>auto simp: low_pixel_def and_15 bit_simps\<close>)
  next
    show "high_pixel \<lparr>p11 = ucast a, p21 = (ucast (drop_bit 8 a) OR push_bit 4 (ucast b)) AND 15,
        p12 = drop_bit 4 (ucast (drop_bit 8 a) OR push_bit 4 (ucast b)), p22 = ucast (drop_bit 4 b)\<rparr> = b"
      by (rule bit_eqI) (use low in \<open>auto simp: high_pixel_def and_15 bit_simps\<close>)
  qed
qed

text \<open>Where the pixel in row \<open>r\<close> and column \<open>c\<close> of module \<open>m\<close> stands in an image of \<open>4 * h\<close> rows and
  \<open>2 * w\<close> columns: the southern quadrants run downwards from the middle, the northern ones
  upwards, and the two modules of a quadrant have alternate rows.\<close>

definition gf_image_row :: "nat \<Rightarrow> nat \<Rightarrow> nat \<Rightarrow> nat" where
  "gf_image_row h m r = (if m < 4 then 2 * h + 2 * r + m mod 2 else 2 * h - 1 - 2 * r - m mod 2)"

definition gf_image_col :: "nat \<Rightarrow> nat \<Rightarrow> nat \<Rightarrow> nat" where
  "gf_image_col w m c = (if m div 2 mod 2 = 1 then w + c else c)"

definition gf_pos :: "nat \<Rightarrow> nat \<Rightarrow> nat \<Rightarrow> nat \<Rightarrow> nat \<Rightarrow> nat" where
  "gf_pos h w m r c = gf_image_row h m r * (2 * w) + gf_image_col w m c"

lemma gf_image_row_less: "r < h \<Longrightarrow> gf_image_row h m r < 4 * h"
proof -
  assume "r < h"
  moreover have "m mod 2 < 2" by simp
  ultimately show ?thesis by (cases "m < 4") (simp_all add: gf_image_row_def)
qed

lemma gf_image_col_less: "c < w \<Longrightarrow> gf_image_col w m c < 2 * w"
  by (simp add: gf_image_col_def)

lemma gf_pos_div_mod:
  assumes "c < w"
  shows "gf_pos h w m r c div (2 * w) = gf_image_row h m r" "gf_pos h w m r c mod (2 * w) = gf_image_col w m c"
  using gf_image_col_less [OF assms, of m] by (simp_all add: gf_pos_def)

lemma gf_pos_less:
  assumes "r < h" and "c < w"
  shows "gf_pos h w m r c < 4 * h * (2 * w)"
proof -
  have "gf_pos h w m r c < gf_image_row h m r * (2 * w) + 2 * w"
    using gf_image_col_less [OF assms(2)] by (simp add: gf_pos_def)
  also have "\<dots> \<le> 4 * h * (2 * w)"
    using block_in_range [OF gf_image_row_less [OF assms(1)], of m "2 * w"] .
  finally show ?thesis .
qed

text \<open>The module, row and column that a pixel comes from.\<close>

definition gf_source :: "nat \<Rightarrow> nat \<Rightarrow> nat \<Rightarrow> nat \<times> nat \<times> nat" where
  "gf_source h w j =
     (let R = j div (2 * w); C = j mod (2 * w); east = (if C < w then 0 else 1);
          n = (if R < 2 * h then 2 * h - 1 - R else R - 2 * h)
      in ((if R < 2 * h then 4 else 0) + 2 * east + n mod 2, n div 2, C - east * w))"

lemma mod8_cases: "(m :: nat) < 8 \<Longrightarrow> m \<in> {0, 1, 2, 3, 4, 5, 6, 7}"
  by auto

lemma gf_source_pos:
  assumes "m < 8" and "r < h" and "c < w"
  shows "gf_source h w (gf_pos h w m r c) = (m, r, c)"
  using mod8_cases [OF assms(1)] assms(2,3)
  unfolding gf_source_def Let_def gf_pos_div_mod [OF assms(3)]
  by (elim insertE emptyE) (simp_all add: gf_image_row_def gf_image_col_def)

lemma gf_pos_source:
  assumes "j < 4 * h * (2 * w)"
  obtains m r c where "m < 8" "r < h" "c < w" "gf_pos h w m r c = j"
proof -
  define R C where "R = j div (2 * w)" and "C = j mod (2 * w)"
  have w: "0 < w" using assms by (cases w) auto
  have R: "R < 4 * h" using assms w by (simp add: R_def less_mult_imp_div_less)
  have C: "C < 2 * w" using w by (simp add: C_def)
  have j: "j = R * (2 * w) + C" unfolding R_def C_def by (rule div_mult_mod_eq [symmetric])
  define n where "n = (if R < 2 * h then 2 * h - 1 - R else R - 2 * h)"
  define m where "m = (if R < 2 * h then 4 else 0) + 2 * (if C < w then 0 else 1) + n mod 2"
  have n: "n < 2 * h" using R by (auto simp: n_def)
  consider "n mod 2 = 0" | "n mod 2 = 1" by linarith
  then have m2: "m mod 2 = n mod 2" and col: "m div 2 mod 2 = (if C < w then 0 else 1)"
    by (cases; simp add: m_def)+
  have "n mod 2 + 2 * (n div 2) = n" by simp
  then have "gf_image_row h m (n div 2) = R"
    using R m2 by (auto simp: gf_image_row_def n_def m_def split: if_splits)
  moreover have "gf_image_col w m (C - (if C < w then 0 else w)) = C"
    using col by (simp add: gf_image_col_def)
  ultimately have "gf_pos h w m (n div 2) (C - (if C < w then 0 else w)) = j"
    by (simp add: gf_pos_def j)
  moreover have "m < 8" "n div 2 < h" "C - (if C < w then 0 else w) < w"
    using n C by (auto simp: m_def)
  ultimately show ?thesis using that by blast
qed

text \<open>The eight modules of a GigaFRoST detector partition the image: every pixel of the image
  is the place of exactly one pixel of exactly one module.\<close>

lemma gf_modules_partition:
  assumes "j < 4 * h * (2 * w)"
  shows "\<exists>!(m, r, c). m < 8 \<and> r < h \<and> c < w \<and> gf_pos h w m r c = j"
proof -
  obtain m r c where mrc: "m < 8" "r < h" "c < w" "gf_pos h w m r c = j"
    by (rule gf_pos_source [OF assms])
  have "p = (m, r, c)" if p: "case p of (m, r, c) \<Rightarrow> m < 8 \<and> r < h \<and> c < w \<and> gf_pos h w m r c = j" for p
  proof -
    obtain m' r' c' where p': "p = (m', r', c')" by (cases p)
    then have "gf_source h w j = (m', r', c')" using p gf_source_pos [of m' r' h c' w] by simp
    moreover have "gf_source h w j = (m, r, c)" using gf_source_pos [OF mrc(1-3)] mrc(4) by simp
    ultimately show ?thesis using p' by simp
  qed
  with mrc show ?thesis by (intro ex1I [of _ "(m, r, c)"]) simp_all
qed

text \<open>The loops write blocks of two pixels.\<close>

definition gf_handle_pixels :: "byte list \<Rightarrow> nat \<Rightarrow> u16 list" where
  "gf_handle_pixels input i =
     (case handle_of input i of Inr c \<Rightarrow> [low_pixel c, high_pixel c] | Inl _ \<Rightarrow> [0, 0])"

lemma length_gf_handle_pixels [simp]: "length (gf_handle_pixels input i) = 2"
  by (simp add: gf_handle_pixels_def split: sum.splits)

lemma write_blocks_append: "write_blocks (as @ bs) out = bindE (write_blocks as out) (write_blocks bs)"
  unfolding write_blocks_def [abs_def] by (rule forE_append)

lemma length_write_blocks: "write_blocks bs out = Inr out' \<Longrightarrow> length out' = length out"
  unfolding write_blocks_def
  by (rule forE_invariant [where P = "\<lambda>o'. length o' = length out"]) (auto dest: length_memcpy)

lemma put_two: "j + 2 \<le> length out \<Longrightarrow> out[j := a, Suc j := b] = overwrite j [a, b] out"
  by (rule nth_equalityI) (auto simp: nth_overwrite nth_list_update less_Suc_eq)

lemma gf_convert_row_blocks:
  assumes "3 * (i + n) \<le> length input" and "j + 2 * n \<le> length out"
  shows "gf_convert_row input i (int j) n out =
    write_blocks (map (\<lambda>k. (j + 2 * k, gf_handle_pixels input (i + k))) [0..<n]) out"
  using assms
proof (induction n arbitrary: i j out)
  case 0
  then show ?case by (simp add: write_blocks_def)
next
  case (Suc n)
  obtain c where c: "handle_of input i = Inr c"
    using Suc.prems(1) by (simp add: handle_of_def)
  define out1 where "out1 = overwrite j [low_pixel c, high_pixel c] out"
  have step: "gf_convert_row input i (int j) (Suc n) out = gf_convert_row input (i + 1) (int (j + 2)) n out1"
    using Suc.prems(2) c put_two [of j out "low_pixel c" "high_pixel c"]
    by (simp add: put_pixel_def out1_def nat_add_distrib algebra_simps)
  have blocks: "map (\<lambda>k. (j + 2 * k, gf_handle_pixels input (i + k))) [0..<Suc n] =
      (j, [low_pixel c, high_pixel c]) #
      map (\<lambda>k. (j + 2 + 2 * k, gf_handle_pixels input (i + 1 + k))) [0..<n]"
    by (simp add: upt_conv_Cons map_Suc_upt [symmetric] c gf_handle_pixels_def del: upt_Suc)
  have "gf_convert_row input (i + 1) (int (j + 2)) n out1 =
      write_blocks (map (\<lambda>k. (j + 2 + 2 * k, gf_handle_pixels input (i + 1 + k))) [0..<n]) out1"
    using Suc.prems by (intro Suc.IH) (simp_all add: out1_def)
  then show ?case
    unfolding step blocks using Suc.prems(2) by (simp add: write_blocks_def out1_def)
qed

lemma gf_convert_blocks:
  assumes "\<And>r. r < h \<Longrightarrow> gf_start_row cv r = Inr (int (s r)) \<and> gf_handles_per_row cv (int (s r)) = n \<and>
      s r + 2 * n \<le> length out"
    and "unat (gfc_height cv div 4) = h" and "3 * (h * n) \<le> length input"
  shows "gf_convert cv input out =
    write_blocks (concat (map (\<lambda>r. map (\<lambda>k. (s r + 2 * k, gf_handle_pixels input (r * n + k))) [0..<n]) [0..<h])) out"
proof -
  define row where "row r = map (\<lambda>k. (s r + 2 * k, gf_handle_pixels input (r * n + k))) [0..<n]" for r
  define step where "step = (\<lambda>row (i, out).
              bindE (gf_start_row cv row) (\<lambda>start_row.
              let n = gf_handles_per_row cv start_row
              in bindE (gf_convert_row input i start_row n out) (\<lambda>out'. Inr (i + n, out'))))"
  have "forE step [0..<R] (0, out) =
      bindE (write_blocks (concat (map row [0..<R])) out) (\<lambda>out'. Inr (R * n, out'))" if "R \<le> h" for R
    using that
  proof (induction R)
    case 0
    then show ?case by (simp add: write_blocks_def)
  next
    case (Suc R)
    have in_range: "3 * (R * n + n) \<le> length input"
      using Suc.prems assms(3) mult_le_mono1 [of "Suc R" h n] by (simp add: algebra_simps)
    have one: "step R (R * n, out') = bindE (write_blocks (row R) out') (\<lambda>o'. Inr (Suc R * n, o'))"
      if "length out' = length out" for out'
      using assms(1) [of R] Suc.prems that in_range
      by (simp add: step_def row_def gf_convert_row_blocks Let_def add.commute)
    have IH: "forE step [0..<R] (0, out) =
        bindE (write_blocks (concat (map row [0..<R])) out) (\<lambda>out'. Inr (R * n, out'))"
      using Suc by simp
    show ?case
    proof (cases "write_blocks (concat (map row [0..<R])) out")
      case (Inl e)
      then show ?thesis using IH by (simp add: forE_append write_blocks_append)
    next
      case (Inr b)
      then show ?thesis
        using IH one [OF length_write_blocks [OF Inr]] by (simp add: forE_append write_blocks_append)
    qed
  qed
  from this [of h] show ?thesis
    unfolding gf_convert_def assms(2) step_def [symmetric] row_def [symmetric]
    by (simp add: bindE_assoc) (cases "write_blocks (concat (map row [0..<h])) out"; simp)
qed

text \<open>The start of a row, computed with wrapping words, is the place of its first pixel.\<close>

lemma small_word:
  assumes "n < 2 ^ 32"
  shows "unat (word_of_nat n :: u64) = n"
  using assms by (simp only: unat_of_nat) (simp add: take_bit_nat_eq_self)

lemma small_word_div:
  assumes "n < 2 ^ 32" and "d < 2 ^ 32"
  shows "(word_of_nat n :: u64) div word_of_nat d = word_of_nat (n div d)"
proof -
  have "n div d < 2 ^ 32" using assms(1) by (meson div_le_dividend le_less_trans)
  then show ?thesis using assms by (simp add: word_unat_eq_iff unat_div small_word del: of_nat_numeral)
qed

lemma sint_small: "0 \<le> x \<Longrightarrow> x < 2 ^ 32 \<Longrightarrow> sint (word_of_int x :: u64) = x"
  by (simp add: signed_of_int signed_take_bit_int_eq_self)

lemma gf_quadrants:
  "gf_quadrant_of 0 = SW" "gf_quadrant_of 1 = SW" "gf_quadrant_of 2 = SE" "gf_quadrant_of 3 = SE"
  "gf_quadrant_of 4 = NW" "gf_quadrant_of 5 = NW" "gf_quadrant_of 6 = NE" "gf_quadrant_of 7 = NE"
  by code_simp+

lemma gf_row_jump_value:
  assumes "v \<le> 4096"
  shows "gf_calculate_row_jump q (word_of_nat (4 * v)) = Inr (8 * int v * (if q = NW \<or> q = NE then - 1 else 1))"
proof -
  have "(ucast (word_of_nat (4 * v) :: u64) :: u32) = word_of_nat (4 * v)"
    using assms by (simp add: unsigned_of_nat take_bit_nat_eq_self del: of_nat_mult)
  moreover have "sint (word_of_nat (4 * v) :: u32) = 4 * int v"
    using assms by (subst signed_of_nat) (simp add: signed_take_bit_int_eq_self)
  ultimately show ?thesis
    using assms by (simp add: gf_calculate_row_jump_def int_mul_def int_ok_iff)
qed

lemma gf_Converter_ctor_ok: "v \<le> 4096 \<Longrightarrow> \<exists>cv. gf_Converter_ctor h (word_of_nat (4 * v)) q i = Inr cv"
  by (simp add: gf_Converter_ctor_def gf_row_jump_value del: of_nat_mult)

lemma gf_start_row_pos:
  assumes b: "0 < h" "h \<le> 4096" "v \<le> 4096" and m: "m < 8" and r: "r < h"
    and cv: "gf_Converter_ctor (word_of_nat (4 * h)) (word_of_nat (4 * v)) (gf_quadrant_of (word_of_nat m))
      (int m) = Inr cv"
  shows "gf_start_row cv r = Inr (int (gf_pos h (2 * v) m r 0))"
    and "gf_handles_per_row cv (int (gf_pos h (2 * v) m r 0)) = v"
    and "unat (gfc_height cv div 4) = h"
proof -
  define H W :: u64 where "H = word_of_nat (4 * h)" and "W = word_of_nat (4 * v)"
  have two: "(4 * h - 1) div 2 = 2 * h - 1" by presburger
  have "H - 1 = word_of_nat (4 * h - 1)" using b(1) by (simp add: H_def of_nat_diff)
  then have H: "H div 4 = word_of_nat h" "W div 2 = word_of_nat (2 * v)" "H div 2 = word_of_nat (2 * h)"
    "(H - 1) div 2 = word_of_nat (2 * h - 1)"
    using small_word_div [of "4 * h" 4] small_word_div [of "4 * v" 2] small_word_div [of "4 * h" 2]
      small_word_div [of "4 * h - 1" 2] b two
    by (simp_all only: H_def W_def of_nat_numeral) simp_all
  let ?q = "gf_quadrant_of (word_of_nat m)"
  have cv_def: "cv = \<lparr>gfc_height = H, gfc_width = W, gfc_start_index = gf_calculate_start_index (int m) ?q H W,
      gfc_row_jump = 8 * int v * (if ?q = NW \<or> ?q = NE then - 1 else 1)\<rparr>"
    using cv [folded H_def W_def, unfolded gf_Converter_ctor_def gf_row_jump_value [OF b(3), folded W_def]] by simp
  show "unat (gfc_height cv div 4) = h"
    using b by (simp add: cv_def H small_word)
  have pos: "int (gf_pos h (2 * v) m r 0) < 2 ^ 31"
  proof -
    have "gf_pos h (2 * v) m r 0 \<le> 4 * h * (2 * (2 * v))"
      using gf_pos_less [of r h 0 "2 * v" m] r by (cases "v = 0") (simp_all add: gf_pos_def gf_image_col_def)
    also have "\<dots> \<le> 4 * 4096 * (2 * (2 * 4096))" using b by (intro mult_le_mono) simp_all
    finally show ?thesis by simp
  qed
  show "gf_handles_per_row cv (int (gf_pos h (2 * v) m r 0)) = v"
  proof -
    have "sint (word_of_int (int (gf_pos h (2 * v) m r 0)) + word_of_nat (2 * v) :: u64) =
        int (gf_pos h (2 * v) m r 0) + 2 * int v"
      using sint_small [of "int (gf_pos h (2 * v) m r 0 + 2 * v)"] pos b by simp
    then show ?thesis by (simp add: gf_handles_per_row_def Let_def cv_def H)
  qed
  have row: "int (gf_image_row h m r) = (if m < 4 then 2 * int h + 2 * int r + int (m mod 2)
      else 2 * int h - 1 - 2 * int r - int (m mod 2))"
    using r by (simp add: gf_image_row_def of_nat_diff)
  have "word_of_int (gfc_row_jump cv * int r) + gfc_start_index cv = word_of_int (int (gf_pos h (2 * v) m r 0))"
    using mod8_cases [OF m] b(1) unfolding gf_pos_def of_nat_add of_nat_mult row cv_def
    by (elim insertE emptyE; simp add: gf_quadrants gf_calculate_start_index_def H gf_image_col_def of_nat_diff)
      (simp_all add: W_def algebra_simps)
  moreover have "r * v \<le> 4096 * 4096" using b r by (intro mult_le_mono) simp_all
  moreover have "gfc_row_jump cv * int r = 8 * int (r * v) \<or> gfc_row_jump cv * int r = - (8 * int (r * v))"
    by (simp add: cv_def)
  ultimately have "int_ok (gfc_row_jump cv * int r)" by (auto simp: int_ok_iff simp del: of_nat_mult)
  with \<open>word_of_int (gfc_row_jump cv * int r) + _ = _\<close> show "gf_start_row cv r = Inr (int (gf_pos h (2 * v) m r 0))"
    using sint_small [of "int (gf_pos h (2 * v) m r 0)"] pos by (simp add: gf_start_row_def int_mul_def)
qed

lemma sorted_wrt_map_distinct:
  assumes "distinct xs" and "\<And>x y. x \<in> set xs \<Longrightarrow> y \<in> set xs \<Longrightarrow> x \<noteq> y \<Longrightarrow> R (f x) (f y)"
  shows "sorted_wrt R (map f xs)"
  using assms by (induction xs) auto

text \<open>The blocks of all handles of a module, by row and handle.\<close>

lemma concat_rows:
  "concat (map (\<lambda>r. map (f r) [0..<n]) [0..<h]) = map (\<lambda>(r, k). f r k) (List.product [0..<h] [0..<n])"
  by (simp add: product_concat_map map_concat comp_def)

lemma gf_pos_add: "gf_pos h w m r c = gf_pos h w m r 0 + c"
  by (simp add: gf_pos_def gf_image_col_def)

lemma gf_row_inside:
  assumes "r < h" and "n \<le> v"
  shows "gf_pos h (2 * v) m r 0 + 2 * n \<le> 4 * h * (4 * v)"
  using gf_pos_less [of r h "2 * n - 1" "2 * v" m] assms gf_pos_add [of h "2 * v" m r "2 * n - 1"]
  by (cases "v = 0"; cases n) (auto simp: less_imp_le gf_pos_def gf_image_col_def)

text \<open>The block that handle \<open>k\<close> of row \<open>r\<close> is unpacked into.\<close>

definition gf_block :: "nat \<Rightarrow> nat \<Rightarrow> nat \<Rightarrow> byte list \<Rightarrow> nat \<times> nat \<Rightarrow> nat \<times> u16 list" where
  "gf_block h v m input = (\<lambda>(r, k). (gf_pos h (2 * v) m r 0 + 2 * k, gf_handle_pixels input (r * v + k)))"

definition gf_blocks :: "nat \<Rightarrow> nat \<Rightarrow> nat \<Rightarrow> byte list \<Rightarrow> (nat \<times> u16 list) list" where
  "gf_blocks h v m input = map (gf_block h v m input) (List.product [0..<h] [0..<v])"

lemma set_gf_blocks: "set (gf_blocks h v m input) = gf_block h v m input ` ({..<h} \<times> {..<v})"
  by (simp add: gf_blocks_def lessThan_atLeast0)

lemma gf_blocks_inside: "b \<in> set (gf_blocks h v m input) \<Longrightarrow> fst b + length (snd b) \<le> 4 * h * (4 * v)"
  using gf_row_inside [of _ h "Suc _" v m] by (auto simp: set_gf_blocks gf_block_def)

lemma gf_block_apart:
  assumes "m < 8" and "r < h" and "k < v" and "r' < h" and "k' < v" and "(r, k) \<noteq> (r', k')"
  shows "blocks_apart (gf_block h v m input (r, k)) (gf_block h v m input (r', k'))"
proof -
  let ?s = "\<lambda>r. gf_pos h (2 * v) m r 0"
  have "gf_pos h (2 * v) m r (2 * k) \<noteq> gf_pos h (2 * v) m r' (2 * k')"
    using assms(2-) gf_source_pos [OF assms(1), of r h "2 * k" "2 * v"]
      gf_source_pos [OF assms(1), of r' h "2 * k'" "2 * v"] by auto
  moreover have "even (?s r)" for r by (simp add: gf_pos_def gf_image_col_def)
  ultimately have "even (?s r + 2 * k)" "even (?s r' + 2 * k')" "?s r + 2 * k \<noteq> ?s r' + 2 * k'"
    using gf_pos_add [of h "2 * v" m r "2 * k"] gf_pos_add [of h "2 * v" m r' "2 * k'"] by auto
  then show ?thesis by (simp add: gf_block_def blocks_apart_def) presburger
qed

lemma gf_blocks_apart: "m < 8 \<Longrightarrow> sorted_wrt blocks_apart (gf_blocks h v m input)"
  unfolding gf_blocks_def
  by (rule sorted_wrt_map_distinct) (auto simp: distinct_product intro!: gf_block_apart)

text \<open>A pixel of another module lies in none of the blocks.\<close>

lemma gf_blocks_foreign:
  assumes "m < 8" and "m' < 8" and "m' \<noteq> m" and "r < h" and "c < 2 * v" and "b \<in> set (gf_blocks h v m input)"
  shows "gf_pos h (2 * v) m' r c < fst b \<or> fst b + length (snd b) \<le> gf_pos h (2 * v) m' r c"
proof (rule ccontr)
  let ?j = "gf_pos h (2 * v) m' r c" and ?s = "\<lambda>r. gf_pos h (2 * v) m r 0"
  assume "\<not> ?thesis"
  then obtain r' k' where rk: "r' < h" "k' < v" "?s r' + 2 * k' \<le> ?j" "?j < ?s r' + 2 * k' + 2"
    using assms(6) by (auto simp: set_gf_blocks gf_block_def not_less not_le)
  define e where "e = ?j - (?s r' + 2 * k')"
  have "?j = gf_pos h (2 * v) m r' (2 * k' + e)" "2 * k' + e < 2 * v"
    using rk gf_pos_add [of h "2 * v" m r' "2 * k' + e"] by (auto simp: e_def)
  then show False
    using gf_source_pos [OF assms(1) rk(1), of "2 * k' + e" "2 * v"] gf_source_pos [OF assms(2,4,5)] assms(3)
    by simp
qed

text \<open>The frame of a module: two pixels of twelve bits in three bytes, row after row.\<close>

definition gf_packed :: "nat \<Rightarrow> nat \<Rightarrow> (nat \<Rightarrow> nat \<Rightarrow> u16) \<Rightarrow> byte list \<Rightarrow> bool" where
  "gf_packed h v px input \<longleftrightarrow> length input = 3 * (h * v) \<and> (\<forall>r < h. \<forall>c < 2 * v. px r c < 4096) \<and>
     (\<forall>r < h. \<forall>k < v. segment (3 * (r * v + k)) 3 input = pack12 (px r (2 * k)) (px r (2 * k + 1)))"

lemma gf_packed_pixels:
  assumes "gf_packed h v px input" and "r < h" and "k < v"
  shows "gf_handle_pixels input (r * v + k) = [px r (2 * k), px r (2 * k + 1)]"
proof -
  have "px r (2 * k) < 4096" "px r (2 * k + 1) < 4096"
    and "segment (3 * (r * v + k)) 3 input = pack12 (px r (2 * k)) (px r (2 * k + 1))"
    using assms by (simp_all add: gf_packed_def)
  then obtain c where "handle_of input (r * v + k) = Inr c" "low_pixel c = px r (2 * k)"
    "high_pixel c = px r (2 * k + 1)" by (rule handle_pack12)
  then show ?thesis by (simp add: gf_handle_pixels_def)
qed

text \<open>Every pixel of a module is written to its place in the image, and no pixel of another
  module changes.\<close>

lemma gf_convert_frame_correct:
  assumes "0 < h" and "h \<le> 4096" and "v \<le> 4096" and "m < 8" and "gf_packed h v px input"
    and "length output = 4 * h * (4 * v)"
  shows "\<exists>output'. gf_convert_frame (word_of_nat (4 * h)) (word_of_nat (4 * v)) (word_of_nat m) input output =
      Inr output' \<and> length output' = length output \<and>
    (\<forall>r < h. \<forall>c < 2 * v. output' ! gf_pos h (2 * v) m r c = px r c) \<and>
    (\<forall>m' < 8. \<forall>r < h. \<forall>c < 2 * v. m' \<noteq> m \<longrightarrow>
       output' ! gf_pos h (2 * v) m' r c = output ! gf_pos h (2 * v) m' r c)"
proof -
  let ?bs = "gf_blocks h v m input"
  obtain cv where cv: "gf_Converter_ctor (word_of_nat (4 * h)) (word_of_nat (4 * v))
      (gf_quadrant_of (word_of_nat m)) (int m) = Inr cv"
    using gf_Converter_ctor_ok [OF assms(3)] by blast
  have "gf_convert cv input output = write_blocks ?bs output"
    unfolding gf_blocks_def gf_block_def concat_rows [symmetric]
    using gf_start_row_pos [OF assms(1-4) _ cv] gf_row_inside assms(1,5,6)
    by (intro gf_convert_blocks) (auto simp: gf_packed_def)
  moreover have "unat (word_of_nat m :: u16) = m" using assms(4) by (simp add: unat_of_nat)
  ultimately have conv: "gf_convert_frame (word_of_nat (4 * h)) (word_of_nat (4 * v)) (word_of_nat m) input output =
      write_blocks ?bs output"
    using cv by (simp only: gf_convert_frame_def bindE_simps)
  have "\<forall>b \<in> set ?bs. fst b + length (snd b) \<le> length output"
    using gf_blocks_inside [of _ h v m input] assms(6) by simp
  from write_blocks_ok [OF this gf_blocks_apart [OF assms(4)]]
  obtain output' where o: "write_blocks ?bs output = Inr output'" "length output' = length output"
    "\<forall>b \<in> set ?bs. segment (fst b) (length (snd b)) output' = snd b"
    "\<forall>j < length output. (\<forall>b \<in> set ?bs. j < fst b \<or> fst b + length (snd b) \<le> j) \<longrightarrow> output' ! j = output ! j"
    by blast
  have "output' ! gf_pos h (2 * v) m r c = px r c" if rc: "r < h" "c < 2 * v" for r c
  proof -
    obtain k e where c: "c = 2 * k + e" "e < 2" and k: "k < v"
      using rc(2) that [of "c div 2" "c mod 2"] by auto
    have "gf_block h v m input (r, k) \<in> set ?bs" using rc(1) k by (auto simp: set_gf_blocks)
    from bspec [OF o(3) this]
    have "segment (gf_pos h (2 * v) m r 0 + 2 * k) 2 output' = [px r (2 * k), px r (2 * k + 1)]"
      using gf_packed_pixels [OF assms(5) rc(1) k] by (simp add: gf_block_def numeral_2_eq_2)
    moreover have "gf_pos h (2 * v) m r 0 + 2 * k + 2 \<le> length output'"
      using gf_row_inside [OF rc(1), of "Suc k" v m] k o(2) assms(6) by simp
    moreover have "e = 0 \<or> e = 1" using c(2) by auto
    ultimately have "output' ! (gf_pos h (2 * v) m r 0 + 2 * k + e) = px r (2 * k + e)"
      using nth_segment [of "gf_pos h (2 * v) m r 0 + 2 * k" 2 output' e] by auto
    then show ?thesis using gf_pos_add [of h "2 * v" m r c] by (simp add: c(1) add.assoc)
  qed
  moreover have "output' ! gf_pos h (2 * v) m' r c = output ! gf_pos h (2 * v) m' r c"
    if "m' < 8" "r < h" "c < 2 * v" "m' \<noteq> m" for m' r c
    using o(4) gf_blocks_foreign [OF assms(4) that(1,4,2,3)] gf_pos_less [OF that(2,3), of m'] assms(6) by simp
  ultimately show ?thesis using conv o(1,2) by auto
qed

text \<open>C5. The image is assembled by the eight converters of a GigaFRoST detector, in whatever order
  they run: afterwards every pixel of the image is the pixel of the one module it belongs to.\<close>

theorem gf_image_assembled:
  assumes "0 < h" and "h \<le> 4096" and "v \<le> 4096" and "distinct ms" and "set ms = {..<8}"
    and "\<forall>m < 8. gf_packed h v (px m) (input m)" and "length output = 4 * h * (4 * v)"
  shows "\<exists>output'. forE (\<lambda>m. gf_convert_frame (word_of_nat (4 * h)) (word_of_nat (4 * v)) (word_of_nat m) (input m))
      ms output = Inr output' \<and> length output' = length output \<and>
    (\<forall>j < length output'. \<exists>!(m, r, c). m < 8 \<and> r < h \<and> c < 2 * v \<and> gf_pos h (2 * v) m r c = j) \<and>
    (\<forall>m < 8. \<forall>r < h. \<forall>c < 2 * v. output' ! gf_pos h (2 * v) m r c = px m r c)"
proof -
  let ?f = "\<lambda>m. gf_convert_frame (word_of_nat (4 * h)) (word_of_nat (4 * v)) (word_of_nat m) (input m)"
  have "\<exists>output'. forE ?f ns output = Inr output' \<and> length output' = length output \<and>
      (\<forall>m \<in> set ns. \<forall>r < h. \<forall>c < 2 * v. output' ! gf_pos h (2 * v) m r c = px m r c)"
    if "distinct ns" "set ns \<subseteq> {..<8}" for ns
    using that
  proof (induction ns rule: rev_induct)
    case Nil
    then show ?case by simp
  next
    case (snoc m ns)
    then obtain out1 where out1: "forE ?f ns output = Inr out1" "length out1 = length output"
      "\<forall>m \<in> set ns. \<forall>r < h. \<forall>c < 2 * v. out1 ! gf_pos h (2 * v) m r c = px m r c" by auto
    have "m < 8" using snoc.prems(2) by simp
    with gf_convert_frame_correct [OF assms(1-3) this, of "px m" "input m" out1] assms(6,7) out1(2)
    obtain out2 where "?f m out1 = Inr out2" "length out2 = length output"
      "\<forall>r < h. \<forall>c < 2 * v. out2 ! gf_pos h (2 * v) m r c = px m r c"
      and other: "\<forall>m' < 8. \<forall>r < h. \<forall>c < 2 * v. m' \<noteq> m \<longrightarrow> out2 ! gf_pos h (2 * v) m' r c = out1 ! gf_pos h (2 * v) m' r c"
      by auto
    moreover have "out2 ! gf_pos h (2 * v) n r c = px n r c"
      if "n \<in> set ns" "r < h" "c < 2 * v" for n r c
    proof -
      have "n < 8" "n \<noteq> m" using snoc.prems that(1) by auto
      then show ?thesis using out1(3) that other by simp
    qed
    ultimately show ?case using out1 by (intro exI [of _ out2]) (auto simp: forE_append)
  qed
  from this [OF assms(4)] assms(5,7) show ?thesis
    using gf_modules_partition [of _ h "2 * v"] by (fastforce simp: mult.assoc)
qed

theorem gf_image_assembled_witness:
  "\<exists>output'. forE (\<lambda>m. gf_convert_frame 4 4 (word_of_nat m) (pack12 (word_of_nat m) 2)) [5, 3, 0, 1, 7, 2, 4, 6]
      (replicate 16 0) = Inr output' \<and> length output' = 16 \<and>
    (\<forall>m < 8. output' ! gf_pos 1 2 m 0 0 = word_of_nat m \<and> output' ! gf_pos 1 2 m 0 1 = 2)"
proof -
  have "gf_packed 1 1 (\<lambda>r c. if c = 0 then word_of_nat m else 2) (pack12 (word_of_nat m) 2)" if "m < 8" for m
    using that by (auto simp: gf_packed_def pack12_def segment_def word_less_nat_alt unat_of_nat)
  then show ?thesis
    using gf_image_assembled [of 1 1 "[5, 3, 0, 1, 7, 2, 4, 6]" "\<lambda>m r c. if c = 0 then word_of_nat m else 2"
        "\<lambda>m. pack12 (word_of_nat m) 2" "replicate 16 0"]
    by (force simp: numeral_2_eq_2 [symmetric])
qed

section \<open>Properties of the Jungfrau converter\<close>

lemma jf_copy_rows:
  assumes "\<And>r. r < R \<Longrightarrow> unat (jfc_start_index cv + word_of_nat r * jfc_row_jump cv) = dst r"
    and "R * jf_MODULE_X_SIZE \<le> length input"
  shows "forE (jf_copy_row cv input) [0..<R] out =
    write_blocks (map (\<lambda>r. (dst r, segment (r * jf_MODULE_X_SIZE) jf_MODULE_X_SIZE input)) [0..<R]) out"
  unfolding write_blocks_def forE_map using assms
  by (intro forE_cong) (auto simp: jf_copy_row_def dest: block_in_range [of _ R jf_MODULE_X_SIZE])

text \<open>The first pixel of a row of a Jungfrau module in the image.\<close>

definition jf_row_start :: "nat \<Rightarrow> nat \<Rightarrow> nat \<Rightarrow> nat \<Rightarrow> nat" where
  "jf_row_start w x y r = (y + r) * w + x"

lemma jf_start_word:
  assumes "jf_Converter_ctor config mid = Inr cv"
    and "get_module_start_position config (word_of_int mid) = Inr \<lparr>pt_x = int x, pt_y = int y\<rparr>"
    and "image_pixel_width config = int w" and "jf_row_start w x y r < 2 ^ 32"
  shows "unat (jfc_start_index cv + word_of_nat r * jfc_row_jump cv) = jf_row_start w x y r"
proof -
  have "jfc_start_index cv + word_of_nat r * jfc_row_jump cv = word_of_nat (jf_row_start w x y r)"
    using assms(1-3)
    by (auto simp: jf_Converter_ctor_def bindE_eq_Inr jf_calculate_start_index_def int_mul_def jf_row_start_def
      algebra_simps split: if_splits)
  then show ?thesis using small_word [OF assms(4)] by simp
qed

lemma jf_rows_apart:
  assumes "x + 1024 \<le> w" and "length input = 512 * 1024"
  shows "sorted_wrt blocks_apart (map (\<lambda>r. (jf_row_start w x y r, segment (r * 1024) 1024 input)) [0..<512])"
proof (rule sorted_wrt_map_distinct)
  fix r r' assume r: "r \<in> set [0..<512]" "r' \<in> set [0..<512]" "r \<noteq> r'"
  then have "length (segment (r * 1024) 1024 input) = 1024" "length (segment (r' * 1024) 1024 input) = 1024"
    using assms(2) by (auto intro!: length_segment)
  then show "blocks_apart (jf_row_start w x y r, segment (r * 1024) 1024 input) (jf_row_start w x y r', segment (r' * 1024) 1024 input)"
    using block_disjoint [of "y + r" "y + r'" w] assms(1) r(3) by (auto simp: blocks_apart_def jf_row_start_def)
qed simp

lemma outside_jf_row:
  assumes "\<forall>c < 1024. j \<noteq> (y + r) * w + x + c"
  shows "j < jf_row_start w x y r \<or> jf_row_start w x y r + 1024 \<le> j"
proof (rule ccontr)
  assume "\<not> ?thesis"
  then have "j = (y + r) * w + x + (j - jf_row_start w x y r)" "j - jf_row_start w x y r < 1024"
    unfolding jf_row_start_def by linarith+
  then show False using assms by blast
qed

text \<open>C30. Without gains the Jungfrau converter copies every pixel of a module that is inside the
  image to its place, and leaves the rest of the image alone.\<close>

theorem jf_raw_correct:
  assumes "jf_Converter_ctor config mid = Inr cv"
    and "get_module_start_position config (word_of_int mid) = Inr \<lparr>pt_x = int x, pt_y = int y\<rparr>"
    and "image_pixel_width config = int w" and "x + 1024 \<le> w" and "y + 512 \<le> h" and "h * w < 2 ^ 32"
    and "length input = 512 * 1024" and "length output = h * w"
  shows "\<exists>output'. jf_copy_raw_data cv input output = Inr output' \<and> length output' = length output \<and>
    (\<forall>r < 512. \<forall>c < 1024. output' ! ((y + r) * w + x + c) = input ! (r * 1024 + c)) \<and>
    (\<forall>j < h * w. (\<forall>r < 512. \<forall>c < 1024. j \<noteq> (y + r) * w + x + c) \<longrightarrow> output' ! j = output ! j)"
proof -
  let ?b = "\<lambda>r. (jf_row_start w x y r, segment (r * 1024) 1024 input)"
  let ?bs = "map ?b [0..<512]"
  have row: "jf_row_start w x y r + 1024 \<le> h * w" if "r < 512" for r
    using block_in_range [of "y + r" h w] that assms(4,5) by (simp add: jf_row_start_def)
  have start: "unat (jfc_start_index cv + word_of_nat r * jfc_row_jump cv) = jf_row_start w x y r" if "r < 512" for r
    using row [OF that] assms(6) by (intro jf_start_word [OF assms(1-3)]) simp
  have len: "length (segment (r * 1024) 1024 input) = 1024" if "r < 512" for r
    using that assms(7) by (intro length_segment) simp
  have conv: "jf_copy_raw_data cv input output = write_blocks ?bs output"
    unfolding jf_copy_raw_data_def
    using jf_copy_rows [of jf_MODULE_Y_SIZE cv "jf_row_start w x y" input "output"] start assms(7)
    by (simp add: jf_consts)
  note apart = jf_rows_apart [OF assms(4,7), of y]
  have "\<forall>b \<in> set ?bs. fst b + length (snd b) \<le> length output" using row len assms(8) by auto
  from write_blocks_ok [OF this apart] obtain output' where o: "write_blocks ?bs output = Inr output'"
    "length output' = length output"
    "\<forall>b \<in> set ?bs. segment (fst b) (length (snd b)) output' = snd b"
    "\<forall>j < length output. (\<forall>b \<in> set ?bs. j < fst b \<or> fst b + length (snd b) \<le> j) \<longrightarrow> output' ! j = output ! j"
    by blast
  have "output' ! ((y + r) * w + x + c) = input ! (r * 1024 + c)" if "r < 512" "c < 1024" for r c
  proof -
    have "segment (jf_row_start w x y r) 1024 output' = segment (r * 1024) 1024 input"
      using bspec [OF o(3), of "?b r"] len [OF that(1)] that(1) by auto
    then show ?thesis
      using nth_segment [of "jf_row_start w x y r" 1024 output' c] nth_segment [of "r * 1024" 1024 input c]
        that row [OF that(1)] assms(7,8) o(2) by (simp add: jf_row_start_def)
  qed
  moreover have "output' ! j = output ! j"
    if "j < h * w" "\<forall>r < 512. \<forall>c < 1024. j \<noteq> (y + r) * w + x + c" for j
  proof -
    have "j < jf_row_start w x y r \<or> jf_row_start w x y r + 1024 \<le> j" if "r < 512" for r
      using outside_jf_row \<open>\<forall>r < 512. \<forall>c < 1024. j \<noteq> (y + r) * w + x + c\<close> that by blast
    then show ?thesis using o(4) that(1) assms(8) len by auto
  qed
  ultimately show ?thesis using conv o(1,2) by auto
qed

definition jf_config :: "int \<Rightarrow> DetectorConfig" where
  "jf_config x = example_config\<lparr>detector_type := ''jungfrau-raw'', image_pixel_width := 1024,
     image_pixel_height := 512, modules := [(0, (\<lparr>pt_x = x, pt_y = 0\<rparr>, \<lparr>pt_x = x + 1023, pt_y = 511\<rparr>))]\<rparr>"

lemma jf_config_ctor:
  "x = 0 \<or> x = 1 \<Longrightarrow> jf_Converter_ctor (jf_config x) 0 =
    Inr \<lparr>jfc_gains_and_pedestals = replicate 3 ([] :: (unit \<times> unit) list), jfc_row_jump = 1024,
      jfc_start_index = word_of_int x, jfc_with_gains = False\<rparr>"
  by (auto simp: jf_Converter_ctor_def jf_calculate_start_index_def get_module_start_position_def
    get_module_end_position_def um_at_def jf_config_def int_mul_def int_ok_iff test_if_module_is_inside_image_def
    test_if_module_size_fits_jungfrau_def jf_consts)

theorem jf_raw_correct_witness:
  "\<exists>cv output'. (jf_Converter_ctor (jf_config 0) 0 :: unit jf_Converter res) = Inr cv \<and>
    jf_copy_raw_data cv (replicate 524288 7) (replicate 524288 0) = Inr output' \<and> output' ! 5 = 7"
proof -
  have "get_module_start_position (jf_config 0) (word_of_int 0) = Inr \<lparr>pt_x = int 0, pt_y = int 0\<rparr>"
    by (simp add: get_module_start_position_def um_at_def jf_config_def)
  from jf_raw_correct [OF jf_config_ctor this, of 1024 512 "replicate 524288 7" "replicate 524288 0"]
  obtain output' where o: "jf_copy_raw_data \<lparr>jfc_gains_and_pedestals = replicate 3 ([] :: (unit \<times> unit) list),
        jfc_row_jump = 1024, jfc_start_index = word_of_int 0, jfc_with_gains = False\<rparr>
      (replicate 524288 7) (replicate 524288 0) = Inr output'"
    "\<forall>r < 512. \<forall>c < 1024. output' ! ((0 + r) * 1024 + 0 + c) = replicate 524288 7 ! (r * 1024 + c)"
    by (auto simp: jf_config_def)
  from o(2) [rule_format, of 0 5] have "output' ! 5 = 7" by simp
  with o(1) jf_config_ctor [of 0] show ?thesis by blast
qed

text \<open>The check of a module against the image compares with \<open>>\<close>, so that a module that ends one
  pixel behind the last column is accepted; its last row is then copied behind the image.\<close>

theorem jf_edge_module_undefined:
  assumes "jf_Converter_ctor (jf_config 1) 0 = Inr (cv :: unit jf_Converter)"
    and "length input = 512 * 1024" and "length out = 512 * 1024"
  shows "jf_copy_raw_data cv input out = Inl (Undefined ''memcpy out of range'')"
proof -
  have cv: "cv = \<lparr>jfc_gains_and_pedestals = replicate 3 [], jfc_row_jump = 1024,
      jfc_start_index = 1, jfc_with_gains = False\<rparr>"
    using assms(1) jf_config_ctor [of 1] by simp
  have start: "unat (jfc_start_index cv + word_of_nat r * jfc_row_jump cv) = 1 + r * 1024" if "r < 512" for r
    using small_word [of "1 + r * 1024"] that by (simp add: cv)
  have "\<exists>out'. forE (jf_copy_row cv input) [0..<n] out = Inr out' \<and> length out' = 512 * 1024" if "n < 512" for n
    using assms(2,3) start that
    by (intro forE_ok) (auto simp: jf_copy_row_def jf_consts Let_def)
  moreover define n :: nat where "n = 511"
  then have n: "n < 512" by simp
  ultimately obtain out' where out': "forE (jf_copy_row cv input) [0..<n] out = Inr out'" "length out' = 512 * 1024"
    by (metis n)
  have "[0..<jf_MODULE_Y_SIZE] = [0..<n] @ [n]" using upt_Suc [of 0 n] by (simp add: jf_consts n_def del: upt_Suc)
  moreover have "jf_copy_row cv input n out' = Inl (Undefined ''memcpy out of range'')"
    using start [of n] assms(2) out'(2) by (simp add: jf_copy_row_def jf_consts memcpy_def n_def)
  ultimately show ?thesis using out'(1) by (simp add: jf_copy_raw_data_def forE_append)
qed

theorem jf_edge_module_undefined_witness:
  "\<exists>cv. (jf_Converter_ctor (jf_config 1) 0 :: unit jf_Converter res) = Inr cv \<and>
    jf_copy_raw_data cv (replicate 524288 7) (replicate 524288 0) = Inl (Undefined ''memcpy out of range'')"
  using jf_config_ctor [of 1] jf_edge_module_undefined [of _ "replicate 524288 7" "replicate 524288 0"] by simp

end
