(* ===== verification/ModuleSync.thy ===== *)
theory ModuleSync
  imports Ordered_Map ImageSize Stats
begin

text \<open>
  \<open>std-data-sync-module\<close>: the modules of one image arrive as separate frames, in any order and
  interleaved with other images; an image is handed on when every module of the mask has arrived.
  The class template is modelled for an arbitrary frame type \<open>'f\<close> with its accessor
  \<open>common\<close> (the \<open>meta.common\<close> of the source) as an argument; the mutex makes every
  operation atomic, so that the two threads are an interleaving of operations (\<open>sync_step\<close>).
\<close>

section \<open>The class \<open>Synchronizer\<close>\<close>

record 'f Synchronizer =
  sy_n_modules :: int
  sy_n_images_buffer :: u64
  sy_new_image_mask :: modules_mask
  sy_cache :: "(u64, modules_mask \<times> 'f) omap"

definition set_all :: "int \<Rightarrow> modules_mask res" where
  "set_all n =
     (if n < 0 then Inl (Undefined ''iota'')
      else forE (\<lambda>i m. mask_set i m) [0..<nat n] 0)"

definition Synchronizer_ctor :: "int \<Rightarrow> int \<Rightarrow> modules_mask \<Rightarrow> 'f Synchronizer res" where
  "Synchronizer_ctor n n_images_buffer mmask =
     bindE (if mmask = 0 then set_all n else Inr mmask) (\<lambda>new_image_mask.
     Inr \<lparr>sy_n_modules = n, sy_n_images_buffer = word_of_int n_images_buffer,
          sy_new_image_mask = new_image_mask, sy_cache = []\<rparr>)"

definition is_queue_too_long :: "'f Synchronizer \<Rightarrow> bool" where
  "is_queue_too_long s \<longleftrightarrow> length (sy_cache s) > unat (sy_n_images_buffer s)"

definition is_new_image :: "u64 \<Rightarrow> 'f Synchronizer \<Rightarrow> bool" where
  "is_new_image iid s \<longleftrightarrow> om_find (sy_cache s) iid = None"

text \<open>\<open>common.module_id\<close> is a \<open>uint16_t\<close>; the sum type of the result carries the number of
  corrupted images that the caller counts.\<close>

definition push_new_image_to_queue ::
  "('f \<Rightarrow> CommonFrame) \<Rightarrow> 'f \<Rightarrow> 'f Synchronizer \<Rightarrow> (nat \<times> 'f Synchronizer) res" where
  "push_new_image_to_queue common meta s =
     (let s1 = (if is_queue_too_long s then s\<lparr>sy_cache := om_erase_begin (sy_cache s)\<rparr> else s)
      in bindE (module_slot (ucast (module_id (common meta))) (sy_n_modules s)) (\<lambda>i.
         bindE (mask_reset i (sy_new_image_mask s)) (\<lambda>mmask.
         let s2 = s1\<lparr>sy_cache := om_emplace (image_id (common meta)) (mmask, meta) (sy_cache s1)\<rparr>
         in Inr (of_bool (is_queue_too_long s2), s2))))"

definition update_module_mask_for_image ::
  "u64 \<Rightarrow> u64 \<Rightarrow> 'f Synchronizer \<Rightarrow> (nat \<times> 'f Synchronizer) res" where
  "update_module_mask_for_image iid mid s =
     (case om_find (sy_cache s) iid of
        None \<Rightarrow> Inl (Undefined ''dereference of end()'')
      | Some (mmask, meta) \<Rightarrow>
          bindE (module_slot mid (sy_n_modules s)) (\<lambda>i.
          bindE (mask_test i mmask) (\<lambda>pending.
          if \<not> pending then Inr (1, s\<lparr>sy_cache := om_erase iid (sy_cache s)\<rparr>)
          else bindE (mask_reset i mmask) (\<lambda>mmask'.
               Inr (0, s\<lparr>sy_cache := om_assign iid (mmask', meta) (sy_cache s)\<rparr>)))))"

definition process_image_metadata ::
  "('f \<Rightarrow> CommonFrame) \<Rightarrow> 'f \<Rightarrow> 'f Synchronizer \<Rightarrow> (nat \<times> 'f Synchronizer) res" where
  "process_image_metadata common meta s =
     (if is_new_image (image_id (common meta)) s then push_new_image_to_queue common meta s
      else update_module_mask_for_image (image_id (common meta)) (ucast (module_id (common meta))) s)"

definition pop_next_full_image :: "'f Synchronizer \<Rightarrow> 'f option \<times> 'f Synchronizer" where
  "pop_next_full_image s =
     (case sy_cache s of
        [] \<Rightarrow> (None, s)
      | (_, mmask, meta) # _ \<Rightarrow>
          if mmask = 0 then (Some meta, s\<lparr>sy_cache := om_erase_begin (sy_cache s)\<rparr>) else (None, s))"

section \<open>\<open>module_sync.cpp\<close>\<close>

text \<open>The three specialisations of \<open>fill_detector_specific_data\<close>; a \<open>mutable_x()\<close> switches the
  \<open>oneof\<close> to the member \<open>x\<close> and keeps its other fields.\<close>

definition fill_gf :: "GFFrame \<Rightarrow> ImageMetadata \<Rightarrow> ImageMetadata" where
  "fill_gf frame meta = meta\<lparr>im_oneof := GfMeta ((im_gf meta)
     \<lparr>gfm_exposure_time := gf_exposure_time frame,
      gfm_frame_timestamp := gf_frame_timestamp frame,
      gfm_scan_id := gf_scan_id frame,
      gfm_scan_time := gf_scan_time frame,
      gfm_sync_time := gf_sync_time frame,
      gfm_store_image := (gf_do_not_store frame = 0)\<rparr>)\<rparr>"

definition fill_jf :: "JFFrame \<Rightarrow> ImageMetadata \<Rightarrow> ImageMetadata" where
  "fill_jf frame meta = meta\<lparr>im_oneof := JfMeta (jf_daq_rec frame)\<rparr>"

definition fill_eg :: "EGFrame \<Rightarrow> ImageMetadata \<Rightarrow> ImageMetadata" where
  "fill_eg _ meta = meta\<lparr>im_oneof := EgMeta 0\<rparr>"

text \<open>\<open>process_received_modules\<close>: one turn of the loop. A message of positive length is the
  frame in the receive buffer (\<open>Some\<close>); no message or an empty one only prints statistics.\<close>

definition process_received_modules_step ::
  "('f \<Rightarrow> CommonFrame) \<Rightarrow> rate_format \<Rightarrow> clock_reads \<Rightarrow> 'f option \<Rightarrow>
   'f Synchronizer \<times> SyncStatsCollector \<Rightarrow> ('f Synchronizer \<times> SyncStatsCollector \<times> string option) res" where
  "process_received_modules_step common fr ck msg st =
     (case st of (syncer, stats) \<Rightarrow>
        bindE (case msg of
                 None \<Rightarrow> Inr (syncer, stats)
               | Some frame \<Rightarrow>
                   bindE (process_image_metadata common frame syncer) (\<lambda>(n_corrupted, syncer').
                   Inr (syncer', sync_process (word_of_nat n_corrupted) stats)))
          (\<lambda>(syncer', stats1).
             case print_stats (sync_additional_message fr) ck stats1 of
               (log, stats2) \<Rightarrow> Inr (syncer', stats2, log)))"

text \<open>\<open>send_synchronized_images\<close>: the message set up before the loop, and one turn of it.
  The message object is reused, so it is part of the state.\<close>

definition sync_image_meta_init :: "DetectorConfig \<Rightarrow> ImageMetadata res" where
  "sync_image_meta_init config =
     bindE (get_metadata_dtype config) (\<lambda>dtype.
     bindE (converted_image_n_bytes config) (\<lambda>n.
     Inr (default_ImageMetadata
       \<lparr>im_dtype := dtype, im_height := word_of_int (image_pixel_height config),
        im_width := word_of_int (image_pixel_width config), im_size := n,
        im_compression := cmp_none\<rparr>)))"

definition send_synchronized_images_step ::
  "('f \<Rightarrow> CommonFrame) \<Rightarrow> ('f \<Rightarrow> ImageMetadata \<Rightarrow> ImageMetadata) \<Rightarrow>
   'f Synchronizer \<times> ImageMetadata \<Rightarrow> ('f Synchronizer \<times> ImageMetadata) \<times> ImageMetadata option" where
  "send_synchronized_images_step common fill st =
     (case st of (syncer, image_meta) \<Rightarrow>
        case pop_next_full_image syncer of
          (None, syncer') \<Rightarrow> ((syncer', image_meta), None)
        | (Some meta, syncer') \<Rightarrow>
            let m1 = image_meta\<lparr>im_image_id := image_id (common meta),
                  im_status := (if n_missing_packets (common meta) = 0
                                then st_good_image else st_missing_packets)\<rparr>;
                m2 = fill meta m1
            in ((syncer', m2), Some m2))"

section \<open>Well-formed states\<close>

definition slot_of :: "('f \<Rightarrow> CommonFrame) \<Rightarrow> 'f Synchronizer \<Rightarrow> 'f \<Rightarrow> nat" where
  "slot_of common s f = unat (module_id (common f)) mod nat (sy_n_modules s)"

definition sync_ok :: "('f \<Rightarrow> CommonFrame) \<Rightarrow> 'f Synchronizer \<Rightarrow> bool" where
  "sync_ok common s \<longleftrightarrow>
     0 < sy_n_modules s \<and> sy_n_modules s \<le> 128 \<and> om_sorted (sy_cache s) \<and>
     length (sy_cache s) \<le> Suc (unat (sy_n_images_buffer s)) \<and>
     (\<forall>iid mm f. (iid, mm, f) \<in> set (sy_cache s) \<longrightarrow> image_id (common f) = iid)"

lemma slot_of_cache [simp]: "slot_of common (s\<lparr>sy_cache := c\<rparr>) = slot_of common s"
  by (simp add: fun_eq_iff slot_of_def)

lemma slot_of_less: "sync_ok common s \<Longrightarrow> slot_of common s f < 128"
proof -
  assume "sync_ok common s"
  then have "0 < nat (sy_n_modules s)" "nat (sy_n_modules s) \<le> 128"
    by (auto simp: sync_ok_def)
  then show ?thesis
    unfolding slot_of_def by (metis mod_less_divisor order_less_le_trans)
qed

lemma module_slot_slot_of:
  "sync_ok common s \<Longrightarrow>
   module_slot (ucast (module_id (common f))) (sy_n_modules s) = Inr (slot_of common s f)"
  by (simp add: module_slot_ok sync_ok_def slot_of_def unat_ucast_up)

text \<open>What \<open>process_image_metadata\<close> does, case by case.\<close>

lemma process_new:
  assumes ok: "sync_ok common s" and new: "om_find (sy_cache s) (image_id (common f)) = None"
  defines "c \<equiv> (if is_queue_too_long s then tl (sy_cache s) else sy_cache s)"
  defines "s' \<equiv> s\<lparr>sy_cache := om_assign (image_id (common f))
             (unset_bit (slot_of common s f) (sy_new_image_mask s), f) c\<rparr>"
  shows "process_image_metadata common f s = Inr (of_bool (is_queue_too_long s'), s')"
proof -
  have "om_find (tl (sy_cache s)) (image_id (common f)) = None"
    using new by (cases "sy_cache s") (auto simp: om_find_def split: if_splits)
  then have "om_find c (image_id (common f)) = None" using new by (simp add: c_def)
  then show ?thesis
    using new slot_of_less [OF ok]
    by (cases "is_queue_too_long s") (simp_all add: process_image_metadata_def is_new_image_def push_new_image_to_queue_def
        module_slot_slot_of [OF ok] mask_reset_def om_emplace_def Let_def s'_def c_def
        om_erase_begin_def)
qed

lemma process_known:
  assumes ok: "sync_ok common s"
    and known: "om_find (sy_cache s) (image_id (common f)) = Some (mm, f0)"
  shows "process_image_metadata common f s =
    (if bit mm (slot_of common s f)
     then Inr (0, s\<lparr>sy_cache := om_assign (image_id (common f))
                 (unset_bit (slot_of common s f) mm, f0) (sy_cache s)\<rparr>)
     else Inr (1, s\<lparr>sy_cache := om_erase (image_id (common f)) (sy_cache s)\<rparr>))"
  using known slot_of_less [OF ok]
  by (simp add: process_image_metadata_def is_new_image_def update_module_mask_for_image_def
      module_slot_slot_of [OF ok] mask_reset_def mask_test_def)

lemma sync_ok_process:
  assumes ok: "sync_ok common s" and p: "process_image_metadata common f s = Inr (k, s')"
  shows "sync_ok common s'"
proof (cases "om_find (sy_cache s) (image_id (common f))")
  case None
  define c where "c = (if is_queue_too_long s then tl (sy_cache s) else sy_cache s)"
  have c: "om_sorted c" "length c \<le> unat (sy_n_images_buffer s)" "set c \<subseteq> set (sy_cache s)"
    using ok by (cases "sy_cache s"; auto simp: c_def sync_ok_def is_queue_too_long_def)+
  show ?thesis
    using process_new [OF ok None] p ok c
    by (auto simp: sync_ok_def c_def [symmetric] omap.invar_assign omap.size_assign in_om_assign
        split: if_splits)
next
  case (Some v)
  obtain mm f0 where v: "v = (mm, f0)" by (cases v)
  have f0: "image_id (common f0) = image_id (common f)"
    using ok Some v by (auto simp: sync_ok_def om_find_in)
  have le: "length (om_erase (image_id (common f)) (sy_cache s)) \<le> Suc (unat (sy_n_images_buffer s))"
    using ok length_erase_le [of "image_id (common f)" "sy_cache s"] by (simp add: sync_ok_def)
  show ?thesis
    using process_known [OF ok Some [unfolded v]] p ok f0 Some le
    by (auto simp: sync_ok_def omap.invar_assign omap.invar_erase omap.size_assign in_om_assign
        in_om_erase split: if_splits)
qed

lemma process_total:
  assumes ok: "sync_ok common s"
  obtains k s' where "process_image_metadata common f s = Inr (k, s')" "k \<le> 1"
proof (cases "om_find (sy_cache s) (image_id (common f))")
  case None
  then show ?thesis using process_new [OF ok None] that by simp
next
  case (Some v)
  then show ?thesis using process_known [OF ok, of f "fst v" "snd v"] that by (auto split: if_splits)
qed

lemma sync_ok_pop:
  assumes "sync_ok common s" and "pop_next_full_image s = (r, s')"
  shows "sync_ok common s'"
  using assms by (cases "sy_cache s")
    (auto simp: pop_next_full_image_def sync_ok_def om_erase_begin_def split: if_splits)

lemma process_keeps_config:
  assumes "sync_ok common s" and "process_image_metadata common f s = Inr (k, s')"
  shows "sy_n_modules s' = sy_n_modules s" "sy_new_image_mask s' = sy_new_image_mask s"
    "sy_n_images_buffer s' = sy_n_images_buffer s" "slot_of common s' = slot_of common s"
proof -
  have *: "sy_n_modules s' = sy_n_modules s \<and> sy_new_image_mask s' = sy_new_image_mask s \<and>
      sy_n_images_buffer s' = sy_n_images_buffer s"
  proof (cases "om_find (sy_cache s) (image_id (common f))")
    case None
    then show ?thesis using process_new [OF assms(1) None] assms(2) by auto
  next
    case (Some v)
    then show ?thesis using process_known [OF assms(1), of f "fst v" "snd v"] assms(2)
      by (auto split: if_splits)
  qed
  then show "sy_n_modules s' = sy_n_modules s" "sy_new_image_mask s' = sy_new_image_mask s"
    "sy_n_images_buffer s' = sy_n_images_buffer s" "slot_of common s' = slot_of common s"
    by (auto simp: slot_of_def fun_eq_iff)
qed

section \<open>The two threads as an interleaving\<close>

text \<open>
  Every operation holds the mutex, so a run of the two threads is a sequence of arrivals and
  pops. The second component of the state records, for every image id, the frames that were
  taken for its present entry of the cache; it is not part of the program.
\<close>

type_synonym 'f arrivals = "u64 \<Rightarrow> 'f list"

inductive sync_step ::
  "('f \<Rightarrow> CommonFrame) \<Rightarrow> 'f Synchronizer \<times> 'f arrivals \<Rightarrow> 'f Synchronizer \<times> 'f arrivals \<Rightarrow> bool"
  for common where
  arrive: "process_image_metadata common f s = Inr (k, s') \<Longrightarrow>
    sync_step common (s, h)
      (s', h(image_id (common f) :=
             (if is_new_image (image_id (common f)) s then [f] else h (image_id (common f)) @ [f])))"
| pop: "pop_next_full_image s = (r, s') \<Longrightarrow> sync_step common (s, h) (s', h)"

inductive_cases sync_stepE: "sync_step common (s, h) t"

text \<open>The frames \<open>fs\<close> of an image account for an entry of the cache: the first one is stored,
  no module occurs twice, and the mask has the modules that are still to come.\<close>

definition accounts ::
  "('f \<Rightarrow> CommonFrame) \<Rightarrow> 'f Synchronizer \<Rightarrow> u64 \<Rightarrow> 'f list \<Rightarrow> modules_mask \<Rightarrow> 'f \<Rightarrow> bool" where
  "accounts common s iid fs mm f \<longleftrightarrow>
     fs \<noteq> [] \<and> hd fs = f \<and> (\<forall>g \<in> set fs. image_id (common g) = iid) \<and>
     distinct (map (slot_of common s) fs) \<and>
     (\<forall>i. bit mm i \<longleftrightarrow> bit (sy_new_image_mask s) i \<and> i \<notin> slot_of common s ` set fs)"

definition traced :: "('f \<Rightarrow> CommonFrame) \<Rightarrow> 'f Synchronizer \<Rightarrow> 'f arrivals \<Rightarrow> bool" where
  "traced common s h \<longleftrightarrow>
     (\<forall>iid mm f. (iid, mm, f) \<in> set (sy_cache s) \<longrightarrow> accounts common s iid (h iid) mm f)"

lemma accounts_first:
  "accounts common s (image_id (common f)) [f]
     (unset_bit (slot_of common s f) (sy_new_image_mask s)) f"
  by (auto simp: accounts_def bit_unset_bit_iff)

lemma accounts_next:
  assumes "accounts common s iid fs mm f0" and "bit mm (slot_of common s f)"
    and "image_id (common f) = iid"
  shows "accounts common s iid (fs @ [f]) (unset_bit (slot_of common s f) mm) f0"
  using assms by (auto simp: accounts_def bit_unset_bit_iff)

lemma accounts_cong:
  assumes "slot_of common s' = slot_of common s" "sy_new_image_mask s' = sy_new_image_mask s"
  shows "accounts common s' = accounts common s"
  by (intro ext) (simp add: accounts_def assms)

lemma traced_arrive:
  assumes ok: "sync_ok common s" and tr: "traced common s h"
    and p: "process_image_metadata common f s = Inr (k, s')"
  shows "traced common s' (h(image_id (common f) :=
    (if is_new_image (image_id (common f)) s then [f] else h (image_id (common f)) @ [f])))"
proof (cases "om_find (sy_cache s) (image_id (common f))")
  case None
  define c where "c = (if is_queue_too_long s then tl (sy_cache s) else sy_cache s)"
  have c: "set c \<subseteq> set (sy_cache s)"
    by (cases "sy_cache s") (auto simp: c_def)
  have s': "sy_cache s' = om_assign (image_id (common f))
      (unset_bit (slot_of common s f) (sy_new_image_mask s), f) c"
    using process_new [OF ok None] p by (auto simp: c_def)
  show ?thesis
    using tr c None accounts_first [of common s f]
    by (auto simp: traced_def accounts_cong [OF process_keeps_config(4) [OF ok p] process_keeps_config(2) [OF ok p]] s'
        in_om_assign is_new_image_def split: if_splits)
next
  case (Some v)
  obtain mm f0 where v: "v = (mm, f0)" by (cases v)
  have old: "accounts common s (image_id (common f)) (h (image_id (common f))) mm f0"
    using tr ok Some v by (auto simp: traced_def sync_ok_def om_find_in)
  show ?thesis
    using tr Some v accounts_next [OF old _ refl] process_known [OF ok Some [unfolded v]] p
    by (auto simp: traced_def accounts_cong [OF process_keeps_config(4) [OF ok p] process_keeps_config(2) [OF ok p]]
        in_om_assign in_om_erase is_new_image_def split: if_splits)
qed

lemma traced_pop:
  assumes "traced common s h" and "pop_next_full_image s = (r, s')"
  shows "traced common s' h"
proof -
  have "set (sy_cache s') \<subseteq> set (sy_cache s)" "sy_n_modules s' = sy_n_modules s"
    "sy_new_image_mask s' = sy_new_image_mask s"
    using assms(2) by (cases "sy_cache s";
        auto simp: pop_next_full_image_def om_erase_begin_def split: if_splits)+
  moreover from this have "accounts common s' = accounts common s"
    by (intro accounts_cong ext) (simp_all add: slot_of_def)
  ultimately show ?thesis
    using assms(1) by (auto simp: traced_def)
qed

definition sync_init :: "('f \<Rightarrow> CommonFrame) \<Rightarrow> 'f Synchronizer \<times> 'f arrivals \<Rightarrow> bool" where
  "sync_init common t \<longleftrightarrow> sync_ok common (fst t) \<and> sy_cache (fst t) = []"

lemma sync_step_inv:
  assumes "sync_ok common (fst t) \<and> traced common (fst t) (snd t)" and "sync_step common t t'"
  shows "sync_ok common (fst t') \<and> traced common (fst t') (snd t')"
  using assms(2,1)
proof cases
  case (arrive f s k s' h)
  then show ?thesis
    using assms(1) sync_ok_process [OF _ arrive(3)] traced_arrive [OF _ _ arrive(3)] by simp
next
  case (pop s r s' h)
  then show ?thesis
    using assms(1) sync_ok_pop [OF _ pop(3)] traced_pop [OF _ pop(3)] by simp
qed

interpretation sync: transition_system "sync_init common" "sync_step common"
  "\<lambda>t. sync_ok common (fst t) \<and> traced common (fst t) (snd t)" for common :: "'f \<Rightarrow> CommonFrame"
proof unfold_locales
  fix t :: "'f Synchronizer \<times> 'f arrivals"
  assume "sync_init common t"
  then show "sync_ok common (fst t) \<and> traced common (fst t) (snd t)"
    by (simp add: sync_init_def traced_def)
qed (rule sync_step_inv)

lemma Synchronizer_ctor_ok:
  assumes "0 < n" and "n \<le> 128" and "Synchronizer_ctor n b mmask = Inr s"
  shows "sync_init common (s, h)"
  using assms by (auto simp: Synchronizer_ctor_def sync_init_def sync_ok_def bindE_eq_Inr)

section \<open>Properties\<close>


text \<open>C1. A popped image is complete: in every run of the two threads, the frames taken for the
  image are all of that image, none of its modules was taken twice, every module of the mask is
  among them, and the metadata handed on are those of the first frame; the image is the one
  with the least id in the cache and it is not popped twice.\<close>

theorem module_sync_pop_complete:
  assumes "0 < n" and "n \<le> 128" and "Synchronizer_ctor n b mmask = Inr s0"
    and "(sync_step common)\<^sup>*\<^sup>* (s0, h0) (s, h)"
    and "pop_next_full_image s = (Some f, s')"
  defines "iid \<equiv> image_id (common f)"
  shows "hd (h iid) = f \<and> (\<forall>g \<in> set (h iid). image_id (common g) = iid) \<and>
    distinct (map (slot_of common s) (h iid)) \<and>
    (\<forall>i. bit (sy_new_image_mask s) i \<longrightarrow> (\<exists>g \<in> set (h iid). slot_of common s g = i)) \<and>
    (\<forall>k \<in> fst ` set (sy_cache s). iid \<le> k) \<and> iid \<notin> fst ` set (sy_cache s')"
proof -
  have ok: "sync_ok common s" and tr: "traced common s h"
    using sync.inv_reachable [OF Synchronizer_ctor_ok [OF assms(1,2,3)] assms(4)] by simp_all
  obtain k c where c: "sy_cache s = (k, 0, f) # c" "s' = s\<lparr>sy_cache := c\<rparr>"
    using assms(5) by (cases "sy_cache s")
      (auto simp: pop_next_full_image_def om_erase_begin_def split: if_splits)
  have k: "k = iid" "\<forall>k' \<in> fst ` set c. k < k'"
    using ok c(1) by (auto simp: sync_ok_def iid_def)
  have "accounts common s iid (h iid) 0 f" using tr c(1) k(1) by (simp add: traced_def)
  then show ?thesis using c k by (auto simp: accounts_def)
qed

text \<open>All frames of a list are processed in turn; the corrupted images are added up.\<close>

definition process_all ::
  "('f \<Rightarrow> CommonFrame) \<Rightarrow> 'f list \<Rightarrow> 'f Synchronizer \<Rightarrow> (nat \<times> 'f Synchronizer) res" where
  "process_all common fs s =
     forE (\<lambda>f (k, s). bindE (process_image_metadata common f s) (\<lambda>(c, s'). Inr (k + c, s'))) fs (0, s)"

lemma process_rest:
  assumes "sync_ok common s" and "sy_cache s = (iid, mm, f0) # c"
    and "\<forall>f \<in> set fs. image_id (common f) = iid" and "distinct (map (slot_of common s) fs)"
    and "\<forall>f \<in> set fs. bit mm (slot_of common s f)"
  shows "\<exists>mm'. forE (\<lambda>f (k, s). bindE (process_image_metadata common f s) (\<lambda>(c, s'). Inr (k + c, s')))
      fs (k, s) = Inr (k, s\<lparr>sy_cache := (iid, mm', f0) # c\<rparr>) \<and>
    (\<forall>i. bit mm' i \<longleftrightarrow> bit mm i \<and> i \<notin> slot_of common s ` set fs)"
  using assms
proof (induction fs arbitrary: s mm)
  case Nil
  then show ?case by (intro exI [of _ mm]) simp
next
  case (Cons f fs)
  define i where "i = slot_of common s f"
  define s1 where "s1 = s\<lparr>sy_cache := (iid, unset_bit i mm, f0) # c\<rparr>"
  have least: "\<forall>k' \<in> fst ` set c. iid < k'"
    using Cons.prems(1,2) by (auto simp: sync_ok_def)
  have known: "om_find (sy_cache s) (image_id (common f)) = Some (mm, f0)"
    using Cons.prems(2,3) by (simp add: om_find_Cons)
  have p: "process_image_metadata common f s = Inr (0, s1)"
    using process_known [OF Cons.prems(1) known] Cons.prems(2,3,5) least
    by (simp add: i_def s1_def om_assign_head)
  have slots: "slot_of common s1 = slot_of common s" by (simp add: s1_def)
  obtain mm' where mm': "forE (\<lambda>f (k, s). bindE (process_image_metadata common f s)
        (\<lambda>(c, s'). Inr (k + c, s'))) fs (k, s1) = Inr (k, s1\<lparr>sy_cache := (iid, mm', f0) # c\<rparr>)"
      "\<forall>j. bit mm' j \<longleftrightarrow> bit (unset_bit i mm) j \<and> j \<notin> slot_of common s1 ` set fs"
    using Cons.IH [of s1 "unset_bit i mm"] sync_ok_process [OF Cons.prems(1) p] Cons.prems(3-5)
    by (auto simp: s1_def i_def bit_unset_bit_iff)
  show ?case
    using mm' by (intro exI [of _ mm']) (auto simp: p s1_def bit_unset_bit_iff i_def)
qed

text \<open>C14. An image of which every module of the mask arrives exactly once is delivered: if there
  is room in the cache and no older image is waiting, processing its frames in any order
  reports no corruption, and the next turn of the sending loop publishes exactly one message,
  with the id of the image, with the status and the detector data of the first frame, and
  leaves the synchronizer as it was before the image.\<close>

theorem module_sync_delivers:
  assumes "sync_ok common s" and "fs \<noteq> []" and "\<forall>f \<in> set fs. image_id (common f) = iid"
    and "\<forall>k \<in> fst ` set (sy_cache s). iid < k"
    and "length (sy_cache s) < unat (sy_n_images_buffer s)"
    and "distinct (map (slot_of common s) fs)"
    and "\<forall>i. bit (sy_new_image_mask s) i \<longleftrightarrow> i \<in> slot_of common s ` set fs"
    and m_def: "m = fill (hd fs) (image_meta\<lparr>im_image_id := iid,
      im_status := (if n_missing_packets (common (hd fs)) = 0 then st_good_image
                    else st_missing_packets)\<rparr>)"
  shows "\<exists>s'. process_all common fs s = Inr (0, s') \<and>
    send_synchronized_images_step common fill (s', image_meta) = ((s, m), Some m)"
proof -
  obtain f gs where fs: "fs = f # gs" using assms(2) by (cases fs) auto
  define mm where "mm = unset_bit (slot_of common s f) (sy_new_image_mask s)"
  define s1 where "s1 = s\<lparr>sy_cache := (iid, mm, f) # sy_cache s\<rparr>"
  have f: "image_id (common f) = iid" using assms(3) fs by simp
  have "om_find (sy_cache s) (image_id (common f)) = None"
    using assms(4) f by (auto simp: om_find_None_notin)
  from process_new [OF assms(1) this] have p: "process_image_metadata common f s = Inr (0, s1)"
    using assms(4,5) f by (simp add: is_queue_too_long_def om_assign_least s1_def mm_def)
  have slots: "slot_of common s1 = slot_of common s" by (simp add: s1_def)
  have pending: "\<forall>g \<in> set gs. bit mm (slot_of common s g)"
    using assms(6,7) fs by (auto simp: mm_def bit_unset_bit_iff)
  obtain mm' where mm': "forE (\<lambda>f (k, s). bindE (process_image_metadata common f s)
        (\<lambda>(c, s'). Inr (k + c, s'))) gs (0, s1) = Inr (0, s1\<lparr>sy_cache := (iid, mm', f) # sy_cache s\<rparr>)"
      "\<forall>i. bit mm' i \<longleftrightarrow> bit mm i \<and> i \<notin> slot_of common s1 ` set gs"
    using process_rest [OF sync_ok_process [OF assms(1) p], of iid mm f "sy_cache s" gs 0]
      assms(3,6) fs pending by (auto simp: s1_def)
  have "mm' = 0"
    using mm'(2) assms(7) fs by (intro bit_eqI) (auto simp: slots mm_def bit_unset_bit_iff)
  then show ?thesis
    using mm'(1) p fs f by (simp add: process_all_def s1_def send_synchronized_images_step_def
        pop_next_full_image_def om_erase_begin_def m_def Let_def)
qed

text \<open>C27. A module that arrives twice drops its image: in every reachable state, a frame whose
  module was already taken for the cached image removes the image and counts one corruption.\<close>

theorem module_sync_duplicate:
  assumes "0 < n" and "n \<le> 128" and "Synchronizer_ctor n b mmask = Inr s0"
    and "(sync_step common)\<^sup>*\<^sup>* (s0, h0) (s, h)"
    and "image_id (common f) \<in> fst ` set (sy_cache s)"
    and "slot_of common s f \<in> slot_of common s ` set (h (image_id (common f)))"
  shows "\<exists>s'. process_image_metadata common f s = Inr (1, s') \<and>
    om_find (sy_cache s') = (om_find (sy_cache s))(image_id (common f) := None)"
proof -
  have ok: "sync_ok common s" and tr: "traced common s h"
    using sync.inv_reachable [OF Synchronizer_ctor_ok [OF assms(1,2,3)] assms(4)] by simp_all
  obtain mm f0 where e: "(image_id (common f), mm, f0) \<in> set (sy_cache s)"
    using assms(5) by auto
  then have known: "om_find (sy_cache s) (image_id (common f)) = Some (mm, f0)"
    using ok by (simp add: sync_ok_def om_find_in)
  have "\<not> bit mm (slot_of common s f)"
    using tr e assms(6) by (auto simp: traced_def accounts_def)
  then show ?thesis
    using process_known [OF ok known] ok by (simp add: sync_ok_def omap.find_erase)
qed

section \<open>Examples\<close>

text \<open>The fixture of the unit tests: two modules and a queue of three images.\<close>

definition ex_frame :: "u64 \<Rightarrow> u16 \<Rightarrow> u64 \<Rightarrow> EGFrame" where
  "ex_frame iid mid missing =
     \<lparr>eg_common = \<lparr>image_id = iid, n_missing_packets = missing, module_id = mid\<rparr>,
      eg_bit_depth = 16, eg_pos_y = 0, eg_pos_x = 0\<rparr>"

definition ex_sync :: "(u64, modules_mask \<times> EGFrame) omap \<Rightarrow> EGFrame Synchronizer" where
  "ex_sync c = \<lparr>sy_n_modules = 2, sy_n_images_buffer = 3, sy_new_image_mask = 3, sy_cache = c\<rparr>"

lemma ex_sync_ctor: "Synchronizer_ctor 2 3 0 = Inr (ex_sync [])"
  by code_simp

lemma ex_first: "process_image_metadata eg_common (ex_frame 1 0 0) (ex_sync []) =
  Inr (0, ex_sync [(1, 2, ex_frame 1 0 0)])"
  by code_simp

lemma ex_second: "process_image_metadata eg_common (ex_frame 1 1 7) (ex_sync [(1, 2, ex_frame 1 0 0)]) =
  Inr (0, ex_sync [(1, 0, ex_frame 1 0 0)])"
  by code_simp

lemma ex_pop: "pop_next_full_image (ex_sync [(1, 0, ex_frame 1 0 0)]) =
  (Some (ex_frame 1 0 0), ex_sync [])"
  by code_simp

lemma ex_slot [simp]:
  "slot_of eg_common (ex_sync c) (ex_frame i m k) = unat m mod 2"
  by (simp add: ex_frame_def ex_sync_def slot_of_def)

lemma ex_frame_id [simp]: "image_id (eg_common (ex_frame i m k)) = i"
  by (simp add: ex_frame_def)

lemma ex_cache [simp]: "sy_cache (ex_sync c) = c"
  by (simp add: ex_sync_def)

lemma ex_mask: "bit (3 :: modules_mask) i \<longleftrightarrow> i < 2"
proof -
  have "(3 :: modules_mask) = mask 2" by (simp add: mask_numeral)
  then show ?thesis by (simp only: bit_mask_iff) auto
qed

lemma ex_run:
  "\<exists>h. (sync_step eg_common)\<^sup>*\<^sup>* (ex_sync [], \<lambda>_. []) (ex_sync [(1, 0, ex_frame 1 0 0)], h) \<and>
       h 1 = [ex_frame 1 0 0, ex_frame 1 1 7]"
proof -
  have n1: "is_new_image 1 (ex_sync [])" "\<not> is_new_image 1 (ex_sync [(1, 2, ex_frame 1 0 0)])"
    by (simp_all add: is_new_image_def ex_sync_def om_find_Cons)
  note step1 = sync_step.arrive [OF ex_first, of "\<lambda>_. []", unfolded ex_frame_id, simplified n1 if_True]
  note step2 = sync_step.arrive [OF ex_second, of "(\<lambda>_. [])(1 := [ex_frame 1 0 0])",
      unfolded ex_frame_id, simplified n1 if_False]
  have "(sync_step eg_common)\<^sup>*\<^sup>* (ex_sync [], \<lambda>_. []) (ex_sync [(1, 0, ex_frame 1 0 0)],
      ((\<lambda>_. [])(1 := [ex_frame 1 0 0]))(1 := [ex_frame 1 0 0, ex_frame 1 1 7]))"
    using rtranclp.rtrancl_into_rtrancl [OF r_into_rtranclp, of "sync_step eg_common", OF step1 step2]
    by simp
  then show ?thesis by (intro exI) (rule conjI, assumption, simp)
qed


theorem module_sync_pop_complete_witness:
  "\<exists>h. (sync_step eg_common)\<^sup>*\<^sup>* (ex_sync [], \<lambda>_. []) (ex_sync [(1, 0, ex_frame 1 0 0)], h) \<and>
    hd (h 1) = ex_frame 1 0 0 \<and>
    distinct (map (slot_of eg_common (ex_sync [(1, 0, ex_frame 1 0 0)])) (h 1))"
proof -
  obtain h where h: "(sync_step eg_common)\<^sup>*\<^sup>* (ex_sync [], \<lambda>_. []) (ex_sync [(1, 0, ex_frame 1 0 0)], h)"
    using ex_run by blast
  show ?thesis
    using module_sync_pop_complete [OF _ _ ex_sync_ctor h ex_pop] h
    by (intro exI [of _ h]) simp
qed

theorem module_sync_delivers_witness:
  "\<exists>s' m. process_all eg_common [ex_frame 1 0 0, ex_frame 1 1 7] (ex_sync []) = Inr (0, s') \<and>
    send_synchronized_images_step eg_common fill_eg (s', default_ImageMetadata) =
      ((ex_sync [], m), Some m) \<and> im_image_id m = 1"
proof -
  have ok: "sync_ok eg_common (ex_sync [])" "sy_cache (ex_sync []) = []"
    "sy_n_images_buffer (ex_sync []) = 3" "sy_new_image_mask (ex_sync []) = 3"
    by (simp_all add: ex_sync_def sync_ok_def)
  have bits: "\<forall>i. bit (sy_new_image_mask (ex_sync [])) i \<longleftrightarrow>
      i \<in> slot_of eg_common (ex_sync []) ` set [ex_frame 1 0 0, ex_frame 1 1 7]"
    by (simp only: ok ex_mask) auto
  show ?thesis
    using module_sync_delivers [of eg_common "ex_sync []" "[ex_frame 1 0 0, ex_frame 1 1 7]" 1
        _ fill_eg default_ImageMetadata, OF ok(1) _ _ _ _ _ bits refl]
    by (auto simp: ok fill_eg_def)
qed

theorem module_sync_duplicate_witness:
  "\<exists>s'. process_image_metadata eg_common (ex_frame 1 1 0) (ex_sync [(1, 0, ex_frame 1 0 0)]) = Inr (1, s') \<and>
    om_find (sy_cache s') 1 = None"
proof -
  obtain h where h: "(sync_step eg_common)\<^sup>*\<^sup>* (ex_sync [], \<lambda>_. []) (ex_sync [(1, 0, ex_frame 1 0 0)], h)"
    "h 1 = [ex_frame 1 0 0, ex_frame 1 1 7]"
    using ex_run by blast
  show ?thesis
    using module_sync_duplicate [OF _ _ ex_sync_ctor h(1), of "ex_frame 1 1 0"] h(2)
    by auto
qed

text \<open>The status of the published image ignores the packets that later modules lost: the
  second module of the example misses seven packets and the image is published as good.\<close>

theorem module_sync_status_first_module_only:
  "\<exists>s' m. process_all eg_common [ex_frame 1 0 0, ex_frame 1 1 7] (ex_sync []) = Inr (0, s') \<and>
    n_missing_packets (eg_common (ex_frame 1 1 7)) = 7 \<and>
    snd (send_synchronized_images_step eg_common fill_eg (s', default_ImageMetadata)) = Some m \<and>
    im_image_id m = 1 \<and> im_status m = st_good_image"
proof -
  have "process_all eg_common [ex_frame 1 0 0, ex_frame 1 1 7] (ex_sync []) =
      Inr (0, ex_sync [(1, 0, ex_frame 1 0 0)])"
    by (simp add: process_all_def ex_first ex_second)
  then show ?thesis
    by (simp add: send_synchronized_images_step_def ex_pop Let_def fill_eg_def) (simp add: ex_frame_def)
qed

end
