(* ===== verification/StreamSync.thy ===== *)
theory StreamSync
  imports ImageSize Stats
begin

text \<open>
  \<open>std-data-sync-stream\<close>: the parts of an image are received by several stream receivers; an
  image is complete at the arrival of its last part, and everything that was queued before it
  is then discarded. The detailed state is the deque of ids and the hash table of counters;
  the specification is one queue of ids with their counters, and the operation of the code is
  shown to be the operation of the specification.
\<close>

section \<open>The class \<open>Synchronizer\<close>\<close>

record StreamSynchronizer =
  ss_n_parts :: u64
  ss_n_images_buffer :: u64
  ss_image_id_queue :: "u64 list"
  ss_meta_cache :: "u64 \<rightharpoonup> u64"

record ImageAndSync =
  ias_image_id :: u64
  ias_n_corrupted_images :: u32

definition StreamSynchronizer_ctor :: "int \<Rightarrow> int \<Rightarrow> StreamSynchronizer" where
  "StreamSynchronizer_ctor parts n_images_buffer =
     \<lparr>ss_n_parts = word_of_int parts, ss_n_images_buffer = word_of_int n_images_buffer,
      ss_image_id_queue = [], ss_meta_cache = Map.empty\<rparr>"

definition ss_get_queue_length :: "StreamSynchronizer \<Rightarrow> nat" where
  "ss_get_queue_length s = length (ss_image_id_queue s)"

definition ss_is_new_image :: "u64 \<Rightarrow> StreamSynchronizer \<Rightarrow> bool" where
  "ss_is_new_image iid s \<longleftrightarrow> ss_meta_cache s iid = None"

definition ss_is_queue_too_long :: "StreamSynchronizer \<Rightarrow> bool" where
  "ss_is_queue_too_long s \<longleftrightarrow> length (ss_image_id_queue s) > unat (ss_n_images_buffer s)"

definition drop_oldest_incomplete_image :: "StreamSynchronizer \<Rightarrow> StreamSynchronizer res" where
  "drop_oldest_incomplete_image s =
     (case ss_image_id_queue s of
        [] \<Rightarrow> Inl (Undefined ''front of an empty deque'')
      | iid # q \<Rightarrow> Inr (s\<lparr>ss_image_id_queue := q, ss_meta_cache := (ss_meta_cache s)(iid := None)\<rparr>))"

definition ss_push_new_image_to_queue :: "u64 \<Rightarrow> StreamSynchronizer \<Rightarrow> (u64 \<times> StreamSynchronizer) res" where
  "ss_push_new_image_to_queue iid s =
     (let s1 = s\<lparr>ss_image_id_queue := ss_image_id_queue s @ [iid],
                 ss_meta_cache := (ss_meta_cache s)(iid \<mapsto> 0)\<rparr>
      in if ss_is_queue_too_long s1
         then bindE (drop_oldest_incomplete_image s1) (\<lambda>s2. Inr (1, s2))
         else Inr (0, s1))"

text \<open>The loop of \<open>discard_stale_images\<close>; the counter is a \<open>uint32_t\<close>.\<close>

fun discard_loop :: "u64 \<Rightarrow> u64 list \<Rightarrow> (u64 \<rightharpoonup> u64) \<Rightarrow> u32 \<Rightarrow> u32 \<times> u64 list \<times> (u64 \<rightharpoonup> u64)" where
  "discard_loop iid [] c n = (n, [], c)"
| "discard_loop iid (x # q) c n =
     (if x \<noteq> iid then discard_loop iid q (c(x := None)) (n + 1) else (n, x # q, c))"

definition discard_stale_images :: "u64 \<Rightarrow> StreamSynchronizer \<Rightarrow> u32 \<times> StreamSynchronizer" where
  "discard_stale_images iid s =
     (case discard_loop iid (ss_image_id_queue s) (ss_meta_cache s) 0 of
        (n, q, c) \<Rightarrow> (n, s\<lparr>ss_image_id_queue := q, ss_meta_cache := c\<rparr>))"

definition get_full_image :: "u64 \<Rightarrow> StreamSynchronizer \<Rightarrow> (ImageAndSync \<times> StreamSynchronizer) res" where
  "get_full_image iid s =
     (case discard_stale_images iid s of (n_corrupted, s1) \<Rightarrow>
        if ss_image_id_queue s1 = [] then Inl (RuntimeError ''No images to return. Impossible?!'')
        else Inr (\<lparr>ias_image_id = iid, ias_n_corrupted_images = n_corrupted\<rparr>,
                  s1\<lparr>ss_image_id_queue := tl (ss_image_id_queue s1),
                     ss_meta_cache := (ss_meta_cache s1)(iid := None)\<rparr>))"

definition ss_process_image_metadata ::
  "u64 \<Rightarrow> StreamSynchronizer \<Rightarrow> (ImageAndSync \<times> StreamSynchronizer) res" where
  "ss_process_image_metadata iid s =
     bindE (if ss_is_new_image iid s
            then bindE (ss_push_new_image_to_queue iid s) (\<lambda>(k, s1). Inr (ucast k :: u32, s1))
            else Inr (0, s)) (\<lambda>(n_corrupted, s1).
     case ss_meta_cache s1 iid of
       None \<Rightarrow> Inl (Undefined ''dereference of end()'')
     | Some count \<Rightarrow>
         let s2 = s1\<lparr>ss_meta_cache := (ss_meta_cache s1)(iid \<mapsto> count + 1)\<rparr>
         in if count + 1 = ss_n_parts s2 then get_full_image iid s2
            else Inr (\<lparr>ias_image_id = INVALID_IMAGE_ID, ias_n_corrupted_images = n_corrupted\<rparr>, s2))"

section \<open>\<open>stream_sync.cpp\<close>\<close>

text \<open>The service does nothing when the senders send full images.\<close>

definition stream_sync_start :: "DetectorConfig \<Rightarrow> StreamSynchronizer option res" where
  "stream_sync_start config =
     (if sender_sends_full_images config then Inr None
      else bindE (number_of_senders config) (\<lambda>n.
           Inr (Some (StreamSynchronizer_ctor (sint (ucast n :: u32)) 1000))))"

text \<open>One turn of the loop. \<open>parse\<close> stands for \<open>ParseFromArray\<close> and \<open>image_id()\<close>; the
  buffer that was received is sent on unchanged when an image is complete.\<close>

definition stream_sync_turn ::
  "(byte list \<Rightarrow> u64) \<Rightarrow> rate_format \<Rightarrow> clock_reads \<Rightarrow> byte list \<Rightarrow>
   StreamSynchronizer \<times> QueueStatsCollector \<Rightarrow>
   (byte list option \<times> StreamSynchronizer \<times> QueueStatsCollector) res" where
  "stream_sync_turn parse fr ck msg st =
     (case st of (syncer, stats) \<Rightarrow>
        bindE (if msg = [] then Inr (None, syncer, stats)
               else bindE (ss_process_image_metadata (parse msg) syncer) (\<lambda>(r, syncer').
                 let complete = (ias_image_id r \<noteq> INVALID_IMAGE_ID);
                     stats1 = (if complete then sync_process (ias_n_corrupted_images r) stats else stats);
                     stats2 = update_queue_length (word_of_nat (ss_get_queue_length syncer')) stats1
                 in Inr (if complete then Some msg else None, syncer', stats2)))
          (\<lambda>(out, syncer', stats').
             Inr (out, syncer', snd (print_stats (queue_additional_message fr) ck stats'))))"

section \<open>The specification\<close>

text \<open>A queue of incomplete images, oldest first, with the number of parts that arrived.\<close>

type_synonym part_queue = "(u64 \<times> u64) list"

definition spec_enter :: "nat \<Rightarrow> u64 \<Rightarrow> part_queue \<Rightarrow> u32 \<times> part_queue" where
  "spec_enter b iid q =
     (if iid \<in> fst ` set q then (0, q)
      else if length q < b then (0, q @ [(iid, 0)])
      else (1, tl q @ [(iid, 0)]))"

definition spec_count :: "u64 \<Rightarrow> part_queue \<Rightarrow> part_queue" where
  "spec_count iid q = map (\<lambda>(k, c). (k, if k = iid then c + 1 else c)) q"

definition spec_arrive :: "nat \<Rightarrow> u64 \<Rightarrow> u64 \<Rightarrow> part_queue \<Rightarrow> ImageAndSync \<times> part_queue" where
  "spec_arrive b n iid q =
     (let (dropped, q1) = spec_enter b iid q; q2 = spec_count iid q1;
          older = takeWhile (\<lambda>p. fst p \<noteq> iid) q2; rest = dropWhile (\<lambda>p. fst p \<noteq> iid) q2
      in if map_of q2 iid = Some n
         then (\<lparr>ias_image_id = iid, ias_n_corrupted_images = word_of_nat (length older)\<rparr>, tl rest)
         else (\<lparr>ias_image_id = INVALID_IMAGE_ID, ias_n_corrupted_images = dropped\<rparr>, q2))"

definition ss_abs :: "StreamSynchronizer \<Rightarrow> part_queue" where
  "ss_abs s = map (\<lambda>iid. (iid, the (ss_meta_cache s iid))) (ss_image_id_queue s)"

definition ss_inv :: "StreamSynchronizer \<Rightarrow> bool" where
  "ss_inv s \<longleftrightarrow>
     0 < unat (ss_n_images_buffer s) \<and> distinct (ss_image_id_queue s) \<and>
     length (ss_image_id_queue s) \<le> unat (ss_n_images_buffer s) \<and>
     (\<forall>iid. ss_meta_cache s iid \<noteq> None \<longleftrightarrow> iid \<in> set (ss_image_id_queue s))"

section \<open>The code implements the specification\<close>

lemma discard_loop_eq:
  "discard_loop iid q c n =
     (n + word_of_nat (length (takeWhile (\<lambda>x. x \<noteq> iid) q)), dropWhile (\<lambda>x. x \<noteq> iid) q,
      \<lambda>x. if x \<in> set (takeWhile (\<lambda>x. x \<noteq> iid) q) then None else c x)"
proof (induction q arbitrary: c n)
  case Nil
  then show ?case by simp
next
  case (Cons x q)
  then show ?case by (auto simp: ac_simps)
qed

lemma fst_ss_abs: "map fst (ss_abs s) = ss_image_id_queue s"
  by (simp add: ss_abs_def comp_def)

lemma ss_inv_mem: "ss_inv s \<Longrightarrow> iid \<in> set (ss_image_id_queue s) \<longleftrightarrow> ss_meta_cache s iid \<noteq> None"
  unfolding ss_inv_def by blast

lemma fst_set_ss_abs: "fst ` set (ss_abs s) = set (ss_image_id_queue s)"
  by (metis fst_ss_abs list.set_map)

lemma map_of_ss_abs: "ss_inv s \<Longrightarrow> map_of (ss_abs s) iid = ss_meta_cache s iid"
  by (cases "ss_meta_cache s iid")
    (auto simp: ss_abs_def map_of_map_restrict restrict_map_def ss_inv_def dest: spec [of _ iid])

text \<open>Entering the queue.\<close>

lemma ss_enter_ok:
  assumes inv: "ss_inv s"
  shows "\<exists>k s1. (if ss_is_new_image iid s
      then bindE (ss_push_new_image_to_queue iid s) (\<lambda>(k, s1). Inr (ucast k :: u32, s1))
      else Inr (0, s)) = Inr (k, s1) \<and>
    spec_enter (unat (ss_n_images_buffer s)) iid (ss_abs s) = (k, ss_abs s1) \<and> ss_inv s1 \<and>
    iid \<in> set (ss_image_id_queue s1) \<and> ss_n_parts s1 = ss_n_parts s \<and>
    ss_n_images_buffer s1 = ss_n_images_buffer s"
proof (cases "ss_is_new_image iid s")
  case False
  then have "iid \<in> set (ss_image_id_queue s)"
    using inv by (auto simp: ss_is_new_image_def ss_inv_def)
  then show ?thesis
    using False inv by (auto simp: spec_enter_def fst_set_ss_abs)
next
  case True
  then have new: "iid \<notin> set (ss_image_id_queue s)"
    using ss_inv_mem [OF inv] by (simp add: ss_is_new_image_def)
  have map_new: "map (\<lambda>x. (x, the (((ss_meta_cache s)(iid \<mapsto> 0)) x))) (ss_image_id_queue s) = ss_abs s"
    using new by (auto simp: ss_abs_def)
  show ?thesis
  proof (cases "length (ss_image_id_queue s) < unat (ss_n_images_buffer s)")
    case True
    then show ?thesis
      using inv new \<open>ss_is_new_image iid s\<close> map_new
      by (auto simp: ss_push_new_image_to_queue_def ss_is_queue_too_long_def Let_def spec_enter_def
          fst_set_ss_abs ss_abs_def ss_inv_def)
  next
    case False
    then obtain x q where q: "ss_image_id_queue s = x # q"
      using inv by (cases "ss_image_id_queue s") (auto simp: ss_inv_def)
    have x: "x \<noteq> iid" "x \<notin> set q" using inv new q by (auto simp: ss_inv_def)
    show ?thesis
      using False inv new \<open>ss_is_new_image iid s\<close> q x
      by (auto simp: ss_push_new_image_to_queue_def ss_is_queue_too_long_def Let_def spec_enter_def
          drop_oldest_incomplete_image_def ss_abs_def ss_inv_def)
  qed
qed

text \<open>Counting a part.\<close>

lemma ss_count_abs:
  assumes "ss_inv s" and "ss_meta_cache s iid = Some c"
  shows "ss_abs (s\<lparr>ss_meta_cache := (ss_meta_cache s)(iid \<mapsto> c + 1)\<rparr>) = spec_count iid (ss_abs s)"
    and "ss_inv (s\<lparr>ss_meta_cache := (ss_meta_cache s)(iid \<mapsto> c + 1)\<rparr>)"
  using assms ss_inv_mem [OF assms(1)] by (auto simp: ss_abs_def spec_count_def ss_inv_def)

text \<open>Completing an image.\<close>

lemma get_full_image_spec:
  assumes inv: "ss_inv s" and mem: "iid \<in> set (ss_image_id_queue s)"
  defines "q \<equiv> ss_abs s"
  shows "\<exists>s'. get_full_image iid s =
      Inr (\<lparr>ias_image_id = iid,
            ias_n_corrupted_images = word_of_nat (length (takeWhile (\<lambda>p. fst p \<noteq> iid) q))\<rparr>, s') \<and>
    ss_abs s' = tl (dropWhile (\<lambda>p. fst p \<noteq> iid) q) \<and> ss_inv s' \<and>
    ss_n_parts s' = ss_n_parts s \<and> ss_n_images_buffer s' = ss_n_images_buffer s"
proof -
  obtain xs ys where split: "ss_image_id_queue s = xs @ iid # ys" "iid \<notin> set xs"
    using split_list_first [OF mem] by blast
  have ys: "iid \<notin> set ys" "set xs \<inter> set ys = {}" "distinct ys"
    using inv split by (auto simp: ss_inv_def)
  have nx: "\<forall>x \<in> set xs. x \<noteq> iid" using split(2) by auto
  have tw: "takeWhile (\<lambda>x. x \<noteq> iid) (ss_image_id_queue s) = xs"
    "dropWhile (\<lambda>x. x \<noteq> iid) (ss_image_id_queue s) = iid # ys"
    using split takeWhile_neq [of xs "\<lambda>x. x" iid iid ys, OF nx refl] by simp_all
  have q: "takeWhile (\<lambda>p. fst p \<noteq> iid) q = map (\<lambda>x. (x, the (ss_meta_cache s x))) xs"
    "dropWhile (\<lambda>p. fst p \<noteq> iid) q =
       (iid, the (ss_meta_cache s iid)) # map (\<lambda>x. (x, the (ss_meta_cache s x))) ys"
    using split nx by (simp_all add: q_def ss_abs_def takeWhile_neq)
  define c where "c = (\<lambda>x. if x \<in> set xs then None else ss_meta_cache s x)"
  have "discard_stale_images iid s =
      (word_of_nat (length xs), s\<lparr>ss_image_id_queue := iid # ys, ss_meta_cache := c\<rparr>)"
    by (simp add: discard_stale_images_def discard_loop_eq tw c_def)
  then have full: "get_full_image iid s =
      Inr (\<lparr>ias_image_id = iid, ias_n_corrupted_images = word_of_nat (length xs)\<rparr>,
           s\<lparr>ss_image_id_queue := ys, ss_meta_cache := c(iid := None)\<rparr>)"
    by (simp add: get_full_image_def)
  have "ss_inv (s\<lparr>ss_image_id_queue := ys, ss_meta_cache := c(iid := None)\<rparr>)"
    using inv ys ss_inv_mem [OF inv] by (auto simp: ss_inv_def c_def split(1))
  moreover have "ss_abs (s\<lparr>ss_image_id_queue := ys, ss_meta_cache := c(iid := None)\<rparr>) =
      map (\<lambda>x. (x, the (ss_meta_cache s x))) ys"
    using ys by (auto simp: ss_abs_def c_def)
  ultimately show ?thesis
    using full by (simp add: q)
qed

lemma ss_process_spec:
  assumes inv: "ss_inv s"
  obtains r s' where "ss_process_image_metadata iid s = Inr (r, s')" "ss_inv s'"
    "spec_arrive (unat (ss_n_images_buffer s)) (ss_n_parts s) iid (ss_abs s) = (r, ss_abs s')"
    "ss_n_parts s' = ss_n_parts s" "ss_n_images_buffer s' = ss_n_images_buffer s"
proof -
  obtain k s1 where s1: "(if ss_is_new_image iid s
      then bindE (ss_push_new_image_to_queue iid s) (\<lambda>(k, s1). Inr (ucast k :: u32, s1))
      else Inr (0, s)) = Inr (k, s1)"
    "spec_enter (unat (ss_n_images_buffer s)) iid (ss_abs s) = (k, ss_abs s1)" "ss_inv s1"
    "iid \<in> set (ss_image_id_queue s1)" "ss_n_parts s1 = ss_n_parts s"
    "ss_n_images_buffer s1 = ss_n_images_buffer s"
    using ss_enter_ok [OF inv, of iid] by blast
  obtain c where c: "ss_meta_cache s1 iid = Some c" using ss_inv_mem [OF s1(3)] s1(4) by auto
  define s2 where "s2 = s1\<lparr>ss_meta_cache := (ss_meta_cache s1)(iid \<mapsto> c + 1)\<rparr>"
  have "ss_inv s2" using ss_count_abs(2) [OF s1(3) c] by (simp add: s2_def)
  then have s2: "ss_abs s2 = spec_count iid (ss_abs s1)" "ss_inv s2"
    "map_of (ss_abs s2) iid = Some (c + 1)" "iid \<in> set (ss_image_id_queue s2)" "ss_n_parts s2 = ss_n_parts s1"
    "ss_n_images_buffer s2 = ss_n_images_buffer s1"
    using ss_count_abs(1) [OF s1(3) c] s1(4) map_of_ss_abs [of s2 iid] by (simp_all add: s2_def)
  have proc: "ss_process_image_metadata iid s =
      (if c + 1 = ss_n_parts s then get_full_image iid s2
       else Inr (\<lparr>ias_image_id = INVALID_IMAGE_ID, ias_n_corrupted_images = k\<rparr>, s2))"
    unfolding ss_process_image_metadata_def s1(1) using c s1(5) by (simp add: Let_def s2_def)
  have spec: "spec_arrive (unat (ss_n_images_buffer s)) (ss_n_parts s) iid (ss_abs s) =
      (if c + 1 = ss_n_parts s
       then (\<lparr>ias_image_id = iid, ias_n_corrupted_images =
                word_of_nat (length (takeWhile (\<lambda>p. fst p \<noteq> iid) (ss_abs s2)))\<rparr>,
             tl (dropWhile (\<lambda>p. fst p \<noteq> iid) (ss_abs s2)))
       else (\<lparr>ias_image_id = INVALID_IMAGE_ID, ias_n_corrupted_images = k\<rparr>, ss_abs s2))"
    unfolding spec_arrive_def s1(2) using s2(3) by (simp add: Let_def s2(1) [symmetric])
  show ?thesis
  proof (cases "c + 1 = ss_n_parts s")
    case True
    obtain s' where "get_full_image iid s2 = Inr (\<lparr>ias_image_id = iid, ias_n_corrupted_images =
        word_of_nat (length (takeWhile (\<lambda>p. fst p \<noteq> iid) (ss_abs s2)))\<rparr>, s')"
      "ss_abs s' = tl (dropWhile (\<lambda>p. fst p \<noteq> iid) (ss_abs s2))" "ss_inv s'"
      "ss_n_parts s' = ss_n_parts s2" "ss_n_images_buffer s' = ss_n_images_buffer s2"
      using get_full_image_spec [OF s2(2,4)] by blast
    then show ?thesis
      using True s1(5,6) s2(5,6) by (intro that [of _ s']) (simp_all add: proc spec)
  next
    case False
    then show ?thesis
      using s1(5,6) s2 by (intro that [of _ s2]) (simp_all add: proc spec)
  qed
qed

section \<open>Properties\<close>

definition ss_init :: "StreamSynchronizer \<Rightarrow> bool" where
  "ss_init s \<longleftrightarrow> 0 < unat (ss_n_images_buffer s) \<and> ss_image_id_queue s = [] \<and>
     ss_meta_cache s = Map.empty"

inductive ss_step :: "StreamSynchronizer \<Rightarrow> StreamSynchronizer \<Rightarrow> bool" where
  part: "ss_process_image_metadata iid s = Inr (r, s') \<Longrightarrow> ss_step s s'"

inductive_simps ss_step_iff: "ss_step s s'"

interpretation ss: transition_system ss_init ss_step ss_inv
proof unfold_locales
  show "ss_init s \<Longrightarrow> ss_inv s" for s by (simp add: ss_init_def ss_inv_def)
  show "ss_inv s \<Longrightarrow> ss_step s t \<Longrightarrow> ss_inv t" for s t
    unfolding ss_step_iff by (metis Inr_inject prod.inject ss_process_spec)
qed

lemma StreamSynchronizer_ctor_init: "ss_init (StreamSynchronizer_ctor n 1000)"
  by (simp add: ss_init_def StreamSynchronizer_ctor_def)

lemma map_of_spec_count: "map_of (spec_count iid q) iid = map_option (\<lambda>c. c + 1) (map_of q iid)"
  by (induction q) (auto simp: spec_count_def)

lemma fst_spec_count: "map fst (spec_count iid q) = map fst q"
  by (auto simp: spec_count_def)

text \<open>C22. The stream synchronizer never throws ("Impossible?!" is impossible), never dereferences
  a missing entry, and holds at most 1000 images, in every state that parts arriving in any
  order can reach.\<close>

theorem stream_sync_safe:
  assumes "ss_step\<^sup>*\<^sup>* (StreamSynchronizer_ctor n 1000) s"
  shows "is_ok (ss_process_image_metadata iid s) \<and> ss_get_queue_length s \<le> unat (ss_n_images_buffer s) \<and>
    distinct (ss_image_id_queue s) \<and> dom (ss_meta_cache s) = set (ss_image_id_queue s)"
proof -
  have inv: "ss_inv s" by (rule ss.inv_reachable [OF StreamSynchronizer_ctor_init assms])
  obtain r s' where "ss_process_image_metadata iid s = Inr (r, s')" by (rule ss_process_spec [OF inv])
  then show ?thesis
    using inv ss_inv_mem [OF inv] by (auto simp: ss_inv_def ss_get_queue_length_def)
qed

text \<open>C8. The deque and the hash table implement the queue of the specification: in every
  reachable state an arrival returns and leaves what the specification says, in which the last
  part of an image returns its id, counts the older images as corrupted and removes both.\<close>

theorem stream_sync_refines:
  assumes "ss_step\<^sup>*\<^sup>* (StreamSynchronizer_ctor n 1000) s"
  shows "\<exists>r s'. ss_process_image_metadata iid s = Inr (r, s') \<and>
    spec_arrive (unat (ss_n_images_buffer s)) (ss_n_parts s) iid (ss_abs s) = (r, ss_abs s')"
  using ss_process_spec [OF ss.inv_reachable [OF StreamSynchronizer_ctor_init assms]] by metis

text \<open>Parts of one image in a row: the first \<open>n - 1\<close> of them return nothing, the last one the image.\<close>

lemma ss_example_run:
  "ss_step\<^sup>*\<^sup>* (StreamSynchronizer_ctor 2 1000)
     ((StreamSynchronizer_ctor 2 1000)\<lparr>ss_image_id_queue := [7], ss_meta_cache := [7 \<mapsto> 1]\<rparr>)"
  by (rule r_into_rtranclp)
    (auto simp: ss_step_iff ss_process_image_metadata_def StreamSynchronizer_ctor_def
      ss_is_new_image_def ss_push_new_image_to_queue_def ss_is_queue_too_long_def Let_def
      intro!: exI [of _ 7])

theorem stream_sync_safe_witness:
  "is_ok (ss_process_image_metadata 7
     ((StreamSynchronizer_ctor 2 1000)\<lparr>ss_image_id_queue := [7], ss_meta_cache := [7 \<mapsto> 1]\<rparr>))"
  using stream_sync_safe [OF ss_example_run] by blast

theorem stream_sync_refines_witness:
  "\<exists>s'. ss_process_image_metadata 7
     ((StreamSynchronizer_ctor 2 1000)\<lparr>ss_image_id_queue := [7], ss_meta_cache := [7 \<mapsto> 1]\<rparr>) =
     Inr (\<lparr>ias_image_id = 7, ias_n_corrupted_images = 0\<rparr>, s') \<and> ss_abs s' = []"
proof -
  have "spec_arrive 1000 2 7 [(7, 1)] = (\<lparr>ias_image_id = 7, ias_n_corrupted_images = 0\<rparr>, [])"
    by code_simp
  then show ?thesis
    using stream_sync_refines [OF ss_example_run, of 7]
    by (simp add: StreamSynchronizer_ctor_def ss_abs_def)
qed

text \<open>Images that are dropped because the queue is full are never counted: the arrival that
  drops one completes no image, and the service calls the statistics for complete images only.\<close>

theorem stream_sync_overflow_not_counted:
  assumes "ss_inv s" and "length (ss_image_id_queue s) = unat (ss_n_images_buffer s)"
    and "iid \<notin> set (ss_image_id_queue s)" and "ss_n_parts s \<noteq> 1" and "parse msg = iid" and "msg \<noteq> []"
  shows "\<exists>s' r. ss_process_image_metadata iid s = Inr (r, s') \<and> ias_n_corrupted_images r = 1 \<and>
    ss_image_id_queue s' = tl (ss_image_id_queue s) @ [iid] \<and>
    (\<exists>stats'. stream_sync_turn parse fr ck msg (s, stats) = Inr (None, s', stats') \<and>
       n_corrupted_images stats' \<in> {n_corrupted_images stats, 0})"
proof -
  define q where "q = tl (ss_abs s) @ [(iid, 0)]"
  have enter: "spec_enter (unat (ss_n_images_buffer s)) iid (ss_abs s) = (1, q)"
    using assms(2,3) by (simp add: spec_enter_def fst_set_ss_abs q_def) (simp add: ss_abs_def)
  have "iid \<notin> fst ` set (tl (ss_abs s))"
    using assms(3) fst_set_ss_abs [of s] by (cases "ss_abs s") auto
  then have "map_of (tl (ss_abs s)) iid = None" by (simp add: map_of_eq_None_iff)
  then have "map_of q iid = Some 0" by (simp add: q_def map_add_def)
  then have spec: "spec_arrive (unat (ss_n_images_buffer s)) (ss_n_parts s) iid (ss_abs s) =
      (\<lparr>ias_image_id = INVALID_IMAGE_ID, ias_n_corrupted_images = 1\<rparr>, spec_count iid q)"
    using assms(4) by (simp add: spec_arrive_def enter map_of_spec_count)
  obtain r s' where p: "ss_process_image_metadata iid s = Inr (r, s')"
    "spec_arrive (unat (ss_n_images_buffer s)) (ss_n_parts s) iid (ss_abs s) = (r, ss_abs s')"
    by (rule ss_process_spec [OF assms(1)])
  have r: "r = \<lparr>ias_image_id = INVALID_IMAGE_ID, ias_n_corrupted_images = 1\<rparr>"
    and "map fst (ss_abs s') = map fst (spec_count iid q)"
    using spec p(2) by auto
  then have queue: "ss_image_id_queue s' = tl (ss_image_id_queue s) @ [iid]"
    by (simp add: fst_ss_abs fst_spec_count q_def map_tl)
  show ?thesis
    using p(1) r queue assms(5,6)
    by (auto simp: stream_sync_turn_def Let_def print_stats_def queue_additional_message_def
        sync_additional_message_def update_queue_length_def split: prod.splits)
qed

theorem stream_sync_overflow_not_counted_witness:
  "\<exists>s' r. ss_process_image_metadata 8 ((StreamSynchronizer_ctor 2 1)
       \<lparr>ss_image_id_queue := [7], ss_meta_cache := [7 \<mapsto> 1]\<rparr>) = Inr (r, s') \<and>
     ias_n_corrupted_images r = 1 \<and> ss_image_id_queue s' = [8]"
proof -
  have "ss_inv ((StreamSynchronizer_ctor 2 1)\<lparr>ss_image_id_queue := [7], ss_meta_cache := [7 \<mapsto> 1]\<rparr>)"
    by (simp add: StreamSynchronizer_ctor_def ss_inv_def)
  from stream_sync_overflow_not_counted [OF this, of 8 "\<lambda>_. 8" "[1]" undefined undefined undefined]
  show ?thesis by (auto simp: StreamSynchronizer_ctor_def)
qed

end
