(* ===== verification/MetadataSync.thy ===== *)
theory MetadataSync
  imports Ordered_Map Formats Stats
begin

text \<open>
  \<open>std-data-sync-metadata\<close>: image metadata come from one stream, the ids of the images that
  were received from another; an image is handed on when both are there, oldest first.
  \<open>std::map\<close> and \<open>std::set\<close> are ordered maps; the three threads are an interleaving of the
  operations of the class.
\<close>

section \<open>The class \<open>Synchronizer\<close>\<close>

record MetadataSynchronizer =
  mds_n_images_buffer :: u64
  mds_received_images :: "(u64, unit) omap"
  mds_metadata_cache :: "(u64, ImageMetadata) omap"

definition MetadataSynchronizer_ctor :: "u64 \<Rightarrow> MetadataSynchronizer" where
  "MetadataSynchronizer_ctor n =
     \<lparr>mds_n_images_buffer = n, mds_received_images = [], mds_metadata_cache = []\<rparr>"

definition add_metadata :: "ImageMetadata \<Rightarrow> MetadataSynchronizer \<Rightarrow> bool \<times> MetadataSynchronizer" where
  "add_metadata metadata s =
     (let cache = om_assign (im_image_id metadata) metadata (mds_metadata_cache s)
      in if length cache > unat (mds_n_images_buffer s)
         then (True, s\<lparr>mds_metadata_cache := om_erase_begin cache\<rparr>)
         else (False, s\<lparr>mds_metadata_cache := cache\<rparr>))"

text \<open>\<open>metadata_cache.begin()->first\<close> is undefined on an empty cache. The ids below the oldest
  metadata are erased. The function holds \<open>mutex_images\<close> only: \<open>add_metadata\<close> can run between the insertion and the
  reading of the oldest metadata, but it does not look at the received images, so that the order of
  insertion and \<open>add_metadata\<close> makes no difference and the step stands at the reading. The reading itself is
  not synchronized with \<open>add_metadata\<close>; that it sees a whole map is an assumption of the model.\<close>

definition add_received_image :: "u64 \<Rightarrow> MetadataSynchronizer \<Rightarrow> MetadataSynchronizer res" where
  "add_received_image iid s =
     (let received = om_emplace iid () (mds_received_images s)
      in case mds_metadata_cache s of
           [] \<Rightarrow> Inl (Undefined ''dereference of end()'')
         | (oldest, _) # _ \<Rightarrow>
             Inr (s\<lparr>mds_received_images := dropWhile (\<lambda>p. fst p < oldest) received\<rparr>))"

definition get_next_received_image ::
  "MetadataSynchronizer \<Rightarrow> ImageMetadata option \<times> MetadataSynchronizer" where
  "get_next_received_image s =
     (case (mds_metadata_cache s, mds_received_images s) of
        ((k, data) # _, (r, _) # _) \<Rightarrow>
          if k = r
          then (Some data, s\<lparr>mds_metadata_cache := om_erase_begin (mds_metadata_cache s),
                             mds_received_images := om_erase_begin (mds_received_images s)\<rparr>)
          else (None, s)
      | _ \<Rightarrow> (None, s))"

definition mds_get_queue_length :: "MetadataSynchronizer \<Rightarrow> nat" where
  "mds_get_queue_length s = length (mds_metadata_cache s)"

section \<open>The threads of \<open>metadata_sync.cpp\<close>\<close>

definition process_incoming_metadata_step ::
  "(byte list \<Rightarrow> ImageMetadata) \<Rightarrow> rate_format \<Rightarrow> clock_reads \<Rightarrow> byte list \<Rightarrow>
   MetadataSynchronizer \<times> QueueStatsCollector \<Rightarrow> MetadataSynchronizer \<times> QueueStatsCollector" where
  "process_incoming_metadata_step parse fr ck msg st =
     (case st of (syncer, stats) \<Rightarrow>
        let (syncer', stats') =
          (if msg = [] then (syncer, stats)
           else let (dropped, syncer1) = add_metadata (parse msg) syncer;
                    stats1 = sync_process (of_bool dropped) stats
                in (syncer1,
                    update_queue_length (word_of_nat (mds_get_queue_length syncer1)) stats1))
        in (syncer', snd (print_stats (queue_additional_message fr) ck stats')))"

definition process_incoming_image_step ::
  "(byte list \<Rightarrow> ImageMetadata) \<Rightarrow> byte list \<Rightarrow> MetadataSynchronizer \<Rightarrow> MetadataSynchronizer res" where
  "process_incoming_image_step parse msg syncer =
     (if msg = [] then Inr syncer else add_received_image (im_image_id (parse msg)) syncer)"

definition send_synchronized_metadata_step ::
  "(ImageMetadata \<Rightarrow> byte list) \<Rightarrow> MetadataSynchronizer \<Rightarrow> byte list option \<times> MetadataSynchronizer" where
  "send_synchronized_metadata_step serialize syncer =
     (case get_next_received_image syncer of (m, syncer') \<Rightarrow> (map_option serialize m, syncer'))"

section \<open>Invariant\<close>

definition mds_inv :: "MetadataSynchronizer \<Rightarrow> bool" where
  "mds_inv s \<longleftrightarrow> om_sorted (mds_metadata_cache s) \<and> om_sorted (mds_received_images s) \<and>
     length (mds_metadata_cache s) \<le> unat (mds_n_images_buffer s) \<and>
     (\<forall>k m. (k, m) \<in> set (mds_metadata_cache s) \<longrightarrow> im_image_id m = k)"

lemma om_sorted_dropWhile: "om_sorted m \<Longrightarrow> om_sorted (dropWhile P m)"
  by (induction m) auto

lemma mds_inv_ctor: "mds_inv (MetadataSynchronizer_ctor n)"
  by (simp add: mds_inv_def MetadataSynchronizer_ctor_def)

lemma mds_inv_add_metadata:
  assumes inv: "mds_inv s"
  shows "mds_inv (snd (add_metadata m s))"
proof -
  define c where "c = om_assign (im_image_id m) m (mds_metadata_cache s)"
  have s: "om_sorted c" using inv by (simp add: c_def mds_inv_def om_sorted_assign)
  have l: "length c \<le> Suc (unat (mds_n_images_buffer s))"
    using inv by (auto simp: c_def mds_inv_def omap.size_assign)
  have k: "(k, x) \<in> set c \<Longrightarrow> im_image_id x = k" for k x
    using inv by (auto simp: c_def mds_inv_def in_om_assign split: if_splits)
  show ?thesis
    using inv s l k
    by (cases c) (auto simp: add_metadata_def c_def [symmetric] mds_inv_def om_erase_begin_def Let_def)
qed

lemma mds_inv_add_received:
  assumes "mds_inv s" and "add_received_image iid s = Inr s'"
  shows "mds_inv s'"
  using assms by (auto simp: add_received_image_def mds_inv_def Let_def om_sorted_dropWhile
      om_sorted_emplace split: list.splits)

lemma mds_inv_get_next:
  assumes "mds_inv s"
  shows "mds_inv (snd (get_next_received_image s))"
  using assms by (auto simp: get_next_received_image_def mds_inv_def om_erase_begin_def
      split: list.splits prod.splits)

datatype mds_op = Metadata ImageMetadata | Received u64 | Next

fun mds_exec :: "mds_op \<Rightarrow> MetadataSynchronizer \<Rightarrow> (ImageMetadata option \<times> MetadataSynchronizer) res" where
  "mds_exec (Metadata m) s = Inr (None, snd (add_metadata m s))"
| "mds_exec (Received iid) s = bindE (add_received_image iid s) (\<lambda>s'. Inr (None, s'))"
| "mds_exec Next s = Inr (get_next_received_image s)"

definition mds_run :: "mds_op list \<Rightarrow> MetadataSynchronizer \<Rightarrow> MetadataSynchronizer res" where
  "mds_run ops s = forE (\<lambda>op s. bindE (mds_exec op s) (\<lambda>(out, s'). Inr s')) ops s"

inductive mds_step :: "MetadataSynchronizer \<Rightarrow> MetadataSynchronizer \<Rightarrow> bool" where
  "mds_exec op s = Inr (out, s') \<Longrightarrow> mds_step s s'"

inductive_cases mds_stepE: "mds_step s s'"

lemma mds_exec_inv: "mds_inv s \<Longrightarrow> mds_exec op s = Inr (out, s') \<Longrightarrow> mds_inv s'"
  using mds_inv_add_metadata mds_inv_get_next [of s]
  by (cases op) (auto simp: bindE_eq_Inr intro: mds_inv_add_received)

interpretation mds: transition_system "\<lambda>s. s = MetadataSynchronizer_ctor n" mds_step mds_inv for n
  by unfold_locales (auto simp: mds_inv_ctor elim!: mds_stepE intro: mds_exec_inv)

section \<open>Properties\<close>

text \<open>C23. Whatever the order in which the three threads run, an image that is handed on has both
  its metadata and its arrival, it is the oldest of both, both are consumed, and the cache of
  metadata stays within its limit.\<close>

theorem metadata_sync_matches:
  assumes "mds_step\<^sup>*\<^sup>* (MetadataSynchronizer_ctor n) s"
    and "get_next_received_image s = (Some m, s')"
  shows "om_find (mds_metadata_cache s) (im_image_id m) = Some m \<and>
    om_find (mds_received_images s) (im_image_id m) = Some () \<and>
    (\<forall>k \<in> fst ` set (mds_metadata_cache s). im_image_id m \<le> k) \<and>
    (\<forall>k \<in> fst ` set (mds_received_images s). im_image_id m \<le> k) \<and>
    im_image_id m \<notin> fst ` set (mds_metadata_cache s') \<and>
    im_image_id m \<notin> fst ` set (mds_received_images s') \<and>
    mds_get_queue_length s \<le> unat (mds_n_images_buffer s)"
proof -
  have inv: "mds_inv s" by (rule mds.inv_reachable [OF refl assms(1)])
  obtain k c u r where e: "mds_metadata_cache s = (k, m) # c" "mds_received_images s = (k, u) # r"
    "s' = s\<lparr>mds_metadata_cache := c, mds_received_images := r\<rparr>"
    using assms(2) by (auto simp: get_next_received_image_def om_erase_begin_def
        split: list.splits if_splits)
  have "im_image_id m = k" using inv e(1) by (simp add: mds_inv_def)
  then show ?thesis
    using inv e by (auto simp: mds_inv_def mds_get_queue_length_def om_find_Cons)
qed

text \<open>C24. An image that arrives while its metadata are the oldest in the cache is handed on by the
  next turn of the sending thread, and nothing older than the oldest metadata is kept.\<close>

theorem metadata_sync_delivers:
  assumes "mds_inv s" and "mds_metadata_cache s = (k, m) # c"
  shows "\<exists>s'. add_received_image k s = Inr s' \<and> fst (get_next_received_image s') = Some m \<and>
    (\<forall>r \<in> fst ` set (mds_received_images s'). k \<le> r)"
proof -
  define r where "r = om_emplace k () (mds_received_images s)"
  have r: "om_sorted r" "om_find r k = Some ()"
    using assms(1) by (auto simp: r_def mds_inv_def om_sorted_assign om_emplace_def
        omap.find_assign)
  define f where "f = filter (\<lambda>p. k \<le> fst p) r"
  have dw: "dropWhile (\<lambda>p. fst p < k) r = f"
    using r(1) unfolding f_def
    by (induction r) (auto simp: not_less intro!: filter_True [symmetric] dest: order_le_less_trans)
  have f: "(k, ()) \<in> set f" "\<forall>p \<in> set f. k \<le> fst p" "om_sorted f"
    using r by (simp_all add: f_def om_find_in om_sorted_filter)
  then obtain a f' where f': "f = (a, ()) # f'" by (cases f) auto
  then have "a = k" using f by auto
  then have "dropWhile (\<lambda>p. fst p < k) r = (k, ()) # f'" "\<forall>x \<in> fst ` set f'. k \<le> x"
    using dw f f' by auto
  then show ?thesis
    by (auto simp: add_received_image_def assms(2) r_def [symmetric] Let_def get_next_received_image_def)
qed

text \<open>An image that arrives before any metadata, or right after the last metadata were
  consumed, makes \<open>add_received_image\<close> read the first element of an empty map.\<close>

theorem metadata_sync_early_image_undefined:
  assumes "0 < n"
  shows "mds_run [Received iid] (MetadataSynchronizer_ctor n) = Inl (Undefined ''dereference of end()'') \<and>
    is_ok (mds_run [Metadata m, Received (im_image_id m), Next] (MetadataSynchronizer_ctor n)) \<and>
    mds_run [Metadata m, Received (im_image_id m), Next, Received iid] (MetadataSynchronizer_ctor n) =
      Inl (Undefined ''dereference of end()'')"
proof -
  have n: "\<not> unat n < Suc 0" using assms by (simp add: word_less_nat_alt)
  show ?thesis
    using n by (simp add: mds_run_def MetadataSynchronizer_ctor_def add_received_image_def
        add_metadata_def get_next_received_image_def om_assign_def om_emplace_def om_erase_begin_def)
qed

definition ex_metadata :: "u64 \<Rightarrow> ImageMetadata" where
  "ex_metadata k = default_ImageMetadata\<lparr>im_image_id := k\<rparr>"

definition ex_mds :: MetadataSynchronizer where
  "ex_mds = \<lparr>mds_n_images_buffer = 10000, mds_received_images = [(4, ())],
     mds_metadata_cache = [(4, ex_metadata 4)]\<rparr>"

lemma ex_mds_reachable: "mds_step\<^sup>*\<^sup>* (MetadataSynchronizer_ctor 10000) ex_mds"
proof -
  define s1 where "s1 = (MetadataSynchronizer_ctor 10000)\<lparr>mds_metadata_cache := [(4, ex_metadata 4)]\<rparr>"
  have "mds_step (MetadataSynchronizer_ctor 10000) s1"
    by (rule mds_step.intros [of "Metadata (ex_metadata 4)" _ None])
      (simp add: s1_def add_metadata_def om_assign_def MetadataSynchronizer_ctor_def ex_metadata_def)
  moreover have "mds_step s1 ex_mds"
    by (rule mds_step.intros [of "Received 4" _ None])
      (simp add: s1_def add_received_image_def om_emplace_def om_assign_def ex_mds_def
        MetadataSynchronizer_ctor_def)
  ultimately show ?thesis by (meson converse_rtranclp_into_rtranclp r_into_rtranclp)
qed

theorem metadata_sync_matches_witness:
  "om_find (mds_received_images ex_mds) 4 = Some () \<and>
   om_find (mds_metadata_cache ex_mds) 4 = Some (ex_metadata 4)"
  using metadata_sync_matches [OF ex_mds_reachable, of "ex_metadata 4"
      "ex_mds\<lparr>mds_metadata_cache := [], mds_received_images := []\<rparr>"]
  by (simp add: get_next_received_image_def ex_mds_def om_erase_begin_def ex_metadata_def)

theorem metadata_sync_delivers_witness:
  "\<exists>s'. add_received_image 4 ex_mds = Inr s' \<and> fst (get_next_received_image s') = Some (ex_metadata 4)"
  using metadata_sync_delivers [of ex_mds 4 "ex_metadata 4" "[]"]
  by (auto simp: ex_mds_def mds_inv_def ex_metadata_def)

theorem metadata_sync_early_image_undefined_witness:
  "mds_run [Metadata (ex_metadata 4), Received 4, Next, Received 5] (MetadataSynchronizer_ctor 10000) =
     Inl (Undefined ''dereference of end()'')"
  using metadata_sync_early_image_undefined [of 10000 5 "ex_metadata 4"]
  by (simp add: ex_metadata_def)

end
