(* ===== verification/DelayFilter.thy ===== *)
theory DelayFilter
  imports ImageSize Stats
begin

text \<open>
  \<open>std-delay-filter\<close>: metadata are held back for a while in a ring of slots and published one
  per arrival, when the oldest is older than the period or the ring is full.
  The ring with its two indices is shown to implement a bounded first-in first-out queue.
\<close>

section \<open>The class \<open>meta_buffer\<close>\<close>

definition min_history_needed_for_operation :: u64 where
  "min_history_needed_for_operation = 998"

text \<open>Times are readings of the steady clock in nanoseconds, the period is in seconds.\<close>

record 'a meta_buffer =
  mb_period :: int
  mb_buffer :: "(int \<times> 'a) list"
  mb_begin :: nat
  mb_end :: nat

definition meta_buffer_ctor :: "'a \<Rightarrow> u64 \<Rightarrow> int \<Rightarrow> 'a meta_buffer" where
  "meta_buffer_ctor dflt slots period =
     \<lparr>mb_period = period,
      mb_buffer = replicate (unat (slots - min_history_needed_for_operation)) (0, dflt),
      mb_begin = 0, mb_end = 0\<rparr>"

definition increment :: "'a meta_buffer \<Rightarrow> nat \<Rightarrow> nat" where
  "increment b index = (index + 1) mod length (mb_buffer b)"

definition mb_push :: "int \<Rightarrow> 'a \<Rightarrow> 'a meta_buffer \<Rightarrow> 'a meta_buffer res" where
  "mb_push now meta b =
     (if mb_end b < length (mb_buffer b)
      then Inr (b\<lparr>mb_buffer := (mb_buffer b)[mb_end b := (now, meta)],
                  mb_end := increment b (mb_end b)\<rparr>)
      else Inl (Undefined ''vector index''))"

text \<open>The popped element is moved from; its slot keeps an unspecified value that is not read
  again before it is overwritten. The model leaves it unchanged.\<close>

definition mb_pop :: "int \<Rightarrow> 'a meta_buffer \<Rightarrow> ('a option \<times> 'a meta_buffer) res" where
  "mb_pop now b =
     (let index = mb_begin b
      in if index \<ge> length (mb_buffer b) then Inl (Undefined ''vector index'')
         else if index = mb_end b \<or> mb_period b * 1000000000 < now - fst (mb_buffer b ! index)
         then Inr (Some (snd (mb_buffer b ! index)), b\<lparr>mb_begin := increment b (mb_begin b)\<rparr>)
         else Inr (None, b))"

section \<open>The loop of \<open>main\<close>\<close>

definition delay_filter_start :: "'a \<Rightarrow> DetectorConfig \<Rightarrow> 'a meta_buffer res" where
  "delay_filter_start dflt config =
     bindE (slots_number config) (\<lambda>slots.
     Inr (meta_buffer_ctor dflt slots (delay_filter_timeout config)))"

text \<open>A message arrived: \<open>t1\<close> and \<open>t2\<close> are the clock readings of \<open>push\<close> and \<open>pop\<close>.\<close>

definition delay_turn :: "int \<Rightarrow> int \<Rightarrow> 'a \<Rightarrow> 'a meta_buffer \<Rightarrow> ('a option \<times> 'a meta_buffer) res" where
  "delay_turn t1 t2 meta b = bindE (mb_push t1 meta b) (mb_pop t2)"

definition delay_filter_step ::
  "rate_format \<Rightarrow> clock_reads \<Rightarrow> int \<Rightarrow> int \<Rightarrow> 'a option \<Rightarrow> 'a meta_buffer \<times> TimedStatsCollector \<Rightarrow>
   ('a option \<times> 'a meta_buffer \<times> TimedStatsCollector) res" where
  "delay_filter_step fr ck t1 t2 msg st =
     (case st of (b, stats) \<Rightarrow>
        bindE (case msg of
                 None \<Rightarrow> Inr (None, b, stats)
               | Some meta \<Rightarrow> bindE (delay_turn t1 t2 meta b) (\<lambda>(out, b').
                   Inr (out, b', timed_process stats)))
          (\<lambda>(out, b', stats').
             Inr (out, b', snd (print_stats (timed_additional_message fr) ck stats'))))"

section \<open>The specification: a bounded queue\<close>

definition fifo_turn :: "nat \<Rightarrow> int \<Rightarrow> int \<Rightarrow> int \<Rightarrow> 'a \<Rightarrow> (int \<times> 'a) list \<Rightarrow> 'a option \<times> (int \<times> 'a) list" where
  "fifo_turn capacity period t1 t2 x q =
     (let q' = q @ [(t1, x)]
      in if length q' = capacity \<or> period * 1000000000 < t2 - fst (hd q')
         then (Some (snd (hd q')), tl q')
         else (None, q'))"

text \<open>The ring \<open>b\<close> holds the queue \<open>q\<close>.\<close>

definition holds :: "'a meta_buffer \<Rightarrow> (int \<times> 'a) list \<Rightarrow> bool" where
  "holds b q \<longleftrightarrow>
     (let n = length (mb_buffer b)
      in length q < n \<and> mb_begin b < n \<and> mb_end b = (mb_begin b + length q) mod n \<and>
         (\<forall>i < length q. mb_buffer b ! ((mb_begin b + i) mod n) = q ! i))"

lemma mod_inj_le:
  fixes a n :: nat
  assumes "i \<le> j" and "j < n" and "(a + i) mod n = (a + j) mod n"
  shows "i = j"
proof -
  have "n dvd (a + j) - (a + i)"
    using assms by (metis mod_eq_dvd_iff_nat add_le_cancel_left)
  then have "n dvd j - i" by simp
  then have "j - i = 0" using assms(2) dvd_imp_le [of n "j - i"] by (cases "j - i = 0") auto
  then show ?thesis using assms(1) by simp
qed

lemma mod_inj:
  fixes a n :: nat
  assumes "i < n" and "j < n" and "(a + i) mod n = (a + j) mod n"
  shows "i = j"
  using assms mod_inj_le [of i j n a] mod_inj_le [of j i n a] by (cases "i \<le> j") auto

lemma holds_ctor:
  "0 < unat (slots - min_history_needed_for_operation) \<Longrightarrow> holds (meta_buffer_ctor e slots p) []"
  by (simp add: holds_def meta_buffer_ctor_def)

lemma mb_push_holds:
  fixes t :: int and x :: 'a and b :: "'a meta_buffer"
  assumes h: "holds b q"
  defines "n \<equiv> length (mb_buffer b)" and "q' \<equiv> q @ [(t, x)]"
  obtains b' where "mb_push t x b = Inr b'" "length (mb_buffer b') = n" "mb_begin b' = mb_begin b"
    "mb_period b' = mb_period b" "mb_end b' = (mb_begin b + length q') mod n"
    "\<forall>i < length q'. mb_buffer b' ! ((mb_begin b + i) mod n) = q' ! i"
proof -
  have n: "length q < n" "mb_begin b < n" "mb_end b = (mb_begin b + length q) mod n"
    "\<forall>i < length q. mb_buffer b ! ((mb_begin b + i) mod n) = q ! i"
    using h by (simp_all add: holds_def n_def Let_def)
  have e: "mb_end b < n" using n by simp
  define b' where "b' = b\<lparr>mb_buffer := (mb_buffer b)[mb_end b := (t, x)], mb_end := increment b (mb_end b)\<rparr>"
  have "mb_buffer b' ! ((mb_begin b + i) mod n) = q' ! i" if i: "i < length q'" for i
  proof (cases "i = length q")
    case True
    then show ?thesis using n(3) e by (simp add: b'_def q'_def n_def)
  next
    case False
    then have "i < length q" using i by (simp add: q'_def)
    moreover from this have "(mb_begin b + i) mod n \<noteq> mb_end b"
      using mod_inj [of i n "length q" "mb_begin b"] n(1,3) by auto
    ultimately show ?thesis using n(4) by (simp add: b'_def q'_def nth_append)
  qed
  then show ?thesis
    using that [of b'] e n(3)
    by (simp add: mb_push_def b'_def n_def increment_def q'_def mod_Suc_eq)
qed

lemma delay_turn_holds:
  assumes h: "holds b q" and two: "2 \<le> length (mb_buffer b)"
  obtains out b' q' where "delay_turn t1 t2 x b = Inr (out, b')"
    "fifo_turn (length (mb_buffer b)) (mb_period b) t1 t2 x q = (out, q')" "holds b' q'"
    "mb_period b' = mb_period b" "length (mb_buffer b') = length (mb_buffer b)"
proof -
  define n where "n = length (mb_buffer b)"
  define q1 where "q1 = q @ [(t1, x)]"
  obtain b1 where b1: "mb_push t1 x b = Inr b1" "length (mb_buffer b1) = n" "mb_begin b1 = mb_begin b"
    "mb_period b1 = mb_period b" "mb_end b1 = (mb_begin b + length q1) mod n"
    "\<forall>i < length q1. mb_buffer b1 ! ((mb_begin b + i) mod n) = q1 ! i"
    by (rule mb_push_holds [OF h, of t1 x, folded n_def q1_def])
  have beg: "mb_begin b < n" "length q1 \<le> n" using h by (auto simp: holds_def n_def Let_def q1_def)
  have first: "mb_buffer b1 ! mb_begin b = hd q1"
    using b1(6) [rule_format, of 0] beg by (simp add: q1_def hd_conv_nth)
  have full: "mb_begin b = mb_end b1 \<longleftrightarrow> length q1 = n"
  proof
    assume "mb_begin b = mb_end b1"
    then have "(mb_begin b + length q1) mod n = (mb_begin b + 0) mod n" using b1(5) beg by simp
    then show "length q1 = n"
      using mod_inj [of "length q1" n 0 "mb_begin b"] beg by (cases "length q1 = n") (auto simp: q1_def)
  qed (use b1(5) beg in simp)
  have pop: "delay_turn t1 t2 x b =
      (if length q1 = n \<or> mb_period b * 1000000000 < t2 - fst (hd q1)
       then Inr (Some (snd (hd q1)), b1\<lparr>mb_begin := (mb_begin b + 1) mod n\<rparr>) else Inr (None, b1))"
    using b1 beg full first by (simp add: delay_turn_def mb_pop_def Let_def increment_def)
  show ?thesis
  proof (cases "length q1 = n \<or> mb_period b * 1000000000 < t2 - fst (hd q1)")
    case True
    have "holds (b1\<lparr>mb_begin := (mb_begin b + 1) mod n\<rparr>) (tl q1)"
    proof -
      have "mb_buffer b1 ! (((mb_begin b + 1) mod n + i) mod n) = tl q1 ! i" if "i < length (tl q1)" for i
      proof -
        have "((mb_begin b + 1) mod n + i) mod n = (mb_begin b + Suc i) mod n"
          by (simp add: mod_add_left_eq)
        then show ?thesis using b1(6) [rule_format, of "Suc i"] that by (simp add: nth_tl)
      qed
      moreover have "((mb_begin b + 1) mod n + length (tl q1)) mod n = (mb_begin b + length q1) mod n"
        by (simp add: mod_add_left_eq q1_def)
      ultimately show ?thesis using b1 beg by (simp add: holds_def Let_def q1_def)
    qed
    then show ?thesis
      using True that pop b1(2,4) by (simp add: fifo_turn_def Let_def q1_def [symmetric] n_def [symmetric])
  next
    case False
    then have "holds b1 q1" using b1 beg by (simp add: holds_def Let_def)
    then show ?thesis
      using False that pop b1(2,4) by (simp add: fifo_turn_def Let_def q1_def [symmetric] n_def [symmetric])
  qed
qed

section \<open>Runs\<close>

text \<open>A run of the service: the arrivals with the clock readings, and what is published at each.\<close>

fun delay_run :: "(int \<times> int \<times> 'a) list \<Rightarrow> 'a meta_buffer \<Rightarrow> ('a option list \<times> 'a meta_buffer) res" where
  "delay_run [] b = Inr ([], b)"
| "delay_run ((t1, t2, x) # ins) b =
     bindE (delay_turn t1 t2 x b) (\<lambda>(out, b').
     bindE (delay_run ins b') (\<lambda>(outs, b''). Inr (out # outs, b'')))"

fun fifo_run :: "nat \<Rightarrow> int \<Rightarrow> (int \<times> int \<times> 'a) list \<Rightarrow> (int \<times> 'a) list \<Rightarrow> 'a option list \<times> (int \<times> 'a) list" where
  "fifo_run n p [] q = ([], q)"
| "fifo_run n p ((t1, t2, x) # ins) q =
     (let (out, q') = fifo_turn n p t1 t2 x q; (outs, q'') = fifo_run n p ins q' in (out # outs, q''))"

text \<open>What was published, without the turns that published nothing.\<close>

fun published :: "'a option list \<Rightarrow> 'a list" where
  "published [] = []"
| "published (None # outs) = published outs"
| "published (Some x # outs) = x # published outs"

lemma delay_run_holds:
  assumes "holds b q" and "2 \<le> length (mb_buffer b)"
  shows "\<exists>outs b' q'. delay_run ins b = Inr (outs, b') \<and> holds b' q' \<and>
    fifo_run (length (mb_buffer b)) (mb_period b) ins q = (outs, q')"
  using assms
proof (induction ins arbitrary: b q)
  case Nil
  then show ?case by auto
next
  case (Cons i ins)
  obtain t1 t2 x where i: "i = (t1, t2, x)" by (cases i)
  obtain out b' q' where t: "delay_turn t1 t2 x b = Inr (out, b')"
    "fifo_turn (length (mb_buffer b)) (mb_period b) t1 t2 x q = (out, q')" "holds b' q'"
    "mb_period b' = mb_period b" "length (mb_buffer b') = length (mb_buffer b)"
    by (rule delay_turn_holds [OF Cons.prems])
  from Cons.IH [OF t(3)] Cons.prems(2) show ?case
    by (auto simp: i t(1,2,4,5))
qed

lemma fifo_run_keeps:
  assumes "fifo_run n p ins q = (outs, q')"
  shows "published outs @ map snd q' = map snd q @ map (\<lambda>(t1, t2, x). x) ins"
  using assms
proof (induction ins arbitrary: q outs)
  case Nil
  then show ?case by simp
next
  case (Cons i ins)
  obtain t1 t2 x where i: "i = (t1, t2, x)" by (cases i)
  obtain out q1 where t: "fifo_turn n p t1 t2 x q = (out, q1)" by (cases "fifo_turn n p t1 t2 x q")
  obtain outs' where outs: "fifo_run n p ins q1 = (outs', q')" "outs = out # outs'"
    using Cons.prems i t by (auto simp: Let_def split: prod.splits)
  have "published [out] @ map snd q1 = map snd q @ [x]"
    using t by (cases q) (auto simp: fifo_turn_def Let_def split: if_splits)
  then have "published [out] @ published outs' @ map snd q' =
      map snd q @ [x] @ map (\<lambda>(t1, t2, x). x) ins"
    using Cons.IH [OF outs(1)] by (metis append.assoc)
  then show ?case using outs(2) i by (cases out) simp_all
qed

lemma slots_number_ge: "slots_number config = Inr n \<Longrightarrow> 1000 \<le> n"
  by (auto simp: slots_number_def MIN_RAM_BUFFER_N_SLOTS_def bindE_eq_Inr)

lemma delay_ring_size:
  assumes "1000 \<le> slots"
  shows "2 \<le> unat (slots - min_history_needed_for_operation)"
proof -
  have "unat (slots - 998) = unat slots - 998"
    using assms by (subst unat_sub) (auto simp: word_le_nat_alt)
  then show ?thesis
    using assms by (simp add: min_history_needed_for_operation_def word_le_nat_alt)
qed

section \<open>Properties\<close>

text \<open>C16. For every configuration with a defined number of slots, the ring of the delay filter
  behaves as a queue of \<open>slots - 998\<close> places: no run is undefined, what is published at every
  arrival is what the queue publishes (the oldest element, when it is older than the period or
  the queue is full), and the final ring holds the final queue.\<close>

theorem delay_filter_refines_queue:
  assumes "slots_number config = Inr slots"
  shows "\<exists>b0 outs b q. delay_filter_start dflt config = Inr b0 \<and> delay_run ins b0 = Inr (outs, b) \<and>
    fifo_run (unat (slots - 998)) (delay_filter_timeout config) ins [] = (outs, q) \<and> holds b q"
proof -
  define b0 where "b0 = meta_buffer_ctor dflt slots (delay_filter_timeout config)"
  have two: "2 \<le> unat (slots - min_history_needed_for_operation)"
    by (rule delay_ring_size [OF slots_number_ge [OF assms]])
  then have h: "holds b0 []" using holds_ctor [of slots] by (simp add: b0_def)
  have len: "length (mb_buffer b0) = unat (slots - 998)" "mb_period b0 = delay_filter_timeout config"
    by (simp_all add: b0_def meta_buffer_ctor_def min_history_needed_for_operation_def)
  from delay_run_holds [OF h, of ins] two show ?thesis
    by (auto simp: delay_filter_start_def assms b0_def [symmetric] len
        min_history_needed_for_operation_def)
qed

text \<open>The delay filter loses, repeats and reorders nothing: what was published so far, followed
  by what the ring still holds, is what was received, in the order of arrival; fewer images
  than the ring has places are held back.\<close>

theorem delay_filter_keeps_order:
  assumes "slots_number config = Inr slots"
  shows "\<exists>b0 outs b q. delay_filter_start dflt config = Inr b0 \<and> delay_run ins b0 = Inr (outs, b) \<and>
    holds b q \<and> published outs @ map snd q = map (\<lambda>(t1, t2, x). x) ins \<and>
    length q < length (mb_buffer b)"
proof -
  have "2 \<le> unat (slots - min_history_needed_for_operation)"
    by (rule delay_ring_size [OF slots_number_ge [OF assms]])
  then have "holds (meta_buffer_ctor dflt slots (delay_filter_timeout config)) []"
    "2 \<le> length (mb_buffer (meta_buffer_ctor dflt slots (delay_filter_timeout config)))"
    using holds_ctor [of slots] by (simp_all add: meta_buffer_ctor_def)
  from delay_run_holds [OF this, of ins] obtain outs b q
    where r: "delay_run ins (meta_buffer_ctor dflt slots (delay_filter_timeout config)) = Inr (outs, b)"
      "holds b q" and f: "fifo_run (length (mb_buffer (meta_buffer_ctor dflt slots
        (delay_filter_timeout config)))) (mb_period (meta_buffer_ctor dflt slots
        (delay_filter_timeout config))) ins [] = (outs, q)"
    by blast
  from fifo_run_keeps [OF f] r show ?thesis
    by (auto simp: delay_filter_start_def assms holds_def Let_def)
qed

lemma slots_number_example: "slots_number example_config = Inr 1000"
  by (simp add: slots_number_def example_config_def converted_image_n_bytes_def int_mul_def
      int_ok_iff u64_div_def MIN_RAM_BUFFER_N_SLOTS_def)

theorem delay_filter_refines_queue_witness:
  "\<exists>b0 outs b q. delay_filter_start (0 :: nat) example_config = Inr b0 \<and>
     delay_run [(0, 1, 5), (2, 11000000000, 6)] b0 = Inr (outs, b) \<and>
     outs = [None, Some 5] \<and> holds b q"
proof -
  have timeout: "delay_filter_timeout example_config = 10" by (simp add: example_config_def)
  have two: "unat ((1000 :: u64) - 998) = 2" by simp
  have "fifo_run 2 10 [(0, 1, 5 :: nat), (2, 11000000000, 6)] [] = ([None, Some 5], [(2, 6)])"
    by (simp add: fifo_turn_def)
  then show ?thesis
    using delay_filter_refines_queue [OF slots_number_example, of "0 :: nat" "[(0, 1, 5), (2, 11000000000, 6)]"]
    unfolding two timeout by (auto simp del: delay_run.simps fifo_run.simps)
qed

theorem delay_filter_keeps_order_witness:
  "\<exists>b0 outs b q. delay_filter_start (0 :: nat) example_config = Inr b0 \<and>
     delay_run [(0, 1, 5), (2, 3, 6)] b0 = Inr (outs, b) \<and>
     published outs @ map snd (q :: (int \<times> nat) list) = [5, 6]"
  using delay_filter_keeps_order [OF slots_number_example, of "0 :: nat" "[(0, 1, 5), (2, 3, 6)]"]
  by (auto simp del: delay_run.simps)

end
