(* ===== verification/UdpRecv.thy ===== *)
theory UdpRecv
  imports GfGeometry RamBuffer DetectorConfig Stats
begin

text \<open>
  \<open>std-udp-recv\<close>: the packets of a module arrive over UDP, in any order and with losses; a
  receiver collects the packets of one frame in a frame buffer and hands the frame to the
  communicator when its last packet arrives, or when a packet of another frame arrives first.
  There is one receiver per detector. They differ in where the frame number stands, in how a
  packet's position is computed and in whether a frame that starts with its last packet is sent
  at once; what they share is the interface \<open>frame_receiver\<close>, interpreted on each of them.
\<close>

section \<open>The state of a receiver\<close>

record 'm udp_state =
  us_meta :: 'm
  us_frame :: "byte list"
  us_sender :: Communicator
  us_stats :: FrameStatsCollector


text \<open>\<open>sender.send(...); stats.process(...)\<close>, as it stands in all three loops.\<close>

definition send_frame ::
  "('m \<Rightarrow> byte list) \<Rightarrow> ('m \<Rightarrow> CommonFrame) \<Rightarrow> 'm udp_state \<Rightarrow> 'm udp_state res" where
  "send_frame bytes common st =
     bindE (Communicator_send (us_sender st) (image_id (common (us_meta st))) (bytes (us_meta st))
              (Some (us_frame st))) (\<lambda>sender.
     Inr (st\<lparr>us_sender := sender,
             us_stats := frame_process (n_missing_packets (common (us_meta st))) (us_stats st)\<rparr>))"

text \<open>\<open>memcpy(frame_buffer + offset, packet.data, n)\<close>\<close>

definition copy_packet :: "nat \<Rightarrow> byte list \<Rightarrow> 'm udp_state \<Rightarrow> 'm udp_state res" where
  "copy_packet off data st =
     bindE (memcpy (us_frame st) off data) (\<lambda>frame. Inr (st\<lparr>us_frame := frame\<rparr>))"

definition one_packet_less :: "CommonFrame \<Rightarrow> CommonFrame" where
  "one_packet_less c = c\<lparr>n_missing_packets := n_missing_packets c - 1\<rparr>"

section \<open>Jungfrau\<close>

definition jf_init_meta :: "u16 \<Rightarrow> JFFrame" where
  "jf_init_meta mid =
     \<lparr>jf_common = \<lparr>image_id = 0, n_missing_packets = 0, module_id = mid\<rparr>, jf_id = 0,
      jf_frame_index = INVALID_IMAGE_ID, jf_daq_rec = 0, jf_module_id = ucast mid\<rparr>"

text \<open>The product is one of two \<open>uint32_t\<close>.\<close>

definition jf_offset :: "JFUdpPacket \<Rightarrow> nat" where
  "jf_offset p = unat (jfp_packetnum p * word_of_nat jf_DATA_BYTES_PER_PACKET)"

definition jf_start_frame :: "JFUdpPacket \<Rightarrow> JFFrame \<Rightarrow> JFFrame" where
  "jf_start_frame p m = m
     \<lparr>jf_common := (jf_common m)\<lparr>image_id := jfp_bunchid_u64 p,
                                 n_missing_packets := word_of_nat jf_N_PACKETS_PER_FRAME\<rparr>,
      jf_frame_index := jfp_framenum p, jf_daq_rec := ucast (jfp_debug p)\<rparr>"

definition jf_process_packet :: "JFUdpPacket \<Rightarrow> JFFrame udp_state \<Rightarrow> JFFrame udp_state res" where
  "jf_process_packet p st =
     (if jf_frame_index (us_meta st) = jfp_framenum p
      then bindE (copy_packet (jf_offset p) (jfp_data p) st) (\<lambda>st1.
           let st2 = st1\<lparr>us_meta := jf_common_update one_packet_less (us_meta st1)\<rparr>
           in if jfp_packetnum p = word_of_nat jf_N_PACKETS_PER_FRAME - 1
              then bindE (send_frame JFFrame_bytes jf_common st2) (\<lambda>st3.
                   Inr (st3\<lparr>us_meta := (us_meta st3)\<lparr>jf_frame_index := INVALID_IMAGE_ID\<rparr>\<rparr>))
              else Inr st2)
      else bindE (if jf_frame_index (us_meta st) \<noteq> INVALID_IMAGE_ID
                  then send_frame JFFrame_bytes jf_common st else Inr st) (\<lambda>st1.
           let st2 = st1\<lparr>us_meta := jf_start_frame p (us_meta st1)\<rparr>
           in bindE (copy_packet (jf_offset p) (jfp_data p) st2) (\<lambda>st3.
              Inr (st3\<lparr>us_meta := jf_common_update one_packet_less (us_meta st3)\<rparr>))))"

section \<open>Eiger\<close>

definition eg_FRAME_N_BYTES :: "DetectorConfig \<Rightarrow> u64" where
  "eg_FRAME_N_BYTES config =
     ucast ((word_of_nat eg_MODULE_N_PIXELS :: u32) * word_of_int (bit_depth config) div 8)"

definition eg_N_PACKETS_PER_FRAME :: "DetectorConfig \<Rightarrow> u64" where
  "eg_N_PACKETS_PER_FRAME config = eg_FRAME_N_BYTES config div word_of_nat eg_DATA_BYTES_PER_PACKET"

definition eg_init_meta :: "u16 \<Rightarrow> EGFrame" where
  "eg_init_meta mid =
     \<lparr>eg_common = \<lparr>image_id = INVALID_IMAGE_ID, n_missing_packets = 0, module_id = mid\<rparr>,
      eg_bit_depth = 0, eg_pos_y = 0, eg_pos_x = 0\<rparr>"

definition eg_offset :: "EGUdpPacket \<Rightarrow> nat" where
  "eg_offset p = unat (egp_packet_number p * word_of_nat eg_DATA_BYTES_PER_PACKET)"

definition eg_init_frame_metadata :: "u16 \<Rightarrow> u16 \<Rightarrow> u16 \<Rightarrow> EGUdpPacket \<Rightarrow> EGFrame \<Rightarrow> EGFrame" where
  "eg_init_frame_metadata mid n_packets depth p m = m
     \<lparr>eg_common := \<lparr>image_id = egp_frame_num p, n_missing_packets = ucast n_packets,
                    module_id = mid\<rparr>,
      eg_bit_depth := depth, eg_pos_x := egp_row p, eg_pos_y := egp_column p\<rparr>"

definition eg_process_packet ::
  "DetectorConfig \<Rightarrow> u16 \<Rightarrow> EGUdpPacket \<Rightarrow> EGFrame udp_state \<Rightarrow> EGFrame udp_state res" where
  "eg_process_packet config mid p st =
     (if image_id (eg_common (us_meta st)) = egp_frame_num p
      then bindE (copy_packet (eg_offset p) (egp_data p) st) (\<lambda>st1.
           let st2 = st1\<lparr>us_meta := eg_common_update one_packet_less (us_meta st1)\<rparr>
           in if ucast (egp_packet_number p) = eg_N_PACKETS_PER_FRAME config - 1
              then bindE (send_frame EGFrame_bytes eg_common st2) (\<lambda>st3.
                   Inr (st3\<lparr>us_meta := eg_common_update (image_id_update (\<lambda>_. INVALID_IMAGE_ID))
                                          (us_meta st3)\<rparr>))
              else Inr st2)
      else bindE (if image_id (eg_common (us_meta st)) \<noteq> INVALID_IMAGE_ID
                  then send_frame EGFrame_bytes eg_common st else Inr st) (\<lambda>st1.
           let st2 = st1\<lparr>us_meta := eg_init_frame_metadata mid
                            (ucast (eg_N_PACKETS_PER_FRAME config)) (word_of_int (bit_depth config))
                            p (us_meta st1)\<rparr>
           in bindE (copy_packet (eg_offset p) (egp_data p) st2) (\<lambda>st3.
              Inr (st3\<lparr>us_meta := eg_common_update one_packet_less (us_meta st3)\<rparr>))))"

section \<open>GigaFRoST\<close>

text \<open>The sizes that \<open>main\<close> computes before the loop.\<close>

record gf_geometry =
  gg_width :: u32
  gg_height :: u32
  gg_bytes_per_module :: u64
  gg_bytes_per_packet :: u64
  gg_packets_in_frame :: u64
  gg_bytes_of_last_packet :: u64
  gg_start_row_last_packet :: u64
  gg_bytes_of_frame :: u64

definition gf_geometry_of :: "DetectorConfig \<Rightarrow> gf_geometry res" where
  "gf_geometry_of config =
     (let h = image_pixel_height config; w = image_pixel_width config;
          width = module_n_x_pixels w; height = module_n_y_pixels h
      in bindE (n_rows_per_packet h w) (\<lambda>rows.
         bindE (n_data_bytes_per_packet h w) (\<lambda>bytes_per_packet.
         bindE (n_packets_per_frame h w) (\<lambda>packets.
         if rows = 0 then Inl (Undefined ''division by zero'')
         else let r = ucast (height mod rows) :: u64;
                  last_rows = (if r = 0 then ucast rows else r);
                  last0 = ucast width * last_rows * 3 div 2;
                  last_bytes = (if last_rows mod 2 = 1 \<and> width mod 48 \<noteq> 0 then last0 + 36 else last0)
              in Inr \<lparr>gg_width = width, gg_height = height,
                      gg_bytes_per_module = module_n_data_bytes h w,
                      gg_bytes_per_packet = bytes_per_packet, gg_packets_in_frame = packets,
                      gg_bytes_of_last_packet = last_bytes,
                      gg_start_row_last_packet = ucast height - last_rows,
                      gg_bytes_of_frame = bytes_per_packet * (packets - 1) + last_bytes\<rparr>))))"

definition gf_init_meta :: "u16 \<Rightarrow> GFFrame" where
  "gf_init_meta mid =
     \<lparr>gf_common = \<lparr>image_id = INVALID_IMAGE_ID, n_missing_packets = 0, module_id = mid mod 8\<rparr>,
      gf_swapped_rows = 0, gf_link_id = 0, gf_corr_mode = 0, gf_quadrant_id = 0, gf_rpf = 0,
      gf_do_not_store = 0, gf_scan_id = 0, gf_size_x = 0, gf_size_y = 0, gf_scan_time = 0,
      gf_sync_time = 0, gf_frame_timestamp = 0, gf_exposure_time = 0\<rparr>"

text \<open>In the last assignment \<open>>>\<close> binds tighter than \<open>&\<close>, as in the source.\<close>

definition gf_init_frame_metadata :: "gf_geometry \<Rightarrow> GFUdpPacket \<Rightarrow> GFFrame \<Rightarrow> GFFrame" where
  "gf_init_frame_metadata g p m = m
     \<lparr>gf_common := (gf_common m)\<lparr>image_id := ucast (gfp_frame_index p),
                                 n_missing_packets := gg_packets_in_frame g\<rparr>,
      gf_scan_id := gfp_scan_id p, gf_size_x := gg_width g, gf_size_y := gg_height g,
      gf_scan_time := gfp_scan_time p, gf_sync_time := gfp_sync_time p,
      gf_frame_timestamp := gfp_image_timing p AND 0x000000FFFFFFFFFF,
      gf_exposure_time := drop_bit 40 (gfp_image_timing p AND 0xFFFFFF0000000000),
      gf_swapped_rows := gfp_quadrant_rows p AND 1,
      gf_quadrant_id := drop_bit 6 (gfp_status_flags p AND 0xC0),
      gf_link_id := drop_bit 5 (gfp_status_flags p AND 0x20),
      gf_corr_mode := drop_bit 2 (gfp_status_flags p AND 0x1C),
      gf_do_not_store := ucast (gfp_image_status_flags p AND drop_bit 15 0x8000)\<rparr>"

definition gf_offset :: "gf_geometry \<Rightarrow> GFUdpPacket \<Rightarrow> nat" where
  "gf_offset g p = unat (ucast (gfp_packet_starting_row p) * gg_width g) * 3 div 2"

definition gf_is_last :: "gf_geometry \<Rightarrow> GFUdpPacket \<Rightarrow> bool" where
  "gf_is_last g p \<longleftrightarrow> ucast (gfp_packet_starting_row p) = gg_start_row_last_packet g"

definition gf_send_image_id :: "GFFrame udp_state \<Rightarrow> GFFrame udp_state res" where
  "gf_send_image_id st =
     bindE (send_frame GFFrame_bytes gf_common st) (\<lambda>st'.
     Inr (st'\<lparr>us_meta := gf_common_update (image_id_update (\<lambda>_. INVALID_IMAGE_ID)) (us_meta st')\<rparr>))"

text \<open>Reading behind the 7400 bytes of the packet's data is undefined.\<close>

definition gf_process_packet :: "gf_geometry \<Rightarrow> GFUdpPacket \<Rightarrow> GFFrame udp_state \<Rightarrow> GFFrame udp_state res" where
  "gf_process_packet g p st =
     (let st1 = st\<lparr>us_meta := gf_common_update one_packet_less (us_meta st)\<rparr>;
          n = unat (if gf_is_last g p then gg_bytes_of_last_packet g else gg_bytes_per_packet g)
      in if length (gfp_data p) < n then Inl (Undefined ''read out of range'')
         else bindE (copy_packet (gf_offset g p) (take n (gfp_data p)) st1) (\<lambda>st2.
              if gf_is_last g p then gf_send_image_id st2 else Inr st2))"

definition gf_receive_packet :: "gf_geometry \<Rightarrow> GFUdpPacket \<Rightarrow> GFFrame udp_state \<Rightarrow> GFFrame udp_state res" where
  "gf_receive_packet g p st =
     (if image_id (gf_common (us_meta st)) = ucast (gfp_frame_index p) then gf_process_packet g p st
      else bindE (if image_id (gf_common (us_meta st)) \<noteq> INVALID_IMAGE_ID
                  then gf_send_image_id st else Inr st) (\<lambda>st1.
           gf_process_packet g p
             (st1\<lparr>us_meta := gf_init_frame_metadata g p (us_meta st1)\<rparr>)))"

section \<open>The receive loop\<close>

text \<open>One turn of \<open>while (true)\<close>: the packets that \<open>recvmmsg\<close> returned (none, when it failed or
  timed out), then the statistics.\<close>

definition receive_turn ::
  "('p \<Rightarrow> 'm udp_state \<Rightarrow> 'm udp_state res) \<Rightarrow> rate_format \<Rightarrow> clock_reads \<Rightarrow> 'p list \<Rightarrow>
   'm udp_state \<Rightarrow> ('m udp_state \<times> string option) res" where
  "receive_turn step fr ck packets st =
     bindE (forE step packets st) (\<lambda>st1.
     case print_stats (frame_additional_message fr) ck (us_stats st1) of
       (log, stats) \<Rightarrow> Inr (st1\<lparr>us_stats := stats\<rparr>, log))"

section \<open>The interface of a receiver\<close>

text \<open>
  \<open>cur m\<close> is the number of the frame that is being collected (\<open>INVALID_IMAGE_ID\<close>: none),
  \<open>pid p\<close> the frame number of a packet, \<open>start p\<close> what the first packet of a frame sets in the
  metadata, \<open>finish\<close> how they are invalidated after sending. The laws speak of packets inside
  the frame buffer.
\<close>

definition put_packet ::
  "((CommonFrame \<Rightarrow> CommonFrame) \<Rightarrow> 'm \<Rightarrow> 'm) \<Rightarrow> nat \<Rightarrow> byte list \<Rightarrow> 'm udp_state \<Rightarrow> 'm udp_state" where
  "put_packet upd off data st =
     st\<lparr>us_frame := overwrite off data (us_frame st), us_meta := upd one_packet_less (us_meta st)\<rparr>"

locale frame_receiver =
  fixes step :: "'p \<Rightarrow> 'm udp_state \<Rightarrow> 'm udp_state res"
    and bytes :: "'m \<Rightarrow> byte list"
    and common :: "'m \<Rightarrow> CommonFrame"
    and upd :: "(CommonFrame \<Rightarrow> CommonFrame) \<Rightarrow> 'm \<Rightarrow> 'm"
    and cur :: "'m \<Rightarrow> u64"
    and start :: "'p \<Rightarrow> 'm \<Rightarrow> 'm"
    and finish :: "'m \<Rightarrow> 'm"
    and pid :: "'p \<Rightarrow> u64"
    and off :: "'p \<Rightarrow> nat"
    and payload :: "'p \<Rightarrow> byte list"
    and is_last :: "'p \<Rightarrow> bool"
    and ok :: "'p \<Rightarrow> bool"
    and n_packets :: u64
  assumes step_same: "ok p \<Longrightarrow> cur (us_meta st) = pid p \<Longrightarrow>
      off p + length (payload p) \<le> length (us_frame st) \<Longrightarrow>
      step p st = (if is_last p
        then bindE (send_frame bytes common (put_packet upd (off p) (payload p) st)) (\<lambda>st'.
             Inr (st'\<lparr>us_meta := finish (us_meta st')\<rparr>))
        else Inr (put_packet upd (off p) (payload p) st))"
    and step_fresh: "ok p \<Longrightarrow> cur (us_meta st) = INVALID_IMAGE_ID \<Longrightarrow> pid p \<noteq> INVALID_IMAGE_ID \<Longrightarrow>
      \<not> is_last p \<Longrightarrow> off p + length (payload p) \<le> length (us_frame st) \<Longrightarrow>
      step p st = Inr (put_packet upd (off p) (payload p)
                         (st\<lparr>us_meta := start p (us_meta st)\<rparr>))"
    and cur_upd: "cur (upd one_packet_less m) = cur m"
    and common_upd: "common (upd one_packet_less m) = one_packet_less (common m)"
    and cur_start: "cur (start p m) = pid p"
    and missing_start: "n_missing_packets (common (start p m)) = n_packets"
    and cur_finish: "cur (finish m) = INVALID_IMAGE_ID"
begin

definition collected :: "'p list \<Rightarrow> byte list \<Rightarrow> bool" where
  "collected ps frame \<longleftrightarrow> (\<forall>p \<in> set ps. segment (off p) (length (payload p)) frame = payload p)"

definition apart :: "'p \<Rightarrow> 'p \<Rightarrow> bool" where
  "apart p q \<longleftrightarrow> off p + length (payload p) \<le> off q \<or> off q + length (payload q) \<le> off p"

lemma collected_snoc:
  assumes "collected ps frame" and "off q + length (payload q) \<le> length frame"
    and "\<forall>p \<in> set ps. apart p q \<and> off p + length (payload p) \<le> length frame"
  shows "collected (ps @ [q]) (overwrite (off q) (payload q) frame)"
  using assms
  by (auto simp: collected_def apart_def segment_overwrite_same segment_overwrite_disjoint)

text \<open>Packets of the frame that is being collected, the last one not among them.\<close>

lemma collect_more:
  assumes "\<forall>p \<in> set qs. ok p \<and> pid p = cur (us_meta st) \<and> \<not> is_last p \<and>
      off p + length (payload p) \<le> length (us_frame st)"
    and "collected ps (us_frame st)"
    and "\<forall>p \<in> set ps. off p + length (payload p) \<le> length (us_frame st)"
    and "\<forall>p \<in> set ps. \<forall>q \<in> set qs. apart p q" and "sorted_wrt apart qs"
  shows "\<exists>st'. forE step qs st = Inr st' \<and> collected (ps @ qs) (us_frame st') \<and>
    length (us_frame st') = length (us_frame st) \<and> cur (us_meta st') = cur (us_meta st) \<and>
    common (us_meta st') = (common (us_meta st))
      \<lparr>n_missing_packets := n_missing_packets (common (us_meta st)) - word_of_nat (length qs)\<rparr> \<and>
    us_sender st' = us_sender st \<and> us_stats st' = us_stats st"
  using assms
proof (induction qs arbitrary: st ps)
  case Nil
  then show ?case by simp
next
  case (Cons q qs)
  define st1 where "st1 = put_packet upd (off q) (payload q) st"
  have q: "off q + length (payload q) \<le> length (us_frame st)" using Cons.prems(1) by simp
  have step: "step q st = Inr st1" using Cons.prems(1) q by (simp add: step_same st1_def)
  have st1: "us_frame st1 = overwrite (off q) (payload q) (us_frame st)"
    "length (us_frame st1) = length (us_frame st)"
    "cur (us_meta st1) = cur (us_meta st)" "us_sender st1 = us_sender st" "us_stats st1 = us_stats st"
    "common (us_meta st1) = one_packet_less (common (us_meta st))"
    using q by (simp_all add: st1_def put_packet_def cur_upd common_upd)
  have "collected (ps @ [q]) (us_frame st1)"
    unfolding st1(1) using Cons.prems by (intro collected_snoc) auto
  from Cons.IH [of st1 "ps @ [q]", OF _ this] obtain st' where
    "forE step qs st1 = Inr st'" "collected (ps @ q # qs) (us_frame st')"
    "length (us_frame st') = length (us_frame st1)" "cur (us_meta st') = cur (us_meta st1)"
    "common (us_meta st') = (common (us_meta st1))
       \<lparr>n_missing_packets := n_missing_packets (common (us_meta st1)) - word_of_nat (length qs)\<rparr>"
    "us_sender st' = us_sender st1" "us_stats st' = us_stats st1"
    using Cons.prems q st1(2,3) by auto
  then show ?case
    using step st1 by (auto simp: one_packet_less_def algebra_simps)
qed

text \<open>A frame from its first packet to its last: it is sent once, with every packet that arrived
  in its place and with the number of packets that did not.\<close>

lemma receive_frame:
  assumes fresh: "cur (us_meta st) = INVALID_IMAGE_ID" and k: "k \<noteq> INVALID_IMAGE_ID"
    and ps: "\<forall>p \<in> set (p # qs @ [l]). ok p \<and> pid p = k \<and>
      off p + length (payload p) \<le> length (us_frame st)"
    and last: "\<forall>q \<in> set (p # qs). \<not> is_last q" "is_last l"
    and apart: "sorted_wrt apart (p # qs @ [l])"
    and wf: "rb_wf (comm_buffer (us_sender st))"
    and frame: "length (us_frame st) = rb_size (comm_buffer (us_sender st))"
  shows "\<exists>st' m. forE step (p # qs @ [l]) st = Inr st' \<and>
    comm_sent (us_sender st') = comm_sent (us_sender st) @ [bytes m] \<and>
    common m = (common (start p (us_meta st)))
      \<lparr>n_missing_packets := n_packets - word_of_nat (length (p # qs @ [l]))\<rparr> \<and>
    read_slot (comm_buffer (us_sender st')) (image_id (common m)) = Inr (us_frame st') \<and>
    collected (p # qs @ [l]) (us_frame st') \<and> cur (us_meta st') = INVALID_IMAGE_ID \<and>
    us_stats st' = frame_process (n_missing_packets (common m)) (us_stats st)"
proof -
  define st1 where "st1 = put_packet upd (off p) (payload p) (st\<lparr>us_meta := start p (us_meta st)\<rparr>)"
  have p: "off p + length (payload p) \<le> length (us_frame st)" "ok p" "pid p = k"
    using ps by simp_all
  have step1: "step p st = Inr st1"
    using fresh k p last(1) by (simp add: step_fresh st1_def)
  have st1: "us_frame st1 = overwrite (off p) (payload p) (us_frame st)"
    "length (us_frame st1) = length (us_frame st)" "cur (us_meta st1) = k"
    "common (us_meta st1) = one_packet_less (common (start p (us_meta st)))"
    "us_sender st1 = us_sender st" "us_stats st1 = us_stats st"
    using p by (simp_all add: st1_def put_packet_def cur_upd cur_start common_upd)
  have "collected [p] (us_frame st1)"
    using p(1) by (simp add: collected_def st1(1) segment_overwrite_same)
  from collect_more [of qs st1 "[p]", OF _ this] obtain st2 where st2:
    "forE step qs st1 = Inr st2" "collected (p # qs) (us_frame st2)"
    "length (us_frame st2) = length (us_frame st)" "cur (us_meta st2) = k"
    "common (us_meta st2) = (common (us_meta st1))
       \<lparr>n_missing_packets := n_missing_packets (common (us_meta st1)) - word_of_nat (length qs)\<rparr>"
    "us_sender st2 = us_sender st" "us_stats st2 = us_stats st"
    using ps last(1) apart st1 by (auto simp: sorted_wrt_append)
  define st3 where "st3 = put_packet upd (off l) (payload l) st2"
  have l: "off l + length (payload l) \<le> length (us_frame st2)" "ok l" "pid l = k"
    using ps st2(3) by simp_all
  have st3: "us_frame st3 = overwrite (off l) (payload l) (us_frame st2)"
    "length (us_frame st3) = length (us_frame st)" "us_sender st3 = us_sender st"
    "common (us_meta st3) = one_packet_less (common (us_meta st2))" "us_stats st3 = us_stats st"
    using l(1) st2 by (simp_all add: st3_def put_packet_def common_upd)
  have coll: "collected (p # qs @ [l]) (us_frame st3)"
    unfolding st3(1) using st2(2,3) ps l apart
    by (intro collected_snoc [of "p # qs", simplified]) (auto simp: sorted_wrt_append)
  define m where "m = us_meta st3"
  define b where "b = rb_put (comm_buffer (us_sender st)) (image_id (common m)) (us_frame st3)"
  have len: "length (us_frame st3) = rb_size (comm_buffer (us_sender st))"
    using st3(2) frame by simp
  have written: "RamBuffer_write (comm_buffer (us_sender st)) (image_id (common m)) (Some (us_frame st3)) = Inr b"
    unfolding b_def by (rule rb_put_wf(1) [OF wf len])
  have read: "read_slot b (image_id (common m)) = Inr (us_frame st3)"
    using read_slot_wf [OF rb_wf_put [OF wf len]] rb.get_put [OF wf len]
    by (metis b_def rb_get_def sum.case(2))
  have send: "send_frame bytes common st3 = Inr (st3
      \<lparr>us_sender := (us_sender st)\<lparr>comm_buffer := b, comm_sent := comm_sent (us_sender st) @ [bytes m]\<rparr>,
       us_stats := frame_process (n_missing_packets (common m)) (us_stats st)\<rparr>)"
    using written st3 by (simp add: send_frame_def Communicator_send_def m_def)
  have "step l st2 = bindE (send_frame bytes common st3) (\<lambda>st'.
      Inr (st'\<lparr>us_meta := finish (us_meta st')\<rparr>))"
    using step_same [OF l(2) _ l(1)] l(3) st2(4) last(2) by (simp add: st3_def)
  moreover define st4 where "st4 = st3
      \<lparr>us_sender := (us_sender st)\<lparr>comm_buffer := b, comm_sent := comm_sent (us_sender st) @ [bytes m]\<rparr>,
       us_stats := frame_process (n_missing_packets (common m)) (us_stats st),
       us_meta := finish m\<rparr>"
  ultimately have "forE step (p # qs @ [l]) st = Inr st4"
    using step1 st2(1) send by (simp add: forE_append m_def)
  moreover have "common m = (common (start p (us_meta st)))
      \<lparr>n_missing_packets := n_packets - word_of_nat (length (p # qs @ [l]))\<rparr>"
    using st3(4) st2(5) st1(4) missing_start
    by (simp add: m_def one_packet_less_def algebra_simps)
  ultimately show ?thesis
    using read coll by (intro exI [of _ st4] exI [of _ m] conjI) (simp_all add: st4_def cur_finish)
qed

end

section \<open>Receivers of equal blocks\<close>

text \<open>Jungfrau and Eiger packets are numbered blocks of equal size.\<close>

lemma packet_blocks_apart:
  fixes num :: "'p \<Rightarrow> nat"
  assumes "distinct (map num ps)"
  shows "sorted_wrt (\<lambda>p q. num p * n + n \<le> num q * n \<or> num q * n + n \<le> num p * n) ps"
  using assms by (induction ps) (auto simp: image_iff intro!: block_disjoint)

locale block_receiver =
  frame_receiver step bytes common upd cur start finish pid off payload is_last ok n_packets
  for step :: "'p \<Rightarrow> 'm udp_state \<Rightarrow> 'm udp_state res"
    and bytes common upd cur start finish pid off payload is_last ok n_packets +
  fixes num :: "'p \<Rightarrow> nat"
    and n :: nat
    and N :: nat
  assumes off_num: "ok p \<Longrightarrow> num p < N \<Longrightarrow> off p = num p * n"
    and payload_length: "ok p \<Longrightarrow> length (payload p) = n"
    and last_num: "ok p \<Longrightarrow> num p < N \<Longrightarrow> is_last p \<longleftrightarrow> num p = N - 1"
begin

lemma receive_blocks:
  assumes fresh: "cur (us_meta st) = INVALID_IMAGE_ID" and k: "k \<noteq> INVALID_IMAGE_ID"
    and ps: "\<forall>p \<in> set (p # qs @ [l]). ok p \<and> pid p = k \<and> num p < N"
    and l: "num l = N - 1" and dist: "distinct (map num (p # qs @ [l]))"
    and wf: "rb_wf (comm_buffer (us_sender st))"
    and frame: "length (us_frame st) = rb_size (comm_buffer (us_sender st))"
    and fits: "N * n \<le> length (us_frame st)"
  shows "\<exists>st' m. forE step (p # qs @ [l]) st = Inr st' \<and>
    comm_sent (us_sender st') = comm_sent (us_sender st) @ [bytes m] \<and>
    common m = (common (start p (us_meta st)))
      \<lparr>n_missing_packets := n_packets - word_of_nat (length (p # qs @ [l]))\<rparr> \<and>
    read_slot (comm_buffer (us_sender st')) (image_id (common m)) = Inr (us_frame st') \<and>
    (\<forall>q \<in> set (p # qs @ [l]). segment (num q * n) n (us_frame st') = payload q) \<and>
    us_stats st' = frame_process (n_missing_packets (common m)) (us_stats st) \<and>
    length (p # qs @ [l]) \<le> N"
proof -
  define xs where "xs = p # qs @ [l]"
  have xs: "ok x" "pid x = k" "num x < N" "off x = num x * n" "length (payload x) = n"
    if "x \<in> set xs" for x
    using ps [folded xs_def] that off_num payload_length by simp_all
  have "off x + length (payload x) \<le> length (us_frame st)" if "x \<in> set xs" for x
    using block_in_range [OF xs(3) [OF that], of n] fits xs(4,5) [OF that] by linarith
  with xs have all: "\<forall>x \<in> set xs. ok x \<and> pid x = k \<and> off x + length (payload x) \<le> length (us_frame st)"
    by blast
  have apart: "sorted_wrt apart xs"
    by (rule sorted_wrt_mono_rel [OF _ packet_blocks_apart [OF dist [folded xs_def], of n]])
      (use xs in \<open>auto simp: apart_def\<close>)
  have nl: "\<forall>q \<in> set (p # qs). \<not> is_last q"
  proof
    fix q assume q: "q \<in> set (p # qs)"
    then have "num q \<noteq> num l" using dist by (auto simp: image_iff)
    moreover have "ok q" "num q < N" using q ps by auto
    ultimately show "\<not> is_last q" using last_num l by simp
  qed
  have il: "is_last l" using xs(1,3) [of l] l last_num by (simp add: xs_def)
  have "length xs = card (num ` set xs)"
    using distinct_card [OF dist [folded xs_def]] by simp
  also have "\<dots> \<le> card {..<N}" using xs(3) by (intro card_mono) auto
  finally have len: "length xs \<le> N" by simp
  obtain st' m where r: "forE step xs st = Inr st'"
    "comm_sent (us_sender st') = comm_sent (us_sender st) @ [bytes m]"
    "common m = (common (start p (us_meta st)))
       \<lparr>n_missing_packets := n_packets - word_of_nat (length xs)\<rparr>"
    "read_slot (comm_buffer (us_sender st')) (image_id (common m)) = Inr (us_frame st')"
    "collected xs (us_frame st')"
    "us_stats st' = frame_process (n_missing_packets (common m)) (us_stats st)"
    using receive_frame [OF fresh k all [unfolded xs_def] nl il apart [unfolded xs_def] wf frame]
    unfolding xs_def by blast
  have "\<forall>q \<in> set xs. segment (num q * n) n (us_frame st') = payload q"
    using r(5) xs(4,5) by (simp add: collected_def)
  with r len show ?thesis unfolding xs_def by blast
qed

end
section \<open>The three receivers meet the interface\<close>

lemmas receiver_simps = copy_packet_def put_packet_def Let_def one_packet_less_def

lemma jf_offset_eq:
  assumes "unat (jfp_packetnum p) < 128"
  shows "jf_offset p = unat (jfp_packetnum p) * 8192"
  using assms by (simp add: jf_offset_def jf_consts unat_word_ariths)

interpretation jf: block_receiver jf_process_packet JFFrame_bytes jf_common jf_common_update
  jf_frame_index jf_start_frame "\<lambda>m. m\<lparr>jf_frame_index := INVALID_IMAGE_ID\<rparr>" jfp_framenum jf_offset
  jfp_data "\<lambda>p. jfp_packetnum p = word_of_nat jf_N_PACKETS_PER_FRAME - 1"
  "\<lambda>p. length (jfp_data p) = 8192" "word_of_nat jf_N_PACKETS_PER_FRAME"
  "\<lambda>p. unat (jfp_packetnum p)" 8192 128
proof unfold_locales
  show "(jfp_packetnum p = word_of_nat jf_N_PACKETS_PER_FRAME - 1) = (unat (jfp_packetnum p) = 128 - 1)" for p
    by (simp add: jf_consts word_unat_eq_iff)
qed (simp_all add: jf_process_packet_def receiver_simps jf_start_frame_def jf_offset_eq)

lemma eg_N_PACKETS_bound: "unat (eg_N_PACKETS_PER_FRAME config) * 4096 < 2 ^ 32"
proof -
  define f where "f = (word_of_nat eg_MODULE_N_PIXELS :: u32) * word_of_int (bit_depth config) div 8"
  have "unat (eg_N_PACKETS_PER_FRAME config) = unat f div 4096"
    by (simp add: eg_N_PACKETS_PER_FRAME_def eg_FRAME_N_BYTES_def f_def eg_DATA_BYTES_PER_PACKET_def
        unat_div unat_ucast_up)
  also have "\<dots> * 4096 \<le> unat f" by simp
  also have "\<dots> < 2 ^ 32" using unsigned_less [of f] by simp
  finally show ?thesis .
qed

lemma eg_offset_eq:
  assumes "unat (egp_packet_number p) < unat (eg_N_PACKETS_PER_FRAME config)"
  shows "eg_offset p = unat (egp_packet_number p) * 4096"
proof -
  have "unat (egp_packet_number p) * 4096 < 2 ^ 32"
    using assms eg_N_PACKETS_bound [of config] by linarith
  then show ?thesis by (simp add: eg_offset_def eg_consts unat_word_ariths)
qed

interpretation eg: block_receiver "eg_process_packet config mid" EGFrame_bytes eg_common
  eg_common_update "\<lambda>m. image_id (eg_common m)"
  "eg_init_frame_metadata mid (ucast (eg_N_PACKETS_PER_FRAME config)) (word_of_int (bit_depth config))"
  "eg_common_update (image_id_update (\<lambda>_. INVALID_IMAGE_ID))" egp_frame_num eg_offset egp_data
  "\<lambda>p. ucast (egp_packet_number p) = eg_N_PACKETS_PER_FRAME config - 1"
  "\<lambda>p. length (egp_data p) = 4096"
  "ucast (ucast (eg_N_PACKETS_PER_FRAME config) :: u16)"
  "\<lambda>p. unat (egp_packet_number p)" 4096 "unat (eg_N_PACKETS_PER_FRAME config)" for config mid
proof unfold_locales
  fix p :: EGUdpPacket
  assume "unat (egp_packet_number p) < unat (eg_N_PACKETS_PER_FRAME config)"
  then have "unat (eg_N_PACKETS_PER_FRAME config - 1) = unat (eg_N_PACKETS_PER_FRAME config) - 1"
    by (subst unat_sub) (auto simp: word_le_nat_alt)
  then show "(ucast (egp_packet_number p) = eg_N_PACKETS_PER_FRAME config - 1) =
      (unat (egp_packet_number p) = unat (eg_N_PACKETS_PER_FRAME config) - 1)"
    by (simp add: word_unat_eq_iff [of "ucast (egp_packet_number p)"] unat_ucast_up)
qed (simp_all add: eg_process_packet_def receiver_simps eg_init_frame_metadata_def eg_offset_eq)

lemma udp_update_swap: "st\<lparr>us_meta := a, us_frame := b\<rparr> = st\<lparr>us_frame := b, us_meta := a\<rparr>"
  by simp

definition gf_n_bytes :: "gf_geometry \<Rightarrow> GFUdpPacket \<Rightarrow> nat" where
  "gf_n_bytes g p = unat (if gf_is_last g p then gg_bytes_of_last_packet g else gg_bytes_per_packet g)"

interpretation gf: frame_receiver "gf_receive_packet g" GFFrame_bytes gf_common gf_common_update
  "\<lambda>m. image_id (gf_common m)" "gf_init_frame_metadata g"
  "gf_common_update (image_id_update (\<lambda>_. INVALID_IMAGE_ID))" "\<lambda>p. ucast (gfp_frame_index p)"
  "gf_offset g" "\<lambda>p. take (gf_n_bytes g p) (gfp_data p)" "gf_is_last g"
  "\<lambda>p. gf_n_bytes g p \<le> length (gfp_data p)" "gg_packets_in_frame g" for g
  by unfold_locales (simp_all add: gf_receive_packet_def gf_process_packet_def gf_send_image_id_def
      receiver_simps gf_init_frame_metadata_def gf_n_bytes_def udp_update_swap)

section \<open>Properties\<close>

text \<open>C18. A Jungfrau frame of which the last packet arrives last and at least one other packet before it is sent exactly once, whatever the
  order of the other packets and however many more of them were lost: every packet that arrived is
  in its place, the image id is the bunch id of the first packet, the number of missing
  packets is exact, the RAM buffer has the frame under that id, and the statistics count it.\<close>

theorem jf_frame_received:
  assumes "jf_frame_index (us_meta st) = INVALID_IMAGE_ID" and "k \<noteq> INVALID_IMAGE_ID"
    and "\<forall>p \<in> set (p0 # qs @ [l]). jfp_framenum p = k \<and> length (jfp_data p) = 8192"
    and "\<forall>p \<in> set (p0 # qs). unat (jfp_packetnum p) < 127" and "jfp_packetnum l = 127"
    and "distinct (map jfp_packetnum (p0 # qs @ [l]))"
    and "rb_wf (comm_buffer (us_sender st))" and "length (us_frame st) = 128 * 8192"
    and "rb_size (comm_buffer (us_sender st)) = 128 * 8192"
  shows "\<exists>st' m. forE jf_process_packet (p0 # qs @ [l]) st = Inr st' \<and>
    comm_sent (us_sender st') = comm_sent (us_sender st) @ [JFFrame_bytes m] \<and>
    image_id (jf_common m) = jfp_bunchid_u64 p0 \<and>
    unat (n_missing_packets (jf_common m)) = 128 - length (p0 # qs @ [l]) \<and>
    (\<forall>p \<in> set (p0 # qs @ [l]).
       segment (unat (jfp_packetnum p) * 8192) 8192 (us_frame st') = jfp_data p) \<and>
    read_slot (comm_buffer (us_sender st')) (jfp_bunchid_u64 p0) = Inr (us_frame st') \<and>
    frames_counter (us_stats st') = frames_counter (us_stats st) + 1"
proof -
  have ps: "\<forall>p \<in> set (p0 # qs @ [l]). length (jfp_data p) = 8192 \<and> jfp_framenum p = k \<and>
      unat (jfp_packetnum p) < 128"
    using assms(3,4,5) by auto
  have dist: "distinct (map (\<lambda>p. unat (jfp_packetnum p)) (p0 # qs @ [l]))"
    using assms(6) by (simp only: distinct_map_unat)
  have l: "unat (jfp_packetnum l) = 128 - 1" using assms(5) by simp
  have frame: "length (us_frame st) = rb_size (comm_buffer (us_sender st))"
    and fits: "128 * 8192 \<le> length (us_frame st)" using assms(8,9) by simp_all
  define xs where "xs = p0 # qs @ [l]"
  obtain st' m where r: "forE jf_process_packet xs st = Inr st'"
    "comm_sent (us_sender st') = comm_sent (us_sender st) @ [JFFrame_bytes m]"
    "jf_common m = (jf_common (jf_start_frame p0 (us_meta st)))
       \<lparr>n_missing_packets := word_of_nat jf_N_PACKETS_PER_FRAME - word_of_nat (length xs)\<rparr>"
    "read_slot (comm_buffer (us_sender st')) (image_id (jf_common m)) = Inr (us_frame st')"
    "\<forall>q \<in> set xs. segment (unat (jfp_packetnum q) * 8192) 8192 (us_frame st') = jfp_data q"
    "us_stats st' = frame_process (n_missing_packets (jf_common m)) (us_stats st)" "length xs \<le> 128"
    using jf.receive_blocks [OF assms(1,2) ps l dist assms(7) frame fits] unfolding xs_def by blast
  have "unat (n_missing_packets (jf_common m)) = 128 - length xs"
    using r(7) by (simp add: r(3)) (subst unat_sub, simp_all add: jf_consts word_le_nat_alt unat_of_nat)
  moreover have "image_id (jf_common m) = jfp_bunchid_u64 p0" by (simp add: r(3) jf_start_frame_def)
  moreover have "frames_counter (us_stats st') = frames_counter (us_stats st) + 1"
    by (simp add: r(6) frame_process_def timed_process_def Let_def)
  ultimately show ?thesis using r(1,2,4,5) unfolding xs_def by metis
qed

lemma eg_sizes:
  assumes "bit_depth config \<in> {8, 16, 32}"
  shows "unat (eg_N_PACKETS_PER_FRAME config) * 4096 = unat (eg_FRAME_N_BYTES config)"
    and "unat (ucast (ucast (eg_N_PACKETS_PER_FRAME config) :: u16) :: u64) =
      unat (eg_N_PACKETS_PER_FRAME config)"
    and "unat (eg_N_PACKETS_PER_FRAME config) \<in> {32, 64, 128}"
  using assms by (auto simp: eg_N_PACKETS_PER_FRAME_def eg_FRAME_N_BYTES_def eg_consts)

lemma eg_receive_frame:
  assumes "bit_depth config \<in> {8, 16, 32}"
    and "image_id (eg_common (us_meta st)) = INVALID_IMAGE_ID" and "k \<noteq> INVALID_IMAGE_ID"
    and "\<forall>p \<in> set (p0 # qs @ [l]). egp_frame_num p = k \<and> length (egp_data p) = 4096 \<and>
      unat (egp_packet_number p) < unat (eg_N_PACKETS_PER_FRAME config)"
    and "unat (egp_packet_number l) = unat (eg_N_PACKETS_PER_FRAME config) - 1"
    and "distinct (map egp_packet_number (p0 # qs @ [l]))"
    and "rb_wf (comm_buffer (us_sender st))"
    and "length (us_frame st) = unat (eg_FRAME_N_BYTES config)"
    and "rb_data_bytes (comm_buffer (us_sender st)) = eg_FRAME_N_BYTES config"
  shows "\<exists>st' m. forE (eg_process_packet config mid) (p0 # qs @ [l]) st = Inr st' \<and>
    comm_sent (us_sender st') = comm_sent (us_sender st) @ [EGFrame_bytes m] \<and>
    eg_common m = \<lparr>image_id = k, n_missing_packets = word_of_nat
      (unat (eg_N_PACKETS_PER_FRAME config) - length (p0 # qs @ [l])), module_id = mid\<rparr> \<and>
    (\<forall>p \<in> set (p0 # qs @ [l]).
       segment (unat (egp_packet_number p) * 4096) 4096 (us_frame st') = egp_data p) \<and>
    read_slot (comm_buffer (us_sender st')) k = Inr (us_frame st')"
proof -
  define N where "N = unat (eg_N_PACKETS_PER_FRAME config)"
  define xs where "xs = p0 # qs @ [l]"
  have ps: "\<forall>p \<in> set xs. length (egp_data p) = 4096 \<and> egp_frame_num p = k \<and>
      unat (egp_packet_number p) < unat (eg_N_PACKETS_PER_FRAME config)"
    using assms(4) unfolding xs_def by blast
  have dist: "distinct (map (\<lambda>p. unat (egp_packet_number p)) xs)"
    using assms(6) by (simp only: distinct_map_unat xs_def)
  have frame: "length (us_frame st) = rb_size (comm_buffer (us_sender st))"
    and fits: "unat (eg_N_PACKETS_PER_FRAME config) * 4096 \<le> length (us_frame st)"
    using assms(8,9) eg_sizes(1) [OF assms(1)] by simp_all
  obtain st' m where r: "forE (eg_process_packet config mid) xs st = Inr st'"
    "comm_sent (us_sender st') = comm_sent (us_sender st) @ [EGFrame_bytes m]"
    "eg_common m = (eg_common (eg_init_frame_metadata mid (ucast (eg_N_PACKETS_PER_FRAME config))
        (word_of_int (bit_depth config)) p0 (us_meta st)))
       \<lparr>n_missing_packets := ucast (ucast (eg_N_PACKETS_PER_FRAME config) :: u16) - word_of_nat (length xs)\<rparr>"
    "read_slot (comm_buffer (us_sender st')) (image_id (eg_common m)) = Inr (us_frame st')"
    "\<forall>q \<in> set xs. segment (unat (egp_packet_number q) * 4096) 4096 (us_frame st') = egp_data q"
    "length xs \<le> N"
    using eg.receive_blocks [OF assms(2,3) ps [unfolded xs_def] assms(5) dist [unfolded xs_def]
        assms(7) frame fits, of mid] unfolding xs_def N_def by blast
  have "(ucast (ucast (eg_N_PACKETS_PER_FRAME config) :: u16) :: u64) = word_of_nat N"
    using arg_cong [OF eg_sizes(2) [OF assms(1)], of "word_of_nat :: nat \<Rightarrow> u64"] by (simp add: N_def)
  moreover have "word_of_nat N - word_of_nat (length xs) = (word_of_nat (N - length xs) :: u64)"
    using r(6) by (simp add: of_nat_diff)
  moreover have "egp_frame_num p0 = k" using ps by (simp add: xs_def)
  ultimately have cm: "eg_common m = \<lparr>image_id = k, n_missing_packets = word_of_nat (N - length xs), module_id = mid\<rparr>"
    by (simp add: r(3) eg_init_frame_metadata_def)
  from r(4) have "read_slot (comm_buffer (us_sender st')) k = Inr (us_frame st')" by (simp add: cm)
  with r(1,2,5) cm show ?thesis unfolding xs_def N_def by blast
qed

text \<open>C19. An Eiger frame of 8, 16 or 32 bits per pixel of which the last packet arrives last and at least one
  other packet before it is sent exactly once under its frame number, with every packet that arrived in its place and the
  exact number of missing packets.\<close>

theorem eg_frame_received:
  assumes "bit_depth config \<in> {8, 16, 32}"
    and "image_id (eg_common (us_meta st)) = INVALID_IMAGE_ID" and "k \<noteq> INVALID_IMAGE_ID"
    and "\<forall>p \<in> set (p0 # qs @ [l]). egp_frame_num p = k \<and> length (egp_data p) = 4096 \<and>
      unat (egp_packet_number p) < unat (eg_N_PACKETS_PER_FRAME config)"
    and "unat (egp_packet_number l) = unat (eg_N_PACKETS_PER_FRAME config) - 1"
    and "distinct (map egp_packet_number (p0 # qs @ [l]))"
    and "rb_wf (comm_buffer (us_sender st))"
    and "length (us_frame st) = unat (eg_FRAME_N_BYTES config)"
    and "rb_data_bytes (comm_buffer (us_sender st)) = eg_FRAME_N_BYTES config"
  shows "\<exists>st' m. forE (eg_process_packet config mid) (p0 # qs @ [l]) st = Inr st' \<and>
    comm_sent (us_sender st') = comm_sent (us_sender st) @ [EGFrame_bytes m] \<and>
    eg_common m = \<lparr>image_id = k, n_missing_packets = word_of_nat
      (unat (eg_N_PACKETS_PER_FRAME config) - length (p0 # qs @ [l])), module_id = mid\<rparr> \<and>
    (\<forall>p \<in> set (p0 # qs @ [l]).
       segment (unat (egp_packet_number p) * 4096) 4096 (us_frame st') = egp_data p) \<and>
    read_slot (comm_buffer (us_sender st')) k = Inr (us_frame st')"
  using eg_receive_frame [OF assms] .

text \<open>A Jungfrau or Eiger frame of which only the last packet arrives is not sent by it: the packet starts the frame, and only the
  first packet of another frame sends it.\<close>

lemma jf_only_last_packet:
  assumes "jf_frame_index (us_meta st) = INVALID_IMAGE_ID" and "jfp_framenum l \<noteq> INVALID_IMAGE_ID"
    and "jfp_packetnum l = 127" and "length (jfp_data l) = 8192" and "length (us_frame st) = 128 * 8192"
  shows "\<exists>st'. jf_process_packet l st = Inr st' \<and> comm_sent (us_sender st') = comm_sent (us_sender st) \<and>
    jf_frame_index (us_meta st') = jfp_framenum l \<and> unat (n_missing_packets (jf_common (us_meta st'))) = 127"
  using assms by (simp add: jf_process_packet_def copy_packet_def jf_offset_def jf_start_frame_def one_packet_less_def
    jf_consts Let_def)

lemma eg_only_last_packet:
  assumes "image_id (eg_common (us_meta st)) = INVALID_IMAGE_ID" and "egp_frame_num l \<noteq> INVALID_IMAGE_ID"
    and "eg_offset l + length (egp_data l) \<le> length (us_frame st)"
  shows "\<exists>st'. eg_process_packet config mid l st = Inr st' \<and> comm_sent (us_sender st') = comm_sent (us_sender st) \<and>
    image_id (eg_common (us_meta st')) = egp_frame_num l"
  using assms by (simp add: eg_process_packet_def copy_packet_def eg_init_frame_metadata_def one_packet_less_def Let_def)

text \<open>The packet number is not checked: a Jungfrau packet with a number from 128 on makes the
  receiver write behind its frame buffer.\<close>

theorem jf_packet_number_unchecked:
  assumes "length (us_frame st) = jf_MODULE_N_BYTES" and "length (jfp_data p) = 8192"
    and "128 \<le> unat (jfp_packetnum p)" and "unat (jfp_packetnum p) < 2 ^ 19"
    and "jf_frame_index (us_meta st) \<in> {jfp_framenum p, INVALID_IMAGE_ID}"
  shows "jf_process_packet p st = Inl (Undefined ''memcpy out of range'')"
proof -
  have "unat (jfp_packetnum p) * 8192 < 2 ^ 32" using assms(4) by simp
  then have "jf_offset p = unat (jfp_packetnum p) * 8192"
    by (simp add: jf_offset_def jf_consts unat_word_ariths)
  then have "\<not> jf_offset p + length (jfp_data p) \<le> length (us_frame st)"
    using assms(1-3) by (simp add: jf_consts)
  then show ?thesis
    using assms(5) by (auto simp: jf_process_packet_def copy_packet_def memcpy_def Let_def)
qed

text \<open>The flag "do not store" of an image is bit 15 of \<open>image_status_flags\<close> according to the packet
  format, but \<open>init_frame_metadata\<close> takes bit 0: a frame with only bit 15 set is stored, and
  one with only the debug bit 0 set is not.\<close>

theorem gf_do_not_store_takes_bit_0:
  "gf_do_not_store (gf_init_frame_metadata g p m) = (if bit (gfp_image_status_flags p) 0 then 1 else 0)"
proof -
  have "gfp_image_status_flags p AND 1 = of_bool (bit (gfp_image_status_flags p) 0)"
    by (simp add: and_one_eq mod_2_eq_odd bit_0)
  then show ?thesis by (simp add: gf_init_frame_metadata_def)
qed

definition gf_odd_config :: DetectorConfig where
  "gf_odd_config = example_config\<lparr>image_pixel_height := 1004, image_pixel_width := 1488\<rparr>"

text \<open>The frame buffer of the GigaFRoST receiver has \<open>module_n_data_bytes\<close> bytes, but the last packet of a
  frame with an odd number of rows and a width that is no multiple of 48 carries 36 bytes of
  padding, which are copied behind the end of the buffer: here for an image of 1488 by 1004.\<close>

theorem gf_last_packet_overflows:
  assumes "gf_geometry_of gf_odd_config = Inr g" and "gf_is_last g p"
    and "length (gfp_data p) = gf_PACKET_N_DATA_BYTES_MAX"
    and "length (us_frame st) = unat (gg_bytes_per_module g)"
  shows "gf_process_packet g p st = Inl (Undefined ''memcpy out of range'')"
proof -
  have g: "g = \<lparr>gg_width = 744, gg_height = 251, gg_bytes_per_module = 280116,
      gg_bytes_per_packet = 6696, gg_packets_in_frame = 42, gg_bytes_of_last_packet = 5616,
      gg_start_row_last_packet = 246, gg_bytes_of_frame = 280152\<rparr>"
    using assms(1) by (simp add: gf_geometry_of_def gf_odd_config_def example_config_def
        n_rows_per_packet_def n_data_bytes_per_packet_def n_packets_per_frame_def
        module_n_x_pixels_def module_n_y_pixels_def module_n_data_bytes_def
        gf_PACKET_N_DATA_BYTES_MAX_def Let_def)
  have "unat (ucast (gfp_packet_starting_row p) :: u64) = 246"
    using assms(2) by (simp add: gf_is_last_def g)
  then have row: "unat (gfp_packet_starting_row p) = 246" by (simp add: unat_ucast_up)
  then have "unat (ucast (gfp_packet_starting_row p) * (744 :: u32)) = 183024"
    by (simp add: unat_word_ariths unat_ucast_up)
  then have "gf_offset g p = 274536" by (simp add: gf_offset_def g)
  then show ?thesis
    using assms(2-4) by (simp add: gf_process_packet_def g copy_packet_def memcpy_def Let_def
        gf_PACKET_N_DATA_BYTES_MAX_def)
qed

text \<open>The geometry in natural numbers, for the sizes the detector has and module widths that are a
  multiple of 48 pixels (no padding in the packets).\<close>

definition gf_plain :: "DetectorConfig \<Rightarrow> bool" where
  "gf_plain config \<longleftrightarrow> 96 \<le> image_pixel_width config \<and> image_pixel_width config \<le> 2016 \<and>
     4 \<le> image_pixel_height config \<and> image_pixel_height config \<le> 2016 \<and>
     image_pixel_width config mod 96 = 0"

lemma gf_plain_pixels:
  assumes "gf_plain config"
  obtains v h where "unat (module_n_x_pixels (image_pixel_width config)) = 48 * v" "0 < v" "v \<le> 21"
    "unat (module_n_y_pixels (image_pixel_height config)) = h" "0 < h" "h \<le> 504"
proof -
  obtain q where q: "image_pixel_width config = 96 * q"
    using assms by (auto simp: gf_plain_def mod_eq_0_iff_dvd elim: dvdE)
  define v where "v = nat q"
  define h where "h = nat (image_pixel_height config div 4)"
  have "1 \<le> q" "q \<le> 21" using assms q by (simp_all add: gf_plain_def)
  then have w: "int_quot (image_pixel_width config) 2 = 48 * int v" "0 < v" "v \<le> 21"
    by (simp_all add: q v_def)
  have "image_pixel_height config div 2 div 2 = image_pixel_height config div 4"
    using zdiv_zmult2_eq [of 2 "image_pixel_height config" 2] by simp
  moreover have "1 \<le> image_pixel_height config div 4" "image_pixel_height config div 4 \<le> 504"
    using assms unfolding gf_plain_def by presburger+
  ultimately have h: "int_quot (int_quot (image_pixel_height config) 2) 2 = int h" "0 < h" "h \<le> 504"
    using assms by (simp_all add: gf_plain_def h_def)
  show ?thesis
  proof (rule that [of v h])
    show "unat (module_n_x_pixels (image_pixel_width config)) = 48 * v"
    proof -
      have "(word_of_int (48 * int v) :: u32) = word_of_nat (48 * v)" by simp
      moreover have "unat (word_of_nat (48 * v) :: u32) = 48 * v"
        using w(3) by (simp only: unat_of_nat) (simp add: take_bit_nat_eq_self)
      ultimately show ?thesis by (simp only: module_n_x_pixels_def w(1))
    qed
    show "unat (module_n_y_pixels (image_pixel_height config)) = h"
    proof -
      have "unat (word_of_nat h :: u32) = h"
        using h(3) by (simp only: unat_of_nat) (simp add: take_bit_nat_eq_self)
      then show ?thesis by (simp only: module_n_y_pixels_def h(1) of_int_of_nat_eq)
    qed
  qed (use w h in simp_all)
qed

lemma unat_mult_u32: "unat a * unat b < 2 ^ 32 \<Longrightarrow> unat (a * b :: u32) = unat a * unat b"
  by (simp add: unat_word_ariths)

lemma gf_geometry_plain:
  assumes plain: "gf_plain config" and g: "gf_geometry_of config = Inr g"
  obtains v h r lr where "0 < v" "v \<le> 21" "0 < r" "r \<le> h" "h \<le> 504" "0 < lr" "lr \<le> r"
    "lr = (if h mod r = 0 then r else h mod r)"
    "unat (gg_width g) = 48 * v" "unat (gg_bytes_per_module g) = 72 * v * h"
    "unat (gg_bytes_per_packet g) = 72 * v * r" "unat (gg_bytes_of_last_packet g) = 72 * v * lr"
    "unat (gg_start_row_last_packet g) = h - lr"
    "unat (gg_packets_in_frame g) = (h + r - 1) div r"
    "n_rows_per_packet (image_pixel_height config) (image_pixel_width config) = Inr (word_of_nat r)"
proof -
  obtain v h where vh: "unat (module_n_x_pixels (image_pixel_width config)) = 48 * v" "0 < v" "v \<le> 21"
    "unat (module_n_y_pixels (image_pixel_height config)) = h" "0 < h" "h \<le> 504"
    using gf_plain_pixels [OF plain] .
  define w where "w = module_n_x_pixels (image_pixel_width config)"
  define y where "y = module_n_y_pixels (image_pixel_height config)"
  obtain rows where rows: "n_rows_per_packet (image_pixel_height config) (image_pixel_width config) = Inr rows"
    "rows \<noteq> 0"
    using g by (auto simp: gf_geometry_of_def Let_def bindE_eq_Inr split: if_splits)
  define r where "r = unat rows"
  define lr where "lr = (if h mod r = 0 then r else h mod r)"
  have r: "0 < r" "r \<le> h"
    using rows n_rows_per_packet_le [OF rows(1)] vh(4)
    by (simp_all add: r_def word_le_nat_alt unat_gt_0)
  have lr: "0 < lr" "lr \<le> r" "lr \<le> h"
    using r by (auto simp: lr_def mod_less_eq_dividend) 
  have w48: "w mod 48 = 0"
    using vh(1) by (simp add: w_def word_unat_eq_iff unat_mod)
  have bound: "48 * v * x \<le> 508032" if "x \<le> h" for x
    using mult_le_mono [of "48 * v" 1008 x 504] vh(3,6) that by simp
  have prod: "unat (w * rows) = 48 * v * r"
    using bound [OF r(2)] vh(1) by (subst unat_mult_u32) (simp_all add: w_def r_def)
  have total: "unat (w * y) = 48 * v * h"
    using bound [of h] vh(1,4) by (subst unat_mult_u32) (simp_all add: w_def y_def)
  define L :: u64 where "L = (if ucast (y mod rows) = (0 :: u64) then ucast rows else ucast (y mod rows))"
  have L: "unat L = lr"
    using vh(4) by (simp add: L_def lr_def r_def y_def [symmetric] unat_ucast_up unat_mod
        word_unat_eq_iff [of "ucast (y mod rows)"])
  have ge: "g = \<lparr>gg_width = w, gg_height = y, gg_bytes_per_module = ucast (w * y * 3 div 2),
      gg_bytes_per_packet = ucast (w * rows) * 3 div 2,
      gg_packets_in_frame = word_of_nat ((h + r - 1) div r),
      gg_bytes_of_last_packet = ucast w * L * 3 div 2,
      gg_start_row_last_packet = ucast y - L,
      gg_bytes_of_frame = ucast (w * rows) * 3 div 2 * (word_of_nat ((h + r - 1) div r) - 1) +
        ucast w * L * 3 div 2\<rparr>"
    using g rows(2) w48 vh(4)
    by (simp add: gf_geometry_of_def n_data_bytes_per_packet_def n_packets_per_frame_def Let_def
        rows(1) module_n_data_bytes_def w_def [symmetric] y_def [symmetric] L_def r_def)
  have small: "48 * v * x * 3 div 2 = 72 * v * x" for x :: nat by simp
  have b1: "unat (w * y * 3 div 2) = 72 * v * h"
    using bound [of h] total by (simp add: unat_div unat_mult_u32 small)
  have b2: "unat ((ucast (w * rows) :: u64) * 3 div 2) = 72 * v * r"
    using bound [OF r(2)] prod by (simp add: unat_div unat_mult_no_wrap unat_ucast_up small)
  have b3: "unat ((ucast w :: u64) * L * 3 div 2) = 72 * v * lr"
    using bound [OF lr(3)] vh(1) L
    by (simp add: unat_div unat_mult_no_wrap unat_ucast_up small w_def)
  have b4: "unat (ucast y - L) = h - lr"
    using L lr(3) vh(4) by (subst unat_sub) (simp_all add: word_le_nat_alt unat_ucast_up y_def)
  have "(h + r - 1) div r \<le> h + r - 1" by (rule div_le_dividend)
  also have "\<dots> \<le> 1007" using r vh(6) by simp
  finally have "(h + r - 1) div r < 2 ^ 64" by simp
  then have b5: "unat (word_of_nat ((h + r - 1) div r) :: u64) = (h + r - 1) div r"
    by (simp only: unat_of_nat) (simp add: take_bit_nat_eq_self)
  show ?thesis
    by (rule that [of v r h lr]) (use rows vh r lr b1 b2 b3 b4 b5 in \<open>simp_all add: ge w_def lr_def r_def unat_ucast_up\<close>)
qed

lemma last_rows_start:
  fixes h r :: nat
  assumes "0 < r" and "r \<le> h" and "lr = (if h mod r = 0 then r else h mod r)"
  shows "h - lr = ((h + r - 1) div r - 1) * r"
proof (cases "h mod r = 0")
  case True
  then obtain q where q: "h = r * q" by (auto simp: mod_eq_0_iff_dvd elim: dvdE)
  have "(h + r - 1) div r = q"
    using assms(1) q by (simp add: div_nat_eqI algebra_simps)
  then show ?thesis using True assms q by (simp add: algebra_simps diff_mult_distrib2)
next
  case False
  define q where "q = h div r"
  have h: "h = q * r + h mod r" by (simp add: q_def)
  have "(h + r - 1) div r = q + 1"
    using assms(1) False h mod_less_divisor [OF assms(1), of h]
    by (intro div_nat_eqI) (auto simp: algebra_simps)
  then show ?thesis using False assms(3) h by simp
qed

text \<open>Positions of the packets of a plain geometry: the packet of row block \<open>i\<close> starts at byte
  \<open>i * 72 * v * r\<close>.\<close>

lemma gf_offset_plain:
  assumes "unat (gg_width g) = 48 * v" and "v \<le> 21" and "unat (gfp_packet_starting_row p) \<le> 504"
  shows "gf_offset g p = 72 * v * unat (gfp_packet_starting_row p)"
proof -
  have "unat (gfp_packet_starting_row p) * (48 * v) \<le> 504 * 1008"
    using assms(2,3) by (intro mult_le_mono) simp_all
  then have "unat (ucast (gfp_packet_starting_row p) * gg_width g) =
      unat (gfp_packet_starting_row p) * (48 * v)"
    using assms(1) by (subst unat_mult_u32) (simp_all add: unat_ucast_up)
  then show ?thesis by (simp add: gf_offset_def)
qed

lemma gf_is_last_unat:
  "gf_is_last g p \<longleftrightarrow> unat (gfp_packet_starting_row p) = unat (gg_start_row_last_packet g)"
  by (simp add: gf_is_last_def word_unat_eq_iff [of "ucast _ :: u64"] unat_ucast_up)

lemma ucast_not_INVALID: "(ucast (k :: u32) :: u64) \<noteq> INVALID_IMAGE_ID"
proof
  assume "(ucast k :: u64) = INVALID_IMAGE_ID"
  then have "unat (ucast k :: u64) = unat (- 1 :: u64)" by (simp add: INVALID_IMAGE_ID_def)
  also have "unat (- 1 :: u64) = 18446744073709551615"
    by (simp add: unsigned_minus_1_eq_mask mask_eq_exp_minus_1)
  finally have "unat k = 18446744073709551615" by (simp add: unat_ucast_up)
  moreover have "unat k < 2 ^ LENGTH(32)" by (rule unsigned_less)
  ultimately show False by simp
qed

text \<open>The packets of a plain geometry are blocks of \<open>b\<close> bytes, of which the last one may be shorter; \<open>idx\<close> is the
  number of a block.\<close>

lemma gf_packet_places:
  assumes "gf_plain config" and "gf_geometry_of config = Inr g"
    and "n_rows_per_packet (image_pixel_height config) (image_pixel_width config) = Inr rows"
    and "\<forall>p \<in> set ps. unat rows dvd unat (gfp_packet_starting_row p) \<and>
      unat (gfp_packet_starting_row p) < unat (gg_start_row_last_packet g)" and "gf_is_last g l"
  obtains M r b idx where "\<forall>p \<in> set ps. unat (gfp_packet_starting_row p) = idx p * r \<and> idx p < M" and "idx l = M"
    and "\<forall>p \<in> set (ps @ [l]). gf_offset g p = idx p * b \<and> gf_n_bytes g p \<le> b \<and>
      idx p * b + gf_n_bytes g p \<le> unat (gg_bytes_per_module g)"
proof -
  obtain v h r lr where g: "0 < v" "v \<le> 21" "0 < r" "r \<le> h" "h \<le> 504" "0 < lr" "lr \<le> r"
    "lr = (if h mod r = 0 then r else h mod r)"
    "unat (gg_width g) = 48 * v" "unat (gg_bytes_per_module g) = 72 * v * h"
    "unat (gg_bytes_per_packet g) = 72 * v * r" "unat (gg_bytes_of_last_packet g) = 72 * v * lr"
    "unat (gg_start_row_last_packet g) = h - lr"
    "unat (gg_packets_in_frame g) = (h + r - 1) div r"
    "n_rows_per_packet (image_pixel_height config) (image_pixel_width config) = Inr (word_of_nat r)"
    by (rule gf_geometry_plain [OF assms(1,2)])
  define idx where "idx p = unat (gfp_packet_starting_row p) div r" for p :: GFUdpPacket
  define M where "M = (h + r - 1) div r - 1"
  define b where "b = 72 * v * r"
  have M: "h - lr = M * r" using last_rows_start [OF g(3,4,8)] by (simp add: M_def)
  have "rows = word_of_nat r" "r < 2 ^ 32" using assms(3) g(4,5,15) by simp_all
  then have rows: "unat rows = r" by (simp only: unat_of_nat) (simp add: take_bit_nat_eq_self)
  have l: "unat (gfp_packet_starting_row l) = M * r" "idx l = M"
    using assms(5) g(3,13) M by (simp_all add: gf_is_last_unat idx_def)
  have row: "unat (gfp_packet_starting_row p) = idx p * r" "idx p < M" if "p \<in> set ps" for p
  proof -
    show "unat (gfp_packet_starting_row p) = idx p * r" using assms(4) that rows by (auto simp: idx_def)
    then show "idx p < M" using assms(4) that g(13) M by auto
  qed
  have "h = M * r + lr" using M g(4,7) by linarith
  then have len: "unat (gg_bytes_per_module g) = M * b + 72 * v * lr" using g(10) by (simp add: b_def algebra_simps)
  have "M * r \<le> 504" using M g(5) by linarith
  then have "gf_offset g l = idx l * b \<and> gf_n_bytes g l \<le> b \<and> idx l * b + gf_n_bytes g l \<le> unat (gg_bytes_per_module g)"
    using l g(7,12) assms(5) gf_offset_plain [OF g(9,2), of l] len by (simp add: gf_n_bytes_def b_def)
  moreover have "gf_offset g p = idx p * b \<and> gf_n_bytes g p \<le> b \<and> idx p * b + gf_n_bytes g p \<le> unat (gg_bytes_per_module g)"
    if p: "p \<in> set ps" for p
  proof -
    have "idx p * r \<le> M * r" using row(2) [OF p] by simp
    then have "idx p * r \<le> 504" using \<open>M * r \<le> 504\<close> by linarith
    moreover have "\<not> gf_is_last g p" using assms(4) p by (auto simp: gf_is_last_unat)
    ultimately show ?thesis
      using row [OF p] g(11) gf_offset_plain [OF g(9,2), of p] len block_in_range [OF row(2) [OF p], of b]
      by (simp add: gf_n_bytes_def b_def)
  qed
  ultimately show thesis using that [of idx r M b] row l(2) by auto
qed

lemma gf_packet_numbers_distinct:
  assumes "\<forall>p \<in> set ps. unat (gfp_packet_starting_row p) = idx p * r \<and> idx p < M" and "idx l = (M :: nat)"
    and "distinct (map gfp_packet_starting_row ps)"
  shows "distinct (map idx (ps @ [l]))"
proof -
  have inj: "inj_on gfp_packet_starting_row (set ps)" using assms(3) by (simp only: distinct_map)
  have "inj_on idx (set ps)"
  proof (rule inj_onI)
    fix a c assume ac: "a \<in> set ps" "c \<in> set ps" "idx a = idx c"
    then have "gfp_packet_starting_row a = gfp_packet_starting_row c" using assms(1) by (simp only: word_unat_eq_iff)
    then show "a = c" using inj_onD [OF inj] ac(1,2) by blast
  qed
  moreover have "distinct ps" using assms(3) by (simp only: distinct_map)
  moreover have "M \<notin> idx ` set ps" using assms(1) by fastforce
  ultimately show ?thesis using assms(2) by (simp only: map_append distinct_append distinct_map) simp
qed

text \<open>C15. A GigaFRoST frame of a plain geometry (an image of 96 to 2016 pixels width, a multiple of 96, and 4 to 2016 pixels
  height, so that no packet is padded), of which the last packet arrives last and at least one
  other packet before it, is sent exactly once under its frame index, with every packet that arrived in its place and the exact
  number of missing packets; none of the copies leaves the frame buffer.\<close>

theorem gf_frame_received:
  assumes "gf_plain config" and "gf_geometry_of config = Inr g"
    and "n_rows_per_packet (image_pixel_height config) (image_pixel_width config) = Inr rows"
    and "image_id (gf_common (us_meta st)) = INVALID_IMAGE_ID"
    and "\<forall>p \<in> set (p0 # qs @ [l]). gfp_frame_index p = k \<and> gf_n_bytes g p \<le> length (gfp_data p)"
    and "\<forall>p \<in> set (p0 # qs). unat rows dvd unat (gfp_packet_starting_row p) \<and>
      unat (gfp_packet_starting_row p) < unat (gg_start_row_last_packet g)"
    and "gf_is_last g l" and "distinct (map gfp_packet_starting_row (p0 # qs))"
    and "rb_wf (comm_buffer (us_sender st))"
    and "length (us_frame st) = unat (gg_bytes_per_module g)"
    and "rb_data_bytes (comm_buffer (us_sender st)) = gg_bytes_per_module g"
  shows "\<exists>st' m. forE (gf_receive_packet g) (p0 # qs @ [l]) st = Inr st' \<and>
    comm_sent (us_sender st') = comm_sent (us_sender st) @ [GFFrame_bytes m] \<and>
    image_id (gf_common m) = ucast k \<and>
    n_missing_packets (gf_common m) = gg_packets_in_frame g - word_of_nat (length (p0 # qs @ [l])) \<and>
    (\<forall>p \<in> set (p0 # qs @ [l]). segment (gf_offset g p) (gf_n_bytes g p) (us_frame st') =
       take (gf_n_bytes g p) (gfp_data p)) \<and>
    read_slot (comm_buffer (us_sender st')) (ucast k) = Inr (us_frame st')"
proof -
  define xs where "xs = p0 # qs @ [l]"
  obtain M r b idx where rows: "\<forall>p \<in> set (p0 # qs). unat (gfp_packet_starting_row p) = idx p * r \<and> idx p < M" "idx l = M"
    and places: "\<forall>p \<in> set ((p0 # qs) @ [l]). gf_offset g p = idx p * b \<and> gf_n_bytes g p \<le> b \<and>
      idx p * b + gf_n_bytes g p \<le> unat (gg_bytes_per_module g)"
    by (rule gf_packet_places [OF assms(1-3,6,7)])
  have pos: "gf_offset g p = idx p * b" "gf_n_bytes g p \<le> b" "idx p * b + gf_n_bytes g p \<le> length (us_frame st)" if "p \<in> set xs" for p
    using places that assms(10) by (auto simp: xs_def)
  have not_last: "\<forall>p \<in> set (p0 # qs). \<not> gf_is_last g p" using assms(6) by (auto simp: gf_is_last_unat)
  have dist: "distinct (map idx xs)" using gf_packet_numbers_distinct [OF rows assms(8)] by (simp add: xs_def)
  have all: "\<forall>p \<in> set xs. gf_n_bytes g p \<le> length (gfp_data p) \<and> ucast (gfp_frame_index p) = (ucast k :: u64) \<and>
      gf_offset g p + length (take (gf_n_bytes g p) (gfp_data p)) \<le> length (us_frame st)"
    using assms(5) [folded xs_def] pos by simp
  have apart: "sorted_wrt (gf.apart g) xs"
    by (rule sorted_wrt_mono_rel [OF _ packet_blocks_apart [OF dist, of b]])
      (use pos in \<open>fastforce simp: gf.apart_def\<close>)
  have frame: "length (us_frame st) = rb_size (comm_buffer (us_sender st))"
    using assms(10,11) by simp
  have k: "(ucast k :: u64) \<noteq> INVALID_IMAGE_ID"
    by (rule ucast_not_INVALID)
  obtain st' m where r: "forE (gf_receive_packet g) xs st = Inr st'"
    "comm_sent (us_sender st') = comm_sent (us_sender st) @ [GFFrame_bytes m]"
    "gf_common m = (gf_common (gf_init_frame_metadata g p0 (us_meta st)))
       \<lparr>n_missing_packets := gg_packets_in_frame g - word_of_nat (length xs)\<rparr>"
    "read_slot (comm_buffer (us_sender st')) (image_id (gf_common m)) = Inr (us_frame st')"
    "gf.collected g xs (us_frame st')"
    using gf.receive_frame [OF assms(4) k all [unfolded xs_def] not_last assms(7) apart [unfolded xs_def]
        assms(9) frame] unfolding xs_def by blast
  have m: "image_id (gf_common m) = ucast k"
    "n_missing_packets (gf_common m) = gg_packets_in_frame g - word_of_nat (length xs)"
    using assms(5) by (simp_all add: r(3) gf_init_frame_metadata_def)
  moreover have "\<forall>p \<in> set xs. segment (gf_offset g p) (gf_n_bytes g p) (us_frame st') =
      take (gf_n_bytes g p) (gfp_data p)"
    using r(5) assms(5) [folded xs_def] by (simp add: gf.collected_def)
  moreover have "read_slot (comm_buffer (us_sender st')) (ucast k) = Inr (us_frame st')"
    using r(4) m(1) by simp
  ultimately show ?thesis using r(1,2) unfolding xs_def by blast
qed

section \<open>Examples\<close>

text \<open>A sender over a buffer of one slot.\<close>

definition ex_sender :: "nat \<Rightarrow> Communicator" where
  "ex_sender n = \<lparr>comm_buffer = \<lparr>rb_n_slots = 1, rb_data_bytes = word_of_nat n,
     rb_buffer_bytes = word_of_nat n, rb_buffer = replicate n 0\<rparr>, comm_sent = []\<rparr>"

definition ex_stats :: FrameStatsCollector where
  "ex_stats = \<lparr>sc_detector_name = [], sc_period = 10, sc_last_update_time = 0, processed_times = 0,
     source_suffix = [], previous_time = 0, ms_module_id = 0, frames_counter = 0,
     n_missed_packets = 0, n_corrupted_frames = 0\<rparr>"

definition ex_state :: "'m \<Rightarrow> nat \<Rightarrow> 'm udp_state" where
  "ex_state m n = \<lparr>us_meta = m, us_frame = replicate n 0, us_sender = ex_sender n, us_stats = ex_stats\<rparr>"

lemma ex_sender_wf: "n < 2 ^ 64 \<Longrightarrow> rb_wf (comm_buffer (us_sender (ex_state m n)))"
  and ex_sender_size: "n < 2 ^ 64 \<Longrightarrow> rb_size (comm_buffer (us_sender (ex_state m n))) = n"
  by (simp_all add: ex_state_def ex_sender_def rb_wf_def unat_of_nat take_bit_nat_eq_self)

definition ex_jf_packet :: "u32 \<Rightarrow> JFUdpPacket" where
  "ex_jf_packet n = \<lparr>jfp_framenum = 9, jfp_packetnum = n, jfp_bunchid_u64 = 77, jfp_debug = 0,
     jfp_data = replicate 8192 (ucast n)\<rparr>"

theorem jf_frame_received_witness:
  "\<exists>st' m. forE jf_process_packet [ex_jf_packet 3, ex_jf_packet 127] (ex_state (jf_init_meta 0) 1048576) =
      Inr st' \<and> comm_sent (us_sender st') = [JFFrame_bytes m] \<and> image_id (jf_common m) = 77 \<and>
      unat (n_missing_packets (jf_common m)) = 126"
  using jf_frame_received [of "ex_state (jf_init_meta 0) 1048576" 9 "ex_jf_packet 3" "[]" "ex_jf_packet 127",
      OF _ _ _ _ _ _ ex_sender_wf] ex_sender_size [of 1048576]
  by (simp add: ex_jf_packet_def) (auto simp: ex_state_def jf_init_meta_def INVALID_IMAGE_ID_def ex_sender_def)

definition ex_eg_packet :: "u32 \<Rightarrow> EGUdpPacket" where
  "ex_eg_packet n = \<lparr>egp_frame_num = 9, egp_packet_number = n, egp_row = 0, egp_column = 1,
     egp_data = replicate 4096 (ucast n)\<rparr>"

lemma ex_eg_sizes: "eg_FRAME_N_BYTES example_config = 262144" "eg_N_PACKETS_PER_FRAME example_config = 64"
  by (simp_all add: eg_FRAME_N_BYTES_def eg_N_PACKETS_PER_FRAME_def example_config_def eg_consts)

theorem eg_frame_received_witness:
  "\<exists>st' m. forE (eg_process_packet example_config 5) [ex_eg_packet 3, ex_eg_packet 63]
      (ex_state (eg_init_meta 5) 262144) = Inr st' \<and> comm_sent (us_sender st') = [EGFrame_bytes m] \<and>
      eg_common m = \<lparr>image_id = 9, n_missing_packets = 62, module_id = 5\<rparr>"
proof -
  have "bit_depth example_config \<in> {8, 16, 32}" by (simp add: example_config_def)
  from eg_frame_received [OF this, of "ex_state (eg_init_meta 5) 262144" 9 "ex_eg_packet 3" "[]" "ex_eg_packet 63" 5]
  show ?thesis
    using ex_sender_wf [of 262144 "eg_init_meta 5"]
    by (simp add: ex_eg_sizes ex_eg_packet_def)
      (auto simp: ex_state_def eg_init_meta_def INVALID_IMAGE_ID_def ex_sender_def)
qed

theorem jf_packet_number_unchecked_witness:
  "jf_process_packet (ex_jf_packet 200) (ex_state (jf_init_meta 0) 1048576) =
     Inl (Undefined ''memcpy out of range'')"
  by (rule jf_packet_number_unchecked)
    (simp_all add: ex_state_def jf_consts ex_jf_packet_def jf_init_meta_def)

definition ex_gf_packet :: "u16 \<Rightarrow> GFUdpPacket" where
  "ex_gf_packet row = \<lparr>gfp_protocol_id = 0xCB, gfp_quadrant_row_length_in_blocks = 84,
     gfp_quadrant_rows = 0, gfp_status_flags = 0, gfp_scan_id = 0, gfp_frame_index = 12,
     gfp_image_status_flags = 0, gfp_packet_starting_row = row, gfp_image_timing = 0,
     gfp_sync_time = 0, gfp_scan_time = 0, gfp_data = replicate 7400 0\<rparr>"

definition ex_gf_geometry :: gf_geometry where
  "ex_gf_geometry = \<lparr>gg_width = 1008, gg_height = 504, gg_bytes_per_module = 762048,
     gg_bytes_per_packet = 6048, gg_packets_in_frame = 126, gg_bytes_of_last_packet = 6048,
     gg_start_row_last_packet = 500, gg_bytes_of_frame = 762048\<rparr>"

lemma ex_gf_geometry_of: "gf_geometry_of example_config = Inr ex_gf_geometry"
  by (simp add: gf_geometry_of_def ex_gf_geometry_def example_config_def gf_full_frame Let_def)

theorem gf_frame_received_witness:
  "\<exists>st' m. forE (gf_receive_packet ex_gf_geometry) [ex_gf_packet 8, ex_gf_packet 0, ex_gf_packet 500]
      (ex_state (gf_init_meta 3) 762048) = Inr st' \<and> comm_sent (us_sender st') = [GFFrame_bytes m] \<and>
      image_id (gf_common m) = 12 \<and> n_missing_packets (gf_common m) = 123"
proof -
  have plain: "gf_plain example_config" by (simp add: gf_plain_def example_config_def)
  have rows: "n_rows_per_packet (image_pixel_height example_config) (image_pixel_width example_config) = Inr 4"
    by (simp add: example_config_def gf_full_frame)
  have n: "gf_n_bytes ex_gf_geometry p = 6048" for p
    by (simp add: gf_n_bytes_def ex_gf_geometry_def)
  from gf_frame_received [OF plain ex_gf_geometry_of rows, of "ex_state (gf_init_meta 3) 762048"
      "ex_gf_packet 8" "[ex_gf_packet 0]" "ex_gf_packet 500" 12]
  show ?thesis
    using ex_sender_wf [of 762048 "gf_init_meta 3"]
    by (simp add: n ex_gf_packet_def gf_is_last_unat)
      (auto simp: ex_state_def gf_init_meta_def ex_gf_geometry_def INVALID_IMAGE_ID_def ex_sender_def)
qed

theorem gf_last_packet_overflows_witness:
  "\<exists>g. gf_geometry_of gf_odd_config = Inr g \<and>
     gf_process_packet g (ex_gf_packet 246) (ex_state (gf_init_meta 3) (unat (gg_bytes_per_module g))) =
       Inl (Undefined ''memcpy out of range'')"
proof -
  obtain g where g: "gf_geometry_of gf_odd_config = Inr g" "gg_start_row_last_packet g = 246"
    by (simp add: gf_geometry_of_def gf_odd_config_def example_config_def
        n_rows_per_packet_def n_data_bytes_per_packet_def n_packets_per_frame_def
        module_n_x_pixels_def module_n_y_pixels_def module_n_data_bytes_def
        gf_PACKET_N_DATA_BYTES_MAX_def Let_def)
  show ?thesis
    by (rule exI [of _ g], rule conjI [OF g(1)], rule gf_last_packet_overflows [OF g(1)])
      (simp_all add: gf_is_last_def g(2) ex_gf_packet_def ex_state_def gf_PACKET_N_DATA_BYTES_MAX_def)
qed

end
