(* ===== verification/Bitshuffle.thy ===== *)
theory Bitshuffle
  imports Formats
begin

unbundle bit_operations_syntax

text \<open>
  The scalar routines of \<open>external/bitshuffle/bitshuffle_core.c\<close>, with which images are compressed: the
  bits of \<open>size\<close> elements of \<open>elem_size\<close> bytes are rearranged so that equal bits of all elements
  are next to each other.

  A routine gets the input buffer and the output buffer and gives its return value (a count of
  bytes, or a negative error code) with the new output buffer. Buffers are byte lists. The
  loops are written as the list of the stores they make, in their order; every lemma about a loop
  shows that all stores are inside the buffer. Sizes are natural numbers: both buffers have \<open>size *
  elem_size\<close> bytes, so that no product wraps around. The processor is little-endian, as the test
  in the code finds out. \<open>malloc\<close> is an argument: it gives a buffer with arbitrary contents, or
  \<open>None\<close> for a null pointer.
\<close>

section \<open>Loops and stores\<close>

text \<open>\<open>for (ii = a; ii + st - 1 < n; ii += st)\<close>\<close>

function for_step :: "nat \<Rightarrow> nat \<Rightarrow> nat \<Rightarrow> nat list" where
  "for_step a st n = (if st = 0 \<or> n < a + st then [] else a # for_step (a + st) st n)"
  by pat_completeness auto
termination by (relation "measure (\<lambda>(a, st, n). n - a)") auto

declare for_step.simps [simp del]

lemma for_step_mem: "0 < st \<Longrightarrow> i \<in> set (for_step a st n) \<longleftrightarrow> (\<exists>k. i = a + st * k \<and> i + st \<le> n)"
proof (induction a st n rule: for_step.induct)
  case (1 a st n)
  show ?case
  proof (cases "n < a + st")
    case True
    then show ?thesis by (subst for_step.simps) auto
  next
    case False
    have "(\<exists>k. i = a + st * k \<and> i + st \<le> n) \<longleftrightarrow> i = a \<or> (\<exists>k. i = a + st + st * k \<and> i + st \<le> n)"
    proof
      assume "\<exists>k. i = a + st * k \<and> i + st \<le> n"
      then obtain k where k: "i = a + st * k" "i + st \<le> n" by blast
      show "i = a \<or> (\<exists>k. i = a + st + st * k \<and> i + st \<le> n)"
      proof (cases k)
        case (Suc k')
        then show ?thesis using k by (intro disjI2 exI [of _ k']) (simp add: algebra_simps)
      qed (use k in simp)
    next
      assume "i = a \<or> (\<exists>k. i = a + st + st * k \<and> i + st \<le> n)"
      then show "\<exists>k. i = a + st * k \<and> i + st \<le> n"
      proof (elim disjE exE conjE)
        fix k assume "i = a + st + st * k" "i + st \<le> n"
        then show ?thesis by (intro exI [of _ "Suc k"]) (simp add: algebra_simps)
      qed (use False in \<open>auto intro: exI [of _ 0]\<close>)
    qed
    then show ?thesis using 1 False by (subst for_step.simps) auto
  qed
qed

type_synonym store = "nat \<times> byte list"

definition do_stores :: "store list \<Rightarrow> byte list \<Rightarrow> byte list" where
  "do_stores ws out = fold (\<lambda>(p, c). overwrite p c) ws out"

text \<open>\<open>F\<close> is what the positions shall hold: when every store agrees with it, so does the buffer, at the
  positions that were stored to.\<close>

definition stores_ok :: "store list \<Rightarrow> nat \<Rightarrow> (nat \<Rightarrow> byte) \<Rightarrow> bool" where
  "stores_ok ws n F \<longleftrightarrow> (\<forall>(p, c) \<in> set ws. p + length c \<le> n \<and> (\<forall>k < length c. c ! k = F (p + k)))"

definition stored :: "store list \<Rightarrow> nat \<Rightarrow> bool" where
  "stored ws i \<longleftrightarrow> (\<exists>(p, c) \<in> set ws. p \<le> i \<and> i < p + length c)"

lemma do_stores_Nil [simp]: "do_stores [] out = out"
  by (simp add: do_stores_def)

lemma do_stores_append: "do_stores (ws @ vs) out = do_stores vs (do_stores ws out)"
  by (simp add: do_stores_def)

lemma do_stores_nth:
  assumes "stores_ok ws (length out) F"
  shows "length (do_stores ws out) = length out \<and>
    (\<forall>i < length out. do_stores ws out ! i = (if stored ws i then F i else out ! i))"
  using assms
proof (induction ws rule: rev_induct)
  case (snoc w ws)
  obtain p c where w: "w = (p, c)" by (cases w)
  have ok: "stores_ok ws (length out) F" "p + length c \<le> length out" "\<And>k. k < length c \<Longrightarrow> c ! k = F (p + k)"
    using snoc.prems by (auto simp: stores_ok_def w)
  have len: "length (do_stores ws out) = length out" using snoc.IH ok(1) by blast
  have step: "do_stores (ws @ [w]) out = overwrite p c (do_stores ws out)"
    by (simp add: do_stores_append w) (simp add: do_stores_def)
  have "do_stores (ws @ [w]) out ! i = (if stored (ws @ [w]) i then F i else out ! i)" if i: "i < length out" for i
  proof -
    have "do_stores (ws @ [w]) out ! i = (if p \<le> i \<and> i < p + length c then c ! (i - p) else do_stores ws out ! i)"
      using i ok(2) len by (simp add: step nth_overwrite)
    then show ?thesis using snoc.IH ok(1) i ok(3) [of "i - p"] by (auto simp: stored_def w)
  qed
  then show ?case using ok(2) len by (simp add: step)
qed (simp add: stored_def)

lemma do_stores_all:
  assumes "stores_ok ws (length out) F" and "\<And>i. i < length out \<Longrightarrow> stored ws i"
  shows "do_stores ws out = map F [0..<length out]"
  using do_stores_nth [OF assms(1)] assms(2) by (intro nth_equalityI) auto

section \<open>Bits\<close>

text \<open>The byte with the given bits.\<close>

definition bits_byte :: "(nat \<Rightarrow> bool) \<Rightarrow> byte" where
  "bits_byte f = horner_sum of_bool 2 (map f [0..<8])"

lemma bit_bits_byte [simp]: "bit (bits_byte f) j \<longleftrightarrow> j < 8 \<and> f j"
  by (auto simp: bits_byte_def bit_horner_sum_bit_word_iff)

lemma byte_eqI: "(\<And>j. j < 8 \<Longrightarrow> bit x j = bit y j) \<Longrightarrow> x = (y :: byte)"
  by (rule bit_word_eqI) simp

lemma bits_byte_bit [simp]: "bits_byte (bit x) = x"
  by (rule byte_eqI) simp

lemma bit_le_value: "bit (le_value bs) n \<longleftrightarrow> n < 8 * length bs \<and> bit (bs ! (n div 8)) (n mod 8)"
proof (induction bs arbitrary: n)
  case (Cons b bs)
  have "unat b + 256 * le_value bs = or (unat b) (push_bit 8 (le_value bs))"
  proof -
    have "unat b + push_bit 8 (le_value bs) = or (unat b) (push_bit 8 (le_value bs))"
      by (rule disjunctive_add) (auto simp: bit_simps dest: bit_imp_le_length)
    then show ?thesis by (simp add: push_bit_eq_mult)
  qed
  then have or_eq: "bit (le_value (b # bs)) n \<longleftrightarrow> bit b n \<or> 8 \<le> n \<and> bit (le_value bs) (n - 8)"
    by (auto simp: bit_simps dest: bit_imp_le_length)
  show ?case
  proof (cases "8 \<le> n")
    case True
    then have "\<not> bit b n" "(n - 8) div 8 = n div 8 - 1" "(n - 8) mod 8 = n mod 8" "0 < n div 8" "n - 8 < 8 * length bs \<longleftrightarrow> n < 8 * length (b # bs)"
      using bit_imp_le_length [of b n] by (auto simp: le_div_geq le_mod_geq div_greater_zero_iff)
    then show ?thesis using or_eq Cons.IH [of "n - 8"] True by (simp add: nth_Cons')
  qed (use or_eq in simp)
qed simp

lemma bit_bytes_u64:
  assumes "length bs = 8"
  shows "bit (bytes_u64 bs) n \<longleftrightarrow> n < 64 \<and> bit (bs ! (n div 8)) (n mod 8)"
proof -
  have "bit (word_of_nat k :: u64) n \<longleftrightarrow> n < 64 \<and> bit k n" for k
    using bit_word_of_int_iff [of "int k" n, where 'a = 64] by (simp add: bit_of_nat_iff)
  then show ?thesis using assms by (auto simp: bytes_u64_def bit_le_value)
qed


text \<open>The transposition of the 8 x 8 bits of a quadword, as the macro computes it.\<close>

definition delta_swap :: "nat \<Rightarrow> u64 \<Rightarrow> u64 \<Rightarrow> u64" where
  "delta_swap s m x = (let t = (x XOR drop_bit s x) AND m in x XOR t XOR push_bit s t)"

definition TRANS_BIT_8X8 :: "u64 \<Rightarrow> u64" where
  "TRANS_BIT_8X8 x =
     delta_swap 28 0x00000000F0F0F0F0 (delta_swap 14 0x0000CCCC0000CCCC (delta_swap 7 0x00AA00AA00AA00AA x))"

text \<open>Where a bit of the result comes from.\<close>

definition swap_source :: "nat \<Rightarrow> u64 \<Rightarrow> nat \<Rightarrow> nat" where
  "swap_source s m n = (if bit m n then n + s else if s \<le> n \<and> bit m (n - s) then n - s else n)"

lemma bit_delta_swap:
  assumes "m AND push_bit s m = 0"
  shows "bit (delta_swap s m x) n \<longleftrightarrow> n < 64 \<and> bit x (swap_source s m n)"
proof -
  have "bit (m AND push_bit s m) n \<longleftrightarrow> n < 64 \<and> bit m n \<and> s \<le> n \<and> bit m (n - s)"
    by (auto simp: bit_simps dest: bit_imp_le_length)
  then have "\<not> (n < 64 \<and> bit m n \<and> s \<le> n \<and> bit m (n - s))" unfolding assms by simp
  then show ?thesis
    by (auto simp: delta_swap_def swap_source_def Let_def bit_simps add.commute dest: bit_imp_le_length)
qed

lemma swap_sources:
  "list_all (\<lambda>n. let n1 = swap_source 28 0x00000000F0F0F0F0 n; n2 = swap_source 14 0x0000CCCC0000CCCC n1
     in n1 < 64 \<and> n2 < 64 \<and> swap_source 7 0x00AA00AA00AA00AA n2 = 8 * (n mod 8) + n div 8) [0..<64]"
  by code_simp

lemma bit_TRANS_BIT_8X8: "bit (TRANS_BIT_8X8 x) n \<longleftrightarrow> n < 64 \<and> bit x (8 * (n mod 8) + n div 8)"
proof -
  have "n < 64 \<Longrightarrow> n \<in> set [0..<64]" by simp
  then show ?thesis using swap_sources
    by (auto simp: TRANS_BIT_8X8_def bit_delta_swap list_all_iff Let_def)
qed

text \<open>Byte \<open>kk\<close> of the transposed quadword of eight bytes collects their bits \<open>kk\<close>.\<close>

lemma transposed_byte:
  assumes "length bs = 8" and "kk < 8"
  shows "(ucast (drop_bit (8 * kk) (TRANS_BIT_8X8 (bytes_u64 bs))) :: byte) = bits_byte (\<lambda>j. bit (bs ! j) kk)"
proof (rule byte_eqI)
  fix j :: nat assume j: "j < 8"
  have "(8 * kk + j) mod 8 = j" "(8 * kk + j) div 8 = kk" "8 * kk + j < 64" "8 * j + kk < 64"
    "(8 * j + kk) div 8 = j" "(8 * j + kk) mod 8 = kk" using j assms(2) by auto
  then show "bit (ucast (drop_bit (8 * kk) (TRANS_BIT_8X8 (bytes_u64 bs))) :: byte) j = bit (bits_byte (\<lambda>j. bit (bs ! j) kk)) j"
    using j assms by (simp add: bit_simps bit_TRANS_BIT_8X8 bit_bytes_u64)
qed

section \<open>The routines\<close>

type_synonym kernel = "nat \<Rightarrow> nat \<Rightarrow> byte list \<Rightarrow> byte list \<Rightarrow> int \<times> byte list"

definition bshuf_copy :: kernel where
  "bshuf_copy sz elem_size in_b out_b = (int (sz * elem_size), do_stores [(0, take (sz * elem_size) in_b)] out_b)"

definition byte_elem_stores :: "nat \<Rightarrow> nat \<Rightarrow> nat \<Rightarrow> byte list \<Rightarrow> store list" where
  "byte_elem_stores sz elem_size start in_b =
     [(jj * sz + ii + kk, [in_b ! (ii * elem_size + kk * elem_size + jj)]).
        ii \<leftarrow> for_step start 8 sz, jj \<leftarrow> [0..<elem_size], kk \<leftarrow> [0..<8]] @
     [(jj * sz + ii, [in_b ! (ii * elem_size + jj)]). ii \<leftarrow> [sz - sz mod 8..<sz], jj \<leftarrow> [0..<elem_size]]"

definition bshuf_trans_byte_elem_remainder :: "nat \<Rightarrow> nat \<Rightarrow> nat \<Rightarrow> byte list \<Rightarrow> byte list \<Rightarrow> int \<times> byte list" where
  "bshuf_trans_byte_elem_remainder sz elem_size start in_b out_b =
     (if start mod 8 \<noteq> 0 then (- 80, out_b)
      else (int (sz * elem_size), if sz > start then do_stores (byte_elem_stores sz elem_size start in_b) out_b else out_b))"

definition bshuf_trans_byte_elem_scal :: kernel where
  "bshuf_trans_byte_elem_scal sz elem_size in_b out_b = bshuf_trans_byte_elem_remainder sz elem_size 0 in_b out_b"

definition bit_byte_stores :: "nat \<Rightarrow> nat \<Rightarrow> byte list \<Rightarrow> store list" where
  "bit_byte_stores nbyte_bitrow start_byte in_b =
     [(kk * nbyte_bitrow + ii, [ucast (drop_bit (8 * kk) (TRANS_BIT_8X8 (bytes_u64 (segment (8 * ii) 8 in_b))))]).
        ii \<leftarrow> [start_byte div 8..<nbyte_bitrow], kk \<leftarrow> [0..<8]]"

definition bshuf_trans_bit_byte_remainder :: "nat \<Rightarrow> nat \<Rightarrow> nat \<Rightarrow> byte list \<Rightarrow> byte list \<Rightarrow> int \<times> byte list" where
  "bshuf_trans_bit_byte_remainder sz elem_size start_byte in_b out_b =
     (let nbyte = elem_size * sz in
      if nbyte mod 8 \<noteq> 0 then (- 80, out_b)
      else if start_byte mod 8 \<noteq> 0 then (- 80, out_b)
      else (int (sz * elem_size), do_stores (bit_byte_stores (nbyte div 8) start_byte in_b) out_b))"

definition bshuf_trans_bit_byte_scal :: kernel where
  "bshuf_trans_bit_byte_scal sz elem_size in_b out_b = bshuf_trans_bit_byte_remainder sz elem_size 0 in_b out_b"

definition elem_stores :: "nat \<Rightarrow> nat \<Rightarrow> nat \<Rightarrow> byte list \<Rightarrow> store list" where
  "elem_stores lda ldb elem_size in_b =
     [((jj * lda + ii) * elem_size, segment ((ii * ldb + jj) * elem_size) elem_size in_b). ii \<leftarrow> [0..<lda], jj \<leftarrow> [0..<ldb]]"

definition bshuf_trans_elem :: "nat \<Rightarrow> nat \<Rightarrow> nat \<Rightarrow> byte list \<Rightarrow> byte list \<Rightarrow> int \<times> byte list" where
  "bshuf_trans_elem lda ldb elem_size in_b out_b =
     (int (lda * ldb * elem_size), do_stores (elem_stores lda ldb elem_size in_b) out_b)"

definition bshuf_trans_bitrow_eight :: kernel where
  "bshuf_trans_bitrow_eight sz elem_size in_b out_b =
     (if sz mod 8 \<noteq> 0 then (- 80, out_b) else bshuf_trans_elem 8 elem_size (sz div 8) in_b out_b)"

definition bshuf_trans_bit_elem_scal :: "(nat \<Rightarrow> byte list option) \<Rightarrow> kernel" where
  "bshuf_trans_bit_elem_scal malloc sz elem_size in_b out_b =
     (if sz mod 8 \<noteq> 0 then (- 80, out_b)
      else case malloc (sz * elem_size) of None \<Rightarrow> (- 1, out_b)
      | Some tmp_buf \<Rightarrow>
          (case bshuf_trans_byte_elem_scal sz elem_size in_b out_b of (count, out1) \<Rightarrow>
           if count < 0 then (count, out1)
           else case bshuf_trans_bit_byte_scal sz elem_size out1 tmp_buf of (count, tmp1) \<Rightarrow>
             if count < 0 then (count, out1) else bshuf_trans_bitrow_eight sz elem_size tmp1 out1))"

definition byte_bitrow_stores :: "nat \<Rightarrow> nat \<Rightarrow> byte list \<Rightarrow> store list" where
  "byte_bitrow_stores nbyte_row elem_size in_b =
     [(ii * 8 * elem_size + jj * 8 + kk, [in_b ! ((jj * 8 + kk) * nbyte_row + ii)]).
        jj \<leftarrow> [0..<elem_size], ii \<leftarrow> [0..<nbyte_row], kk \<leftarrow> [0..<8]]"

definition bshuf_trans_byte_bitrow_scal :: kernel where
  "bshuf_trans_byte_bitrow_scal sz elem_size in_b out_b =
     (if sz mod 8 \<noteq> 0 then (- 80, out_b)
      else (int (sz * elem_size), do_stores (byte_bitrow_stores (sz div 8) elem_size in_b) out_b))"

definition eightelem_stores :: "nat \<Rightarrow> nat \<Rightarrow> byte list \<Rightarrow> store list" where
  "eightelem_stores nbyte elem_size in_b =
     [(ii + jj div 8 + kk * elem_size, [ucast (drop_bit (8 * kk) (TRANS_BIT_8X8 (bytes_u64 (segment (ii + jj) 8 in_b))))]).
        jj \<leftarrow> for_step 0 8 (8 * elem_size), ii \<leftarrow> for_step 0 (8 * elem_size) nbyte, kk \<leftarrow> [0..<8]]"

definition bshuf_shuffle_bit_eightelem_scal :: kernel where
  "bshuf_shuffle_bit_eightelem_scal sz elem_size in_b out_b =
     (if sz mod 8 \<noteq> 0 then (- 80, out_b)
      else (int (sz * elem_size), do_stores (eightelem_stores (elem_size * sz) elem_size in_b) out_b))"

definition bshuf_untrans_bit_elem_scal :: "(nat \<Rightarrow> byte list option) \<Rightarrow> kernel" where
  "bshuf_untrans_bit_elem_scal malloc sz elem_size in_b out_b =
     (if sz mod 8 \<noteq> 0 then (- 80, out_b)
      else case malloc (sz * elem_size) of None \<Rightarrow> (- 1, out_b)
      | Some tmp_buf \<Rightarrow>
          (case bshuf_trans_byte_bitrow_scal sz elem_size in_b tmp_buf of (count, tmp1) \<Rightarrow>
           if count < 0 then (count, out_b) else bshuf_shuffle_bit_eightelem_scal sz elem_size tmp1 out_b))"

section \<open>What the routines compute\<close>

text \<open>The contract of every routine: it returns the number of bytes and fills the output with \<open>F\<close> of each
  position.\<close>

definition computes :: "int \<times> byte list \<Rightarrow> nat \<Rightarrow> (nat \<Rightarrow> byte) \<Rightarrow> bool" where
  "computes r n F \<longleftrightarrow> r = (int n, map F [0..<n])"

definition trans_byte_at :: "nat \<Rightarrow> nat \<Rightarrow> byte list \<Rightarrow> nat \<Rightarrow> byte" where
  "trans_byte_at sz elem_size xs i = xs ! ((i mod sz) * elem_size + i div sz)"

definition trans_bit_byte_at :: "nat \<Rightarrow> byte list \<Rightarrow> nat \<Rightarrow> byte" where
  "trans_bit_byte_at nbyte_bitrow xs i = bits_byte (\<lambda>j. bit (xs ! (8 * (i mod nbyte_bitrow) + j)) (i div nbyte_bitrow))"

definition trans_elem_at :: "nat \<Rightarrow> nat \<Rightarrow> nat \<Rightarrow> byte list \<Rightarrow> nat \<Rightarrow> byte" where
  "trans_elem_at lda ldb elem_size xs i =
     xs ! ((i div elem_size mod lda * ldb + i div elem_size div lda) * elem_size + i mod elem_size)"

lemma pair_index:
  fixes a b n :: nat
  assumes "b < n"
  shows "(a * n + b) div n = a" "(a * n + b) mod n = b"
  using assms by simp_all

lemma pair_less: "(b :: nat) < n \<Longrightarrow> a < m \<Longrightarrow> a * n + b < m * n"
  using mult_le_mono1 [of "Suc a" m n] by simp

lemma single_stored: "stored ws i \<Longrightarrow> (\<And>p c. (p, c) \<in> set ws \<Longrightarrow> length c = 1) \<Longrightarrow> \<exists>c. (i, c) \<in> set ws"
  by (auto simp: stored_def) (metis le_antisym less_Suc_eq_le add.commute plus_1_eq_Suc)

lemma mem_for3: "a \<in> set A \<Longrightarrow> b \<in> set B \<Longrightarrow> c \<in> set C \<Longrightarrow> f a b c \<in> set [f a b c. a \<leftarrow> A, b \<leftarrow> B, c \<leftarrow> C]"
  by auto

lemma mem_for2: "a \<in> set A \<Longrightarrow> b \<in> set B \<Longrightarrow> f a b \<in> set [f a b. a \<leftarrow> A, b \<leftarrow> B]"
  by auto

lemma storedI: "(i, c) \<in> set ws \<Longrightarrow> c \<noteq> [] \<Longrightarrow> stored ws i"
  by (force simp: stored_def)

lemma byte_elem_remainder:
  assumes "start mod 8 = 0" and "length out = sz * es"
  shows "fst (bshuf_trans_byte_elem_remainder sz es start xs out) = int (sz * es)"
    and "length (snd (bshuf_trans_byte_elem_remainder sz es start xs out)) = sz * es"
    and "i < sz * es \<Longrightarrow> snd (bshuf_trans_byte_elem_remainder sz es start xs out) ! i =
      (if start \<le> i mod sz then trans_byte_at sz es xs i else out ! i)"
proof -
  let ?ws = "byte_elem_stores sz es start xs" and ?F = "trans_byte_at sz es xs"
  have ok: "stores_ok ?ws (length out) ?F"
  proof -
    have "jj * sz + ii + kk + 1 \<le> sz * es \<and> xs ! (ii * es + kk * es + jj) = ?F (jj * sz + ii + kk)"
      if "ii + 8 \<le> sz" "jj < es" "kk < 8" for ii jj kk
      using pair_index [of "ii + kk" sz jj] pair_less [of "ii + kk" sz jj es] that by (simp add: trans_byte_at_def algebra_simps)
    moreover have "jj * sz + ii + 1 \<le> sz * es \<and> xs ! (ii * es + jj) = ?F (jj * sz + ii)"
      if "ii < sz" "jj < es" for ii jj
      using pair_index [of ii sz jj] pair_less [of ii sz jj es] that by (simp add: trans_byte_at_def algebra_simps)
    ultimately show ?thesis
      unfolding stores_ok_def byte_elem_stores_def assms(2) by (auto simp: for_step_mem)
  qed
  have stored: "stored ?ws i \<longleftrightarrow> start \<le> i mod sz" if i: "i < sz * es" "start < sz" for i
  proof -
    define e where "e = i mod sz"
    have e: "e < sz" "i div sz < es" "i = i div sz * sz + e"
      using i by (simp_all add: e_def less_mult_imp_div_less mult.commute)
    have st: "start = 8 * (start div 8)" "sz = 8 * (sz div 8) + sz mod 8" using assms(1) by (simp_all add: mod_0_imp_dvd)
    have "start div 8 \<le> sz div 8" using i(2) by (simp add: div_le_mono)
    then have st_le: "start \<le> sz - sz mod 8" using st by linarith
    have high: "stored ?ws i" if "start \<le> e"
    proof (cases "e < sz - sz mod 8")
      case True
      define ii where "ii = start + 8 * ((e - start) div 8)"
      have kk: "e = ii + (e - start) mod 8" using that by (simp add: ii_def)
      have "(e - start) div 8 < sz div 8 - start div 8"
        by (rule less_mult_imp_div_less) (use True that st in linarith)
      then have "ii + 8 \<le> sz" using st unfolding ii_def by linarith
      then have m: "ii \<in> set (for_step start 8 sz)" "i div sz \<in> set [0..<es]" "(e - start) mod 8 \<in> set [0..<8]"
        using e(2) by (auto simp: for_step_mem ii_def)
      have "(i div sz * sz + ii + (e - start) mod 8, [xs ! (ii * es + (e - start) mod 8 * es + i div sz)]) \<in> set ?ws"
        unfolding byte_elem_stores_def set_append using mem_for3 [OF m] by (rule UnI1)
      moreover have "i div sz * sz + ii + (e - start) mod 8 = i" using e(3) kk by (simp add: add.assoc)
      ultimately show ?thesis using storedI by (metis not_Cons_self2)
    next
      case False
      then have m: "e \<in> set [sz - sz mod 8..<sz]" "i div sz \<in> set [0..<es]" using e(1,2) by auto
      have "(i div sz * sz + e, [xs ! (e * es + i div sz)]) \<in> set ?ws"
        unfolding byte_elem_stores_def set_append using mem_for2 [OF m] by (rule UnI2)
      then show ?thesis using storedI e(3) by (metis not_Cons_self2)
    qed
    note st_le
    moreover have "(jj * sz + ii + kk) mod sz = ii + kk" if "ii + kk < sz" for ii jj kk
      using pair_index(2) [OF that, of jj] by (simp add: add.assoc)
    ultimately have low: "start \<le> p mod sz \<and> length c = 1" if "(p, c) \<in> set ?ws" for p c
      using that by (auto simp: byte_elem_stores_def for_step_mem)
    then have "stored ?ws i \<Longrightarrow> start \<le> e" unfolding e_def using single_stored by blast
    then show ?thesis using high by (auto simp: e_def)
  qed
  show "fst (bshuf_trans_byte_elem_remainder sz es start xs out) = int (sz * es)"
    using assms(1) by (simp add: bshuf_trans_byte_elem_remainder_def)
  show "length (snd (bshuf_trans_byte_elem_remainder sz es start xs out)) = sz * es"
    using assms do_stores_nth [OF ok] by (simp add: bshuf_trans_byte_elem_remainder_def)
  show "snd (bshuf_trans_byte_elem_remainder sz es start xs out) ! i =
      (if start \<le> i mod sz then ?F i else out ! i)" if "i < sz * es"
  proof (cases "start < sz")
    case True
    then show ?thesis using assms that do_stores_nth [OF ok] stored
      by (simp add: bshuf_trans_byte_elem_remainder_def)
  next
    case False
    moreover have "0 < sz" using that by (cases sz) simp_all
    ultimately have "\<not> start \<le> i mod sz" by (metis mod_less_divisor not_le order_less_le_trans)
    then show ?thesis using assms(1) False by (simp add: bshuf_trans_byte_elem_remainder_def)
  qed
qed

lemma bit_byte_remainder:
  assumes "start mod 8 = 0" and "es * sz mod 8 = 0" and "length xs = sz * es" and "length out = sz * es"
  shows "fst (bshuf_trans_bit_byte_remainder sz es start xs out) = int (sz * es)"
    and "length (snd (bshuf_trans_bit_byte_remainder sz es start xs out)) = sz * es"
    and "i < sz * es \<Longrightarrow> snd (bshuf_trans_bit_byte_remainder sz es start xs out) ! i =
      (if start \<le> 8 * (i mod (sz * es div 8)) then trans_bit_byte_at (sz * es div 8) xs i else out ! i)"
proof -
  define n where "n = sz * es div 8"
  have n: "sz * es = 8 * n" using mult_div_mod_eq [of 8 "sz * es"] assms(2) by (simp add: n_def mult.commute [of sz])
  let ?ws = "bit_byte_stores n start xs" and ?F = "trans_bit_byte_at n xs"
  have ok: "stores_ok ?ws (length out) ?F"
  proof -
    have "kk * n + ii + 1 \<le> 8 * n \<and>
        ucast (drop_bit (8 * kk) (TRANS_BIT_8X8 (bytes_u64 (segment (8 * ii) 8 xs)))) = ?F (kk * n + ii)"
      if "ii < n" "kk < 8" for ii kk
    proof -
      have "8 * ii + 8 \<le> length xs" using that n assms(3) by simp
      then have "ucast (drop_bit (8 * kk) (TRANS_BIT_8X8 (bytes_u64 (segment (8 * ii) 8 xs)))) =
          bits_byte (\<lambda>j. bit (segment (8 * ii) 8 xs ! j) kk)"
        using that by (intro transposed_byte) simp_all
      also have "\<dots> = bits_byte (\<lambda>j. bit (xs ! (8 * ii + j)) kk)"
        using \<open>8 * ii + 8 \<le> length xs\<close> by (intro byte_eqI) (simp add: nth_segment)
      finally show ?thesis
        using pair_index [OF that(1), of kk] pair_less [OF that] by (simp add: trans_bit_byte_at_def)
    qed
    then show ?thesis unfolding stores_ok_def bit_byte_stores_def assms(4) n by auto
  qed
  have stored: "stored ?ws i \<longleftrightarrow> start \<le> 8 * (i mod n)" if "i < sz * es" for i
  proof
    assume "stored ?ws i"
    moreover have "length c = 1" if "(p, c) \<in> set ?ws" for p c using that by (auto simp: bit_byte_stores_def)
    ultimately obtain c where "(i, c) \<in> set ?ws" using single_stored by blast
    then show "start \<le> 8 * (i mod n)" using assms(1) pair_index(2) by (auto simp: bit_byte_stores_def)
  next
    assume "start \<le> 8 * (i mod n)"
    moreover have "i div n < 8" "i mod n < n" "i div n * n + i mod n = i" using that n by (simp_all add: less_mult_imp_div_less)
    ultimately have "(i, [ucast (drop_bit (8 * (i div n)) (TRANS_BIT_8X8 (bytes_u64 (segment (8 * (i mod n)) 8 xs))))]) \<in> set ?ws"
      by (force simp: bit_byte_stores_def)
    then show "stored ?ws i" by (rule storedI) simp
  qed
  have eq: "bshuf_trans_bit_byte_remainder sz es start xs out = (int (sz * es), do_stores ?ws out)"
    using assms(1,2) by (simp add: bshuf_trans_bit_byte_remainder_def n_def mult.commute)
  show "fst (bshuf_trans_bit_byte_remainder sz es start xs out) = int (sz * es)"
    and "length (snd (bshuf_trans_bit_byte_remainder sz es start xs out)) = sz * es"
    and "i < sz * es \<Longrightarrow> snd (bshuf_trans_bit_byte_remainder sz es start xs out) ! i =
      (if start \<le> 8 * (i mod (sz * es div 8)) then trans_bit_byte_at (sz * es div 8) xs i else out ! i)"
    using do_stores_nth [OF ok] stored assms(4) by (simp_all add: eq n_def [symmetric])
qed

lemma elem_stores_fill:
  assumes "length xs = lda * ldb * es" and "length out = lda * ldb * es" and "set ws = set (elem_stores lda ldb es xs)"
  shows "do_stores ws out = map (trans_elem_at lda ldb es xs) [0..<lda * ldb * es]"
proof -
  let ?ws = "elem_stores lda ldb es xs" and ?F = "trans_elem_at lda ldb es xs"
  have "stores_ok ws (length out) ?F"
  proof -
    have "(jj * lda + ii) * es + length (segment ((ii * ldb + jj) * es) es xs) \<le> lda * ldb * es \<and>
        (\<forall>k < length (segment ((ii * ldb + jj) * es) es xs). segment ((ii * ldb + jj) * es) es xs ! k = ?F ((jj * lda + ii) * es + k))"
      if "ii < lda" "jj < ldb" for ii jj
    proof -
      have less: "jj * lda + ii < ldb * lda" "ii * ldb + jj < lda * ldb" using that by (simp_all add: pair_less)
      have bnd: "(ii * ldb + jj) * es + es \<le> length xs" "(jj * lda + ii) * es + es \<le> lda * ldb * es"
        using less mult_le_mono1 [of "Suc (ii * ldb + jj)" "lda * ldb" es] mult_le_mono1 [of "Suc (jj * lda + ii)" "ldb * lda" es] assms(1)
        by (simp_all add: algebra_simps)
      have "segment ((ii * ldb + jj) * es) es xs ! k = ?F ((jj * lda + ii) * es + k)" if "k < es" for k
        using that \<open>ii < lda\<close> bnd(1) pair_index [of k es "jj * lda + ii"] pair_index [of ii lda jj]
        by (simp add: nth_segment trans_elem_at_def)
      then show ?thesis using bnd by simp
    qed
    then show ?thesis unfolding stores_ok_def assms(3) elem_stores_def assms(2) by auto
  qed
  moreover have "stored ws i" if "i < length out" for i
  proof -
    define row where "row = i div es"
    have es: "0 < es" using that assms(2) by (cases es) simp_all
    have row: "row < lda * ldb" using that assms(2) by (simp add: row_def less_mult_imp_div_less)
    then have r: "row mod lda < lda" "row div lda < ldb" "row div lda * lda + row mod lda = row"
      by (simp_all add: less_mult_imp_div_less mult.commute) (metis mod_less_divisor mult_is_0 neq0_conv not_less_zero)
    have w: "(row * es, segment ((row mod lda * ldb + row div lda) * es) es xs) \<in> set ?ws"
      using r by (force simp: elem_stores_def)
    have "(row mod lda * ldb + row div lda) * es + es \<le> length xs"
      using pair_less [of "row div lda" ldb "row mod lda" lda] r mult_le_mono1 [of "Suc (row mod lda * ldb + row div lda)" "lda * ldb" es] assms(1)
      by (simp add: algebra_simps)
    then have "row * es \<le> i \<and> i < row * es + length (segment ((row mod lda * ldb + row div lda) * es) es xs)"
      using es by (simp add: row_def) (metis add.commute dividend_less_div_times)
    then show ?thesis unfolding stored_def assms(3) using w by (intro bexI [of _ "(row * es, _)"]) auto
  qed
  ultimately show ?thesis using do_stores_all [of ws out ?F] assms(2) by simp
qed

lemma trans_elem_computes:
  assumes "length xs = lda * ldb * es" and "length out = lda * ldb * es"
  shows "computes (bshuf_trans_elem lda ldb es xs out) (lda * ldb * es) (trans_elem_at lda ldb es xs)"
  using elem_stores_fill [OF assms refl] by (simp add: computes_def bshuf_trans_elem_def)

text \<open>The reference: the bit \<open>k\<close> of the byte \<open>b\<close> of all elements makes up the row \<open>8 * b + k\<close> of the output; element
  \<open>e\<close> has its place in the bit \<open>e mod 8\<close> of the byte \<open>e div 8\<close> of every row.\<close>

definition trans_bits_at :: "nat \<Rightarrow> nat \<Rightarrow> byte list \<Rightarrow> nat \<Rightarrow> byte" where
  "trans_bits_at sz elem_size xs i =
     (let row = i div (sz div 8); r = i mod (sz div 8)
      in bits_byte (\<lambda>j. bit (xs ! ((8 * r + j) * elem_size + row div 8)) (row mod 8)))"

definition untrans_bits_at :: "nat \<Rightarrow> nat \<Rightarrow> byte list \<Rightarrow> nat \<Rightarrow> byte" where
  "untrans_bits_at sz elem_size ys i =
     (let e = i div elem_size; b = i mod elem_size
      in bits_byte (\<lambda>k. bit (ys ! ((8 * b + k) * (sz div 8) + e div 8)) (e mod 8)))"

definition trans_bits :: "nat \<Rightarrow> nat \<Rightarrow> byte list \<Rightarrow> byte list" where
  "trans_bits sz elem_size xs = map (trans_bits_at sz elem_size xs) [0..<sz * elem_size]"

definition untrans_bits :: "nat \<Rightarrow> nat \<Rightarrow> byte list \<Rightarrow> byte list" where
  "untrans_bits sz elem_size ys = map (untrans_bits_at sz elem_size ys) [0..<sz * elem_size]"

text \<open>The three passes of \<open>bshuf_trans_bit_elem\<close>, whatever routines make them.\<close>

lemma trans_passes:
  assumes "sz mod 8 = 0" and "length xs = sz * es" and "i < sz * es"
    and "a = map (trans_byte_at sz es xs) [0..<sz * es]"
    and "b = map (trans_bit_byte_at (sz * es div 8) a) [0..<sz * es]"
  shows "trans_elem_at 8 es (sz div 8) b i = trans_bits_at sz es xs i"
proof -
  define m where "m = sz div 8"
  have m: "sz = 8 * m" using assms(1) by (simp add: m_def mod_0_imp_dvd)
  have es: "0 < m" "0 < es" using assms(3) m by (auto simp: zero_less_mult_iff intro: Suc_leI gr0I)
  define row where "row = i div m"
  define r where "r = i mod m"
  have r: "r < m" "row < 8 * es" using assms(3) es(1) by (simp_all add: r_def row_def m less_mult_imp_div_less algebra_simps)
  then have kb: "row mod 8 < 8" "row div 8 < es" by (simp_all add: less_mult_imp_div_less mult.commute)
  let ?k = "row mod 8" and ?b = "row div 8"
  have bm: "?b * m + r < es * m" using pair_less [OF r(1) kb(2)] .
  have p: "(?k * es + ?b) * m + r = ?k * (es * m) + (?b * m + r)" by (simp add: algebra_simps)
  have b_eq: "b = map (trans_bit_byte_at (es * m) a) [0..<8 * (es * m)]" using assms(5) by (simp add: m ac_simps)
  have "?k * (es * m) + (?b * m + r) < 8 * (es * m)" by (rule pair_less [OF bm]) simp
  then have "b ! ((?k * es + ?b) * m + r) = trans_bit_byte_at (es * m) a (?k * (es * m) + (?b * m + r))"
    unfolding p b_eq by simp
  also have "\<dots> = bits_byte (\<lambda>j. bit (a ! (8 * (?b * m + r) + j)) ?k)"
    unfolding trans_bit_byte_at_def using pair_index [OF bm, of ?k] by simp
  also have "\<dots> = bits_byte (\<lambda>j. bit (xs ! ((8 * r + j) * es + ?b)) ?k)"
  proof (rule byte_eqI)
    fix j :: nat assume j: "j < 8"
    have e: "8 * r + j < sz" using j r(1) m by simp
    have q: "8 * (?b * m + r) + j = ?b * sz + (8 * r + j)" by (simp add: m algebra_simps)
    have "?b * sz + (8 * r + j) < sz * es" using pair_less [OF e kb(2)] by (simp add: mult.commute)
    then have "a ! (8 * (?b * m + r) + j) = trans_byte_at sz es xs (?b * sz + (8 * r + j))" unfolding q assms(4) by simp
    then have "a ! (8 * (?b * m + r) + j) = xs ! ((8 * r + j) * es + ?b)"
      unfolding trans_byte_at_def pair_index [OF e, of ?b] .
    then show "bit (bits_byte (\<lambda>j. bit (a ! (8 * (?b * m + r) + j)) ?k)) j = bit (bits_byte (\<lambda>j. bit (xs ! ((8 * r + j) * es + ?b)) ?k)) j"
      using j by simp
  qed
  finally show ?thesis by (simp add: trans_elem_at_def trans_bits_at_def row_def r_def m_def Let_def)
qed

definition malloc_ok :: "(nat \<Rightarrow> byte list option) \<Rightarrow> bool" where
  "malloc_ok malloc \<longleftrightarrow> (\<forall>n. \<exists>buf. malloc n = Some buf \<and> length buf = n)"

lemma trans_byte_elem_scal_computes:
  assumes "length out = sz * es"
  shows "computes (bshuf_trans_byte_elem_scal sz es xs out) (sz * es) (trans_byte_at sz es xs)"
  using byte_elem_remainder [where start = 0 and xs = xs, OF _ assms]
  by (auto simp: computes_def bshuf_trans_byte_elem_scal_def prod_eq_iff intro!: nth_equalityI)

lemma trans_bit_byte_scal_computes:
  assumes "sz mod 8 = 0" and "length xs = sz * es" and "length out = sz * es"
  shows "computes (bshuf_trans_bit_byte_scal sz es xs out) (sz * es) (trans_bit_byte_at (sz * es div 8) xs)"
  using bit_byte_remainder [where start = 0, OF _ _ assms(2,3)] assms(1)
  by (auto simp: computes_def bshuf_trans_bit_byte_scal_def prod_eq_iff intro!: nth_equalityI)

lemma trans_bitrow_eight_computes:
  assumes "sz mod 8 = 0" and "length xs = sz * es" and "length out = sz * es"
  shows "computes (bshuf_trans_bitrow_eight sz es xs out) (sz * es) (trans_elem_at 8 es (sz div 8) xs)"
proof -
  have n: "8 * es * (sz div 8) = sz * es" using assms(1) by auto
  show ?thesis using trans_elem_computes [of xs 8 es "sz div 8" out, unfolded n, OF assms(2,3)] assms(1)
    by (simp add: bshuf_trans_bitrow_eight_def)
qed

section \<open>The way back\<close>

definition byte_bitrow_at :: "nat \<Rightarrow> nat \<Rightarrow> byte list \<Rightarrow> nat \<Rightarrow> byte" where
  "byte_bitrow_at nbyte_row elem_size ys i = ys ! (i mod (8 * elem_size) * nbyte_row + i div (8 * elem_size))"

definition eightelem_at :: "nat \<Rightarrow> byte list \<Rightarrow> nat \<Rightarrow> byte" where
  "eightelem_at elem_size ys i =
     (let e = i div elem_size; b = i mod elem_size
      in bits_byte (\<lambda>j. bit (ys ! (e div 8 * (8 * elem_size) + 8 * b + j)) (e mod 8)))"

lemma byte_bitrow_scal_computes:
  assumes "sz mod 8 = 0" and "length out = sz * es"
  shows "computes (bshuf_trans_byte_bitrow_scal sz es ys out) (sz * es) (byte_bitrow_at (sz div 8) es ys)"
proof -
  define m where "m = sz div 8"
  have m: "sz * es = m * (8 * es)" using assms(1) by (auto simp: m_def)
  let ?ws = "byte_bitrow_stores m es ys" and ?F = "byte_bitrow_at m es ys"
  have "stores_ok ?ws (length out) ?F"
  proof -
    have "ii * 8 * es + jj * 8 + kk + 1 \<le> m * (8 * es) \<and> ys ! ((jj * 8 + kk) * m + ii) = ?F (ii * 8 * es + jj * 8 + kk)"
      if "jj < es" "ii < m" "kk < 8" for ii jj kk
    proof -
      have r: "jj * 8 + kk < 8 * es" using pair_less [OF that(3,1)] by (simp add: mult.commute)
      have p: "ii * 8 * es + jj * 8 + kk = ii * (8 * es) + (jj * 8 + kk)" by simp
      show ?thesis unfolding p using pair_index [OF r, of ii] pair_less [OF r that(2)] by (simp add: byte_bitrow_at_def)
    qed
    then show ?thesis unfolding stores_ok_def byte_bitrow_stores_def assms(2) m by auto
  qed
  moreover have "stored ?ws i" if "i < length out" for i
  proof -
    let ?r = "i mod (8 * es)" and ?ii = "i div (8 * es)"
    have es: "0 < es" using that assms(2) by (cases es) simp_all
    then have "?r < 8 * es" by simp
    then have "?r div 8 < es" "?r div 8 * 8 + ?r mod 8 = ?r" by (simp_all add: less_mult_imp_div_less mult.commute)
    moreover have "?ii < m" using that assms(2) m by (simp add: less_mult_imp_div_less)
    moreover have "?ii * 8 * es + ?r = i" by (metis div_mult_mod_eq mult.assoc)
    ultimately have "(i, [ys ! ((?r div 8 * 8 + ?r mod 8) * m + ?ii)]) \<in> set ?ws"
      using mem_for3 [of "?r div 8" "[0..<es]" ?ii "[0..<m]" "?r mod 8" "[0..<8]"
          "\<lambda>jj ii kk. (ii * 8 * es + jj * 8 + kk, [ys ! ((jj * 8 + kk) * m + ii)])"]
      by (simp add: byte_bitrow_stores_def add.assoc)
    then show ?thesis by (rule storedI) simp
  qed
  ultimately have "do_stores ?ws out = map ?F [0..<length out]" by (rule do_stores_all)
  then show ?thesis using assms by (simp add: computes_def bshuf_trans_byte_bitrow_scal_def m_def)
qed

lemma eightelem_scal_computes:
  assumes "sz mod 8 = 0" and "length ys = sz * es" and "length out = sz * es"
  shows "computes (bshuf_shuffle_bit_eightelem_scal sz es ys out) (sz * es) (eightelem_at es ys)"
proof -
  define m where "m = sz div 8"
  have m: "sz * es = m * (8 * es)" using assms(1) by (auto simp: m_def)
  let ?ws = "eightelem_stores (es * sz) es ys" and ?F = "eightelem_at es ys"
  define byte_at where "byte_at ii jj kk = (ucast (drop_bit (8 * kk) (TRANS_BIT_8X8 (bytes_u64 (segment (ii + jj) 8 ys)))) :: byte)" for ii jj kk
  have val: "i * (8 * es) + b + kk * es + 1 \<le> m * (8 * es) \<and> byte_at (i * (8 * es)) (8 * b) kk = ?F (i * (8 * es) + b + kk * es)"
    if "b < es" "i < m" "kk < 8" for i b kk
  proof -
    have c: "i * (8 * es) + 8 * b + 8 \<le> length ys"
      using pair_less [of "8 * b + 7" "8 * es" i m] that assms(2) m by simp
    have p: "i * (8 * es) + b + kk * es = (i * 8 + kk) * es + b" by (simp add: algebra_simps)
    have "i * 8 + kk < m * 8" using pair_less [OF that(3,2)] .
    then have less: "(i * 8 + kk) * es + b < m * 8 * es" using pair_less [OF that(1)] by blast
    have "byte_at (i * (8 * es)) (8 * b) kk = bits_byte (\<lambda>j. bit (segment (i * (8 * es) + 8 * b) 8 ys ! j) kk)"
      unfolding byte_at_def using that(3) c by (intro transposed_byte) simp_all
    also have "\<dots> = bits_byte (\<lambda>j. bit (ys ! (i * (8 * es) + 8 * b + j)) kk)"
      using c by (intro byte_eqI) (simp add: nth_segment)
    also have "\<dots> = ?F ((i * 8 + kk) * es + b)"
      using pair_index [OF that(1), of "i * 8 + kk"] pair_index [OF that(3), of i] by (simp add: eightelem_at_def)
    finally show ?thesis using less by (simp add: p algebra_simps)
  qed
  have ws: "?ws = [(ii + jj div 8 + kk * es, [byte_at ii jj kk]). jj \<leftarrow> for_step 0 8 (8 * es), ii \<leftarrow> for_step 0 (8 * es) (es * sz), kk \<leftarrow> [0..<8]]"
    by (simp add: eightelem_stores_def byte_at_def)
  have idx: "0 < es \<Longrightarrow> ii \<in> set (for_step 0 (8 * es) (es * sz)) \<longleftrightarrow> (\<exists>i < m. ii = i * (8 * es))"
    "jj \<in> set (for_step 0 8 (8 * es)) \<longleftrightarrow> (\<exists>b < es. jj = 8 * b)" for ii jj
  proof -
    have "8 * es * k + 8 * es \<le> es * sz \<longleftrightarrow> k < m" if "0 < es" for k
    proof -
      have "8 * es * k + 8 * es = Suc k * (8 * es)" "es * sz = m * (8 * es)" using m by (simp_all add: algebra_simps)
      then show ?thesis using that by (simp only: mult_le_cancel2) auto
    qed
    then show "0 < es \<Longrightarrow> ii \<in> set (for_step 0 (8 * es) (es * sz)) \<longleftrightarrow> (\<exists>i < m. ii = i * (8 * es))"
      by (auto simp: for_step_mem mult.commute)
    show "jj \<in> set (for_step 0 8 (8 * es)) \<longleftrightarrow> (\<exists>b < es. jj = 8 * b)" by (auto simp: for_step_mem)
  qed
  have "stores_ok ?ws (length out) ?F"
    unfolding stores_ok_def ws assms(3) m using val idx by (cases "es = 0") (auto simp: for_step.simps [of 0 8 0])
  moreover have "stored ?ws i" if "i < length out" for i
  proof -
    have es: "0 < es" using that assms(3) by (cases es) simp_all
    let ?e = "i div es" and ?b = "i mod es"
    have b: "?b < es" "i = ?e div 8 * (8 * es) + ?b + ?e mod 8 * es"
    proof -
      have "q * (8 * es) + b + k * es = (q * 8 + k) * es + b" for q b k :: nat by (simp add: algebra_simps)
      then show "i = ?e div 8 * (8 * es) + ?b + ?e mod 8 * es" by (simp only: div_mult_mod_eq)
    qed (use es in simp)
    have "?e < m * 8" using that assms(3) m by (simp add: less_mult_imp_div_less mult.assoc)
    then have "?e div 8 < m" by (simp add: less_mult_imp_div_less)
    then have m3: "8 * ?b \<in> set (for_step 0 8 (8 * es))" "?e div 8 * (8 * es) \<in> set (for_step 0 (8 * es) (es * sz))"
      "?e mod 8 \<in> set [0..<8]" using b(1) idx es by auto
    have "(i, [byte_at (?e div 8 * (8 * es)) (8 * ?b) (?e mod 8)]) \<in> set ?ws"
      using mem_for3 [OF m3, of "\<lambda>jj ii kk. (ii + jj div 8 + kk * es, [byte_at ii jj kk])"]
      unfolding ws nonzero_mult_div_cancel_left [OF numeral_neq_zero] b(2) [symmetric] .
    then show ?thesis by (rule storedI) simp
  qed
  ultimately have "do_stores ?ws out = map ?F [0..<length out]" by (rule do_stores_all)
  then show ?thesis using assms by (simp add: computes_def bshuf_shuffle_bit_eightelem_scal_def)
qed

lemma untrans_passes:
  assumes "sz mod 8 = 0" and "i < sz * es" and "a = map (byte_bitrow_at (sz div 8) es ys) [0..<sz * es]"
  shows "eightelem_at es a i = untrans_bits_at sz es ys i"
proof -
  define m where "m = sz div 8"
  have m: "sz * es = m * (8 * es)" using assms(1) by (auto simp: m_def)
  let ?e = "i div es" and ?b = "i mod es"
  have b: "?b < es" using assms(2) by (cases es) simp_all
  have "?e < m * 8" using assms(2) m by (simp add: less_mult_imp_div_less mult.assoc)
  then have e: "?e div 8 < m" by (simp add: less_mult_imp_div_less)
  have "a ! (?e div 8 * (8 * es) + 8 * ?b + j) = ys ! ((8 * ?b + j) * m + ?e div 8)" if "j < 8" for j
  proof -
    have row: "8 * ?b + j < 8 * es" using b that by simp
    have "?e div 8 * (8 * es) + (8 * ?b + j) < sz * es" unfolding m by (rule pair_less [OF row e])
    then have "a ! (?e div 8 * (8 * es) + (8 * ?b + j)) = byte_bitrow_at m es ys (?e div 8 * (8 * es) + (8 * ?b + j))"
      unfolding assms(3) m_def by simp
    then show ?thesis unfolding byte_bitrow_at_def pair_index [OF row] by (simp add: add.assoc)
  qed
  then show ?thesis unfolding eightelem_at_def untrans_bits_at_def Let_def m_def [symmetric] by (intro byte_eqI) simp
qed

section \<open>The passes together\<close>

text \<open>The contract of the routines that the drivers of an instruction set call, and what the drivers make of
  them.\<close>

locale bshuf_passes =
  fixes byte_elem :: "(nat \<Rightarrow> byte list option) \<Rightarrow> kernel" and bit_byte bitrow eightelem :: kernel
  assumes byte_elem: "malloc_ok malloc \<Longrightarrow> length xs = sz * es \<Longrightarrow> length out = sz * es \<Longrightarrow>
      computes (byte_elem malloc sz es xs out) (sz * es) (trans_byte_at sz es xs)"
    and bit_byte: "sz mod 8 = 0 \<Longrightarrow> length xs = sz * es \<Longrightarrow> length out = sz * es \<Longrightarrow>
      computes (bit_byte sz es xs out) (sz * es) (trans_bit_byte_at (sz * es div 8) xs)"
    and bitrow: "sz mod 8 = 0 \<Longrightarrow> length xs = sz * es \<Longrightarrow> length out = sz * es \<Longrightarrow>
      computes (bitrow sz es xs out) (sz * es) (byte_bitrow_at (sz div 8) es xs)"
    and eightelem: "sz mod 8 = 0 \<Longrightarrow> length xs = sz * es \<Longrightarrow> length out = sz * es \<Longrightarrow>
      computes (eightelem sz es xs out) (sz * es) (eightelem_at es xs)"
begin

lemma trans_driver:
  assumes "malloc_ok malloc" and "sz mod 8 = 0" and "length xs = sz * es" and "length out = sz * es"
  shows "(if sz mod 8 \<noteq> 0 then (- 80, out)
      else case malloc (sz * es) of None \<Rightarrow> (- 1, out)
      | Some tmp_buf \<Rightarrow>
          (case byte_elem malloc sz es xs out of (count, out1) \<Rightarrow>
           if count < 0 then (count, out1)
           else case bit_byte sz es out1 tmp_buf of (count, tmp1) \<Rightarrow>
             if count < 0 then (count, out1) else bshuf_trans_bitrow_eight sz es tmp1 out1)) = (int (sz * es), trans_bits sz es xs)"
proof -
  obtain tmp where tmp: "malloc (sz * es) = Some tmp" "length tmp = sz * es" using assms(1) by (auto simp: malloc_ok_def)
  define a where "a = map (trans_byte_at sz es xs) [0..<sz * es]"
  define b where "b = map (trans_bit_byte_at (sz * es div 8) a) [0..<sz * es]"
  have "byte_elem malloc sz es xs out = (int (sz * es), a)"
    using byte_elem [OF assms(1,3,4)] by (simp add: computes_def a_def)
  moreover have "bit_byte sz es a tmp = (int (sz * es), b)"
    using bit_byte [OF assms(2), of a es tmp] tmp by (simp add: computes_def b_def a_def)
  moreover have "bshuf_trans_bitrow_eight sz es b a = (int (sz * es), trans_bits sz es xs)"
    using trans_bitrow_eight_computes [OF assms(2), of b es a] trans_passes [OF assms(2,3) _ a_def b_def]
    by (auto simp: computes_def a_def b_def trans_bits_def)
  moreover have "\<not> int (sz * es) < 0" by (simp only: of_nat_less_0_iff not_False_eq_True)
  ultimately show ?thesis using assms(2) tmp(1) by (simp del: of_nat_mult)
qed

lemma untrans_driver:
  assumes "malloc_ok malloc" and "sz mod 8 = 0" and "length ys = sz * es" and "length out = sz * es"
  shows "(if sz mod 8 \<noteq> 0 then (- 80, out)
      else case malloc (sz * es) of None \<Rightarrow> (- 1, out)
      | Some tmp_buf \<Rightarrow>
          (case bitrow sz es ys tmp_buf of (count, tmp1) \<Rightarrow>
           if count < 0 then (count, out) else eightelem sz es tmp1 out)) = (int (sz * es), untrans_bits sz es ys)"
proof -
  obtain tmp where tmp: "malloc (sz * es) = Some tmp" "length tmp = sz * es" using assms(1) by (auto simp: malloc_ok_def)
  define a where "a = map (byte_bitrow_at (sz div 8) es ys) [0..<sz * es]"
  have "bitrow sz es ys tmp = (int (sz * es), a)"
    using bitrow [OF assms(2,3) tmp(2)] by (simp add: computes_def a_def)
  moreover have "eightelem sz es a out = (int (sz * es), untrans_bits sz es ys)"
    using eightelem [OF assms(2) _ assms(4), of a] untrans_passes [OF assms(2) _ a_def]
    by (auto simp: computes_def a_def untrans_bits_def)
  moreover have "\<not> int (sz * es) < 0" by (simp only: of_nat_less_0_iff not_False_eq_True)
  ultimately show ?thesis using assms(2) tmp(1) by (simp del: of_nat_mult)
qed

end

interpretation scal: bshuf_passes "\<lambda>_. bshuf_trans_byte_elem_scal" bshuf_trans_bit_byte_scal bshuf_trans_byte_bitrow_scal
  bshuf_shuffle_bit_eightelem_scal
  by unfold_locales
    (auto intro: trans_byte_elem_scal_computes trans_bit_byte_scal_computes byte_bitrow_scal_computes eightelem_scal_computes)

lemma length_trans_bits [simp]: "length (trans_bits sz es xs) = sz * es" "length (untrans_bits sz es xs) = sz * es"
  by (simp_all add: trans_bits_def untrans_bits_def)

lemma untrans_trans_bits:
  assumes "sz mod 8 = 0" and "length xs = sz * es"
  shows "untrans_bits sz es (trans_bits sz es xs) = xs"
proof (rule nth_equalityI)
  fix i assume "i < length (untrans_bits sz es (trans_bits sz es xs))"
  then have i: "i < sz * es" by simp
  define m where "m = sz div 8"
  have sz: "sz = 8 * m" using assms(1) by (simp add: m_def mod_0_imp_dvd)
  let ?e = "i div es" and ?b = "i mod es"
  have b: "?b < es" using i by (cases es) simp_all
  have "?e < 8 * m" using i sz by (simp add: less_mult_imp_div_less)
  then have e: "?e div 8 < m" by (simp add: less_mult_imp_div_less mult.commute)
  have "bit (trans_bits sz es xs ! ((8 * ?b + k) * m + ?e div 8)) (?e mod 8) = bit (xs ! i) k" if k: "k < 8" for k
  proof -
    have "8 * ?b + k < 8 * es" using b k by simp
    from pair_less [OF e this] have "(8 * ?b + k) * m + ?e div 8 < sz * es" by (simp add: sz algebra_simps)
    then have "trans_bits sz es xs ! ((8 * ?b + k) * m + ?e div 8) = trans_bits_at sz es xs ((8 * ?b + k) * m + ?e div 8)"
      by (simp add: trans_bits_def)
    also have "\<dots> = bits_byte (\<lambda>j. bit (xs ! ((8 * (?e div 8) + j) * es + ?b)) k)"
      using k unfolding trans_bits_at_def Let_def m_def [symmetric] pair_index [OF e] by simp
    finally show ?thesis by simp
  qed
  then show "untrans_bits sz es (trans_bits sz es xs) ! i = xs ! i"
    using i unfolding untrans_bits_def untrans_bits_at_def Let_def m_def [symmetric] by (intro byte_eqI) simp
qed (simp add: assms(2))

end
