(* ===== verification/BshufSIMD.thy ===== *)
theory BshufSIMD
  imports Bitshuffle
begin

unbundle bit_operations_syntax

text \<open>
  The routines of \<open>bitshuffle_core.c\<close> for SSE2 and AVX2 registers, which are the ones the build selects on
  x86 processors. All of them compute what the scalar routines compute.

  A register is the list of its bytes in memory, 16 or 32 of them; an intrinsic is a function
  on such lists.
\<close>

section \<open>Intrinsics\<close>

text \<open>\<open>_mm_unpacklo_epi8\<close>, \<open>_epi16\<close>, \<open>_epi32\<close>, \<open>_epi64\<close> and the same for the high halves: groups of \<open>w\<close> bytes of
  the two halves alternate. The 256-bit variants do this in each half of the registers.\<close>

definition mm_unpack :: "nat \<Rightarrow> nat \<Rightarrow> 'a list \<Rightarrow> 'a list \<Rightarrow> 'a list" where
  "mm_unpack off w a b = concat (map (\<lambda>i. segment (off + w * i) w a @ segment (off + w * i) w b) [0..<8 div w])"

abbreviation mm_unpacklo :: "nat \<Rightarrow> 'a list \<Rightarrow> 'a list \<Rightarrow> 'a list" where "mm_unpacklo \<equiv> mm_unpack 0"
abbreviation mm_unpackhi :: "nat \<Rightarrow> 'a list \<Rightarrow> 'a list \<Rightarrow> 'a list" where "mm_unpackhi \<equiv> mm_unpack 8"

definition mm256_unpack :: "nat \<Rightarrow> nat \<Rightarrow> 'a list \<Rightarrow> 'a list \<Rightarrow> 'a list" where
  "mm256_unpack off w a b = mm_unpack off w (take 16 a) (take 16 b) @ mm_unpack off w (drop 16 a) (drop 16 b)"

text \<open>\<open>_mm256_permute2x128_si256\<close> with the selectors 32 (the low halves) and 49 (the high halves).\<close>

definition mm256_permute2x128_32 :: "'a list \<Rightarrow> 'a list \<Rightarrow> 'a list" where
  "mm256_permute2x128_32 a b = take 16 a @ take 16 b"

definition mm256_permute2x128_49 :: "'a list \<Rightarrow> 'a list \<Rightarrow> 'a list" where
  "mm256_permute2x128_49 a b = drop 16 a @ drop 16 b"

text \<open>\<open>_mm_slli_epi16(x, 1)\<close>: every pair of bytes is a 16-bit number that is shifted; \<open>_mm_movemask_epi8\<close>: the
  number made of the highest bits, given as its bytes in memory.\<close>

definition slli_epi16 :: "byte list \<Rightarrow> byte list" where
  "slli_epi16 xs = map (\<lambda>i. if even i then push_bit 1 (xs ! i) else push_bit 1 (xs ! i) OR drop_bit 7 (xs ! (i - 1))) [0..<length xs]"

definition movemask_epi8 :: "byte list \<Rightarrow> byte list" where
  "movemask_epi8 xs = map (\<lambda>t. bits_byte (\<lambda>j. bit (xs ! (8 * t + j)) 7)) [0..<length xs div 8]"

lemma segment_map: "segment p n (map f xs) = map f (segment p n xs)"
  by (simp add: segment_def take_map drop_map)

lemma mm_unpack_map: "mm_unpack off w (map f a) (map f b) = map f (mm_unpack off w a b)"
  by (simp add: mm_unpack_def segment_map map_concat comp_def)

lemma length_slli [simp]: "length (slli_epi16 xs) = length xs"
  by (simp add: slli_epi16_def)

lemma length_slli_funpow [simp]: "length ((slli_epi16 ^^ k) xs) = length xs"
  by (induction k) simp_all

text \<open>After \<open>k\<close> shifts the highest bit of a byte is its bit \<open>7 - k\<close>, because what comes from the neighbour has not
  reached it.\<close>

lemma slli_funpow_bit:
  assumes "i < length xs" and "n < 8" and "k \<le> n"
  shows "bit ((slli_epi16 ^^ k) xs ! i) n = bit (xs ! i) (n - k)"
  using assms(2,3)
proof (induction k arbitrary: n)
  case (Suc k)
  have "bit (drop_bit 7 (x :: byte)) n \<longleftrightarrow> n = 0 \<and> bit x 7" for x
    using bit_imp_le_length [of x "7 + n"] by (cases n) (auto simp: bit_drop_bit_eq)
  moreover have "bit (x * 2) n = bit x (n - 1)" for x :: byte
    using Suc.prems bit_double_iff [of x n] by (simp add: mult.commute)
  ultimately have "bit ((slli_epi16 ^^ Suc k) xs ! i) n = bit ((slli_epi16 ^^ k) xs ! i) (n - 1)"
    using Suc.prems assms(1) by (auto simp: slli_epi16_def [of "(slli_epi16 ^^ k) xs"] bit_simps)
  also have "\<dots> = bit (xs ! i) (n - 1 - k)" using Suc.prems by (intro Suc.IH) simp_all
  finally show ?case by simp
qed simp

lemma movemask_slli:
  assumes "8 * t + 8 \<le> length xs" and "kk < 8"
  shows "movemask_epi8 ((slli_epi16 ^^ kk) xs) ! t = bits_byte (\<lambda>j. bit (xs ! (8 * t + j)) (7 - kk))"
  using assms by (intro byte_eqI) (simp add: movemask_epi8_def slli_funpow_bit)

section \<open>Transposing bytes\<close>

text \<open>The networks of \<open>bshuf_trans_byte_elem_SSE_16\<close>, \<open>_32\<close> and \<open>_64\<close>: the registers that are loaded and those that
  are stored.\<close>

definition net_SSE_16 :: "'a list list \<Rightarrow> 'a list list" where
  "net_SSE_16 rs = (case rs of [a0, b0] \<Rightarrow>
     let a1 = mm_unpacklo 1 a0 b0; b1 = mm_unpackhi 1 a0 b0;
         a0 = mm_unpacklo 1 a1 b1; b0 = mm_unpackhi 1 a1 b1;
         a1 = mm_unpacklo 1 a0 b0; b1 = mm_unpackhi 1 a0 b0;
         a0 = mm_unpacklo 1 a1 b1; b0 = mm_unpackhi 1 a1 b1
     in [a0, b0] | _ \<Rightarrow> [])"

definition net_SSE_32 :: "'a list list \<Rightarrow> 'a list list" where
  "net_SSE_32 rs = (case rs of [a0, b0, c0, d0] \<Rightarrow>
     let a1 = mm_unpacklo 1 a0 b0; b1 = mm_unpackhi 1 a0 b0; c1 = mm_unpacklo 1 c0 d0; d1 = mm_unpackhi 1 c0 d0;
         a0 = mm_unpacklo 1 a1 b1; b0 = mm_unpackhi 1 a1 b1; c0 = mm_unpacklo 1 c1 d1; d0 = mm_unpackhi 1 c1 d1;
         a1 = mm_unpacklo 1 a0 b0; b1 = mm_unpackhi 1 a0 b0; c1 = mm_unpacklo 1 c0 d0; d1 = mm_unpackhi 1 c0 d0;
         a0 = mm_unpacklo 8 a1 c1; b0 = mm_unpackhi 8 a1 c1; c0 = mm_unpacklo 8 b1 d1; d0 = mm_unpackhi 8 b1 d1
     in [a0, b0, c0, d0] | _ \<Rightarrow> [])"

definition net_SSE_64 :: "'a list list \<Rightarrow> 'a list list" where
  "net_SSE_64 rs = (case rs of [a0, b0, c0, d0, e0, f0, g0, h0] \<Rightarrow>
     let a1 = mm_unpacklo 1 a0 b0; b1 = mm_unpackhi 1 a0 b0; c1 = mm_unpacklo 1 c0 d0; d1 = mm_unpackhi 1 c0 d0;
         e1 = mm_unpacklo 1 e0 f0; f1 = mm_unpackhi 1 e0 f0; g1 = mm_unpacklo 1 g0 h0; h1 = mm_unpackhi 1 g0 h0;
         a0 = mm_unpacklo 1 a1 b1; b0 = mm_unpackhi 1 a1 b1; c0 = mm_unpacklo 1 c1 d1; d0 = mm_unpackhi 1 c1 d1;
         e0 = mm_unpacklo 1 e1 f1; f0 = mm_unpackhi 1 e1 f1; g0 = mm_unpacklo 1 g1 h1; h0 = mm_unpackhi 1 g1 h1;
         a1 = mm_unpacklo 4 a0 c0; b1 = mm_unpackhi 4 a0 c0; c1 = mm_unpacklo 4 b0 d0; d1 = mm_unpackhi 4 b0 d0;
         e1 = mm_unpacklo 4 e0 g0; f1 = mm_unpackhi 4 e0 g0; g1 = mm_unpacklo 4 f0 h0; h1 = mm_unpackhi 4 f0 h0;
         a0 = mm_unpacklo 8 a1 e1; b0 = mm_unpackhi 8 a1 e1; c0 = mm_unpacklo 8 b1 f1; d0 = mm_unpackhi 8 b1 f1;
         e0 = mm_unpacklo 8 c1 g1; f0 = mm_unpackhi 8 c1 g1; g0 = mm_unpacklo 8 d1 h1; h0 = mm_unpackhi 8 d1 h1
     in [a0, b0, c0, d0, e0, f0, g0, h0] | _ \<Rightarrow> [])"

text \<open>What a network does to the positions of its bytes, it does to any bytes.\<close>

definition transposes :: "nat \<Rightarrow> (nat list list \<Rightarrow> nat list list) \<Rightarrow> bool" where
  "transposes es net \<longleftrightarrow>
     net (map (\<lambda>r. [16 * r..<16 * r + 16]) [0..<es]) = map (\<lambda>j. map (\<lambda>k. es * k + j) [0..<16]) [0..<es]"

lemma upt_simps:
  "[0..<1] = [0]"
  "[0..<2] = [0, 1]"
  "[0..<4] = [0, 1, 2, 3]"
  "[0..<8] = [0, 1, 2, 3, 4, 5, 6, 7]"
  "[0..<16] = [0, 1, 2, 3, 4, 5, 6, 7, 8, 9, 10, 11, 12, 13, 14, 15]"
  by code_simp+

lemma mm_unpack_simps:
  "mm_unpack 0 1 [x0, x1, x2, x3, x4, x5, x6, x7, x8, x9, x10, x11, x12, x13, x14, x15] [y0, y1, y2, y3, y4, y5, y6, y7, y8, y9, y10, y11, y12, y13, y14, y15] =
     [x0, y0, x1, y1, x2, y2, x3, y3, x4, y4, x5, y5, x6, y6, x7, y7]"
  "mm_unpack 8 1 [x0, x1, x2, x3, x4, x5, x6, x7, x8, x9, x10, x11, x12, x13, x14, x15] [y0, y1, y2, y3, y4, y5, y6, y7, y8, y9, y10, y11, y12, y13, y14, y15] =
     [x8, y8, x9, y9, x10, y10, x11, y11, x12, y12, x13, y13, x14, y14, x15, y15]"
  "mm_unpack 0 2 [x0, x1, x2, x3, x4, x5, x6, x7, x8, x9, x10, x11, x12, x13, x14, x15] [y0, y1, y2, y3, y4, y5, y6, y7, y8, y9, y10, y11, y12, y13, y14, y15] =
     [x0, x1, y0, y1, x2, x3, y2, y3, x4, x5, y4, y5, x6, x7, y6, y7]"
  "mm_unpack 8 2 [x0, x1, x2, x3, x4, x5, x6, x7, x8, x9, x10, x11, x12, x13, x14, x15] [y0, y1, y2, y3, y4, y5, y6, y7, y8, y9, y10, y11, y12, y13, y14, y15] =
     [x8, x9, y8, y9, x10, x11, y10, y11, x12, x13, y12, y13, x14, x15, y14, y15]"
  "mm_unpack 0 4 [x0, x1, x2, x3, x4, x5, x6, x7, x8, x9, x10, x11, x12, x13, x14, x15] [y0, y1, y2, y3, y4, y5, y6, y7, y8, y9, y10, y11, y12, y13, y14, y15] =
     [x0, x1, x2, x3, y0, y1, y2, y3, x4, x5, x6, x7, y4, y5, y6, y7]"
  "mm_unpack 8 4 [x0, x1, x2, x3, x4, x5, x6, x7, x8, x9, x10, x11, x12, x13, x14, x15] [y0, y1, y2, y3, y4, y5, y6, y7, y8, y9, y10, y11, y12, y13, y14, y15] =
     [x8, x9, x10, x11, y8, y9, y10, y11, x12, x13, x14, x15, y12, y13, y14, y15]"
  "mm_unpack 0 8 [x0, x1, x2, x3, x4, x5, x6, x7, x8, x9, x10, x11, x12, x13, x14, x15] [y0, y1, y2, y3, y4, y5, y6, y7, y8, y9, y10, y11, y12, y13, y14, y15] =
     [x0, x1, x2, x3, x4, x5, x6, x7, y0, y1, y2, y3, y4, y5, y6, y7]"
  "mm_unpack 8 8 [x0, x1, x2, x3, x4, x5, x6, x7, x8, x9, x10, x11, x12, x13, x14, x15] [y0, y1, y2, y3, y4, y5, y6, y7, y8, y9, y10, y11, y12, y13, y14, y15] =
     [x8, x9, x10, x11, x12, x13, x14, x15, y8, y9, y10, y11, y12, y13, y14, y15]"
  by (simp_all add: mm_unpack_def segment_def upt_simps)

lemma nets_transpose: "transposes 2 net_SSE_16" "transposes 4 net_SSE_32" "transposes 8 net_SSE_64"
  unfolding transposes_def net_SSE_16_def net_SSE_32_def net_SSE_64_def Let_def
  by (simp_all add: upt_simps mm_unpack_simps del: One_nat_def)

lemma nets_map:
  "length rs = 2 \<Longrightarrow> net_SSE_16 (map (map f) rs) = map (map f) (net_SSE_16 rs)"
  "length rs = 4 \<Longrightarrow> net_SSE_32 (map (map f) rs) = map (map f) (net_SSE_32 rs)"
  "length rs = 8 \<Longrightarrow> net_SSE_64 (map (map f) rs) = map (map f) (net_SSE_64 rs)"
  by (auto simp: net_SSE_16_def net_SSE_32_def net_SSE_64_def Let_def mm_unpack_map numeral_eq_Suc length_Suc_conv)

definition byte_elem_SSE_stores :: "nat \<Rightarrow> (byte list list \<Rightarrow> byte list list) \<Rightarrow> nat \<Rightarrow> byte list \<Rightarrow> store list" where
  "byte_elem_SSE_stores es net sz in_b =
     [(j * sz + ii, net (map (\<lambda>r. segment (es * ii + 16 * r) 16 in_b) [0..<es]) ! j). ii \<leftarrow> for_step 0 16 sz, j \<leftarrow> [0..<es]]"

definition bshuf_trans_byte_elem_SSE_16 :: "nat \<Rightarrow> byte list \<Rightarrow> byte list \<Rightarrow> int \<times> byte list" where
  "bshuf_trans_byte_elem_SSE_16 sz in_b out_b =
     bshuf_trans_byte_elem_remainder sz 2 (sz - sz mod 16) in_b (do_stores (byte_elem_SSE_stores 2 net_SSE_16 sz in_b) out_b)"

definition bshuf_trans_byte_elem_SSE_32 :: "nat \<Rightarrow> byte list \<Rightarrow> byte list \<Rightarrow> int \<times> byte list" where
  "bshuf_trans_byte_elem_SSE_32 sz in_b out_b =
     bshuf_trans_byte_elem_remainder sz 4 (sz - sz mod 16) in_b (do_stores (byte_elem_SSE_stores 4 net_SSE_32 sz in_b) out_b)"

definition bshuf_trans_byte_elem_SSE_64 :: "nat \<Rightarrow> byte list \<Rightarrow> byte list \<Rightarrow> int \<times> byte list" where
  "bshuf_trans_byte_elem_SSE_64 sz in_b out_b =
     bshuf_trans_byte_elem_remainder sz 8 (sz - sz mod 16) in_b (do_stores (byte_elem_SSE_stores 8 net_SSE_64 sz in_b) out_b)"

text \<open>The macro \<open>TRANS_ELEM_TYPE\<close> for elements of \<open>w\<close> bytes.\<close>

definition TRANS_ELEM_TYPE :: "nat \<Rightarrow> nat \<Rightarrow> nat \<Rightarrow> byte list \<Rightarrow> byte list \<Rightarrow> byte list" where
  "TRANS_ELEM_TYPE w lda ldb in_b out_b = do_stores
     ([((jj * lda + ii + kk) * w, segment ((ii * ldb + kk * ldb + jj) * w) w in_b).
         ii \<leftarrow> for_step 0 8 lda, jj \<leftarrow> [0..<ldb], kk \<leftarrow> [0..<8]] @
      [((jj * lda + ii) * w, segment ((ii * ldb + jj) * w) w in_b). ii \<leftarrow> [lda - lda mod 8..<lda], jj \<leftarrow> [0..<ldb]]) out_b"

definition bshuf_trans_byte_elem_SSE :: "(nat \<Rightarrow> byte list option) \<Rightarrow> kernel" where
  "bshuf_trans_byte_elem_SSE malloc sz elem_size in_b out_b =
     (if elem_size = 1 then bshuf_copy sz elem_size in_b out_b
      else if elem_size = 2 then bshuf_trans_byte_elem_SSE_16 sz in_b out_b
      else if elem_size = 4 then bshuf_trans_byte_elem_SSE_32 sz in_b out_b
      else if elem_size = 8 then bshuf_trans_byte_elem_SSE_64 sz in_b out_b
      else if elem_size mod 4 \<noteq> 0 then bshuf_trans_byte_elem_scal sz elem_size in_b out_b
      else case malloc (sz * elem_size) of None \<Rightarrow> (- 1, out_b)
      | Some tmp_buf \<Rightarrow>
          if elem_size mod 8 = 0
          then let nchunk_elem = elem_size div 8; out1 = TRANS_ELEM_TYPE 8 sz nchunk_elem in_b out_b in
               (case bshuf_trans_byte_elem_SSE_64 (sz * nchunk_elem) out1 tmp_buf of (count, tmp1) \<Rightarrow>
                (count, snd (bshuf_trans_elem 8 nchunk_elem sz tmp1 out1)))
          else let nchunk_elem = elem_size div 4; out1 = TRANS_ELEM_TYPE 4 sz nchunk_elem in_b out_b in
               (case bshuf_trans_byte_elem_SSE_32 (sz * nchunk_elem) out1 tmp_buf of (count, tmp1) \<Rightarrow>
                (count, snd (bshuf_trans_elem 4 nchunk_elem sz tmp1 out1))))"

lemma net_rows:
  assumes "transposes es net" and "net' (map (map f) (map (\<lambda>r. [16 * r..<16 * r + 16]) [0..<es])) = map (map f) (net (map (\<lambda>r. [16 * r..<16 * r + 16]) [0..<es]))"
    and "es * ii + 16 * es \<le> length xs" and "f = (\<lambda>k. xs ! (es * ii + k))" and "j < es"
  shows "net' (map (\<lambda>r. segment (es * ii + 16 * r) 16 xs) [0..<es]) ! j = map (\<lambda>k. xs ! (es * (ii + k) + j)) [0..<16]"
proof -
  have "segment (es * ii + 16 * r) 16 xs = map f [16 * r..<16 * r + 16]" if "r < es" for r
    using that assms(3) by (intro nth_equalityI) (simp_all add: nth_segment assms(4) add.assoc)
  then have "map (\<lambda>r. segment (es * ii + 16 * r) 16 xs) [0..<es] = map (map f) (map (\<lambda>r. [16 * r..<16 * r + 16]) [0..<es])" by simp
  then have "net' (map (\<lambda>r. segment (es * ii + 16 * r) 16 xs) [0..<es]) = map (map f) (map (\<lambda>j. map (\<lambda>k. es * k + j) [0..<16]) [0..<es])"
    using assms(2) unfolding assms(1) [unfolded transposes_def] by (simp only:)
  then show ?thesis using assms(5) by (simp add: assms(4) distrib_left add.assoc)
qed

lemma byte_elem_SSE_computes:
  assumes rows: "\<And>ii j. j < es \<Longrightarrow> es * ii + 16 * es \<le> length xs \<Longrightarrow>
      net (map (\<lambda>r. segment (es * ii + 16 * r) 16 xs) [0..<es]) ! j = map (\<lambda>k. xs ! (es * (ii + k) + j)) [0..<16]"
    and "length xs = sz * es" and "length out = sz * es"
  shows "computes (bshuf_trans_byte_elem_remainder sz es (sz - sz mod 16) xs (do_stores (byte_elem_SSE_stores es net sz xs) out))
    (sz * es) (trans_byte_at sz es xs)"
proof -
  let ?ws = "byte_elem_SSE_stores es net sz xs" and ?F = "trans_byte_at sz es xs"
  define row where "row ii j = net (map (\<lambda>r. segment (es * ii + 16 * r) 16 xs) [0..<es]) ! j" for ii j
  have row: "row ii j = map (\<lambda>k. xs ! (es * (ii + k) + j)) [0..<16]" if "ii + 16 \<le> sz" "j < es" for ii j
    unfolding row_def using that assms(2) mult_le_mono2 [OF that(1), of es] by (intro rows) (simp_all add: algebra_simps)
  have ws: "?ws = [(j * sz + ii, row ii j). ii \<leftarrow> for_step 0 16 sz, j \<leftarrow> [0..<es]]"
    by (simp add: byte_elem_SSE_stores_def row_def)
  have "j * sz + ii + length (row ii j) \<le> length out \<and> (\<forall>k < length (row ii j). row ii j ! k = ?F (j * sz + ii + k))"
    if "ii + 16 \<le> sz" "j < es" for ii j
  proof -
    have "j * sz + (ii + k) < es * sz \<and> row ii j ! k = ?F (j * sz + (ii + k))" if k: "k < 16" for k
      using pair_index [of "ii + k" sz j] pair_less [of "ii + k" sz j es] k \<open>ii + 16 \<le> sz\<close> \<open>j < es\<close>
      by (simp add: row trans_byte_at_def mult.commute)
    moreover from this [of 15] have "j * sz + (ii + 16) \<le> es * sz" by linarith
    ultimately show ?thesis using that by (simp add: row assms(3) add.assoc mult.commute)
  qed
  then have ok: "stores_ok ?ws (length out) ?F" unfolding stores_ok_def ws by (auto simp: for_step_mem)
  note st = do_stores_nth [OF ok]
  have stored: "stored ?ws i" if i: "i < sz * es" "i mod sz < sz - sz mod 16" for i
  proof -
    define e where "e = i mod sz"
    have e: "i div sz < es" "i = i div sz * sz + e" using i(1) by (simp_all add: e_def less_mult_imp_div_less mult.commute)
    define ii where "ii = 16 * (e div 16)"
    have "e div 16 < sz div 16" by (rule less_mult_imp_div_less) (use i(2) in \<open>simp add: e_def minus_mod_eq_div_mult\<close>)
    then have fits: "ii + 16 \<le> sz" using div_times_less_eq_dividend [of sz 16] unfolding ii_def by linarith
    then have m: "ii \<in> set (for_step 0 16 sz)" "i div sz \<in> set [0..<es]" using e(1) by (auto simp: for_step_mem ii_def)
    have "(i div sz * sz + ii, row ii (i div sz)) \<in> set ?ws" unfolding ws using mem_for2 [OF m] .
    moreover have "ii \<le> e" "e < ii + 16" using div_mult_mod_eq [of e 16] mod_less_divisor [of 16 e] unfolding ii_def by linarith+
    moreover have "length (row ii (i div sz)) = 16" using row [OF fits e(1)] by simp
    ultimately show ?thesis unfolding stored_def using e(2) by (intro bexI [of _ "(i div sz * sz + ii, row ii (i div sz))"]) auto
  qed
  have len: "length (do_stores ?ws out) = sz * es" using st assms(3) by simp
  have start: "(sz - sz mod 16) mod 8 = 0" by (simp add: minus_mod_eq_div_mult mod_mult_right_eq mult.commute [of _ 16])
  show ?thesis
    using byte_elem_remainder [where xs = xs, OF start len] st stored assms(3)
    by (auto simp: computes_def prod_eq_iff intro!: nth_equalityI)
qed

lemma trans_byte_elem_SSE_sizes:
  shows "length xs = sz * 2 \<Longrightarrow> length out = sz * 2 \<Longrightarrow> computes (bshuf_trans_byte_elem_SSE_16 sz xs out) (sz * 2) (trans_byte_at sz 2 xs)"
    and "length xs = sz * 4 \<Longrightarrow> length out = sz * 4 \<Longrightarrow> computes (bshuf_trans_byte_elem_SSE_32 sz xs out) (sz * 4) (trans_byte_at sz 4 xs)"
    and "length xs = sz * 8 \<Longrightarrow> length out = sz * 8 \<Longrightarrow> computes (bshuf_trans_byte_elem_SSE_64 sz xs out) (sz * 8) (trans_byte_at sz 8 xs)"
proof -
  have len: "length (map (\<lambda>r. [16 * r..<16 * r + 16]) [0..<es]) = es" for es :: nat by simp
  show "computes (bshuf_trans_byte_elem_SSE_16 sz xs out) (sz * 2) (trans_byte_at sz 2 xs)" if "length xs = sz * 2" "length out = sz * 2"
    unfolding bshuf_trans_byte_elem_SSE_16_def
    by (rule byte_elem_SSE_computes [OF _ that]) (rule net_rows [where net = net_SSE_16 and net' = net_SSE_16, OF nets_transpose(1) nets_map(1) [OF len] _ refl])
  show "computes (bshuf_trans_byte_elem_SSE_32 sz xs out) (sz * 4) (trans_byte_at sz 4 xs)" if "length xs = sz * 4" "length out = sz * 4"
    unfolding bshuf_trans_byte_elem_SSE_32_def
    by (rule byte_elem_SSE_computes [OF _ that]) (rule net_rows [where net = net_SSE_32 and net' = net_SSE_32, OF nets_transpose(2) nets_map(2) [OF len] _ refl])
  show "computes (bshuf_trans_byte_elem_SSE_64 sz xs out) (sz * 8) (trans_byte_at sz 8 xs)" if "length xs = sz * 8" "length out = sz * 8"
    unfolding bshuf_trans_byte_elem_SSE_64_def
    by (rule byte_elem_SSE_computes [OF _ that]) (rule net_rows [where net = net_SSE_64 and net' = net_SSE_64, OF nets_transpose(3) nets_map(3) [OF len] _ refl])
qed

lemma set_for_split:
  assumes "\<And>i. i < n \<longleftrightarrow> (\<exists>ii\<in>set A. \<exists>kk\<in>set K. i = ii + kk) \<or> i \<in> set B"
  shows "set ([f (ii + kk) jj. ii \<leftarrow> A, jj \<leftarrow> J, kk \<leftarrow> K] @ [f ii jj. ii \<leftarrow> B, jj \<leftarrow> J]) = set [f i jj. i \<leftarrow> [0..<n], jj \<leftarrow> J]"
proof (rule set_eqI)
  fix x
  have "x \<in> set ([f (ii + kk) jj. ii \<leftarrow> A, jj \<leftarrow> J, kk \<leftarrow> K] @ [f ii jj. ii \<leftarrow> B, jj \<leftarrow> J]) \<longleftrightarrow>
    (\<exists>ii\<in>set A. \<exists>jj\<in>set J. \<exists>kk\<in>set K. x = f (ii + kk) jj) \<or> (\<exists>ii\<in>set B. \<exists>jj\<in>set J. x = f ii jj)"
    by (simp add: image_iff)
  also have "\<dots> \<longleftrightarrow> (\<exists>i < n. \<exists>jj\<in>set J. x = f i jj)" unfolding assms by blast
  also have "\<dots> \<longleftrightarrow> x \<in> set [f i jj. i \<leftarrow> [0..<n], jj \<leftarrow> J]" by (auto simp: image_iff)
  finally show "x \<in> set ([f (ii + kk) jj. ii \<leftarrow> A, jj \<leftarrow> J, kk \<leftarrow> K] @ [f ii jj. ii \<leftarrow> B, jj \<leftarrow> J]) \<longleftrightarrow> x \<in> set [f i jj. i \<leftarrow> [0..<n], jj \<leftarrow> J]" .
qed

text \<open>The macro stores what \<open>bshuf_trans_elem\<close> stores, in another order.\<close>

lemma TRANS_ELEM_TYPE_eq:
  assumes "length xs = lda * ldb * w" and "length out = lda * ldb * w"
  shows "TRANS_ELEM_TYPE w lda ldb xs out = map (trans_elem_at lda ldb w xs) [0..<lda * ldb * w]"
proof -
  define f where "f ii jj = ((jj * lda + ii) * w, segment ((ii * ldb + jj) * w) w xs)" for ii jj
  have "(\<exists>ii\<in>set (for_step 0 8 lda). \<exists>kk\<in>set [0..<8]. i = ii + kk) \<or> i \<in> set [lda - lda mod 8..<lda] \<longleftrightarrow> i < lda" for i
  proof -
    have "i div 8 < lda div 8" if "i < lda - lda mod 8"
      by (rule less_mult_imp_div_less) (use that in \<open>simp add: minus_mod_eq_div_mult\<close>)
    then have "8 * (i div 8) + 8 \<le> lda" if "i < lda - lda mod 8"
      using that div_times_less_eq_dividend [of lda 8] by linarith
    then have "\<exists>ii\<in>set (for_step 0 8 lda). \<exists>kk\<in>set [0..<8]. i = ii + kk" if "i < lda - lda mod 8"
      using that by (intro bexI [of _ "8 * (i div 8)"] bexI [of _ "i mod 8"]) (auto simp: for_step_mem)
    then show ?thesis by (cases "i < lda - lda mod 8") (auto simp: for_step_mem)
  qed
  then have range: "i < lda \<longleftrightarrow> (\<exists>ii\<in>set (for_step 0 8 lda). \<exists>kk\<in>set [0..<8]. i = ii + kk) \<or> i \<in> set [lda - lda mod 8..<lda]" for i
    by blast
  have eqs: "((jj * lda + ii + kk) * w, segment ((ii * ldb + kk * ldb + jj) * w) w xs) = f (ii + kk) jj" for ii jj kk
    by (simp add: f_def algebra_simps)
  note set_for_split [where A = "for_step 0 8 lda" and K = "[0..<8]" and J = "[0..<ldb]" and f = f, OF range]
  then have "set ([f (ii + kk) jj. ii \<leftarrow> for_step 0 8 lda, jj \<leftarrow> [0..<ldb], kk \<leftarrow> [0..<8]] @ [f ii jj. ii \<leftarrow> [lda - lda mod 8..<lda], jj \<leftarrow> [0..<ldb]]) =
      set (elem_stores lda ldb w xs)"
    unfolding elem_stores_def f_def .
  note this [folded eqs, unfolded f_def]
  from elem_stores_fill [OF assms this] show ?thesis unfolding TRANS_ELEM_TYPE_def .
qed

text \<open>Elements of \<open>w * n\<close> bytes: their chunks of \<open>w\<close> bytes are transposed, then the bytes of all chunks, then the rows.\<close>

lemma hierarchical:
  assumes "es = w * n" and "i < sz * es" and "a = map (trans_elem_at sz n w xs) [0..<sz * es]"
    and "b = map (trans_byte_at (sz * n) w a) [0..<sz * es]"
  shows "trans_elem_at w n sz b i = trans_byte_at sz es xs i"
proof -
  define e where "e = i mod sz"
  define q where "q = i div sz"
  define c where "c = q div w"
  define k where "k = q mod w"
  have pos: "0 < sz" "0 < w" using assms(1,2) by (auto intro: gr0I)
  have lt: "e < sz" "q < n * w" "k < w" "q = c * w + k"
    using assms(1,2) pos by (simp_all add: e_def q_def k_def c_def less_mult_imp_div_less mult.commute)
  have c: "c < n" using lt(2) by (simp add: c_def less_mult_imp_div_less)
  have ce: "c * sz + e < n * sz" "e * n + c < sz * n" using pair_less [OF lt(1) c] pair_less [OF c lt(1)] by simp_all
  then have p: "k * (n * sz) + (c * sz + e) < sz * es" "(c * sz + e) * w + k < sz * es"
    using pair_less [OF ce(1) lt(3)] pair_less [OF lt(3) ce(1)] by (simp_all add: assms(1) ac_simps)
  have "trans_elem_at w n sz b i = b ! (k * (n * sz) + (c * sz + e))"
    by (simp add: trans_elem_at_def q_def [symmetric] e_def [symmetric] k_def [symmetric] c_def [symmetric] algebra_simps)
  also have "\<dots> = a ! ((c * sz + e) * w + k)"
    using p(1) pair_index [OF ce(1), of k] unfolding assms(4) by (simp add: trans_byte_at_def mult.commute [of sz n])
  also have "\<dots> = xs ! ((e * n + c) * w + k)"
    using p(2) pair_index [OF lt(3), of "c * sz + e"] pair_index [OF lt(1), of c] unfolding assms(3) by (simp add: trans_elem_at_def)
  also have "(e * n + c) * w + k = e * es + q" by (simp add: assms(1) lt(4) algebra_simps)
  finally show ?thesis by (simp add: trans_byte_at_def e_def q_def)
qed

lemma byte_elem_chunks:
  assumes "es = w * n" and "length xs = sz * es" and "length out = sz * es" and "length tmp = sz * es"
    and chunk: "\<And>ys os. length ys = sz * n * w \<Longrightarrow> length os = sz * n * w \<Longrightarrow> computes (g (sz * n) ys os) (sz * n * w) (trans_byte_at (sz * n) w ys)"
  shows "computes (case g (sz * n) (TRANS_ELEM_TYPE w sz n xs out) tmp of (count, tmp1) \<Rightarrow>
      (count, snd (bshuf_trans_elem w n sz tmp1 (TRANS_ELEM_TYPE w sz n xs out)))) (sz * es) (trans_byte_at sz es xs)"
proof -
  have n: "sz * n * w = sz * es" "w * n * sz = sz * es" by (simp_all add: assms(1) ac_simps)
  define a where "a = map (trans_elem_at sz n w xs) [0..<sz * es]"
  define b where "b = map (trans_byte_at (sz * n) w a) [0..<sz * es]"
  have "TRANS_ELEM_TYPE w sz n xs out = a"
    using TRANS_ELEM_TYPE_eq [of xs sz n w out] assms(2,3) by (simp add: n a_def)
  moreover have "g (sz * n) a tmp = (int (sz * es), b)"
    using chunk [of a tmp] assms(4) by (simp add: n computes_def b_def a_def)
  moreover have "bshuf_trans_elem w n sz b a = (int (sz * es), map (trans_byte_at sz es xs) [0..<sz * es])"
    using trans_elem_computes [of b w n sz a] hierarchical [OF assms(1) _ a_def b_def] by (simp add: n computes_def a_def b_def)
  ultimately show ?thesis by (simp add: computes_def)
qed

lemma bshuf_copy_computes:
  assumes "length xs = sz * 1" and "length out = sz * 1"
  shows "computes (bshuf_copy sz 1 xs out) (sz * 1) (trans_byte_at sz 1 xs)"
proof -
  have "trans_byte_at sz 1 xs i = xs ! i" if "i < sz" for i using that by (simp add: trans_byte_at_def)
  then show ?thesis using assms
    by (auto simp: computes_def bshuf_copy_def do_stores_def overwrite_def intro!: nth_equalityI)
qed

lemma trans_byte_elem_SSE_computes:
  assumes "malloc_ok malloc" and "length xs = sz * es" and "length out = sz * es"
  shows "computes (bshuf_trans_byte_elem_SSE malloc sz es xs out) (sz * es) (trans_byte_at sz es xs)"
proof -
  obtain tmp where tmp: "malloc (sz * es) = Some tmp" "length tmp = sz * es" using assms(1) by (auto simp: malloc_ok_def)
  consider "es = 1" | "es = 2" | "es = 4" | "es = 8" | "es \<noteq> 1" "es \<noteq> 2" "es mod 4 \<noteq> 0"
    | "es \<noteq> 4" "es \<noteq> 8" "es mod 4 = 0" "es mod 8 = 0" | "es \<noteq> 4" "es \<noteq> 8" "es mod 4 = 0" "es mod 8 \<noteq> 0" by blast
  then show ?thesis
  proof cases
    case 1
    then show ?thesis using bshuf_copy_computes assms(2,3) by (simp add: bshuf_trans_byte_elem_SSE_def del: mult_1_right)
  next
    case 2
    then show ?thesis using trans_byte_elem_SSE_sizes(1) assms(2,3) by (simp add: bshuf_trans_byte_elem_SSE_def)
  next
    case 3
    then show ?thesis using trans_byte_elem_SSE_sizes(2) assms(2,3) by (simp add: bshuf_trans_byte_elem_SSE_def)
  next
    case 4
    then show ?thesis using trans_byte_elem_SSE_sizes(3) assms(2,3) by (simp add: bshuf_trans_byte_elem_SSE_def)
  next
    case 5
    then show ?thesis using trans_byte_elem_scal_computes assms(3) by (auto simp: bshuf_trans_byte_elem_SSE_def)
  next
    case 6
    then have "es = 8 * (es div 8)" "es \<noteq> 1" "es \<noteq> 2" by (auto simp: mod_0_imp_dvd)
    have "bshuf_trans_byte_elem_SSE malloc sz es xs out = (case bshuf_trans_byte_elem_SSE_64 (sz * (es div 8)) (TRANS_ELEM_TYPE 8 sz (es div 8) xs out) tmp of (count, tmp1) \<Rightarrow>
        (count, snd (bshuf_trans_elem 8 (es div 8) sz tmp1 (TRANS_ELEM_TYPE 8 sz (es div 8) xs out))))"
      using \<open>es \<noteq> 1\<close> \<open>es \<noteq> 2\<close> 6 tmp(1) unfolding bshuf_trans_byte_elem_SSE_def Let_def by simp
    then show ?thesis
      using byte_elem_chunks [where g = bshuf_trans_byte_elem_SSE_64, OF \<open>es = 8 * (es div 8)\<close> assms(2,3) tmp(2)]
        trans_byte_elem_SSE_sizes(3) [where sz = "sz * (es div 8)"] by (simp only:)
  next
    case 7
    then have "es = 4 * (es div 4)" "es \<noteq> 1" "es \<noteq> 2" by (auto simp: mod_0_imp_dvd)
    have "bshuf_trans_byte_elem_SSE malloc sz es xs out = (case bshuf_trans_byte_elem_SSE_32 (sz * (es div 4)) (TRANS_ELEM_TYPE 4 sz (es div 4) xs out) tmp of (count, tmp1) \<Rightarrow>
        (count, snd (bshuf_trans_elem 4 (es div 4) sz tmp1 (TRANS_ELEM_TYPE 4 sz (es div 4) xs out))))"
      using \<open>es \<noteq> 1\<close> \<open>es \<noteq> 2\<close> 7 tmp(1) unfolding bshuf_trans_byte_elem_SSE_def Let_def by simp
    then show ?thesis
      using byte_elem_chunks [where g = bshuf_trans_byte_elem_SSE_32, OF \<open>es = 4 * (es div 4)\<close> assms(2,3) tmp(2)]
        trans_byte_elem_SSE_sizes(2) [where sz = "sz * (es div 4)"] by (simp only:)
  qed
qed

section \<open>Transposing bits\<close>

text \<open>The loops over registers of \<open>W\<close> bytes; \<open>slli_epi16\<close> has been applied \<open>kk\<close> times in the step \<open>kk\<close> of the inner loop.\<close>

definition bit_byte_SIMD_stores :: "nat \<Rightarrow> nat \<Rightarrow> byte list \<Rightarrow> store list" where
  "bit_byte_SIMD_stores W nbyte in_b =
     [(((7 - kk) * nbyte + ii) div 8, movemask_epi8 ((slli_epi16 ^^ kk) (segment ii W in_b))). ii \<leftarrow> for_step 0 W nbyte, kk \<leftarrow> [0..<8]]"

definition bshuf_trans_bit_byte_SSE :: kernel where
  "bshuf_trans_bit_byte_SSE sz elem_size in_b out_b =
     (let nbyte = elem_size * sz in
      if nbyte mod 8 \<noteq> 0 then (- 80, out_b)
      else bshuf_trans_bit_byte_remainder sz elem_size (nbyte - nbyte mod 16) in_b (do_stores (bit_byte_SIMD_stores 16 nbyte in_b) out_b))"

definition bshuf_trans_bit_byte_AVX :: kernel where
  "bshuf_trans_bit_byte_AVX sz elem_size in_b out_b =
     (let nbyte = elem_size * sz
      in bshuf_trans_bit_byte_remainder sz elem_size (nbyte - nbyte mod 32) in_b (do_stores (bit_byte_SIMD_stores 32 nbyte in_b) out_b))"

definition bshuf_trans_bit_elem_SSE :: "(nat \<Rightarrow> byte list option) \<Rightarrow> kernel" where
  "bshuf_trans_bit_elem_SSE malloc sz elem_size in_b out_b =
     (if sz mod 8 \<noteq> 0 then (- 80, out_b)
      else case malloc (sz * elem_size) of None \<Rightarrow> (- 1, out_b)
      | Some tmp_buf \<Rightarrow>
          (case bshuf_trans_byte_elem_SSE malloc sz elem_size in_b out_b of (count, out1) \<Rightarrow>
           if count < 0 then (count, out1)
           else case bshuf_trans_bit_byte_SSE sz elem_size out1 tmp_buf of (count, tmp1) \<Rightarrow>
             if count < 0 then (count, out1) else bshuf_trans_bitrow_eight sz elem_size tmp1 out1))"

definition bshuf_trans_bit_elem_AVX :: "(nat \<Rightarrow> byte list option) \<Rightarrow> kernel" where
  "bshuf_trans_bit_elem_AVX malloc sz elem_size in_b out_b =
     (if sz mod 8 \<noteq> 0 then (- 80, out_b)
      else case malloc (sz * elem_size) of None \<Rightarrow> (- 1, out_b)
      | Some tmp_buf \<Rightarrow>
          (case bshuf_trans_byte_elem_SSE malloc sz elem_size in_b out_b of (count, out1) \<Rightarrow>
           if count < 0 then (count, out1)
           else case bshuf_trans_bit_byte_AVX sz elem_size out1 tmp_buf of (count, tmp1) \<Rightarrow>
             if count < 0 then (count, out1) else bshuf_trans_bitrow_eight sz elem_size tmp1 out1))"

lemma bex_for_step: "0 < W \<Longrightarrow> (\<exists>ii \<in> set (for_step 0 W N). P ii) \<longleftrightarrow> (\<exists>k. W * k + W \<le> N \<and> P (W * k))"
  by (auto simp: for_step_mem)

lemma stored_inside: "(p, c) \<in> set ws \<Longrightarrow> p \<le> i \<Longrightarrow> i < p + length c \<Longrightarrow> stored ws i"
  by (auto simp: stored_def)

lemma length_movemask_slli: "p + 8 * w \<le> length xs \<Longrightarrow> length (movemask_epi8 ((slli_epi16 ^^ kk) (segment p (8 * w) xs))) = w"
  by (simp add: movemask_epi8_def)

lemma movemask_segment:
  assumes "p + 8 * w \<le> length xs" and "t < w" and "kk < 8"
  shows "movemask_epi8 ((slli_epi16 ^^ kk) (segment p (8 * w) xs)) ! t = bits_byte (\<lambda>j. bit (xs ! (p + 8 * t + j)) (7 - kk))"
proof -
  have "8 * t + 8 \<le> 8 * w" using assms(2) by simp
  then show ?thesis using assms by (subst movemask_slli) (auto intro!: byte_eqI simp: nth_segment add.assoc)
qed

lemma bit_byte_SIMD_computes:
  assumes "W = 8 * w" and "0 < w" and "es * sz mod 8 = 0" and "length xs = sz * es" and "length out = sz * es"
  shows "computes (bshuf_trans_bit_byte_remainder sz es (es * sz - es * sz mod W) xs (do_stores (bit_byte_SIMD_stores W (es * sz) xs) out))
    (sz * es) (trans_bit_byte_at (sz * es div 8) xs)"
proof -
  define n where "n = sz * es div 8"
  have n: "es * sz = 8 * n" "sz * es = 8 * n" using mult_div_mod_eq [of 8 "sz * es"] assms(3) by (simp_all add: n_def mult.commute [of sz])
  let ?ws = "bit_byte_SIMD_stores W (es * sz) xs" and ?F = "trans_bit_byte_at n xs"
  define c where "c k kk = movemask_epi8 ((slli_epi16 ^^ kk) (segment (8 * (w * k)) (8 * w) xs))" for k kk
  have mem: "(p, b) \<in> set ?ws \<longleftrightarrow> (\<exists>k kk. w * k + w \<le> n \<and> kk < 8 \<and> p = (7 - kk) * n + w * k \<and> b = c k kk)" for p b
  proof -
    have "((7 - kk) * (8 * n) + 8 * (w * k)) div 8 = (7 - kk) * n + w * k" for k kk :: nat
    proof -
      have "(7 - kk) * (8 * n) + 8 * (w * k) = 8 * ((7 - kk) * n + w * k)" by (simp add: algebra_simps)
      then show ?thesis by simp
    qed
    moreover have "8 * w * k + 8 * w \<le> 8 * n \<longleftrightarrow> w * k + w \<le> n" for k by linarith
    moreover have "(p, b) \<in> set ?ws \<longleftrightarrow> (\<exists>ii \<in> set (for_step 0 W (es * sz)). \<exists>kk < 8.
        p = ((7 - kk) * (es * sz) + ii) div 8 \<and> b = movemask_epi8 ((slli_epi16 ^^ kk) (segment ii W xs)))"
      unfolding bit_byte_SIMD_stores_def by (simp add: image_iff atLeast0LessThan Bex_def [of "{..<8}"])
    ultimately show ?thesis using assms(2) by (simp add: bex_for_step c_def assms(1) n(1) mult.assoc)
  qed
  have len: "length (c k kk) = w" if "w * k + w \<le> n" for k kk
    unfolding c_def by (rule length_movemask_slli) (use that assms(4) n in linarith)
  have val: "c k kk ! t = ?F ((7 - kk) * n + w * k + t)" if "w * k + w \<le> n" "kk < 8" "t < w" for k kk t
  proof -
    have "w * k + t < n" using that by simp
    moreover have "8 * (w * k) + 8 * w \<le> length xs" using that assms(4) n by linarith
    ultimately show ?thesis using pair_index [of "w * k + t" n "7 - kk"] that
      unfolding c_def by (subst movemask_segment) (simp_all add: trans_bit_byte_at_def add.assoc distrib_left)
  qed
  have "(7 - kk) * n + w * k + w \<le> 8 * n" if "w * k + w \<le> n" "kk < 8" for k kk
    using mult_le_mono1 [of "7 - kk" 7 n] that by linarith
  then have ok: "stores_ok ?ws (length out) ?F" unfolding stores_ok_def assms(5) n(2) using mem len val by auto
  note st = do_stores_nth [OF ok]
  have stored: "stored ?ws i" if i: "i < sz * es" "8 * (i mod n) < es * sz - es * sz mod W" for i
  proof -
    define r where "r = i mod n"
    define k where "k = r div w"
    have "8 * n - 8 * n mod (8 * w) = 8 * (n div w * w)" by (simp add: minus_mod_eq_div_mult mult_mod_right [symmetric] minus_mult_div_eq_mod [symmetric])
    then have "r < n div w * w" using i(2) unfolding n assms(1) r_def by linarith
    then have "k < n div w" by (simp add: k_def less_mult_imp_div_less)
    then have "Suc k * w \<le> n div w * w" by (intro mult_le_mono1) simp
    then have k: "w * k + w \<le> n" using div_times_less_eq_dividend [of n w] mult.commute [of k w] unfolding mult_Suc by linarith
    have q: "i div n < 8" "i = i div n * n + r" using i(1) n by (simp_all add: r_def less_mult_imp_div_less)
    have "((7 - (7 - i div n)) * n + w * k, c k (7 - i div n)) \<in> set ?ws"
      unfolding mem using k by (intro exI [of _ k] exI [of _ "7 - i div n"]) simp
    moreover have "w * k \<le> r" "r < w * k + w" using mult_div_mod_eq [of w r] mod_less_divisor [OF assms(2), of r] unfolding k_def by linarith+
    ultimately show ?thesis unfolding stored_def using q len [OF k]
      by (intro bexI [of _ "(i div n * n + w * k, c k (7 - i div n))"]) auto
  qed
  have len: "length (do_stores ?ws out) = sz * es" using st assms(5) by simp
  have start: "(es * sz - es * sz mod W) mod 8 = 0"
    by (simp add: minus_mod_eq_div_mult assms(1))
  show ?thesis
    using bit_byte_remainder [OF start assms(3,4) len] st stored assms(5)
    by (auto simp: computes_def prod_eq_iff n_def [symmetric] intro!: nth_equalityI)
qed

section \<open>The way back\<close>

text \<open>The network of \<open>bshuf_trans_byte_bitrow_SSE\<close>, from the eight loaded rows to the registers whose halves are stored.\<close>

definition net_bitrow_SSE :: "'a list list \<Rightarrow> 'a list list" where
  "net_bitrow_SSE rs = (case rs of [a0, b0, c0, d0, e0, f0, g0, h0] \<Rightarrow>
     let a1 = mm_unpacklo 1 a0 b0; b1 = mm_unpacklo 1 c0 d0; c1 = mm_unpacklo 1 e0 f0; d1 = mm_unpacklo 1 g0 h0;
         e1 = mm_unpackhi 1 a0 b0; f1 = mm_unpackhi 1 c0 d0; g1 = mm_unpackhi 1 e0 f0; h1 = mm_unpackhi 1 g0 h0;
         a0 = mm_unpacklo 2 a1 b1; b0 = mm_unpacklo 2 c1 d1; c0 = mm_unpackhi 2 a1 b1; d0 = mm_unpackhi 2 c1 d1;
         e0 = mm_unpacklo 2 e1 f1; f0 = mm_unpacklo 2 g1 h1; g0 = mm_unpackhi 2 e1 f1; h0 = mm_unpackhi 2 g1 h1;
         a1 = mm_unpacklo 4 a0 b0; b1 = mm_unpackhi 4 a0 b0; c1 = mm_unpacklo 4 c0 d0; d1 = mm_unpackhi 4 c0 d0;
         e1 = mm_unpacklo 4 e0 f0; f1 = mm_unpackhi 4 e0 f0; g1 = mm_unpacklo 4 g0 h0; h1 = mm_unpackhi 4 g0 h0
     in [a1, b1, c1, d1, e1, f1, g1, h1] | _ \<Rightarrow> [])"

definition bitrow_SSE_stores :: "nat \<Rightarrow> nat \<Rightarrow> byte list \<Rightarrow> store list" where
  "bitrow_SSE_stores nbyte_row nrows in_b = concat (map (\<lambda>ii.
     concat (map (\<lambda>jj.
       let rs = net_bitrow_SSE (map (\<lambda>r. segment ((ii + r) * nbyte_row + jj) 16 in_b) [0..<8])
       in map (\<lambda>q. ((jj + 2 * q) * nrows + ii, segment 0 8 (rs ! q))) [0..<8] @
          map (\<lambda>q. ((jj + (2 * q + 1)) * nrows + ii, segment 8 8 (rs ! q))) [0..<8])
       (for_step 0 16 nbyte_row)) @
     [(jj * nrows + ii + kk, [in_b ! ((ii + kk) * nbyte_row + jj)]). jj \<leftarrow> [nbyte_row - nbyte_row mod 16..<nbyte_row], kk \<leftarrow> [0..<8]])
     (for_step 0 8 nrows))"

definition bshuf_trans_byte_bitrow_SSE :: kernel where
  "bshuf_trans_byte_bitrow_SSE sz elem_size in_b out_b =
     (if sz mod 8 \<noteq> 0 then (- 80, out_b)
      else (int (sz * elem_size), do_stores (bitrow_SSE_stores (sz div 8) (8 * elem_size) in_b) out_b))"

text \<open>The same for AVX2: the first network makes the eight registers of one of the four groups of rows, the second
  one brings together the groups.\<close>

definition net_bitrow_AVX :: "'a list list \<Rightarrow> 'a list list" where
  "net_bitrow_AVX ymm_0 =
     (let ymm_1 = map (\<lambda>kk. mm256_unpack 0 1 (ymm_0 ! (kk * 2)) (ymm_0 ! (kk * 2 + 1))) [0..<4] @
                  map (\<lambda>kk. mm256_unpack 8 1 (ymm_0 ! (kk * 2)) (ymm_0 ! (kk * 2 + 1))) [0..<4];
          ymm_0 = concat (map (\<lambda>kk.
                    map (\<lambda>mm. mm256_unpack 0 2 (ymm_1 ! (kk * 4 + mm * 2)) (ymm_1 ! (kk * 4 + mm * 2 + 1))) [0..<2] @
                    map (\<lambda>mm. mm256_unpack 8 2 (ymm_1 ! (kk * 4 + mm * 2)) (ymm_1 ! (kk * 4 + mm * 2 + 1))) [0..<2]) [0..<2])
      in concat (map (\<lambda>kk. [mm256_unpack 0 4 (ymm_0 ! (kk * 2)) (ymm_0 ! (kk * 2 + 1)),
                             mm256_unpack 8 4 (ymm_0 ! (kk * 2)) (ymm_0 ! (kk * 2 + 1))]) [0..<4]))"

definition net_merge_AVX :: "'a list \<Rightarrow> 'a list \<Rightarrow> 'a list \<Rightarrow> 'a list \<Rightarrow> 'a list list" where
  "net_merge_AVX y0 y1 y2 y3 =
     (let z0 = mm256_unpack 0 8 y0 y1; z1 = mm256_unpack 0 8 y2 y3;
          z2 = mm256_unpack 8 8 y0 y1; z3 = mm256_unpack 8 8 y2 y3
      in [mm256_permute2x128_32 z0 z1, mm256_permute2x128_32 z2 z3, mm256_permute2x128_49 z0 z1, mm256_permute2x128_49 z2 z3])"

definition bitrow_AVX_stores :: "nat \<Rightarrow> nat \<Rightarrow> byte list \<Rightarrow> store list" where
  "bitrow_AVX_stores nbyte_row elem_size in_b =
     (let nrows = 8 * elem_size in
      concat (map (\<lambda>jj. concat (map (\<lambda>ii.
        let storeage = map (\<lambda>hh. net_bitrow_AVX (map (\<lambda>kk. segment ((ii * 8 + hh * 8 + kk) * nbyte_row + jj) 32 in_b) [0..<8])) [0..<4]
        in concat (map (\<lambda>mm.
             let rs = net_merge_AVX (storeage ! 0 ! mm) (storeage ! 1 ! mm) (storeage ! 2 ! mm) (storeage ! 3 ! mm)
             in [((jj + mm * 2 + 0 * 16) * nrows + ii * 8, rs ! 0), ((jj + mm * 2 + 0 * 16 + 1) * nrows + ii * 8, rs ! 1),
                 ((jj + mm * 2 + 1 * 16) * nrows + ii * 8, rs ! 2), ((jj + mm * 2 + 1 * 16 + 1) * nrows + ii * 8, rs ! 3)]) [0..<8]))
        (for_step 0 4 elem_size))) (for_step 0 32 nbyte_row)) @
      [(jj * nrows + ii, [in_b ! (ii * nbyte_row + jj)]). ii \<leftarrow> [0..<nrows], jj \<leftarrow> [nbyte_row - nbyte_row mod 32..<nbyte_row]])"

definition bshuf_trans_byte_bitrow_AVX :: kernel where
  "bshuf_trans_byte_bitrow_AVX sz elem_size in_b out_b =
     (if sz mod 8 \<noteq> 0 then (- 80, out_b)
      else if elem_size mod 4 \<noteq> 0 then bshuf_trans_byte_bitrow_SSE sz elem_size in_b out_b
      else (int (sz * elem_size), do_stores (bitrow_AVX_stores (sz div 8) elem_size in_b) out_b))"

text \<open>Every store of these loops writes consecutive rows of one column.\<close>

definition column_store :: "nat \<Rightarrow> nat \<Rightarrow> byte list \<Rightarrow> nat \<Rightarrow> nat \<Rightarrow> nat \<Rightarrow> store" where
  "column_store m nrows ys c r w = (c * nrows + r, map (\<lambda>k. ys ! ((r + k) * m + c)) [0..<w])"

lemma column_fill:
  assumes ws: "\<And>s. s \<in> set ws \<Longrightarrow> \<exists>c r w. s = column_store m n ys c r w \<and> c < m \<and> r + w \<le> n"
    and all: "\<And>c r. c < m \<Longrightarrow> r < n \<Longrightarrow> \<exists>r' w. column_store m n ys c r' w \<in> set ws \<and> r' \<le> r \<and> r < r' + w"
    and len: "length out = m * n"
  shows "do_stores ws out = map (\<lambda>i. ys ! (i mod n * m + i div n)) [0..<length out]"
proof (rule do_stores_all)
  let ?F = "\<lambda>i. ys ! (i mod n * m + i div n)"
  show "stores_ok ws (length out) ?F"
    unfolding stores_ok_def len
  proof
    fix s assume "s \<in> set ws"
    then obtain c r w where s: "s = column_store m n ys c r w" "c < m" "r + w \<le> n" using ws by blast
    have "?F (c * n + r + k) = ys ! ((r + k) * m + c)" if "k < w" for k
      using pair_index [of "r + k" n c] s(3) that by (simp add: add.assoc)
    moreover have "c * n + r + w \<le> m * n" using mult_le_mono1 [of "Suc c" m n] s(2,3) by simp
    ultimately show "case s of (p, b) \<Rightarrow> p + length b \<le> m * n \<and> (\<forall>k < length b. b ! k = ?F (p + k))"
      by (simp add: s(1) column_store_def)
  qed
next
  fix i assume i: "i < length out"
  then have "0 < n" using len by (cases n) simp_all
  then have "i div n < m" "i mod n < n" using i len by (simp_all add: less_mult_imp_div_less)
  from all [OF this] obtain r w where w: "column_store m n ys (i div n) r w \<in> set ws" "r \<le> i mod n" "i mod n < r + w" by blast
  have "i div n * n + i mod n = i" by (rule div_mult_mod_eq)
  then have "i div n * n + r \<le> i" "i < i div n * n + r + w" using w(2,3) by linarith+
  then show "stored ws i" by (intro stored_inside [OF w(1) [unfolded column_store_def]]) (simp_all only: length_map length_upt diff_zero)
qed

lemma bitrow_fill:
  assumes "\<And>s. s \<in> set ws \<Longrightarrow> \<exists>c r w. s = column_store m (8 * es) ys c r w \<and> c < m \<and> r + w \<le> 8 * es"
    and "\<And>c r. c < m \<Longrightarrow> r < 8 * es \<Longrightarrow> \<exists>r' w. column_store m (8 * es) ys c r' w \<in> set ws \<and> r' \<le> r \<and> r < r' + w"
    and "length out = m * (8 * es)"
  shows "do_stores ws out = map (byte_bitrow_at m es ys) [0..<m * (8 * es)]"
  using column_fill [where n = "8 * es", OF assms] unfolding byte_bitrow_at_def [abs_def] assms(3) .

lemma net_bitrow_positions:
  "net_bitrow_SSE (map (\<lambda>r. [16 * r..<16 * r + 16]) [0..<8]) = map (\<lambda>q. map (\<lambda>p. 16 * (p mod 8) + (2 * q + p div 8)) [0..<16]) [0..<8]"
  unfolding net_bitrow_SSE_def Let_def by (simp add: upt_simps mm_unpack_simps del: One_nat_def)

lemma net_bitrow_map: "length rs = 8 \<Longrightarrow> net_bitrow_SSE (map (map f) rs) = map (map f) (net_bitrow_SSE rs)"
  by (auto simp: net_bitrow_SSE_def Let_def mm_unpack_map numeral_eq_Suc length_Suc_conv)

text \<open>A half of a register that is stored holds a column of the eight rows.\<close>

lemma net_bitrow_column:
  assumes "q < 8" and "h < 2" and "\<And>r. r < 8 \<Longrightarrow> (ii + r) * m + jj + 16 \<le> length ys"
  defines "rs \<equiv> net_bitrow_SSE (map (\<lambda>r. segment ((ii + r) * m + jj) 16 ys) [0..<8])"
  shows "segment (8 * h) 8 (rs ! q) = map (\<lambda>k. ys ! ((ii + k) * m + (jj + (2 * q + h)))) [0..<8]"
    and "length (rs ! q) = 16"
proof -
  define f where "f p = ys ! ((ii + p div 16) * m + jj + p mod 16)" for p
  have "segment ((ii + r) * m + jj) 16 ys = map f [16 * r..<16 * r + 16]" if "r < 8" for r
    using assms(3) [OF that] by (intro nth_equalityI) (simp_all add: nth_segment f_def)
  then have "map (\<lambda>r. segment ((ii + r) * m + jj) 16 ys) [0..<8] = map (map f) (map (\<lambda>r. [16 * r..<16 * r + 16]) [0..<8])" by simp
  then have "rs = net_bitrow_SSE (map (map f) (map (\<lambda>r. [16 * r..<16 * r + 16]) [0..<8]))" unfolding rs_def by (simp only:)
  also have "\<dots> = map (map f) (map (\<lambda>q. map (\<lambda>p. 16 * (p mod 8) + (2 * q + p div 8)) [0..<16]) [0..<8])"
    unfolding net_bitrow_positions [symmetric] by (rule net_bitrow_map) simp
  finally have rs: "rs ! q = map (\<lambda>p. f (16 * (p mod 8) + (2 * q + p div 8))) [0..<16]" using assms(1) by simp
  then show "length (rs ! q) = 16" by simp
  show "segment (8 * h) 8 (rs ! q) = map (\<lambda>k. ys ! ((ii + k) * m + (jj + (2 * q + h)))) [0..<8]"
  proof (rule nth_equalityI)
    fix k assume "k < length (segment (8 * h) 8 (rs ! q))"
    then have k: "k < 8" using assms(2) rs by simp
    have "f (16 * k + (2 * q + h)) = ys ! ((ii + k) * m + (jj + (2 * q + h)))" using assms(1,2) by (simp add: f_def add.assoc)
    then show "segment (8 * h) 8 (rs ! q) ! k = map (\<lambda>k. ys ! ((ii + k) * m + (jj + (2 * q + h)))) [0..<8] ! k"
      using k assms(2) by (simp add: nth_segment rs)
  qed (use assms(2) rs in simp)
qed

lemma bitrow_SSE_fill:
  assumes "length ys = m * (8 * es)" and "length out = m * (8 * es)" and "set stores = set (bitrow_SSE_stores m (8 * es) ys)"
  shows "do_stores stores out = map (byte_bitrow_at m es ys) [0..<m * (8 * es)]"
proof -
  let ?ws = "bitrow_SSE_stores m (8 * es) ys"
  let ?col = "column_store m (8 * es) ys"
  define low where "low ii jj = map (\<lambda>q. ?col (jj + 2 * q) ii 8) [0..<8] @ map (\<lambda>q. ?col (jj + (2 * q + 1)) ii 8) [0..<8]" for ii jj
  define rest where "rest ii = [?col jj (ii + kk) 1. jj \<leftarrow> [m - m mod 16..<m], kk \<leftarrow> [0..<8]]" for ii
  have "(let rs = net_bitrow_SSE (map (\<lambda>r. segment ((ii + r) * m + jj) 16 ys) [0..<8])
       in map (\<lambda>q. ((jj + 2 * q) * (8 * es) + ii, segment 0 8 (rs ! q))) [0..<8] @
          map (\<lambda>q. ((jj + (2 * q + 1)) * (8 * es) + ii, segment 8 8 (rs ! q))) [0..<8]) = low ii jj"
    if "ii \<in> set (for_step 0 8 (8 * es))" "jj \<in> set (for_step 0 16 m)" for ii jj
  proof -
    have "length ys = 8 * es * m" using assms(1) by simp
    moreover have "(ii + r) * m + (jj + 15) < 8 * es * m" if "r < 8" for r
      by (rule pair_less) (use that \<open>ii \<in> _\<close> \<open>jj \<in> _\<close> in \<open>auto simp: for_step_mem\<close>)
    ultimately have "(ii + r) * m + jj + 16 \<le> length ys" if "r < 8" for r using that by fastforce
    note col = net_bitrow_column(1) [OF _ _ this]
    show ?thesis using col [where h = 0] col [where h = 1] by (simp add: low_def column_store_def Let_def)
  qed
  then have ws: "?ws = concat (map (\<lambda>ii. concat (map (low ii) (for_step 0 16 m)) @ rest ii) (for_step 0 8 (8 * es)))"
    unfolding bitrow_SSE_stores_def rest_def column_store_def
    by (intro arg_cong [where f = concat] map_cong arg_cong2 [where f = append] refl) (simp_all add: add.assoc)
  show ?thesis
  proof (rule bitrow_fill)
    fix s assume "s \<in> set stores"
    then show "\<exists>c r w. s = ?col c r w \<and> c < m \<and> r + w \<le> 8 * es"
      unfolding assms(3) ws low_def rest_def by (fastforce simp: for_step_mem)
  next
    fix c r assume c: "c < m" and r: "r < 8 * es"
    define ii where "ii = 8 * (r div 8)"
    have "r div 8 < es" using r by (simp add: less_mult_imp_div_less mult.commute)
    then have ii: "ii \<in> set (for_step 0 8 (8 * es))" "ii \<le> r" "r < ii + 8"
      using div_mult_mod_eq [of r 8] mod_less_divisor [of 8 r] by (auto simp: for_step_mem ii_def)
    show "\<exists>r' w. ?col c r' w \<in> set stores \<and> r' \<le> r \<and> r < r' + w"
    proof (cases "c < m - m mod 16")
      case True
      define jj where "jj = 16 * (c div 16)"
      have "c div 16 < m div 16" by (rule less_mult_imp_div_less) (use True in \<open>simp add: minus_mod_eq_div_mult\<close>)
      then have "jj + 16 \<le> m" using div_times_less_eq_dividend [of m 16] unfolding jj_def by linarith
      then have jj: "jj \<in> set (for_step 0 16 m)" by (auto simp: for_step_mem jj_def)
      define q where "q = c mod 16 div 2"
      have "q < 8" by (simp add: q_def less_mult_imp_div_less)
      moreover have "c = jj + 2 * q \<or> c = jj + (2 * q + 1)"
        using mult_div_mod_eq [of 16 c] mult_div_mod_eq [of 2 "c mod 16"] mod_less_divisor [of 2 "c mod 16"] unfolding jj_def q_def by linarith
      ultimately have "?col c ii 8 \<in> set (low ii jj)" by (auto simp: low_def)
      then show ?thesis using ii jj unfolding assms(3) ws by (intro exI [of _ ii] exI [of _ 8]) auto
    next
      case False
      then have "?col c (ii + (r - ii)) 1 \<in> set (rest ii)" using c ii unfolding rest_def by (intro mem_for2) auto
      then show ?thesis using ii unfolding assms(3) ws by (intro exI [of _ r] exI [of _ 1]) auto
    qed
  qed (rule assms(2))
qed

lemma bitrow_SSE_computes:
  assumes "sz mod 8 = 0" and "length ys = sz * es" and "length out = sz * es"
  shows "computes (bshuf_trans_byte_bitrow_SSE sz es ys out) (sz * es) (byte_bitrow_at (sz div 8) es ys)"
proof -
  have m: "sz * es = sz div 8 * (8 * es)" using assms(1) by auto
  show ?thesis using bitrow_SSE_fill [of ys "sz div 8" es out] assms m
    by (simp only: computes_def bshuf_trans_byte_bitrow_SSE_def simp_thms if_False)
qed

text \<open>The AVX2 network works in each half like the SSE2 network.\<close>

lemma length_mm_unpack:
  "length a = 16 \<Longrightarrow> length b = 16 \<Longrightarrow> off \<in> {0, 8} \<Longrightarrow> w \<in> {1, 2, 4, 8} \<Longrightarrow> length (mm_unpack off w a b) = 16"
  by (elim insertE) (simp_all add: mm_unpack_def upt_simps)

lemma mm256_unpack_halves:
  assumes "length a = 32" and "length b = 32" and "off \<in> {0, 8}" and "w \<in> {1, 2, 4, 8}"
  shows "take 16 (mm256_unpack off w a b) = mm_unpack off w (take 16 a) (take 16 b)"
    and "drop 16 (mm256_unpack off w a b) = mm_unpack off w (drop 16 a) (drop 16 b)"
    and "length (mm256_unpack off w a b) = 32"
  using assms length_mm_unpack [of "take 16 a" "take 16 b" off w] length_mm_unpack [of "drop 16 a" "drop 16 b" off w]
  by (simp_all add: mm256_unpack_def)

lemma net_bitrow_AVX_halves:
  assumes "length rs = 8" and "\<forall>r \<in> set rs. length r = 32"
  shows "net_bitrow_AVX rs = map (\<lambda>q. net_bitrow_SSE (map (take 16) rs) ! q @ net_bitrow_SSE (map (drop 16) rs) ! q) [0..<8]"
proof -
  obtain r0 r1 r2 r3 r4 r5 r6 r7 where rs: "rs = [r0, r1, r2, r3, r4, r5, r6, r7]"
    using assms(1) by (auto simp: numeral_eq_Suc length_Suc_conv)
  have eqs: "map (take 16) (net_bitrow_AVX rs) = net_bitrow_SSE (map (take 16) rs)" "map (drop 16) (net_bitrow_AVX rs) = net_bitrow_SSE (map (drop 16) rs)"
    using assms(2) unfolding net_bitrow_AVX_def net_bitrow_SSE_def Let_def rs
    by (simp_all add: upt_simps mm256_unpack_halves)
  have len: "length (net_bitrow_AVX rs) = 8" by (simp add: net_bitrow_AVX_def Let_def upt_simps)
  have "net_bitrow_AVX rs ! q = net_bitrow_SSE (map (take 16) rs) ! q @ net_bitrow_SSE (map (drop 16) rs) ! q" if "q < 8" for q
    unfolding eqs [symmetric] using that len by simp
  then show ?thesis by (intro nth_equalityI [of "net_bitrow_AVX rs"]) (simp_all add: len)
qed

lemma mm_unpack_8: "mm_unpack off 8 a b = segment off 8 a @ segment off 8 b"
  by (simp add: mm_unpack_def)

lemma net_merge_AVX_eq:
  assumes "length y0 = 32" and "length y1 = 32" and "length y2 = 32" and "length y3 = 32"
  shows "net_merge_AVX y0 y1 y2 y3 =
    map (\<lambda>s. segment (8 * s) 8 y0 @ segment (8 * s) 8 y1 @ segment (8 * s) 8 y2 @ segment (8 * s) 8 y3) [0..<4]"
  using assms by (simp add: net_merge_AVX_def mm256_unpack_def mm_unpack_8 mm256_permute2x128_32_def mm256_permute2x128_49_def segment_def upt_simps take_drop)

lemma map_upt_append: "map f [0..<a + b] = map f [0..<a] @ map (\<lambda>k. f (a + k)) [0..<b]"
  by (rule nth_equalityI) (auto simp: nth_append)

lemma segment_halves: "take 16 (segment p 32 xs) = segment p 16 xs" "drop 16 (segment p 32 xs) = segment (p + 16) 16 xs"
  by (simp_all add: segment_def drop_take add.commute)

lemma segment_of_append:
  assumes "length a = 16" and "length b = 16" and "h < 2"
  shows "segment (8 * h) 8 (a @ b) = segment (8 * h) 8 a" "segment (8 * (2 + h)) 8 (a @ b) = segment (8 * h) 8 b"
  using assms by (simp_all add: segment_def)

text \<open>The registers that \<open>bshuf_trans_byte_bitrow_AVX\<close> stores: 32 rows of a column.\<close>

lemma net_AVX_column:
  assumes "mm < 8" and "l < 2" and "h < 2" and rows: "\<And>k. k < 32 \<Longrightarrow> (ii + k) * m + jj + 32 \<le> length ys"
  defines "y \<equiv> \<lambda>hh. net_bitrow_AVX (map (\<lambda>kk. segment ((ii + hh * 8 + kk) * m + jj) 32 ys) [0..<8]) ! mm"
  shows "net_merge_AVX (y 0) (y 1) (y 2) (y 3) ! (2 * l + h) = map (\<lambda>k. ys ! ((ii + k) * m + (jj + (16 * l + (2 * mm + h))))) [0..<32]"
proof -
  let ?f = "\<lambda>k. ys ! ((ii + k) * m + (jj + (16 * l + (2 * mm + h))))"
  have y: "segment (8 * (2 * l + h)) 8 (y hh) = map (\<lambda>k. ?f (hh * 8 + k)) [0..<8] \<and> length (y hh) = 32" if hh: "hh < 4" for hh
  proof -
    let ?seg = "\<lambda>p n. map (\<lambda>kk. segment ((ii + hh * 8 + kk) * m + p) n ys) [0..<8]"
    have r: "(ii + hh * 8 + kk) * m + jj + 32 \<le> length ys" if "kk < 8" for kk
      using rows [of "hh * 8 + kk"] hh that by (simp add: add.assoc)
    have halves: "map (take 16) (?seg jj 32) = ?seg jj 16" "map (drop 16) (?seg jj 32) = ?seg (jj + 16) 16"
      by (simp_all add: segment_halves add.assoc)
    have "length (?seg jj 32) = 8" "\<forall>x \<in> set (?seg jj 32). length x = 32" using r by auto
    from net_bitrow_AVX_halves [OF this, unfolded halves]
    have y_eq: "y hh = net_bitrow_SSE (?seg jj 16) ! mm @ net_bitrow_SSE (?seg (jj + 16) 16) ! mm"
      using assms(1) by (simp add: y_def)
    have c: "(ii + hh * 8 + kk) * m + jj + 16 \<le> length ys" "(ii + hh * 8 + kk) * m + (jj + 16) + 16 \<le> length ys" if "kk < 8" for kk
      using r [OF that] by linarith+
    note col = net_bitrow_column [OF assms(1,3) c(1)] net_bitrow_column [OF assms(1,3) c(2)]
    consider "l = 0" | "l = 1" using assms(2) by linarith
    then show ?thesis using col segment_of_append [OF col(2,4) assms(3)] by cases (simp_all add: y_eq add.assoc)
  qed
  have "2 * l + h < 4" using assms(2,3) by linarith
  then have "net_merge_AVX (y 0) (y 1) (y 2) (y 3) ! (2 * l + h) = map (\<lambda>k. ?f (0 * 8 + k)) [0..<8] @ map (\<lambda>k. ?f (1 * 8 + k)) [0..<8] @ map (\<lambda>k. ?f (2 * 8 + k)) [0..<8] @ map (\<lambda>k. ?f (3 * 8 + k)) [0..<8]"
    using y [of 0] y [of 1] y [of 2] y [of 3] by (subst net_merge_AVX_eq) simp_all
  also have "\<dots> = map ?f [0..<8 + (8 + (8 + 8))]" unfolding map_upt_append by (simp add: add.assoc)
  finally show ?thesis by simp
qed

definition AVX_block :: "nat \<Rightarrow> nat \<Rightarrow> byte list \<Rightarrow> nat \<Rightarrow> nat \<Rightarrow> store list" where
  "AVX_block m es ys jj ii = concat (map (\<lambda>mm.
     [column_store m (8 * es) ys (jj + mm * 2 + 0 * 16) (ii * 8) 32, column_store m (8 * es) ys (jj + mm * 2 + 0 * 16 + 1) (ii * 8) 32,
      column_store m (8 * es) ys (jj + mm * 2 + 1 * 16) (ii * 8) 32, column_store m (8 * es) ys (jj + mm * 2 + 1 * 16 + 1) (ii * 8) 32]) [0..<8])"

lemma bitrow_AVX_stores_eq:
  assumes "length ys = 8 * es * m"
  shows "bitrow_AVX_stores m es ys = concat (map (\<lambda>jj. concat (map (AVX_block m es ys jj) (for_step 0 4 es))) (for_step 0 32 m)) @
    [column_store m (8 * es) ys jj ii 1. ii \<leftarrow> [0..<8 * es], jj \<leftarrow> [m - m mod 32..<m]]"
proof -
  let ?col = "column_store m (8 * es) ys"
  have "(let storeage = map (\<lambda>hh. net_bitrow_AVX (map (\<lambda>kk. segment ((ii * 8 + hh * 8 + kk) * m + jj) 32 ys) [0..<8])) [0..<4]
        in concat (map (\<lambda>mm.
             let rs = net_merge_AVX (storeage ! 0 ! mm) (storeage ! 1 ! mm) (storeage ! 2 ! mm) (storeage ! 3 ! mm)
             in [((jj + mm * 2 + 0 * 16) * (8 * es) + ii * 8, rs ! 0), ((jj + mm * 2 + 0 * 16 + 1) * (8 * es) + ii * 8, rs ! 1),
                 ((jj + mm * 2 + 1 * 16) * (8 * es) + ii * 8, rs ! 2), ((jj + mm * 2 + 1 * 16 + 1) * (8 * es) + ii * 8, rs ! 3)]) [0..<8])) = AVX_block m es ys jj ii"
    if "jj \<in> set (for_step 0 32 m)" "ii \<in> set (for_step 0 4 es)" for ii jj
  proof -
    note assms
    moreover have "(ii * 8 + k) * m + (jj + 31) < 8 * es * m" if "k < 32" for k
      by (rule pair_less) (use that \<open>ii \<in> _\<close> \<open>jj \<in> _\<close> in \<open>auto simp: for_step_mem\<close>)
    ultimately have "(ii * 8 + k) * m + jj + 32 \<le> length ys" if "k < 32" for k using that by fastforce
    note col = net_AVX_column [OF _ _ _ this]
    define Y where "Y hh = net_bitrow_AVX (map (\<lambda>kk. segment ((ii * 8 + hh * 8 + kk) * m + jj) 32 ys) [0..<8])" for hh
    let ?rs = "\<lambda>mm. net_merge_AVX (Y 0 ! mm) (Y 1 ! mm) (Y 2 ! mm) (Y 3 ! mm)"
    have rs: "(c * (8 * es) + ii * 8, ?rs mm ! (2 * l + h)) = ?col c (ii * 8) 32"
      if "mm < 8" "l < 2" "h < 2" "c = jj + mm * 2 + l * 16 + h" for mm l h c
    proof -
      have "jj + (16 * l + (2 * mm + h)) = c" by (simp add: that(4))
      then show ?thesis using col [OF that(1-3)] by (simp add: Y_def column_store_def)
    qed
    have "[((jj + mm * 2 + 0 * 16) * (8 * es) + ii * 8, ?rs mm ! 0), ((jj + mm * 2 + 0 * 16 + 1) * (8 * es) + ii * 8, ?rs mm ! 1),
        ((jj + mm * 2 + 1 * 16) * (8 * es) + ii * 8, ?rs mm ! 2), ((jj + mm * 2 + 1 * 16 + 1) * (8 * es) + ii * 8, ?rs mm ! 3)] =
      [?col (jj + mm * 2 + 0 * 16) (ii * 8) 32, ?col (jj + mm * 2 + 0 * 16 + 1) (ii * 8) 32,
        ?col (jj + mm * 2 + 1 * 16) (ii * 8) 32, ?col (jj + mm * 2 + 1 * 16 + 1) (ii * 8) 32]" if "mm < 8" for mm
      using rs [where l = 0 and h = 0, OF that] rs [where l = 0 and h = 1, OF that] rs [where l = 1 and h = 0, OF that]
        rs [where l = 1 and h = 1, OF that] by simp
    moreover have "map Y [0..<4] ! 0 = Y 0" "map Y [0..<4] ! 1 = Y 1" "map Y [0..<4] ! 2 = Y 2" "map Y [0..<4] ! 3 = Y 3"
      by (simp_all add: upt_simps)
    ultimately show ?thesis
      unfolding AVX_block_def Let_def Y_def [abs_def, symmetric] by (intro arg_cong [where f = concat] map_cong refl) (simp only: set_upt atLeastLessThan_iff)
  qed
  then show ?thesis
    unfolding bitrow_AVX_stores_def column_store_def [of m "8 * es" ys _ _ 1] Let_def
    by (intro arg_cong [where f = concat] map_cong arg_cong2 [where f = append] refl) simp_all
qed

lemma AVX_block_columns:
  assumes "jj \<le> c" and "c < jj + 32"
  shows "column_store m (8 * es) ys c (ii * 8) 32 \<in> set (AVX_block m es ys jj ii)"
proof -
  define d where "d = c - jj"
  define h where "h = d mod 16 mod 2"
  define l where "l = d div 16"
  define mm where "mm = d mod 16 div 2"
  have d: "c = jj + d" "d < 32" using assms by (simp_all add: d_def)
  have "mm < 8" "h < 2" "l < 2" "d = mm * 2 + h + l * 16" using d(2) by (simp_all add: mm_def h_def l_def less_mult_imp_div_less)
  then have "mm < 8 \<and> (c = jj + mm * 2 + 0 * 16 \<or> c = jj + mm * 2 + 0 * 16 + 1 \<or> c = jj + mm * 2 + 1 * 16 \<or> c = jj + mm * 2 + 1 * 16 + 1)"
    unfolding d(1) by (auto simp: less_2_cases_iff)
  then show ?thesis unfolding AVX_block_def by (elim conjE disjE) (simp_all, (intro bexI [of _ mm]; simp)+)
qed

lemma bitrow_AVX_computes:
  assumes "sz mod 8 = 0" and "length ys = sz * es" and "length out = sz * es"
  shows "computes (bshuf_trans_byte_bitrow_AVX sz es ys out) (sz * es) (byte_bitrow_at (sz div 8) es ys)"
proof (cases "es mod 4 = 0")
  case False
  then show ?thesis using bitrow_SSE_computes [OF assms] assms(1) by (simp add: bshuf_trans_byte_bitrow_AVX_def)
next
  case True
  define m where "m = sz div 8"
  have m: "sz * es = m * (8 * es)" using assms(1) by (auto simp: m_def)
  let ?ws = "bitrow_AVX_stores m es ys" and ?blk = "AVX_block m es ys"
  let ?col = "column_store m (8 * es) ys"
  let ?rest = "[?col jj ii 1. ii \<leftarrow> [0..<8 * es], jj \<leftarrow> [m - m mod 32..<m]]"
  have "length ys = 8 * es * m" using assms(2) m by simp
  note ws = bitrow_AVX_stores_eq [OF this]
  have "do_stores ?ws out = map (byte_bitrow_at m es ys) [0..<m * (8 * es)]"
  proof (rule bitrow_fill)
    fix s assume "s \<in> set ?ws"
    then consider jj ii where "jj \<in> set (for_step 0 32 m)" "ii \<in> set (for_step 0 4 es)" "s \<in> set (?blk jj ii)" | "s \<in> set ?rest"
      unfolding ws by auto
    then show "\<exists>c r w. s = ?col c r w \<and> c < m \<and> r + w \<le> 8 * es"
    proof cases
      case 1
      then have "jj + 32 \<le> m" "ii * 8 + 32 \<le> 8 * es" by (auto simp: for_step_mem)
      moreover obtain mm c where "mm < 8" "s = ?col c (ii * 8) 32" "c \<le> jj + mm * 2 + 17" using 1(3) by (auto simp: AVX_block_def)
      ultimately show ?thesis by (intro exI [of _ c] exI [of _ "ii * 8"] exI [of _ 32]) auto
    next
      case 2
      then obtain jj ii where "ii < 8 * es" "jj < m" "s = ?col jj ii 1" by auto
      then show ?thesis by (intro exI [of _ jj] exI [of _ ii] exI [of _ 1]) auto
    qed
  next
    fix c r assume c: "c < m" and r: "r < 8 * es"
    show "\<exists>r' w. ?col c r' w \<in> set ?ws \<and> r' \<le> r \<and> r < r' + w"
    proof (cases "c < m - m mod 32")
      case True
      define jj where "jj = 32 * (c div 32)"
      have "c div 32 < m div 32" by (rule less_mult_imp_div_less) (use True in \<open>simp add: minus_mod_eq_div_mult\<close>)
      then have "jj + 32 \<le> m" using div_times_less_eq_dividend [of m 32] unfolding jj_def by linarith
      then have jj: "jj \<in> set (for_step 0 32 m)" by (auto simp: for_step_mem jj_def)
      define ii where "ii = 4 * (r div 32)"
      have e4: "es = 4 * (es div 4)" using \<open>es mod 4 = 0\<close> by (simp add: mod_0_imp_dvd)
      have "r div 32 < es div 4" by (rule less_mult_imp_div_less) (use r e4 in linarith)
      then have "ii + 4 \<le> es" using e4 unfolding ii_def by linarith
      then have ii: "ii \<in> set (for_step 0 4 es)" "ii * 8 \<le> r" "r < ii * 8 + 32"
        using mult_div_mod_eq [of 32 r] mod_less_divisor [of 32 r] by (auto simp: for_step_mem ii_def)
      have "jj \<le> c" "c < jj + 32" using mult_div_mod_eq [of 32 c] mod_less_divisor [of 32 c] unfolding jj_def by linarith+
      then have "?col c (ii * 8) 32 \<in> set (?blk jj ii)" by (rule AVX_block_columns)
      then show ?thesis using ii jj unfolding ws by (intro exI [of _ "ii * 8"] exI [of _ 32]) auto
    next
      case False
      then have "?col c r 1 \<in> set ?rest" using c r by (intro mem_for2 [where f = "\<lambda>ii jj. ?col jj ii 1"]) auto
      then show ?thesis unfolding ws by (intro exI [of _ r] exI [of _ 1]) auto
    qed
  qed (use assms(3) m in simp)
  then show ?thesis
    by (simp only: computes_def bshuf_trans_byte_bitrow_AVX_def m_def [symmetric] m assms(1) True simp_thms if_False)
qed

section \<open>Bits of eight elements\<close>

definition eightelem_SSE_stores :: "nat \<Rightarrow> nat \<Rightarrow> byte list \<Rightarrow> store list" where
  "eightelem_SSE_stores nbyte elem_size in_b =
     [(2 * ((ii + jj div 8 + (7 - kk) * elem_size) div 2), movemask_epi8 ((slli_epi16 ^^ kk) (segment (ii + jj) 16 in_b))).
        ii \<leftarrow> for_step 0 (8 * elem_size) nbyte, jj \<leftarrow> for_step 0 16 (8 * elem_size), kk \<leftarrow> [0..<8]]"

definition bshuf_shuffle_bit_eightelem_SSE :: kernel where
  "bshuf_shuffle_bit_eightelem_SSE sz elem_size in_b out_b =
     (if sz mod 8 \<noteq> 0 then (- 80, out_b)
      else (int (sz * elem_size),
        if elem_size mod 2 \<noteq> 0 then snd (bshuf_shuffle_bit_eightelem_scal sz elem_size in_b out_b)
        else do_stores (eightelem_SSE_stores (elem_size * sz) elem_size in_b) out_b))"

definition eightelem_AVX_stores :: "nat \<Rightarrow> nat \<Rightarrow> byte list \<Rightarrow> store list" where
  "eightelem_AVX_stores nbyte elem_size in_b =
     [(ii + jj div 8 + (7 - kk) * elem_size, movemask_epi8 ((slli_epi16 ^^ kk) (segment (ii + jj) 32 in_b))).
        jj \<leftarrow> for_step 0 32 (8 * elem_size), ii \<leftarrow> for_step 0 (8 * elem_size) nbyte, kk \<leftarrow> [0..<8]]"

definition bshuf_shuffle_bit_eightelem_AVX :: kernel where
  "bshuf_shuffle_bit_eightelem_AVX sz elem_size in_b out_b =
     (if sz mod 8 \<noteq> 0 then (- 80, out_b)
      else if elem_size mod 4 \<noteq> 0 then bshuf_shuffle_bit_eightelem_SSE sz elem_size in_b out_b
      else (int (sz * elem_size), do_stores (eightelem_AVX_stores (elem_size * sz) elem_size in_b) out_b))"

definition bshuf_untrans_bit_elem_SSE :: "(nat \<Rightarrow> byte list option) \<Rightarrow> kernel" where
  "bshuf_untrans_bit_elem_SSE malloc sz elem_size in_b out_b =
     (if sz mod 8 \<noteq> 0 then (- 80, out_b)
      else case malloc (sz * elem_size) of None \<Rightarrow> (- 1, out_b)
      | Some tmp_buf \<Rightarrow>
          (case bshuf_trans_byte_bitrow_SSE sz elem_size in_b tmp_buf of (count, tmp1) \<Rightarrow>
           if count < 0 then (count, out_b) else bshuf_shuffle_bit_eightelem_SSE sz elem_size tmp1 out_b))"

definition bshuf_untrans_bit_elem_AVX :: "(nat \<Rightarrow> byte list option) \<Rightarrow> kernel" where
  "bshuf_untrans_bit_elem_AVX malloc sz elem_size in_b out_b =
     (if sz mod 8 \<noteq> 0 then (- 80, out_b)
      else case malloc (sz * elem_size) of None \<Rightarrow> (- 1, out_b)
      | Some tmp_buf \<Rightarrow>
          (case bshuf_trans_byte_bitrow_AVX sz elem_size in_b tmp_buf of (count, tmp1) \<Rightarrow>
           if count < 0 then (count, out_b) else bshuf_shuffle_bit_eightelem_AVX sz elem_size tmp1 out_b))"

text \<open>The store of a register of \<open>8 * w\<close> bytes in the step \<open>kk\<close>: \<open>w\<close> bytes of an element.\<close>

definition eightelem_store :: "nat \<Rightarrow> nat \<Rightarrow> byte list \<Rightarrow> nat \<Rightarrow> nat \<Rightarrow> nat \<Rightarrow> store" where
  "eightelem_store w es ys i t kk =
     (i * (8 * es) + w * t + (7 - kk) * es, movemask_epi8 ((slli_epi16 ^^ kk) (segment (i * (8 * es) + 8 * (w * t)) (8 * w) ys)))"

lemma eightelem_store_ok:
  assumes "es = w * n" and "length ys = m * (8 * es)" and "i < m" and "t < n" and "kk < 8"
  shows "case eightelem_store w es ys i t kk of (p, c) \<Rightarrow>
    length c = w \<and> p + w \<le> m * (8 * es) \<and> (\<forall>k < w. c ! k = eightelem_at es ys (p + k))"
proof -
  let ?q = "i * (8 * es) + 8 * (w * t)" and ?e = "i * 8 + (7 - kk)"
  have "Suc t * w \<le> n * w" using assms(4) by (intro mult_le_mono1) simp
  then have tw: "w * t + w \<le> es" by (simp add: assms(1) mult.commute)
  have "Suc i * (8 * es) \<le> m * (8 * es)" using assms(3) by (intro mult_le_mono1) simp
  then have im: "i * (8 * es) + 8 * es \<le> m * (8 * es)" by (simp only: mult_Suc add.commute)
  then have q: "?q + 8 * w \<le> length ys" using tw unfolding assms(2) by linarith
  have "(7 - kk) * es + es \<le> 8 * es" using mult_le_mono1 [of "Suc (7 - kk)" 8 es] by simp
  then have p: "i * (8 * es) + w * t + (7 - kk) * es + w \<le> m * (8 * es)" using im tw by linarith
  have "movemask_epi8 ((slli_epi16 ^^ kk) (segment ?q (8 * w) ys)) ! k = eightelem_at es ys (i * (8 * es) + w * t + (7 - kk) * es + k)"
    if k: "k < w" for k
  proof -
    have b: "w * t + k < es" using tw k by linarith
    have pk: "i * (8 * es) + w * t + (7 - kk) * es + k = ?e * es + (w * t + k)" by (simp add: algebra_simps)
    have "7 - kk < 8" by simp
    note pair_index [OF this, of i]
    then have "eightelem_at es ys (?e * es + (w * t + k)) = bits_byte (\<lambda>j. bit (ys ! (i * (8 * es) + 8 * (w * t + k) + j)) (7 - kk))"
      unfolding eightelem_at_def pair_index [OF b] by simp
    then show ?thesis unfolding pk movemask_segment [OF q k assms(5)] by (simp add: distrib_left add.assoc)
  qed
  then show ?thesis using p length_movemask_slli [OF q] by (simp add: eightelem_store_def)
qed

lemma eightelem_fill:
  assumes "es = w * n" and "0 < w" and "length ys = m * (8 * es)" and "length out = m * (8 * es)"
    and "\<And>s. s \<in> set ws \<longleftrightarrow> (\<exists>i < m. \<exists>t < n. \<exists>kk < 8. s = eightelem_store w es ys i t kk)"
  shows "do_stores ws out = map (eightelem_at es ys) [0..<m * (8 * es)]"
proof -
  have "stores_ok ws (length out) (eightelem_at es ys)"
    unfolding stores_ok_def
  proof
    fix s assume "s \<in> set ws"
    then obtain i t kk where "i < m" "t < n" "kk < 8" "s = eightelem_store w es ys i t kk" unfolding assms(5) by blast
    then show "case s of (p, c) \<Rightarrow> p + length c \<le> length out \<and> (\<forall>k < length c. c ! k = eightelem_at es ys (p + k))"
      using eightelem_store_ok [OF assms(1,3)] assms(4) by fastforce
  qed
  moreover have "stored ws x" if x: "x < length out" for x
  proof -
    define e where "e = x div es"
    define b where "b = x mod es"
    define t where "t = b div w"
    have es: "0 < es" using x assms(4) by (cases es) simp_all
    have lt: "b < n * w" "e < m * 8" using es x assms(1,4) by (simp_all add: b_def e_def less_mult_imp_div_less mult.commute mult.left_commute)
    then have i: "e div 8 < m" "t < n" "7 - e mod 8 < 8" by (simp_all add: t_def less_mult_imp_div_less)
    let ?s = "eightelem_store w es ys (e div 8) t (7 - e mod 8)"
    have mem: "?s \<in> set ws" unfolding assms(5) using i by blast
    have "x = e * es + b" by (simp add: e_def b_def)
    also have "e * es = e div 8 * (8 * es) + e mod 8 * es" by (metis div_mult_mod_eq distrib_right mult.assoc)
    finally have x_eq: "x = e div 8 * (8 * es) + b + (7 - (7 - e mod 8)) * es" by simp
    have "w * t \<le> b" "b < w * t + w" using mult_div_mod_eq [of w b] mod_less_divisor [OF assms(2), of b] unfolding t_def by linarith+
    then show ?thesis
      using eightelem_store_ok [OF assms(1,3) i] mem stored_inside [of "fst ?s" "snd ?s" ws x] x_eq
      by (auto simp: eightelem_store_def)
  qed
  ultimately show ?thesis using do_stores_all assms(4) by metis
qed

lemma eightelem_loops:
  assumes "0 < es"
  shows "(\<exists>ii \<in> set (for_step 0 (8 * es) (m * (8 * es))). P ii) \<longleftrightarrow> (\<exists>i < m. P (i * (8 * es)))"
    and "0 < w \<Longrightarrow> (\<exists>jj \<in> set (for_step 0 (8 * w) (8 * (w * n))). Q jj) \<longleftrightarrow> (\<exists>t < n. Q (8 * (w * t)))"
proof -
  have "8 * es * k + 8 * es \<le> m * (8 * es) \<longleftrightarrow> k < m" for k
    using mult_le_cancel2 [of "Suc k" "8 * es" m] assms by (simp add: algebra_simps Suc_le_eq)
  then show "(\<exists>ii \<in> set (for_step 0 (8 * es) (m * (8 * es))). P ii) \<longleftrightarrow> (\<exists>i < m. P (i * (8 * es)))"
    using assms by (simp add: bex_for_step mult.commute)
  have "8 * w * k + 8 * w \<le> 8 * (w * n) \<longleftrightarrow> k < n" if "0 < w" for k
    using mult_le_cancel2 [of "Suc k" "8 * w" n] that by (simp add: algebra_simps Suc_le_eq)
  then show "0 < w \<Longrightarrow> (\<exists>jj \<in> set (for_step 0 (8 * w) (8 * (w * n))). Q jj) \<longleftrightarrow> (\<exists>t < n. Q (8 * (w * t)))"
    by (simp add: bex_for_step mult.assoc)
qed

lemma eightelem_SSE_computes:
  assumes "sz mod 8 = 0" and "length ys = sz * es" and "length out = sz * es"
  shows "computes (bshuf_shuffle_bit_eightelem_SSE sz es ys out) (sz * es) (eightelem_at es ys)"
proof (cases "es mod 2 = 0 \<and> 0 < es")
  case False
  then show ?thesis using eightelem_scal_computes [OF assms] assms
    by (auto simp: bshuf_shuffle_bit_eightelem_SSE_def computes_def do_stores_def eightelem_SSE_stores_def for_step.simps [of 0 0 0])
next
  case True
  define m where "m = sz div 8"
  define n where "n = es div 2"
  have m: "sz * es = m * (8 * es)" "es * sz = m * (8 * es)" and n: "es = 2 * n" using assms(1) True by (auto simp: m_def n_def mult.commute)
  have "s \<in> set (eightelem_SSE_stores (es * sz) es ys) \<longleftrightarrow> (\<exists>i < m. \<exists>t < n. \<exists>kk < 8. s = eightelem_store 2 es ys i t kk)" for s
  proof -
    have "2 * ((i * (8 * es) + 8 * (2 * t) div 8 + k * es) div 2) = i * (8 * es) + 2 * t + k * es" for i t k
    proof -
      have "i * (8 * es) + 8 * (2 * t) div 8 + k * es = 2 * (i * (8 * n) + t + k * n)" by (simp add: n algebra_simps)
      then show ?thesis by (simp add: n algebra_simps)
    qed
    moreover have "s \<in> set (eightelem_SSE_stores (es * sz) es ys) \<longleftrightarrow>
        (\<exists>ii \<in> set (for_step 0 (8 * es) (es * sz)). \<exists>jj \<in> set (for_step 0 16 (8 * es)). \<exists>kk < 8.
          s = (2 * ((ii + jj div 8 + (7 - kk) * es) div 2), movemask_epi8 ((slli_epi16 ^^ kk) (segment (ii + jj) 16 ys))))"
      unfolding eightelem_SSE_stores_def by (simp add: image_iff atLeast0LessThan Bex_def [of "{..<8}"])
    ultimately show ?thesis
      using eightelem_loops(1) [of es] eightelem_loops(2) [where es = es and w = 2 and n = n] True
      by (simp add: m(2) n [symmetric] eightelem_store_def)
  qed
  from eightelem_fill [OF n _ _ _ this, of out] show ?thesis
    using True assms by (simp add: computes_def bshuf_shuffle_bit_eightelem_SSE_def m del: of_nat_mult)
qed

lemma eightelem_AVX_computes:
  assumes "sz mod 8 = 0" and "length ys = sz * es" and "length out = sz * es"
  shows "computes (bshuf_shuffle_bit_eightelem_AVX sz es ys out) (sz * es) (eightelem_at es ys)"
proof (cases "es mod 4 = 0 \<and> 0 < es")
  case False
  then show ?thesis using eightelem_SSE_computes [OF assms] assms
    by (auto simp: bshuf_shuffle_bit_eightelem_AVX_def computes_def do_stores_def eightelem_AVX_stores_def for_step.simps [of 0 32 0])
next
  case True
  define m where "m = sz div 8"
  define n where "n = es div 4"
  have m: "sz * es = m * (8 * es)" "es * sz = m * (8 * es)" and n: "es = 4 * n"
    using assms(1) True by (auto simp: m_def n_def mult.commute mod_0_imp_dvd)
  have "s \<in> set (eightelem_AVX_stores (es * sz) es ys) \<longleftrightarrow> (\<exists>i < m. \<exists>t < n. \<exists>kk < 8. s = eightelem_store 4 es ys i t kk)" for s
  proof -
    have "s \<in> set (eightelem_AVX_stores (es * sz) es ys) \<longleftrightarrow>
        (\<exists>jj \<in> set (for_step 0 32 (8 * es)). \<exists>ii \<in> set (for_step 0 (8 * es) (es * sz)). \<exists>kk < 8.
          s = (ii + jj div 8 + (7 - kk) * es, movemask_epi8 ((slli_epi16 ^^ kk) (segment (ii + jj) 32 ys))))"
      unfolding eightelem_AVX_stores_def by (simp add: image_iff atLeast0LessThan Bex_def [of "{..<8}"])
    then show ?thesis
      using eightelem_loops(1) [of es] eightelem_loops(2) [where es = es and w = 4 and n = n] True
      by (simp add: m(2) n [symmetric] eightelem_store_def) blast
  qed
  from eightelem_fill [OF n _ _ _ this, of out] show ?thesis
    using True assms by (simp add: computes_def bshuf_shuffle_bit_eightelem_AVX_def m del: of_nat_mult)
qed

section \<open>The instruction sets\<close>

lemma trans_bit_byte_SIMD_computes:
  assumes "sz mod 8 = 0" and "length xs = sz * es" and "length out = sz * es"
  shows "computes (bshuf_trans_bit_byte_SSE sz es xs out) (sz * es) (trans_bit_byte_at (sz * es div 8) xs)"
    and "computes (bshuf_trans_bit_byte_AVX sz es xs out) (sz * es) (trans_bit_byte_at (sz * es div 8) xs)"
proof -
  have n: "es * sz mod 8 = 0" using assms(1) by auto
  show "computes (bshuf_trans_bit_byte_SSE sz es xs out) (sz * es) (trans_bit_byte_at (sz * es div 8) xs)"
    using bit_byte_SIMD_computes [of 16 2, OF _ _ n assms(2,3)] n by (simp add: bshuf_trans_bit_byte_SSE_def Let_def)
  show "computes (bshuf_trans_bit_byte_AVX sz es xs out) (sz * es) (trans_bit_byte_at (sz * es div 8) xs)"
    using bit_byte_SIMD_computes [of 32 4, OF _ _ n assms(2,3)] by (simp add: bshuf_trans_bit_byte_AVX_def Let_def)
qed

interpretation sse: bshuf_passes bshuf_trans_byte_elem_SSE bshuf_trans_bit_byte_SSE bshuf_trans_byte_bitrow_SSE
  bshuf_shuffle_bit_eightelem_SSE
  by unfold_locales (intro trans_byte_elem_SSE_computes trans_bit_byte_SIMD_computes bitrow_SSE_computes eightelem_SSE_computes; assumption)+

interpretation avx: bshuf_passes bshuf_trans_byte_elem_SSE bshuf_trans_bit_byte_AVX bshuf_trans_byte_bitrow_AVX
  bshuf_shuffle_bit_eightelem_AVX
  by unfold_locales (intro trans_byte_elem_SSE_computes trans_bit_byte_SIMD_computes bitrow_AVX_computes eightelem_AVX_computes; assumption)+

end
