(* ===== verification/BshufNEON.thy ===== *)
theory BshufNEON
  imports BshufSIMD
begin

unbundle bit_operations_syntax

text \<open>
  The routines of \<open>bitshuffle_core.c\<close> for the NEON registers of ARM processors, and the functions that choose among the
  instruction sets. As in theory \<open>BshufSIMD\<close> a register is the list of its sixteen bytes in memory. The zips of NEON
  are the unpacks of SSE2; there is no instruction for the mask of the highest bits, which is put together byte by byte.
\<close>

section \<open>Intrinsics\<close>

text \<open>\<open>vzip1q_s8\<close>, \<open>_s16\<close>, \<open>_s32\<close>, \<open>_s64\<close> interleave the lanes of \<open>w\<close> bytes of the lower halves, \<open>vzip2q\<close> those of the
  upper halves; \<open>vshlq_n_s16(x, 1)\<close> shifts the lanes of two bytes.\<close>

abbreviation vzip1q :: "nat \<Rightarrow> 'a list \<Rightarrow> 'a list \<Rightarrow> 'a list" where "vzip1q \<equiv> mm_unpack 0"
abbreviation vzip2q :: "nat \<Rightarrow> 'a list \<Rightarrow> 'a list \<Rightarrow> 'a list" where "vzip2q \<equiv> mm_unpack 8"
abbreviation vshlq_n_s16 :: "byte list \<Rightarrow> byte list" where "vshlq_n_s16 \<equiv> slli_epi16"

definition move_byte_mask_neon :: "byte list \<Rightarrow> u32" where
  "move_byte_mask_neon xs = foldl (OR) 0 (map (\<lambda>i. push_bit i (drop_bit 7 (ucast (xs ! i AND 0x80)))) [0..<16])"

text \<open>\<open>*out_ui16 = bt\<close>\<close>

definition stored_mask :: "byte list \<Rightarrow> byte list" where
  "stored_mask xs = u16_bytes (ucast (move_byte_mask_neon xs))"

section \<open>Transposing bytes\<close>

definition net_NEON_16 :: "'a list list \<Rightarrow> 'a list list" where
  "net_NEON_16 rs = (case rs of [a0, b0] \<Rightarrow>
     let a1 = vzip1q 1 a0 b0; b1 = vzip2q 1 a0 b0;
         a0 = vzip1q 1 a1 b1; b0 = vzip2q 1 a1 b1;
         a1 = vzip1q 1 a0 b0; b1 = vzip2q 1 a0 b0;
         a0 = vzip1q 1 a1 b1; b0 = vzip2q 1 a1 b1
     in [a0, b0] | _ \<Rightarrow> [])"

definition net_NEON_32 :: "'a list list \<Rightarrow> 'a list list" where
  "net_NEON_32 rs = (case rs of [a0, b0, c0, d0] \<Rightarrow>
     let a1 = vzip1q 1 a0 b0; b1 = vzip2q 1 a0 b0; c1 = vzip1q 1 c0 d0; d1 = vzip2q 1 c0 d0;
         a0 = vzip1q 1 a1 b1; b0 = vzip2q 1 a1 b1; c0 = vzip1q 1 c1 d1; d0 = vzip2q 1 c1 d1;
         a1 = vzip1q 1 a0 b0; b1 = vzip2q 1 a0 b0; c1 = vzip1q 1 c0 d0; d1 = vzip2q 1 c0 d0;
         a2 = vzip1q 8 a1 c1; b2 = vzip2q 8 a1 c1; c2 = vzip1q 8 b1 d1; d2 = vzip2q 8 b1 d1
     in [a2, b2, c2, d2] | _ \<Rightarrow> [])"

definition net_NEON_64 :: "'a list list \<Rightarrow> 'a list list" where
  "net_NEON_64 rs = (case rs of [a0, b0, c0, d0, e0, f0, g0, h0] \<Rightarrow>
     let a1 = vzip1q 1 a0 b0; b1 = vzip2q 1 a0 b0; c1 = vzip1q 1 c0 d0; d1 = vzip2q 1 c0 d0;
         e1 = vzip1q 1 e0 f0; f1 = vzip2q 1 e0 f0; g1 = vzip1q 1 g0 h0; h1 = vzip2q 1 g0 h0;
         a0 = vzip1q 1 a1 b1; b0 = vzip2q 1 a1 b1; c0 = vzip1q 1 c1 d1; d0 = vzip2q 1 c1 d1;
         e0 = vzip1q 1 e1 f1; f0 = vzip2q 1 e1 f1; g0 = vzip1q 1 g1 h1; h0 = vzip2q 1 g1 h1;
         a1 = vzip1q 4 a0 c0; b1 = vzip2q 4 a0 c0; c1 = vzip1q 4 b0 d0; d1 = vzip2q 4 b0 d0;
         e1 = vzip1q 4 e0 g0; f1 = vzip2q 4 e0 g0; g1 = vzip1q 4 f0 h0; h1 = vzip2q 4 f0 h0;
         a0 = vzip1q 8 a1 e1; b0 = vzip2q 8 a1 e1; c0 = vzip1q 8 b1 f1; d0 = vzip2q 8 b1 f1;
         e0 = vzip1q 8 c1 g1; f0 = vzip2q 8 c1 g1; g0 = vzip1q 8 d1 h1; h0 = vzip2q 8 d1 h1
     in [a0, b0, c0, d0, e0, f0, g0, h0] | _ \<Rightarrow> [])"

definition byte_elem_NEON_stores :: "nat \<Rightarrow> (byte list list \<Rightarrow> byte list list) \<Rightarrow> nat \<Rightarrow> byte list \<Rightarrow> store list" where
  "byte_elem_NEON_stores es net sz in_b =
     [(j * sz + ii, net (map (\<lambda>r. segment (es * ii + 16 * r) 16 in_b) [0..<es]) ! j). ii \<leftarrow> for_step 0 16 sz, j \<leftarrow> [0..<es]]"

definition bshuf_trans_byte_elem_NEON_16 :: "nat \<Rightarrow> byte list \<Rightarrow> byte list \<Rightarrow> int \<times> byte list" where
  "bshuf_trans_byte_elem_NEON_16 sz in_b out_b =
     bshuf_trans_byte_elem_remainder sz 2 (sz - sz mod 16) in_b (do_stores (byte_elem_NEON_stores 2 net_NEON_16 sz in_b) out_b)"

definition bshuf_trans_byte_elem_NEON_32 :: "nat \<Rightarrow> byte list \<Rightarrow> byte list \<Rightarrow> int \<times> byte list" where
  "bshuf_trans_byte_elem_NEON_32 sz in_b out_b =
     bshuf_trans_byte_elem_remainder sz 4 (sz - sz mod 16) in_b (do_stores (byte_elem_NEON_stores 4 net_NEON_32 sz in_b) out_b)"

definition bshuf_trans_byte_elem_NEON_64 :: "nat \<Rightarrow> byte list \<Rightarrow> byte list \<Rightarrow> int \<times> byte list" where
  "bshuf_trans_byte_elem_NEON_64 sz in_b out_b =
     bshuf_trans_byte_elem_remainder sz 8 (sz - sz mod 16) in_b (do_stores (byte_elem_NEON_stores 8 net_NEON_64 sz in_b) out_b)"

definition bshuf_trans_byte_elem_NEON :: "(nat \<Rightarrow> byte list option) \<Rightarrow> kernel" where
  "bshuf_trans_byte_elem_NEON malloc sz elem_size in_b out_b =
     (if elem_size = 1 then bshuf_copy sz elem_size in_b out_b
      else if elem_size = 2 then bshuf_trans_byte_elem_NEON_16 sz in_b out_b
      else if elem_size = 4 then bshuf_trans_byte_elem_NEON_32 sz in_b out_b
      else if elem_size = 8 then bshuf_trans_byte_elem_NEON_64 sz in_b out_b
      else if elem_size mod 4 \<noteq> 0 then bshuf_trans_byte_elem_scal sz elem_size in_b out_b
      else case malloc (sz * elem_size) of None \<Rightarrow> (- 1, out_b)
      | Some tmp_buf \<Rightarrow>
          if elem_size mod 8 = 0
          then let nchunk_elem = elem_size div 8; out1 = TRANS_ELEM_TYPE 8 sz nchunk_elem in_b out_b in
               (case bshuf_trans_byte_elem_NEON_64 (sz * nchunk_elem) out1 tmp_buf of (count, tmp1) \<Rightarrow>
                (count, snd (bshuf_trans_elem 8 nchunk_elem sz tmp1 out1)))
          else let nchunk_elem = elem_size div 4; out1 = TRANS_ELEM_TYPE 4 sz nchunk_elem in_b out_b in
               (case bshuf_trans_byte_elem_NEON_32 (sz * nchunk_elem) out1 tmp_buf of (count, tmp1) \<Rightarrow>
                (count, snd (bshuf_trans_elem 4 nchunk_elem sz tmp1 out1))))"

section \<open>Transposing bits\<close>

definition bit_byte_NEON_stores :: "nat \<Rightarrow> byte list \<Rightarrow> store list" where
  "bit_byte_NEON_stores nbyte in_b =
     [(((7 - kk) * nbyte + ii) div 8, stored_mask ((vshlq_n_s16 ^^ kk) (segment ii 16 in_b))). ii \<leftarrow> for_step 0 16 nbyte, kk \<leftarrow> [0..<8]]"

definition bshuf_trans_bit_byte_NEON :: kernel where
  "bshuf_trans_bit_byte_NEON sz elem_size in_b out_b =
     (let nbyte = elem_size * sz in
      if nbyte mod 8 \<noteq> 0 then (- 80, out_b)
      else bshuf_trans_bit_byte_remainder sz elem_size (nbyte - nbyte mod 16) in_b (do_stores (bit_byte_NEON_stores nbyte in_b) out_b))"

definition bshuf_trans_bit_elem_NEON :: "(nat \<Rightarrow> byte list option) \<Rightarrow> kernel" where
  "bshuf_trans_bit_elem_NEON malloc sz elem_size in_b out_b =
     (if sz mod 8 \<noteq> 0 then (- 80, out_b)
      else case malloc (sz * elem_size) of None \<Rightarrow> (- 1, out_b)
      | Some tmp_buf \<Rightarrow>
          (case bshuf_trans_byte_elem_NEON malloc sz elem_size in_b out_b of (count, out1) \<Rightarrow>
           if count < 0 then (count, out1)
           else case bshuf_trans_bit_byte_NEON sz elem_size out1 tmp_buf of (count, tmp1) \<Rightarrow>
             if count < 0 then (count, out1) else bshuf_trans_bitrow_eight sz elem_size tmp1 out1))"

section \<open>The way back\<close>

definition net_bitrow_NEON :: "'a list list \<Rightarrow> 'a list list" where
  "net_bitrow_NEON rs = (case rs of [a0, b0, c0, d0, e0, f0, g0, h0] \<Rightarrow>
     let a1 = vzip1q 1 a0 b0; b1 = vzip1q 1 c0 d0; c1 = vzip1q 1 e0 f0; d1 = vzip1q 1 g0 h0;
         e1 = vzip2q 1 a0 b0; f1 = vzip2q 1 c0 d0; g1 = vzip2q 1 e0 f0; h1 = vzip2q 1 g0 h0;
         a0 = vzip1q 2 a1 b1; b0 = vzip1q 2 c1 d1; c0 = vzip2q 2 a1 b1; d0 = vzip2q 2 c1 d1;
         e0 = vzip1q 2 e1 f1; f0 = vzip1q 2 g1 h1; g0 = vzip2q 2 e1 f1; h0 = vzip2q 2 g1 h1;
         a1 = vzip1q 4 a0 b0; b1 = vzip2q 4 a0 b0; c1 = vzip1q 4 c0 d0; d1 = vzip2q 4 c0 d0;
         e1 = vzip1q 4 e0 f0; f1 = vzip2q 4 e0 f0; g1 = vzip1q 4 g0 h0; h1 = vzip2q 4 g0 h0
     in [a1, b1, c1, d1, e1, f1, g1, h1] | _ \<Rightarrow> [])"

definition bitrow_NEON_stores :: "nat \<Rightarrow> nat \<Rightarrow> byte list \<Rightarrow> store list" where
  "bitrow_NEON_stores nbyte_row nrows in_b = concat (map (\<lambda>ii.
     concat (map (\<lambda>jj.
       let rs = net_bitrow_NEON (map (\<lambda>r. segment ((ii + r) * nbyte_row + jj) 16 in_b) [0..<8])
       in concat (map (\<lambda>q. [((jj + 2 * q) * nrows + ii, segment 0 8 (rs ! q)), ((jj + (2 * q + 1)) * nrows + ii, segment 8 8 (rs ! q))]) [0..<8]))
       (for_step 0 16 nbyte_row)) @
     [(jj * nrows + ii + kk, [in_b ! ((ii + kk) * nbyte_row + jj)]). jj \<leftarrow> [nbyte_row - nbyte_row mod 16..<nbyte_row], kk \<leftarrow> [0..<8]])
     (for_step 0 8 nrows))"

definition bshuf_trans_byte_bitrow_NEON :: kernel where
  "bshuf_trans_byte_bitrow_NEON sz elem_size in_b out_b =
     (if sz mod 8 \<noteq> 0 then (- 80, out_b)
      else (int (sz * elem_size), do_stores (bitrow_NEON_stores (sz div 8) (8 * elem_size) in_b) out_b))"

definition eightelem_NEON_stores :: "nat \<Rightarrow> nat \<Rightarrow> byte list \<Rightarrow> store list" where
  "eightelem_NEON_stores nbyte elem_size in_b =
     [(2 * ((ii + jj div 8 + (7 - kk) * elem_size) div 2), stored_mask ((vshlq_n_s16 ^^ kk) (segment (ii + jj) 16 in_b))).
        ii \<leftarrow> for_step 0 (8 * elem_size) nbyte, jj \<leftarrow> for_step 0 16 (8 * elem_size), kk \<leftarrow> [0..<8]]"

definition bshuf_shuffle_bit_eightelem_NEON :: kernel where
  "bshuf_shuffle_bit_eightelem_NEON sz elem_size in_b out_b =
     (if sz mod 8 \<noteq> 0 then (- 80, out_b)
      else (int (sz * elem_size),
        if elem_size mod 2 \<noteq> 0 then snd (bshuf_shuffle_bit_eightelem_scal sz elem_size in_b out_b)
        else do_stores (eightelem_NEON_stores (elem_size * sz) elem_size in_b) out_b))"

definition bshuf_untrans_bit_elem_NEON :: "(nat \<Rightarrow> byte list option) \<Rightarrow> kernel" where
  "bshuf_untrans_bit_elem_NEON malloc sz elem_size in_b out_b =
     (if sz mod 8 \<noteq> 0 then (- 80, out_b)
      else case malloc (sz * elem_size) of None \<Rightarrow> (- 1, out_b)
      | Some tmp_buf \<Rightarrow>
          (case bshuf_trans_byte_bitrow_NEON sz elem_size in_b tmp_buf of (count, tmp1) \<Rightarrow>
           if count < 0 then (count, out_b) else bshuf_shuffle_bit_eightelem_NEON sz elem_size tmp1 out_b))"

section \<open>NEON computes what SSE2 computes\<close>

lemma neon_nets: "net_NEON_16 = net_SSE_16" "net_NEON_32 = net_SSE_32" "net_NEON_64 = net_SSE_64" "net_bitrow_NEON = net_bitrow_SSE"
  by (rule ext, simp only: net_NEON_16_def net_SSE_16_def net_NEON_32_def net_SSE_32_def net_NEON_64_def net_SSE_64_def
    net_bitrow_NEON_def net_bitrow_SSE_def)+

lemma byte_elem_NEON_eq: "bshuf_trans_byte_elem_NEON = bshuf_trans_byte_elem_SSE"
proof -
  have "byte_elem_NEON_stores = byte_elem_SSE_stores" by (intro ext) (simp only: byte_elem_NEON_stores_def byte_elem_SSE_stores_def)
  then have "bshuf_trans_byte_elem_NEON_16 = bshuf_trans_byte_elem_SSE_16" "bshuf_trans_byte_elem_NEON_32 = bshuf_trans_byte_elem_SSE_32"
    "bshuf_trans_byte_elem_NEON_64 = bshuf_trans_byte_elem_SSE_64"
    by (intro ext, simp only: bshuf_trans_byte_elem_NEON_16_def bshuf_trans_byte_elem_SSE_16_def bshuf_trans_byte_elem_NEON_32_def
      bshuf_trans_byte_elem_SSE_32_def bshuf_trans_byte_elem_NEON_64_def bshuf_trans_byte_elem_SSE_64_def neon_nets)+
  then show ?thesis by (intro ext) (simp only: bshuf_trans_byte_elem_NEON_def bshuf_trans_byte_elem_SSE_def)
qed

text \<open>The mask of the highest bits.\<close>

lemma bit_move_byte_mask: "bit (move_byte_mask_neon xs) n \<longleftrightarrow> n < 16 \<and> bit (xs ! n) 7"
proof -
  have h: "bit (0x80 :: byte) k \<longleftrightarrow> k = 7" for k
    using bit_push_bit_iff [of 7 "1 :: byte" k] by (auto simp: bit_1_iff push_bit_of_1 possible_bit_def)
  have b: "bit (push_bit i (drop_bit 7 (ucast (x AND 0x80))) :: u32) n \<longleftrightarrow> n = i \<and> bit x 7" if "i < 16" for i and x :: byte
    using that by (auto simp: bit_push_bit_iff bit_drop_bit_eq bit_ucast_iff bit_and_iff h)
  have "bit (foldl (OR) a (map f is)) n \<longleftrightarrow> bit a n \<or> (\<exists>i \<in> set is. bit (f i) n)" for a :: u32 and f :: "nat \<Rightarrow> u32" and "is"
    by (induction "is" arbitrary: a) (auto simp: bit_or_iff)
  then show ?thesis using b by (auto simp: move_byte_mask_neon_def)
qed

lemma u16_bytes_bits: "u16_bytes x = map (\<lambda>t. bits_byte (\<lambda>j. bit x (8 * t + j))) [0..<2]"
proof -
  have "(word_of_nat (unat x div 256 ^ t) :: byte) = bits_byte (\<lambda>j. bit x (8 * t + j))" for t
  proof (rule byte_eqI)
    fix j :: nat assume "j < 8"
    have "unat x div 256 ^ t = drop_bit (8 * t) (unat x)" by (simp add: drop_bit_eq_div power_mult)
    then show "bit (word_of_nat (unat x div 256 ^ t) :: byte) j \<longleftrightarrow> bit (bits_byte (\<lambda>j. bit x (8 * t + j))) j"
      using \<open>j < 8\<close> by (simp add: bit_simps)
  qed
  from this [of 0] this [of 1] show ?thesis by (simp add: u16_bytes_def numeral_2_eq_2)
qed

lemma stored_mask_eq:
  assumes "length xs = 16"
  shows "stored_mask xs = movemask_epi8 xs"
proof -
  have "bits_byte (\<lambda>j. bit (ucast (move_byte_mask_neon xs) :: u16) (8 * t + j)) = bits_byte (\<lambda>j. bit (xs ! (8 * t + j)) 7)" if "t < 2" for t
    by (rule byte_eqI) (use that in \<open>auto simp: bit_ucast_iff bit_move_byte_mask\<close>)
  then show ?thesis using assms by (simp add: stored_mask_def u16_bytes_bits movemask_epi8_def)
qed

lemma stored_mask_segment: "p + 16 \<le> length xs \<Longrightarrow> stored_mask ((slli_epi16 ^^ kk) (segment p 16 xs)) = movemask_epi8 ((slli_epi16 ^^ kk) (segment p 16 xs))"
  by (simp add: stored_mask_eq)

lemma bit_byte_NEON_computes:
  assumes "sz mod 8 = 0" and "length xs = sz * es" and "length out = sz * es"
  shows "computes (bshuf_trans_bit_byte_NEON sz es xs out) (sz * es) (trans_bit_byte_at (sz * es div 8) xs)"
proof -
  have "bit_byte_NEON_stores (es * sz) xs = bit_byte_SIMD_stores 16 (es * sz) xs"
    unfolding bit_byte_NEON_stores_def bit_byte_SIMD_stores_def using assms(2)
    by (intro arg_cong [where f = concat] map_cong refl) (auto simp: for_step_mem stored_mask_segment mult.commute)
  then have "bshuf_trans_bit_byte_NEON sz es xs out = bshuf_trans_bit_byte_SSE sz es xs out"
    by (simp add: bshuf_trans_bit_byte_NEON_def bshuf_trans_bit_byte_SSE_def Let_def)
  then show ?thesis using trans_bit_byte_SIMD_computes(1) [OF assms] by simp
qed

lemma set_concat_cong: "(\<And>x. set (f x) = set (g x)) \<Longrightarrow> set (concat (map f xs)) = set (concat (map g xs))"
  by simp

lemma bitrow_NEON_computes:
  assumes "sz mod 8 = 0" and "length ys = sz * es" and "length out = sz * es"
  shows "computes (bshuf_trans_byte_bitrow_NEON sz es ys out) (sz * es) (byte_bitrow_at (sz div 8) es ys)"
proof -
  have m: "sz * es = sz div 8 * (8 * es)" using assms(1) by auto
  have "set (concat (map (\<lambda>q. [f q, g q]) qs)) = set (map f qs @ map g qs)" for f g :: "nat \<Rightarrow> store" and qs by auto
  then have "set (bitrow_NEON_stores (sz div 8) (8 * es) ys) = set (bitrow_SSE_stores (sz div 8) (8 * es) ys)"
    unfolding bitrow_NEON_stores_def bitrow_SSE_stores_def neon_nets Let_def set_append
    by (intro set_concat_cong) (simp only: set_append, intro arg_cong2 [where f = "(\<union>)"] set_concat_cong refl, simp only: set_append)
  then show ?thesis using bitrow_SSE_fill [of ys "sz div 8" es out] assms m
    by (simp only: computes_def bshuf_trans_byte_bitrow_NEON_def simp_thms if_False)
qed

lemma eightelem_NEON_computes:
  assumes "sz mod 8 = 0" and "length ys = sz * es" and "length out = sz * es"
  shows "computes (bshuf_shuffle_bit_eightelem_NEON sz es ys out) (sz * es) (eightelem_at es ys)"
proof (cases "es = 0")
  case True
  then show ?thesis using assms by (auto simp: bshuf_shuffle_bit_eightelem_NEON_def computes_def do_stores_def eightelem_NEON_stores_def for_step.simps [of 0 0 0])
next
  case False
  have "eightelem_NEON_stores (es * sz) es ys = eightelem_SSE_stores (es * sz) es ys"
    unfolding eightelem_NEON_stores_def eightelem_SSE_stores_def using assms(2) False
    by (intro arg_cong [where f = concat] map_cong refl) (auto simp: for_step_mem stored_mask_segment mult.commute)
  then have "bshuf_shuffle_bit_eightelem_NEON sz es ys out = bshuf_shuffle_bit_eightelem_SSE sz es ys out"
    by (simp add: bshuf_shuffle_bit_eightelem_NEON_def bshuf_shuffle_bit_eightelem_SSE_def)
  then show ?thesis using eightelem_SSE_computes [OF assms] by simp
qed

interpretation neon: bshuf_passes bshuf_trans_byte_elem_NEON bshuf_trans_bit_byte_NEON bshuf_trans_byte_bitrow_NEON
  bshuf_shuffle_bit_eightelem_NEON
  by unfold_locales (simp only: byte_elem_NEON_eq trans_byte_elem_SSE_computes,
    (intro bit_byte_NEON_computes bitrow_NEON_computes eightelem_NEON_computes; assumption)+)

section \<open>The instruction sets\<close>

text \<open>What the macros \<open>USEAVX2\<close>, \<open>USESSE2\<close> and \<open>USEARMNEON\<close> select.\<close>

datatype instruction_set = Scalar | NEON | SSE2 | AVX2

definition bshuf_using_NEON :: "instruction_set \<Rightarrow> int" where "bshuf_using_NEON isa = (if isa = NEON then 1 else 0)"
definition bshuf_using_SSE2 :: "instruction_set \<Rightarrow> int" where "bshuf_using_SSE2 isa = (if isa = SSE2 \<or> isa = AVX2 then 1 else 0)"
definition bshuf_using_AVX2 :: "instruction_set \<Rightarrow> int" where "bshuf_using_AVX2 isa = (if isa = AVX2 then 1 else 0)"

definition bshuf_trans_bit_elem :: "instruction_set \<Rightarrow> (nat \<Rightarrow> byte list option) \<Rightarrow> kernel" where
  "bshuf_trans_bit_elem isa malloc sz elem_size in_b out_b =
     (case isa of AVX2 \<Rightarrow> bshuf_trans_bit_elem_AVX malloc sz elem_size in_b out_b
      | SSE2 \<Rightarrow> bshuf_trans_bit_elem_SSE malloc sz elem_size in_b out_b
      | NEON \<Rightarrow> bshuf_trans_bit_elem_NEON malloc sz elem_size in_b out_b
      | Scalar \<Rightarrow> bshuf_trans_bit_elem_scal malloc sz elem_size in_b out_b)"

definition bshuf_untrans_bit_elem :: "instruction_set \<Rightarrow> (nat \<Rightarrow> byte list option) \<Rightarrow> kernel" where
  "bshuf_untrans_bit_elem isa malloc sz elem_size in_b out_b =
     (case isa of AVX2 \<Rightarrow> bshuf_untrans_bit_elem_AVX malloc sz elem_size in_b out_b
      | SSE2 \<Rightarrow> bshuf_untrans_bit_elem_SSE malloc sz elem_size in_b out_b
      | NEON \<Rightarrow> bshuf_untrans_bit_elem_NEON malloc sz elem_size in_b out_b
      | Scalar \<Rightarrow> bshuf_untrans_bit_elem_scal malloc sz elem_size in_b out_b)"

lemma trans_bit_elem_correct:
  assumes "malloc_ok malloc" and "sz mod 8 = 0" and "length xs = sz * es" and "length out = sz * es"
  shows "bshuf_trans_bit_elem isa malloc sz es xs out = (int (sz * es), trans_bits sz es xs)"
    and "bshuf_untrans_bit_elem isa malloc sz es xs out = (int (sz * es), untrans_bits sz es xs)"
  unfolding bshuf_trans_bit_elem_def bshuf_untrans_bit_elem_def bshuf_trans_bit_elem_AVX_def bshuf_trans_bit_elem_SSE_def
    bshuf_trans_bit_elem_NEON_def bshuf_trans_bit_elem_scal_def bshuf_untrans_bit_elem_AVX_def bshuf_untrans_bit_elem_SSE_def
    bshuf_untrans_bit_elem_NEON_def bshuf_untrans_bit_elem_scal_def
    scal.trans_driver [OF assms] neon.trans_driver [OF assms] sse.trans_driver [OF assms] avx.trans_driver [OF assms]
    scal.untrans_driver [OF assms] neon.untrans_driver [OF assms] sse.untrans_driver [OF assms] avx.untrans_driver [OF assms]
  by (simp_all split: instruction_set.split)

text \<open>C10. All instruction sets compute the same: the bit \<open>k\<close> of the byte \<open>b\<close> of every element, in the order of the elements,
  makes up the row \<open>8 * b + k\<close> of the output, and the way back restores the elements.\<close>

theorem instruction_sets_equivalent:
  assumes "malloc_ok malloc" and "sz mod 8 = 0" and "length xs = sz * es" and "length out = sz * es" and "length out' = sz * es"
  shows "bshuf_trans_bit_elem isa malloc sz es xs out = (int (sz * es), trans_bits sz es xs) \<and>
    bshuf_untrans_bit_elem isa' malloc sz es (snd (bshuf_trans_bit_elem isa malloc sz es xs out)) out' = (int (sz * es), xs)"
  using trans_bit_elem_correct(1) [OF assms(1-4)] trans_bit_elem_correct(2) [OF assms(1,2), of "trans_bits sz es xs" es out'] assms(5)
    untrans_trans_bits [OF assms(2,3)] by (simp del: of_nat_mult)

theorem instruction_sets_equivalent_witness:
  "bshuf_trans_bit_elem AVX2 (\<lambda>n. Some (replicate n 0)) 8 2 (map word_of_nat [0..<16]) (replicate 16 0) =
    (16, trans_bits 8 2 (map word_of_nat [0..<16])) \<and>
   bshuf_untrans_bit_elem Scalar (\<lambda>n. Some (replicate n 0)) 8 2
    (snd (bshuf_trans_bit_elem AVX2 (\<lambda>n. Some (replicate n 0)) 8 2 (map word_of_nat [0..<16]) (replicate 16 0))) (replicate 16 0) =
    (16, map word_of_nat [0..<16])"
  using instruction_sets_equivalent [of "\<lambda>n. Some (replicate n 0)" 8 "map word_of_nat [0..<16]" 2 "replicate 16 0" "replicate 16 0" AVX2 Scalar]
  by (auto simp: malloc_ok_def)

end
