(* ===== verification/BshufLz4.thy ===== *)
theory BshufLz4
  imports BshufNEON
begin

text \<open>
  The block structure of \<open>external/bitshuffle\<close>: \<open>iochain.c\<close>, the blocked functions of
  \<open>bitshuffle_core.c\<close>, the LZ4 functions of \<open>bitshuffle.c\<close> and the HDF5 filter of \<open>bshuf_h5filter.c\<close>.

  The data are cut into blocks of \<open>block_size\<close> elements. Every block is bit-transposed, compressed with
  LZ4 and written behind a big-endian length; a rest of less than eight elements is copied. The
  blocks are processed in the order of the chain: OpenMP threads take over the iterations, but the
  chain hands out the places of input and output in order. LZ4 is third-party and an argument.
\<close>

section \<open>\<open>iochain.c\<close>\<close>

text \<open>A pointer is an offset; \<open>None\<close> is one that was never set.\<close>

record ioc_chain =
  ioc_next :: nat
  ioc_in_pl :: "nat \<Rightarrow> nat option"
  ioc_out_pl :: "nat \<Rightarrow> nat option"

definition IOC_SIZE :: nat where "IOC_SIZE = 33"

definition ioc_init :: "nat \<Rightarrow> nat \<Rightarrow> ioc_chain" where
  "ioc_init in_ptr_0 out_ptr_0 =
     \<lparr>ioc_next = 0, ioc_in_pl = (\<lambda>_. None)(0 := Some in_ptr_0), ioc_out_pl = (\<lambda>_. None)(0 := Some out_ptr_0)\<rparr>"

definition pointer :: "nat option \<Rightarrow> nat res" where
  "pointer p = (case p of None \<Rightarrow> Inl (Undefined ''uninitialised pointer'') | Some x \<Rightarrow> Inr x)"

definition ioc_get_in :: "ioc_chain \<Rightarrow> (nat \<times> nat \<times> ioc_chain) res" where
  "ioc_get_in C =
     (let this_iter = ioc_next C in
      bindE (pointer (ioc_in_pl C (this_iter mod IOC_SIZE))) (\<lambda>p. Inr (p, this_iter, C\<lparr>ioc_next := ioc_next C + 1\<rparr>)))"

definition ioc_set_next_in :: "nat \<Rightarrow> nat \<Rightarrow> ioc_chain \<Rightarrow> ioc_chain" where
  "ioc_set_next_in this_iter in_ptr C = C\<lparr>ioc_in_pl := (ioc_in_pl C)((this_iter + 1) mod IOC_SIZE := Some in_ptr)\<rparr>"

definition ioc_get_out :: "nat \<Rightarrow> ioc_chain \<Rightarrow> nat res" where
  "ioc_get_out this_iter C = pointer (ioc_out_pl C (this_iter mod IOC_SIZE))"

definition ioc_set_next_out :: "nat \<Rightarrow> nat \<Rightarrow> ioc_chain \<Rightarrow> ioc_chain" where
  "ioc_set_next_out this_iter out_ptr C = C\<lparr>ioc_out_pl := (ioc_out_pl C)((this_iter + 1) mod IOC_SIZE := Some out_ptr)\<rparr>"

section \<open>Numbers in big-endian order\<close>

definition bshuf_write_uint64_BE :: "u64 \<Rightarrow> byte list" where "bshuf_write_uint64_BE num = rev (le_bytes 8 (unat num))"
definition bshuf_read_uint64_BE :: "byte list \<Rightarrow> u64" where "bshuf_read_uint64_BE b = word_of_nat (le_value (rev (take 8 b)))"
definition bshuf_write_uint32_BE :: "u32 \<Rightarrow> byte list" where "bshuf_write_uint32_BE num = rev (le_bytes 4 (unat num))"
definition bshuf_read_uint32_BE :: "byte list \<Rightarrow> u32" where "bshuf_read_uint32_BE b = word_of_nat (le_value (rev (take 4 b)))"

section \<open>Blocks\<close>

definition BSHUF_BLOCKED_MULT :: nat where "BSHUF_BLOCKED_MULT = 8"
definition BSHUF_TARGET_BLOCK_SIZE_B :: nat where "BSHUF_TARGET_BLOCK_SIZE_B = 8192"
definition BSHUF_MIN_RECOMMEND_BLOCK :: nat where "BSHUF_MIN_RECOMMEND_BLOCK = 128"

definition bshuf_default_block_size :: "nat \<Rightarrow> nat" where
  "bshuf_default_block_size elem_size =
     (let block_size = BSHUF_TARGET_BLOCK_SIZE_B div elem_size
      in max (block_size div BSHUF_BLOCKED_MULT * BSHUF_BLOCKED_MULT) BSHUF_MIN_RECOMMEND_BLOCK)"

type_synonym block_fun = "nat \<Rightarrow> nat \<Rightarrow> ioc_chain \<times> byte list \<Rightarrow> (int \<times> ioc_chain \<times> byte list) res"

definition run_block ::
  "block_fun \<Rightarrow> nat \<Rightarrow> nat \<Rightarrow> (ioc_chain \<times> byte list) \<times> int \<times> int \<Rightarrow> ((ioc_chain \<times> byte list) \<times> int \<times> int) res" where
  "run_block fn elem_size block_size st =
     (case st of (cb, err, cum_count) \<Rightarrow>
      bindE (fn block_size elem_size cb) (\<lambda>(count, cb'). Inr (cb', if count < 0 then count else err, cum_count + count)))"

text \<open>\<open>bshuf_blocked_wrap_fun\<close>; a division by an element size of zero is undefined.\<close>

definition bshuf_blocked_wrap_fun ::
  "block_fun \<Rightarrow> byte list \<Rightarrow> byte list \<Rightarrow> nat \<Rightarrow> nat \<Rightarrow> nat \<Rightarrow> (int \<times> byte list) res" where
  "bshuf_blocked_wrap_fun fn in_b out_b sz elem_size block_size =
     (if block_size = 0 \<and> elem_size = 0 then Inl (Undefined ''division by zero'')
      else let block_size = (if block_size = 0 then bshuf_default_block_size elem_size else block_size) in
      if block_size mod BSHUF_BLOCKED_MULT \<noteq> 0 then Inr (- 81, out_b)
      else bindE (forE (run_block fn elem_size) (replicate (sz div block_size) block_size) ((ioc_init 0 0, out_b), 0, 0)) (\<lambda>st1.
           let last_block_size = sz mod block_size - sz mod block_size mod BSHUF_BLOCKED_MULT in
           bindE (if last_block_size \<noteq> 0 then run_block fn elem_size last_block_size st1 else Inr st1) (\<lambda>((C, out1), err, cum_count).
           if err < 0 then Inr (err, out1)
           else let leftover_bytes = sz mod BSHUF_BLOCKED_MULT * elem_size in
                bindE (ioc_get_in C) (\<lambda>(last_in, this_iter, C1).
                bindE (ioc_get_out this_iter (ioc_set_next_in this_iter (last_in + leftover_bytes) C1)) (\<lambda>last_out.
                if length in_b < last_in + leftover_bytes then Inl (Undefined ''read out of range'')
                else bindE (memcpy out1 last_out (segment last_in leftover_bytes in_b)) (\<lambda>out2.
                     Inr (cum_count + int leftover_bytes, out2)))))))"

section \<open>LZ4\<close>

text \<open>\<open>LZ4_compressBound\<close>, \<open>LZ4_compress_default\<close> (source, its size, the capacity of the destination; the
  bytes written, none when it fails) and \<open>LZ4_decompress_safe\<close> (source, its size, the capacity; the
  error code or the bytes written).\<close>

record lz4_api =
  lz_bound :: "int \<Rightarrow> int"
  lz_compress :: "byte list \<Rightarrow> int \<Rightarrow> int \<Rightarrow> byte list"
  lz_decompress :: "byte list \<Rightarrow> int \<Rightarrow> int \<Rightarrow> int + byte list"

record bshuf_env =
  be_isa :: instruction_set
  be_malloc :: "nat \<Rightarrow> byte list option"
  be_lz4 :: lz4_api

definition bshuf_compress_lz4_block :: "bshuf_env \<Rightarrow> byte list \<Rightarrow> block_fun" where
  "bshuf_compress_lz4_block env in_b sz elem_size cb =
     (case cb of (C, out_b) \<Rightarrow>
      case be_malloc env (sz * elem_size) of None \<Rightarrow> Inr (- 1, C, out_b)
      | Some tmp_buf_bshuf \<Rightarrow>
      let n = to_int32 (sz * elem_size); dst_capacity = lz_bound (be_lz4 env) n in
      (case be_malloc env (nat dst_capacity) of None \<Rightarrow> Inr (- 1, C, out_b)
       | Some tmp_buf_lz4 \<Rightarrow>
         bindE (ioc_get_in C) (\<lambda>(inp, this_iter, C1).
         let C2 = ioc_set_next_in this_iter (inp + sz * elem_size) C1 in
         if length in_b < inp + sz * elem_size then Inl (Undefined ''read out of range'')
         else (case bshuf_trans_bit_elem (be_isa env) (be_malloc env) sz elem_size
                      (segment inp (sz * elem_size) in_b) tmp_buf_bshuf of (count, shuffled) \<Rightarrow>
               if count < 0 then Inr (count, C2, out_b)
               else let c = lz_compress (be_lz4 env) shuffled n dst_capacity; nbytes = length c in
                    bindE (ioc_get_out this_iter C2) (\<lambda>outp.
                    bindE (memcpy out_b outp (bshuf_write_uint32_BE (word_of_nat nbytes))) (\<lambda>out1.
                    bindE (memcpy out1 (outp + 4) c) (\<lambda>out2.
                    Inr (int nbytes + 4, ioc_set_next_out this_iter (outp + nbytes + 4) C2, out2))))))))"

definition bshuf_decompress_lz4_block :: "bshuf_env \<Rightarrow> byte list \<Rightarrow> block_fun" where
  "bshuf_decompress_lz4_block env in_b sz elem_size cb =
     (case cb of (C, out_b) \<Rightarrow>
      bindE (ioc_get_in C) (\<lambda>(inp, this_iter, C1).
      if length in_b < inp + 4 then Inl (Undefined ''read out of range'')
      else let nbytes_from_header = sint (bshuf_read_uint32_BE (drop inp in_b)); next_in = int inp + nbytes_from_header + 4 in
        if next_in < 0 then Inl (Undefined ''pointer out of range'')
        else let C2 = ioc_set_next_in this_iter (nat next_in) C1 in
        bindE (ioc_get_out this_iter C2) (\<lambda>outp.
        let C3 = ioc_set_next_out this_iter (outp + sz * elem_size) C2 in
        (case be_malloc env (sz * elem_size) of None \<Rightarrow> Inr (- 1, C3, out_b)
         | Some tmp_buf \<Rightarrow>
           if int (length in_b) < next_in then Inl (Undefined ''read out of range'')
           else (case lz_decompress (be_lz4 env) (segment (inp + 4) (nat nbytes_from_header) in_b) nbytes_from_header
                       (to_int32 (sz * elem_size)) of
                   Inl e \<Rightarrow> Inr (e - 1000, C3, out_b)
                 | Inr d \<Rightarrow>
                     if length d \<noteq> sz * elem_size then Inr (- 91, C3, out_b)
                     else if length out_b < outp + sz * elem_size then Inl (Undefined ''write out of range'')
                     else (case bshuf_untrans_bit_elem (be_isa env) (be_malloc env) sz elem_size d
                                  (segment outp (sz * elem_size) out_b) of (count, plain) \<Rightarrow>
                           let out1 = overwrite outp plain out_b in
                           if count < 0 then Inr (count, C3, out1) else Inr (nbytes_from_header + 4, C3, out1)))))))"

text \<open>A block size that is not a multiple of eight gives \<open>- 81\<close> as a \<open>size_t\<close>.\<close>

definition bshuf_compress_lz4_bound :: "lz4_api \<Rightarrow> nat \<Rightarrow> nat \<Rightarrow> nat \<Rightarrow> int" where
  "bshuf_compress_lz4_bound z sz elem_size block_size =
     (let block_size = (if block_size = 0 then bshuf_default_block_size elem_size else block_size) in
      if block_size mod BSHUF_BLOCKED_MULT \<noteq> 0 then 2 ^ 64 - 81
      else let bound = (lz_bound z (to_int32 (block_size * elem_size)) + 4) * int (sz div block_size);
               leftover = sz mod block_size div BSHUF_BLOCKED_MULT * BSHUF_BLOCKED_MULT;
               bound = (if leftover \<noteq> 0 then bound + lz_bound z (to_int32 (leftover * elem_size)) + 4 else bound)
           in bound + int (sz mod BSHUF_BLOCKED_MULT * elem_size))"

definition bshuf_compress_lz4 :: "bshuf_env \<Rightarrow> byte list \<Rightarrow> byte list \<Rightarrow> nat \<Rightarrow> nat \<Rightarrow> nat \<Rightarrow> (int \<times> byte list) res" where
  "bshuf_compress_lz4 env in_b out_b sz elem_size block_size =
     bshuf_blocked_wrap_fun (bshuf_compress_lz4_block env in_b) in_b out_b sz elem_size block_size"

definition bshuf_decompress_lz4 :: "bshuf_env \<Rightarrow> byte list \<Rightarrow> byte list \<Rightarrow> nat \<Rightarrow> nat \<Rightarrow> nat \<Rightarrow> (int \<times> byte list) res" where
  "bshuf_decompress_lz4 env in_b out_b sz elem_size block_size =
     bshuf_blocked_wrap_fun (bshuf_decompress_lz4_block env in_b) in_b out_b sz elem_size block_size"


text \<open>The functions without compression.\<close>

definition bshuf_bitshuffle_block :: "bshuf_env \<Rightarrow> (instruction_set \<Rightarrow> (nat \<Rightarrow> byte list option) \<Rightarrow> kernel) \<Rightarrow> byte list \<Rightarrow> block_fun" where
  "bshuf_bitshuffle_block env tr in_b sz elem_size cb =
     (case cb of (C, out_b) \<Rightarrow>
      bindE (ioc_get_in C) (\<lambda>(inp, this_iter, C1).
      let C2 = ioc_set_next_in this_iter (inp + sz * elem_size) C1 in
      bindE (ioc_get_out this_iter C2) (\<lambda>outp.
      let C3 = ioc_set_next_out this_iter (outp + sz * elem_size) C2 in
      if length in_b < inp + sz * elem_size \<or> length out_b < outp + sz * elem_size then Inl (Undefined ''access out of range'')
      else (case tr (be_isa env) (be_malloc env) sz elem_size (segment inp (sz * elem_size) in_b)
                   (segment outp (sz * elem_size) out_b) of (count, block) \<Rightarrow>
            Inr (count, C3, overwrite outp block out_b)))))"

definition bshuf_bitshuffle :: "bshuf_env \<Rightarrow> byte list \<Rightarrow> byte list \<Rightarrow> nat \<Rightarrow> nat \<Rightarrow> nat \<Rightarrow> (int \<times> byte list) res" where
  "bshuf_bitshuffle env in_b out_b sz elem_size block_size =
     bshuf_blocked_wrap_fun (bshuf_bitshuffle_block env bshuf_trans_bit_elem in_b) in_b out_b sz elem_size block_size"

definition bshuf_bitunshuffle :: "bshuf_env \<Rightarrow> byte list \<Rightarrow> byte list \<Rightarrow> nat \<Rightarrow> nat \<Rightarrow> nat \<Rightarrow> (int \<times> byte list) res" where
  "bshuf_bitunshuffle env in_b out_b sz elem_size block_size =
     bshuf_blocked_wrap_fun (bshuf_bitshuffle_block env bshuf_untrans_bit_elem in_b) in_b out_b sz elem_size block_size"

section \<open>What the code relies on\<close>

text \<open>The documented behaviour of LZ4 for sources of up to \<open>LZ4_MAX_INPUT_SIZE\<close> bytes: compression into a
  destination of at least the bound succeeds, and decompression gives the source back.\<close>

definition LZ4_MAX_INPUT_SIZE :: int where "LZ4_MAX_INPUT_SIZE = 0x7E000000"

definition lz4_laws :: "lz4_api \<Rightarrow> bool" where
  "lz4_laws z \<longleftrightarrow>
     (\<forall>n. 0 \<le> n \<and> n \<le> LZ4_MAX_INPUT_SIZE \<longrightarrow> lz_bound z n = n + n div 255 + 16) \<and>
     (\<forall>s. s \<noteq> [] \<and> int (length s) \<le> LZ4_MAX_INPUT_SIZE \<longrightarrow>
        (let n = int (length s); c = lz_compress z s n (lz_bound z n)
         in c \<noteq> [] \<and> int (length c) \<le> lz_bound z n \<and> lz_decompress z c (int (length c)) n = Inr s))"

definition env_ok :: "bshuf_env \<Rightarrow> bool" where
  "env_ok env \<longleftrightarrow> malloc_ok (be_malloc env) \<and> lz4_laws (be_lz4 env)"

section \<open>The chain\<close>

definition chain_at :: "ioc_chain \<Rightarrow> nat \<Rightarrow> nat \<Rightarrow> bool" where
  "chain_at C inp outp \<longleftrightarrow> ioc_in_pl C (ioc_next C mod IOC_SIZE) = Some inp \<and> ioc_out_pl C (ioc_next C mod IOC_SIZE) = Some outp"

lemma next_slot: "Suc k mod IOC_SIZE \<noteq> k mod IOC_SIZE"
  by (simp add: IOC_SIZE_def mod_Suc)

lemma chain_at_init: "chain_at (ioc_init 0 0) 0 0"
  by (simp add: chain_at_def ioc_init_def)

text \<open>An iteration that keeps to the protocol of the chain moves it to the next places.\<close>

lemma chain_iteration:
  assumes "chain_at C inp outp"
  shows "\<exists>k C1. ioc_get_in C = Inr (inp, k, C1) \<and> ioc_get_out k (ioc_set_next_in k a C1) = Inr outp \<and>
    chain_at (ioc_set_next_out k b (ioc_set_next_in k a C1)) a b"
  using assms next_slot [of "ioc_next C"]
  by (intro exI [of _ "ioc_next C"] exI [of _ "C\<lparr>ioc_next := ioc_next C + 1\<rparr>"])
    (simp add: chain_at_def ioc_get_in_def ioc_get_out_def ioc_set_next_in_def ioc_set_next_out_def pointer_def Let_def)

lemma overwrite_overwrite:
  assumes "p + length a + length b \<le> length dst"
  shows "overwrite (p + length a) b (overwrite p a dst) = overwrite p (a @ b) dst"
  using assms by (simp add: overwrite_def ac_simps)

lemma memcpy_memcpy:
  assumes "p + length (a @ b) \<le> length dst"
  shows "bindE (memcpy dst p a) (\<lambda>d. bindE (memcpy d (p + length a) b) f) = f (overwrite p (a @ b) dst)"
  using assms overwrite_overwrite [of p a b dst] by simp

lemma be32 [simp]:
  "length (bshuf_write_uint32_BE x) = 4" "bshuf_read_uint32_BE (bshuf_write_uint32_BE x @ rest) = x"
proof -
  have "unat x < 256 ^ 4" using unsigned_less [of x] by simp
  then show "length (bshuf_write_uint32_BE x) = 4" "bshuf_read_uint32_BE (bshuf_write_uint32_BE x @ rest) = x"
    by (simp_all add: bshuf_write_uint32_BE_def bshuf_read_uint32_BE_def le_value_le_bytes)
qed

lemma be64 [simp]:
  "length (bshuf_write_uint64_BE x) = 8" "bshuf_read_uint64_BE (bshuf_write_uint64_BE x @ rest) = x"
proof -
  have "unat x < 256 ^ 8" using u64_less [of x] by simp
  then show "length (bshuf_write_uint64_BE x) = 8" "bshuf_read_uint64_BE (bshuf_write_uint64_BE x @ rest) = x"
    by (simp_all add: bshuf_write_uint64_BE_def bshuf_read_uint64_BE_def le_value_le_bytes)
qed

section \<open>A block\<close>

definition lz_block :: "bshuf_env \<Rightarrow> nat \<Rightarrow> nat \<Rightarrow> byte list \<Rightarrow> byte list" where
  "lz_block env sz elem_size xs =
     lz_compress (be_lz4 env) (trans_bits sz elem_size xs) (int (sz * elem_size)) (lz_bound (be_lz4 env) (int (sz * elem_size)))"

definition frame :: "bshuf_env \<Rightarrow> nat \<Rightarrow> nat \<Rightarrow> byte list \<Rightarrow> byte list" where
  "frame env sz elem_size xs =
     bshuf_write_uint32_BE (word_of_nat (length (lz_block env sz elem_size xs))) @ lz_block env sz elem_size xs"

definition block_ok :: "nat \<Rightarrow> nat \<Rightarrow> bool" where
  "block_ok sz elem_size \<longleftrightarrow> sz mod 8 = 0 \<and> 0 < sz * elem_size \<and> int (sz * elem_size) \<le> LZ4_MAX_INPUT_SIZE"

lemma lz_block_laws:
  assumes "env_ok env" and "block_ok sz es" and "length xs = sz * es"
  shows "int (length (lz_block env sz es xs)) \<le> int (sz * es) + int (sz * es) div 255 + 16"
    and "int (length (lz_block env sz es xs)) < 2 ^ 31"
    and "lz_decompress (be_lz4 env) (lz_block env sz es xs) (int (length (lz_block env sz es xs))) (int (sz * es)) =
      Inr (trans_bits sz es xs)"
proof -
  let ?s = "trans_bits sz es xs" and ?z = "be_lz4 env" and ?n = "int (sz * es)"
  have s: "?s \<noteq> []" "int (length ?s) = ?n" "?n \<le> LZ4_MAX_INPUT_SIZE" "0 \<le> ?n"
    using assms(2) length_trans_bits(1) [of sz es xs] by (auto simp: block_ok_def simp del: length_trans_bits of_nat_mult)
  have laws: "lz4_laws ?z" using assms(1) by (simp add: env_ok_def)
  have b: "lz_bound ?z ?n = ?n + ?n div 255 + 16" using laws s(3,4) unfolding lz4_laws_def by blast
  have "let c = lz_compress ?z ?s ?n (lz_bound ?z ?n) in c \<noteq> [] \<and> int (length c) \<le> lz_bound ?z ?n \<and>
      lz_decompress ?z c (int (length c)) ?n = Inr ?s"
    using laws s(1-3) unfolding lz4_laws_def Let_def by (metis)
  then have c: "int (length (lz_block env sz es xs)) \<le> lz_bound ?z ?n"
    "lz_decompress ?z (lz_block env sz es xs) (int (length (lz_block env sz es xs))) ?n = Inr ?s"
    by (simp_all add: lz_block_def Let_def)
  show "int (length (lz_block env sz es xs)) \<le> ?n + ?n div 255 + 16" using c(1) b by simp
  moreover have "?n div 255 \<le> LZ4_MAX_INPUT_SIZE div 255" using s(3) by (rule zdiv_mono1) simp
  ultimately show "int (length (lz_block env sz es xs)) < 2 ^ 31" using s(3) by (simp add: LZ4_MAX_INPUT_SIZE_def)
  show "lz_decompress ?z (lz_block env sz es xs) (int (length (lz_block env sz es xs))) ?n = Inr ?s" by (rule c(2))
qed

lemma compress_block:
  assumes "env_ok env" and "block_ok sz es" and "chain_at C inp outp" and "inp + sz * es \<le> length xs"
    and "fr = frame env sz es (segment inp (sz * es) xs)" and "outp + length fr \<le> length out"
  shows "\<exists>C'. bshuf_compress_lz4_block env xs sz es (C, out) = Inr (int (length fr), C', overwrite outp fr out) \<and>
    chain_at C' (inp + sz * es) (outp + length fr)"
proof -
  let ?c = "lz_block env sz es (segment inp (sz * es) xs)"
  obtain t1 t2 where t: "be_malloc env (sz * es) = Some t1" "length t1 = sz * es"
    "be_malloc env (nat (lz_bound (be_lz4 env) (int (sz * es)))) = Some t2"
    using assms(1) unfolding env_ok_def malloc_ok_def by metis
  have n: "to_int32 (sz * es) = int (sz * es)" "sz mod 8 = 0"
    using assms(2) to_int32_small [of "sz * es"] by (auto simp: block_ok_def LZ4_MAX_INPUT_SIZE_def)
  obtain k C1 where k: "ioc_get_in C = Inr (inp, k, C1)" "ioc_get_out k (ioc_set_next_in k (inp + sz * es) C1) = Inr outp"
    "chain_at (ioc_set_next_out k (outp + length fr) (ioc_set_next_in k (inp + sz * es) C1)) (inp + sz * es) (outp + length fr)"
    using chain_iteration [OF assms(3)] by metis
  have tr: "bshuf_trans_bit_elem (be_isa env) (be_malloc env) sz es (segment inp (sz * es) xs) t1 =
      (int (sz * es), trans_bits sz es (segment inp (sz * es) xs))"
    using trans_bit_elem_correct(1) assms(1,4) n(2) t(2) by (simp add: env_ok_def del: of_nat_mult)
  have len: "length fr = length ?c + 4" by (simp add: assms(5) frame_def)
  have "bshuf_compress_lz4_block env xs sz es (C, out) =
    bindE (memcpy out outp (bshuf_write_uint32_BE (word_of_nat (length ?c)))) (\<lambda>out1.
    bindE (memcpy out1 (outp + length (bshuf_write_uint32_BE (word_of_nat (length ?c)))) ?c) (\<lambda>out2.
      Inr (int (length ?c) + 4, ioc_set_next_out k (outp + length ?c + 4) (ioc_set_next_in k (inp + sz * es) C1), out2)))"
    using t k(1,2) tr assms(4) by (simp add: bshuf_compress_lz4_block_def n(1) Let_def lz_block_def [symmetric] del: of_nat_mult)
  also have "\<dots> = Inr (int (length ?c) + 4, ioc_set_next_out k (outp + length ?c + 4) (ioc_set_next_in k (inp + sz * es) C1),
      overwrite outp fr out)"
    using assms(6) by (subst memcpy_memcpy) (simp_all add: assms(5) frame_def)
  finally show ?thesis using k(3) by (simp add: len add.assoc)
qed

lemma decompress_block:
  assumes "env_ok env" and "block_ok sz es" and "chain_at C inp outp" and "length xs = sz * es"
    and "drop inp ys = frame env sz es xs @ rest" and "inp \<le> length ys" and "outp + sz * es \<le> length out"
  shows "\<exists>C'. bshuf_decompress_lz4_block env ys sz es (C, out) = Inr (int (length (frame env sz es xs)), C', overwrite outp xs out) \<and>
    chain_at C' (inp + length (frame env sz es xs)) (outp + sz * es)"
proof -
  let ?c = "lz_block env sz es xs" and ?fr = "frame env sz es xs"
  have len: "length ?fr = length ?c + 4" by (simp add: frame_def)
  have ys: "inp + length ?fr \<le> length ys"
    using arg_cong [OF assms(5), of length] assms(6) by simp
  have hdr: "sint (bshuf_read_uint32_BE (drop inp ys)) = int (length ?c)"
    using lz_block_laws(2) [OF assms(1,2,4)] by (simp add: assms(5) frame_def signed_of_nat signed_take_bit_int_eq_self)
  have seg: "segment (inp + 4) (length ?c) ys = ?c"
    by (simp add: segment_def drop_drop [symmetric] add.commute [of inp] assms(5) frame_def del: drop_drop)
  obtain t where t: "be_malloc env (sz * es) = Some t" using assms(1) unfolding env_ok_def malloc_ok_def by metis
  have n: "to_int32 (sz * es) = int (sz * es)" "sz mod 8 = 0"
    using assms(2) to_int32_small [of "sz * es"] by (auto simp: block_ok_def LZ4_MAX_INPUT_SIZE_def)
  obtain k C1 where k: "ioc_get_in C = Inr (inp, k, C1)" "ioc_get_out k (ioc_set_next_in k (inp + length ?fr) C1) = Inr outp"
    "chain_at (ioc_set_next_out k (outp + sz * es) (ioc_set_next_in k (inp + length ?fr) C1)) (inp + length ?fr) (outp + sz * es)"
    using chain_iteration [OF assms(3)] by metis
  have un: "bshuf_untrans_bit_elem (be_isa env) (be_malloc env) sz es (trans_bits sz es xs) (segment outp (sz * es) out) = (int (sz * es), xs)"
    using trans_bit_elem_correct(2) assms(1,4,7) n(2) untrans_trans_bits by (simp add: env_ok_def del: of_nat_mult)
  have nx: "nat (int inp + int (length ?c) + 4) = inp + length ?fr" "int inp + int (length ?c) + 4 = int (inp + length ?fr)"
    "\<not> int (length ys) < int inp + int (length ?c) + 4" "\<not> int inp + int (length ?c) + 4 < 0" using ys len by simp_all
  have "bshuf_decompress_lz4_block env ys sz es (C, out) =
      Inr (int (length ?c) + 4, ioc_set_next_out k (outp + sz * es) (ioc_set_next_in k (inp + length ?fr) C1), overwrite outp xs out)"
    using k(1,2) ys assms(7) t lz_block_laws(3) [OF assms(1,2,4)] un
    by (simp add: bshuf_decompress_lz4_block_def hdr Let_def nx n(1) seg len del: of_nat_mult of_nat_add)
  then show ?thesis using k(3) len by simp
qed

section \<open>All blocks\<close>

fun frames :: "bshuf_env \<Rightarrow> nat \<Rightarrow> nat list \<Rightarrow> byte list \<Rightarrow> byte list" where
  "frames env es [] xs = []"
| "frames env es (n # ns) xs = frame env n es (take (n * es) xs) @ frames env es ns (drop (n * es) xs)"

lemma overwrite_Nil [simp]: "p \<le> length dst \<Longrightarrow> overwrite p [] dst = dst"
  by (simp add: overwrite_def)

lemma run_block_ok: "fn n es cb = Inr (c, cb') \<Longrightarrow> 0 \<le> c \<Longrightarrow> run_block fn es n (cb, 0, cum) = Inr (cb', 0, cum + c)"
  by (simp add: run_block_def)

lemma compress_blocks:
  assumes "env_ok env" and "\<forall>n \<in> set ns. block_ok n es" and "chain_at C inp outp" and "inp + sum_list ns * es \<le> length xs"
    and "outp + length (frames env es ns (drop inp xs)) \<le> length out"
  shows "\<exists>C'. forE (run_block (bshuf_compress_lz4_block env xs) es) ns ((C, out), 0, cum) =
      Inr ((C', overwrite outp (frames env es ns (drop inp xs)) out), 0, cum + int (length (frames env es ns (drop inp xs)))) \<and>
    chain_at C' (inp + sum_list ns * es) (outp + length (frames env es ns (drop inp xs)))"
  using assms
proof (induction ns arbitrary: C inp outp out cum)
  case (Cons n ns)
  let ?fr = "frame env n es (segment inp (n * es) xs)"
  have fr: "frames env es (n # ns) (drop inp xs) = ?fr @ frames env es ns (drop (inp + n * es) xs)"
    by (simp add: segment_def add.commute)
  have bounds: "inp + n * es \<le> length xs" "outp + length ?fr \<le> length out" "inp + n * es + sum_list ns * es \<le> length xs"
    "outp + length ?fr + length (frames env es ns (drop (inp + n * es) xs)) \<le> length (overwrite outp ?fr out)"
    using Cons.prems(4,5) unfolding fr by (simp_all add: distrib_right)
  obtain C1 where C1: "bshuf_compress_lz4_block env xs n es (C, out) = Inr (int (length ?fr), C1, overwrite outp ?fr out)"
    "chain_at C1 (inp + n * es) (outp + length ?fr)"
    using compress_block [OF Cons.prems(1) _ Cons.prems(3) bounds(1) refl bounds(2)] Cons.prems(2) by auto
  have "\<forall>n \<in> set ns. block_ok n es" using Cons.prems(2) by simp
  from Cons.IH [OF Cons.prems(1) this C1(2) bounds(3,4), of "cum + int (length ?fr)"]
  obtain C2 where C2: "forE (run_block (bshuf_compress_lz4_block env xs) es) ns ((C1, overwrite outp ?fr out), 0, cum + int (length ?fr)) =
      Inr ((C2, overwrite (outp + length ?fr) (frames env es ns (drop (inp + n * es) xs)) (overwrite outp ?fr out)), 0,
        cum + int (length ?fr) + int (length (frames env es ns (drop (inp + n * es) xs))))"
    "chain_at C2 (inp + n * es + sum_list ns * es) (outp + length ?fr + length (frames env es ns (drop (inp + n * es) xs)))" by blast
  then show ?case
    using run_block_ok [where fn = "bshuf_compress_lz4_block env xs" and n = n, OF C1(1)] overwrite_overwrite [of outp ?fr "frames env es ns (drop (inp + n * es) xs)" out] bounds(2,4)
    unfolding fr by (intro exI [of _ C2]) (simp add: distrib_right add.assoc)
qed simp

lemma decompress_blocks:
  assumes "env_ok env" and "\<forall>n \<in> set ns. block_ok n es" and "chain_at C inp outp" and "sum_list ns * es \<le> length xs"
    and "drop inp ys = frames env es ns xs @ rest" and "inp \<le> length ys" and "outp + sum_list ns * es \<le> length out"
  shows "\<exists>C'. forE (run_block (bshuf_decompress_lz4_block env ys) es) ns ((C, out), 0, cum) =
      Inr ((C', overwrite outp (take (sum_list ns * es) xs) out), 0, cum + int (length (frames env es ns xs))) \<and>
    chain_at C' (inp + length (frames env es ns xs)) (outp + sum_list ns * es)"
  using assms
proof (induction ns arbitrary: C inp outp out cum xs)
  case (Cons n ns)
  let ?x = "take (n * es) xs" and ?fr = "frame env n es (take (n * es) xs)" and ?fs = "frames env es ns (drop (n * es) xs)"
  have len: "length ?x = n * es" "sum_list ns * es \<le> length (drop (n * es) xs)" "outp + n * es \<le> length out"
    using Cons.prems(4,7) by (simp_all add: distrib_right)
  have "drop inp ys = ?fr @ ?fs @ rest" using Cons.prems(5) by simp
  then obtain C1 where C1: "bshuf_decompress_lz4_block env ys n es (C, out) = Inr (int (length ?fr), C1, overwrite outp ?x out)"
    "chain_at C1 (inp + length ?fr) (outp + n * es)"
    using decompress_block [OF Cons.prems(1) _ Cons.prems(3) len(1) _ Cons.prems(6) len(3)] Cons.prems(2) by auto
  have rest: "drop (inp + length ?fr) ys = ?fs @ rest" "inp + length ?fr \<le> length ys"
  proof -
    show "drop (inp + length ?fr) ys = ?fs @ rest"
      using Cons.prems(5) by (simp add: drop_drop [symmetric] add.commute [of inp] del: drop_drop)
    have "length ys - inp = length ?fr + length ?fs + length rest" using arg_cong [OF Cons.prems(5), of length] by simp
    then show "inp + length ?fr \<le> length ys" using Cons.prems(6) by linarith
  qed
  have out: "outp + n * es + sum_list ns * es \<le> length (overwrite outp ?x out)" "\<forall>n \<in> set ns. block_ok n es"
    using Cons.prems(2,7) len(1,3) by (simp_all add: distrib_right)
  from Cons.IH [OF Cons.prems(1) out(2) C1(2) len(2) rest out(1), of "cum + int (length ?fr)"]
  obtain C2 where C2: "forE (run_block (bshuf_decompress_lz4_block env ys) es) ns ((C1, overwrite outp ?x out), 0, cum + int (length ?fr)) =
      Inr ((C2, overwrite (outp + n * es) (take (sum_list ns * es) (drop (n * es) xs)) (overwrite outp ?x out)), 0,
        cum + int (length ?fr) + int (length ?fs))"
    "chain_at C2 (inp + length ?fr + length ?fs) (outp + n * es + sum_list ns * es)" by blast
  moreover have "overwrite (outp + n * es) (take (sum_list ns * es) (drop (n * es) xs)) (overwrite outp ?x out) =
      overwrite outp (take (sum_list (n # ns) * es) xs) out"
    using overwrite_overwrite [of outp ?x "take (sum_list ns * es) (drop (n * es) xs)" out] len out(1)
    by (simp add: take_add distrib_right)
  ultimately show ?case using run_block_ok [where fn = "bshuf_decompress_lz4_block env ys" and n = n, OF C1(1)] by (intro exI [of _ C2]) (simp add: distrib_right add.assoc)
qed simp

text \<open>The sizes of the blocks, with the default for a block size of zero.\<close>

definition block_elems :: "nat \<Rightarrow> nat \<Rightarrow> nat" where
  "block_elems es block_size = (if block_size = 0 then bshuf_default_block_size es else block_size)"

definition blocks :: "nat \<Rightarrow> nat \<Rightarrow> nat list" where
  "blocks sz n = replicate (sz div n) n @ (if sz mod n - sz mod n mod 8 \<noteq> 0 then [sz mod n - sz mod n mod 8] else [])"

lemma default_block_size: "bshuf_default_block_size es mod 8 = 0" "128 \<le> bshuf_default_block_size es"
  by (simp_all add: bshuf_default_block_size_def BSHUF_BLOCKED_MULT_def BSHUF_MIN_RECOMMEND_BLOCK_def Let_def max_def)

lemma sum_blocks:
  assumes "n mod 8 = 0" and "0 < n"
  shows "sum_list (blocks sz n) + sz mod 8 = sz"
proof -
  have "sz mod n mod 8 = sz mod 8" using assms(1) by (simp add: mod_mod_cancel mod_0_imp_dvd)
  moreover have "sz mod 8 \<le> sz mod n" using calculation mod_less_eq_dividend [of "sz mod n" 8] by simp
  moreover have "sum_list (blocks sz n) = sz div n * n + (sz mod n - sz mod n mod 8)" by (auto simp: blocks_def sum_list_replicate minus_mod_eq_div_mult)
  moreover have "sz div n * n + sz mod n = sz" by simp
  ultimately show ?thesis by linarith
qed

lemma blocks_ok:
  assumes "n mod 8 = 0" and "0 < n" and "0 < es" and "int (n * es) \<le> LZ4_MAX_INPUT_SIZE"
  shows "\<forall>m \<in> set (blocks sz n). block_ok m es"
proof
  fix m assume m: "m \<in> set (blocks sz n)"
  have mod8: "(k - k mod 8) mod 8 = 0" for k :: nat by (simp add: minus_mod_eq_mult_div)
  have "m mod 8 = 0 \<and> 0 < m \<and> m \<le> n"
    using m assms(1,2) mod8 [of "sz mod n"] mod_less_divisor [OF assms(2), of sz] by (auto simp: blocks_def split: if_splits)
  moreover have "int (m * es) \<le> LZ4_MAX_INPUT_SIZE" if "m \<le> n"
  proof -
    have "int (m * es) \<le> int (n * es)" unfolding of_nat_le_iff using that by (rule mult_le_mono1)
    then show ?thesis using assms(4) by (rule order_trans)
  qed
  ultimately show "block_ok m es" using assms(3) by (auto simp: block_ok_def simp del: of_nat_mult)
qed

lemma blocked_wrap:
  assumes "n = block_elems es block_size" and "n mod 8 = 0" and "0 < es"
    and "forE (run_block fn es) (blocks sz n) ((ioc_init 0 0, out), 0, 0) = Inr ((C, out1), 0, cum)"
    and "chain_at C inp outp" and "inp + sz mod 8 * es \<le> length xs" and "outp + sz mod 8 * es \<le> length out1"
  shows "bshuf_blocked_wrap_fun fn xs out sz es block_size =
    Inr (cum + int (sz mod 8 * es), overwrite outp (segment inp (sz mod 8 * es) xs) out1)"
proof -
  let ?l = "sz mod n - sz mod n mod 8"
  obtain st where st: "forE (run_block fn es) (replicate (sz div n) n) ((ioc_init 0 0, out), 0, 0) = Inr st"
    "(if ?l \<noteq> 0 then run_block fn es ?l st else Inr st) = Inr ((C, out1), 0, cum)"
    using assms(4) by (auto simp: blocks_def forE_append bindE_eq_Inr split: if_splits)
  obtain k C1 where k: "ioc_get_in C = Inr (inp, k, C1)"
    "ioc_get_out k (ioc_set_next_in k (inp + sz mod 8 * es) C1) = Inr outp"
    using chain_iteration [OF assms(5)] by metis
  have n: "(if block_size = 0 then bshuf_default_block_size es else block_size) = n" by (simp add: assms(1) block_elems_def)
  show ?thesis
    using assms(2,3,6,7) k unfolding bshuf_blocked_wrap_fun_def Let_def n BSHUF_BLOCKED_MULT_def st(1) bindE_simps st(2)
    by simp
qed

section \<open>Compression and decompression\<close>

definition compressed :: "bshuf_env \<Rightarrow> nat \<Rightarrow> nat \<Rightarrow> nat \<Rightarrow> byte list \<Rightarrow> byte list" where
  "compressed env sz es block_size xs =
     frames env es (blocks sz (block_elems es block_size)) xs @ drop (length xs - sz mod 8 * es) xs"

definition sizes_ok :: "nat \<Rightarrow> nat \<Rightarrow> bool" where
  "sizes_ok es block_size \<longleftrightarrow> 0 < es \<and> block_size mod 8 = 0 \<and> int (block_elems es block_size * es) \<le> LZ4_MAX_INPUT_SIZE"

lemma sizes_ok_elems:
  assumes "sizes_ok es block_size"
  shows "block_elems es block_size mod 8 = 0" "0 < block_elems es block_size" "0 < es"
    "int (block_elems es block_size * es) \<le> LZ4_MAX_INPUT_SIZE"
  using assms default_block_size [of es] by (auto simp: sizes_ok_def block_elems_def)

lemma frames_append: "sum_list ns * es \<le> length xs \<Longrightarrow> frames env es ns (xs @ behind) = frames env es ns xs"
proof (induction ns arbitrary: xs)
  case (Cons n ns)
  then have "n * es \<le> length xs" "sum_list ns * es \<le> length (drop (n * es) xs)" by (simp_all add: distrib_right)
  then show ?case using Cons.IH [of "drop (n * es) xs"] by simp
qed simp

lemma compress_lz4_correct:
  assumes "env_ok env" and "sizes_ok es block_size" and "length xs = sz * es"
    and "length (compressed env sz es block_size xs) \<le> length out"
  shows "bshuf_compress_lz4 env (xs @ behind) out sz es block_size =
    Inr (int (length (compressed env sz es block_size xs)), overwrite 0 (compressed env sz es block_size xs) out)"
proof -
  note so = sizes_ok_elems [OF assms(2)]
  let ?ns = "blocks sz (block_elems es block_size)" and ?l = "sz mod 8 * es"
  let ?fs = "frames env es ?ns xs" and ?d = "drop (length xs - ?l) xs"
  have "(sum_list ?ns + sz mod 8) * es = sz * es" using sum_blocks [OF so(1,2), of sz] by simp
  then have sum: "sum_list ?ns * es + ?l = length xs" unfolding assms(3) distrib_right .
  have fs: "frames env es ?ns (drop 0 (xs @ behind)) = ?fs" using sum by (simp add: frames_append)
  have len: "0 + sum_list ?ns * es \<le> length (xs @ behind)" "0 + length (frames env es ?ns (drop 0 (xs @ behind))) \<le> length out"
    "length xs - ?l = sum_list ?ns * es" using sum assms(4) unfolding fs by (simp_all add: compressed_def)
  obtain C where C: "forE (run_block (bshuf_compress_lz4_block env (xs @ behind)) es) ?ns ((ioc_init 0 0, out), 0, 0) =
      Inr ((C, overwrite 0 ?fs out), 0, int (length ?fs))" "chain_at C (sum_list ?ns * es) (length ?fs)"
    using compress_blocks [OF assms(1) blocks_ok [OF so] chain_at_init len(1,2), of 0, unfolded fs] by auto
  have b: "sum_list ?ns * es + ?l \<le> length (xs @ behind)" "length ?fs + ?l \<le> length (overwrite 0 ?fs out)"
    using sum len(2) assms(4) by (simp_all add: compressed_def)
  have seg: "segment (sum_list ?ns * es) ?l (xs @ behind) = ?d" using sum len(3) by (simp add: segment_def)
  have "overwrite (length ?fs) ?d (overwrite 0 ?fs out) = overwrite 0 (compressed env sz es block_size xs) out"
    using overwrite_overwrite [of 0 ?fs ?d out] assms(4) by (simp add: compressed_def)
  moreover have "length ?d = ?l" using sum by simp
  ultimately show ?thesis
    using blocked_wrap [OF refl so(1,3) C(1,2) b] unfolding bshuf_compress_lz4_def seg by (simp add: compressed_def del: length_drop)
qed

lemma decompress_lz4_correct:
  assumes "env_ok env" and "sizes_ok es block_size" and "length xs = sz * es" and "length out = sz * es"
  shows "bshuf_decompress_lz4 env (compressed env sz es block_size xs @ rest) out sz es block_size =
    Inr (int (length (compressed env sz es block_size xs)), xs)"
proof -
  note so = sizes_ok_elems [OF assms(2)]
  let ?ns = "blocks sz (block_elems es block_size)" and ?l = "sz mod 8 * es" and ?ys = "compressed env sz es block_size xs @ rest"
  have "(sum_list ?ns + sz mod 8) * es = sz * es" using sum_blocks [OF so(1,2), of sz] by simp
  then have sum: "sum_list ?ns * es + ?l = length xs" unfolding assms(3) distrib_right .
  let ?fs = "frames env es ?ns xs" and ?d = "drop (length xs - ?l) xs" and ?o = "overwrite 0 (take (sum_list ?ns * es) xs) out"
  have ys: "drop 0 ?ys = ?fs @ ?d @ rest" by (simp add: compressed_def)
  have len: "sum_list ?ns * es \<le> length xs" "0 + sum_list ?ns * es \<le> length out" "length ?d = ?l"
    using sum assms(3,4) by (simp_all only: length_drop)
  obtain C where C: "forE (run_block (bshuf_decompress_lz4_block env ?ys) es) ?ns ((ioc_init 0 0, out), 0, 0) =
      Inr ((C, ?o), 0, int (length ?fs))" "chain_at C (length ?fs) (sum_list ?ns * es)"
    using decompress_blocks [OF assms(1) blocks_ok [OF so] chain_at_init len(1) ys _ len(2), of 0] by auto
  have b: "length ?fs + ?l \<le> length ?ys" "sum_list ?ns * es + ?l \<le> length ?o"
    using len sum assms(3,4) by (simp_all add: compressed_def)
  have seg: "segment (length ?fs) ?l ?ys = ?d" using len(3) by (simp add: segment_def compressed_def)
  have "length xs - ?l = sum_list ?ns * es" using sum by simp
  then have x: "take (sum_list ?ns * es) xs @ ?d = xs" by simp
  have "overwrite (sum_list ?ns * es) ?d ?o = overwrite 0 xs out"
    using overwrite_overwrite [of 0 "take (sum_list ?ns * es) xs" ?d out] len(1,3) sum assms(3,4) x by simp
  also have "\<dots> = xs" using assms(3,4) by (simp add: overwrite_def)
  finally show ?thesis
    using blocked_wrap [OF refl so(1,3) C(1,2) b] len(3) unfolding bshuf_decompress_lz4_def seg by (simp add: compressed_def del: length_drop)
qed

text \<open>The bound that the library promises for the compressed size.\<close>

lemma frames_length:
  assumes "env_ok env" and "\<forall>n \<in> set ns. block_ok n es" and "sum_list ns * es \<le> length xs"
  shows "int (length (frames env es ns xs)) \<le> (\<Sum>n \<leftarrow> ns. int (n * es) + int (n * es) div 255 + 20)"
  using assms(2,3)
proof (induction ns arbitrary: xs)
  case (Cons n ns)
  have "int (length (lz_block env n es (take (n * es) xs))) \<le> int (n * es) + int (n * es) div 255 + 16"
    using Cons.prems by (intro lz_block_laws(1) assms(1)) (auto simp: distrib_right)
  moreover have "int (length (frames env es ns (drop (n * es) xs))) \<le> (\<Sum>n \<leftarrow> ns. int (n * es) + int (n * es) div 255 + 20)"
    using Cons.prems by (intro Cons.IH) (auto simp: distrib_right)
  ultimately show ?case by (simp add: frame_def)
qed simp

lemma compressed_length_bound:
  assumes "env_ok env" and "sizes_ok es block_size" and "length xs = sz * es"
  shows "int (length (compressed env sz es block_size xs)) \<le> bshuf_compress_lz4_bound (be_lz4 env) sz es block_size"
proof -
  note so = sizes_ok_elems [OF assms(2)]
  define n where "n = block_elems es block_size"
  define l where "l = sz mod n div 8 * 8"
  let ?ns = "blocks sz n" and ?f = "\<lambda>m. int (m * es) + int (m * es) div 255 + 20"
  have "(sum_list ?ns + sz mod 8) * es = sz * es" using sum_blocks [OF so(1,2), of sz] by (simp add: n_def)
  then have sum: "sum_list ?ns * es + sz mod 8 * es = length xs" unfolding assms(3) distrib_right .
  have l: "sz mod n - sz mod n mod 8 = l" by (simp add: l_def minus_mod_eq_div_mult)
  have bnd: "lz_bound (be_lz4 env) (to_int32 (m * es)) = int (m * es) + int (m * es) div 255 + 16" if "m \<le> n" for m
  proof -
    have "int (m * es) \<le> int (n * es)" unfolding of_nat_le_iff using that by (rule mult_le_mono1)
    then have "int (m * es) \<le> LZ4_MAX_INPUT_SIZE" unfolding n_def using so(4) by (rule order_trans)
    then show ?thesis using assms(1) to_int32_small [of "m * es"]
      by (auto simp: env_ok_def lz4_laws_def LZ4_MAX_INPUT_SIZE_def simp del: of_nat_mult)
  qed
  have "l \<le> n" using mod_less_divisor [OF so(2), of sz] l by (simp add: n_def)
  have "int (length (frames env es ?ns xs)) \<le> sum_list (map ?f ?ns)"
    using blocks_ok [OF so] sum by (intro frames_length assms(1)) (simp_all add: n_def)
  also have "\<dots> = ?f n * int (sz div n) + (if l \<noteq> 0 then ?f l else 0)"
    unfolding blocks_def l by (simp add: sum_list_replicate mult.commute)
  finally have fs: "int (length (frames env es ?ns xs)) \<le> ?f n * int (sz div n) + (if l \<noteq> 0 then ?f l else 0)" .
  have "bshuf_compress_lz4_bound (be_lz4 env) sz es block_size = (lz_bound (be_lz4 env) (to_int32 (n * es)) + 4) * int (sz div n) +
      (if l \<noteq> 0 then lz_bound (be_lz4 env) (to_int32 (l * es)) + 4 else 0) + int (sz mod 8 * es)"
    unfolding bshuf_compress_lz4_bound_def Let_def block_elems_def [symmetric] n_def [symmetric] BSHUF_BLOCKED_MULT_def l_def [symmetric]
    using so(1) by (simp add: n_def del: of_nat_mult)
  also have "\<dots> = ?f n * int (sz div n) + (if l \<noteq> 0 then ?f l else 0) + int (sz mod 8 * es)"
    unfolding bnd [OF order_refl] bnd [OF \<open>l \<le> n\<close>] by (simp del: of_nat_mult)
  moreover have "length (drop (length xs - sz mod 8 * es) xs) = sz mod 8 * es" using sum by simp
  ultimately show ?thesis using fs unfolding compressed_def n_def [symmetric] length_append by (simp del: length_drop of_nat_mult)
qed

section \<open>The HDF5 filter\<close>

definition BSHUF_H5_COMPRESS_LZ4 :: nat where "BSHUF_H5_COMPRESS_LZ4 = 2"
definition BSHUF_H5_COMPRESS_ZSTD :: nat where "BSHUF_H5_COMPRESS_ZSTD = 3"

text \<open>\<open>bshuf_h5_filter\<close>, built without ZSTD. The result is \<open>None\<close> for the return value 0, which reports an
  error to HDF5, and otherwise the return value with the new buffer. \<open>err\<close> is an \<open>int\<close>: the 64-bit counts
  are cut to it.\<close>

definition to_int :: "int \<Rightarrow> int" where "to_int x = signed_take_bit 31 x"

definition bshuf_h5_filter :: "bshuf_env \<Rightarrow> bool \<Rightarrow> nat list \<Rightarrow> nat \<Rightarrow> byte list \<Rightarrow> (nat \<times> byte list) option res" where
  "bshuf_h5_filter env reverse cd_values nbytes buf =
     (if length cd_values < 3 then Inr None
      else if cd_values ! 2 = 0 then Inl (Undefined ''division by zero'')
      else let elem_size = cd_values ! 2; user_size = (if length cd_values > 3 then cd_values ! 3 else 0);
               block_size = (if user_size = 0 then bshuf_default_block_size elem_size else user_size) in
      if length cd_values > 4 \<and> cd_values ! 4 = BSHUF_H5_COMPRESS_ZSTD then Inr None
      else let lz4 = (length cd_values > 4 \<and> cd_values ! 4 = BSHUF_H5_COMPRESS_LZ4) in
      if lz4 \<and> reverse \<and> length buf < 12 then Inl (Undefined ''read out of range'')
      else let nbytes_uncomp = (if lz4 \<and> reverse then unat (bshuf_read_uint64_BE buf) else nbytes);
               block_size = (if lz4 \<and> reverse then unat (bshuf_read_uint32_BE (drop 8 buf)) div elem_size else block_size);
               in_buf = (if lz4 \<and> reverse then drop 12 buf else buf);
               buf_size_out = (if lz4 \<and> \<not> reverse
                 then nat (bshuf_compress_lz4_bound (be_lz4 env) (nbytes_uncomp div elem_size) elem_size block_size) + 12
                 else nbytes_uncomp) in
      if nbytes_uncomp mod elem_size \<noteq> 0 then Inr None
      else (case be_malloc env buf_size_out of None \<Rightarrow> Inr None
       | Some out_buf \<Rightarrow>
         let sz = nbytes_uncomp div elem_size in
         bindE (if lz4 then if reverse then bshuf_decompress_lz4 env in_buf out_buf sz elem_size block_size
                            else bindE (bshuf_compress_lz4 env in_buf (drop 12 out_buf) sz elem_size block_size) (\<lambda>(n, out).
                                 Inr (n, bshuf_write_uint64_BE (word_of_nat nbytes_uncomp) @
                                         bshuf_write_uint32_BE (word_of_nat (block_size * elem_size)) @ out))
                else if reverse then bshuf_bitunshuffle env in_buf out_buf sz elem_size block_size
                else bshuf_bitshuffle env in_buf out_buf sz elem_size block_size) (\<lambda>(n, out).
         let err = to_int n; nbytes_out = (if lz4 then if reverse then nbytes_uncomp else nat (err + 12) else nbytes) in
         if err < 0 then Inr None else Inr (Some (nbytes_out, out)))))"

text \<open>\<open>bshuf_h5_set_local\<close>, which completes the values of the filter for a dataset. The arguments are what
  \<open>H5Pget_filter_by_id2\<close> gives (its return value, the number of values, and the eight that fit into
  \<open>tmp_values\<close>, the rest of them zero), \<open>H5Tget_size\<close> and the effect of \<open>H5Pmodify_filter\<close>. The result has the
  values that were handed to it.\<close>

definition BSHUF_VERSION_MAJOR :: nat where "BSHUF_VERSION_MAJOR = 0"
definition BSHUF_VERSION_MINOR :: nat where "BSHUF_VERSION_MINOR = 4"

definition bshuf_h5_set_local :: "int \<times> nat \<times> nat list \<Rightarrow> nat \<Rightarrow> (nat list \<Rightarrow> int) \<Rightarrow> (int \<times> nat list option) res" where
  "bshuf_h5_set_local filt elem_size modify =
     (case filt of (r, nelements, tmp_values) \<Rightarrow>
      if r < 0 then Inr (- 1, None)
      else let values = [BSHUF_VERSION_MAJOR, BSHUF_VERSION_MINOR, elem_size] @ take 8 (take nelements tmp_values @ replicate 8 0);
               nelements = 3 + nelements in
      if elem_size \<le> 0 then Inr (- 1, None)
      else if nelements > 3 \<and> values ! 3 mod 8 \<noteq> 0 then Inr (- 1, None)
      else if nelements > 11 then Inl (Undefined ''read out of range'')
      else if modify (take nelements values) < 0 then Inr (- 1, Some (take nelements values))
      else Inr (1, Some (take nelements values)))"

text \<open>What the filter decodes: a header with the number of bytes and the size of the blocks in bytes, and the
  compressed data.\<close>

definition h5_chunk :: "bshuf_env \<Rightarrow> nat \<Rightarrow> nat \<Rightarrow> byte list \<Rightarrow> byte list" where
  "h5_chunk env es block_bytes xs =
     bshuf_write_uint64_BE (word_of_nat (length xs)) @ bshuf_write_uint32_BE (word_of_nat block_bytes) @
     compressed env (length xs div es) es (block_bytes div es) xs"

lemma h5_filter_decodes:
  assumes "env_ok env" and "sizes_ok es (block_bytes div es)" and "length xs mod es = 0" and "length xs < 2 ^ 64" and "block_bytes < 2 ^ 32"
    and "int (length (compressed env (length xs div es) es (block_bytes div es) xs)) < 2 ^ 31" and "user mod 8 = 0"
  shows "bshuf_h5_filter env True [major, minor, es, user, BSHUF_H5_COMPRESS_LZ4] n (h5_chunk env es block_bytes xs @ rest) =
    Inr (Some (length xs, xs))"
proof -
  let ?c = "compressed env (length xs div es) es (block_bytes div es) xs" and ?buf = "h5_chunk env es block_bytes xs @ rest"
  have es: "0 < es" "es \<noteq> 0" using assms(2) by (simp_all add: sizes_ok_def)
  have hdr: "unat (bshuf_read_uint64_BE ?buf) = length xs" "unat (bshuf_read_uint32_BE (drop 8 ?buf)) = block_bytes"
    using assms(4,5) by (simp_all add: h5_chunk_def unat_of_nat take_bit_nat_eq_self)
  have rest: "drop 12 ?buf = ?c @ rest" "\<not> length ?buf < 12" by (simp_all add: h5_chunk_def)
  obtain out where out: "be_malloc env (length xs) = Some out" "length out = length xs"
    using assms(1) unfolding env_ok_def malloc_ok_def by metis
  have len: "length xs = length xs div es * es" using assms(3) by (simp add: mod_0_imp_dvd)
  have dec: "bshuf_decompress_lz4 env (?c @ rest) out (length xs div es) es (block_bytes div es) = Inr (int (length ?c), xs)"
    using len out(2) by (intro decompress_lz4_correct assms(1,2)) simp_all
  have "to_int (int (length ?c)) = int (length ?c)" using assms(6) unfolding to_int_def by (intro signed_take_bit_int_eq_self) simp_all
  then show ?thesis
    unfolding bshuf_h5_filter_def Let_def
    using es hdr rest out(1) assms(3) dec by (simp add: BSHUF_H5_COMPRESS_LZ4_def BSHUF_H5_COMPRESS_ZSTD_def)
qed

text \<open>C13. What HDF5 compresses with the filter it can read back.\<close>

theorem h5_filter_round_trip:
  assumes "env_ok env" and "sizes_ok es block_size" and "length xs mod es = 0" and "length xs < 2 ^ 64"
    and "bshuf_compress_lz4_bound (be_lz4 env) (length xs div es) es block_size < 2 ^ 31 - 12"
  shows "\<exists>n buf. bshuf_h5_filter env False [major, minor, es, block_size, BSHUF_H5_COMPRESS_LZ4] (length xs) xs = Inr (Some (n, buf)) \<and>
    bshuf_h5_filter env True [major, minor, es, block_size, BSHUF_H5_COMPRESS_LZ4] n (take n buf) = Inr (Some (length xs, xs))"
proof -
  define bs where "bs = block_elems es block_size"
  note so = sizes_ok_elems [OF assms(2)]
  have es: "0 < es" "es \<noteq> 0" using so(3) by simp_all
  have bs: "block_elems es bs = bs" "sizes_ok es bs" "bs * es div es = bs"
    using so default_block_size(2) [of es] es by (auto simp: bs_def block_elems_def sizes_ok_def)
  have bound: "bshuf_compress_lz4_bound (be_lz4 env) sz es bs = bshuf_compress_lz4_bound (be_lz4 env) sz es block_size" for sz
    using default_block_size(2) [of es] by (simp add: bshuf_compress_lz4_bound_def bs_def block_elems_def)
  let ?c = "compressed env (length xs div es) es bs xs"
  have len: "length xs = length xs div es * es" using assms(3) by (simp add: mod_0_imp_dvd)
  have c: "int (length ?c) \<le> bshuf_compress_lz4_bound (be_lz4 env) (length xs div es) es bs"
    using compressed_length_bound [OF assms(1) bs(2) len] .
  then have small: "int (length ?c) < 2 ^ 31 - 12" using assms(5) bound by simp
  obtain out where out: "be_malloc env (nat (bshuf_compress_lz4_bound (be_lz4 env) (length xs div es) es bs) + 12) = Some out"
    "length out = nat (bshuf_compress_lz4_bound (be_lz4 env) (length xs div es) es bs) + 12"
    using assms(1) unfolding env_ok_def malloc_ok_def by metis
  have enc: "bshuf_compress_lz4 env xs (drop 12 out) (length xs div es) es bs = Inr (int (length ?c), overwrite 0 ?c (drop 12 out))"
    using compress_lz4_correct [OF assms(1) bs(2) len, of "drop 12 out" "[]"] c out(2) by simp
  have int: "to_int (int (length ?c)) = int (length ?c)" using small unfolding to_int_def by (intro signed_take_bit_int_eq_self) simp_all
  have user: "(if block_size = 0 then bshuf_default_block_size es else block_size) = bs" by (simp add: bs_def block_elems_def)
  let ?buf = "h5_chunk env es (bs * es) xs @ drop (length ?c) (drop 12 out)"
  define cd where "cd = [major, minor, es, block_size, BSHUF_H5_COMPRESS_LZ4]"
  have cd: "cd ! 2 = es" "cd ! 3 = block_size" "cd ! 4 = BSHUF_H5_COMPRESS_LZ4" "length cd = 5" by (simp_all add: cd_def)
  have lt: "((3 :: nat) < 5) = True" by simp
  have "bshuf_h5_filter env False cd (length xs) xs = Inr (Some (length ?c + 12, ?buf))"
    unfolding bshuf_h5_filter_def Let_def cd lt if_True user
    using es out(1) assms(3) enc int
    by (simp add: BSHUF_H5_COMPRESS_LZ4_def BSHUF_H5_COMPRESS_ZSTD_def h5_chunk_def bs(3) overwrite_def)
  moreover have "take (length ?c + 12) ?buf = h5_chunk env es (bs * es) xs @ []" by (simp add: h5_chunk_def bs(3))
  moreover have "bshuf_h5_filter env True [major, minor, es, block_size, BSHUF_H5_COMPRESS_LZ4] (length ?c + 12) (h5_chunk env es (bs * es) xs @ []) =
      Inr (Some (length xs, xs))"
  proof (rule h5_filter_decodes)
    have "int (bs * es) < 2 ^ 32" using so(4) by (simp add: bs_def LZ4_MAX_INPUT_SIZE_def del: of_nat_mult)
    then show "bs * es < 2 ^ 32" by (metis of_nat_less_iff of_nat_numeral of_nat_power)
    show "block_size mod 8 = 0" using assms(2) by (simp add: sizes_ok_def)
  qed (use assms bs small in \<open>simp_all add: bs(3)\<close>)
  ultimately show ?thesis unfolding cd_def by metis
qed

text \<open>An unknown compression is reported but not refused, and the filter then only shuffles.\<close>

lemma set_local_unknown_compression:
  assumes "0 < es" and "block_size mod 8 = 0" and "c \<notin> {0, BSHUF_H5_COMPRESS_LZ4, BSHUF_H5_COMPRESS_ZSTD}"
    and "modify [0, 4, es, block_size, c] \<ge> 0"
  shows "bshuf_h5_set_local (0, 2, [block_size, c, 0, 0, 0, 0, 0, 0]) es modify = Inr (1, Some [0, 4, es, block_size, c])"
    and "bshuf_h5_filter env reverse [0, 4, es, block_size, c] n buf = bshuf_h5_filter env reverse [0, 4, es, block_size, 0] n buf"
proof -
  show "bshuf_h5_set_local (0, 2, [block_size, c, 0, 0, 0, 0, 0, 0]) es modify = Inr (1, Some [0, 4, es, block_size, c])"
    using assms(1,2,4) by (simp add: bshuf_h5_set_local_def BSHUF_VERSION_MAJOR_def BSHUF_VERSION_MINOR_def Let_def)
  have cd: "length [0, 4, es, block_size, x] = 5" "[0, 4, es, block_size, x] ! 2 = es" "[0, 4, es, block_size, x] ! 3 = block_size"
    "[0, 4, es, block_size, x] ! 4 = x" for x by simp_all
  have ne: "(c = BSHUF_H5_COMPRESS_LZ4) = False" "(c = BSHUF_H5_COMPRESS_ZSTD) = False"
    "(0 = BSHUF_H5_COMPRESS_LZ4) = False" "(0 = BSHUF_H5_COMPRESS_ZSTD) = False"
    using assms(3) by (auto simp: BSHUF_H5_COMPRESS_LZ4_def BSHUF_H5_COMPRESS_ZSTD_def)
  show "bshuf_h5_filter env reverse [0, 4, es, block_size, c] n buf = bshuf_h5_filter env reverse [0, 4, es, block_size, 0] n buf"
    unfolding bshuf_h5_filter_def Let_def cd ne by (rule refl)
qed

text \<open>A compressor that puts one byte in front of the data.\<close>

definition plain_lz4 :: lz4_api where
  "plain_lz4 = \<lparr>lz_bound = (\<lambda>n. n + n div 255 + 16), lz_compress = (\<lambda>s n cap. 0 # s), lz_decompress = (\<lambda>c n cap. Inr (tl c))\<rparr>"

definition plain_env :: bshuf_env where
  "plain_env = \<lparr>be_isa = AVX2, be_malloc = (\<lambda>n. Some (replicate n 0)), be_lz4 = plain_lz4\<rparr>"

lemma plain_env_ok: "env_ok plain_env"
proof -
  have "1 + int n \<le> int n + int n div 255 + 16" for n by (simp add: div_int_pos_iff)
  then show ?thesis by (simp add: env_ok_def plain_env_def malloc_ok_def lz4_laws_def plain_lz4_def Let_def)
qed

theorem h5_filter_round_trip_witness:
  "\<exists>n buf. bshuf_h5_filter plain_env False [0, 4, 2, 0, BSHUF_H5_COMPRESS_LZ4] 20 (map word_of_nat [0..<20]) = Inr (Some (n, buf)) \<and>
    bshuf_h5_filter plain_env True [0, 4, 2, 0, BSHUF_H5_COMPRESS_LZ4] n (take n buf) = Inr (Some (20, map word_of_nat [0..<20]))"
proof -
  have "sizes_ok 2 0" by (simp add: sizes_ok_def block_elems_def bshuf_default_block_size_def BSHUF_BLOCKED_MULT_def
    BSHUF_MIN_RECOMMEND_BLOCK_def BSHUF_TARGET_BLOCK_SIZE_B_def LZ4_MAX_INPUT_SIZE_def)
  moreover have "to_int32 16 = 16" "to_int32 8192 = 8192" using to_int32_small [of 16] to_int32_small [of 8192] by simp_all
  then have "bshuf_compress_lz4_bound (be_lz4 plain_env) (length (map word_of_nat [0..<20] :: byte list) div 2) 2 0 < 2 ^ 31 - 12"
    by (simp add: bshuf_compress_lz4_bound_def bshuf_default_block_size_def BSHUF_BLOCKED_MULT_def Let_def
      BSHUF_MIN_RECOMMEND_BLOCK_def BSHUF_TARGET_BLOCK_SIZE_B_def plain_env_def plain_lz4_def)
  ultimately show ?thesis
    using h5_filter_round_trip [OF plain_env_ok, of 2 0 "map word_of_nat [0..<20]" 0 4] by simp
qed

end
