(* ===== verification/Compress.thy ===== *)
theory Compress
  imports Streams BshufLz4
begin

text \<open>
  \<open>std-data-compress\<close>: the two processes that compress the images of the buffer \<open>image\<close> into a buffer of
  their own, \<open>blosc2\<close> or \<open>h5bitshuffle-lz4\<close>, and announce them there. The blosc2 library is an argument;
  bitshuffle is the code of theory \<open>BshufLz4\<close>, over an argument for LZ4.
\<close>

section \<open>Arguments\<close>

text \<open>The actions of the options, after the conversion of the argument to a number.\<close>

definition check_threads :: "int \<Rightarrow> int res" where
  "check_threads value =
     (if value < 1 \<or> value > 128 \<or> value mod 2 \<noteq> 0 then Inl (RuntimeError ''Unsupported number of cores! Use 1,2,4,8 ...'')
      else Inr value)"

definition check_level :: "u64 \<Rightarrow> u64 res" where
  "check_level value =
     (if value < 1 \<or> value > 9 then Inl (RuntimeError (''Compression level: '' @ to_string value @ '' is out of range [1-9]''))
      else Inr value)"

definition check_block_size :: "int \<Rightarrow> int res" where
  "check_block_size value =
     (if value < 0 then Inl (RuntimeError ''block size must be greater than or equal 0 ...'') else Inr value)"

section \<open>blosc2\<close>

text \<open>\<open>blosc2_compress_ctx\<close> with the context the process has made: the source with its size and the size of the
  destination; the return value and the bytes it leaves at the destination.\<close>

type_synonym blosc_compress_ctx = "byte list \<Rightarrow> int \<Rightarrow> int \<Rightarrow> int \<times> byte list"

definition compress_blosc2_turn ::
  "(byte list \<Rightarrow> ImageMetadata) \<Rightarrow> (ImageMetadata \<Rightarrow> byte list) \<Rightarrow> blosc_compress_ctx \<Rightarrow> u64 \<Rightarrow> Communicator \<Rightarrow>
   byte list option \<Rightarrow> Communicator \<times> CompressionStatsCollector \<Rightarrow> (Communicator \<times> CompressionStatsCollector) res" where
  "compress_blosc2_turn parse ser blosc converted_bytes receiver msg st =
     (case st of (sender, stats) \<Rightarrow>
      bindE (received_meta msg) (\<lambda>m. case m of None \<Rightarrow> Inr (sender, stats)
      | Some buffer \<Rightarrow>
          let meta = parse buffer; img = im_image_id meta in
          if im_status meta \<noteq> st_good_image then Inr (sender, stats)
          else bindE (Communicator_get_data receiver img) (\<lambda>p.
               bindE (read_bytes (comm_buffer receiver) (unat p) (unat converted_bytes)) (\<lambda>src.
               bindE (Communicator_get_data sender img) (\<lambda>q.
               let n = to_int32 (unat converted_bytes) in
               (case blosc src n n of (size_c, dest) \<Rightarrow>
                bindE (write_bytes (comm_buffer sender) (unat q) dest) (\<lambda>b.
                let sender1 = sender\<lparr>comm_buffer := b\<rparr> in
                bindE (if size_c > 0
                       then Communicator_send sender1 img
                              (ser (meta\<lparr>im_size := word_of_int size_c, im_compression := cmp_blosc2\<rparr>)) None
                       else Inr sender1) (\<lambda>sender2.
                Inr (sender2, compression_process size_c stats)))))))))"

section \<open>h5bitshuffle-lz4\<close>

text \<open>The state of the loop: \<open>converted_bytes\<close>, from which the first part of the header always follows, the
  sender and the statistics.\<close>

record bshuf_compressor =
  bc_converted_bytes :: u64
  bc_sender :: Communicator
  bc_stats :: CompressionStatsCollector

definition bshuf_header :: "u64 \<Rightarrow> int \<Rightarrow> byte list" where
  "bshuf_header image_n_bytes block_size = rev (u64_bytes image_n_bytes) @ rev (u32_bytes (word_of_int block_size))"

definition compress_bshuf_image ::
  "bshuf_env \<Rightarrow> int \<Rightarrow> int \<Rightarrow> u64 \<Rightarrow> u64 \<Rightarrow> Communicator \<Rightarrow> Communicator \<Rightarrow> (int \<times> Communicator) res" where
  "compress_bshuf_image env depth block_size converted_bytes img receiver sender =
     bindE (Communicator_get_data sender img) (\<lambda>q.
     bindE (write_bytes (comm_buffer sender) (unat q) (bshuf_header converted_bytes block_size)) (\<lambda>b.
     let element_size = int_quot depth 8 in
     bindE (Communicator_get_data receiver img) (\<lambda>p.
     if element_size = 0 then Inl (Undefined ''division by zero'')
     else if length (rb_buffer b) < unat q + 12 \<or> length (rb_buffer (comm_buffer receiver)) < unat p then Inl (Undefined ''pointer out of range'')
     else let es = unat (word_of_int element_size :: u64) in
       bindE (bshuf_compress_lz4 env (drop (unat p) (rb_buffer (comm_buffer receiver))) (drop (unat q + 12) (rb_buffer b))
                (unat converted_bytes div es) es (unat (word_of_int (int_quot block_size element_size) :: u64))) (\<lambda>(count, out).
       Inr (to_int count, sender\<lparr>comm_buffer := b\<lparr>rb_buffer := take (unat q + 12) (rb_buffer b) @ out\<rparr>\<rparr>)))))"

definition compress_bshuf_turn ::
  "(byte list \<Rightarrow> ImageMetadata) \<Rightarrow> (ImageMetadata \<Rightarrow> byte list) \<Rightarrow> bshuf_env \<Rightarrow> DetectorConfig \<Rightarrow> int \<Rightarrow> Communicator \<Rightarrow>
   byte list option \<Rightarrow> bshuf_compressor \<Rightarrow> bshuf_compressor res" where
  "compress_bshuf_turn parse ser env config block_size receiver msg bc =
     bindE (received_meta msg) (\<lambda>m. case m of None \<Rightarrow> Inr bc
     | Some buffer \<Rightarrow>
         let meta = parse buffer; img = im_image_id meta in
         if im_status meta \<noteq> st_good_image then Inr bc
         else let converted_bytes = (if detector_type config = ''pco'' then im_size meta else bc_converted_bytes bc) in
           bindE (compress_bshuf_image env (bit_depth config) block_size converted_bytes img receiver (bc_sender bc)) (\<lambda>(sz, sender1).
           bindE (if sz > 0
                  then Communicator_send sender1 img
                         (ser (meta\<lparr>im_size := word_of_int sz + 12, im_compression := cmp_h5bitshuffle_lz4\<rparr>)) None
                  else Inr sender1) (\<lambda>sender2.
           Inr (bc\<lparr>bc_converted_bytes := converted_bytes, bc_sender := sender2,
                   bc_stats := compression_process sz (bc_stats bc)\<rparr>))))"

section \<open>What a reader finds\<close>

lemma bshuf_header_eq:
  "0 \<le> block_size \<Longrightarrow> block_size < 2 ^ 31 \<Longrightarrow>
    bshuf_header n block_size = bshuf_write_uint64_BE n @ bshuf_write_uint32_BE (word_of_nat (nat block_size))"
  by (simp add: bshuf_header_def bshuf_write_uint64_BE_def bshuf_write_uint32_BE_def u64_bytes_def u32_bytes_def)

lemma length_bshuf_header [simp]: "length (bshuf_header n block_size) = 12"
  by (simp add: bshuf_header_def)

text \<open>The values that the configuration and the arguments must have.\<close>

definition bshuf_args_ok :: "DetectorConfig \<Rightarrow> int \<Rightarrow> nat \<Rightarrow> bool" where
  "bshuf_args_ok config block_size es \<longleftrightarrow> bit_depth config = 8 * int es \<and> 0 < es \<and> bit_depth config < 2 ^ 31 \<and>
     0 \<le> block_size \<and> block_size < 2 ^ 31 \<and> sizes_ok es (nat block_size div es)"

lemma bshuf_args:
  assumes "bshuf_args_ok config block_size es"
  shows "int_quot (bit_depth config) 8 = int es" "int es \<noteq> 0" "unat (word_of_int (int es) :: u64) = es"
    "unat (word_of_int (int_quot block_size (int es)) :: u64) = nat block_size div es"
proof -
  have es: "bit_depth config = 8 * int es" "0 < es" "int es < 2 ^ 31" "0 \<le> block_size" "block_size < 2 ^ 31"
    using assms by (auto simp: bshuf_args_ok_def)
  then show "int_quot (bit_depth config) 8 = int es" "int es \<noteq> 0" by simp_all
  have small: "unat (word_of_int x :: u64) = nat x" if "0 \<le> x" "x < 2 ^ 31" for x
    using that by (subst unat_eq_nat_uint) (simp add: uint_word_of_int_eq take_bit_int_eq_self)
  show "unat (word_of_int (int es) :: u64) = es" using small [of "int es"] es(3) by simp
  have q: "int_quot block_size (int es) = int (nat block_size div es)" using es by (simp add: zdiv_int)
  have "nat block_size div es \<le> nat block_size" "nat block_size < 2 ^ 31" using es(4,5) by (simp_all add: nat_less_iff)
  then have "nat block_size div es < 2 ^ 31" by (rule le_less_trans)
  then have "int (nat block_size div es) < 2 ^ 31" by (metis of_nat_less_iff of_nat_numeral of_nat_power)
  then show "unat (word_of_int (int_quot block_size (int es)) :: u64) = nat block_size div es"
    unfolding q using small [of "int (nat block_size div es)"] by simp
qed

text \<open>The whole of what is stored, wherever it ends: the chunk of the HDF5 filter from the start of the slot on.\<close>

lemma compress_bshuf_stores:
  assumes "env_ok env" and "bshuf_args_ok config block_size es" and "rb_wf (comm_buffer receiver)" and "rb_wf (comm_buffer sender)"
    and "unat n \<le> rb_size (comm_buffer receiver)" and "unat n mod es = 0"
    and "xs = segment (rb_slot (comm_buffer receiver) img * rb_size (comm_buffer receiver)) (unat n) (rb_buffer (comm_buffer receiver))"
    and "p = rb_slot (comm_buffer sender) img * rb_size (comm_buffer sender)"
    and "p + length (h5_chunk env es (nat block_size) xs) \<le> length (rb_buffer (comm_buffer sender))"
    and "length (h5_chunk env es (nat block_size) xs) < 2 ^ 31"
  shows "compress_bshuf_image env (bit_depth config) block_size n img receiver sender =
    Inr (int (length (h5_chunk env es (nat block_size) xs)) - 12, sender\<lparr>comm_buffer := (comm_buffer sender)
      \<lparr>rb_buffer := overwrite p (h5_chunk env es (nat block_size) xs) (rb_buffer (comm_buffer sender))\<rparr>\<rparr>)"
proof -
  note args = bshuf_args [OF assms(2)]
  let ?c = "compressed env (length xs div es) es (nat block_size div es) xs" and ?chunk = "h5_chunk env es (nat block_size) xs"
    and ?r = "rb_buffer (comm_buffer receiver)" and ?s = "rb_buffer (comm_buffer sender)"
  obtain q where q: "get_data (comm_buffer sender) img = Inr q" "unat q = p"
    using get_data_wf [OF assms(4), of img] assms(8) by auto
  obtain r where r: "get_data (comm_buffer receiver) img = Inr r" "unat r = rb_slot (comm_buffer receiver) img * rb_size (comm_buffer receiver)"
    "unat r + rb_size (comm_buffer receiver) \<le> length ?r" using get_data_wf [OF assms(3), of img] by auto
  have xs: "length xs = unat n" "drop (unat r) ?r = xs @ drop (unat r + unat n) ?r"
  proof -
    show "length xs = unat n" using assms(5,7) r(2,3) by simp
    have "xs = take (unat n) (drop (unat r) ?r)" by (simp add: assms(7) r(2) segment_def)
    then show "drop (unat r) ?r = xs @ drop (unat r + unat n) ?r"
      using append_take_drop_id [of "unat n" "drop (unat r) ?r"] by (simp add: add.commute)
  qed
  have len: "length xs = length xs div es * es" using assms(6) xs(1) by (simp add: mod_0_imp_dvd)
  have bs: "0 \<le> block_size" "block_size < 2 ^ 31" "sizes_ok es (nat block_size div es)" using assms(2) by (simp_all add: bshuf_args_ok_def)
  let ?h = "bshuf_header n block_size" and ?b = "overwrite p (bshuf_header n block_size) (rb_buffer (comm_buffer sender))"
  have chunk: "?chunk = ?h @ ?c" using bs xs(1) by (simp add: h5_chunk_def bshuf_header_eq)
  have room: "p + 12 + length ?c \<le> length ?s" using assms(9) by (simp add: chunk)
  have enc: "bshuf_compress_lz4 env (drop (unat r) ?r) (drop (p + 12) ?b) (unat n div es) es (nat block_size div es) =
      Inr (int (length ?c), overwrite 0 ?c (drop (p + 12) ?b))"
    using compress_lz4_correct [OF assms(1) bs(3) len, of "drop (p + 12) ?b"] room unfolding xs(2) by (simp add: xs(1))
  have fin: "take (p + 12) ?b @ overwrite 0 ?c (drop (p + 12) ?b) = overwrite p ?chunk ?s"
  proof -
    have "overwrite (p + length ?h) ?c ?b = overwrite p ?chunk ?s"
      using overwrite_overwrite [of p ?h ?c ?s] room by (simp add: chunk)
    then show ?thesis by (simp add: overwrite_def [of "p + 12"] overwrite_def [of 0] add.commute)
  qed
  have int: "to_int (int (length ?c)) = int (length ?c)"
    using assms(10) unfolding to_int_def by (intro signed_take_bit_int_eq_self) (simp_all add: chunk)
  show ?thesis
    using q r(1,3) args room enc fin int
    by (simp add: compress_bshuf_image_def Communicator_get_data_def write_bytes_def chunk Let_def)
qed

text \<open>A write to the beginning of a slot.\<close>

lemma slot_prefix_write:
  assumes "rb_wf rb" and "length d \<le> rb_size rb" and "rb' = rb\<lparr>rb_buffer := overwrite (rb_slot rb i * rb_size rb) d (rb_buffer rb)\<rparr>"
  shows "read_slot rb' i = Inr (d @ drop (length d) (segment (rb_slot rb i * rb_size rb) (rb_size rb) (rb_buffer rb)))"
    and "rb_slot rb j \<noteq> rb_slot rb i \<Longrightarrow> read_slot rb' j = read_slot rb j"
proof -
  let ?p = "rb_slot rb i * rb_size rb" and ?buf = "rb_buffer rb"
  have fits: "?p + rb_size rb \<le> length ?buf" "?p + length d \<le> length ?buf" using slot_in_range [OF assms(1), of i] assms(2) by simp_all
  have wf: "rb_wf rb'" using assms(1) fits by (simp add: assms(3) rb_wf_def)
  have "segment ?p (rb_size rb) (overwrite ?p d ?buf) = d @ drop (length d) (segment ?p (rb_size rb) ?buf)"
    using fits assms(2) by (intro nth_equalityI) (auto simp: nth_segment nth_overwrite nth_append)
  then show "read_slot rb' i = Inr (d @ drop (length d) (segment ?p (rb_size rb) ?buf))"
    using read_slot_wf [OF wf, of i] by (simp add: assms(3))
  assume "rb_slot rb j \<noteq> rb_slot rb i"
  then have "segment (rb_slot rb j * rb_size rb) (rb_size rb) (overwrite ?p d ?buf) = segment (rb_slot rb j * rb_size rb) (rb_size rb) ?buf"
    using block_disjoint [of "rb_slot rb j" "rb_slot rb i" "rb_size rb"] slot_in_range [OF assms(1), of j] fits assms(2)
    by (intro segment_overwrite_disjoint) auto
  then show "read_slot rb' j = read_slot rb j" using read_slot_wf [OF wf, of j] read_slot_wf [OF assms(1), of j] by (simp add: assms(3))
qed

lemma frame_not_Nil: "frame env n es xs \<noteq> []"
proof
  assume "frame env n es xs = []"
  then have "length (frame env n es xs) = 0" by simp
  then show False by (simp add: frame_def)
qed

lemma compressed_not_Nil:
  assumes "sizes_ok es bs" and "length xs = sz * es" and "xs \<noteq> []"
  shows "compressed env sz es bs xs \<noteq> []"
proof
  assume nil: "compressed env sz es bs xs = []"
  let ?ns = "blocks sz (block_elems es bs)"
  have "?ns = []" using nil frame_not_Nil by (cases ?ns) (auto simp: compressed_def)
  then have "sz mod 8 = sz" using sum_blocks [OF sizes_ok_elems(1,2) [OF assms(1)], of sz] by simp
  then show False using nil assms(2,3) by (simp add: compressed_def)
qed

text \<open>C35. With accepted arguments, a good, non-empty image of a detector other than pco, whose size is a multiple of that of
  an element and whose chunk is below 2 GB and not longer than a slot of the buffer of compressed images, is announced with the size of its chunk; the filter that HDF5 calls for the bytes of the slot gives the image back, and no
  other slot is touched.\<close>

theorem compressed_image_readable:
  assumes "env_ok env" and "bshuf_args_ok config block_size es" and "rb_wf (comm_buffer receiver)" and "rb_wf (comm_buffer (bc_sender bc))"
    and "detector_type config \<noteq> ''pco''" and "bc_converted_bytes bc = rb_data_bytes (comm_buffer receiver)"
    and "rb_size (comm_buffer receiver) mod es = 0" and "m \<noteq> []" and "length m \<le> META_BUFFER" and "im_status (parse m) = st_good_image"
    and "read_slot (comm_buffer receiver) (im_image_id (parse m)) = Inr xs"
    and "length (h5_chunk env es (nat block_size) xs) \<le> rb_size (comm_buffer (bc_sender bc))"
    and "length (h5_chunk env es (nat block_size) xs) < 2 ^ 31" and "xs \<noteq> []"
  shows "\<exists>bc' ys. compress_bshuf_turn parse ser env config block_size receiver (Some m) bc = Inr bc' \<and>
    comm_sent (bc_sender bc') = comm_sent (bc_sender bc) @
      [ser ((parse m)\<lparr>im_size := word_of_nat (length (h5_chunk env es (nat block_size) xs)), im_compression := cmp_h5bitshuffle_lz4\<rparr>)] \<and>
    read_slot (comm_buffer (bc_sender bc')) (im_image_id (parse m)) = Inr ys \<and>
    bshuf_h5_filter env True [0, 4, es, 0, BSHUF_H5_COMPRESS_LZ4] (length (h5_chunk env es (nat block_size) xs)) ys = Inr (Some (length xs, xs)) \<and>
    (\<forall>img. rb_slot (comm_buffer (bc_sender bc)) img \<noteq> rb_slot (comm_buffer (bc_sender bc)) (im_image_id (parse m)) \<longrightarrow>
       read_slot (comm_buffer (bc_sender bc')) img = read_slot (comm_buffer (bc_sender bc)) img)"
proof -
  let ?img = "im_image_id (parse m)" and ?rb = "comm_buffer (bc_sender bc)" and ?chunk = "h5_chunk env es (nat block_size) xs"
  let ?p = "rb_slot ?rb ?img * rb_size ?rb" and ?rest = "drop (length ?chunk) (segment (rb_slot ?rb ?img * rb_size ?rb) (rb_size ?rb) (rb_buffer ?rb))"
  define rb' where "rb' = ?rb\<lparr>rb_buffer := overwrite ?p ?chunk (rb_buffer ?rb)\<rparr>"
  have slot: "?p + rb_size ?rb \<le> length (rb_buffer ?rb)" by (rule slot_in_range [OF assms(4)])
  have xs: "xs = segment (rb_slot (comm_buffer receiver) ?img * rb_size (comm_buffer receiver)) (unat (bc_converted_bytes bc)) (rb_buffer (comm_buffer receiver))"
    "length xs = rb_size (comm_buffer receiver)"
    using assms(11) read_slot_wf [OF assms(3), of ?img] slot_in_range [OF assms(3), of ?img] by (auto simp: assms(6))
  have n: "unat (bc_converted_bytes bc) \<le> rb_size (comm_buffer receiver)" "unat (bc_converted_bytes bc) mod es = 0"
    "?p + length ?chunk \<le> length (rb_buffer ?rb)" using slot assms(6,7,12) by simp_all
  have img: "compress_bshuf_image env (bit_depth config) block_size (bc_converted_bytes bc) ?img receiver (bc_sender bc) =
      Inr (int (length ?chunk) - 12, (bc_sender bc)\<lparr>comm_buffer := rb'\<rparr>)"
    using compress_bshuf_stores [OF assms(1-4) n(1,2) xs(1) refl n(3) assms(13)] by (simp add: rb'_def)
  have so: "sizes_ok es (nat block_size div es)" "nat block_size < 2 ^ 32" using assms(2) by (simp_all add: bshuf_args_ok_def nat_less_iff)
  have len: "length xs mod es = 0" "length xs = length xs div es * es" "length xs < 2 ^ 64"
    using assms(7) xs(2) u64_less by (simp_all add: mod_0_imp_dvd)
  have pos: "12 < length ?chunk" using compressed_not_Nil [OF so(1) len(2) assms(14)] by (simp add: h5_chunk_def)
  have small: "int (length (compressed env (length xs div es) es (nat block_size div es) xs)) < 2 ^ 31"
    using assms(13) by (simp add: h5_chunk_def)
  have "bshuf_h5_filter env True [0, 4, es, 0, BSHUF_H5_COMPRESS_LZ4] (length ?chunk) (?chunk @ ?rest) = Inr (Some (length xs, xs))"
    by (rule h5_filter_decodes [OF assms(1) so(1) len(1,3) so(2) small]) simp
  moreover have "received_meta (Some m) = Inr (Some m)" using assms(8,9) by (simp add: received_meta_def)
  moreover have "word_of_int (int (length ?chunk) - 12) + 12 = (word_of_nat (length ?chunk) :: u64)" by simp
  ultimately show ?thesis
    using slot_prefix_write [OF assms(4,12) rb'_def] img pos assms(5,10)
    by (simp add: compress_bshuf_turn_def Communicator_send_def RamBuffer_write_def Let_def)
qed

text \<open>C36. Nothing compares the size of the chunk with the slot: a longer chunk, which LZ4 is free to give for an image
  that does not compress, runs into the next slot, and the image that is kept there is destroyed.\<close>

theorem compressed_image_overflows:
  assumes "env_ok env" and "bshuf_args_ok config block_size es" and "rb_wf (comm_buffer receiver)" and "rb_wf (comm_buffer sender)"
    and "rb_size (comm_buffer receiver) mod es = 0" and "read_slot (comm_buffer receiver) img = Inr xs"
    and "rb_slot (comm_buffer sender) nxt = rb_slot (comm_buffer sender) img + 1"
    and "rb_size (comm_buffer sender) + k = length (h5_chunk env es (nat block_size) xs)" and "k \<le> rb_size (comm_buffer sender)"
    and "length (h5_chunk env es (nat block_size) xs) < 2 ^ 31"
  shows "\<exists>n sender' old new. compress_bshuf_image env (bit_depth config) block_size (rb_data_bytes (comm_buffer receiver)) img receiver sender =
      Inr (n, sender') \<and> read_slot (comm_buffer sender) nxt = Inr old \<and> read_slot (comm_buffer sender') nxt = Inr new \<and>
    take k new = drop (rb_size (comm_buffer sender)) (h5_chunk env es (nat block_size) xs) \<and> drop k new = drop k old"
proof -
  let ?rb = "comm_buffer sender" and ?chunk = "h5_chunk env es (nat block_size) xs"
  let ?p = "rb_slot ?rb img * rb_size ?rb" and ?q = "rb_slot ?rb nxt * rb_size ?rb" and ?buf = "rb_buffer (comm_buffer sender)"
  define rb' where "rb' = ?rb\<lparr>rb_buffer := overwrite ?p ?chunk ?buf\<rparr>"
  have q: "?q = ?p + rb_size ?rb" by (simp add: assms(7))
  have slot: "?q + rb_size ?rb \<le> length ?buf" by (rule slot_in_range [OF assms(4)])
  then have fits: "?p + length ?chunk \<le> length ?buf" using q assms(8,9) by linarith
  have xs: "xs = segment (rb_slot (comm_buffer receiver) img * rb_size (comm_buffer receiver)) (unat (rb_data_bytes (comm_buffer receiver))) (rb_buffer (comm_buffer receiver))"
    using assms(6) read_slot_wf [OF assms(3), of img] by simp
  have img: "compress_bshuf_image env (bit_depth config) block_size (rb_data_bytes (comm_buffer receiver)) img receiver sender =
      Inr (int (length ?chunk) - 12, sender\<lparr>comm_buffer := rb'\<rparr>)"
    using compress_bshuf_stores [OF assms(1-4) order_refl assms(5) xs refl fits assms(10)] by (simp add: rb'_def)
  have wf: "rb_wf rb'" using assms(4) fits by (simp add: rb'_def rb_wf_def)
  let ?new = "segment ?q (rb_size ?rb) (overwrite ?p ?chunk ?buf)"
  have new: "read_slot rb' nxt = Inr ?new" using read_slot_wf [OF wf, of nxt] by (simp add: rb'_def)
  have "take k ?new = drop (rb_size ?rb) ?chunk"
    using fits slot q assms(8,9) by (intro nth_equalityI) (auto simp: nth_segment nth_overwrite)
  moreover have "drop k ?new = drop k (segment ?q (rb_size ?rb) ?buf)"
    using fits slot q assms(8,9) by (intro nth_equalityI) (auto simp: nth_segment nth_overwrite)
  ultimately show ?thesis using img new read_slot_wf [OF assms(4), of nxt] by auto
qed

definition wide_slots :: Communicator where
  "wide_slots = \<lparr>comm_buffer = \<lparr>rb_n_slots = 2, rb_data_bytes = 64, rb_buffer_bytes = 128, rb_buffer = replicate 128 0\<rparr>,
     comm_sent = []\<rparr>"

definition good_meta :: ImageMetadata where
  "good_meta = default_ImageMetadata\<lparr>im_image_id := 2, im_status := st_good_image\<rparr>"

definition fresh_compressor :: bshuf_compressor where
  "fresh_compressor = \<lparr>bc_converted_bytes = 32, bc_sender = wide_slots,
     bc_stats = \<lparr>sc_detector_name = ''stage.GF'', sc_period = 10, sc_last_update_time = 0, processed_times = 0, source_suffix = [],
                 previous_time = 0, cs_image_size = 32, compressed_images = 0, compressed_size = 0\<rparr>\<rparr>"

lemma plain_chunk:
  assumes "length xs = 32"
  shows "length (h5_chunk plain_env 2 0 xs) = 49"
  using assms by (simp add: h5_chunk_def compressed_def blocks_def block_elems_def bshuf_default_block_size_def
    BSHUF_BLOCKED_MULT_def BSHUF_MIN_RECOMMEND_BLOCK_def BSHUF_TARGET_BLOCK_SIZE_B_def frame_def lz_block_def plain_env_def plain_lz4_def)

lemma plain_args: "bshuf_args_ok (small_config\<lparr>bit_depth := 16\<rparr>) 0 2"
  by (simp add: bshuf_args_ok_def sizes_ok_def block_elems_def bshuf_default_block_size_def BSHUF_BLOCKED_MULT_def
    BSHUF_MIN_RECOMMEND_BLOCK_def BSHUF_TARGET_BLOCK_SIZE_B_def LZ4_MAX_INPUT_SIZE_def)

theorem compressed_image_readable_witness:
  "\<exists>bc' ys. compress_bshuf_turn (\<lambda>_. good_meta) (\<lambda>m. u64_bytes (im_size m)) plain_env (small_config\<lparr>bit_depth := 16\<rparr>) 0
      (slots_of (map word_of_nat [0..<32])) (Some [8]) fresh_compressor = Inr bc' \<and>
    comm_sent (bc_sender bc') = [u64_bytes 49] \<and> read_slot (comm_buffer (bc_sender bc')) 2 = Inr ys \<and>
    bshuf_h5_filter plain_env True [0, 4, 2, 0, BSHUF_H5_COMPRESS_LZ4] 49 ys = Inr (Some (32, map word_of_nat [0..<32]))"
proof -
  let ?xs = "map word_of_nat [0..<32] :: byte list"
  have len: "length ?xs = 32" "?xs \<noteq> []" by simp_all
  have r: "rb_wf (comm_buffer (slots_of ?xs))" "rb_size (comm_buffer (slots_of ?xs)) = 32" "rb_data_bytes (comm_buffer (slots_of ?xs)) = 32"
    "read_slot (comm_buffer (slots_of ?xs)) 2 = Inr ?xs"
    using slots_of [OF len(1)] by (simp_all add: slots_of_def read_slot_def get_data_def segment_def)
  have w: "rb_wf (comm_buffer (bc_sender fresh_compressor))" "comm_sent (bc_sender fresh_compressor) = []"
    "rb_size (comm_buffer (bc_sender fresh_compressor)) = 64" "bc_converted_bytes fresh_compressor = 32"
    by (simp_all add: fresh_compressor_def wide_slots_def rb_wf_def)
  have g: "im_status good_meta = st_good_image" "im_image_id good_meta = 2" by (simp_all add: good_meta_def)
  have t: "detector_type (small_config\<lparr>bit_depth := 16\<rparr>) \<noteq> ''pco''" by (simp add: small_config_def example_config_def)
  show ?thesis
    using compressed_image_readable [where parse = "\<lambda>_. good_meta" and ser = "\<lambda>m. u64_bytes (im_size m)" and m = "[8]" and xs = ?xs,
        OF plain_env_ok plain_args r(1) w(1) t] plain_chunk [OF len(1)] len r(2-4) w(2-4) g
    by (auto simp: META_BUFFER_def)
qed

theorem compressed_image_overflows_witness:
  "\<exists>n sender' old new. compress_bshuf_image plain_env 16 0 32 0 (slots_of (map word_of_nat [0..<32])) (slots_of (replicate 32 0)) = Inr (n, sender') \<and>
    read_slot (comm_buffer (slots_of (replicate 32 0))) 1 = Inr old \<and> read_slot (comm_buffer sender') 1 = Inr new \<and>
    take 17 new = drop 32 (h5_chunk plain_env 2 0 (map word_of_nat [0..<32]))"
proof -
  let ?xs = "map word_of_nat [0..<32] :: byte list"
  have len: "length ?xs = 32" by simp
  have r: "rb_wf (comm_buffer (slots_of ?xs))" "rb_size (comm_buffer (slots_of ?xs)) = 32" "rb_data_bytes (comm_buffer (slots_of ?xs)) = 32"
    "read_slot (comm_buffer (slots_of ?xs)) 0 = Inr ?xs"
    using slots_of [OF len] by (simp_all add: slots_of_def)
  have s: "rb_wf (comm_buffer (slots_of (replicate 32 0)))" using slots_of(1) [of "replicate 32 0"] by simp
  have "rb_slot (comm_buffer (slots_of (replicate 32 0))) 1 = rb_slot (comm_buffer (slots_of (replicate 32 0))) 0 + 1"
    "rb_size (comm_buffer (slots_of (replicate 32 0))) = 32" by (simp_all add: slots_of_def)
  then show ?thesis
    using compressed_image_overflows [where xs = ?xs and img = 0 and nxt = 1 and k = 17, OF plain_env_ok plain_args r(1) s] plain_chunk [OF len] r(2-4)
    by auto
qed

section \<open>Deviations\<close>

text \<open>The number of cores must be even, although the message names 1.\<close>

lemma single_core_rejected: "check_threads 1 = Inl (RuntimeError ''Unsupported number of cores! Use 1,2,4,8 ...'')"
  by (simp add: check_threads_def)

text \<open>With a PCO detector the number of bytes comes from the metadata of each image; it is not compared with the size
  of the slots, and the statistics keep the size of the configuration.\<close>

lemma pco_takes_size:
  assumes "detector_type config = ''pco''" and "compress_bshuf_turn parse ser env config block_size receiver (Some m) bc = Inr bc'"
    and "m \<noteq> []" and "im_status (parse m) = st_good_image"
  shows "bc_converted_bytes bc' = im_size (parse m)"
  using assms by (auto simp: compress_bshuf_turn_def received_meta_def bindE_eq_Inr Let_def split: if_splits)

end
