(* ===== verification/UdpSockets.thy ===== *)
theory UdpSockets
  imports DetectorConfig Formats
begin

text \<open>
  UDP sockets: \<open>std-udp-recv/packet_udp_receiver\<close>, through which the receivers take their packets, and the
  tools of \<open>std-udp-tools\<close> that write the packets of a detector to files and send them again.

  The operating system is an argument: the return values of the calls that open a socket, the call
  \<open>recvmmsg\<close>, with its documented behaviour as a law, and for every call of \<open>recv\<close> the datagram it delivers.
  A datagram that is longer than the buffer is cut.
\<close>

section \<open>Opening a socket\<close>

record udp_api =
  udp_socket :: int
  udp_set_rcvtimeo :: "int \<Rightarrow> int \<Rightarrow> int"
  udp_set_rcvbuf :: "int \<Rightarrow> int \<Rightarrow> int"
  udp_bind :: "int \<Rightarrow> u16 \<Rightarrow> int"
  udp_connect :: "int \<Rightarrow> u16 \<Rightarrow> int"
  udp_strerror :: string

definition open_udp_socket :: "udp_api \<Rightarrow> int \<Rightarrow> int \<Rightarrow> u16 \<Rightarrow> int res" where
  "open_udp_socket api us_timeout rcvbuf_bytes port =
     (let fd = udp_socket api in
      if fd < 0 then Inl (RuntimeError ''Cannot open socket.'')
      else if udp_set_rcvtimeo api fd us_timeout = - 1
           then Inl (RuntimeError (''Cannot set SO_RCVTIMEO. '' @ udp_strerror api))
      else if udp_set_rcvbuf api fd rcvbuf_bytes = - 1
           then Inl (RuntimeError (''Cannot set SO_RCVBUF. '' @ udp_strerror api))
      else if udp_bind api fd port < 0 then Inl (RuntimeError ''Cannot bind socket.'')
      else Inr fd)"

section \<open>\<open>PacketUdpReceiver\<close>\<close>

definition buffer_udp_rcvbuf_bytes :: int where "buffer_udp_rcvbuf_bytes = 128 * 100 * 8246"
definition buffer_udp_us_timeout :: int where "buffer_udp_us_timeout = 2 * 1000"

text \<open>\<open>recv_buff_ptr_\<close> is the list of \<open>iov_base\<close>, as an offset into the packet buffer, and \<open>iov_len\<close>; \<open>msgs_\<close> the list of
  \<open>msg_iov\<close>, as an index into \<open>recv_buff_ptr_\<close>, and \<open>msg_iovlen\<close>. The addresses of the senders are not looked at.\<close>

record PacketUdpReceiver =
  pur_n_recv_packets :: nat
  pur_n_bytes_packet :: nat
  pur_socket_fd :: int
  pur_packet_buffer :: "byte list"
  pur_recv_buff :: "(nat \<times> nat) list"
  pur_msgs :: "(nat \<times> nat) list"

definition PacketUdpReceiver_bind :: "udp_api \<Rightarrow> u16 \<Rightarrow> PacketUdpReceiver \<Rightarrow> PacketUdpReceiver res" where
  "PacketUdpReceiver_bind api port r =
     (if pur_socket_fd r > - 1 then Inl (RuntimeError ''Socket already bound.'')
      else bindE (open_udp_socket api buffer_udp_us_timeout buffer_udp_rcvbuf_bytes port) (\<lambda>fd.
           Inr (r\<lparr>pur_socket_fd := fd\<rparr>)))"

text \<open>\<open>mem\<close> gives the contents of fresh memory.\<close>

definition PacketUdpReceiver_ctor :: "udp_api \<Rightarrow> (nat \<Rightarrow> byte list) \<Rightarrow> u16 \<Rightarrow> nat \<Rightarrow> nat \<Rightarrow> PacketUdpReceiver res" where
  "PacketUdpReceiver_ctor api mem port n_bytes_packet n_recv_packets =
     bindE (PacketUdpReceiver_bind api port
       \<lparr>pur_n_recv_packets = n_recv_packets, pur_n_bytes_packet = n_bytes_packet, pur_socket_fd = - 1,
        pur_packet_buffer = [], pur_recv_buff = [], pur_msgs = []\<rparr>) (\<lambda>r.
     Inr (r\<lparr>pur_packet_buffer := mem (n_recv_packets * n_bytes_packet),
            pur_recv_buff := map (\<lambda>i. (i * n_bytes_packet, n_bytes_packet)) [0..<n_recv_packets],
            pur_msgs := map (\<lambda>i. (i, 1)) [0..<n_recv_packets]\<rparr>))"

text \<open>\<open>recvmmsg\<close> on a descriptor, for messages with their buffers (offset and length), a number of messages and the
  memory the offsets refer to: its return value and the memory afterwards.\<close>

type_synonym recvmmsg_call = "int \<Rightarrow> (nat \<times> nat) list list \<Rightarrow> nat \<Rightarrow> byte list \<Rightarrow> int \<times> byte list"

definition receive_many :: "recvmmsg_call \<Rightarrow> PacketUdpReceiver \<Rightarrow> int \<times> PacketUdpReceiver" where
  "receive_many recvmmsg r =
     (case recvmmsg (pur_socket_fd r) (map (\<lambda>(i, n). segment i n (pur_recv_buff r)) (pur_msgs r))
             (pur_n_recv_packets r) (pur_packet_buffer r) of
        (n, mem) \<Rightarrow> (n, r\<lparr>pur_packet_buffer := mem\<rparr>))"

definition PacketUdpReceiver_disconnect :: "PacketUdpReceiver \<Rightarrow> PacketUdpReceiver" where
  "PacketUdpReceiver_disconnect r = r\<lparr>pur_socket_fd := - 1\<rparr>"

text \<open>\<open>packet_buffer[i_packet]\<close> of the receivers, before it is read as a structure.\<close>

definition packet_bytes :: "PacketUdpReceiver \<Rightarrow> nat \<Rightarrow> byte list" where
  "packet_bytes r i = segment (i * pur_n_bytes_packet r) (pur_n_bytes_packet r) (pur_packet_buffer r)"

section \<open>The law of \<open>recvmmsg\<close>\<close>

text \<open>The \<open>i\<close>-th datagram is stored at address \<open>a\<close>: in the only buffer of the \<open>i\<close>-th message, cut to its length.\<close>

definition stores :: "(nat \<times> nat) list list \<Rightarrow> byte list list \<Rightarrow> nat \<Rightarrow> nat \<Rightarrow> bool" where
  "stores msgs ds i a \<longleftrightarrow>
     (case hd (msgs ! i) of (base, len) \<Rightarrow> base \<le> a \<and> a < base + min len (length (ds ! i)))"

text \<open>With the datagrams \<open>ds\<close> at the socket, a call for messages with one buffer each fails or times out and stores nothing, or
  stores the datagrams in the messages one by one, as many as there are of both, and returns their number. Other bytes
  are not changed; nothing is said of bytes that belong to more than one message.\<close>

definition recvmmsg_law :: "recvmmsg_call \<Rightarrow> byte list list \<Rightarrow> bool" where
  "recvmmsg_law call ds \<longleftrightarrow>
     (\<forall>fd msgs vlen mem n mem'.
        vlen \<le> length msgs \<and> (\<forall>i < vlen. \<exists>base len. msgs ! i = [(base, len)] \<and> base + len \<le> length mem) \<and>
        call fd msgs vlen mem = (n, mem') \<longrightarrow>
        n = - 1 \<and> mem' = mem \<or>
        n = int (min vlen (length ds)) \<and> length mem' = length mem \<and>
        (\<forall>a < length mem. (\<forall>i < nat n. \<not> stores msgs ds i a) \<longrightarrow> mem' ! a = mem ! a) \<and>
        (\<forall>i < nat n. \<forall>a. stores msgs ds i a \<and> (\<forall>k < nat n. k \<noteq> i \<longrightarrow> \<not> stores msgs ds k a) \<longrightarrow>
           mem' ! a = ds ! i ! (a - fst (hd (msgs ! i)))))"

section \<open>The packets of a receiver\<close>

definition pur_ok :: "nat \<Rightarrow> nat \<Rightarrow> PacketUdpReceiver \<Rightarrow> bool" where
  "pur_ok nb n r \<longleftrightarrow> pur_n_recv_packets r = n \<and> pur_n_bytes_packet r = nb \<and> length (pur_packet_buffer r) = n * nb \<and>
     pur_recv_buff r = map (\<lambda>i. (i * nb, nb)) [0..<n] \<and> pur_msgs r = map (\<lambda>i. (i, 1)) [0..<n]"

lemma PacketUdpReceiver_ctor_ok:
  assumes "PacketUdpReceiver_ctor api mem port nb n = Inr r" and "\<And>k. length (mem k) = k"
  shows "pur_ok nb n r \<and> 0 \<le> pur_socket_fd r \<and> PacketUdpReceiver_bind api port r = Inl (RuntimeError ''Socket already bound.'')"
  using assms
  by (auto simp: PacketUdpReceiver_ctor_def PacketUdpReceiver_bind_def open_udp_socket_def bindE_eq_Inr pur_ok_def Let_def
    split: if_splits)

lemma pur_buffers:
  assumes "pur_ok nb n r"
  shows "map (\<lambda>(i, n). segment i n (pur_recv_buff r)) (pur_msgs r) = map (\<lambda>i. [(i * nb, nb)]) [0..<n]"
  using assms by (auto simp: pur_ok_def segment_def take_map drop_map)

lemma stores_packet:
  assumes "i < n" and "k < n" and "j < nb"
  shows "stores (map (\<lambda>i. [(i * nb, nb)]) [0..<n]) ds k (i * nb + j) \<longleftrightarrow> k = i \<and> j < length (ds ! i)"
proof -
  have "k = i" if "k * nb \<le> i * nb + j" "i * nb + j < k * nb + nb"
  proof -
    have "(i * nb + j) div nb = k" using that assms(3) by (intro div_nat_eqI) (simp_all add: mult.commute)
    then show ?thesis using assms(3) by simp
  qed
  moreover have "stores (map (\<lambda>i. [(i * nb, nb)]) [0..<n]) ds k (i * nb + j) \<longleftrightarrow>
      k * nb \<le> i * nb + j \<and> i * nb + j < k * nb + min nb (length (ds ! k))"
    using assms(2) by (simp add: stores_def)
  ultimately show ?thesis using assms(3) by fastforce
qed

lemma receive_many_stores:
  assumes "pur_ok nb n r" and "recvmmsg_law call ds" and "receive_many call r = (k, r')"
  shows "pur_ok nb n r' \<and> (k = - 1 \<and> r' = r \<or> k = int (min n (length ds)) \<and>
    (\<forall>i < n. packet_bytes r' i = (if i < length ds
       then take nb (ds ! i) @ drop (length (take nb (ds ! i))) (packet_bytes r i) else packet_bytes r i)))"
proof -
  let ?msgs = "map (\<lambda>i. [(i * nb, nb)]) [0..<n]" and ?buf = "pur_packet_buffer r"
  have r: "pur_n_recv_packets r = n" "pur_n_bytes_packet r = nb" "length ?buf = n * nb"
    using assms(1) by (simp_all add: pur_ok_def)
  obtain mem where mem: "call (pur_socket_fd r) ?msgs n ?buf = (k, mem)" "r' = r\<lparr>pur_packet_buffer := mem\<rparr>"
    using assms(3) r(1) pur_buffers [OF assms(1)] by (auto simp: receive_many_def split: prod.splits)
  have fits: "i * nb + nb \<le> n * nb" if "i < n" for i using mult_le_mono1 [of "Suc i" n nb] that by simp
  then have "n \<le> length ?msgs \<and> (\<forall>i < n. \<exists>base len. ?msgs ! i = [(base, len)] \<and> base + len \<le> length ?buf)"
    using r(3) by simp
  then have law: "k = - 1 \<and> mem = ?buf \<or> k = int (min n (length ds)) \<and> length mem = length ?buf \<and>
      (\<forall>a < length ?buf. (\<forall>i < nat k. \<not> stores ?msgs ds i a) \<longrightarrow> mem ! a = ?buf ! a) \<and>
      (\<forall>i < nat k. \<forall>a. stores ?msgs ds i a \<and> (\<forall>l < nat k. l \<noteq> i \<longrightarrow> \<not> stores ?msgs ds l a) \<longrightarrow>
         mem ! a = ds ! i ! (a - fst (hd (?msgs ! i))))"
    using assms(2) mem(1) unfolding recvmmsg_law_def by blast
  show ?thesis
  proof (cases "k = - 1 \<and> mem = ?buf")
    case True
    then show ?thesis using mem(2) assms(1) by simp
  next
    case False
    with law have k: "k = int (min n (length ds))" "length mem = length ?buf"
      and keep: "\<And>a. a < length ?buf \<Longrightarrow> \<forall>i < nat k. \<not> stores ?msgs ds i a \<Longrightarrow> mem ! a = ?buf ! a"
      and store: "\<And>i a. i < nat k \<Longrightarrow> stores ?msgs ds i a \<Longrightarrow> \<forall>l < nat k. l \<noteq> i \<longrightarrow> \<not> stores ?msgs ds l a \<Longrightarrow>
        mem ! a = ds ! i ! (a - fst (hd (?msgs ! i)))"
      by blast+
    have byte: "mem ! (i * nb + j) = (if i < length ds \<and> j < length (ds ! i) then ds ! i ! j else ?buf ! (i * nb + j))"
      if "i < n" "j < nb" for i j
    proof -
      have st: "stores ?msgs ds l (i * nb + j) \<longleftrightarrow> l = i \<and> j < length (ds ! i)" if "l < nat k" for l
        using stores_packet [OF \<open>i < n\<close> _ \<open>j < nb\<close>] that k(1) by simp
      show ?thesis
      proof (cases "i < length ds \<and> j < length (ds ! i)")
        case True
        then have "i < nat k" using k(1) \<open>i < n\<close> by simp
        from store [OF this, of "i * nb + j"] True st this \<open>i < n\<close> show ?thesis by simp
      next
        case False
        then have "\<forall>l < nat k. \<not> stores ?msgs ds l (i * nb + j)" using st k(1) by auto
        then have "mem ! (i * nb + j) = ?buf ! (i * nb + j)" using keep [of "i * nb + j"] fits [OF \<open>i < n\<close>] \<open>j < nb\<close> r(3) by simp
        then show ?thesis using False by presburger
      qed
    qed
    have "segment (i * nb) nb mem = (if i < length ds
        then take nb (ds ! i) @ drop (length (take nb (ds ! i))) (segment (i * nb) nb ?buf) else segment (i * nb) nb ?buf)"
      if "i < n" for i
      using byte [OF that] fits [OF that] r(3) k(2)
      by (intro nth_equalityI) (auto simp: nth_segment nth_append)
    then show ?thesis using k mem(2) assms(1) r(2) by (simp add: packet_bytes_def pur_ok_def)
  qed
qed

text \<open>Earlier calls, each with its own datagrams.\<close>

definition receive_before :: "recvmmsg_call list \<Rightarrow> PacketUdpReceiver \<Rightarrow> PacketUdpReceiver" where
  "receive_before calls r = fold (\<lambda>call r. snd (receive_many call r)) calls r"

lemma receive_before_ok:
  assumes "pur_ok nb n r" and "\<forall>call \<in> set calls. \<exists>ds. recvmmsg_law call ds"
  shows "pur_ok nb n (receive_before calls r)"
  using assms
proof (induction calls arbitrary: r)
  case (Cons call calls)
  have "pur_ok nb n (snd (receive_many call r))"
    using Cons.prems receive_many_stores [of nb n r call] by (cases "receive_many call r") auto
  then show ?case using Cons by (simp add: receive_before_def)
qed (simp add: receive_before_def)

text \<open>C38. A receiver is constructed for \<open>n\<close> packets of \<open>nb\<close> bytes and has received any number of times. If the next call
  finds the datagrams \<open>ds\<close> and does not fail, it returns their number, at most \<open>n\<close>, and the packets that the
  receivers read from the packet buffer, \<open>nb\<close> bytes each, are the datagrams in their order, each cut to \<open>nb\<close> bytes; a
  shorter datagram is completed with what the place held before, since the length that \<open>recvmmsg\<close> reports for it is not looked
  at, and the places behind the last datagram are unchanged. The behaviour of \<open>recvmmsg\<close> is assumed as documented.\<close>

theorem receive_many_packets:
  assumes "PacketUdpReceiver_ctor api mem port nb n = Inr r0" and "\<forall>k. length (mem k) = k"
    and "\<forall>call \<in> set calls. \<exists>ds. recvmmsg_law call ds" and "r = receive_before calls r0"
    and "recvmmsg_law call ds" and "receive_many call r = (k, r')" and "k \<noteq> - 1"
  shows "k = int (min n (length ds)) \<and>
    (\<forall>i < n. packet_bytes r' i = (if i < length ds
       then let d = take nb (ds ! i) in d @ drop (length d) (packet_bytes r i) else packet_bytes r i))"
proof -
  have "pur_ok nb n r0" using PacketUdpReceiver_ctor_ok [OF assms(1)] assms(2) by blast
  then have "pur_ok nb n r" unfolding assms(4) by (rule receive_before_ok [OF _ assms(3)])
  from receive_many_stores [OF this assms(5,6)] assms(7) show ?thesis by (simp add: Let_def)
qed

text \<open>A kernel that stores every datagram.\<close>

definition store_all :: "byte list list \<Rightarrow> recvmmsg_call" where
  "store_all ds fd msgs vlen mem =
     (let n = min vlen (length ds) in
      (int n, map (\<lambda>a. case find (\<lambda>i. stores msgs ds i a) [0..<n] of
                         None \<Rightarrow> mem ! a
                       | Some i \<Rightarrow> ds ! i ! (a - fst (hd (msgs ! i)))) [0..<length mem]))"

lemma store_all_law: "recvmmsg_law (store_all ds) ds"
  unfolding recvmmsg_law_def
proof (intro allI impI disjI2)
  fix fd msgs vlen mem n mem'
  assume a: "vlen \<le> length msgs \<and> (\<forall>i < vlen. \<exists>base len. msgs ! i = [(base, len)] \<and> base + len \<le> length mem) \<and>
    store_all ds fd msgs vlen mem = (n, mem')"
  let ?at = "\<lambda>a. find (\<lambda>i. stores msgs ds i a) [0..<nat n]"
  have n: "n = int (min vlen (length ds))" and mem': "length mem' = length mem"
    "\<And>a. a < length mem \<Longrightarrow> mem' ! a = (case ?at a of None \<Rightarrow> mem ! a | Some i \<Rightarrow> ds ! i ! (a - fst (hd (msgs ! i))))"
    using a by (auto simp: store_all_def Let_def split: option.splits)
  have "mem' ! a = mem ! a" if "a < length mem" "\<forall>i < nat n. \<not> stores msgs ds i a" for a
  proof -
    have "?at a = None" using that(2) by (simp add: find_None_iff)
    then show ?thesis using mem'(2) [OF that(1)] by simp
  qed
  moreover have "mem' ! a = ds ! i ! (a - fst (hd (msgs ! i)))"
    if st: "i < nat n" "stores msgs ds i a" "\<forall>k < nat n. k \<noteq> i \<longrightarrow> \<not> stores msgs ds k a" for i a
  proof -
    obtain base len where m: "msgs ! i = [(base, len)]" "base + len \<le> length mem" using a st(1) n by auto
    then have "a < length mem" using st(2) by (auto simp: stores_def)
    moreover have "?at a \<noteq> None" using st(1,2) by (auto simp: find_None_iff)
    then obtain l where l: "?at a = Some l" by blast
    then have "l < nat n" "stores msgs ds l a" by (auto simp: find_Some_iff)
    then have "?at a = Some i" using st(3) l by auto
    ultimately show ?thesis using mem'(2) by simp
  qed
  ultimately show "n = int (min vlen (length ds)) \<and> length mem' = length mem \<and>
      (\<forall>a < length mem. (\<forall>i < nat n. \<not> stores msgs ds i a) \<longrightarrow> mem' ! a = mem ! a) \<and>
      (\<forall>i < nat n. \<forall>a. stores msgs ds i a \<and> (\<forall>k < nat n. k \<noteq> i \<longrightarrow> \<not> stores msgs ds k a) \<longrightarrow>
         mem' ! a = ds ! i ! (a - fst (hd (msgs ! i))))"
    using n mem'(1) by blast
qed

definition plain_udp :: udp_api where
  "plain_udp = \<lparr>udp_socket = 5, udp_set_rcvtimeo = (\<lambda>_ _. 0), udp_set_rcvbuf = (\<lambda>_ _. 0), udp_bind = (\<lambda>_ _. 0),
     udp_connect = (\<lambda>_ _. 0), udp_strerror = []\<rparr>"

text \<open>Two packets of three bytes: the second time, the first datagram is too long and there is no second one.\<close>

theorem receive_many_packets_witness:
  "\<exists>r0 r r'. PacketUdpReceiver_ctor plain_udp (\<lambda>k. replicate k 0) 50000 3 2 = Inr r0 \<and>
    receive_many (store_all [[1, 2, 3], [4]]) r0 = (2, r) \<and> receive_many (store_all [[7, 8, 9, 10]]) r = (1, r') \<and>
    packet_bytes r 1 = [4, 0, 0] \<and> packet_bytes r' 0 = [7, 8, 9] \<and> packet_bytes r' 1 = [4, 0, 0]"
proof -
  obtain r0 where r0: "PacketUdpReceiver_ctor plain_udp (\<lambda>k. replicate k 0) 50000 3 2 = Inr r0"
    "packet_bytes r0 0 = [0, 0, 0]" "packet_bytes r0 1 = [0, 0, 0]"
    by (simp add: PacketUdpReceiver_ctor_def PacketUdpReceiver_bind_def open_udp_socket_def plain_udp_def packet_bytes_def
      segment_def Let_def numeral_eq_Suc)
  obtain k r where r: "receive_many (store_all [[1, 2, 3], [4]]) r0 = (k, r)" by (rule prod.exhaust)
  obtain k' r' where r': "receive_many (store_all [[7, 8, 9, 10]]) r = (k', r')" by (rule prod.exhaust)
  have k: "k \<noteq> - 1" "k' \<noteq> - 1" using r r' by (auto simp: receive_many_def store_all_def Let_def split: prod.splits)
  have mem: "\<forall>k. length (replicate k (0 :: byte)) = k" by simp
  have before: "r0 = receive_before [] r0" "r = receive_before [store_all [[1, 2, 3], [4]]] r0"
    using r by (simp_all add: receive_before_def)
  have "\<forall>call \<in> set []. \<exists>ds. recvmmsg_law call ds" "\<forall>call \<in> set [store_all [[1, 2, 3], [4]]]. \<exists>ds. recvmmsg_law call ds"
    using store_all_law by auto
  from receive_many_packets [OF r0(1) mem this(1) before(1) store_all_law r k(1)]
    receive_many_packets [OF r0(1) mem this(2) before(2) store_all_law r' k(2)] r0 r r'
  show ?thesis by (auto simp: Let_def)
qed

end
