(* ===== verification/UdpTools.thy ===== *)
theory UdpTools
  imports UdpSockets
begin

text \<open>
  \<open>std-udp-tools\<close>: \<open>std_udp_dump\<close> writes the packets that arrive for every module to a file, \<open>std_udp_replay\<close>
  sends the packets of such files again. One thread per module; the threads share nothing but the flag
  that ends them (the mutex of the replay is locked and released at once).
\<close>

section \<open>\<open>std_udp_dump\<close>\<close>

definition UDP_BUFFER_MAX_SIZE :: nat where "UDP_BUFFER_MAX_SIZE = 1024 * 10"
definition DUMP_UDP_US_TIMEOUT :: int where "DUMP_UDP_US_TIMEOUT = 1000 * 100"
definition DUMP_UDP_RCVBUF_BYTES :: int where "DUMP_UDP_RCVBUF_BYTES = 1024 * 1024 * 20"
definition EAGAIN :: int where "EAGAIN = 11"

definition bind_udp_socket :: "udp_api \<Rightarrow> u16 \<Rightarrow> int res" where
  "bind_udp_socket api udp_port = open_udp_socket api DUMP_UDP_US_TIMEOUT DUMP_UDP_RCVBUF_BYTES udp_port"

definition dump_file_name :: "u16 \<Rightarrow> string" where
  "dump_file_name udp_port = dec_digits (unat udp_port) @ ''.dat''"

text \<open>What a call of \<open>recv\<close> meets: an error with its number, or a datagram.\<close>

datatype recv_result = RecvError int | Datagram "byte list"

record dump_state =
  dump_file :: "byte list"
  dump_n_packets :: nat

definition receive_and_dump_turn :: "recv_result \<Rightarrow> dump_state \<Rightarrow> dump_state res" where
  "receive_and_dump_turn ev st =
     (case ev of
        RecvError e \<Rightarrow> if e = EAGAIN then Inr st else Inl (RuntimeError (''Cannot recv from socket, error: '' @ dec_digits (nat e)))
      | Datagram d \<Rightarrow>
          let buffer = take UDP_BUFFER_MAX_SIZE d; n_recv_bytes = length buffer in
          if n_recv_bytes = UDP_BUFFER_MAX_SIZE then Inl (RuntimeError ''Current udp buffer to small for received packet.'')
          else Inr (st\<lparr>dump_n_packets := dump_n_packets st + 1,
                       dump_file := dump_file st @ u64_bytes (word_of_nat n_recv_bytes) @ buffer\<rparr>))"

text \<open>The file is truncated when it is opened.\<close>

definition receive_and_dump_start :: "udp_api \<Rightarrow> u16 \<Rightarrow> dump_state res" where
  "receive_and_dump_start api udp_port =
     bindE (bind_udp_socket api udp_port) (\<lambda>fd. Inr \<lparr>dump_file = [], dump_n_packets = 0\<rparr>)"

text \<open>The ports of the threads of \<open>main\<close>, in both tools.\<close>

definition module_ports :: "DetectorConfig \<Rightarrow> u16 list" where
  "module_ports config = map (\<lambda>i. word_of_int (uint (start_udp_port config) + int i)) [0..<nat (n_modules config)]"

section \<open>\<open>std_udp_replay\<close>\<close>

definition connect_udp_socket :: "udp_api \<Rightarrow> u16 \<Rightarrow> int res" where
  "connect_udp_socket api udp_port =
     (let fd = udp_socket api in
      if fd < 0 then Inl (RuntimeError ''Cannot open socket.'')
      else if udp_connect api fd udp_port < 0 then Inl (RuntimeError ''Cannot connect socket.'')
      else Inr fd)"

definition replay_file_name :: "string \<Rightarrow> u16 \<Rightarrow> string" where
  "replay_file_name path_folder udp_port = path_folder @ ''/'' @ dump_file_name udp_port"

text \<open>\<open>std::ifstream\<close>: \<open>read\<close> takes what is there when it asks for too much, and fails; a stream that has failed
  (or whose file could not be opened) reads nothing.\<close>

record ifstream =
  ifs_rest :: "byte list"
  ifs_failed :: bool

definition ifs_open :: "byte list option \<Rightarrow> ifstream" where
  "ifs_open contents = (case contents of None \<Rightarrow> \<lparr>ifs_rest = [], ifs_failed = True\<rparr> | Some c \<Rightarrow> \<lparr>ifs_rest = c, ifs_failed = False\<rparr>)"

definition ifs_read :: "nat \<Rightarrow> ifstream \<Rightarrow> byte list \<times> ifstream" where
  "ifs_read n f =
     (if ifs_failed f then ([], f)
      else (take n (ifs_rest f), f\<lparr>ifs_rest := drop n (ifs_rest f), ifs_failed := length (ifs_rest f) < n\<rparr>))"

record replay_state =
  rp_file :: ifstream
  rp_buffer :: "byte list"
  rp_n_packets :: nat
  rp_sent :: "byte list list"

text \<open>One turn of \<open>read_and_send\<close>; \<open>snd\<close> is the return value of \<open>send\<close> for a datagram. The message of the
  first exception shows the port where the error number is announced.\<close>

definition read_and_send_turn :: "(byte list \<Rightarrow> int) \<Rightarrow> u16 \<Rightarrow> replay_state \<Rightarrow> replay_state res" where
  "read_and_send_turn sendto udp_port st =
     (case ifs_read 8 (rp_file st) of (header, f1) \<Rightarrow>
      let n_packet_bytes = bytes_u64 (overwrite 0 header (replicate 8 0)) in
      (case ifs_read (unat n_packet_bytes) f1 of (data, f2) \<Rightarrow>
       if length (rp_buffer st) < unat n_packet_bytes then Inl (Undefined ''access behind the buffer'')
       else let buffer = overwrite 0 data (rp_buffer st); packet = take (unat n_packet_bytes) buffer; n_sent_bytes = sendto packet in
         if n_sent_bytes < 0 then Inl (RuntimeError (''Cannot send on socket, error: '' @ dec_digits (unat udp_port)))
         else if n_sent_bytes \<noteq> to_int32 (unat n_packet_bytes) then Inl (RuntimeError ''Sent wrong number of bytes.'')
         else Inr (st\<lparr>rp_file := f2, rp_buffer := buffer, rp_n_packets := rp_n_packets st + 1, rp_sent := rp_sent st @ [packet]\<rparr>)))"

definition read_and_send_start :: "udp_api \<Rightarrow> (nat \<Rightarrow> byte list) \<Rightarrow> byte list option \<Rightarrow> u16 \<Rightarrow> replay_state res" where
  "read_and_send_start api mem contents udp_port =
     bindE (connect_udp_socket api udp_port) (\<lambda>fd.
     Inr \<lparr>rp_file = ifs_open contents, rp_buffer = mem UDP_BUFFER_MAX_SIZE, rp_n_packets = 0, rp_sent = []\<rparr>)"

section \<open>Files\<close>

definition dump_of :: "byte list list \<Rightarrow> byte list" where
  "dump_of ds = concat (map (\<lambda>d. u64_bytes (word_of_nat (length d)) @ d) ds)"

fun datagrams :: "recv_result list \<Rightarrow> byte list list" where
  "datagrams [] = []"
| "datagrams (RecvError e # evs) = datagrams evs"
| "datagrams (Datagram d # evs) = d # datagrams evs"

definition harmless :: "recv_result \<Rightarrow> bool" where
  "harmless ev = (case ev of RecvError e \<Rightarrow> e = EAGAIN | Datagram d \<Rightarrow> length d < UDP_BUFFER_MAX_SIZE)"

lemma dump_turns:
  assumes "list_all harmless evs"
  shows "forE receive_and_dump_turn evs st =
    Inr (st\<lparr>dump_file := dump_file st @ dump_of (datagrams evs), dump_n_packets := dump_n_packets st + length (datagrams evs)\<rparr>)"
  using assms
proof (induction evs arbitrary: st)
  case (Cons ev evs)
  then show ?case
    by (cases ev) (simp_all add: receive_and_dump_turn_def harmless_def dump_of_def Let_def)
qed (simp add: dump_of_def)

text \<open>The law of \<open>send\<close> on a datagram socket: a datagram is sent as a whole.\<close>

definition sends_whole :: "(byte list \<Rightarrow> int) \<Rightarrow> bool" where
  "sends_whole sendto \<longleftrightarrow> (\<forall>d. length d < UDP_BUFFER_MAX_SIZE \<longrightarrow> sendto d = int (length d))"

lemma replay_packet:
  assumes "sends_whole sendto" and "length d < UDP_BUFFER_MAX_SIZE" and "length (rp_buffer st) = UDP_BUFFER_MAX_SIZE"
    and "rp_file st = \<lparr>ifs_rest = u64_bytes (word_of_nat (length d)) @ d @ rest, ifs_failed = False\<rparr>"
  shows "\<exists>st'. read_and_send_turn sendto port st = Inr st' \<and> rp_file st' = \<lparr>ifs_rest = rest, ifs_failed = False\<rparr> \<and>
    length (rp_buffer st') = UDP_BUFFER_MAX_SIZE \<and> rp_sent st' = rp_sent st @ [d]"
proof -
  have small: "length d < 10240" using assms(2) by (simp add: UDP_BUFFER_MAX_SIZE_def)
  have n: "unat (word_of_nat (length d) :: u64) = length d" using small by (simp add: unat_of_nat take_bit_nat_eq_self)
  have header: "overwrite 0 (u64_bytes (word_of_nat (length d))) (replicate 8 0) = u64_bytes (word_of_nat (length d))"
    by (simp add: overwrite_def)
  have "to_int32 (length d) = int (length d)" using small by (intro to_int32_small) simp
  then show ?thesis using assms n header
    by (simp add: read_and_send_turn_def ifs_read_def Let_def overwrite_def sends_whole_def)
qed

lemma replay_packets:
  assumes "sends_whole sendto" and "list_all (\<lambda>d. length d < UDP_BUFFER_MAX_SIZE) ds" and "length (rp_buffer st) = UDP_BUFFER_MAX_SIZE"
    and "rp_file st = \<lparr>ifs_rest = dump_of ds, ifs_failed = False\<rparr>"
  shows "\<exists>st'. forE (\<lambda>_. read_and_send_turn sendto port) (replicate (length ds) ()) st = Inr st' \<and>
    rp_file st' = \<lparr>ifs_rest = [], ifs_failed = False\<rparr> \<and> length (rp_buffer st') = UDP_BUFFER_MAX_SIZE \<and> rp_sent st' = rp_sent st @ ds"
  using assms(2-)
proof (induction ds arbitrary: st)
  case (Cons d ds)
  obtain st1 where st1: "read_and_send_turn sendto port st = Inr st1" "rp_file st1 = \<lparr>ifs_rest = dump_of ds, ifs_failed = False\<rparr>"
    "length (rp_buffer st1) = UDP_BUFFER_MAX_SIZE" "rp_sent st1 = rp_sent st @ [d]"
    using replay_packet [OF assms(1), of d st "dump_of ds" port] Cons.prems by (auto simp: dump_of_def)
  then show ?case using Cons.IH [of st1] Cons.prems by auto
qed (simp add: dump_of_def)

text \<open>At the end of the file both reads fail, the length stays zero, and an empty datagram is sent.\<close>

lemma replay_end:
  assumes "sends_whole sendto" and "ifs_rest (rp_file st) = []" and "length (rp_buffer st) = UDP_BUFFER_MAX_SIZE"
  shows "\<exists>st'. forE (\<lambda>_. read_and_send_turn sendto port) (replicate k ()) st = Inr st' \<and> rp_sent st' = rp_sent st @ replicate k []"
  using assms(2,3)
proof (induction k arbitrary: st)
  case (Suc k)
  have zero: "bytes_u64 (replicate 8 0) = 0" by (simp add: bytes_u64_def numeral_eq_Suc)
  have "sendto [] = 0" using assms(1) by (simp add: sends_whole_def UDP_BUFFER_MAX_SIZE_def)
  moreover have "to_int32 0 = 0" using to_int32_small [of 0] by simp
  moreover obtain f1 f2 where "ifs_read 8 (rp_file st) = ([], f1)" "ifs_read 0 f1 = ([], f2)" "ifs_rest f2 = []"
    using Suc.prems(1) by (cases "ifs_failed (rp_file st)") (auto simp: ifs_read_def)
  ultimately obtain st1 where st1: "read_and_send_turn sendto port st = Inr st1" "ifs_rest (rp_file st1) = []"
    "length (rp_buffer st1) = UDP_BUFFER_MAX_SIZE" "rp_sent st1 = rp_sent st @ [[]]"
    using Suc.prems(2) zero by (auto simp: read_and_send_turn_def Let_def overwrite_def)
  then show ?case using Suc.IH [of st1] by auto
qed simp

text \<open>C37. The packets that the dump has received for a port, whatever timeouts came between them, are sent again by
  the replay, in their order and unchanged. When the file is at its end the replay does not stop: every
  further turn sends an empty datagram.\<close>

theorem udp_dump_replay:
  assumes "list_all harmless evs" and "sends_whole sendto" and "\<And>n. length (mem n) = n"
    and "receive_and_dump_start api port = Inr st0" and "connect_udp_socket api' port = Inr fd"
  shows "\<exists>st rp rp'. forE receive_and_dump_turn evs st0 = Inr st \<and> dump_n_packets st = length (datagrams evs) \<and>
    read_and_send_start api' mem (Some (dump_file st)) port = Inr rp \<and>
    forE (\<lambda>_. read_and_send_turn sendto port) (replicate (dump_n_packets st + k) ()) rp = Inr rp' \<and>
    rp_sent rp' = datagrams evs @ replicate k []"
proof -
  let ?ds = "datagrams evs"
  define st where "st = \<lparr>dump_file = dump_of ?ds, dump_n_packets = length ?ds\<rparr>"
  have "st0 = \<lparr>dump_file = [], dump_n_packets = 0\<rparr>" using assms(4) by (auto simp: receive_and_dump_start_def bindE_eq_Inr)
  then have st: "forE receive_and_dump_turn evs st0 = Inr st" using dump_turns [OF assms(1), of st0] by (simp add: st_def)
  have ds: "list_all (\<lambda>d. length d < UDP_BUFFER_MAX_SIZE) ?ds"
    using assms(1) by (induction evs rule: datagrams.induct) (simp_all add: harmless_def)
  define rp where "rp = \<lparr>rp_file = ifs_open (Some (dump_file st)), rp_buffer = mem UDP_BUFFER_MAX_SIZE, rp_n_packets = 0, rp_sent = []\<rparr>"
  have rp: "read_and_send_start api' mem (Some (dump_file st)) port = Inr rp" using assms(5) by (simp add: read_and_send_start_def rp_def)
  obtain rp1 where rp1: "forE (\<lambda>_. read_and_send_turn sendto port) (replicate (length ?ds) ()) rp = Inr rp1"
    "ifs_rest (rp_file rp1) = []" "length (rp_buffer rp1) = UDP_BUFFER_MAX_SIZE" "rp_sent rp1 = ?ds"
    using replay_packets [OF assms(2) ds, of rp port] assms(3) by (auto simp: rp_def ifs_open_def st_def)
  from replay_end [OF assms(2) rp1(2,3), of port k] obtain rp' where
    "forE (\<lambda>_. read_and_send_turn sendto port) (replicate k ()) rp1 = Inr rp'" "rp_sent rp' = ?ds @ replicate k []" using rp1(4) by auto
  then show ?thesis using st rp rp1(1) by (auto simp: replicate_add forE_append st_def)
qed

definition good_udp :: udp_api where
  "good_udp = \<lparr>udp_socket = 3, udp_set_rcvtimeo = (\<lambda>_ _. 0), udp_set_rcvbuf = (\<lambda>_ _. 0), udp_bind = (\<lambda>_ _. 0), udp_connect = (\<lambda>_ _. 0),
     udp_strerror = []\<rparr>"

theorem udp_dump_replay_witness:
  "\<exists>st rp rp'. forE receive_and_dump_turn [Datagram [1, 2, 3], RecvError 11, Datagram [4]] \<lparr>dump_file = [], dump_n_packets = 0\<rparr> = Inr st \<and>
    dump_n_packets st = 2 \<and> read_and_send_start good_udp (\<lambda>n. replicate n 0) (Some (dump_file st)) 2000 = Inr rp \<and>
    forE (\<lambda>_. read_and_send_turn (\<lambda>d. int (length d)) 2000) (replicate (dump_n_packets st + 1) ()) rp = Inr rp' \<and>
    rp_sent rp' = [[1, 2, 3], [4], []]"
proof -
  have "list_all harmless [Datagram [1, 2, 3], RecvError 11, Datagram [4]]"
    by (simp add: harmless_def EAGAIN_def UDP_BUFFER_MAX_SIZE_def)
  moreover have "receive_and_dump_start good_udp 2000 = Inr \<lparr>dump_file = [], dump_n_packets = 0\<rparr>" "connect_udp_socket good_udp 2000 = Inr 3"
    by (simp_all add: receive_and_dump_start_def bind_udp_socket_def open_udp_socket_def connect_udp_socket_def good_udp_def Let_def)
  ultimately show ?thesis
    using udp_dump_replay [of "[Datagram [1, 2, 3], RecvError 11, Datagram [4]]" "\<lambda>d. int (length d)" "\<lambda>n. replicate n 0" good_udp 2000 _ good_udp 3 1]
    by (auto simp: sends_whole_def)
qed

section \<open>Ports\<close>

text \<open>Up to 65536 modules have ports of their own, and so do their files; the ports wrap around behind 65535.\<close>

lemma module_ports_distinct:
  assumes "n_modules config \<le> 2 ^ 16"
  shows "distinct (module_ports config) \<and> distinct (map dump_file_name (module_ports config))"
proof -
  let ?f = "\<lambda>i. word_of_int (uint (start_udp_port config) + int i) :: u16"
  have "inj_on ?f {0..<nat (n_modules config)}"
  proof (rule inj_onI)
    fix i j assume ij: "i \<in> {0..<nat (n_modules config)}" "j \<in> {0..<nat (n_modules config)}" and eq: "?f i = ?f j"
    have lt: "i < 2 ^ 16" "j < 2 ^ 16" using ij assms by auto
    have "(word_of_nat i :: u16) = word_of_nat j" using eq by simp
    then have "unat (word_of_nat i :: u16) = unat (word_of_nat j :: u16)" by simp
    then show "i = j" using lt by (simp add: unat_of_nat take_bit_nat_eq_self)
  qed
  then have "distinct (module_ports config)" by (simp add: module_ports_def distinct_map)
  moreover have "inj dump_file_name" by (rule injI) (auto simp: dump_file_name_def intro: unsigned_word_eqI)
  ultimately show ?thesis by (simp add: distinct_map inj_on_subset [of _ UNIV])
qed

end
