(* ===== verification/Wiring.thy ===== *)
theory Wiring
  imports UdpRecv Streams Converters DetDriver StdBuffer BufferReader BufferDriver
begin

text \<open>
  How the processes are wired: which shared-memory segments and which sockets every \<open>main\<close> opens for a
  configuration, \<open>shm-holder\<close> and \<open>std-chunk-sender\<close> included. A process is started with the arguments of its
  command line; its set-up is the list of what it opens, in order, or the exception that ends it.

  Every process calls \<open>ftruncate\<close> on the segments it opens, so that the last one to start decides about the
  size of the memory all of them have mapped.
\<close>

section \<open>What a process opens\<close>

datatype address = Ipc string | External string

datatype wire =
    Communicate RamBufferConfig CommunicatorConfig
  | Socket zmq_type connection_type address
  | Hold string u64

text \<open>\<open>fmt::format("{}-{}", config.detector_name, suffix)\<close>.\<close>

definition stream_named :: "DetectorConfig \<Rightarrow> string \<Rightarrow> string" where
  "stream_named config suffix = detector_name config @ ''-'' @ suffix"

text \<open>The configuration of a buffer of images, as most processes write it.\<close>

definition image_segment :: "DetectorConfig \<Rightarrow> string \<Rightarrow> RamBufferConfig res" where
  "image_segment config suffix =
     bindE (converted_image_n_bytes config) (\<lambda>n.
     bindE (slots_number config) (\<lambda>slots.
     Inr \<lparr>rbc_buffer_name = stream_named config suffix, rbc_n_bytes_data = n, rbc_n_buffer_slots = slots\<rparr>))"

definition raw_image_segment :: "(DetectorConfig \<Rightarrow> u64 res) \<Rightarrow> DetectorConfig \<Rightarrow> RamBufferConfig res" where
  "raw_image_segment n_bytes config =
     bindE (n_bytes config) (\<lambda>n.
     bindE (slots_number config) (\<lambda>slots.
     Inr \<lparr>rbc_buffer_name = stream_named config ''image'', rbc_n_bytes_data = n, rbc_n_buffer_slots = slots\<rparr>))"

definition module_segment :: "DetectorConfig \<Rightarrow> u16 \<Rightarrow> u64 \<Rightarrow> RamBufferConfig" where
  "module_segment config mid n =
     \<lparr>rbc_buffer_name = stream_named config (dec_digits (unat mid)), rbc_n_bytes_data = n,
      rbc_n_buffer_slots = RECEIVER_RAM_BUFFER_N_SLOTS\<rparr>"

definition stream_config :: "DetectorConfig \<Rightarrow> string \<Rightarrow> connection_type \<Rightarrow> zmq_type \<Rightarrow> CommunicatorConfig" where
  "stream_config config suffix conn ty =
     \<lparr>cc_stream_name = stream_named config suffix, cc_connection_type = conn, cc_zmq_socket_type = ty\<rparr>"

section \<open>Receivers and converters\<close>

definition udp_recv_jf_setup :: "DetectorConfig \<Rightarrow> u16 \<Rightarrow> wire list res" where
  "udp_recv_jf_setup config mid =
     Inr [Communicate (module_segment config mid (word_of_nat (jf_DATA_BYTES_PER_PACKET * jf_N_PACKETS_PER_FRAME)))
            (stream_config config (dec_digits (unat mid)) CONN_TYPE_BIND ZMQ_PUB)]"

definition udp_recv_eg_setup :: "DetectorConfig \<Rightarrow> u16 \<Rightarrow> wire list res" where
  "udp_recv_eg_setup config mid =
     Inr [Communicate (module_segment config mid (eg_FRAME_N_BYTES config))
            (stream_config config (dec_digits (unat mid)) CONN_TYPE_BIND ZMQ_PUB)]"

definition udp_recv_gf_setup :: "DetectorConfig \<Rightarrow> u16 \<Rightarrow> wire list res" where
  "udp_recv_gf_setup config mid =
     bindE (gf_geometry_of config) (\<lambda>g.
     Inr [Communicate (module_segment config mid (gg_bytes_of_frame g))
            (stream_config config (dec_digits (unat mid)) CONN_TYPE_BIND ZMQ_PUB)])"

definition jf_frame_n_bytes :: "DetectorConfig \<Rightarrow> u64" where
  "jf_frame_n_bytes config = ucast ((word_of_nat jf_MODULE_N_PIXELS :: u32) * word_of_int (bit_depth config) div 8)"

text \<open>The three converters open the buffer of their module for reading and the image buffer for writing.\<close>

definition convert_setup :: "u64 \<Rightarrow> DetectorConfig \<Rightarrow> u16 \<Rightarrow> wire list res" where
  "convert_setup frame_n_bytes config mid =
     bindE (image_segment config ''image'') (\<lambda>img.
     Inr [Communicate (module_segment config mid frame_n_bytes)
            (stream_config config (dec_digits (unat mid)) CONN_TYPE_CONNECT ZMQ_SUB),
          Communicate img (stream_config config ''sync'' CONN_TYPE_CONNECT ZMQ_PUSH)])"

definition convert_jf_setup :: "DetectorConfig \<Rightarrow> u16 \<Rightarrow> wire list res" where
  "convert_jf_setup config mid = convert_setup (jf_frame_n_bytes config) config mid"

definition convert_eg_setup :: "DetectorConfig \<Rightarrow> u16 \<Rightarrow> wire list res" where
  "convert_eg_setup config mid =
     (if bit_depth config < 8 then Inl (RuntimeError ''Bit depth below 8 is not supported!'')
      else convert_setup (eg_FRAME_N_BYTES config) config mid)"

definition convert_gf_setup :: "DetectorConfig \<Rightarrow> u16 \<Rightarrow> wire list res" where
  "convert_gf_setup config mid =
     bindE (calculate_data_sizes config) (\<lambda>(module_bytes, converted_bytes). convert_setup module_bytes config mid)"

section \<open>Synchronizers\<close>

text \<open>The sockets of the two threads; one of \<open>sync_stream\<close> and \<open>sync_metadata\<close> ends at once.\<close>

definition sync_sockets :: "DetectorConfig \<Rightarrow> wire list" where
  "sync_sockets config =
     [Socket ZMQ_PULL CONN_TYPE_BIND (Ipc (detector_name config @ ''-sync'')),
      Socket ZMQ_PUB CONN_TYPE_BIND (Ipc (detector_name config @ ''-image''))]"

definition sync_module_setup :: "DetectorConfig \<Rightarrow> wire list res" where
  "sync_module_setup config = Inr (sync_sockets config)"

definition sync_stream_setup :: "DetectorConfig \<Rightarrow> wire list res" where
  "sync_stream_setup config = Inr (if sender_sends_full_images config then [] else sync_sockets config)"

definition sync_metadata_setup :: "DetectorConfig \<Rightarrow> string \<Rightarrow> wire list res" where
  "sync_metadata_setup config metadata_stream_address =
     Inr (if \<not> sender_sends_full_images config then []
          else Socket ZMQ_SUB CONN_TYPE_CONNECT (External metadata_stream_address) # sync_sockets config)"

section \<open>Streams, filters and compressors\<close>

text \<open>A process that reads images under one name.\<close>

definition reader_of :: "DetectorConfig \<Rightarrow> string \<Rightarrow> string \<Rightarrow> zmq_type \<Rightarrow> wire list \<Rightarrow> wire list res" where
  "reader_of config buffer_suffix stream_suffix ty more_wires =
     bindE (image_segment config buffer_suffix) (\<lambda>img.
     Inr (Communicate img (stream_config config stream_suffix CONN_TYPE_CONNECT ty) # more_wires))"

definition stream_send_setup :: "DetectorConfig \<Rightarrow> string \<Rightarrow> int \<Rightarrow> wire list res" where
  "stream_send_setup config stream_address image_part =
     bindE (stream_part config image_part) (\<lambda>part. case part of None \<Rightarrow> Inr []
     | Some _ \<Rightarrow> reader_of config ''image'' ''image'' ZMQ_SUB [Socket ZMQ_PUB CONN_TYPE_BIND (External stream_address)])"

definition stream_receive_setup :: "DetectorConfig \<Rightarrow> string \<Rightarrow> int \<Rightarrow> wire list res" where
  "stream_receive_setup config stream_address image_part =
     bindE (stream_part config image_part) (\<lambda>part. case part of None \<Rightarrow> Inr []
     | Some _ \<Rightarrow> reader_of config ''image'' ''sync'' ZMQ_PUSH [Socket ZMQ_SUB CONN_TYPE_CONNECT (External stream_address)])"

definition live_stream_setup :: "DetectorConfig \<Rightarrow> string \<Rightarrow> string \<Rightarrow> string \<Rightarrow> wire list res" where
  "live_stream_setup config stream_address suffix_meta suffix_image =
     bindE (um_at (ls_configs config) stream_address) (\<lambda>_.
     reader_of config suffix_image suffix_meta ZMQ_SUB [Socket ZMQ_PUB CONN_TYPE_BIND (External stream_address)])"

definition metadata_stream_setup :: "DetectorConfig \<Rightarrow> string \<Rightarrow> string \<Rightarrow> wire list res" where
  "metadata_stream_setup config stream_address suffix =
     reader_of config suffix suffix ZMQ_SUB [Socket ZMQ_PUB CONN_TYPE_BIND (External stream_address)]"

definition gf_filter_setup :: "DetectorConfig \<Rightarrow> string \<Rightarrow> wire list res" where
  "gf_filter_setup config suffix =
     reader_of config ''image'' suffix ZMQ_SUB [Socket ZMQ_PUB CONN_TYPE_BIND (Ipc (stream_named config ''filter''))]"

definition delay_filter_setup :: "DetectorConfig \<Rightarrow> string \<Rightarrow> wire list res" where
  "delay_filter_setup config suffix =
     reader_of config suffix suffix ZMQ_SUB [Socket ZMQ_PUB CONN_TYPE_BIND (Ipc (stream_named config ''delay-filter''))]"

definition compress_setup :: "string \<Rightarrow> DetectorConfig \<Rightarrow> wire list res" where
  "compress_setup sink config =
     bindE (image_segment config sink) (\<lambda>out.
     reader_of config ''image'' ''image'' ZMQ_SUB [Communicate out (stream_config config sink CONN_TYPE_BIND ZMQ_PUB)])"

definition compress_blosc2_setup :: "DetectorConfig \<Rightarrow> wire list res" where
  "compress_blosc2_setup config = compress_setup ''blosc2'' config"

definition compress_bshuf_setup :: "DetectorConfig \<Rightarrow> wire list res" where
  "compress_bshuf_setup config = compress_setup ''h5bitshuffle-lz4'' config"

text \<open>The receivers of array-1.0 and bsread streams: \<open>sockets\<close> are the ones that connect to the source; those of
  the bsread library are its own.\<close>

definition image_source :: "DetectorConfig \<Rightarrow> wire list \<Rightarrow> wire list res" where
  "image_source config sockets =
     bindE (raw_image_segment max_byte_size config) (\<lambda>img.
     Inr (sockets @ [Communicate img (stream_config config ''image'' CONN_TYPE_BIND ZMQ_PUB)]))"

definition array10_recv_setup :: "DetectorConfig \<Rightarrow> string \<Rightarrow> zmq_type \<Rightarrow> nat \<Rightarrow> wire list res" where
  "array10_recv_setup config stream_address ty number_of_connections =
     image_source config (replicate number_of_connections (Socket ty CONN_TYPE_CONNECT (External stream_address)))"

definition bsread_recv_setup :: "DetectorConfig \<Rightarrow> wire list res" where
  "bsread_recv_setup config = image_source config []"

section \<open>Writers, drivers and the buffer\<close>

definition det_writer_setup :: "DetectorConfig \<Rightarrow> string \<Rightarrow> u16 \<Rightarrow> wire list res" where
  "det_writer_setup config suffix writer_id =
     (if number_of_writers config \<le> uint writer_id then Inr []
      else let i = dec_digits (unat writer_id) in
        reader_of config suffix (''driver-'' @ i) ZMQ_PULL
          [Socket ZMQ_PUSH CONN_TYPE_BIND (Ipc (stream_named config (''writer-'' @ i)))])"

definition meta_writer_setup :: "DetectorConfig \<Rightarrow> wire list res" where
  "meta_writer_setup config =
     reader_of config ''image'' ''driver-meta'' ZMQ_PULL
       [Socket ZMQ_PUSH CONN_TYPE_BIND (Ipc (stream_named config ''writer-meta''))]"

definition det_driver_setup :: "DetectorConfig \<Rightarrow> string \<Rightarrow> bool \<Rightarrow> wire list res" where
  "det_driver_setup config suffix with_meta_writer =
     Inr (concat (map (\<lambda>name. [Socket ZMQ_PUSH CONN_TYPE_BIND (Ipc (stream_named config (''driver-'' @ name))),
                               Socket ZMQ_PULL CONN_TYPE_CONNECT (Ipc (stream_named config (''writer-'' @ name)))])
            (writer_names with_meta_writer config)) @
          [Socket ZMQ_SUB CONN_TYPE_CONNECT (Ipc (stream_named config suffix))])"

definition max_data_bytes :: "DetectorConfig \<Rightarrow> u64 res" where
  "max_data_bytes config =
     bindE (int_mul (image_pixel_width config) (image_pixel_height config)) (\<lambda>p.
     bindE (int_mul p (bit_depth config)) (\<lambda>bits. Inr (ucast (word_of_int bits div 8 :: u32))))"

definition buffer_writer_setup :: "DetectorConfig \<Rightarrow> wire list res" where
  "buffer_writer_setup config =
     bindE (raw_image_segment max_data_bytes config) (\<lambda>img.
     Inr [Communicate img (stream_config config ''image'' CONN_TYPE_CONNECT ZMQ_SUB)])"

definition buffer_reader_setup :: "DetectorConfig \<Rightarrow> wire list res" where
  "buffer_reader_setup config =
     bindE (image_segment config ''image'') (\<lambda>img.
     Inr [Communicate img (stream_config config ''image'' CONN_TYPE_BIND ZMQ_PUB),
          Socket ZMQ_REP CONN_TYPE_BIND (Ipc (stream_named config ''driver''))])"

definition buffer_driver_setup :: "DetectorConfig \<Rightarrow> string \<Rightarrow> wire list res" where
  "buffer_driver_setup config stream_address =
     reader_of config ''image'' ''image'' ZMQ_SUB
       [Socket ZMQ_PUSH CONN_TYPE_BIND (External stream_address),
        Socket ZMQ_REQ CONN_TYPE_CONNECT (Ipc (stream_named config ''driver''))]"

definition chunk_sender_setup :: "DetectorConfig \<Rightarrow> wire list res" where
  "chunk_sender_setup config = reader_of config ''image'' ''image'' ZMQ_PULL []"

text \<open>Its loop takes a message and, if there was one, prints the statistics, in which nothing is counted.\<close>

definition chunk_sender_turn ::
  "rate_format \<Rightarrow> clock_reads \<Rightarrow> byte list option \<Rightarrow> TimedStatsCollector \<Rightarrow> (string option \<times> TimedStatsCollector) res" where
  "chunk_sender_turn fr ck msg stats =
     bindE (received_meta msg) (\<lambda>m. case m of None \<Rightarrow> Inr (None, stats)
     | Some buffer \<Rightarrow> Inr (print_stats (timed_additional_message fr) ck stats))"

section \<open>\<open>shm-holder\<close>\<close>

definition holder_buffer_size :: "DetectorConfig \<Rightarrow> u64 res" where
  "holder_buffer_size config =
     bindE (converted_image_n_bytes config) (\<lambda>n.
     bindE (slots_number config) (\<lambda>slots. Inr (align_to_2mb (n * slots))))"

definition shm_holder_setup :: "DetectorConfig \<Rightarrow> wire list res" where
  "shm_holder_setup config =
     bindE (holder_buffer_size config) (\<lambda>n. Inr [Hold (stream_named config ''image'') n])"

definition min_chunk_size :: u64 where "min_chunk_size = 10 * 1024 * 1024 * 1024"

definition num_chunks :: "u64 \<Rightarrow> u64" where
  "num_chunks buffer_size = (buffer_size + min_chunk_size - 1) div min_chunk_size"

text \<open>Offset and size of the part that each thread maps and locks.\<close>

definition holder_chunks :: "u64 \<Rightarrow> (u64 \<times> u64) list" where
  "holder_chunks buffer_size =
     map (\<lambda>i. let offset = word_of_nat i * min_chunk_size in (offset, min min_chunk_size (buffer_size - offset)))
       [0..<unat (num_chunks buffer_size)]"

section \<open>Services\<close>

datatype service =
    Udp_Recv_JF u16 | Udp_Recv_EG u16 | Udp_Recv_GF u16
  | Convert_JF u16 | Convert_EG u16 | Convert_GF u16
  | Sync_Module | Sync_Stream | Sync_Metadata string
  | Stream_Send string int | Stream_Receive string int
  | Live_Stream string string string | Metadata_Stream string string
  | Gf_Filter string | Delay_Filter string
  | Compress_Blosc2 | Compress_Bshuf
  | Array10_Recv string zmq_type nat | Bsread_Recv
  | Det_Driver string bool | Det_Writer string u16 | Meta_Writer
  | Buffer_Writer | Buffer_Reader | Buffer_Driver string
  | Chunk_Sender | Shm_Holder

fun setup_of :: "DetectorConfig \<Rightarrow> service \<Rightarrow> wire list res" where
  "setup_of config (Udp_Recv_JF mid) = udp_recv_jf_setup config mid"
| "setup_of config (Udp_Recv_EG mid) = udp_recv_eg_setup config mid"
| "setup_of config (Udp_Recv_GF mid) = udp_recv_gf_setup config mid"
| "setup_of config (Convert_JF mid) = convert_jf_setup config mid"
| "setup_of config (Convert_EG mid) = convert_eg_setup config mid"
| "setup_of config (Convert_GF mid) = convert_gf_setup config mid"
| "setup_of config Sync_Module = sync_module_setup config"
| "setup_of config Sync_Stream = sync_stream_setup config"
| "setup_of config (Sync_Metadata adr) = sync_metadata_setup config adr"
| "setup_of config (Stream_Send adr part) = stream_send_setup config adr part"
| "setup_of config (Stream_Receive adr part) = stream_receive_setup config adr part"
| "setup_of config (Live_Stream adr m i) = live_stream_setup config adr m i"
| "setup_of config (Metadata_Stream adr sfx) = metadata_stream_setup config adr sfx"
| "setup_of config (Gf_Filter sfx) = gf_filter_setup config sfx"
| "setup_of config (Delay_Filter sfx) = delay_filter_setup config sfx"
| "setup_of config Compress_Blosc2 = compress_blosc2_setup config"
| "setup_of config Compress_Bshuf = compress_bshuf_setup config"
| "setup_of config (Array10_Recv adr ty n) = array10_recv_setup config adr ty n"
| "setup_of config Bsread_Recv = bsread_recv_setup config"
| "setup_of config (Det_Driver sfx with_meta) = det_driver_setup config sfx with_meta"
| "setup_of config (Det_Writer sfx wid) = det_writer_setup config sfx wid"
| "setup_of config Meta_Writer = meta_writer_setup config"
| "setup_of config Buffer_Writer = buffer_writer_setup config"
| "setup_of config Buffer_Reader = buffer_reader_setup config"
| "setup_of config (Buffer_Driver adr) = buffer_driver_setup config adr"
| "setup_of config Chunk_Sender = chunk_sender_setup config"
| "setup_of config Shm_Holder = shm_holder_setup config"

lemmas setup_defs = udp_recv_jf_setup_def udp_recv_eg_setup_def udp_recv_gf_setup_def convert_jf_setup_def
  convert_eg_setup_def convert_gf_setup_def convert_setup_def sync_module_setup_def sync_stream_setup_def
  sync_metadata_setup_def sync_sockets_def stream_send_setup_def stream_receive_setup_def live_stream_setup_def
  metadata_stream_setup_def gf_filter_setup_def delay_filter_setup_def compress_blosc2_setup_def
  compress_bshuf_setup_def compress_setup_def array10_recv_setup_def bsread_recv_setup_def image_source_def
  det_driver_setup_def det_writer_setup_def meta_writer_setup_def buffer_writer_setup_def buffer_reader_setup_def
  buffer_driver_setup_def chunk_sender_setup_def shm_holder_setup_def reader_of_def

text \<open>The processes whose start is modelled with their other state open the same.\<close>

lemma buffer_writer_start_setup:
  assumes "buffer_writer_start R config db root timeout = Inr (rh, fh, img, cc)"
  shows "setup_of config Buffer_Writer = Inr [Communicate img cc]"
  using assms by (auto simp: buffer_writer_start_def buffer_writer_setup_def raw_image_segment_def max_data_bytes_def
    stream_config_def stream_named_def bindE_eq_Inr Let_def)

lemma buffer_reader_start_setup:
  assumes "buffer_reader_start R z config db = Inr (img, cc, s, rh)"
  shows "\<exists>a. setup_of config Buffer_Reader = Inr [Communicate img cc, Socket ZMQ_REP CONN_TYPE_BIND (Ipc a)] \<and>
    zk_endpoint s = Bound (IPC_URL_BASE @ a)"
  using assms by (auto simp: buffer_reader_start_def buffer_reader_setup_def image_segment_def
    stream_config_def stream_named_def bindE_eq_Inr Let_def bind_driver_socket_def set_option_Inr bind_to_def
    split: if_splits)

section \<open>Shared memory\<close>

text \<open>The sizes of the segments, and what the processes have mapped: who, which segment, how many bytes.\<close>

record shared_memory =
  shm_sizes :: "string \<rightharpoonup> u64"
  shm_maps :: "(service \<times> string \<times> u64) list"

fun wire_segment :: "wire \<Rightarrow> (string \<times> u64) option" where
  "wire_segment (Communicate rb _) = Some (rbc_buffer_name rb, align_to_2mb (rbc_n_bytes_data rb * rbc_n_buffer_slots rb))"
| "wire_segment (Socket _ _ _) = None"
| "wire_segment (Hold name n) = Some (name, n)"

text \<open>\<open>ftruncate\<close> and \<open>mmap\<close> of a constructor of \<open>RamBuffer\<close>, or of \<open>shm-holder\<close>.\<close>

definition map_segment :: "service \<Rightarrow> wire \<Rightarrow> shared_memory \<Rightarrow> shared_memory" where
  "map_segment svc w m =
     (case wire_segment w of None \<Rightarrow> m
      | Some (name, n) \<Rightarrow> \<lparr>shm_sizes = (shm_sizes m)(name \<mapsto> n), shm_maps = shm_maps m @ [(svc, name, n)]\<rparr>)"

definition start_service :: "DetectorConfig \<Rightarrow> service \<Rightarrow> shared_memory \<Rightarrow> shared_memory res" where
  "start_service config svc m = bindE (setup_of config svc) (\<lambda>ws. Inr (fold (map_segment svc) ws m))"

definition no_memory :: shared_memory where
  "no_memory = \<lparr>shm_sizes = Map.empty, shm_maps = []\<rparr>"

section \<open>Agreement on the segments\<close>

definition source_suffixes :: "string list" where
  "source_suffixes = [''image'', ''filter'', ''delay-filter'', ''blosc2'', ''h5bitshuffle-lz4'']"

text \<open>The services that make sense for a configuration: receivers and converters of the detector, suffixes of
  streams that exist, and no process that computes the size of an image from the bit depth for converted
  Jungfrau images.\<close>

fun belongs :: "DetectorConfig \<Rightarrow> service \<Rightarrow> bool" where
  "belongs config (Udp_Recv_JF _) = (detector_type config \<in> {''jungfrau-raw'', ''jungfrau-converted''})"
| "belongs config (Convert_JF _) = (detector_type config \<in> {''jungfrau-raw'', ''jungfrau-converted''})"
| "belongs config (Udp_Recv_EG _) = (detector_type config = ''eiger'')"
| "belongs config (Convert_EG _) = (detector_type config = ''eiger'')"
| "belongs config (Udp_Recv_GF _) = (detector_type config = ''gigafrost'')"
| "belongs config (Convert_GF _) = (detector_type config = ''gigafrost'')"
| "belongs config (Live_Stream _ m i) = (m \<in> set source_suffixes \<and> i \<in> set source_suffixes)"
| "belongs config (Metadata_Stream _ sfx) = (sfx \<in> set source_suffixes)"
| "belongs config (Gf_Filter sfx) = (sfx \<in> set source_suffixes)"
| "belongs config (Delay_Filter sfx) = (sfx \<in> set source_suffixes)"
| "belongs config (Det_Driver sfx _) = (sfx \<in> set source_suffixes)"
| "belongs config (Det_Writer sfx _) = (sfx \<in> set source_suffixes)"
| "belongs config (Array10_Recv _ _ _) = (detector_type config \<noteq> ''jungfrau-converted'')"
| "belongs config Bsread_Recv = (detector_type config \<noteq> ''jungfrau-converted'')"
| "belongs config Buffer_Writer = (detector_type config \<noteq> ''jungfrau-converted'')"
| "belongs config _ = True"

definition sized :: "DetectorConfig \<Rightarrow> bool" where
  "sized config \<longleftrightarrow> 0 < image_pixel_width config \<and> 0 < image_pixel_height config \<and> 0 < bit_depth config \<and>
     (detector_type config \<in> {''gigafrost'', ''jungfrau-raw'', ''jungfrau-converted''} \<longrightarrow> bit_depth config = 16) \<and>
     (detector_type config = ''gigafrost'' \<longrightarrow> gf_plain config)"

definition module_n_bytes :: "DetectorConfig \<Rightarrow> u64 res" where
  "module_n_bytes config =
     (if detector_type config = ''gigafrost'' then bindE (gf_geometry_of config) (\<lambda>g. Inr (gg_bytes_of_frame g))
      else Inr (if detector_type config = ''eiger'' then eg_FRAME_N_BYTES config else 2 ^ 20))"

definition segment_shape :: "DetectorConfig \<Rightarrow> RamBufferConfig \<Rightarrow> bool" where
  "segment_shape config rb \<longleftrightarrow>
     (\<exists>sfx \<in> set source_suffixes. image_segment config sfx = Inr rb) \<or>
     (\<exists>mid n. module_n_bytes config = Inr n \<and> rb = module_segment config mid n)"

lemma stream_named_inject [simp]: "stream_named config a = stream_named config b \<longleftrightarrow> a = b"
  by (simp add: stream_named_def)

text \<open>No suffix is a decimal number.\<close>

lemma dec_digits_all: "dec_digits n = s \<Longrightarrow> list_all (\<lambda>c. 48 \<le> (of_char c :: nat) \<and> of_char c < (58 :: nat)) s"
  using dec_digits_chars by (auto simp: list_all_iff)

lemma digits_no_suffix: "dec_digits n \<notin> set source_suffixes"
  unfolding source_suffixes_def by (auto dest!: dec_digits_all)

lemma segment_shape_unique:
  assumes "segment_shape config rb" and "segment_shape config rb'" and "rbc_buffer_name rb = rbc_buffer_name rb'"
  shows "rb = rb'"
  using assms digits_no_suffix
  by (auto simp: segment_shape_def image_segment_def module_segment_def bindE_eq_Inr unsigned_word_eqI)

text \<open>Sizes that different processes compute in different ways.\<close>

lemma gf_frame_sizes_agree:
  assumes "gf_plain config" and "gf_geometry_of config = Inr g" and "calculate_data_sizes config = Inr (n, c)"
  shows "n = gg_bytes_of_frame g"
proof -
  let ?h = "image_pixel_height config" and ?w = "image_pixel_width config"
  obtain v h r lr where plain: "v \<le> 21" "0 < r" "r \<le> h" "h \<le> 504" "lr \<le> r" "lr = (if h mod r = 0 then r else h mod r)"
    "unat (gg_width g) = 48 * v" "unat (gg_bytes_of_last_packet g) = 72 * v * lr" "unat (gg_bytes_per_module g) = 72 * v * h"
    "unat (gg_bytes_per_packet g) = 72 * v * r" "unat (gg_packets_in_frame g) = (h + r - 1) div r"
    and rows: "n_rows_per_packet ?h ?w = Inr (word_of_nat r)"
    using gf_geometry_plain [OF assms(1,2)] by metis
  define y where "y = module_n_y_pixels ?h"
  have g: "gg_width g = module_n_x_pixels ?w" "gg_height g = y" "n_data_bytes_per_packet ?h ?w = Inr (gg_bytes_per_packet g)"
    "n_packets_per_frame ?h ?w = Inr (gg_packets_in_frame g)"
    "gg_bytes_of_frame g = gg_bytes_per_packet g * (gg_packets_in_frame g - 1) + gg_bytes_of_last_packet g"
    using assms(2) by (auto simp: gf_geometry_of_def bindE_eq_Inr Let_def y_def split: if_splits)
  obtain l where l: "last_packet_n_bytes ?h ?w = Inr l" and n: "n = gg_bytes_per_packet g * (gg_packets_in_frame g - 1) + l"
    using assms(3) g(3,4) by (auto simp: calculate_data_sizes_def bindE_eq_Inr)
  obtain v' h' where "unat (gg_width g) = 48 * v'" "0 < v'" "unat y = h'" "h' \<le> 504"
    using gf_plain_pixels [OF assms(1)] g(1) by (metis y_def)
  then have y: "0 < v" "unat y = h'" "h' \<le> 504" using plain(7) by auto
  have prod: "unat (x * gg_width g * 3 div 2) = 72 * v * unat x" if "unat x \<le> 504" for x :: u32
  proof -
    have "unat x * (48 * v) \<le> 504 * 1008" using that plain(1) by (intro mult_le_mono) simp_all
    then show ?thesis using plain(7) by (simp add: unat_div unat_mult_u32)
  qed
  have "gg_bytes_per_module g = ucast (y * gg_width g * 3 div 2)"
    using assms(2) g(1) by (auto simp: gf_geometry_of_def bindE_eq_Inr Let_def y_def module_n_data_bytes_def mult.commute split: if_splits)
  then have "72 * v * h = 72 * v * h'" using prod [of y] y plain(9) by (simp add: unat_ucast_up)
  then have h: "unat y = h" using y by simp
  have r: "unat (word_of_nat r :: u32) = r" using plain(3,4) by (simp add: unat_of_nat take_bit_nat_eq_self)
  define last where "last = (if y mod word_of_nat r = 0 then word_of_nat r else y mod word_of_nat r :: u32)"
  have "unat last = lr" using h r by (simp add: last_def plain(6) unat_mod word_unat_eq_iff [of "y mod _"])
  moreover have "l = ucast (last * gg_width g * 3 div 2)"
    using l rows by (auto simp: last_packet_n_bytes_def Let_def g(1) last_def y_def split: if_splits)
  ultimately have "unat l = unat (gg_bytes_of_last_packet g)"
    using prod [of last] plain(3-5,8) by (simp add: unat_ucast_up)
  then have "l = gg_bytes_of_last_packet g" by (rule unsigned_word_eqI)
  then show ?thesis using n g(5) by simp
qed

lemma max_byte_size_agrees:
  assumes "sized config" and "detector_type config \<noteq> ''jungfrau-converted''"
    and "converted_image_n_bytes config = Inr n" and "max_byte_size config = Inr k"
  shows "k = n"
  using assms
  by (auto simp: sized_def converted_image_n_bytes_def max_byte_size_def bindE_eq_Inr int_mul_def mult.commute mult.left_commute split: if_splits)

lemma max_data_bytes_agrees:
  assumes "sized config" and "max_data_bytes config = Inr k"
  shows "max_byte_size config = Inr k"
proof -
  define b where "b = image_pixel_width config * image_pixel_height config * bit_depth config"
  have b: "0 \<le> b" "b \<le> int_max" "k = ucast (word_of_int b div 8 :: u32)" "max_byte_size config = Inr (word_of_int (int_quot b 8))"
    using assms by (auto simp: sized_def max_data_bytes_def max_byte_size_def bindE_eq_Inr int_mul_def b_def int_ok_def split: if_splits)
  have "int_quot b 8 = int (nat b div 8)" using b(1) by (simp add: zdiv_int)
  then have w: "(word_of_int b :: u32) = word_of_nat (nat b)" "(word_of_int (int_quot b 8) :: u64) = word_of_nat (nat b div 8)"
    using b(1) by (simp_all only: of_int_of_nat_eq) simp
  have "unat k = nat b div 8"
    using b(2) unfolding b(3) w(1) by (simp add: unat_ucast_up unat_div unat_of_nat take_bit_nat_eq_self int_max_def)
  moreover have "unat (word_of_int (int_quot b 8) :: u64) = nat b div 8"
    using b(2) unfolding w(2) by (simp add: unat_of_nat take_bit_nat_eq_self int_max_def del: of_nat_div)
  ultimately have "word_of_int (int_quot b 8) = k" by (metis word_unat_eq_iff)
  then show ?thesis using b(4) by simp
qed

text \<open>What the services open has one of the expected shapes.\<close>

definition agreed :: "DetectorConfig \<Rightarrow> string \<Rightarrow> u64 \<Rightarrow> bool" where
  "agreed config name n \<longleftrightarrow> (\<exists>rb. segment_shape config rb \<and> name = rbc_buffer_name rb \<and>
     n = align_to_2mb (rbc_n_bytes_data rb * rbc_n_buffer_slots rb))"

lemma agreed_unique: "agreed config name n \<Longrightarrow> agreed config name n' \<Longrightarrow> n = n'"
  using segment_shape_unique unfolding agreed_def by metis

lemma image_segment_shape:
  "image_segment config sfx = Inr rb \<Longrightarrow> sfx \<in> set source_suffixes \<Longrightarrow> segment_shape config rb"
  by (auto simp: segment_shape_def)

lemma module_segment_shape: "module_n_bytes config = Inr n \<Longrightarrow> segment_shape config (module_segment config mid n)"
  by (auto simp: segment_shape_def)

fun segments_ok :: "DetectorConfig \<Rightarrow> wire list \<Rightarrow> bool" where
  "segments_ok config [] = True"
| "segments_ok config (Communicate rb cc # ws) = (segment_shape config rb \<and> segments_ok config ws)"
| "segments_ok config (Socket _ _ _ # ws) = segments_ok config ws"
| "segments_ok config (Hold name n # ws) = (agreed config name n \<and> segments_ok config ws)"

lemma segments_ok_append [simp]: "segments_ok config (ws @ ws') \<longleftrightarrow> segments_ok config ws \<and> segments_ok config ws'"
  by (induction config ws rule: segments_ok.induct) auto

lemma segments_ok_sockets: "\<forall>w \<in> set ws. \<exists>ty conn a. w = Socket ty conn a \<Longrightarrow> segments_ok config ws"
  by (induction ws) auto

lemma segments_ok_iff:
  "segments_ok config ws \<longleftrightarrow> (\<forall>rb cc. Communicate rb cc \<in> set ws \<longrightarrow> segment_shape config rb) \<and>
     (\<forall>name n. Hold name n \<in> set ws \<longrightarrow> agreed config name n)"
  by (induction config ws rule: segments_ok.induct) auto

lemma raw_segment_shape:
  assumes "sized config" and "detector_type config \<noteq> ''jungfrau-converted''"
    and "raw_image_segment f config = Inr rb" and "f = max_byte_size \<or> f = max_data_bytes"
  shows "segment_shape config rb"
proof -
  obtain k where k: "max_byte_size config = Inr k" "f config = Inr k"
    using assms(3,4) max_data_bytes_agrees [OF assms(1)] by (auto simp: raw_image_segment_def bindE_eq_Inr)
  then obtain n where n: "converted_image_n_bytes config = Inr n"
    using assms(3) by (auto simp: raw_image_segment_def slots_number_def bindE_eq_Inr)
  have "k = n" using max_byte_size_agrees [OF assms(1,2) n k(1)] .
  then have "image_segment config ''image'' = Inr rb"
    using assms(3) k(2) n by (simp add: raw_image_segment_def image_segment_def)
  then show ?thesis by (rule image_segment_shape) (simp add: source_suffixes_def)
qed

lemma jf_module_n_bytes:
  assumes "sized config" and "detector_type config \<in> {''jungfrau-raw'', ''jungfrau-converted''}"
  shows "module_n_bytes config = Inr (word_of_nat (jf_DATA_BYTES_PER_PACKET * jf_N_PACKETS_PER_FRAME))"
    and "module_n_bytes config = Inr (jf_frame_n_bytes config)"
  using assms by (auto simp: sized_def module_n_bytes_def jf_frame_n_bytes_def jf_consts)

lemma gf_module_n_bytes:
  assumes "sized config" and "detector_type config = ''gigafrost''" and "calculate_data_sizes config = Inr (n, c)"
  shows "module_n_bytes config = Inr n"
proof -
  obtain g where g: "gf_geometry_of config = Inr g"
    using assms(3) by (auto simp: calculate_data_sizes_def gf_geometry_of_def last_packet_n_bytes_def bindE_eq_Inr Let_def split: if_splits)
  then show ?thesis using gf_frame_sizes_agree [OF _ g assms(3)] assms(1,2) by (simp add: sized_def module_n_bytes_def)
qed

lemma convert_segments:
  assumes "module_n_bytes config = Inr n" and "convert_setup n config mid = Inr ws"
  shows "segments_ok config ws"
  using assms image_segment_shape [of config "''image''"]
  by (auto simp: convert_setup_def bindE_eq_Inr source_suffixes_def module_segment_shape)

lemma reader_segments:
  assumes "reader_of config sfx stream ty ws' = Inr ws" and "sfx \<in> set source_suffixes" and "segments_ok config ws'"
  shows "segments_ok config ws"
  using assms by (auto simp: reader_of_def bindE_eq_Inr image_segment_shape)

lemma module_service_segments:
  assumes "sized config" and "belongs config svc" and "setup_of config svc = Inr ws"
    and "svc \<in> {Udp_Recv_JF mid, Udp_Recv_EG mid, Udp_Recv_GF mid, Convert_JF mid, Convert_EG mid, Convert_GF mid}"
  shows "segments_ok config ws"
proof -
  have "module_n_bytes config = Inr (eg_FRAME_N_BYTES config)" if "detector_type config = ''eiger''"
    using that by (simp add: module_n_bytes_def)
  moreover have "module_n_bytes config = Inr (gg_bytes_of_frame g)" if "detector_type config = ''gigafrost''" "gf_geometry_of config = Inr g" for g
    using that by (simp add: module_n_bytes_def)
  ultimately show ?thesis
    using assms jf_module_n_bytes [OF assms(1)] gf_module_n_bytes [OF assms(1)] convert_segments
    by (auto simp: udp_recv_jf_setup_def udp_recv_eg_setup_def udp_recv_gf_setup_def convert_jf_setup_def
      convert_eg_setup_def convert_gf_setup_def bindE_eq_Inr module_segment_shape split: if_splits prod.splits)
qed

lemma holder_segments:
  assumes "shm_holder_setup config = Inr ws"
  shows "segments_ok config ws"
proof -
  obtain n slots where n: "converted_image_n_bytes config = Inr n" "slots_number config = Inr slots"
    and ws: "ws = [Hold (stream_named config ''image'') (align_to_2mb (n * slots))]"
    using assms by (auto simp: shm_holder_setup_def holder_buffer_size_def bindE_eq_Inr)
  define rb where "rb = \<lparr>rbc_buffer_name = stream_named config ''image'', rbc_n_bytes_data = n, rbc_n_buffer_slots = slots\<rparr>"
  have "image_segment config ''image'' = Inr rb" using n by (simp add: image_segment_def rb_def)
  then have "segment_shape config rb" by (rule image_segment_shape) (simp add: source_suffixes_def)
  then show ?thesis unfolding ws by (auto simp: agreed_def rb_def intro!: exI [of _ rb])
qed

lemma source_segments:
  assumes "sized config" and "detector_type config \<noteq> ''jungfrau-converted''" and "image_source config socks = Inr ws"
    and "\<forall>w \<in> set socks. \<exists>ty conn a. w = Socket ty conn a"
  shows "segments_ok config ws"
  using assms raw_segment_shape [OF assms(1,2), of max_byte_size]
  by (auto simp: image_source_def bindE_eq_Inr segments_ok_sockets)

lemma setup_segments:
  assumes "sized config" and "belongs config svc" and "setup_of config svc = Inr ws"
  shows "segments_ok config ws"
proof -
  have sfx [simp]: "''image'' \<in> set source_suffixes" "''blosc2'' \<in> set source_suffixes" "''h5bitshuffle-lz4'' \<in> set source_suffixes"
    by (simp_all add: source_suffixes_def)
  have driver: "segments_ok config ws" if "det_driver_setup config sfx m = Inr ws" for sfx m
    using that by (auto simp: det_driver_setup_def intro!: segments_ok_sockets)
  have compress: "segments_ok config ws" if "compress_setup sink config = Inr ws" "sink \<in> set source_suffixes" for sink
    using that by (auto simp: compress_setup_def bindE_eq_Inr image_segment_shape elim!: reader_segments)
  have streams: "segments_ok config ws" if "stream_send_setup config a part = Inr ws \<or> stream_receive_setup config a part = Inr ws" for a part
    using that by (auto simp: stream_send_setup_def stream_receive_setup_def bindE_eq_Inr elim!: reader_segments split: option.splits)
  have sync: "segments_ok config ws" if "ws = sync_sockets config \<or> ws = [] \<or> (\<exists>a. ws = Socket ZMQ_SUB CONN_TYPE_CONNECT a # sync_sockets config)"
    using that by (auto simp: sync_sockets_def)
  have send: "segments_ok config ws" if "stream_send_setup config a part = Inr ws" for a part using that streams by blast
  have receive: "segments_ok config ws" if "stream_receive_setup config a part = Inr ws" for a part using that streams by blast
  note single = live_stream_setup_def metadata_stream_setup_def gf_filter_setup_def delay_filter_setup_def det_writer_setup_def
    meta_writer_setup_def buffer_driver_setup_def chunk_sender_setup_def
  show ?thesis
  proof (cases svc)
    case (Live_Stream a m i)
    then show ?thesis using assms by (auto simp: single bindE_eq_Inr elim!: reader_segments)
  next
    case (Det_Writer a m)
    then show ?thesis using assms by (auto simp: single Let_def elim!: reader_segments split: if_splits)
  next
    case Buffer_Writer
    then show ?thesis using assms raw_segment_shape [OF assms(1), of max_data_bytes]
      by (auto simp: buffer_writer_setup_def bindE_eq_Inr)
  next
    case Buffer_Reader
    then show ?thesis using assms by (auto simp: buffer_reader_setup_def bindE_eq_Inr image_segment_shape)
  qed (use assms driver compress send receive sync holder_segments module_service_segments [OF assms] source_segments [OF assms(1)]
      in \<open>auto simp: single compress_blosc2_setup_def compress_bshuf_setup_def sync_module_setup_def sync_stream_setup_def
        sync_metadata_setup_def array10_recv_setup_def bsread_recv_setup_def elim!: reader_segments split: if_splits\<close>)
qed

lemma wire_segment_agreed:
  assumes "segments_ok config ws" and "w \<in> set ws" and "wire_segment w = Some (name, n)"
  shows "agreed config name n"
  using assms by (cases w) (auto simp: segments_ok_iff agreed_def)

definition memory_ok :: "DetectorConfig \<Rightarrow> shared_memory \<Rightarrow> bool" where
  "memory_ok config m \<longleftrightarrow>
     (\<forall>name n. shm_sizes m name = Some n \<longrightarrow> agreed config name n) \<and>
     (\<forall>(svc, name, n) \<in> set (shm_maps m). agreed config name n \<and> name \<in> dom (shm_sizes m))"

lemma map_segment_ok:
  assumes "memory_ok config m" and "\<And>name n. wire_segment w = Some (name, n) \<Longrightarrow> agreed config name n"
  shows "memory_ok config (map_segment svc w m)"
  using assms by (auto simp: memory_ok_def map_segment_def split: option.splits)

lemma map_segments_ok:
  assumes "memory_ok config m" and "\<And>w name n. w \<in> set ws \<Longrightarrow> wire_segment w = Some (name, n) \<Longrightarrow> agreed config name n"
  shows "memory_ok config (fold (map_segment svc) ws m)"
  using assms
proof (induction ws arbitrary: m)
  case (Cons w ws)
  have "memory_ok config (map_segment svc w m)" using Cons.prems by (intro map_segment_ok) auto
  then show ?case using Cons by auto
qed simp

lemma start_services_ok:
  assumes "sized config" and "list_all (belongs config) svcs" and "forE (start_service config) svcs m = Inr m'" and "memory_ok config m"
  shows "memory_ok config m'"
  using assms(2-4)
proof (induction svcs arbitrary: m)
  case (Cons svc svcs)
  obtain ws where ws: "setup_of config svc = Inr ws" "forE (start_service config) svcs (fold (map_segment svc) ws m) = Inr m'"
    using Cons.prems(2) by (auto simp: start_service_def [of config svc] bindE_eq_Inr)
  have "segments_ok config ws" using setup_segments [OF assms(1) _ ws(1)] Cons.prems(1) by simp
  then have "memory_ok config (fold (map_segment svc) ws m)"
    using Cons.prems(3) wire_segment_agreed by (intro map_segments_ok) auto
  then show ?case using Cons.IH [OF _ ws(2)] Cons.prems(1) by simp
qed simp

lemma memory_ok_fits: "memory_ok config m \<Longrightarrow> (svc, name, n) \<in> set (shm_maps m) \<Longrightarrow> shm_sizes m name = Some n"
  unfolding memory_ok_def by (metis (no_types, lifting) agreed_unique case_prodD domD)

text \<open>The buffers that services open, with the layout each of them assumes.\<close>

fun wire_buffers :: "wire list \<Rightarrow> RamBufferConfig list" where
  "wire_buffers [] = []"
| "wire_buffers (Communicate rb cc # ws) = rb # wire_buffers ws"
| "wire_buffers (w # ws) = wire_buffers ws"

definition opened_buffers :: "DetectorConfig \<Rightarrow> service list \<Rightarrow> RamBufferConfig list" where
  "opened_buffers config svcs =
     concat (map (\<lambda>svc. case setup_of config svc of Inl _ \<Rightarrow> [] | Inr ws \<Rightarrow> wire_buffers ws) svcs)"

lemma wire_buffers_ok: "segments_ok config ws \<Longrightarrow> rb \<in> set (wire_buffers ws) \<Longrightarrow> segment_shape config rb"
  by (induction ws rule: wire_buffers.induct) auto

text \<open>C12. For a configuration with a positive image size and bit depth, with 16 bits for GigaFRoST and Jungfrau, and with an unpadded
  GigaFRoST geometry (width a multiple of 96 up to 2016, height 4 to 2016): when any services are started, in any order
  and any number, whose receivers and converters are those of the detector, whose suffixes are those of the five streams of
  images, and without array-1.0 and bsread receivers and buffer writers for converted Jungfrau images, then every segment has the
  size with which each process has mapped it, although each start truncates it anew, and processes that open
  the same segment agree on the size and the number of its slots.\<close>

theorem services_share_memory:
  assumes "sized config" and "list_all (belongs config) svcs" and "forE (start_service config) svcs no_memory = Inr m"
  shows "(\<forall>(svc, name, n) \<in> set (shm_maps m). shm_sizes m name = Some n) \<and>
    (\<forall>rb \<in> set (opened_buffers config svcs). \<forall>rb' \<in> set (opened_buffers config svcs).
      rbc_buffer_name rb = rbc_buffer_name rb' \<longrightarrow> rb = rb')"
proof -
  have "memory_ok config no_memory" by (simp add: memory_ok_def no_memory_def)
  then have ok: "memory_ok config m" using start_services_ok [OF assms] by simp
  have shape: "segment_shape config rb" if rb: "rb \<in> set (opened_buffers config svcs)" for rb
  proof -
    obtain svc ws where ws: "svc \<in> set svcs" "setup_of config svc = Inr ws" "rb \<in> set (wire_buffers ws)"
    proof -
      obtain svc where "svc \<in> set svcs" "rb \<in> set (case setup_of config svc of Inl _ \<Rightarrow> [] | Inr ws \<Rightarrow> wire_buffers ws)"
        using rb by (auto simp: opened_buffers_def)
      then show thesis by (cases "setup_of config svc") (auto intro: that)
    qed
    then have "segments_ok config ws" using setup_segments [OF assms(1)] assms(2) by (auto simp: list_all_iff)
    then show ?thesis using wire_buffers_ok ws(3) by blast
  qed
  show ?thesis using memory_ok_fits [OF ok] segment_shape_unique [OF shape shape] by auto
qed

theorem services_share_memory_witness:
  "\<exists>m. forE (start_service example_config) [Udp_Recv_GF 0, Convert_GF 0, Shm_Holder, Buffer_Writer, Stream_Send ''tcp'' 0] no_memory = Inr m \<and>
    length (shm_maps m) = 6 \<and> (\<forall>(svc, name, n) \<in> set (shm_maps m). shm_sizes m name = Some n)"
proof -
  let ?svcs = "[Udp_Recv_GF 0, Convert_GF 0, Shm_Holder, Buffer_Writer, Stream_Send ''tcp'' 0]"
  have "sized example_config" by (simp add: sized_def example_config_def gf_plain_def)
  moreover have "list_all (belongs example_config) ?svcs" by (simp add: example_config_def)
  moreover obtain m where "forE (start_service example_config) ?svcs no_memory = Inr m" "length (shm_maps m) = 6"
  proof -
    have sizes: "converted_image_n_bytes example_config = Inr 8128512" "slots_number example_config = Inr 1000"
      "max_data_bytes example_config = Inr 8128512" "calculate_image_offset example_config 0 = Inr 0"
      "max_single_sender_size example_config = Inr 1016064"
      by (simp_all add: converted_image_n_bytes_def slots_number_def max_data_bytes_def calculate_image_offset_def
        max_single_sender_size_def max_converted_image_byte_size_def forwarders_def
        example_config_def int_mul_def int_ok_iff u64_div_def MIN_RAM_BUFFER_N_SLOTS_def)
    have "is_ok (gf_geometry_of example_config)" "is_ok (calculate_data_sizes example_config)"
      using sizes(1) gf_full_frame
      by (simp_all add: gf_geometry_of_def calculate_data_sizes_def Let_def example_config_def)
    then obtain g n c where gf: "gf_geometry_of example_config = Inr g" "calculate_data_sizes example_config = Inr (n, c)"
      by (auto elim!: is_okE)
    have "stream_part example_config 0 = Inr (Some (0, 1016064))"
      using sizes by (simp add: stream_part_def calculate_image_bytes_sent_def)
    then show thesis
      using sizes gf by (intro that) (auto simp: start_service_def setup_defs image_segment_def raw_image_segment_def holder_buffer_size_def
        map_segment_def no_memory_def)
  qed
  ultimately show ?thesis using services_share_memory by blast
qed

section \<open>Where the processes disagree\<close>

text \<open>The writer of the buffer takes the bit depth for the size of a pixel: for converted Jungfrau images, which
  have four bytes per pixel, it cuts the segment under a process that has mapped it, and reads other slots.\<close>

definition jf_converted_config :: DetectorConfig where
  "jf_converted_config = example_config\<lparr>detector_type := ''jungfrau-converted'', image_pixel_width := 1024, image_pixel_height := 512\<rparr>"

lemma buffer_writer_cuts_images:
  "\<exists>m. forE (start_service jf_converted_config) [Buffer_Reader, Buffer_Writer] no_memory = Inr m \<and>
    (Buffer_Reader, ''stage.GF-image'', 2097152000) \<in> set (shm_maps m) \<and> shm_sizes m ''stage.GF-image'' = Some 1048576000"
proof -
  have "converted_image_n_bytes jf_converted_config = Inr 2097152" "slots_number jf_converted_config = Inr 1000"
    "max_data_bytes jf_converted_config = Inr 1048576"
    by (simp_all add: converted_image_n_bytes_def slots_number_def max_data_bytes_def jf_converted_config_def
      example_config_def int_mul_def int_ok_iff u64_div_def MIN_RAM_BUFFER_N_SLOTS_def)
  then show ?thesis
    by (simp add: start_service_def setup_defs image_segment_def raw_image_segment_def map_segment_def no_memory_def
      align_to_2mb_def stream_named_def) (simp add: jf_converted_config_def example_config_def)
qed

text \<open>When the last packet of a GigaFRoST frame is padded, the receiver counts the padding in the size of its
  slots and the converter does not.\<close>

lemma gf_padding_moves_slots:
  "\<exists>rb rb' img. opened_buffers gf_odd_config [Udp_Recv_GF 0] = [rb] \<and> opened_buffers gf_odd_config [Convert_GF 0] = [rb', img] \<and>
    rbc_buffer_name rb = rbc_buffer_name rb' \<and> rbc_n_bytes_data rb = 280152 \<and> rbc_n_bytes_data rb' = 280116"
proof -
  note geometry = gf_odd_config_def example_config_def n_rows_per_packet_def n_data_bytes_per_packet_def n_packets_per_frame_def
    module_n_x_pixels_def module_n_y_pixels_def module_n_data_bytes_def gf_PACKET_N_DATA_BYTES_MAX_def Let_def
  have "\<exists>g. gf_geometry_of gf_odd_config = Inr g \<and> gg_bytes_of_frame g = 280152"
    by (simp add: gf_geometry_of_def geometry)
  moreover have "converted_image_n_bytes gf_odd_config = Inr 2987904" "slots_number gf_odd_config = Inr 1000"
    by (simp_all add: converted_image_n_bytes_def slots_number_def gf_odd_config_def example_config_def int_mul_def int_ok_iff
      u64_div_def MIN_RAM_BUFFER_N_SLOTS_def)
  moreover from this have "\<exists>c. calculate_data_sizes gf_odd_config = Inr (280116, c)"
    by (simp add: calculate_data_sizes_def last_packet_n_bytes_def geometry)
  ultimately show ?thesis
    by (auto simp: opened_buffers_def setup_defs image_segment_def module_segment_def)
qed

section \<open>The parts that \<open>shm-holder\<close> maps\<close>

lemma tiles:
  fixes c n :: nat
  shows "concat (map (\<lambda>i. [i * c..<i * c + min c (n - i * c)]) [0..<k]) = [0..<min (k * c) n]"
proof (induction k)
  case (Suc k)
  show ?case
  proof (cases "k * c \<le> n")
    case True
    then have "min (Suc k * c) n = k * c + min c (n - k * c)" by (auto simp: min_def)
    then show ?thesis using Suc.IH True upt_add_eq_append [of 0 "k * c" "min c (n - k * c)"] by (simp add: min_def)
  next
    case False
    then have "min (k * c) n = n" "min (Suc k * c) n = n" "n - k * c = 0" by (auto simp: min_def)
    then show ?thesis using Suc.IH by simp
  qed
qed simp

text \<open>C40. The parts mapped by the threads are the whole segment, without gaps and without overlaps, in order.\<close>

theorem shm_holder_chunks_tile:
  assumes "unat n + unat min_chunk_size \<le> 2 ^ 64"
  shows "concat (map (\<lambda>(offset, chunk). [unat offset..<unat offset + unat chunk]) (holder_chunks n)) = [0..<unat n]"
proof -
  define C where "C = unat min_chunk_size"
  have C: "C = 10737418240" "0 < C" by (simp_all add: C_def min_chunk_size_def)
  define k where "k = (unat n + C - 1) div C"
  have e: "n + min_chunk_size - 1 = n + (10737418239 :: u64)" by (simp add: min_chunk_size_def)
  have "unat (n + min_chunk_size - 1) = unat n + C - 1"
    unfolding e using assms by (subst unat_add_no_wrap) (simp_all add: C(1) min_chunk_size_def)
  then have k: "unat (num_chunks n) = k" by (simp add: num_chunks_def unat_div k_def C_def [symmetric])
  have chunk: "unat (word_of_nat i * min_chunk_size) = i * C \<and>
      unat (min min_chunk_size (n - word_of_nat i * min_chunk_size)) = min C (unat n - i * C)" if "i < k" for i
  proof -
    have "Suc i * C \<le> k * C" using that by (intro mult_le_mono1) simp
    also have "k * C \<le> unat n + C - 1" by (simp add: k_def)
    finally have lt: "i * C < unat n" using C(2) by simp
    have n: "unat n < 2 ^ 64" using unsigned_less [of n] by simp
    have "i * 1 \<le> i * C" using C(2) by (intro mult_le_mono) simp_all
    then have "i < 2 ^ 64" using lt n by linarith
    then have "unat (word_of_nat i :: u64) = i" by (simp add: unat_of_nat take_bit_nat_eq_self)
    then have off: "unat (word_of_nat i * min_chunk_size) = i * C"
      using lt n by (subst unat_mult_no_wrap) (simp_all add: C_def)
    then have "unat (n - word_of_nat i * min_chunk_size) = unat n - i * C"
      using lt by (subst unat_sub) (simp_all add: word_le_nat_alt)
    then show ?thesis using off by (auto simp: min_def word_le_nat_alt C_def)
  qed
  have "map (\<lambda>(offset, chunk). [unat offset..<unat offset + unat chunk]) (holder_chunks n) =
    map (\<lambda>i. [i * C..<i * C + min C (unat n - i * C)]) [0..<k]"
    using chunk by (simp add: holder_chunks_def k Let_def)
  moreover have "unat n \<le> k * C"
    using div_mult_mod_eq [of "unat n + C - 1" C] mod_less_divisor [OF C(2), of "unat n + C - 1"] C(2)
    unfolding k_def by linarith
  ultimately show ?thesis using tiles [of C "unat n" k] by (simp add: min_absorb2)
qed

theorem shm_holder_chunks_tile_witness:
  "concat (map (\<lambda>(offset, chunk). [unat offset..<unat offset + unat chunk]) (holder_chunks 8128561152)) = [0..<8128561152]"
  using shm_holder_chunks_tile [of 8128561152] by (simp add: min_chunk_size_def)

end
