(* ===== verification/WireStreams.thy ===== *)
theory WireStreams
  imports Wiring
begin

text \<open>
  The sockets by which the processes of one machine find one another: which names they bind and connect, for
  every origin of the images and everything that can stand behind it.
\<close>

section \<open>Streams between the processes\<close>

text \<open>The sockets that are bound or connected on the machine, with their types and names.\<close>

fun ipc_streams :: "connection_type \<Rightarrow> wire list \<Rightarrow> (zmq_type \<times> string) list" where
  "ipc_streams conn [] = []"
| "ipc_streams conn (Communicate rb cc # ws) =
     (if cc_connection_type cc = conn then (cc_zmq_socket_type cc, cc_stream_name cc) # ipc_streams conn ws else ipc_streams conn ws)"
| "ipc_streams conn (Socket ty c (Ipc a) # ws) = (if c = conn then (ty, a) # ipc_streams conn ws else ipc_streams conn ws)"
| "ipc_streams conn (Socket ty c (External a) # ws) = ipc_streams conn ws"
| "ipc_streams conn (Hold name n # ws) = ipc_streams conn ws"

lemma ipc_streams_append [simp]: "ipc_streams conn (ws @ ws') = ipc_streams conn ws @ ipc_streams conn ws'"
  by (induction conn ws rule: ipc_streams.induct) auto

fun partner :: "zmq_type \<Rightarrow> zmq_type" where
  "partner ZMQ_PUB = ZMQ_SUB"
| "partner ZMQ_SUB = ZMQ_PUB"
| "partner ZMQ_PUSH = ZMQ_PULL"
| "partner ZMQ_PULL = ZMQ_PUSH"
| "partner ZMQ_REQ = ZMQ_REP"
| "partner ZMQ_REP = ZMQ_REQ"

primrec setups :: "DetectorConfig \<Rightarrow> service list \<Rightarrow> wire list res" where
  "setups config [] = Inr []"
| "setups config (svc # svcs) = bindE (setup_of config svc) (\<lambda>ws. bindE (setups config svcs) (\<lambda>us. Inr (ws @ us)))"

text \<open>Where the images of a machine come from: the modules of a detector, the stream of another machine in parts,
  an array-1.0 or a bsread stream, or the files of the buffer.\<close>

datatype image_origin = Modules | Remote string string | Array10 string zmq_type nat | Bsread | Replay string

definition module_receiver :: "DetectorConfig \<Rightarrow> u16 \<Rightarrow> service list" where
  "module_receiver config mid =
     (if detector_type config = ''gigafrost'' then [Udp_Recv_GF mid, Convert_GF mid]
      else if detector_type config = ''eiger'' then [Udp_Recv_EG mid, Convert_EG mid]
      else [Udp_Recv_JF mid, Convert_JF mid])"

fun origin_services :: "DetectorConfig \<Rightarrow> image_origin \<Rightarrow> service list" where
  "origin_services config Modules =
     concat (map (\<lambda>i. module_receiver config (word_of_nat i)) [0..<nat (n_modules config)]) @ [Sync_Module]"
| "origin_services config (Remote adr meta_adr) =
     map (\<lambda>i. Stream_Receive adr (int i)) [0..<nat (max_number_of_forwarders_spawned config)] @ [Sync_Stream, Sync_Metadata meta_adr]"
| "origin_services config (Array10 adr ty n) = [Array10_Recv adr ty n]"
| "origin_services config Bsread = [Bsread_Recv]"
| "origin_services config (Replay adr) = [Buffer_Reader, Buffer_Driver adr]"

definition sink_services :: "DetectorConfig \<Rightarrow> string \<Rightarrow> service list" where
  "sink_services config sfx =
     [Gf_Filter ''image'', Delay_Filter ''image'', Compress_Blosc2, Compress_Bshuf, Det_Driver sfx True, Meta_Writer] @
     map (\<lambda>i. Det_Writer sfx (word_of_nat i)) [0..<nat (number_of_writers config)]"

text \<open>Further processes that read one of the streams of images, and the holder of the shared memory.\<close>

fun further :: "service \<Rightarrow> bool" where
  "further (Live_Stream _ m _) = (m \<in> set source_suffixes)"
| "further (Metadata_Stream _ sfx) = (sfx \<in> set source_suffixes)"
| "further (Stream_Send _ _) = True"
| "further Buffer_Writer = True"
| "further Shm_Holder = True"
| "further _ = False"

definition machine :: "DetectorConfig \<Rightarrow> image_origin \<Rightarrow> string \<Rightarrow> service list \<Rightarrow> service list" where
  "machine config origin sfx others = origin_services config origin @ sink_services config sfx @ others"

lemma setups_append:
  "setups config (xs @ ys) = Inr ws \<longleftrightarrow> (\<exists>us vs. setups config xs = Inr us \<and> setups config ys = Inr vs \<and> ws = us @ vs)"
  by (induction xs arbitrary: ws) (auto simp: bindE_eq_Inr)

lemma setups_map_streams:
  assumes "setups config (concat (map f is)) = Inr ws"
    and "\<And>i us. i \<in> set is \<Longrightarrow> setups config (f i) = Inr us \<Longrightarrow> ipc_streams conn us = g i"
  shows "ipc_streams conn ws = concat (map g is)"
  using assms by (induction "is" arbitrary: ws) (auto simp: setups_append)

lemma module_receiver_streams:
  assumes "setups config (module_receiver config mid) = Inr ws"
  shows "ipc_streams CONN_TYPE_BIND ws = [(ZMQ_PUB, stream_named config (dec_digits (unat mid)))]"
    and "ipc_streams CONN_TYPE_CONNECT ws = [(ZMQ_SUB, stream_named config (dec_digits (unat mid))), (ZMQ_PUSH, stream_named config ''sync'')]"
  using assms
  by (auto simp: module_receiver_def setup_defs bindE_eq_Inr stream_config_def split: if_splits prod.splits)

lemma stream_receive_streams:
  assumes "stream_receive_setup config adr part = Inr ws"
  shows "ipc_streams CONN_TYPE_BIND ws = []"
    and "set (ipc_streams CONN_TYPE_CONNECT ws) \<subseteq> {(ZMQ_PUSH, stream_named config ''sync'')}"
  using assms
  by (auto simp: setup_defs bindE_eq_Inr stream_config_def split: if_splits option.splits)

lemma det_writer_streams:
  assumes "det_writer_setup config sfx wid = Inr ws" and "uint wid < number_of_writers config"
  shows "ipc_streams CONN_TYPE_BIND ws = [(ZMQ_PUSH, stream_named config (''writer-'' @ dec_digits (unat wid)))]"
    and "ipc_streams CONN_TYPE_CONNECT ws = [(ZMQ_PULL, stream_named config (''driver-'' @ dec_digits (unat wid)))]"
  using assms
  by (auto simp: setup_defs bindE_eq_Inr stream_config_def Let_def split: if_splits)

lemma det_driver_streams:
  assumes "det_driver_setup config sfx m = Inr ws"
  shows "ipc_streams CONN_TYPE_BIND ws = map (\<lambda>name. (ZMQ_PUSH, stream_named config (''driver-'' @ name))) (writer_names m config)"
    and "ipc_streams CONN_TYPE_CONNECT ws = map (\<lambda>name. (ZMQ_PULL, stream_named config (''writer-'' @ name))) (writer_names m config) @
      [(ZMQ_SUB, stream_named config sfx)]"
proof -
  have "ipc_streams CONN_TYPE_BIND (concat (map (\<lambda>name. [Socket ZMQ_PUSH CONN_TYPE_BIND (Ipc (f name)), Socket ZMQ_PULL CONN_TYPE_CONNECT (Ipc (g name))]) ns)) =
      map (\<lambda>name. (ZMQ_PUSH, f name)) ns"
    "ipc_streams CONN_TYPE_CONNECT (concat (map (\<lambda>name. [Socket ZMQ_PUSH CONN_TYPE_BIND (Ipc (f name)), Socket ZMQ_PULL CONN_TYPE_CONNECT (Ipc (g name))]) ns)) =
      map (\<lambda>name. (ZMQ_PULL, g name)) ns" for f g ns
    by (induction ns) auto
  then show "ipc_streams CONN_TYPE_BIND ws = map (\<lambda>name. (ZMQ_PUSH, stream_named config (''driver-'' @ name))) (writer_names m config)"
    "ipc_streams CONN_TYPE_CONNECT ws = map (\<lambda>name. (ZMQ_PULL, stream_named config (''writer-'' @ name))) (writer_names m config) @
      [(ZMQ_SUB, stream_named config sfx)]"
    using assms by (auto simp: det_driver_setup_def)
qed

lemma small_u16: "i < 2 ^ 16 \<Longrightarrow> unat (word_of_nat i :: u16) = i" "i < 2 ^ 16 \<Longrightarrow> uint (word_of_nat i :: u16) = int i"
  by (simp_all add: unsigned_of_nat take_bit_nat_eq_self)

lemma writers_streams:
  assumes "setups config (map (\<lambda>i. Det_Writer sfx (word_of_nat i)) [0..<nat (number_of_writers config)]) = Inr ws"
    and "number_of_writers config \<le> 2 ^ 16"
  shows "ipc_streams CONN_TYPE_BIND ws = map (\<lambda>i. (ZMQ_PUSH, stream_named config (''writer-'' @ dec_digits i))) [0..<nat (number_of_writers config)]"
    and "ipc_streams CONN_TYPE_CONNECT ws = map (\<lambda>i. (ZMQ_PULL, stream_named config (''driver-'' @ dec_digits i))) [0..<nat (number_of_writers config)]"
proof -
  let ?is = "[0..<nat (number_of_writers config)]"
  have ws: "setups config (concat (map (\<lambda>i. [Det_Writer sfx (word_of_nat i)]) ?is)) = Inr ws" using assms(1) by simp
  have small: "i < 2 ^ 16" "int i < number_of_writers config" if "i \<in> set ?is" for i using that assms(2) by auto
  have "ipc_streams CONN_TYPE_BIND us = [(ZMQ_PUSH, stream_named config (''writer-'' @ dec_digits i))]"
    "ipc_streams CONN_TYPE_CONNECT us = [(ZMQ_PULL, stream_named config (''driver-'' @ dec_digits i))]"
    if "i \<in> set ?is" "setups config [Det_Writer sfx (word_of_nat i)] = Inr us" for i us
    using det_writer_streams [of config sfx "word_of_nat i" us] that(2) small [OF that(1)] small_u16 [of i] by (auto simp: bindE_eq_Inr)
  from setups_map_streams [OF ws this(1)] setups_map_streams [OF ws this(2)]
  show "ipc_streams CONN_TYPE_BIND ws = map (\<lambda>i. (ZMQ_PUSH, stream_named config (''writer-'' @ dec_digits i))) ?is"
    "ipc_streams CONN_TYPE_CONNECT ws = map (\<lambda>i. (ZMQ_PULL, stream_named config (''driver-'' @ dec_digits i))) ?is"
    by simp_all
qed

lemma sink_streams:
  assumes "setups config (sink_services config sfx) = Inr ws" and "number_of_writers config \<le> 2 ^ 16"
  shows "ipc_streams CONN_TYPE_BIND ws =
      map (\<lambda>x. (ZMQ_PUB, stream_named config x)) [''filter'', ''delay-filter'', ''blosc2'', ''h5bitshuffle-lz4''] @
      map (\<lambda>x. (ZMQ_PUSH, stream_named config x))
        (map (\<lambda>name. ''driver-'' @ name) (writer_names True config) @ map (\<lambda>name. ''writer-'' @ name) (writer_names True config))"
    and "ipc_streams CONN_TYPE_CONNECT ws =
      map (\<lambda>_. (ZMQ_SUB, stream_named config ''image'')) [0..<4] @
      map (\<lambda>name. (ZMQ_PULL, stream_named config (''writer-'' @ name))) (writer_names True config) @ [(ZMQ_SUB, stream_named config sfx)] @
      map (\<lambda>name. (ZMQ_PULL, stream_named config (''driver-'' @ name))) (writer_names True config)"
proof -
  obtain a b c d e f g where parts: "gf_filter_setup config ''image'' = Inr a" "delay_filter_setup config ''image'' = Inr b"
    "compress_blosc2_setup config = Inr c" "compress_bshuf_setup config = Inr d" "det_driver_setup config sfx True = Inr e"
    "meta_writer_setup config = Inr f" "setups config (map (\<lambda>i. Det_Writer sfx (word_of_nat i)) [0..<nat (number_of_writers config)]) = Inr g"
    "ws = a @ b @ c @ d @ e @ f @ g"
    using assms(1) by (auto simp: sink_services_def setups_append bindE_eq_Inr)
  note single = setup_defs bindE_eq_Inr stream_config_def
  have "ipc_streams CONN_TYPE_BIND a = [(ZMQ_PUB, stream_named config ''filter'')]"
    "ipc_streams CONN_TYPE_CONNECT a = [(ZMQ_SUB, stream_named config ''image'')]" using parts(1) by (auto simp: single)
  moreover have "ipc_streams CONN_TYPE_BIND b = [(ZMQ_PUB, stream_named config ''delay-filter'')]"
    "ipc_streams CONN_TYPE_CONNECT b = [(ZMQ_SUB, stream_named config ''image'')]" using parts(2) by (auto simp: single)
  moreover have "ipc_streams CONN_TYPE_BIND c = [(ZMQ_PUB, stream_named config ''blosc2'')]"
    "ipc_streams CONN_TYPE_CONNECT c = [(ZMQ_SUB, stream_named config ''image'')]" using parts(3) by (auto simp: single)
  moreover have "ipc_streams CONN_TYPE_BIND d = [(ZMQ_PUB, stream_named config ''h5bitshuffle-lz4'')]"
    "ipc_streams CONN_TYPE_CONNECT d = [(ZMQ_SUB, stream_named config ''image'')]" using parts(4) by (auto simp: single)
  moreover have "ipc_streams CONN_TYPE_BIND f = [(ZMQ_PUSH, stream_named config ''writer-meta'')]"
    "ipc_streams CONN_TYPE_CONNECT f = [(ZMQ_PULL, stream_named config ''driver-meta'')]" using parts(6) by (auto simp: single)
  moreover note det_driver_streams [OF parts(5)] writers_streams [OF parts(7) assms(2)]
  ultimately show "ipc_streams CONN_TYPE_BIND ws =
      map (\<lambda>x. (ZMQ_PUB, stream_named config x)) [''filter'', ''delay-filter'', ''blosc2'', ''h5bitshuffle-lz4''] @
      map (\<lambda>x. (ZMQ_PUSH, stream_named config x))
        (map (\<lambda>name. ''driver-'' @ name) (writer_names True config) @ map (\<lambda>name. ''writer-'' @ name) (writer_names True config))"
    "ipc_streams CONN_TYPE_CONNECT ws =
      map (\<lambda>_. (ZMQ_SUB, stream_named config ''image'')) [0..<4] @
      map (\<lambda>name. (ZMQ_PULL, stream_named config (''writer-'' @ name))) (writer_names True config) @ [(ZMQ_SUB, stream_named config sfx)] @
      map (\<lambda>name. (ZMQ_PULL, stream_named config (''driver-'' @ name))) (writer_names True config)"
    by (simp_all add: parts(8) writer_names_def upt_rec comp_def)
qed

lemma modules_streams:
  assumes "setups config (concat (map (\<lambda>i. module_receiver config (word_of_nat i)) [0..<nat (n_modules config)])) = Inr ws"
    and "n_modules config \<le> 2 ^ 16"
  shows "ipc_streams CONN_TYPE_BIND ws = map (\<lambda>i. (ZMQ_PUB, stream_named config (dec_digits i))) [0..<nat (n_modules config)]"
    and "set (ipc_streams CONN_TYPE_CONNECT ws) \<subseteq>
      (\<lambda>i. (ZMQ_SUB, stream_named config (dec_digits i))) ` {0..<nat (n_modules config)} \<union> {(ZMQ_PUSH, stream_named config ''sync'')}"
proof -
  let ?is = "[0..<nat (n_modules config)]"
  have small: "unat (word_of_nat i :: u16) = i" if "i \<in> set ?is" for i using that assms(2) by (intro small_u16) auto
  have "ipc_streams CONN_TYPE_BIND us = [(ZMQ_PUB, stream_named config (dec_digits i))]"
    "ipc_streams CONN_TYPE_CONNECT us = [(ZMQ_SUB, stream_named config (dec_digits i)), (ZMQ_PUSH, stream_named config ''sync'')]"
    if "i \<in> set ?is" "setups config (module_receiver config (word_of_nat i)) = Inr us" for i us
    using module_receiver_streams [OF that(2)] small [OF that(1)] by simp_all
  from setups_map_streams [OF assms(1) this(1)] setups_map_streams [OF assms(1) this(2)]
  show "ipc_streams CONN_TYPE_BIND ws = map (\<lambda>i. (ZMQ_PUB, stream_named config (dec_digits i))) ?is"
    "set (ipc_streams CONN_TYPE_CONNECT ws) \<subseteq>
      (\<lambda>i. (ZMQ_SUB, stream_named config (dec_digits i))) ` {0..<nat (n_modules config)} \<union> {(ZMQ_PUSH, stream_named config ''sync'')}"
    by auto
qed

lemma remote_streams:
  assumes "setups config (map (\<lambda>i. Stream_Receive adr (int i)) is) = Inr ws"
  shows "ipc_streams CONN_TYPE_BIND ws = [] \<and> set (ipc_streams CONN_TYPE_CONNECT ws) \<subseteq> {(ZMQ_PUSH, stream_named config ''sync'')}"
  using assms
proof (induction "is" arbitrary: ws)
  case (Cons i "is")
  obtain us vs where "stream_receive_setup config adr (int i) = Inr us" "setups config (map (\<lambda>i. Stream_Receive adr (int i)) is) = Inr vs" "ws = us @ vs"
    using Cons.prems by (auto simp: bindE_eq_Inr)
  then show ?case using Cons.IH stream_receive_streams by auto
qed simp

text \<open>The streams inside an origin: names as suffixes.\<close>

definition closed_origin :: "DetectorConfig \<Rightarrow> wire list \<Rightarrow> string list \<Rightarrow> bool" where
  "closed_origin config ws xs \<longleftrightarrow> map snd (ipc_streams CONN_TYPE_BIND ws) = map (stream_named config) xs \<and> distinct xs \<and>
     set xs \<subseteq> {''image'', ''sync'', ''driver''} \<union> range dec_digits \<and>
     (ZMQ_PUB, stream_named config ''image'') \<in> set (ipc_streams CONN_TYPE_BIND ws) \<and>
     (\<forall>(ty, a) \<in> set (ipc_streams CONN_TYPE_CONNECT ws). (partner ty, a) \<in> set (ipc_streams CONN_TYPE_BIND ws))"

lemma origin_streams:
  assumes "setups config (origin_services config origin) = Inr ws" and "n_modules config \<le> 2 ^ 16"
  shows "\<exists>xs. closed_origin config ws xs"
proof -
  have names: "detector_name config @ ''-sync'' = stream_named config ''sync''" "detector_name config @ ''-image'' = stream_named config ''image''"
    by (simp_all add: stream_named_def)
  have sync: "ipc_streams CONN_TYPE_BIND (sync_sockets config) = [(ZMQ_PULL, stream_named config ''sync''), (ZMQ_PUB, stream_named config ''image'')]"
    "ipc_streams CONN_TYPE_CONNECT (sync_sockets config) = []"
    by (simp_all add: sync_sockets_def names)
  show ?thesis
  proof (cases origin)
    case Modules
    obtain us where us: "setups config (concat (map (\<lambda>i. module_receiver config (word_of_nat i)) [0..<nat (n_modules config)])) = Inr us"
      "ws = us @ sync_sockets config"
      using assms(1) Modules by (auto simp: setups_append bindE_eq_Inr sync_module_setup_def)
    have "distinct (map dec_digits [0..<nat (n_modules config)] @ [''sync'', ''image''])"
      by (auto simp: distinct_map inj_on_def dest!: dec_digits_all dec_digits_all [OF sym])
    then have "closed_origin config ws (map dec_digits [0..<nat (n_modules config)] @ [''sync'', ''image''])"
      using modules_streams [OF us(1) assms(2)] sync us(2) by (auto simp: closed_origin_def comp_def)
    then show ?thesis by blast
  next
    case (Remote adr meta_adr)
    obtain us where us: "setups config (map (\<lambda>i. Stream_Receive adr (int i)) [0..<nat (max_number_of_forwarders_spawned config)]) = Inr us"
      "ws = us @ (if sender_sends_full_images config then Socket ZMQ_SUB CONN_TYPE_CONNECT (External meta_adr) # sync_sockets config else sync_sockets config)"
      using assms(1) Remote by (auto simp: setups_append bindE_eq_Inr sync_stream_setup_def sync_metadata_setup_def)
    have "closed_origin config ws [''sync'', ''image'']"
      using remote_streams [OF us(1)] sync us(2) by (auto simp: closed_origin_def)
    then show ?thesis by blast
  next
    case (Array10 adr ty n)
    have "ipc_streams conn (replicate n (Socket ty CONN_TYPE_CONNECT (External adr))) = []" for conn by (induction n) auto
    then have "closed_origin config ws [''image'']"
      using assms(1) Array10 by (auto simp: setup_defs bindE_eq_Inr closed_origin_def stream_config_def)
    then show ?thesis by blast
  next
    case Bsread
    then have "closed_origin config ws [''image'']"
      using assms(1) by (auto simp: setup_defs bindE_eq_Inr closed_origin_def stream_config_def)
    then show ?thesis by blast
  next
    case (Replay adr)
    then have "closed_origin config ws [''image'', ''driver'']"
      using assms(1) by (auto simp: setup_defs bindE_eq_Inr closed_origin_def stream_config_def)
    then show ?thesis by blast
  qed
qed

lemma further_streams:
  assumes "setups config others = Inr ws" and "list_all further others"
  shows "ipc_streams CONN_TYPE_BIND ws = [] \<and>
    set (ipc_streams CONN_TYPE_CONNECT ws) \<subseteq> (\<lambda>x. (ZMQ_SUB, stream_named config x)) ` set source_suffixes"
  using assms
proof (induction others arbitrary: ws)
  case (Cons svc others)
  obtain us vs where us: "setup_of config svc = Inr us" "setups config others = Inr vs" "ws = us @ vs"
    using Cons.prems(1) by (auto simp: bindE_eq_Inr)
  have "''image'' \<in> set source_suffixes" by (simp add: source_suffixes_def)
  then have "ipc_streams CONN_TYPE_BIND us = [] \<and>
      set (ipc_streams CONN_TYPE_CONNECT us) \<subseteq> (\<lambda>x. (ZMQ_SUB, stream_named config x)) ` set source_suffixes"
    using us(1) Cons.prems(2)
    by (cases svc) (auto simp: setup_defs bindE_eq_Inr stream_config_def split: option.splits)
  then show ?case using Cons.IH [OF us(2)] Cons.prems(2) us(3) by auto
qed simp

lemma writer_names_distinct: "distinct (writer_names True config)"
  by (auto simp: writer_names_def distinct_map inj_on_def dest!: dec_digits_all dec_digits_all [OF sym])

text \<open>C11. A machine runs one origin of images (the receivers and converters of all modules with the module synchronizer;
  the stream receivers with the stream and the metadata synchronizer; the receiver of an array-1.0 or of a bsread stream; or the
  buffer reader with its driver), and behind it the two filters, the two compressors, the detector driver with the metadata writer
  and all image writers, and any number of live streams, metadata streams, stream senders, buffer writers
  and holders of the shared memory. Then no two processes bind the same name, and every socket that
  connects to a name of the machine finds a bound socket of the type that belongs to its own. There are at most \<open>2 ^ 16\<close>
  modules and writers, driver and streams read one of the five streams of images, and every process starts.\<close>

theorem machine_wired:
  assumes "setups config (machine config origin sfx others) = Inr ws" and "sfx \<in> set source_suffixes"
    and "list_all further others" and "n_modules config \<le> 2 ^ 16" and "number_of_writers config \<le> 2 ^ 16"
  shows "distinct (map snd (ipc_streams CONN_TYPE_BIND ws)) \<and>
    (\<forall>(ty, a) \<in> set (ipc_streams CONN_TYPE_CONNECT ws). (partner ty, a) \<in> set (ipc_streams CONN_TYPE_BIND ws))"
proof -
  obtain us vs os where parts: "setups config (origin_services config origin) = Inr us" "setups config (sink_services config sfx) = Inr vs"
    "ws = us @ vs @ os" and os: "setups config others = Inr os"
    using assms(1) by (auto simp: machine_def setups_append)
  obtain xs where xs: "closed_origin config us xs" using origin_streams [OF parts(1) assms(4)] by blast
  note sink = sink_streams [OF parts(2) assms(5)] and other = further_streams [OF os assms(3)]
  let ?ys = "[''filter'', ''delay-filter'', ''blosc2'', ''h5bitshuffle-lz4''] @
    map (\<lambda>name. ''driver-'' @ name) (writer_names True config) @ map (\<lambda>name. ''writer-'' @ name) (writer_names True config)"
  have "distinct ?ys" using writer_names_distinct by (auto simp: distinct_map inj_on_def)
  moreover have "x \<notin> set ?ys" if "x \<in> {''image'', ''sync'', ''driver''} \<union> range dec_digits" for x
    using that by (auto dest!: dec_digits_all dec_digits_all [OF sym])
  then have "set xs \<inter> set ?ys = {}" using xs unfolding closed_origin_def by blast
  moreover have bound: "map snd (ipc_streams CONN_TYPE_BIND ws) = map (stream_named config) (xs @ ?ys)"
    using xs sink(1) parts(3) other by (simp add: closed_origin_def comp_def)
  ultimately have "distinct (map snd (ipc_streams CONN_TYPE_BIND ws))"
    using xs unfolding bound by (simp only: distinct_map distinct_append closed_origin_def) (simp add: inj_on_def)
  moreover have "(partner ty, a) \<in> set (ipc_streams CONN_TYPE_BIND ws)" if "(ty, a) \<in> set (ipc_streams CONN_TYPE_CONNECT us)" for ty a
    using xs that parts(3) unfolding closed_origin_def by auto
  moreover have published: "(ZMQ_PUB, stream_named config x) \<in> set (ipc_streams CONN_TYPE_BIND ws)" if "x \<in> set source_suffixes" for x
    using that xs sink(1) parts(3) unfolding source_suffixes_def closed_origin_def by auto
  moreover have "(partner ty, a) \<in> set (ipc_streams CONN_TYPE_BIND ws)" if "(ty, a) \<in> set (ipc_streams CONN_TYPE_CONNECT os)" for ty a
    using that published other by auto
  moreover have "(partner ty, a) \<in> set (ipc_streams CONN_TYPE_BIND ws)" if connected: "(ty, a) \<in> set (ipc_streams CONN_TYPE_CONNECT vs)" for ty a
  proof -
    have "(ZMQ_PUB, stream_named config ''image'') \<in> set (ipc_streams CONN_TYPE_BIND ws)"
      "(ZMQ_PUB, stream_named config sfx) \<in> set (ipc_streams CONN_TYPE_BIND ws)"
      using published [of "''image''"] published [OF assms(2)] by (simp_all add: source_suffixes_def)
    moreover have "(ZMQ_PUSH, stream_named config (''driver-'' @ name)) \<in> set (ipc_streams CONN_TYPE_BIND ws)"
      "(ZMQ_PUSH, stream_named config (''writer-'' @ name)) \<in> set (ipc_streams CONN_TYPE_BIND ws)" if "name \<in> set (writer_names True config)" for name
      using that sink(1) parts(3) by (simp_all add: image_iff)
    ultimately show ?thesis using connected unfolding sink(2) by auto
  qed
  moreover have "set (ipc_streams CONN_TYPE_CONNECT ws) = set (ipc_streams CONN_TYPE_CONNECT us) \<union>
      set (ipc_streams CONN_TYPE_CONNECT vs) \<union> set (ipc_streams CONN_TYPE_CONNECT os)"
    by (simp add: parts(3) Un_assoc)
  ultimately show ?thesis by blast
qed

definition wired_config :: DetectorConfig where
  "wired_config = example_config\<lparr>number_of_writers := 2, n_modules := 1\<rparr>"

definition wired_machine :: "service list" where
  "wired_machine = machine wired_config Modules ''delay-filter'' [Buffer_Writer, Metadata_Stream ''tcp'' ''filter'']"

theorem machine_wired_witness:
  "\<exists>ws. setups wired_config wired_machine = Inr ws \<and>
    distinct (map snd (ipc_streams CONN_TYPE_BIND ws)) \<and>
    (ZMQ_SUB, ''stage.GF-delay-filter'') \<in> set (ipc_streams CONN_TYPE_CONNECT ws) \<and>
    (ZMQ_PUB, ''stage.GF-delay-filter'') \<in> set (ipc_streams CONN_TYPE_BIND ws)"
proof -
  have sizes: "converted_image_n_bytes wired_config = Inr 8128512" "slots_number wired_config = Inr 1000"
    by (simp_all add: converted_image_n_bytes_def slots_number_def wired_config_def
      example_config_def int_mul_def int_ok_iff u64_div_def MIN_RAM_BUFFER_N_SLOTS_def)
  have "is_ok (gf_geometry_of wired_config)" "is_ok (calculate_data_sizes wired_config)"
    using sizes(1) gf_full_frame
    by (simp_all add: gf_geometry_of_def calculate_data_sizes_def Let_def wired_config_def example_config_def)
  then obtain g n c where gf: "gf_geometry_of wired_config = Inr g" "calculate_data_sizes wired_config = Inr (n, c)"
    by (auto elim!: is_okE)
  have "is_ok (setups wired_config wired_machine)"
  proof -
    have fields: "detector_type wired_config = ''gigafrost''" "n_modules wired_config = 1" "number_of_writers wired_config = 2"
      by (simp_all add: wired_config_def example_config_def)
    have "[0..<nat 1] = [0]" "[0..<nat 2] = [0, 1]" by (simp_all add: upt_rec)
    then have services: "wired_machine =
      [Udp_Recv_GF 0, Convert_GF 0, Sync_Module, Gf_Filter ''image'', Delay_Filter ''image'', Compress_Blosc2, Compress_Bshuf,
       Det_Driver ''delay-filter'' True, Meta_Writer, Det_Writer ''delay-filter'' 0, Det_Writer ''delay-filter'' 1,
       Buffer_Writer, Metadata_Stream ''tcp'' ''filter'']"
      by (simp add: wired_machine_def machine_def sink_services_def module_receiver_def fields)
    have "max_data_bytes wired_config = Inr 8128512"
      by (simp add: max_data_bytes_def wired_config_def example_config_def int_mul_def int_ok_iff)
    then show ?thesis unfolding services by (simp add: setup_defs image_segment_def raw_image_segment_def sizes gf fields Let_def)
  qed
  then obtain ws where ws: "setups wired_config wired_machine = Inr ws" by (auto elim: is_okE)
  have wired: "distinct (map snd (ipc_streams CONN_TYPE_BIND ws)) \<and>
    (\<forall>(ty, a) \<in> set (ipc_streams CONN_TYPE_CONNECT ws). (partner ty, a) \<in> set (ipc_streams CONN_TYPE_BIND ws))"
    using machine_wired [OF ws [unfolded wired_machine_def]] by (simp add: wired_config_def example_config_def source_suffixes_def)
  moreover have "(ZMQ_SUB, ''stage.GF-delay-filter'') \<in> set (ipc_streams CONN_TYPE_CONNECT ws)"
  proof -
    obtain us vs os where "setups wired_config (sink_services wired_config ''delay-filter'') = Inr vs" "ws = us @ vs @ os"
      using ws unfolding wired_machine_def machine_def setups_append by blast
    from sink_streams(2) [OF this(1)] this(2) show ?thesis by (simp add: wired_config_def example_config_def stream_named_def)
  qed
  ultimately show ?thesis using ws by force
qed

text \<open>\<open>std-chunk-sender\<close> pulls from the stream of the images, which is a publisher: it finds no partner.\<close>

lemma chunk_sender_without_partner:
  assumes "setup_of config Chunk_Sender = Inr ws" and "sync_module_setup config = Inr us"
  shows "ipc_streams CONN_TYPE_CONNECT ws = [(ZMQ_PULL, stream_named config ''image'')] \<and>
    (partner ZMQ_PULL, stream_named config ''image'') \<notin> set (ipc_streams CONN_TYPE_BIND us)"
  using assms by (auto simp: setup_defs bindE_eq_Inr stream_config_def)

end
