(* ===== verification/Shapes.thy ===== *)
theory Shapes
  imports UdpRecv Converters Streams BufferReader
begin

text \<open>
  What the types of the source promise of the processes that write into a shared buffer: the layout of a
  buffer (number and size of the slots, size of the mapping) is fixed when it is opened, and the messages on
  the frame streams are structures of \<open>DET_FRAME_STRUCT_BYTES\<close> bytes, those on the image streams fit into the 512
  bytes that every process reserves for them.
\<close>

section \<open>Layout\<close>

definition same_shape :: "RamBuffer \<Rightarrow> RamBuffer \<Rightarrow> bool" where
  "same_shape a b \<longleftrightarrow> rb_n_slots b = rb_n_slots a \<and> rb_data_bytes b = rb_data_bytes a \<and>
     rb_buffer_bytes b = rb_buffer_bytes a \<and> length (rb_buffer b) = length (rb_buffer a)"

lemma same_shape_refl [simp]: "same_shape a a"
  by (simp add: same_shape_def)

lemma same_shape_trans: "same_shape a b \<Longrightarrow> same_shape b c \<Longrightarrow> same_shape a c"
  by (simp add: same_shape_def)

lemma same_shape_wf: "same_shape a b \<Longrightarrow> rb_wf b = rb_wf a"
  by (simp add: same_shape_def rb_wf_def)

lemma memcpy_length: "memcpy dst off src = Inr dst' \<Longrightarrow> length dst' = length dst"
  by (auto simp: memcpy_def split: if_splits)

lemma RamBuffer_write_shape: "RamBuffer_write rb img d = Inr rb' \<Longrightarrow> same_shape rb rb'"
  by (auto simp: RamBuffer_write_def bindE_eq_Inr same_shape_def split: option.splits if_splits dest: memcpy_length)

lemma write_bytes_shape: "write_bytes rb p d = Inr rb' \<Longrightarrow> same_shape rb rb'"
  by (auto simp: write_bytes_def bindE_eq_Inr same_shape_def dest: memcpy_length)

lemma Communicator_send_shape:
  "Communicator_send c img m d = Inr c' \<Longrightarrow> same_shape (comm_buffer c) (comm_buffer c') \<and> comm_sent c' = comm_sent c @ [m]"
  by (auto simp: Communicator_send_def bindE_eq_Inr RamBuffer_write_shape)

section \<open>The interface\<close>

text \<open>A process that takes events one by one: \<open>buffer_of\<close> is the buffer it writes to, \<open>messages\<close> the messages it has
  handed over (and those it keeps).\<close>

locale typed_process =
  fixes turn :: "'e \<Rightarrow> 's \<Rightarrow> 's res" and buffer_of :: "'s \<Rightarrow> RamBuffer" and messages :: "'s \<Rightarrow> byte list list"
    and message_ok :: "byte list \<Rightarrow> bool"
  assumes turn_shape: "turn e s = Inr s' \<Longrightarrow> same_shape (buffer_of s) (buffer_of s')"
    and turn_messages: "turn e s = Inr s' \<Longrightarrow> list_all message_ok (messages s) \<Longrightarrow> list_all message_ok (messages s')"
begin

lemma turns_shape: "forE turn es s = Inr s' \<Longrightarrow> same_shape (buffer_of s) (buffer_of s')"
proof (induction es arbitrary: s)
  case (Cons e es)
  obtain s1 where "turn e s = Inr s1" "forE turn es s1 = Inr s'" using Cons.prems by (auto simp: bindE_eq_Inr)
  then show ?case using Cons.IH turn_shape same_shape_trans by blast
qed simp

lemma turns_typed:
  assumes "forE turn es s = Inr s'" and "list_all message_ok (messages s)"
  shows "same_shape (buffer_of s) (buffer_of s') \<and> list_all message_ok (messages s')"
  using assms
proof (induction es arbitrary: s)
  case (Cons e es)
  obtain s1 where s1: "turn e s = Inr s1" "forE turn es s1 = Inr s'" using Cons.prems(1) by (auto simp: bindE_eq_Inr)
  then show ?case using Cons.IH turn_messages Cons.prems turns_shape [of "e # es" s s'] by blast
qed simp

lemma turns_keep_wf: "forE turn es s = Inr s' \<Longrightarrow> rb_wf (buffer_of s) \<Longrightarrow> rb_wf (buffer_of s')"
  using turns_shape same_shape_wf by blast

end

section \<open>The processes\<close>

abbreviation frame_ok :: "byte list \<Rightarrow> bool" where "frame_ok m \<equiv> length m = DET_FRAME_STRUCT_BYTES"
abbreviation meta_ok :: "byte list \<Rightarrow> bool" where "meta_ok m \<equiv> length m \<le> META_BUFFER"

abbreviation us_buffer :: "'m udp_state \<Rightarrow> RamBuffer" where "us_buffer st \<equiv> comm_buffer (us_sender st)"
abbreviation us_sent :: "'m udp_state \<Rightarrow> byte list list" where "us_sent st \<equiv> comm_sent (us_sender st)"

definition typed_send :: "Communicator \<Rightarrow> Communicator \<Rightarrow> bool" where
  "typed_send c c' \<longleftrightarrow> same_shape (comm_buffer c) (comm_buffer c') \<and>
     (list_all frame_ok (comm_sent c) \<longrightarrow> list_all frame_ok (comm_sent c'))"

lemma typed_send_refl [simp]: "typed_send c c"
  by (simp add: typed_send_def)

lemma send_frame_typed:
  assumes "send_frame bytes common st = Inr st'" and "\<And>m. frame_ok (bytes m)"
  shows "typed_send (us_sender st) (us_sender st')"
  using assms by (auto simp: send_frame_def typed_send_def bindE_eq_Inr dest!: Communicator_send_shape)

lemma copy_packet_sender: "copy_packet off d st = Inr st' \<Longrightarrow> us_sender st' = us_sender st"
  by (auto simp: copy_packet_def bindE_eq_Inr)

lemma jf_process_packet_typed: "jf_process_packet p st = Inr st' \<Longrightarrow> typed_send (us_sender st) (us_sender st')"
  by (auto simp: jf_process_packet_def bindE_eq_Inr Let_def split: if_splits dest!: copy_packet_sender send_frame_typed)

lemma eg_process_packet_typed: "eg_process_packet config mid p st = Inr st' \<Longrightarrow> typed_send (us_sender st) (us_sender st')"
  by (auto simp: eg_process_packet_def bindE_eq_Inr Let_def split: if_splits dest!: copy_packet_sender send_frame_typed)

lemma gf_send_typed: "gf_send_image_id st = Inr st' \<Longrightarrow> typed_send (us_sender st) (us_sender st')"
  by (auto simp: gf_send_image_id_def bindE_eq_Inr dest!: send_frame_typed)

lemma typed_send_trans: "typed_send a b \<Longrightarrow> typed_send b c \<Longrightarrow> typed_send a c"
  by (auto simp: typed_send_def intro: same_shape_trans)

lemma gf_process_packet_typed: "gf_process_packet g p st = Inr st' \<Longrightarrow> typed_send (us_sender st) (us_sender st')"
  by (auto simp: gf_process_packet_def bindE_eq_Inr Let_def split: if_splits dest!: copy_packet_sender gf_send_typed)

lemma gf_receive_packet_typed: "gf_receive_packet g p st = Inr st' \<Longrightarrow> typed_send (us_sender st) (us_sender st')"
  by (auto simp: gf_receive_packet_def bindE_eq_Inr split: if_splits dest!: gf_process_packet_typed gf_send_typed intro: typed_send_trans)

interpretation jf_typed: typed_process jf_process_packet us_buffer us_sent frame_ok
  by unfold_locales (auto dest!: jf_process_packet_typed simp: typed_send_def)

interpretation eg_typed: typed_process "eg_process_packet config mid" us_buffer us_sent frame_ok for config mid
  by unfold_locales (auto dest!: eg_process_packet_typed simp: typed_send_def)

interpretation gf_typed: typed_process "gf_receive_packet g" us_buffer us_sent frame_ok for g
  by unfold_locales (auto dest!: gf_receive_packet_typed simp: typed_send_def)

text \<open>A converter sends the frame structure it has received, from the buffer in which it keeps it.\<close>

lemma Communicator_receive_length: "Communicator_receive c meta msg = Inr (meta', img, p) \<Longrightarrow> length meta' = length meta"
  by (auto simp: Communicator_receive_def Communicator_receive_meta_def recv_into_def bindE_eq_Inr Let_def split: option.splits if_splits)

interpretation convert_typed: typed_process "convert_turn convert receiver" "\<lambda>(meta, sender). comm_buffer sender"
  "\<lambda>(meta, sender). meta # comm_sent sender" frame_ok for convert receiver
proof unfold_locales
  fix e s s'
  assume turn: "convert_turn convert receiver e s = Inr s'"
  obtain meta sender meta' sender' where s: "s = (meta, sender)" "s' = (meta', sender')" by (cases s, cases s')
  have "same_shape (comm_buffer sender) (comm_buffer sender') \<and> length meta' = length meta \<and> comm_sent sender' \<in> {comm_sent sender, comm_sent sender @ [meta']}"
    using turn s by (auto simp: convert_turn_def bindE_eq_Inr split: if_splits
      dest!: Communicator_receive_length RamBuffer_write_shape Communicator_send_shape intro: same_shape_trans)
  then show "same_shape (case s of (meta, sender) \<Rightarrow> comm_buffer sender) (case s' of (meta, sender) \<Rightarrow> comm_buffer sender)"
    "list_all frame_ok (case s of (meta, sender) \<Rightarrow> meta # comm_sent sender) \<Longrightarrow>
     list_all frame_ok (case s' of (meta, sender) \<Rightarrow> meta # comm_sent sender)"
    using s by auto
qed

text \<open>A stream receiver hands on the metadata it has received.\<close>

lemma received_meta_ok: "received_meta msg = Inr (Some m) \<Longrightarrow> meta_ok m"
  by (auto simp: received_meta_def split: option.splits if_splits)

lemma received_data_shape: "received_successfully_data d p n rb = Inr (ok, rb') \<Longrightarrow> same_shape rb rb'"
  by (auto simp: received_successfully_data_def bindE_eq_Inr split: option.splits dest: write_bytes_shape)

interpretation stream_typed: typed_process "\<lambda>(msg, d). stream_receive_turn parse part msg d" "\<lambda>(sender, stats). comm_buffer sender"
  "\<lambda>(sender, stats). comm_sent sender" meta_ok for parse part
proof unfold_locales
  fix e s s'
  assume turn: "(case e of (msg, d) \<Rightarrow> stream_receive_turn parse part msg d) s = Inr s'"
  obtain msg d sender stats sender' stats' where s: "e = (msg, d)" "s = (sender, stats)" "s' = (sender', stats')" by (cases e, cases s, cases s')
  have "same_shape (comm_buffer sender) (comm_buffer sender') \<and> (list_all meta_ok (comm_sent sender) \<longrightarrow> list_all meta_ok (comm_sent sender'))"
    using turn s by (auto simp: stream_receive_turn_def bindE_eq_Inr Let_def split: if_splits option.splits
      dest!: received_meta_ok received_data_shape Communicator_send_shape) (blast intro: same_shape_trans)
  then show "same_shape (case s of (sender, stats) \<Rightarrow> comm_buffer sender) (case s' of (sender, stats) \<Rightarrow> comm_buffer sender)"
    "list_all meta_ok (case s of (sender, stats) \<Rightarrow> comm_sent sender) \<Longrightarrow> list_all meta_ok (case s' of (sender, stats) \<Rightarrow> comm_sent sender)"
    using s by auto
qed

text \<open>The loader of the buffer reader writes images and sends nothing.\<close>

lemma read_single_image_shape:
  "read_single_image b bm (bh, comm) = Inr (bh', comm') \<Longrightarrow> same_shape (comm_buffer comm) (comm_buffer comm')"
  by (auto simp: read_single_image_def bindE_eq_Inr Let_def split: option.splits) (rule write_bytes_shape)

lemma loader_step_shape:
  "loader_step env (bh, comm) = Inr (bh', comm') \<Longrightarrow> same_shape (comm_buffer comm) (comm_buffer comm')"
  by (auto simp: loader_step_def bindE_eq_Inr split: option.splits loader_pc.splits list.splits if_splits intro: read_single_image_shape)

interpretation loader_typed: typed_process "\<lambda>_. loader_step env" "\<lambda>(bh, comm). comm_buffer comm" "\<lambda>(bh, comm). comm_sent comm" "\<lambda>_. True" for env
  by unfold_locales (auto simp: list_all_iff intro: loader_step_shape)

end
