(* ===== verification/Gains.thy ===== *)
theory Gains
  imports Converters
begin

text \<open>
  \<open>std-data-convert-jf/read_gains_and_pedestals\<close> and the converting path of the Jungfrau converter: from the
  datasets of the file to the values of the pixels.

  HDF5 is an argument: the contents of the two datasets (\<open>None\<close>: it cannot be opened or read, which the
  source does not notice). \<open>'d\<close> is \<open>double\<close>, \<open>'r\<close> is \<open>float\<close>, \<open>narrow\<close> the conversion between them.
\<close>

section \<open>Reading the parameters\<close>

definition N_GAINS :: nat where "N_GAINS = 3"

definition decode_parameters ::
  "('d \<Rightarrow> 'r) \<Rightarrow> (nat \<Rightarrow> 'd list) \<Rightarrow> 'd list option \<Rightarrow> u64 \<Rightarrow> 'r list list res" where
  "decode_parameters narrow mem dataset image_size =
     (let n = unat image_size; fresh = mem (N_GAINS * n); contents = (case dataset of None \<Rightarrow> [] | Some d \<Rightarrow> d) in
      bindE (memcpy fresh 0 contents) (\<lambda>data.
      Inr (map (\<lambda>i. map (\<lambda>j. narrow (data ! (i * n + j))) [0..<n]) [0..<N_GAINS])))"

definition read_gains_and_pedestals ::
  "('d \<Rightarrow> 'r) \<Rightarrow> (nat \<Rightarrow> 'd list) \<Rightarrow> (string \<Rightarrow> 'd list option) \<Rightarrow> u64 \<Rightarrow> ('r list list \<times> 'r list list) res" where
  "read_gains_and_pedestals narrow mem datasets image_size =
     bindE (decode_parameters narrow mem (datasets ''/gains'') image_size) (\<lambda>gains.
     bindE (decode_parameters narrow mem (datasets ''/gainsRMS'') image_size) (\<lambda>pedestals.
     Inr (gains, pedestals)))"

lemma decode_parameters_complete:
  assumes "length d = N_GAINS * unat n" and "length (mem (N_GAINS * unat n)) = N_GAINS * unat n"
  shows "decode_parameters narrow mem (Some d) n =
    Inr (map (\<lambda>i. map (\<lambda>j. narrow (d ! (i * unat n + j))) [0..<unat n]) [0..<N_GAINS])"
  using assms by (simp add: decode_parameters_def memcpy_def overwrite_def Let_def)

section \<open>Converting\<close>

text \<open>A loop that assigns to different places.\<close>

lemma forE_updates:
  assumes "\<And>p xs. p \<in> set ps \<Longrightarrow> length xs = n \<Longrightarrow> f p xs = Inr (xs[d p := v p])"
    and "\<And>p. p \<in> set ps \<Longrightarrow> d p < n" and "distinct ps" and "inj_on d (set ps)" and "length xs = n"
  shows "\<exists>xs'. forE f ps xs = Inr xs' \<and> length xs' = n \<and> (\<forall>p \<in> set ps. xs' ! d p = v p) \<and>
    (\<forall>j < n. j \<notin> d ` set ps \<longrightarrow> xs' ! j = xs ! j)"
  using assms
proof (induction ps arbitrary: xs)
  case (Cons p ps)
  have "f p xs = Inr (xs[d p := v p])" using Cons.prems by simp
  moreover obtain xs' where xs': "forE f ps (xs[d p := v p]) = Inr xs'" "length xs' = n" "\<forall>p \<in> set ps. xs' ! d p = v p"
    "\<forall>j < n. j \<notin> d ` set ps \<longrightarrow> xs' ! j = xs[d p := v p] ! j"
    using Cons.IH [of "xs[d p := v p]"] Cons.prems by auto
  moreover have "d p \<notin> d ` set ps" "d p < n" using Cons.prems by (auto simp: inj_on_def)
  ultimately show ?case using Cons.prems(5) by (auto simp: nth_list_update)
qed simp

definition gain_group :: "u16 \<Rightarrow> nat" where
  "gain_group px = unat (drop_bit 14 px) mod N_GAINS"

lemma jf_convert_pixel_ok:
  assumes "i * 1024 + j < length input" and "i * 1024 + j < length (jfc_gains_and_pedestals cv ! gain_group (input ! (i * 1024 + j)))"
    and "unat (jfc_start_index cv + word_of_nat i * jfc_row_jump cv + word_of_nat j) = dst" and "dst < length out"
  shows "jf_convert_pixel corr cv input (i, j) out = Inr (out[dst :=
    (let gp = jfc_gains_and_pedestals cv ! gain_group (input ! (i * 1024 + j)) ! (i * 1024 + j) in corr (input ! (i * 1024 + j) AND 0x3FFF) (snd gp) (fst gp))])"
  using assms by (simp add: jf_convert_pixel_def jf_consts Let_def gain_group_def N_GAINS_def)

text \<open>The reader that \<open>create_converter\<close> calls.\<close>

definition gains_reader ::
  "('d \<Rightarrow> 'r) \<Rightarrow> (nat \<Rightarrow> 'd list) \<Rightarrow> (string \<Rightarrow> string \<Rightarrow> 'd list option) \<Rightarrow> string \<Rightarrow> u64 \<Rightarrow> 'r list list \<times> 'r list list" where
  "gains_reader narrow mem files filename n =
     (case read_gains_and_pedestals narrow mem (files filename) n of Inl _ \<Rightarrow> ([], []) | Inr gp \<Rightarrow> gp)"

lemma zip_map_upt: "zip (map f [0..<k]) (map g [0..<k]) = map (\<lambda>j. (f j, g j)) [0..<k]"
  by (simp add: zip_map_map zip_same_conv_map)

lemma created_converter:
  assumes "create_converter (gains_reader narrow mem files) filename config mid = Inr cv" and "filename \<noteq> []"
    and "image_pixel_height config = int h" and "image_pixel_width config = int w" and "h * w < 2 ^ 32" and "\<And>k. length (mem k) = k"
    and "files filename ''/gains'' = Some gains" and "files filename ''/gainsRMS'' = Some pedestals"
    and "length gains = 3 * (h * w)" and "length pedestals = 3 * (h * w)"
  obtains cv0 where "jf_Converter_ctor config mid = Inr cv0" "cv = cv0\<lparr>jfc_with_gains := True, jfc_gains_and_pedestals :=
    map (\<lambda>i. map (\<lambda>j. (narrow (gains ! (i * (h * w) + j)), narrow (pedestals ! (i * (h * w) + j)))) [0..<h * w]) [0..<3]\<rparr>"
proof -
  define n :: u64 where "n = word_of_nat h * word_of_nat w"
  have n: "unat n = h * w" using small_word [OF assms(5)] by (simp add: n_def)
  let ?params = "\<lambda>d. map (\<lambda>i. map (\<lambda>j. narrow (d ! (i * (h * w) + j))) [0..<h * w]) [0..<3]"
  have reader: "gains_reader narrow mem files filename n = (?params gains, ?params pedestals)"
    using decode_parameters_complete [of gains n mem narrow] decode_parameters_complete [of pedestals n mem narrow]
      assms(6-10) by (simp add: gains_reader_def read_gains_and_pedestals_def N_GAINS_def n)
  have "[0..<3] = [0, 1, 2 :: nat]" by (simp add: upt_rec)
  then show thesis
    using assms(1-4) reader
    by (auto simp: create_converter_def jf_Converter_gains_ctor_def bindE_eq_Inr int_mul_def n_def [symmetric] zip_map_upt split: if_splits intro!: that)
qed

lemma pixel_places_inj:
  assumes "x + 1024 \<le> w"
  shows "inj_on (\<lambda>(r :: nat, c). (y + r) * w + x + c) (set (List.product [0..<512] [0..<1024]))"
proof (rule inj_onI)
  fix p q :: "nat \<times> nat"
  assume pq: "p \<in> set (List.product [0..<512] [0..<1024])" "q \<in> set (List.product [0..<512] [0..<1024])"
    "(case p of (r, c) \<Rightarrow> (y + r) * w + x + c) = (case q of (r, c) \<Rightarrow> (y + r) * w + x + c)"
  then have eq: "(y + fst p) * w + (x + snd p) = (y + fst q) * w + (x + snd q)" "x + snd p < w" "x + snd q < w"
    using assms by auto
  then have "y + fst p = y + fst q" by (metis (no_types, lifting) add_diff_cancel_left' div_mult_self3 div_less le_add1 less_nat_zero_code add.right_neutral)
  then show "p = q" using eq(1) by (simp add: prod_eq_iff)
qed

text \<open>C39. With gains the converter writes every pixel of a module that is inside the image at its place: the lower
  14 bits, corrected with the pedestal and the gain of the group that the upper two bits name. The rest of the
  image is left alone. Gain and pedestal are those at the position of the pixel in the module, although the
  datasets have the size of the image: all modules are corrected with the values of the first pixels.\<close>

theorem jf_converted_correct:
  assumes "create_converter (gains_reader narrow mem files) filename config mid = Inr cv" and "filename \<noteq> []"
    and "get_module_start_position config (word_of_int mid) = Inr \<lparr>pt_x = int x, pt_y = int y\<rparr>"
    and "image_pixel_height config = int h" and "image_pixel_width config = int w" and "x + 1024 \<le> w" and "y + 512 \<le> h" and "h * w < 2 ^ 32"
    and "\<And>k. length (mem k) = k" and "files filename ''/gains'' = Some gains" and "files filename ''/gainsRMS'' = Some pedestals"
    and "length gains = 3 * (h * w)" and "length pedestals = 3 * (h * w)" and "length input = 512 * 1024" and "length out = h * w"
  shows "\<exists>out'. jf_convert_data corr cv input out = Inr out' \<and> length out' = length out \<and>
    (\<forall>r < 512. \<forall>c < 1024. let px = input ! (r * 1024 + c); k = gain_group px * (h * w) + (r * 1024 + c) in
       out' ! ((y + r) * w + x + c) = corr (px AND 0x3FFF) (narrow (pedestals ! k)) (narrow (gains ! k))) \<and>
    (\<forall>j < h * w. (\<forall>r < 512. \<forall>c < 1024. j \<noteq> (y + r) * w + x + c) \<longrightarrow> out' ! j = out ! j)"
proof -
  let ?gp = "\<lambda>i j. (narrow (gains ! (i * (h * w) + j)), narrow (pedestals ! (i * (h * w) + j)))"
  obtain cv0 where cv0: "jf_Converter_ctor config mid = Inr cv0"
    and cv: "cv = cv0\<lparr>jfc_with_gains := True, jfc_gains_and_pedestals := map (\<lambda>i. map (?gp i) [0..<h * w]) [0..<3]\<rparr>"
    using created_converter [OF assms(1,2,4,5,8-13)] .
  have size: "512 * 1024 \<le> h * w" using mult_le_mono [of 512 h 1024 w] assms(6,7) by simp
  define d where "d = (\<lambda>(r :: nat, c). (y + r) * w + x + c)"
  define v where "v = (\<lambda>(r, c). let px = input ! (r * 1024 + c); k = gain_group px * (h * w) + (r * 1024 + c) in
       corr (px AND 0x3FFF) (narrow (pedestals ! k)) (narrow (gains ! k)))"
  let ?ps = "List.product [0..<512] [0..<1024]"
  have inside: "d p < h * w" if "p \<in> set ?ps" for p
    using that block_in_range [of "y + fst p" h w] assms(6,7) by (auto simp: d_def)
  have step: "jf_convert_pixel corr cv input p xs = Inr (xs[d p := v p])" if p: "p \<in> set ?ps" and xs: "length xs = h * w" for p xs
  proof -
    obtain r c where rc: "p = (r, c)" "r < 512" "c < 1024" using p by auto
    then have index: "r * 1024 + c < 512 * 1024" by simp
    define px where "px = input ! (r * 1024 + c)"
    have "gain_group px < 3" by (simp add: gain_group_def N_GAINS_def)
    then have row: "jfc_gains_and_pedestals cv ! gain_group px = map (?gp (gain_group px)) [0..<h * w]" by (simp add: cv)
    have "jf_row_start w x y r + c < h * w" using inside [OF p] rc(1) by (simp add: d_def jf_row_start_def)
    then have d: "d p < 2 ^ 32" "d p = jf_row_start w x y r + c" and small: "jf_row_start w x y r < 2 ^ 32"
      using assms(8) by (simp_all add: rc(1) d_def jf_row_start_def)
    have "unat (jfc_start_index cv0 + word_of_nat r * jfc_row_jump cv0) = jf_row_start w x y r"
      using jf_start_word [OF cv0 assms(3,5) small] .
    then have dst: "unat (jfc_start_index cv + word_of_nat r * jfc_row_jump cv + word_of_nat c) = d p"
      using d rc(3) small_word [of c] by (subst unat_add_no_wrap) (simp_all add: cv)
    show ?thesis
      unfolding rc(1) using jf_convert_pixel_ok [of r c input cv "d p" xs corr] dst index size assms(14) inside [OF p] xs row
      by (simp add: rc(1) v_def px_def [symmetric] Let_def)
  qed
  have inj: "inj_on d (set ?ps)" unfolding d_def by (rule pixel_places_inj [OF assms(6)])
  have "distinct ?ps" by (simp add: distinct_product)
  from forE_updates [of ?ps "h * w" "jf_convert_pixel corr cv input" d v out, OF step inside this inj assms(15)]
  obtain out' where out': "forE (jf_convert_pixel corr cv input) ?ps out = Inr out'" "length out' = h * w" "\<forall>p \<in> set ?ps. out' ! d p = v p"
    "\<forall>j < h * w. j \<notin> d ` set ?ps \<longrightarrow> out' ! j = out ! j" by blast
  have "jf_convert_data corr cv input out = Inr out'"
    using out'(1) size assms(14) by (simp add: jf_convert_data_def cv jf_consts)
  moreover have "\<exists>r < 512. \<exists>c < 1024. j = (y + r) * w + x + c" if j: "j \<in> d ` set ?ps" for j
  proof -
    obtain r c where "r < 512" "c < 1024" "j = d (r, c)" using j by auto
    then show ?thesis unfolding d_def prod.case by blast
  qed
  then have "j \<notin> d ` set ?ps" if "\<forall>r < 512. \<forall>c < 1024. j \<noteq> (y + r) * w + x + c" for j using that by blast
  moreover have "\<forall>r < 512. \<forall>c < 1024. out' ! d (r, c) = v (r, c)" using out'(3) by simp
  ultimately show ?thesis using out'(2,4) assms(15) unfolding d_def v_def by simp
qed

theorem jf_converted_correct_witness:
  "\<exists>cv out'. create_converter (gains_reader id (\<lambda>k. replicate k 0) (\<lambda>_ name. Some (replicate 1572864 (if name = ''/gains'' then 2 else 1 :: nat))))
      ''gains.h5'' (jf_config 0) 0 = Inr cv \<and>
    jf_convert_data (\<lambda>x p g. (unat x - p) * g) cv (replicate 524288 0x4007) (replicate 524288 0) = Inr out' \<and> out' ! 5 = 12"
proof -
  let ?files = "\<lambda>(_ :: string) name. Some (replicate 1572864 (if name = ''/gains'' then 2 else 1 :: nat))"
  let ?reader = "gains_reader id (\<lambda>k. replicate k 0) ?files"
  have pos: "get_module_start_position (jf_config 0) (word_of_int 0) = Inr \<lparr>pt_x = int 0, pt_y = int 0\<rparr>"
    by (simp add: get_module_start_position_def um_at_def jf_config_def)
  have size: "image_pixel_height (jf_config 0) = int 512" "image_pixel_width (jf_config 0) = int 1024" by (simp_all add: jf_config_def)
  have "is_ok (jf_Converter_ctor (jf_config 0) 0 :: nat jf_Converter res)"
    by (simp add: jf_Converter_ctor_def jf_calculate_start_index_def get_module_start_position_def get_module_end_position_def um_at_def
      jf_config_def int_mul_def int_ok_iff test_if_module_is_inside_image_def test_if_module_size_fits_jungfrau_def jf_consts)
  then obtain cv0 :: "nat jf_Converter" where cv0: "jf_Converter_ctor (jf_config 0) 0 = Inr cv0" by (auto elim: is_okE)
  have decode: "decode_parameters id (\<lambda>k. replicate k 0) (Some (replicate 1572864 b)) 524288 =
      Inr (map (\<lambda>i. map (\<lambda>j. id (replicate 1572864 b ! (i * unat (524288 :: u64) + j))) [0..<unat (524288 :: u64)]) [0..<N_GAINS])" for b :: nat
    by (rule decode_parameters_complete) (simp_all add: N_GAINS_def)
  have "is_ok (create_converter ?reader ''gains.h5'' (jf_config 0) 0)"
    using cv0 size
    by (simp add: create_converter_def int_mul_def int_ok_iff gains_reader_def read_gains_and_pedestals_def decode jf_Converter_gains_ctor_def N_GAINS_def
      del: upt_Suc)
  then obtain cv where cv: "create_converter ?reader ''gains.h5'' (jf_config 0) 0 = Inr cv" by (auto elim: is_okE)
  from jf_converted_correct [OF cv _ pos size, of "replicate 1572864 2" "replicate 1572864 1" "replicate 524288 0x4007" "replicate 524288 0" "\<lambda>x p g. (unat x - p) * g"]
  obtain out' where out': "jf_convert_data (\<lambda>x p g. (unat x - p) * g) cv (replicate 524288 0x4007) (replicate 524288 0) = Inr out'"
    "\<forall>r < 512. \<forall>c < 1024. let px = replicate 524288 0x4007 ! (r * 1024 + c); k = gain_group px * (512 * 1024) + (r * 1024 + c) in
       out' ! ((0 + r) * 1024 + 0 + c) = (unat (px AND 0x3FFF) - id (replicate 1572864 1 ! k)) * id (replicate 1572864 2 ! k)"
    by auto
  have "gain_group 0x4007 = 1" by (simp add: gain_group_def N_GAINS_def drop_bit_eq_div)
  then have "out' ! 5 = 12" using out'(2) [rule_format, of 0 5] by (simp add: Let_def)
  then show ?thesis using cv out'(1) by blast
qed

end
