(* ===== verification/EigerPipeline.thy ===== *)
theory EigerPipeline
  imports Shapes
begin

text \<open>
  The way of an Eiger frame: the packets of a module that arrive over UDP, the frame in the RAM buffer of the
  receiver, the converter that takes it from there, and the bytes in the slot of the image.
\<close>

section \<open>The Eiger converter\<close>

text \<open>\<open>b\<close> is the number of bytes of a pixel, \<open>w\<close> the width of the image; \<open>Y\<close> gives the row of the image for a row of the
  module.\<close>

definition eg_row_start :: "nat \<Rightarrow> nat \<Rightarrow> nat \<Rightarrow> (nat \<Rightarrow> nat) \<Rightarrow> nat \<Rightarrow> nat" where
  "eg_row_start b w x Y r = (Y r * w + x) * b"

definition eg_image_row :: "nat \<Rightarrow> bool \<Rightarrow> nat \<Rightarrow> nat" where
  "eg_image_row y flipped r = (if flipped then y - r else y + r)"

text \<open>The place in the image of byte \<open>m\<close> of a frame: two chips of 256 pixels in a row, with a gap of two pixels.\<close>

definition eg_place :: "nat \<Rightarrow> nat \<Rightarrow> nat \<Rightarrow> (nat \<Rightarrow> nat) \<Rightarrow> nat \<Rightarrow> nat" where
  "eg_place b w x Y m =
     (let row = m div (512 * b); col = m mod (512 * b)
      in eg_row_start b w x Y row + (if col < 256 * b then col else col + 2 * b))"

definition eg_placed :: "DetectorConfig \<Rightarrow> int \<Rightarrow> nat \<Rightarrow> nat \<Rightarrow> nat \<Rightarrow> nat \<Rightarrow> nat \<Rightarrow> bool \<Rightarrow> bool" where
  "eg_placed config mid b h w x y flipped \<longleftrightarrow>
     bit_depth config = 8 * int b \<and> b \<in> {1, 2, 4} \<and> image_pixel_width config = int w \<and> h * w * b < 2 ^ 31 \<and> x + 514 \<le> w \<and>
     (if flipped then 255 \<le> y \<and> y < h else y + 256 \<le> h) \<and>
     get_module_start_position config (word_of_int mid) = Inr \<lparr>pt_x = int x, pt_y = int y\<rparr> \<and>
     (\<forall>e. get_module_end_position config (word_of_int mid) = Inr e \<longrightarrow> (pt_y e < int y \<longleftrightarrow> flipped))"

lemma eg_image_row_less:
  assumes "eg_placed config mid b h w x y flipped" and "r < 256"
  shows "eg_image_row y flipped r < h"
  using assms by (auto simp: eg_placed_def eg_image_row_def split: if_splits)

lemma eg_image_row_inj:
  assumes "eg_placed config mid b h w x y flipped" and "r < 256" and "r' < 256" and "r \<noteq> r'"
  shows "eg_image_row y flipped r \<noteq> eg_image_row y flipped r'"
  using assms by (auto simp: eg_placed_def eg_image_row_def split: if_splits)

lemma eg_row_inside:
  assumes "eg_placed config mid b h w x y flipped" and "r < 256"
  shows "eg_row_start b w x (eg_image_row y flipped) r + 514 * b \<le> h * w * b"
proof -
  have "eg_image_row y flipped r * w + w \<le> h * w" using eg_image_row_less [OF assms] by (rule block_in_range)
  then have "eg_image_row y flipped r * w + x + 514 \<le> h * w" using assms(1) by (simp add: eg_placed_def)
  then have "(eg_image_row y flipped r * w + x + 514) * b \<le> h * w * b" by (rule mult_le_mono1)
  then show ?thesis by (simp add: eg_row_start_def add_mult_distrib)
qed

lemma sint_u32_small: "n < 2 ^ 31 \<Longrightarrow> sint (word_of_nat n :: u32) = int n"
  by (simp add: signed_of_nat signed_take_bit_int_eq_self)

lemma ucast_u32_nat: "(ucast (word_of_nat n :: u64) :: u32) = word_of_nat n"
  by (simp add: unsigned_of_nat word_of_nat_eq_iff take_bit_take_bit)

lemma unat_u64_nat: "n < 2 ^ 64 \<Longrightarrow> unat (word_of_nat n :: u64) = n"
  by (simp only: unat_of_nat) (simp add: take_bit_nat_eq_self)

lemma eg_row_jump_eq:
  assumes "w * b < 2 ^ 31" and "b \<in> {1, 2, 4}"
  shows "eg_calculate_row_jump (word_of_int (int w)) (word_of_int (8 * int b)) = word_of_nat (w * b)"
proof -
  have p: "(word_of_int (int w) * word_of_int (8 * int b) :: u64) = word_of_nat (w * b * 8)" by simp
  have "n * 8 < 2 ^ 64" "n < 2 ^ 64" if "n < 2 ^ 31" for n :: nat using that by simp_all
  note this [OF assms(1)]
  then have "unat (word_of_nat (w * b * 8) div 8 :: u64) = unat (word_of_nat (w * b) :: u64)"
    by (simp only: unat_div unat_u64_nat) simp
  then show ?thesis unfolding eg_calculate_row_jump_def p by (metis word_unat_eq_iff)
qed

lemma eg_Converter_values:
  assumes "eg_placed config mid b h w x y flipped" and "eg_Converter_ctor config mid = Inr cv"
  shows "unat (egc_input_row_size_per_chip cv) = 256 * b" and "unat (egc_gap_size cv) = 2 * b"
    and "egc_row_jump cv = (if flipped then - 1 else 1) * int (w * b)" and "egc_start_index cv = int ((y * w + x) * b)"
proof -
  have config: "bit_depth config = 8 * int b" "b \<in> {1, 2, 4}" "image_pixel_width config = int w"
    "get_module_start_position config (word_of_int mid) = Inr \<lparr>pt_x = int x, pt_y = int y\<rparr>"
    using assms(1) by (simp_all add: eg_placed_def)
  have start: "(y * w + x) * b < 2 ^ 31"
  proof -
    have "eg_row_start b w x (eg_image_row y flipped) 0 = (y * w + x) * b" by (simp add: eg_row_start_def eg_image_row_def)
    moreover have "h * w * b < 2 ^ 31" using assms(1) by (simp add: eg_placed_def)
    ultimately show ?thesis using eg_row_inside [OF assms(1), of 0] by linarith
  qed
  have "w * b \<le> h * w * b" using assms(1) by (intro mult_le_mono1) (auto simp: eg_placed_def split: if_splits)
  moreover have "h * w * b < 2 ^ 31" using assms(1) by (simp add: eg_placed_def)
  ultimately have wb: "w * b < 2 ^ 31" by linarith
  note jump = eg_row_jump_eq [OF wb config(2)]
  obtain e where e: "get_module_end_position config (word_of_int mid) = Inr e"
    using assms(2) by (auto simp: eg_Converter_ctor_def eg_calculate_row_jump_direction_def bindE_eq_Inr)
  then have flipped: "pt_y e < int y \<longleftrightarrow> flipped" using assms(1) by (simp add: eg_placed_def)
  have "int_quot (int x * (8 * int b)) 8 = int (x * b)" by simp
  then have word: "(word_of_int (int y) * word_of_nat (w * b) + word_of_int (int_quot (int x * (8 * int b)) 8) :: u64) = word_of_nat ((y * w + x) * b)"
    by (simp add: algebra_simps)
  have direction: "eg_calculate_row_jump_direction config mid = Inr (if flipped then - 1 else 1)"
    using config(4) e flipped by (simp add: eg_calculate_row_jump_direction_def)
  obtain s j where ctor: "eg_calculate_start_index config mid = Inr s" "egc_start_index cv = s"
    "int_mul (sint (ucast (eg_calculate_row_jump (word_of_int (int w)) (word_of_int (8 * int b))) :: u32)) (if flipped then - 1 else 1) = Inr j" "egc_row_jump cv = j"
    using assms(2) direction config(1,3) by (auto simp: eg_Converter_ctor_def bindE_eq_Inr)
  have "s = sint (ucast (word_of_nat ((y * w + x) * b) :: u64) :: u32)"
    using ctor(1) unfolding word [symmetric] jump [symmetric]
    by (auto simp: eg_calculate_start_index_def config bindE_eq_Inr int_mul_def Let_def split: if_splits)
  then show "egc_start_index cv = int ((y * w + x) * b)" unfolding ctor(2) ucast_u32_nat by (simp only: sint_u32_small [OF start])
  show "egc_row_jump cv = (if flipped then - 1 else 1) * int (w * b)"
    using ctor(3) unfolding ctor(4) jump ucast_u32_nat sint_u32_small [OF wb] by (auto simp: int_mul_def split: if_splits)
  show "unat (egc_input_row_size_per_chip cv) = 256 * b" "unat (egc_gap_size cv) = 2 * b"
    using assms(2) config(1,2) by (auto simp: eg_Converter_ctor_def bindE_eq_Inr int_mul_def eg_consts split: if_splits)
qed

lemma eg_output_start_eq:
  assumes "eg_placed config mid b h w x y flipped" and "eg_Converter_ctor config mid = Inr cv" and "r < 256"
  shows "eg_output_start cv r = eg_row_start b w x (eg_image_row y flipped) r"
proof -
  let ?p = "eg_row_start b w x (eg_image_row y flipped) r"
  have r: "r \<le> y" if flipped using assms(1,3) that by (auto simp: eg_placed_def)
  have eq: "int ((y * w + x) * b) + int r * ((if flipped then - 1 else 1) * int (w * b)) = int ?p"
  proof (cases flipped)
    case True
    then obtain d where "y = d + r" using r le_Suc_ex by (metis add.commute)
    then show ?thesis using True by (simp add: eg_row_start_def eg_image_row_def algebra_simps)
  qed (simp add: eg_row_start_def eg_image_row_def algebra_simps)
  have word: "(word_of_int (egc_start_index cv) + word_of_nat r * word_of_int (egc_row_jump cv) :: u32) = word_of_nat ?p"
    unfolding eg_Converter_values(3,4) [OF assms(1,2)] using arg_cong [OF eq, of "word_of_int :: int \<Rightarrow> u32"]
    by (simp only: of_int_add of_int_mult of_int_of_nat_eq)
  have "h * w * b < 2 ^ 31" using assms(1) by (simp add: eg_placed_def)
  moreover have "(2 :: nat) ^ 31 < 2 ^ 32" by simp
  ultimately have "?p < 2 ^ 32" using eg_row_inside [OF assms(1,3)] by linarith
  then have "unat (word_of_nat ?p :: u32) = ?p" by (simp only: unat_of_nat) (simp add: take_bit_nat_eq_self)
  then show ?thesis unfolding eg_output_start_def word .
qed

text \<open>The converter as a sequence of blocks, two for each row.\<close>

definition eg_block :: "nat \<Rightarrow> nat \<Rightarrow> nat \<Rightarrow> (nat \<Rightarrow> nat) \<Rightarrow> byte list \<Rightarrow> nat \<times> nat \<Rightarrow> nat \<times> byte list" where
  "eg_block b w x Y input rc =
     (case rc of (r, c) \<Rightarrow> (eg_row_start b w x Y r + c * (258 * b), segment (r * (512 * b) + c * (256 * b)) (256 * b) input))"

definition eg_blocks :: "nat \<Rightarrow> nat \<Rightarrow> nat \<Rightarrow> (nat \<Rightarrow> nat) \<Rightarrow> byte list \<Rightarrow> (nat \<times> byte list) list" where
  "eg_blocks b w x Y input = map (eg_block b w x Y input) (List.product [0..<256] [0, 1])"

lemma copy_block_inside: "src + n \<le> length input \<Longrightarrow> copy_block input src n dst = (\<lambda>out. memcpy out dst (segment src n input))"
  by (rule ext) (simp add: copy_block_def)

lemma forE_pairs: "forE f (map g (List.product rs [0, 1])) s = forE (\<lambda>r s. bindE (f (g (r, 0)) s) (f (g (r, 1)))) rs s"
  by (induction rs arbitrary: s) (simp_all add: bindE_def split: sum.splits)

lemma eg_convert_blocks:
  assumes "eg_placed config mid b h w x y flipped" and "eg_Converter_ctor config mid = Inr cv" and "length input = 256 * (512 * b)"
  shows "eg_convert cv input out = write_blocks (eg_blocks b w x (eg_image_row y flipped) input) out"
proof -
  note cv = eg_Converter_values [OF assms(1,2)]
  show ?thesis
    unfolding eg_convert_def write_blocks_def eg_blocks_def forE_pairs cv Let_def eg_MODULE_Y_SIZE_def
  proof (intro forE_cong)
    fix r and s :: "byte list" assume "r \<in> set [0..<256 :: nat]"
    then have r: "r < 256" by simp
    have eqs: "r * (256 * b) * 2 = r * (512 * b)" "256 * b + 2 * b = 258 * b" by simp_all
    have "r * (512 * b) + 512 * b \<le> length input" using block_in_range [OF r, of "512 * b"] assms(3) by simp
    then have "r * (512 * b) + 256 * b \<le> length input" "r * (512 * b) + 256 * b + 256 * b \<le> length input" by linarith+
    then show "bindE (copy_block input (r * (256 * b) * 2) (256 * b) (eg_output_start cv r) s)
        (copy_block input (r * (256 * b) * 2 + 256 * b) (256 * b) (eg_output_start cv r + (256 * b + 2 * b))) =
      bindE (memcpy s (fst (eg_block b w x (eg_image_row y flipped) input (r, 0))) (snd (eg_block b w x (eg_image_row y flipped) input (r, 0))))
        (\<lambda>out. memcpy out (fst (eg_block b w x (eg_image_row y flipped) input (r, 1))) (snd (eg_block b w x (eg_image_row y flipped) input (r, 1))))"
      unfolding eqs eg_output_start_eq [OF assms(1,2) r] eg_block_def prod.case by (simp only: copy_block_inside fst_conv snd_conv mult_0 mult_1 add_0_right)
  qed
qed

lemma eg_block_fst: "fst (eg_block b w x Y input (r, c)) = eg_row_start b w x Y r + c * (258 * b)"
  and eg_block_length: "length input = 256 * (512 * b) \<Longrightarrow> r < 256 \<Longrightarrow> c < 2 \<Longrightarrow> length (snd (eg_block b w x Y input (r, c))) = 256 * b"
proof -
  show "fst (eg_block b w x Y input (r, c)) = eg_row_start b w x Y r + c * (258 * b)" by (simp add: eg_block_def)
  assume "length input = 256 * (512 * b)" "r < 256" "c < 2"
  then have "r * (512 * b) + 512 * b \<le> length input" "c * (256 * b) \<le> 256 * b" using block_in_range [of r 256 "512 * b"] by (auto simp: less_2_cases_iff)
  then have "r * (512 * b) + c * (256 * b) + 256 * b \<le> length input" by linarith
  then show "length (snd (eg_block b w x Y input (r, c))) = 256 * b" by (simp add: eg_block_def)
qed

lemma eg_rows_apart:
  assumes "eg_placed config mid b h w x y flipped" and "r < 256" and "r' < 256" and "r \<noteq> r'"
  shows "eg_row_start b w x (eg_image_row y flipped) r + 514 * b \<le> eg_row_start b w x (eg_image_row y flipped) r' \<or>
    eg_row_start b w x (eg_image_row y flipped) r' + 514 * b \<le> eg_row_start b w x (eg_image_row y flipped) r"
proof -
  let ?Y = "eg_image_row y flipped"
  have w: "x + 514 \<le> w" using assms(1) by (simp add: eg_placed_def)
  have "(?Y i * w + x + 514) * b \<le> (?Y j * w + x) * b" if "?Y i * w + w \<le> ?Y j * w" for i j
    using that w by (intro mult_le_mono1) simp
  then show ?thesis
    using block_disjoint [OF eg_image_row_inj [OF assms], of w] by (auto simp: eg_row_start_def add_mult_distrib)
qed

lemma eg_blocks_apart:
  assumes "eg_placed config mid b h w x y flipped" and "length input = 256 * (512 * b)"
  shows "sorted_wrt blocks_apart (eg_blocks b w x (eg_image_row y flipped) input)"
  unfolding eg_blocks_def
proof (rule sorted_wrt_map_distinct)
  fix p q assume pq: "p \<in> set (List.product [0..<256] [0, 1 :: nat])" "q \<in> set (List.product [0..<256] [0, 1])" "p \<noteq> q"
  obtain r c r' c' where rc: "p = (r, c)" "q = (r', c')" "r < 256" "r' < 256" "c < 2" "c' < 2" using pq(1,2) by auto
  have c: "c = 0 \<or> c = 1" "c' = 0 \<or> c' = 1" using rc by auto
  show "blocks_apart (eg_block b w x (eg_image_row y flipped) input p) (eg_block b w x (eg_image_row y flipped) input q)"
    unfolding blocks_apart_def rc(1,2) eg_block_fst eg_block_length [OF assms(2) rc(3,5)] eg_block_length [OF assms(2) rc(4,6)]
    using eg_rows_apart [OF assms(1) rc(3,4)] c pq(3) rc(1,2) by (cases "r = r'") auto
qed (simp add: distinct_product)

text \<open>Every byte of a frame lies in one of the blocks.\<close>

lemma eg_place_block:
  assumes "0 < b" and "r < 256" and "c < 2" and "k < 256 * b"
  shows "eg_place b w x Y (r * (512 * b) + c * (256 * b) + k) = eg_row_start b w x Y r + c * (258 * b) + k"
proof -
  have "c * (256 * b) \<le> 256 * b" using assms(3) by (auto simp: less_2_cases_iff)
  then have col: "c * (256 * b) + k < 512 * b" using assms(4) by linarith
  have "(r * (512 * b) + (c * (256 * b) + k)) div (512 * b) = r" "(r * (512 * b) + (c * (256 * b) + k)) mod (512 * b) = c * (256 * b) + k"
    using col assms(1) by simp_all
  then show ?thesis using assms(3,4) by (auto simp: eg_place_def add.assoc Let_def less_2_cases_iff)
qed

lemma eg_byte_split:
  fixes m b :: nat
  assumes "m < 256 * (512 * b)" and "0 < b"
  obtains r c k where "r < 256" "c < 2" "k < 256 * b" "m = r * (512 * b) + c * (256 * b) + k"
proof (rule that [of "m div (512 * b)" "m mod (512 * b) div (256 * b)" "m mod (512 * b) mod (256 * b)"])
  show "m div (512 * b) < 256" using assms by (simp add: less_mult_imp_div_less)
  have "m mod (512 * b) < 2 * (256 * b)" using assms(2) by simp
  then show "m mod (512 * b) div (256 * b) < 2" by (simp add: less_mult_imp_div_less)
  show "m mod (512 * b) mod (256 * b) < 256 * b" using assms(2) by simp
  show "m = m div (512 * b) * (512 * b) + m mod (512 * b) div (256 * b) * (256 * b) + m mod (512 * b) mod (256 * b)"
    by (simp only: add.assoc div_mult_mod_eq)
qed

lemma eg_convert_ok:
  assumes "eg_placed config mid b h w x y flipped" and "eg_Converter_ctor config mid = Inr cv"
    and "length input = 256 * (512 * b)" and "length out = h * w * b"
  shows "\<exists>out'. eg_convert cv input out = Inr out' \<and> length out' = length out \<and>
    (\<forall>m < 256 * (512 * b). out' ! eg_place b w x (eg_image_row y flipped) m = input ! m) \<and>
    (\<forall>j < h * w * b. j \<notin> eg_place b w x (eg_image_row y flipped) ` {..<256 * (512 * b)} \<longrightarrow> out' ! j = out ! j)"
proof -
  let ?Y = "eg_image_row y flipped"
  let ?f = "eg_block b w x ?Y input"
  have b: "0 < b" using assms(1) by (auto simp: eg_placed_def)
  have inside: "eg_row_start b w x ?Y r + c * (258 * b) + 256 * b \<le> h * w * b" if "r < 256" "c < 2" for r c
    using eg_row_inside [OF assms(1) that(1)] that(2) by (auto simp: less_2_cases_iff)
  have mem: "?f (r, c) \<in> set (eg_blocks b w x ?Y input)" if "r < 256" "c < 2" for r c
    using that by (auto simp: eg_blocks_def less_2_cases_iff intro!: imageI)
  have "\<forall>q \<in> set (eg_blocks b w x ?Y input). fst q + length (snd q) \<le> length out"
    using inside [of _ 0] inside [of _ 1] eg_block_length [OF assms(3)] assms(4) by (auto simp: eg_blocks_def eg_block_fst add.commute add.left_commute)
  from write_blocks_ok [OF this eg_blocks_apart [OF assms(1,3)]] obtain out' where
    o: "write_blocks (eg_blocks b w x ?Y input) out = Inr out'" "length out' = length out"
      "\<forall>q \<in> set (eg_blocks b w x ?Y input). segment (fst q) (length (snd q)) out' = snd q"
      "\<forall>j < length out. (\<forall>q \<in> set (eg_blocks b w x ?Y input). j < fst q \<or> fst q + length (snd q) \<le> j) \<longrightarrow> out' ! j = out ! j"
    by blast
  have "out' ! eg_place b w x ?Y m = input ! m" if m: "m < 256 * (512 * b)" for m
  proof -
    obtain r c k where rck: "r < 256" "c < 2" "k < 256 * b" "m = r * (512 * b) + c * (256 * b) + k" using eg_byte_split [OF m b] .
    have "segment (eg_row_start b w x ?Y r + c * (258 * b)) (256 * b) out' = segment (r * (512 * b) + c * (256 * b)) (256 * b) input"
      using bspec [OF o(3) mem [OF rck(1,2)]] eg_block_length [OF assms(3) rck(1,2)] by (simp add: eg_block_fst) (simp add: eg_block_def)
    moreover have "r * (512 * b) + c * (256 * b) + 256 * b \<le> length input"
      using block_in_range [OF rck(1), of "512 * b"] rck(2) assms(3) by (auto simp: less_2_cases_iff)
    ultimately show ?thesis
      using nth_segment [of "eg_row_start b w x ?Y r + c * (258 * b)" "256 * b" out' k] nth_segment [of "r * (512 * b) + c * (256 * b)" "256 * b" input k]
        inside [OF rck(1,2)] rck o(2) assms(4) by (simp add: eg_place_block [OF b rck(1-3)])
  qed
  moreover have "out' ! j = out ! j" if j: "j < h * w * b" "j \<notin> eg_place b w x ?Y ` {..<256 * (512 * b)}" for j
  proof -
    have "j < fst (?f (r, c)) \<or> fst (?f (r, c)) + length (snd (?f (r, c))) \<le> j" if rc: "r < 256" "c < 2" for r c
    proof (rule ccontr)
      assume outside: "\<not> ?thesis"
      define k where "k = j - (eg_row_start b w x ?Y r + c * (258 * b))"
      have "eg_row_start b w x ?Y r + c * (258 * b) \<le> j" "j < eg_row_start b w x ?Y r + c * (258 * b) + 256 * b"
        using outside eg_block_length [OF assms(3) rc] by (simp_all add: eg_block_fst)
      then have k: "k < 256 * b" "j = eg_row_start b w x ?Y r + c * (258 * b) + k" unfolding k_def by linarith+
      have "r * (512 * b) + c * (256 * b) + k < 256 * (512 * b)"
      proof -
        have "c * (256 * b) \<le> 256 * b" using rc(2) by (auto simp: less_2_cases_iff)
        then show ?thesis using block_in_range [OF rc(1), of "512 * b"] k(1) by linarith
      qed
      then show False using j(2) k eg_place_block [OF b rc k(1), of w x ?Y] by (metis imageI lessThan_iff)
    qed
    then show ?thesis using o(4) j(1) assms(4) by (auto simp: eg_blocks_def)
  qed
  ultimately show ?thesis using o(1,2) eg_convert_blocks [OF assms(1-3)] by auto
qed

section \<open>A turn of a converter\<close>

lemma convert_turn_ok:
  assumes "rb_wf (comm_buffer receiver)" and "length meta = DET_FRAME_STRUCT_BYTES"
    and "length msg = DET_FRAME_STRUCT_BYTES" and "take 8 msg = u64_bytes img" and "img \<noteq> INVALID_IMAGE_ID"
    and "read_slot (comm_buffer receiver) img = Inr frame" and "rb_wf (comm_buffer sender)"
    and "convert frame (rb_get (comm_buffer sender) img) = Inr slot'" and "length slot' = rb_size (comm_buffer sender)"
  shows "convert_turn convert receiver (Some msg) (meta, sender) =
    Inr (msg, sender\<lparr>comm_buffer := rb_put (comm_buffer sender) img slot', comm_sent := comm_sent sender @ [msg]\<rparr>)"
proof -
  obtain p where "get_data (comm_buffer receiver) img = Inr p" using get_data_wf [OF assms(1)] by blast
  moreover have "recv_into meta msg = msg" using assms(2,3) by (simp add: recv_into_def)
  ultimately have "Communicator_receive receiver meta (Some msg) = Inr (msg, img, Some p)"
    using assms(4) by (simp add: Communicator_receive_def Communicator_receive_meta_def)
  moreover have "read_slot (comm_buffer sender) img = Inr (rb_get (comm_buffer sender) img)"
    using read_slot_wf [OF assms(7)] by (simp add: rb_get_def)
  ultimately show ?thesis
    using assms(5,6,8) rb_put_wf(1) [OF assms(7,9)]
    by (simp add: convert_turn_def Communicator_send_def RamBuffer_write_def)
qed

section \<open>From the packets to the image\<close>

text \<open>C6. All packets of a frame, of which the last one arrives last and the others in any order: the receiver puts the
  frame into its RAM buffer and announces it without missing packets; the converter that takes the
  announcement puts every byte of every packet at its place in the slot of the image, leaves the other bytes of
  the slot and all other slots alone, and hands on the announcement.\<close>

theorem eiger_packets_reach_image:
  assumes "eg_placed config (int (unat mid)) b h w x y flipped" and "eg_Converter_ctor config (int (unat mid)) = Inr cv"
    and "image_id (eg_common (us_meta st)) = INVALID_IMAGE_ID" and "k \<noteq> INVALID_IMAGE_ID"
    and "\<forall>p \<in> set (p0 # qs @ [l]). egp_frame_num p = k \<and> length (egp_data p) = 4096 \<and>
      unat (egp_packet_number p) < unat (eg_N_PACKETS_PER_FRAME config)"
    and "unat (egp_packet_number l) = unat (eg_N_PACKETS_PER_FRAME config) - 1"
    and "distinct (map egp_packet_number (p0 # qs @ [l]))" and "length (p0 # qs @ [l]) = unat (eg_N_PACKETS_PER_FRAME config)"
    and "rb_wf (us_buffer st)" and "length (us_frame st) = unat (eg_FRAME_N_BYTES config)"
    and "rb_data_bytes (us_buffer st) = eg_FRAME_N_BYTES config"
    and "length meta = DET_FRAME_STRUCT_BYTES" and "rb_wf (comm_buffer c)" and "rb_size (comm_buffer c) = h * w * b"
  shows "\<exists>st' m c'. forE (eg_process_packet config mid) (p0 # qs @ [l]) st = Inr st' \<and>
    us_sent st' = us_sent st @ [EGFrame_bytes m] \<and> eg_common m = \<lparr>image_id = k, n_missing_packets = 0, module_id = mid\<rparr> \<and>
    convert_turn (eg_convert cv) (us_sender st') (Some (EGFrame_bytes m)) (meta, c) = Inr (EGFrame_bytes m, c') \<and>
    comm_sent c' = comm_sent c @ [EGFrame_bytes m] \<and>
    (\<forall>p \<in> set (p0 # qs @ [l]). \<forall>i < 4096.
      rb_get (comm_buffer c') k ! eg_place b w x (eg_image_row y flipped) (unat (egp_packet_number p) * 4096 + i) = egp_data p ! i) \<and>
    (\<forall>j < h * w * b. j \<notin> eg_place b w x (eg_image_row y flipped) ` {..<256 * (512 * b)} \<longrightarrow>
      rb_get (comm_buffer c') k ! j = rb_get (comm_buffer c) k ! j) \<and>
    (\<forall>img. rb_slot (comm_buffer c) img \<noteq> rb_slot (comm_buffer c) k \<longrightarrow> rb_get (comm_buffer c') img = rb_get (comm_buffer c) img)"
proof -
  have depth: "bit_depth config = 8 * int b" "b \<in> {1, 2, 4}" using assms(1) by (simp_all add: eg_placed_def)
  then have depth': "bit_depth config \<in> {8, 16, 32}" by auto
  have size: "unat (eg_FRAME_N_BYTES config) = 256 * (512 * b)" using depth by (auto simp: eg_FRAME_N_BYTES_def eg_consts)
  obtain st' m where st': "forE (eg_process_packet config mid) (p0 # qs @ [l]) st = Inr st'" "us_sent st' = us_sent st @ [EGFrame_bytes m]"
    "eg_common m = \<lparr>image_id = k, n_missing_packets = 0, module_id = mid\<rparr>"
    "\<forall>p \<in> set (p0 # qs @ [l]). segment (unat (egp_packet_number p) * 4096) 4096 (us_frame st') = egp_data p"
    "read_slot (us_buffer st') k = Inr (us_frame st')"
    using eg_receive_frame [OF depth' assms(3-7,9-11), of mid] assms(8) by auto
  have wf': "rb_wf (us_buffer st')" using eg_typed.turns_keep_wf [OF st'(1) assms(9)] .
  have shape: "rb_size (us_buffer st') = 256 * (512 * b)" using eg_typed.turns_shape [OF st'(1)] assms(11) size by (simp add: same_shape_def)
  then have frame: "length (us_frame st') = 256 * (512 * b)"
    using st'(5) read_slot_wf [OF wf', of k] length_segment [OF slot_in_range [OF wf', of k]] by simp
  have slot: "length (rb_get (comm_buffer c) k) = h * w * b"
    using read_slot_wf [OF assms(13), of k] length_segment [OF slot_in_range [OF assms(13), of k]] assms(14) by (simp add: rb_get_def)
  obtain out where out: "eg_convert cv (us_frame st') (rb_get (comm_buffer c) k) = Inr out" "length out = h * w * b"
    "\<forall>i < 256 * (512 * b). out ! eg_place b w x (eg_image_row y flipped) i = us_frame st' ! i"
    "\<forall>j < h * w * b. j \<notin> eg_place b w x (eg_image_row y flipped) ` {..<256 * (512 * b)} \<longrightarrow> out ! j = rb_get (comm_buffer c) k ! j"
    using eg_convert_ok [OF assms(1,2) frame slot] slot by auto
  define c' where "c' = c\<lparr>comm_buffer := rb_put (comm_buffer c) k out, comm_sent := comm_sent c @ [EGFrame_bytes m]\<rparr>"
  have turn: "convert_turn (eg_convert cv) (us_sender st') (Some (EGFrame_bytes m)) (meta, c) = Inr (EGFrame_bytes m, c')"
    unfolding c'_def by (rule convert_turn_ok) (use wf' assms(4,12,13,14) st'(3,5) out(1,2) in \<open>simp_all add: take_frame_bytes\<close>)
  have get: "rb_get (comm_buffer c') img = (if rb_slot (comm_buffer c) k = rb_slot (comm_buffer c) img then out else rb_get (comm_buffer c) img)" for img
    using rb_get_put [OF assms(13)] out(2) assms(14) by (simp add: c'_def)
  have "rb_get (comm_buffer c') k ! eg_place b w x (eg_image_row y flipped) (unat (egp_packet_number p) * 4096 + i) = egp_data p ! i"
    if p: "p \<in> set (p0 # qs @ [l])" and i: "i < 4096" for p i
  proof -
    have "unat (egp_packet_number p) < unat (eg_N_PACKETS_PER_FRAME config)" using assms(5) p by blast
    then have "unat (egp_packet_number p) * 4096 + 4096 \<le> unat (eg_N_PACKETS_PER_FRAME config) * 4096" by (rule block_in_range)
    also have "\<dots> = 256 * (512 * b)" using eg_sizes(1) [OF depth'] size by simp
    finally have range: "unat (egp_packet_number p) * 4096 + i < 256 * (512 * b)" "unat (egp_packet_number p) * 4096 + 4096 \<le> length (us_frame st')"
      using i frame by linarith+
    have "egp_data p ! i = us_frame st' ! (unat (egp_packet_number p) * 4096 + i)"
      using st'(4) p nth_segment [OF range(2) i] by (metis)
    then show ?thesis using out(3) range(1) get by simp
  qed
  then show ?thesis using st'(1-3) turn out(4) get
    by (intro exI [of _ st'] exI [of _ m] exI [of _ c']) (simp add: c'_def)
qed

definition eg_config :: DetectorConfig where
  "eg_config = example_config\<lparr>detector_type := ''eiger'', bit_depth := 8, image_pixel_width := 514, image_pixel_height := 256,
     modules := [(0, (\<lparr>pt_x = 0, pt_y = 0\<rparr>, \<lparr>pt_x = 513, pt_y = 255\<rparr>))]\<rparr>"

definition eg_packets :: "EGUdpPacket list" where
  "eg_packets = map (\<lambda>n. ex_eg_packet (word_of_nat n)) [1..<31]"

definition eg_all_packets :: "EGUdpPacket list" where
  "eg_all_packets = ex_eg_packet 0 # eg_packets @ [ex_eg_packet 31]"

lemma eg_config_sizes: "eg_FRAME_N_BYTES eg_config = 131072" "eg_N_PACKETS_PER_FRAME eg_config = 32"
  by (simp_all add: eg_FRAME_N_BYTES_def eg_N_PACKETS_PER_FRAME_def eg_config_def eg_consts)

lemma eg_config_placed: "eg_placed eg_config (int (unat (0 :: u16))) 1 256 514 0 0 False"
  "is_ok (eg_Converter_ctor eg_config (int (unat (0 :: u16))))"
proof -
  have ends: "get_module_start_position eg_config 0 = Inr \<lparr>pt_x = 0, pt_y = 0\<rparr>" "get_module_end_position eg_config 0 = Inr \<lparr>pt_x = 513, pt_y = 255\<rparr>"
    by (simp_all add: get_module_start_position_def get_module_end_position_def um_at_def eg_config_def)
  show "eg_placed eg_config (int (unat (0 :: u16))) 1 256 514 0 0 False"
    using ends by (simp add: eg_placed_def) (simp add: eg_config_def)
  show "is_ok (eg_Converter_ctor eg_config (int (unat (0 :: u16))))"
    using ends by (simp add: eg_Converter_ctor_def eg_calculate_row_jump_direction_def eg_calculate_start_index_def test_if_module_is_inside_image_def
      test_if_module_size_fits_eiger_def eg_consts int_mul_def int_ok_iff Let_def eg_calculate_row_jump_def) (simp add: eg_config_def int_ok_iff)
qed

lemma eg_all_packets_numbers: "map (\<lambda>p. unat (egp_packet_number p)) eg_all_packets = [0..<32]"
  by (simp add: eg_all_packets_def eg_packets_def ex_eg_packet_def comp_def upt_rec unat_of_nat)

lemma eg_all_packets_range:
  assumes "p \<in> set eg_all_packets"
  shows "egp_frame_num p = 9 \<and> length (egp_data p) = 4096 \<and> unat (egp_packet_number p) < unat (eg_N_PACKETS_PER_FRAME eg_config)"
proof -
  have "p \<in> range ex_eg_packet" using assms unfolding eg_all_packets_def eg_packets_def by auto
  then obtain n where n: "p = ex_eg_packet n" by blast
  have "unat (egp_packet_number p) \<in> set (map (\<lambda>p. unat (egp_packet_number p)) eg_all_packets)"
    unfolding set_map using assms by (rule imageI)
  then have "unat (egp_packet_number p) < 32" unfolding eg_all_packets_numbers by simp
  then show ?thesis using n by (simp add: ex_eg_packet_def eg_config_sizes)
qed

lemma eg_all_packets_three: "ex_eg_packet 3 \<in> set eg_all_packets"
  "eg_place 1 514 0 (eg_image_row 0 False) (unat (egp_packet_number (ex_eg_packet 3)) * 4096 + 0) = 24 * 514"
  "egp_data (ex_eg_packet 3) ! 0 = 3"
  by (auto simp: eg_all_packets_def eg_packets_def ex_eg_packet_def eg_place_def eg_row_start_def eg_image_row_def intro!: image_eqI [of _ _ 3])

lemma eg_example_sender: "rb_wf (us_buffer (ex_state (eg_init_meta 0) 131072))" "rb_wf (comm_buffer (ex_sender 131584))"
  "rb_size (comm_buffer (ex_sender 131584)) = 256 * 514 * 1"
  "image_id (eg_common (us_meta (ex_state (eg_init_meta 0) 131072))) = INVALID_IMAGE_ID"
  "length (us_frame (ex_state (eg_init_meta 0) 131072)) = unat (eg_FRAME_N_BYTES eg_config)"
  "rb_data_bytes (us_buffer (ex_state (eg_init_meta 0) 131072)) = eg_FRAME_N_BYTES eg_config"
  using ex_sender_wf [of 131072 "eg_init_meta 0"] ex_sender_wf [of 131584 "eg_init_meta 0"]
  by (simp_all add: ex_state_def eg_init_meta_def ex_sender_def eg_config_sizes)

theorem eiger_packets_reach_image_witness:
  "\<exists>cv st' m c'. eg_Converter_ctor eg_config 0 = Inr cv \<and>
    forE (eg_process_packet eg_config 0) eg_all_packets (ex_state (eg_init_meta 0) 131072) = Inr st' \<and>
    convert_turn (eg_convert cv) (us_sender st') (Some (EGFrame_bytes m)) (replicate 64 0, ex_sender 131584) = Inr (EGFrame_bytes m, c') \<and>
    rb_get (comm_buffer c') 9 ! (24 * 514) = 3"
proof -
  obtain cv where cv: "eg_Converter_ctor eg_config (int (unat (0 :: u16))) = Inr cv" using eg_config_placed(2) by (auto elim: is_okE)
  have valid: "(9 :: u64) \<noteq> INVALID_IMAGE_ID" by (simp add: INVALID_IMAGE_ID_def)
  have packets: "\<forall>p \<in> set eg_all_packets. egp_frame_num p = 9 \<and> length (egp_data p) = 4096 \<and> unat (egp_packet_number p) < unat (eg_N_PACKETS_PER_FRAME eg_config)"
    using eg_all_packets_range by blast
  have last: "unat (egp_packet_number (ex_eg_packet 31)) = unat (eg_N_PACKETS_PER_FRAME eg_config) - 1" by (simp add: ex_eg_packet_def eg_config_sizes)
  have dist: "distinct (map egp_packet_number eg_all_packets)" using eg_all_packets_numbers by (metis distinct_map_unat distinct_upt)
  have len: "length eg_all_packets = unat (eg_N_PACKETS_PER_FRAME eg_config)" by (simp add: eg_all_packets_def eg_packets_def eg_config_sizes)
  have meta: "length (replicate 64 (0 :: u8)) = DET_FRAME_STRUCT_BYTES" by (simp add: DET_FRAME_STRUCT_BYTES_def)
  note run = eiger_packets_reach_image [OF eg_config_placed(1) cv eg_example_sender(4) valid packets [unfolded eg_all_packets_def] last
    dist [unfolded eg_all_packets_def] len [unfolded eg_all_packets_def] eg_example_sender(1,5,6) meta eg_example_sender(2,3), folded eg_all_packets_def]
  then obtain st' m c' where "forE (eg_process_packet eg_config 0) eg_all_packets (ex_state (eg_init_meta 0) 131072) = Inr st'"
    "convert_turn (eg_convert cv) (us_sender st') (Some (EGFrame_bytes m)) (replicate 64 0, ex_sender 131584) = Inr (EGFrame_bytes m, c')"
    "\<forall>p \<in> set eg_all_packets. \<forall>i < 4096.
      rb_get (comm_buffer c') 9 ! eg_place 1 514 0 (eg_image_row 0 False) (unat (egp_packet_number p) * 4096 + i) = egp_data p ! i" by blast
  moreover from this(3) have "rb_get (comm_buffer c') 9 ! (24 * 514) = 3"
    using eg_all_packets_three by (metis zero_less_numeral)
  ultimately show ?thesis using cv by auto
qed

end
