(* ===== verification/Blosc2Filter.thy ===== *)
theory Blosc2Filter
  imports BshufLz4
begin

text \<open>
  \<open>external/hdf5-blosc2\<close>: the HDF5 plugin with which images that were compressed with Blosc2 are read and written.
  HDF5 and the Blosc2 library are third-party and arguments: what HDF5 answers is given to \<open>blosc2_set_local\<close>, and
  the functions of Blosc2 are the fields of a \<open>blosc2_lib\<close>; \<open>'s\<close> is its super-chunk. What the filter relies on is
  \<open>blosc2_laws\<close>, stated over the chunks that a super-chunk holds and over the bytes that a chunk stands for.
\<close>

section \<open>The plugin\<close>

definition FILTER_BLOSC2 :: nat where "FILTER_BLOSC2 = 32026"
definition FILTER_BLOSC2_VERSION :: u32 where "FILTER_BLOSC2_VERSION = 1"

record H5Z_class =
  hc_id :: nat
  hc_encoder_present :: bool
  hc_decoder_present :: bool
  hc_name :: string

definition blosc2_H5Filter :: H5Z_class where
  "blosc2_H5Filter = \<lparr>hc_id = FILTER_BLOSC2, hc_encoder_present = True, hc_decoder_present = True, hc_name = ''blosc2''\<rparr>"

text \<open>\<open>H5Zregister\<close> is an argument; the result is whether an error was pushed, the return value, and the strings
  that were copied for a caller that wants them.\<close>

definition register_blosc2 :: "(H5Z_class \<Rightarrow> int) \<Rightarrow> string \<times> string \<Rightarrow> bool \<Rightarrow> bool \<times> int \<times> (string \<times> string) option" where
  "register_blosc2 H5Zregister version wanted =
     (H5Zregister blosc2_H5Filter < 0, 1, if wanted then Some version else None)"

section \<open>\<open>blosc2_set_local\<close>\<close>

text \<open>\<open>H5Pget_filter_by_id\<close> gives its return value and the values of the filter, of which at most eight are
  stored; the others are counted. \<open>H5Tget_super\<close> and \<open>H5Tget_size\<close> of an array type are one argument.\<close>

record h5_local =
  hl_get_filter :: "int \<times> u32 list"
  hl_chunk :: "int \<times> u64 list" \<comment> \<open>the rank and the dimensions of a chunk\<close>
  hl_size :: u64
  hl_array :: "u64 option" \<comment> \<open>the size of the base type of an array type\<close>
  hl_modify :: "u32 list \<Rightarrow> int"

definition blosc2_set_local :: "h5_local \<Rightarrow> (int \<times> u32 list option) res" where
  "blosc2_set_local h =
     (case hl_get_filter h of (r, vs) \<Rightarrow> case hl_chunk h of (ndims, chunkdims) \<Rightarrow>
      if r < 0 then Inr (- 1, None)
      else let nelements = max 4 (length vs); values = (take 8 (vs @ replicate 8 0))[0 := FILTER_BLOSC2_VERSION] in
      if ndims < 0 \<or> ndims > 32 then Inr (- 1, None)
      else let typesize = ucast (hl_size h) :: u32 in
      if typesize = 0 then Inr (- 1, None)
      else let basetypesize = (case hl_array h of Some n \<Rightarrow> ucast n | None \<Rightarrow> typesize);
               bufsize = fold (\<lambda>d b. b * ucast d) (take (nat ndims) chunkdims) typesize;
               values = values[2 := basetypesize, 3 := bufsize] in
      if nelements > 8 then Inl (Undefined ''read out of range'')
      else if hl_modify h (take nelements values) < 0 then Inr (- 1, Some (take nelements values))
      else Inr (1, Some (take nelements values)))"

section \<open>The filter function\<close>

record blosc2_cparams =
  cp_compcode :: u8
  cp_blocksize :: "32 word"
  cp_typesize :: "32 word"
  cp_last_filter :: u8
  cp_clevel :: u8

record 's blosc2_lib =
  b2_compcode_to_compname :: "int \<Rightarrow> int"
  b2_schunk_new :: "blosc2_cparams \<Rightarrow> 's option"
  b2_append_buffer :: "'s \<Rightarrow> byte list \<Rightarrow> int \<Rightarrow> int \<times> 's"
  b2_to_buffer :: "'s \<Rightarrow> int \<times> byte list \<times> bool"
  b2_from_buffer :: "byte list \<Rightarrow> int \<Rightarrow> 's option"
  b2_get_lazychunk :: "'s \<Rightarrow> nat \<Rightarrow> int \<times> byte list"
  b2_cbuffer_nbytes :: "byte list \<Rightarrow> int"
  b2_decompress_ctx :: "byte list \<Rightarrow> int \<Rightarrow> byte list \<Rightarrow> int \<Rightarrow> int \<times> byte list"

definition BLOSC_BLOSCLZ :: int where "BLOSC_BLOSCLZ = 0"

text \<open>The two directions give \<open>status\<close>, \<open>outbuf\<close> and \<open>outbuf_size\<close>, or \<open>None\<close> for \<open>goto failed\<close>.\<close>

definition blosc2_filter_compress ::
  "'s blosc2_lib \<Rightarrow> u32 list \<Rightarrow> nat \<Rightarrow> byte list \<Rightarrow> (int \<times> byte list \<times> nat) option res" where
  "blosc2_filter_compress lib cd nbytes buf =
     (if length cd < 6 then Inl (Undefined ''read out of range'')
      else let compcode = (if length cd \<ge> 7 then sint (cd ! 6) else BLOSC_BLOSCLZ);
               cparams = \<lparr>cp_compcode = word_of_int compcode, cp_blocksize = cd ! 1, cp_typesize = cd ! 2,
                          cp_last_filter = ucast (cd ! 5), cp_clevel = ucast (cd ! 4)\<rparr> in
      if length cd \<ge> 7 \<and> b2_compcode_to_compname lib compcode = - 1 then Inr None
      else (case b2_schunk_new lib cparams of None \<Rightarrow> Inr None
      | Some schunk \<Rightarrow>
        (case b2_append_buffer lib schunk buf (to_int (int nbytes)) of (status, schunk) \<Rightarrow>
         if status < 0 then Inr None
         else (case b2_to_buffer lib schunk of (status, outbuf, needs_free) \<Rightarrow>
           if status < 0 \<or> \<not> needs_free then Inr None else Inr (Some (status, outbuf, unat (cd ! 3)))))))"

definition blosc2_filter_decompress ::
  "'s blosc2_lib \<Rightarrow> (nat \<Rightarrow> byte list option) \<Rightarrow> nat \<Rightarrow> byte list \<Rightarrow> (int \<times> byte list \<times> nat) option" where
  "blosc2_filter_decompress lib malloc nbytes buf =
     (case b2_from_buffer lib buf (int nbytes) of None \<Rightarrow> None
      | Some schunk \<Rightarrow>
        (case b2_get_lazychunk lib schunk 0 of (cbytes, chunk) \<Rightarrow>
         if cbytes < 0 then None
         else let outbuf_size = word_of_int (b2_cbuffer_nbytes lib chunk) :: u64 in
           (case malloc (unat outbuf_size) of None \<Rightarrow> None
            | Some outbuf \<Rightarrow>
              (case b2_decompress_ctx lib chunk cbytes outbuf (to_int (uint outbuf_size)) of (status, outbuf) \<Rightarrow>
               if status \<le> 0 then None else Some (status, outbuf, unat outbuf_size)))))"

text \<open>The result is \<open>None\<close> for the return value 0, with which the buffer of the caller stays as it is, and otherwise
  the return value, \<open>*buf\<close> and \<open>*buf_size\<close>.\<close>

definition blosc2_filter_function ::
  "'s blosc2_lib \<Rightarrow> (nat \<Rightarrow> byte list option) \<Rightarrow> bool \<Rightarrow> u32 list \<Rightarrow> nat \<Rightarrow> byte list \<Rightarrow> (nat \<times> byte list \<times> nat) option res" where
  "blosc2_filter_function lib malloc reverse cd nbytes buf =
     (if length cd < 4 then Inl (Undefined ''read out of range'')
      else bindE (if reverse then Inr (blosc2_filter_decompress lib malloc nbytes buf) else blosc2_filter_compress lib cd nbytes buf) (\<lambda>r.
        case r of None \<Rightarrow> Inr None
        | Some (status, outbuf, outbuf_size) \<Rightarrow> if status > 0 then Inr (Some (nat status, outbuf, outbuf_size)) else Inr None))"

section \<open>What the filter relies on\<close>

text \<open>Given are the chunks of a super-chunk and the bytes a chunk stands for.\<close>

definition blosc2_laws :: "'s blosc2_lib \<Rightarrow> ('s \<Rightarrow> byte list list) \<Rightarrow> (byte list \<Rightarrow> byte list) \<Rightarrow> bool" where
  "blosc2_laws lib chunks bytes_of \<longleftrightarrow>
     (\<forall>p s. b2_schunk_new lib p = Some s \<longrightarrow> chunks s = []) \<and>
     (\<forall>s buf n c s'. b2_append_buffer lib s buf n = (c, s') \<and> 0 \<le> c \<and> 0 \<le> n \<and> nat n \<le> length buf \<longrightarrow>
        chunks s' = chunks s @ [take (nat n) buf]) \<and>
     (\<forall>s st buf free. b2_to_buffer lib s = (st, buf, free) \<and> 0 \<le> st \<longrightarrow> length buf = nat st \<and>
        (\<forall>rest. \<exists>s'. b2_from_buffer lib (buf @ rest) st = Some s' \<and> chunks s' = chunks s)) \<and>
     (\<forall>s i. i < length (chunks s) \<longrightarrow>
        0 \<le> fst (b2_get_lazychunk lib s i) \<and> bytes_of (snd (b2_get_lazychunk lib s i)) = chunks s ! i \<and>
        b2_cbuffer_nbytes lib (snd (b2_get_lazychunk lib s i)) = int (length (chunks s ! i)) \<and>
        (\<forall>out. length out = length (chunks s ! i) \<longrightarrow>
           b2_decompress_ctx lib (snd (b2_get_lazychunk lib s i)) (fst (b2_get_lazychunk lib s i)) out (int (length out)) =
             (int (length out), bytes_of (snd (b2_get_lazychunk lib s i)))))"

section \<open>Values and chunks\<close>

text \<open>The values that \<open>blosc2_set_local\<close> leaves for the filter: revision, block size, size of an element, bytes of a
  chunk, and behind them what the user of the filter has set.\<close>

lemma set_local_values:
  assumes "hl_get_filter h = (r, vs)" and "0 \<le> r" and "4 \<le> length vs" and "length vs \<le> 8"
    and "hl_chunk h = (int (length dims), dims)" and "length dims \<le> 32" and "ucast (hl_size h) \<noteq> (0 :: u32)"
    and "0 \<le> hl_modify h ([1, vs ! 1, case hl_array h of Some n \<Rightarrow> ucast n | None \<Rightarrow> ucast (hl_size h),
      fold (\<lambda>d b. b * ucast d) dims (ucast (hl_size h))] @ drop 4 vs)"
  shows "blosc2_set_local h = Inr (1, Some ([1, vs ! 1, case hl_array h of Some n \<Rightarrow> ucast n | None \<Rightarrow> ucast (hl_size h),
      fold (\<lambda>d b. b * ucast d) dims (ucast (hl_size h))] @ drop 4 vs))"
proof -
  obtain a b c d rest where vs: "vs = a # b # c # d # rest"
    using assms(3) by (auto simp: Suc_le_length_iff numeral_eq_Suc)
  have "take (length vs) ((take 8 (vs @ replicate 8 0))[0 := FILTER_BLOSC2_VERSION, 2 := x, 3 := y]) = [1, vs ! 1, x, y] @ drop 4 vs"
    for x y :: u32
    using assms(4) by (simp add: vs FILTER_BLOSC2_VERSION_def numeral_2_eq_2 numeral_3_eq_3)
  then show ?thesis using assms by (simp add: blosc2_set_local_def Let_def max_def)
qed

lemma ucast_u32: "(ucast (d :: u64) :: u32) = word_of_nat (unat d)"
  by simp

text \<open>The size of a chunk is the product of its dimensions and the size of a type, modulo \<open>2 ^ 32\<close>.\<close>

lemma chunk_bytes: "fold (\<lambda>d b. b * ucast d) dims (ucast t) = (word_of_nat (unat (t :: u64) * prod_list (map unat (dims :: u64 list))) :: u32)"
proof -
  have "fold (\<lambda>d b. b * ucast d) dims (word_of_nat n) = (word_of_nat (n * prod_list (map unat dims)) :: u32)" for n
  proof (induction dims arbitrary: n)
    case (Cons d dims)
    have "word_of_nat n * ucast d = (word_of_nat (n * unat d) :: u32)" by (simp only: ucast_u32 of_nat_mult)
    then show ?case using Cons.IH [of "n * unat d"] by (simp add: ac_simps)
  qed simp
  from this [of "unat t"] show ?thesis by (simp only: ucast_u32)
qed

text \<open>With fewer than two values behind the four reserved ones, which \<open>blosc2_set_local\<close> accepts, the filter reads
  behind its values, although it declares a default level and a default shuffle.\<close>

lemma default_options_undefined:
  assumes "hl_get_filter h = (0, [])" and "hl_chunk h = (1, [n])" and "hl_size h = 2" and "hl_array h = None" and "hl_modify h = (\<lambda>_. 0)"
  shows "blosc2_set_local h = Inr (1, Some [1, 0, 2, 2 * ucast n])"
    and "blosc2_filter_function lib malloc False [1, 0, 2, 2 * ucast n] k buf = Inl (Undefined ''read out of range'')"
proof -
  have "(ucast (2 :: u64) :: u32) = 2" by simp
  moreover have "replicate 8 (0 :: u32) = [0, 0, 0, 0, 0, 0, 0, 0]" by (simp add: eval_nat_numeral)
  ultimately show "blosc2_set_local h = Inr (1, Some [1, 0, 2, 2 * ucast n])"
    using assms by (simp add: blosc2_set_local_def FILTER_BLOSC2_VERSION_def Let_def)
qed (simp add: blosc2_filter_function_def blosc2_filter_compress_def)

section \<open>Compression and decompression\<close>

text \<open>What the filter gives for a compressed chunk: its bytes, as many as the return value says; the size reported for
  the buffer is the one of the uncompressed chunk.\<close>

lemma filter_compress_cases:
  assumes "blosc2_laws lib chunks bytes_of" and "length xs < 2 ^ 31"
    and "blosc2_filter_function lib malloc False cd (length xs) (xs @ rest) = Inr (Some (n, buf, buf_size))"
  obtains s where "b2_to_buffer lib s = (int n, buf, True)" "chunks s = [xs]" "length buf = n" "0 < n" "buf_size = unat (cd ! 3)"
proof -
  have l: "4 \<le> length cd" "6 \<le> length cd"
    using assms(3) by (auto simp: blosc2_filter_function_def blosc2_filter_compress_def split: if_splits)
  have n: "to_int (int (length xs)) = int (length xs)" using assms(2) by (simp add: to_int_def signed_take_bit_int_eq_self)
  obtain status where r: "blosc2_filter_compress lib cd (length xs) (xs @ rest) = Inr (Some (status, buf, buf_size))" "status = int n" "0 < n"
    using assms(3) l(1) by (cases "blosc2_filter_compress lib cd (length xs) (xs @ rest)")
      (auto simp: blosc2_filter_function_def split: option.splits if_splits)
  obtain p where p: "(case b2_schunk_new lib p of None \<Rightarrow> Inr None
      | Some schunk \<Rightarrow>
        (case b2_append_buffer lib schunk (xs @ rest) (int (length xs)) of (status, schunk) \<Rightarrow>
         if status < 0 then Inr None
         else (case b2_to_buffer lib schunk of (status, outbuf, needs_free) \<Rightarrow>
           if status < 0 \<or> \<not> needs_free then Inr None else Inr (Some (status, outbuf, unat (cd ! 3)))))) =
      (Inr (Some (status, buf, buf_size)) :: (int \<times> byte list \<times> nat) option res)"
    using r(1) l(2) unfolding blosc2_filter_compress_def Let_def n by (metis (no_types, lifting) Inr_inject option.distinct(1) not_le)
  obtain s1 where s1: "b2_schunk_new lib p = Some s1" using p by (cases "b2_schunk_new lib p") simp_all
  obtain c s2 where s2: "b2_append_buffer lib s1 (xs @ rest) (int (length xs)) = (c, s2)" "0 \<le> c"
    using p s1 by (cases "b2_append_buffer lib s1 (xs @ rest) (int (length xs))") (auto split: if_splits)
  have s3: "b2_to_buffer lib s2 = (int n, buf, True)" "buf_size = unat (cd ! 3)"
    using p s1 s2 r(2) by (cases "b2_to_buffer lib s2"; auto split: if_splits)+
  have "chunks s1 = []" using assms(1) s1 unfolding blosc2_laws_def by blast
  moreover have "\<forall>s buf n c s'. b2_append_buffer lib s buf n = (c, s') \<and> 0 \<le> c \<and> 0 \<le> n \<and> nat n \<le> length buf \<longrightarrow>
    chunks s' = chunks s @ [take (nat n) buf]" using assms(1) unfolding blosc2_laws_def by (elim conjE)
  from this [rule_format, OF conjI [OF s2(1)]] have "chunks s2 = chunks s1 @ [xs]" using s2(2) by simp
  moreover have "\<forall>s st buf free. b2_to_buffer lib s = (st, buf, free) \<and> 0 \<le> st \<longrightarrow> length buf = nat st"
    using assms(1) unfolding blosc2_laws_def by blast
  from this [rule_format, OF conjI [OF s3(1)]] have "length buf = n" by simp
  ultimately show thesis using that s3 r(3) by simp
qed

text \<open>A chunk that was compressed is decompressed to itself, whatever stands behind it in the buffer; the size of the
  buffer is then the size of the chunk.\<close>

theorem blosc2_filter_round_trip:
  assumes "blosc2_laws lib chunks bytes_of" and "malloc_ok malloc" and "length xs < 2 ^ 31" and "xs \<noteq> []" and "4 \<le> length cd'"
    and "blosc2_filter_function lib malloc False cd (length xs) (xs @ rest) = Inr (Some (n, buf, buf_size))"
  shows "blosc2_filter_function lib malloc True cd' n (take n buf @ rest') = Inr (Some (length xs, xs, length xs))"
proof -
  obtain s where s: "b2_to_buffer lib s = (int n, buf, True)" "chunks s = [xs]" "length buf = n"
    using filter_compress_cases [OF assms(1,3,6)] by blast
  obtain s' where s': "b2_from_buffer lib (buf @ rest') (int n) = Some s'" "chunks s' = [xs]"
    using assms(1) s unfolding blosc2_laws_def by (metis of_nat_0_le_iff)
  obtain cb chunk where c: "b2_get_lazychunk lib s' 0 = (cb, chunk)" by (cases "b2_get_lazychunk lib s' 0")
  have laws: "0 \<le> cb" "bytes_of chunk = xs" "b2_cbuffer_nbytes lib chunk = int (length xs)"
    "\<And>out. length out = length xs \<Longrightarrow> b2_decompress_ctx lib chunk cb out (int (length xs)) = (int (length xs), xs)"
    using assms(1) s'(2) c unfolding blosc2_laws_def by (metis fst_conv snd_conv length_Cons lessI nth_Cons_0 list.size(3) One_nat_def)+
  have size: "unat (word_of_int (int (length xs)) :: u64) = length xs" "to_int (uint (word_of_int (int (length xs)) :: u64)) = int (length xs)"
    using assms(3) by (simp_all add: to_int_def unat_of_nat uint_nat take_bit_nat_eq_self signed_take_bit_int_eq_self)
  obtain out where out: "malloc (length xs) = Some out" "length out = length xs" using assms(2) by (auto simp: malloc_ok_def)
  have "blosc2_filter_decompress lib malloc n (take n buf @ rest') = Some (int (length xs), xs, length xs)"
    using s s'(1) c laws out size assms(4) by (simp add: blosc2_filter_decompress_def)
  then show ?thesis using assms(4,5) by (simp add: blosc2_filter_function_def)
qed

text \<open>The buffer of a compressed chunk is smaller than \<open>*buf_size\<close> says whenever the chunk has become smaller.\<close>

lemma compressed_buffer_size:
  assumes "blosc2_laws lib chunks bytes_of" and "length xs < 2 ^ 31" and "unat (cd ! 3) = length xs"
    and "blosc2_filter_function lib malloc False cd (length xs) xs = Inr (Some (n, buf, buf_size))" and "n < length xs"
  shows "length buf < buf_size"
  using filter_compress_cases [of lib chunks bytes_of xs malloc cd "[]" n buf buf_size] assms by fastforce

section \<open>The laws can hold\<close>

text \<open>A library that does not compress: a buffer is a byte and the chunk.\<close>

definition plain_blosc2 :: "byte list list blosc2_lib" where
  "plain_blosc2 = \<lparr>b2_compcode_to_compname = (\<lambda>c. if c \<le> 5 then c else - 1), b2_schunk_new = (\<lambda>_. Some []),
     b2_append_buffer = (\<lambda>s buf n. (int (length s) + 1, s @ [take (nat n) buf])),
     b2_to_buffer = (\<lambda>s. if length s = 1 then (1 + int (length (hd s)), 1 # hd s, True) else (- 1, [], False)),
     b2_from_buffer = (\<lambda>buf n. Some [drop 1 (take (nat n) buf)]),
     b2_get_lazychunk = (\<lambda>s i. (int (length (s ! i)), s ! i)), b2_cbuffer_nbytes = (\<lambda>c. int (length c)),
     b2_decompress_ctx = (\<lambda>c cb out n. (n, c))\<rparr>"

lemma plain_blosc2_laws: "blosc2_laws plain_blosc2 (\<lambda>s. s) (\<lambda>c. c)"
proof -
  have "drop 1 (take (nat (1 + int (length x))) ((1 # x) @ rest)) = x" for x rest :: "byte list" by (simp add: nat_add_distrib)
  then show ?thesis by (auto simp: blosc2_laws_def plain_blosc2_def length_Suc_conv nat_add_distrib split: if_splits)
qed

theorem blosc2_filter_round_trip_witness:
  "\<exists>n buf. blosc2_filter_function plain_blosc2 (\<lambda>n. Some (replicate n 0)) False [1, 0, 2, 4, 5, 2, 1] 4 [1, 2, 3, 4, 9] = Inr (Some (n, buf, 4)) \<and>
     blosc2_filter_function plain_blosc2 (\<lambda>n. Some (replicate n 0)) True [1, 0, 2, 4] n (take n buf @ [7]) = Inr (Some (4, [1, 2, 3, 4], 4))"
proof -
  have "blosc2_filter_function plain_blosc2 (\<lambda>n. Some (replicate n 0)) False [1, 0, 2, 4, 5, 2, 1] (length [1, 2, 3, 4 :: byte]) ([1, 2, 3, 4] @ [9]) =
    Inr (Some (5, [1, 1, 2, 3, 4], 4))"
    by (simp add: blosc2_filter_function_def blosc2_filter_compress_def plain_blosc2_def to_int_def BLOSC_BLOSCLZ_def Let_def signed_take_bit_int_eq_self)
  moreover from blosc2_filter_round_trip [OF plain_blosc2_laws _ _ _ _ this, of "[1, 0, 2, 4]" "[7]"]
  have "blosc2_filter_function plain_blosc2 (\<lambda>n. Some (replicate n 0)) True [1, 0, 2, 4] 5 (take 5 [1, 1, 2, 3, 4] @ [7]) =
    Inr (Some (4, [1, 2, 3, 4], 4))" by (simp add: malloc_ok_def)
  ultimately show ?thesis by (intro exI [of _ 5] exI [of _ "[1, 1, 2, 3, 4]"]) (simp add: eval_nat_numeral)
qed

end
