(* ===== verification/Chunker.thy ===== *)
theory Chunker
  imports Formats
begin

unbundle bit_operations_syntax

text \<open>
  \<open>std-data-chunker\<close>: a server on top of the UCX library that keeps the end points of its clients, exchanges tags with
  a client that connects and can send a message to all of them. UCX is third-party: the results of its calls are the
  fields of a \<open>ucx_api\<close> given as an argument, and the end points (\<open>'e\<close>) are abstract. Every handler is a function on the
  state of the server, which records what was handed to the library.
\<close>

section \<open>Tags\<close>

record peer_info_t =
  pi_msg_tag :: u64
  pi_ctrl_tag :: u64
  pi_checksum :: u64

definition hash64bits :: "u64 \<Rightarrow> u64 \<Rightarrow> u64" where
  "hash64bits a b = a XOR (b + 0x9e3779b97f4a7c15 + push_bit 6 a + drop_bit 2 a)"

definition peer_info_bytes :: "peer_info_t \<Rightarrow> byte list" where
  "peer_info_bytes p = u64_bytes (pi_msg_tag p) @ u64_bytes (pi_ctrl_tag p) @ u64_bytes (pi_checksum p)"

definition bytes_peer_info :: "byte list \<Rightarrow> peer_info_t" where
  "bytes_peer_info bs = \<lparr>pi_msg_tag = bytes_u64 (take 8 bs), pi_ctrl_tag = bytes_u64 (take 8 (drop 8 bs)),
     pi_checksum = bytes_u64 (take 8 (drop 16 bs))\<rparr>"

definition make_peer_info :: "u64 \<Rightarrow> u64 \<Rightarrow> peer_info_t" where
  "make_peer_info msg_tag ctrl_tag = \<lparr>pi_msg_tag = msg_tag, pi_ctrl_tag = ctrl_tag, pi_checksum = hash64bits msg_tag ctrl_tag\<rparr>"

section \<open>Connections\<close>

text \<open>\<open>Pending n\<close>: the request of a tagged send is in progress for \<open>n\<close> polls.\<close>

datatype send_request = SendError | SendDone | Pending nat

record ('r, 'e) ucx_api =
  ux_ep_create :: "'r \<Rightarrow> 'e option"
  ux_stream_send :: "'e \<Rightarrow> byte list \<Rightarrow> bool"
  ux_stream_recv :: "'e \<Rightarrow> byte list option"
  ux_tag_send :: "'e \<Rightarrow> byte list \<Rightarrow> send_request"

record 'e chunk_server =
  cs_clients :: "'e list"
  cs_closed :: "'e list" \<comment> \<open>the end points that were closed\<close>
  cs_sent :: "('e \<times> byte list) list" \<comment> \<open>what was sent to which end point\<close>
  cs_polls :: nat \<comment> \<open>calls of \<open>ucp_worker_progress\<close>\<close>

definition stream_send :: "('r, 'e) ucx_api \<Rightarrow> 'e \<Rightarrow> byte list \<Rightarrow> 'e chunk_server \<Rightarrow> 'e chunk_server res" where
  "stream_send ucx ep buffer s =
     (if ux_stream_send ucx ep buffer then Inr (s\<lparr>cs_sent := cs_sent s @ [(ep, buffer)]\<rparr>)
      else Inl (RuntimeError ''ucp_stream_send_nbx failed''))"

definition stream_recv :: "('r, 'e) ucx_api \<Rightarrow> 'e \<Rightarrow> nat \<Rightarrow> byte list res" where
  "stream_recv ucx ep len =
     (case ux_stream_recv ucx ep of None \<Rightarrow> Inl (RuntimeError ''ucp_stream_recv_nbx failed'')
      | Some bs \<Rightarrow> Inr (take len (bs @ replicate len 0)))"

text \<open>The two tags are those of \<open>generate_tag\<close>. The result has the tags of the client, when they were exchanged.\<close>

definition connection_handler ::
  "('r, 'e) ucx_api \<Rightarrow> u64 \<Rightarrow> u64 \<Rightarrow> 'r \<Rightarrow> 'e chunk_server \<Rightarrow> peer_info_t option \<times> 'e chunk_server" where
  "connection_handler ucx tag1 tag2 conn_request s =
     (case ux_ep_create ucx conn_request of None \<Rightarrow> (None, s)
      | Some ep \<Rightarrow>
        let s1 = s\<lparr>cs_clients := cs_clients s @ [ep]\<rparr>
        in case bindE (stream_send ucx ep (peer_info_bytes (make_peer_info tag1 tag2)) s1) (\<lambda>s2.
                bindE (stream_recv ucx ep 24) (\<lambda>bs. Inr (bs, s2))) of
             Inl _ \<Rightarrow> (None, (if ux_stream_send ucx ep (peer_info_bytes (make_peer_info tag1 tag2))
                              then s1\<lparr>cs_sent := cs_sent s1 @ [(ep, peer_info_bytes (make_peer_info tag1 tag2))]\<rparr> else s1)
                         \<lparr>cs_closed := cs_closed s1 @ [ep]\<rparr>)
           | Inr (bs, s2) \<Rightarrow> (Some (bytes_peer_info bs), s2))"

primrec poll_request :: "nat \<Rightarrow> 'e chunk_server \<Rightarrow> 'e chunk_server" where
  "poll_request 0 s = s"
| "poll_request (Suc n) s = poll_request n (s\<lparr>cs_polls := cs_polls s + 1\<rparr>)"

definition blocking_send :: "('r, 'e) ucx_api \<Rightarrow> 'e \<Rightarrow> byte list \<Rightarrow> 'e chunk_server \<Rightarrow> 'e chunk_server res" where
  "blocking_send ucx ep buffer s =
     (case ux_tag_send ucx ep buffer of
        SendError \<Rightarrow> Inl (RuntimeError ''ucp_tag_send_nbx failed'')
      | SendDone \<Rightarrow> Inr (s\<lparr>cs_sent := cs_sent s @ [(ep, buffer)]\<rparr>)
      | Pending n \<Rightarrow> Inr (poll_request n (s\<lparr>cs_sent := cs_sent s @ [(ep, buffer)]\<rparr>)))"

definition broadcast_text :: "byte list" where
  "broadcast_text = take 1024 (map (\<lambda>c. word_of_nat (of_char c)) ''hello, world'' @ replicate 1024 0)"

text \<open>The loop over the clients: the iterator is the number of those that stay, the others are erased.\<close>

fun broadcast_loop :: "('r, 'e) ucx_api \<Rightarrow> byte list \<Rightarrow> 'e list \<Rightarrow> 'e list \<Rightarrow> 'e chunk_server \<Rightarrow> 'e chunk_server" where
  "broadcast_loop ucx msg kept [] s = s\<lparr>cs_clients := kept\<rparr>"
| "broadcast_loop ucx msg kept (ep # eps) s =
     (case blocking_send ucx ep msg s of
        Inr s' \<Rightarrow> broadcast_loop ucx msg (kept @ [ep]) eps s'
      | Inl _ \<Rightarrow> broadcast_loop ucx msg kept eps (s\<lparr>cs_closed := cs_closed s @ [ep]\<rparr>))"

definition broadcast_message :: "('r, 'e) ucx_api \<Rightarrow> 'e chunk_server \<Rightarrow> 'e chunk_server" where
  "broadcast_message ucx s = broadcast_loop ucx broadcast_text [] (cs_clients s) s"

section \<open>\<open>main\<close>\<close>

definition SERVER_PORT :: nat where "SERVER_PORT = 13337"

text \<open>What is called until the server listens, and whether it does; the argument says which of the calls that can fail
  succeed.\<close>

definition chunker_start :: "(string \<Rightarrow> bool) \<Rightarrow> bool \<times> string list" where
  "chunker_start ok =
     (if \<not> ok ''config'' then (False, [''config'']) else
      let calls = [''config'', ''init'', ''release config''] in
      if \<not> ok ''init'' then (False, calls) else
      if \<not> ok ''worker'' then (False, calls @ [''worker'', ''cleanup'']) else
      if \<not> ok ''data worker'' then (False, calls @ [''worker'', ''data worker'', ''cleanup'']) else
      if \<not> ok ''listener'' then (False, calls @ [''worker'', ''data worker'', ''listener'', ''destroy worker'', ''cleanup'']) else
      (True, calls @ [''worker'', ''data worker'', ''listener'']))"

text \<open>A turn of the endless loop at a clock reading in nanoseconds: the next time and whether the library was given the
  chance to work. The broadcast is commented out.\<close>

definition chunker_turn :: "int \<Rightarrow> int \<times> nat \<Rightarrow> int \<times> nat" where
  "chunker_turn now st = (case st of (next_broadcast, progressed) \<Rightarrow>
     if now \<ge> next_broadcast then (next_broadcast + 1000000000, progressed + 1) else (next_broadcast, progressed))"

section \<open>Properties\<close>

text \<open>What a client reads from the bytes of the server is what the server has sent, with a checksum that fits.\<close>

lemma peer_info_round_trip: "bytes_peer_info (peer_info_bytes p) = p"
  by (simp add: bytes_peer_info_def peer_info_bytes_def)

lemma length_peer_info_bytes: "length (peer_info_bytes p) = 24"
  by (simp add: peer_info_bytes_def)

definition reached :: "('r, 'e) ucx_api \<Rightarrow> byte list \<Rightarrow> 'e \<Rightarrow> bool" where
  "reached ucx msg ep \<longleftrightarrow> ux_tag_send ucx ep msg \<noteq> SendError"

lemma poll_request_eq: "poll_request n s = s\<lparr>cs_polls := cs_polls s + n\<rparr>"
  by (induction n arbitrary: s) simp_all

text \<open>A broadcast sends the message once to every client that can be reached, in their order, and closes and forgets
  exactly the others.\<close>

lemma broadcast_loop_eq:
  "\<exists>n. broadcast_loop ucx msg kept eps s = s\<lparr>cs_clients := kept @ filter (reached ucx msg) eps,
     cs_closed := cs_closed s @ filter (\<lambda>ep. \<not> reached ucx msg ep) eps,
     cs_sent := cs_sent s @ map (\<lambda>ep. (ep, msg)) (filter (reached ucx msg) eps), cs_polls := n\<rparr>"
proof (induction eps arbitrary: kept s)
  case Nil
  show ?case by (intro exI [of _ "cs_polls s"]) simp
next
  case (Cons ep eps)
  show ?case
  proof (cases "ux_tag_send ucx ep msg")
    case SendError
    then show ?thesis using Cons.IH [of kept "s\<lparr>cs_closed := cs_closed s @ [ep]\<rparr>"] by (simp add: blocking_send_def reached_def)
  next
    case SendDone
    then show ?thesis using Cons.IH [of "kept @ [ep]" "s\<lparr>cs_sent := cs_sent s @ [(ep, msg)]\<rparr>"] by (simp add: blocking_send_def reached_def)
  next
    case (Pending n)
    then show ?thesis using Cons.IH [of "kept @ [ep]" "s\<lparr>cs_sent := cs_sent s @ [(ep, msg)], cs_polls := cs_polls s + n\<rparr>"]
      by (simp add: blocking_send_def reached_def poll_request_eq)
  qed
qed

theorem broadcast_reaches_all:
  "cs_clients (broadcast_message ucx s) = filter (reached ucx broadcast_text) (cs_clients s) \<and>
   cs_closed (broadcast_message ucx s) = cs_closed s @ filter (\<lambda>ep. \<not> reached ucx broadcast_text ep) (cs_clients s) \<and>
   cs_sent (broadcast_message ucx s) = cs_sent s @ map (\<lambda>ep. (ep, broadcast_text)) (filter (reached ucx broadcast_text) (cs_clients s))"
  using broadcast_loop_eq [of ucx broadcast_text "[]" "cs_clients s" s] unfolding broadcast_message_def by auto

text \<open>A client with which the tags could not be exchanged is closed, but stays in the list of the clients, and the next
  broadcast uses its end point.\<close>

lemma failed_exchange_keeps_client:
  assumes "ux_ep_create ucx conn = Some ep" and "ux_stream_recv ucx ep = None"
  shows "ep \<in> set (cs_closed (snd (connection_handler ucx tag1 tag2 conn s)))"
    and "ep \<in> set (cs_clients (snd (connection_handler ucx tag1 tag2 conn s)))"
  using assms by (simp_all add: connection_handler_def stream_send_def stream_recv_def Let_def)

lemma exchanged_tags:
  assumes "ux_ep_create ucx conn = Some ep" and "ux_stream_send ucx ep (peer_info_bytes (make_peer_info tag1 tag2))"
    and "ux_stream_recv ucx ep = Some (peer_info_bytes p)"
  shows "connection_handler ucx tag1 tag2 conn s = (Some p, s\<lparr>cs_clients := cs_clients s @ [ep],
    cs_sent := cs_sent s @ [(ep, peer_info_bytes (make_peer_info tag1 tag2))]\<rparr>)"
  using assms by (simp add: connection_handler_def stream_send_def stream_recv_def Let_def length_peer_info_bytes peer_info_round_trip)

text \<open>Every worker that was created is destroyed before the process gives up, except when the second worker or the
  listener cannot be created.\<close>

lemma workers_left: "chunker_start (\<lambda>c. c \<noteq> ''data worker'') = (False, [''config'', ''init'', ''release config'', ''worker'', ''data worker'', ''cleanup''])"
  by (simp add: chunker_start_def Let_def)

text \<open>In a row of turns the library works at most once per second of the clock, and after a pause once in every turn until
  it has caught up.\<close>

lemma chunker_turns_behind:
  assumes "\<forall>t \<in> set ts. t0 + 1000000000 * int (length ts - 1) \<le> t"
  shows "fold chunker_turn ts (t0, p) = (t0 + 1000000000 * int (length ts), p + length ts)"
  using assms
proof (induction ts arbitrary: t0 p)
  case (Cons t ts)
  have "t0 \<le> t" using Cons.prems by auto
  moreover have "\<forall>u \<in> set ts. t0 + 1000000000 + 1000000000 * int (length ts - 1) \<le> u"
  proof
    fix u assume "u \<in> set ts"
    then have "t0 + 1000000000 * int (length ts) \<le> u" "length ts = Suc (length ts - 1)"
      using Cons.prems length_pos_if_in_set [OF \<open>u \<in> set ts\<close>] by auto
    then show "t0 + 1000000000 + 1000000000 * int (length ts - 1) \<le> u" by linarith
  qed
  ultimately show ?case using Cons.IH [of "t0 + 1000000000" "p + 1"] by (simp add: chunker_turn_def algebra_simps)
qed simp

end
