(* ===== verification/Spec2Isabelle.thy ===== *)
theory Spec2Isabelle
  imports DetWriter MetaWriter StdBuffer BufferReader BufferDriver Streams Converters ModuleSync StreamSync MetadataSync DelayFilter UdpRecv RamBuffer ImageSize Compress UdpTools WireStreams Shapes Gains EigerPipeline Blosc2Filter Chunker
begin

text \<open>
  Verification of the standard detector buffer (\<open>std_detector_buffer\<close>).

  \<^bold>\<open>The program.\<close> A detector (GigaFRoST, Jungfrau or Eiger) sends the frames of its modules as UDP packets. On the
  receiving machine there is one process per task; they share images through rings of slots in shared memory and
  announce them to each other over ZeroMQ sockets:

  \<^item> a receiver per module (\<open>std-udp-recv\<close>) collects the packets of a frame and puts the frame into the ring of its
    module;
  \<^item> a converter per module (\<open>std-data-convert\<close>) takes the frame from there and writes its pixels to their places in
    the slot of the image;
  \<^item> synchronizers (\<open>std-data-sync\<close>) announce an image when all its modules, or all parts that came from another
    machine, have arrived, and pair images with metadata;
  \<^item> behind the synchronizer stand filters (\<open>std-delay-filter\<close>, \<open>std-gf-filter\<close>), compressors (\<open>std-data-compress\<close>), live
    streams and metadata streams (\<open>std-live-stream\<close>, \<open>std-metadata-stream\<close>), and senders that move images to another
    machine in parts (\<open>std-stream-send\<close>, taken there by \<open>std-stream-receive\<close>);
  \<^item> a driver takes commands over web sockets (\<open>std-det-driver\<close>) and distributes the images of a recording to the file
    writers (\<open>std-det-writer\<close>, \<open>std-det-meta-writer\<close>);
  \<^item> the long-term buffer appends all images to files (\<open>std-buffer-writer\<close>), from which \<open>std-buffer-reader\<close> serves them
    again on the requests of \<open>std-buffer-driver\<close>;
  \<^item> other sources of images are \<open>std-array10-recv\<close> and \<open>std-bsread-recv\<close>; tools are \<open>std-udp-tools\<close>, \<open>shm-holder\<close>,
    \<open>std-chunk-sender\<close> and \<open>std-data-chunker\<close>; \<open>external\<close> has the code of bitshuffle and of the HDF5 plugin for Blosc2.

  \<^bold>\<open>Conventions.\<close> All paths are below \<open>src/source\<close>. Fixed-width integers are words; an \<open>int\<close> is an \<open>int\<close> whose overflow is
  an error. A result of type \<open>res\<close> is a value or a \<open>cpp_error\<close>: an exception of the source, or \<open>Undefined\<close> where the
  behaviour of C++ is undefined (an access out of range, a null pointer, a division by zero, an overflow). Structures
  are records with the fields of the source, memory is a list of bytes and a pointer an offset into it. The endless
  loop of a process is a function for one turn, with what arrives in the turn as an argument; threads that share state
  are a step relation with one step for each critical section or, in the two drivers, for each access to the shared
  state or to a socket. Clock readings are arguments.

  \<^bold>\<open>Libraries.\<close> Code that is not in the repository is an argument of the definitions that use it: ZeroMQ (\<open>zmq_api\<close>,
  and the messages received), the operating system (sockets, shared memory, \<open>malloc\<close>, \<open>seteuid\<close>), protobuf and JSON,
  HDF5 (\<open>h5_api\<close>), Redis (\<open>redis_api\<close>), Blosc2 (\<open>blosc_api\<close>, \<open>blosc2_lib\<close>), LZ4, UCX, the bsread receiver, the arithmetic
  and printing of floating-point numbers. What a theorem needs of them is a named hypothesis (\<open>h5_laws\<close>, \<open>redis_laws\<close>,
  \<open>blosc_laws\<close>, \<open>blosc2_laws\<close>, \<open>malloc_ok\<close>, \<open>lz4_laws\<close> and the like) that states documented behaviour; each has an instance.

  \<^bold>\<open>Theories and sources.\<close>

  \<^item> \<open>Prelude\<close>: words, errors and their sequencing (\<open>bindE\<close>, \<open>forE\<close>), memory copies, decimal numbers, and the locale
    \<open>transition_system\<close> for invariants of step relations. \<open>Ordered_Map\<close>: \<open>std::map\<close>, with the locale \<open>ordered_map\<close>.
  \<^item> \<open>Formats\<close>, \<open>GfGeometry\<close> (\<open>detectors\<close>, \<open>core-buffer/formats.hpp\<close>, the protobuf messages): the structures, their byte
    layouts and the geometry of a GigaFRoST module.
  \<^item> \<open>DetectorConfig\<close>, \<open>ImageSize\<close>, \<open>Stats\<close> (\<open>utils\<close>): configuration and module masks; image sizes, numbers of slots, and
    the parts in which an image is sent (which byte is sent by which forwarder, which bytes by none, and when the number
    of parts is the one the receiving synchronizer waits for); the statistics collectors, whose printed messages add up
    to what was counted (locale \<open>flushed_counter\<close>, nine interpretations).
  \<^item> \<open>RamBuffer\<close>, \<open>Sockets\<close> (\<open>core-buffer\<close>): the ring of slots and the communicator; an image stays readable until
    its slot comes round again (locale \<open>slot_store\<close>); how sockets are opened.
  \<^item> \<open>UdpSockets\<close>, \<open>UdpRecv\<close>, \<open>UdpTools\<close> (\<open>std-udp-recv\<close>, \<open>std-udp-tools\<close>): reception of many datagrams
    into the buffers that the constructor lays out, over a \<open>recvmmsg\<close> with its documented behaviour (\<open>recvmmsg_law\<close>); the
    three receivers, which put every packet in its place and count the missing ones when the last packet of a frame
    comes last and another one before it (locales \<open>frame_receiver\<close> and \<open>block_receiver\<close>; a last packet that comes alone
    is not sent: \<open>jf_only_last_packet\<close>, \<open>eg_only_last_packet\<close>); dump and replay of packets as a round trip.
  \<^item> \<open>Converters\<close>, \<open>Gains\<close> (\<open>std-data-convert\<close>): the eight GigaFRoST converters assemble the image in any order, the
    Jungfrau converter copies or corrects every pixel. \<open>EigerPipeline\<close>: receiver and converter of an Eiger module
    together, from the packets to the bytes of the image.
  \<^item> \<open>ModuleSync\<close>, \<open>StreamSync\<close>, \<open>MetadataSync\<close> (\<open>std-data-sync\<close>), \<open>DelayFilter\<close> (\<open>std-delay-filter\<close>): completeness and
    boundedness in every interleaving; refinement of a queue of incomplete images and of a bounded first-in
    first-out queue.
  \<^item> \<open>Streams\<close>: senders, receivers, live streams and filters; of an image sent in parts those bytes arrive that belong
    to a part, and with a divisible size all of them.
  \<^item> \<open>DetDriver\<close>, \<open>DetWriter\<close>, \<open>MetaWriter\<close> (\<open>std-det-driver\<close>, \<open>std-det-writer\<close>, \<open>std-det-meta-writer\<close>): the recording
    threads, the requests and the monitors of all socket sessions as a machine with one step for each access to the
    state or to a socket (\<open>driver_thread_step\<close>, \<open>handler_pc\<close>, \<open>monitor_pc\<close>), in which a recording thread terminates and in
    which a late write of another session can change the state under a recording (\<open>late_reset\<close>, \<open>late_stop\<close>); a thread that runs alone does the sequence of the source
    (\<open>writer_driver_start\<close>). With that sequence every image of a recording is a row of the file of its writer, in order,
    and all metadata are in the file of the metadata; a file with two or more images has nothing else.
  \<^item> \<open>StdBuffer\<close>, \<open>BufferReader\<close>, \<open>BufferDriver\<close> (\<open>std-buffer\<close>, \<open>std-buffer-driver\<close>): the files and the database give back
    what was stored; the reader with its loader thread serves the images in order and answers every request; the
    threads of a replay as a machine of steps, with what it can miss (\<open>replay_lost_notification\<close>, \<open>replay_stop_race\<close>).
  \<^item> \<open>Bitshuffle\<close>, \<open>BshufSIMD\<close>, \<open>BshufNEON\<close>, \<open>BshufLz4\<close> (\<open>external/bitshuffle\<close>), \<open>Blosc2Filter\<close> (\<open>external/hdf5-blosc2\<close>),
    \<open>Compress\<close> (\<open>std-data-compress\<close>): scalar, SSE2, AVX2 and NEON routines compute one reference transposition (locale
    \<open>bshuf_passes\<close>, interpreted on each of them); blocks, LZ4 frames and both HDF5 filters are round trips; the compressed
    image of a slot can be read by the filter if it fits into the slot, and is written into the next slot otherwise.
  \<^item> \<open>Wiring\<close>, \<open>WireStreams\<close>: the segments and sockets that every \<open>main\<close> opens (\<open>shm-holder\<close> and \<open>std-chunk-sender\<close>
    included); which services agree about the shape of every segment they share and which do not; the names of a machine
    that is put together from one origin of images and the services behind it have one binding side each and partners
    of the right kind, except that \<open>std-chunk-sender\<close> has none. \<open>Chunker\<close>: \<open>std-data-chunker\<close>.
  \<^item> \<open>Shapes\<close>: lemmas on the layout of buffers and the sizes of messages, kept by every process that writes into a ring
    (locale \<open>typed_process\<close>, interpreted on receivers, converters, stream receivers and the loader); \<open>EigerPipeline\<close> uses
    them.

  \<^bold>\<open>Locales.\<close> Every locale is an interface between components and is interpreted on the definitions of the model in
  the theory that provides them: \<open>transition_system\<close> on the synchronizers, the driver and the replays, \<open>ordered_map\<close> on the
  lists of \<open>Ordered_Map\<close>, \<open>slot_store\<close> on the RAM buffer, and those named above.

  \<^bold>\<open>Bounds.\<close> Loops are structural or have a termination measure; there is no fuel. Where progress is claimed, the number
  of steps is stated (five steps of the loader until the buffer reader answers a request, one turn of the sending loop
  until a complete image is announced, \<open>6 N + 13\<close> steps and six for each turn of the receiving loop until a recording
  thread with \<open>N\<close> writers is finished). Hypotheses on
  sizes say that products do not wrap around (images below \<open>2 ^ 31\<close> or \<open>2 ^ 32\<close> bytes, at most \<open>2 ^ 16\<close> modules), which
  detectors respect; where the source fails outside of them, a theorem or a lemma says so.

  \<^bold>\<open>Not modelled.\<close> The command line (argparse), logging (spdlog) and the generated version header; the web socket
  library, of which only the requests and the responses appear; the branch of bitshuffle for big-endian processors, and
  its ZSTD functions, which are not built; what floating-point numbers are.
\<close>

end
